(* ===== verification/GoPrelude.thy ===== *)
theory GoPrelude
  imports Complex_Main "HOL-Library.Word" "HOL-Library.AList"
begin

text \<open>
  Shared vocabulary of the development: the Go values the components exchange, the machine
  integers, and the generic facts on lists and maps the component proofs use.

  A Go \<open>string\<close> is a \<open>string\<close> (a list of bytes), a Go slice is a list, a Go \<open>map\<close> is a
  partial function (or an association list where it is a component of a datatype), a Go pointer
  that may be nil is an option.  An \<open>int\<close> or \<open>time.Duration\<close> whose overflow matters is a
  \<open>64 word\<close> read with \<open>sint\<close>; elsewhere it is a HOL \<open>int\<close>.
\<close>

section \<open>Go values\<close>

type_synonym int64 = "64 word"

text \<open>The dynamic value of a Go \<open>any\<close>; a \<open>float64\<close> is read as the rational it holds.  \<open>AnyRef\<close> stands for a value the component only passes on.\<close>

datatype go_any =
    AnyNil
  | AnyBool bool
  | AnyInt int
  | AnyFloat rat
  | AnyStr string
  | AnyList "go_any list"
  | AnyMap "(string \<times> go_any) list"
  | AnyRef nat

text \<open>A Go function with result \<open>(T, error)\<close> returns \<open>Inr\<close> of the value or \<open>Inl\<close> of the error.\<close>

type_synonym ('e, 'a) outcome = "'e + 'a"

section \<open>Lemma collections\<close>

named_theorems go_defs \<open>definitions of operations that are unfolded on concrete inputs\<close>
named_theorems frame_simps \<open>fields an operation leaves unchanged\<close>
named_theorems inv_intros \<open>preservation of a component's invariant by its operations\<close>

section \<open>Lists and maps\<close>

lemma map_upd_dom_insert [simp]: "dom (\<lambda>x. if x = k then Some v else m x) = insert k (dom m)"
  by (auto simp: dom_def)

lemma filter_count_le: "length (filter P xs) \<le> length xs"
  by (rule length_filter_le)

lemma length_filter_split:
  "length xs = length (filter P xs) + length (filter (\<lambda>x. \<not> P x) xs)"
  by (induction xs) auto

lemma takeWhile_rev_snoc_True:
  "P x \<Longrightarrow> takeWhile P (rev (xs @ [x])) = x # takeWhile P (rev xs)"
  by simp

lemma takeWhile_rev_snoc_False:
  "\<not> P x \<Longrightarrow> takeWhile P (rev (xs @ [x])) = []"
  by simp

lemma distinct_filter_length_card:
  "distinct xs \<Longrightarrow> length (filter P xs) = card {x \<in> set xs. P x}"
  by (metis distinct_card distinct_filter set_filter)

section \<open>Signed 64-bit arithmetic\<close>

lemma sint64_bounds: "- (2 ^ 63) \<le> sint (w :: int64)" "sint (w :: int64) < 2 ^ 63"
  using sint_range_size [of w] by (simp_all add: word_size)

lemma sint64_of_int:
  assumes "- (2 ^ 63) \<le> i" and "i < 2 ^ 63"
  shows "sint (word_of_int i :: int64) = i"
  using assms by (simp add: sint_sbintrunc' signed_take_bit_int_eq_self)

end
