(* ===== verification/TailStore.thy ===== *)
theory TailStore
  imports GoPrelude
begin

text \<open>
  The bounded output store of a background job (\<open>tailStore\<close> in \<open>core/jobs/jobs.go\<close>) and its
  refinement: the abstract store is everything ever written, the concrete one its newest bytes
  and their total number.  The element type \<open>'a\<close> stands for the byte.
\<close>

record 'a tail_store =
  ts_buf :: "'a list"
  ts_cap :: nat
  ts_total :: nat

definition defaultStoreCap :: nat where
  "defaultStoreCap = 2 ^ 20"

definition store_cap :: "int \<Rightarrow> nat" where
  "store_cap c = (if c \<le> 0 then defaultStoreCap else nat c)"

definition newTailStore :: "int \<Rightarrow> 'a tail_store" where
  "newTailStore c = \<lparr>ts_buf = [], ts_cap = store_cap c, ts_total = 0\<rparr>"

definition ts_write :: "'a list \<Rightarrow> 'a tail_store \<Rightarrow> 'a tail_store" where
  "ts_write p s =
     (let buf = ts_buf s @ p;
          s = s\<lparr>ts_buf := buf, ts_total := ts_total s + length p\<rparr>
      in if length buf > ts_cap s then s\<lparr>ts_buf := drop (length buf - ts_cap s) buf\<rparr> else s)"

definition ts_read :: "int \<Rightarrow> 'a tail_store \<Rightarrow> 'a list \<times> int" where
  "ts_read since s =
     (let buf = ts_buf s; total = int (ts_total s);
          start = since - (total - int (length buf));
          start = (if start < 0 then 0 else start);
          start = (if start > int (length buf) then int (length buf) else start)
      in (drop (nat start) buf, total))"

text \<open>\<open>e.output.buf.Reset()\<close> followed by a write, as a final-output job ends: the total is kept.\<close>

definition ts_reset_write :: "'a list \<Rightarrow> 'a tail_store \<Rightarrow> 'a tail_store" where
  "ts_reset_write p s = ts_write p (s\<lparr>ts_buf := []\<rparr>)"

section \<open>Refinement of the unbounded stream\<close>

text \<open>The newest \<open>n\<close> elements of a list.\<close>

definition suffix_of :: "nat \<Rightarrow> 'a list \<Rightarrow> 'a list" where
  "suffix_of n xs = drop (length xs - n) xs"

lemma length_suffix_of [simp]: "length (suffix_of n xs) = min n (length xs)"
  by (simp add: suffix_of_def)

lemma suffix_of_append: "suffix_of n (suffix_of n xs @ ys) = suffix_of n (xs @ ys)"
  by (cases "n \<le> length xs") (auto simp: suffix_of_def add.commute)

lemma suffix_of_all_after:
  assumes "k \<le> length xs" "length xs \<le> k + c"
  shows "suffix_of (min c (length xs - k)) xs = drop k xs"
proof -
  have "min c (length xs - k) = length xs - k" using assms(2) by simp
  with assms(1) show ?thesis by (simp add: suffix_of_def)
qed

definition ts_abs :: "'a list \<Rightarrow> 'a tail_store \<Rightarrow> bool" where
  "ts_abs all s \<longleftrightarrow> ts_buf s = suffix_of (ts_cap s) all \<and> ts_total s = length all"

lemma ts_cap_new [simp]: "ts_cap (newTailStore c) = store_cap c"
  by (simp add: newTailStore_def)

lemma ts_abs_new: "ts_abs [] (newTailStore c)"
  by (simp add: ts_abs_def newTailStore_def suffix_of_def)

lemma ts_abs_write: "ts_abs all s \<Longrightarrow> ts_abs (all @ p) (ts_write p s)"
  using suffix_of_append [of "ts_cap s" all p]
  by (auto simp: ts_abs_def ts_write_def Let_def suffix_of_def)

lemma ts_cap_write [frame_simps]: "ts_cap (ts_write p s) = ts_cap s"
  by (simp add: ts_write_def Let_def)

lemma ts_abs_writes: "ts_abs all s \<Longrightarrow> ts_abs (all @ concat ps) (fold ts_write ps s)"
proof (induction ps arbitrary: all s)
  case Nil
  then show ?case by simp
next
  case (Cons p ps)
  have "ts_abs ((all @ p) @ concat ps) (fold ts_write ps (ts_write p s))"
    by (rule Cons.IH [OF ts_abs_write [OF Cons.prems]])
  then show ?case by simp
qed

lemma ts_cap_writes: "ts_cap (fold ts_write ps s) = ts_cap s"
  by (induction ps arbitrary: s) (simp_all add: frame_simps)

lemma ts_abs_read:
  assumes "ts_abs all s" "k \<le> length all"
  shows "ts_read (int k) s = (suffix_of (min (ts_cap s) (length all - k)) all, int (length all))"
proof (cases "ts_cap s \<le> length all - k")
  case True
  with assms show ?thesis
    by (auto simp: ts_abs_def ts_read_def Let_def suffix_of_def)
next
  case False
  have buf: "ts_buf s = drop (length all - ts_cap s) all" "ts_total s = length all"
    using assms(1) by (simp_all add: ts_abs_def suffix_of_def)
  have "int (length all) - int (length (ts_buf s)) = int (length all - ts_cap s)"
    by (simp add: buf)
  moreover have "length all - ts_cap s \<le> k" using False assms(2) by linarith
  ultimately have "nat (int k - (int (length all) - int (length (ts_buf s)))) + (length all - ts_cap s) = k"
    "0 \<le> int k - (int (length all) - int (length (ts_buf s)))"
    "int k - (int (length all) - int (length (ts_buf s))) \<le> int (length (ts_buf s))"
    using assms(2) by linarith+
  then have "ts_read (int k) s = (drop k all, int (length all))"
    by (simp add: ts_read_def Let_def buf(2)) (simp add: buf(1) not_less [symmetric])
  with False assms(2) show ?thesis by (simp add: suffix_of_def)
qed

text \<open>
  C35. Incremental reads.  After any writes to a new store (and no reset by a final output), a reader holding a cursor it was given before gets
  the newest bytes after that cursor, as many of them as the store retains, and the total as the
  new cursor; a reader that is at most the cap behind loses nothing.
\<close>

theorem tail_store_read:
  assumes "k \<le> length (concat ps)"
  shows "ts_read (int k) (fold ts_write ps (newTailStore c)) =
           (suffix_of (min (store_cap c) (length (concat ps) - k)) (concat ps),
            int (length (concat ps))) \<and>
         (length (concat ps) \<le> k + store_cap c \<longrightarrow>
          fst (ts_read (int k) (fold ts_write ps (newTailStore c))) = drop k (concat ps))"
proof -
  have "ts_abs (concat ps) (fold ts_write ps (newTailStore c))"
    using ts_abs_writes [OF ts_abs_new, of ps c] by simp
  from ts_abs_read [OF this assms] show ?thesis
    using suffix_of_all_after [OF assms] by (simp only: ts_cap_writes ts_cap_new fst_conv simp_thms) blast
qed

theorem tail_store_read_witness:
  "ts_read 3 (fold ts_write [[1,2,3], [4,5,6,7], [8 :: nat]] (newTailStore 4)) = ([5,6,7,8], 8)"
  using tail_store_read [of 3 "[[1,2,3], [4,5,6,7], [8 :: nat]]" 4]
  by (simp add: newTailStore_def store_cap_def suffix_of_def)

text \<open>
  Memory bound.  A store built with any cap never retains more than it, however much is
  written, and its read after the last cursor is empty.
\<close>

theorem tail_store_bounded:
  "length (ts_buf (fold ts_write ps (newTailStore c))) \<le> store_cap c \<and>
   fst (ts_read (snd (ts_read 0 (fold ts_write ps (newTailStore c)))) (fold ts_write ps (newTailStore c))) = []"
proof -
  have a: "ts_abs (concat ps) (fold ts_write ps (newTailStore c))"
    using ts_abs_writes [OF ts_abs_new, of ps c] by simp
  then have "length (ts_buf (fold ts_write ps (newTailStore c))) \<le> store_cap c"
    by (simp add: ts_abs_def ts_cap_writes min_le_iff_disj)
  moreover have "snd (ts_read 0 (fold ts_write ps (newTailStore c))) = int (length (concat ps))"
    using ts_abs_read [OF a, of 0] by simp
  ultimately show ?thesis
    using ts_abs_read [OF a, of "length (concat ps)"]
    by (simp add: newTailStore_def store_cap_def suffix_of_def)
qed

end
