(* ===== verification/GoErrors.thy ===== *)
theory GoErrors
  imports GoPrelude
begin

text \<open>
  The error vocabulary of \<open>core/kernel/errors.go\<close> and the retryability authority of
  \<open>core/kernel/hooks.go\<close>.  An error value is a \<open>go_error\<close>; its wrapping structure is what
  Go's \<open>Unwrap\<close> methods expose, and \<open>errors.Is\<close> / \<open>errors.As\<close> walk it in pre-order.
\<close>

section \<open>Error values\<close>

text \<open>The package-level sentinels: those of the kernel and the three of the standard library the code tests for.\<close>

datatype sentinel =
    ErrAgentNotFound | ErrToolNotFound | ErrModelNotFound | ErrSessionNotFound
  | ErrCheckpointNotFound | ErrRegistryNotFound | ErrInvalidInput | ErrNilModel
  | ErrMaxStepsReached | ErrMaxCyclesReached | ErrStreamError | ErrMiddlewareError
  | ErrNilTools | ErrCircuitOpen | ErrRateLimited | ErrProtocolError | ErrMCPError
  | CtxCanceled | CtxDeadlineExceeded | IoEOF

datatype ErrorCode =
    CodeAgentError | CodeToolError | CodeModelError | CodeValidationError | CodeRuntimeError
  | CodeProtocolError | CodeMiddlewareError | CodeCircuitOpen | CodeRateLimited | CodeTimeout
  | CodeNotFound | CodeCancelled

text \<open>
  One constructor per error struct of the file, its fields in the source's order (a field of type
  \<open>error\<close> is an option, nil being \<open>None\<close>); \<open>Errorf\<close> is an \<open>errors.New\<close> or
  \<open>fmt.Errorf\<close> value without a wrapped error, \<open>WrapErr\<close> a \<open>fmt.Errorf\<close> value with one
  \<open>%w\<close>, \<open>JoinErr\<close> an \<open>errors.Join\<close> value (or several \<open>%w\<close>).
\<close>

datatype go_error =
    Sentinel sentinel
  | Errorf string
  | WrapErr string go_error
  | JoinErr "go_error list"
  | NotFoundError string string "go_error option" "(string \<times> go_any) list"
  | InputError string go_any "go_error option" string
  | StepError string int int "go_error option" string
  | StreamError string "go_error option" string
  | ProtocolError string string "go_error option" string
  | MiddlewareError string string "go_error option" string
  | AgentError ErrorCode string int "go_error option" string "(string \<times> go_any) list"
  | ToolError ErrorCode string string "go_error option" string
  | ModelError ErrorCode string "go_error option" string bool
  | ValidationError string go_any string string
  | ValidationErrors "go_error list"
  | CircuitError string string
  | RateLimitError string int string

subsection \<open>Constructors\<close>

definition resolveNotFoundCause :: "string \<Rightarrow> go_error" where
  "resolveNotFoundCause kind =
     (if kind = ''agent'' then Sentinel ErrAgentNotFound
      else if kind = ''tool'' then Sentinel ErrToolNotFound
      else if kind = ''model'' then Sentinel ErrModelNotFound
      else if kind = ''session'' then Sentinel ErrSessionNotFound
      else if kind = ''checkpoint'' then Sentinel ErrCheckpointNotFound
      else if kind = ''registry'' then Sentinel ErrRegistryNotFound
      else Errorf (''unknown not-found kind: '' @ kind))"

definition NewNotFoundError :: "string \<Rightarrow> string \<Rightarrow> go_error" where
  "NewNotFoundError kind key = NotFoundError kind key (Some (resolveNotFoundCause kind)) []"

text \<open>\<open>WithDetail\<close> writes into the error's own map; on any other value it is not callable.\<close>

fun WithDetail :: "go_error \<Rightarrow> string \<Rightarrow> go_any \<Rightarrow> go_error" where
  "WithDetail (NotFoundError kind k c d) key v = NotFoundError kind k c (AList.update key v d)"
| "WithDetail (AgentError code a s c m d) key v = AgentError code a s c m (AList.update key v d)"
| "WithDetail e key v = e"

definition or_cause :: "go_error option \<Rightarrow> go_error \<Rightarrow> go_error option" where
  "or_cause c d = (case c of None \<Rightarrow> Some d | Some e \<Rightarrow> Some e)"

definition NewInputError :: "string \<Rightarrow> go_any \<Rightarrow> go_error option \<Rightarrow> string \<Rightarrow> go_error" where
  "NewInputError field val cause msg = InputError field val (or_cause cause (Sentinel ErrInvalidInput)) msg"

definition NewStepError :: "string \<Rightarrow> int \<Rightarrow> int \<Rightarrow> string \<Rightarrow> go_error" where
  "NewStepError kind limit actual agentName =
     StepError kind limit actual
       (Some (Sentinel (if kind = ''cycle'' then ErrMaxCyclesReached else ErrMaxStepsReached))) agentName"

definition NewStreamError :: "string \<Rightarrow> go_error option \<Rightarrow> string \<Rightarrow> go_error" where
  "NewStreamError opn cause msg = StreamError opn (or_cause cause (Sentinel ErrStreamError)) msg"

definition NewProtocolError :: "string \<Rightarrow> string \<Rightarrow> go_error option \<Rightarrow> string \<Rightarrow> go_error" where
  "NewProtocolError protocol opn cause msg =
     ProtocolError protocol opn
       (or_cause cause (Sentinel (if protocol = ''mcp'' then ErrMCPError else ErrProtocolError))) msg"

definition NewMiddlewareError :: "string \<Rightarrow> string \<Rightarrow> go_error option \<Rightarrow> string \<Rightarrow> go_error" where
  "NewMiddlewareError middleware opn cause msg =
     MiddlewareError middleware opn (or_cause cause (Sentinel ErrMiddlewareError)) msg"

definition NewAgentError :: "ErrorCode \<Rightarrow> string \<Rightarrow> go_error option \<Rightarrow> string \<Rightarrow> go_error" where
  "NewAgentError code agent cause msg = AgentError code agent 0 cause msg []"

definition NewToolError :: "string \<Rightarrow> go_error option \<Rightarrow> string \<Rightarrow> go_error" where
  "NewToolError tool cause msg = ToolError CodeToolError tool [] cause msg"

definition NewModelError :: "string \<Rightarrow> go_error option \<Rightarrow> bool \<Rightarrow> string \<Rightarrow> go_error" where
  "NewModelError model cause retryable msg = ModelError CodeModelError model cause msg retryable"

definition NewValidationError :: "string \<Rightarrow> go_any \<Rightarrow> string \<Rightarrow> string \<Rightarrow> go_error" where
  "NewValidationError field val rule msg = ValidationError field val rule msg"

definition NewCircuitError :: "string \<Rightarrow> go_error" where
  "NewCircuitError route = CircuitError route (''circuit breaker is open for route '' @ route)"

definition NewRateLimitError :: "string \<Rightarrow> int \<Rightarrow> go_error" where
  "NewRateLimitError route retryAfter =
     RateLimitError route retryAfter (''rate limited for route '' @ route)"

definition WrapError :: "ErrorCode \<Rightarrow> go_error option \<Rightarrow> string \<Rightarrow> go_error" where
  "WrapError code cause msg = (case cause of None \<Rightarrow> Errorf msg | Some c \<Rightarrow> WrapErr msg c)"

subsection \<open>The wrapping structure\<close>

text \<open>What the \<open>Unwrap\<close> method of each struct returns (none for the two validation errors).\<close>

fun unwrap :: "go_error \<Rightarrow> go_error list" where
  "unwrap (WrapErr _ e) = [e]"
| "unwrap (JoinErr es) = es"
| "unwrap (NotFoundError _ _ c _) = (case c of None \<Rightarrow> [] | Some e \<Rightarrow> [e])"
| "unwrap (InputError _ _ c _) = (case c of None \<Rightarrow> [] | Some e \<Rightarrow> [e])"
| "unwrap (StepError _ _ _ c _) = (case c of None \<Rightarrow> [] | Some e \<Rightarrow> [e])"
| "unwrap (StreamError _ c _) = (case c of None \<Rightarrow> [] | Some e \<Rightarrow> [e])"
| "unwrap (ProtocolError _ _ c _) = (case c of None \<Rightarrow> [] | Some e \<Rightarrow> [e])"
| "unwrap (MiddlewareError _ _ c _) = (case c of None \<Rightarrow> [] | Some e \<Rightarrow> [e])"
| "unwrap (AgentError _ _ _ c _ _) = (case c of None \<Rightarrow> [] | Some e \<Rightarrow> [e])"
| "unwrap (ToolError _ _ _ c _) = (case c of None \<Rightarrow> [] | Some e \<Rightarrow> [e])"
| "unwrap (ModelError _ _ c _ _) = (case c of None \<Rightarrow> [] | Some e \<Rightarrow> [e])"
| "unwrap (CircuitError _ _) = [Sentinel ErrCircuitOpen]"
| "unwrap (RateLimitError _ _ _) = [Sentinel ErrRateLimited]"
| "unwrap _ = []"

text \<open>
  The pre-order traversal of the error tree that \<open>errors.Is\<close> and \<open>errors.As\<close> examine.  The two
  errors whose \<open>Unwrap\<close> yields a sentinel grow by one level, hence the weight of the measure.
\<close>

definition err_weight :: "go_error \<Rightarrow> nat" where
  "err_weight e = 2 * size e + (case e of CircuitError _ _ \<Rightarrow> 1 | RateLimitError _ _ _ \<Rightarrow> 1 | _ \<Rightarrow> 0)"

lemma err_weight_bounds: "2 * size e \<le> err_weight e" "err_weight e \<le> 2 * size e + 1"
  by (cases e; simp add: err_weight_def)+

lemma list_member_size: "(c :: go_error) \<in> set es \<Longrightarrow> size c < Suc (size_list size es)"
  by (simp add: less_Suc_eq_le size_list_estimation')

lemma unwrap_weight:
  assumes "c \<in> set (unwrap e)"
  shows "err_weight c < err_weight e"
proof (cases "(\<exists>r m. e = CircuitError r m) \<or> (\<exists>r n m. e = RateLimitError r n m)")
  case True
  with assms show ?thesis by (auto simp: err_weight_def)
next
  case False
  with assms have "size c < size e"
    by (cases e) (auto split: option.splits intro: list_member_size)
  with err_weight_bounds [of c] err_weight_bounds [of e] show ?thesis by linarith
qed

function err_chain :: "go_error \<Rightarrow> go_error list" where
  "err_chain e = e # concat (map err_chain (unwrap e))"
  by pat_completeness auto
termination
  by (relation "measure err_weight") (simp_all add: unwrap_weight)

declare err_chain.simps [simp del]

lemma err_chain_unfold: "err_chain e = e # concat (map err_chain (unwrap e))"
  by (rule err_chain.simps)

lemma err_chain_self [simp]: "e \<in> set (err_chain e)"
  by (simp add: err_chain_unfold [of e])

lemma err_chain_leaf: "unwrap e = [] \<Longrightarrow> err_chain e = [e]"
  by (simp add: err_chain_unfold [of e])

lemma err_chain_single: "unwrap e = [c] \<Longrightarrow> err_chain e = e # err_chain c"
  by (simp add: err_chain_unfold [of e])

lemma err_chain_leaves [simp]:
  "err_chain (Sentinel s) = [Sentinel s]"
  "err_chain (Errorf m) = [Errorf m]"
  "err_chain (ValidationError f v r m) = [ValidationError f v r m]"
  "err_chain (ValidationErrors es) = [ValidationErrors es]"
  by (rule err_chain_leaf, simp)+

lemma err_chain_wraps [simp]:
  "err_chain (WrapErr m e) = WrapErr m e # err_chain e"
  "err_chain (StepError k l a (Some e) n) = StepError k l a (Some e) n # err_chain e"
  "err_chain (StreamError opn (Some e) m) = StreamError opn (Some e) m # err_chain e"
  "err_chain (ProtocolError p opn (Some e) m) = ProtocolError p opn (Some e) m # err_chain e"
  "err_chain (MiddlewareError w opn (Some e) m) = MiddlewareError w opn (Some e) m # err_chain e"
  "err_chain (AgentError c ag s (Some e) m d) = AgentError c ag s (Some e) m d # err_chain e"
  "err_chain (ToolError c t args (Some e) m) = ToolError c t args (Some e) m # err_chain e"
  "err_chain (ModelError c md (Some e) m r) = ModelError c md (Some e) m r # err_chain e"
  "err_chain (NotFoundError k ky (Some e) d) = NotFoundError k ky (Some e) d # err_chain e"
  "err_chain (InputError f v (Some e) m) = InputError f v (Some e) m # err_chain e"
  by (rule err_chain_single, simp)+

lemma err_chain_causeless [simp]:
  "err_chain (AgentError c ag s None m d) = [AgentError c ag s None m d]"
  "err_chain (ToolError c t args None m) = [ToolError c t args None m]"
  "err_chain (ModelError c md None m r) = [ModelError c md None m r]"
  by (rule err_chain_leaf, simp)+

lemma err_chain_typed_sentinels [simp]:
  "err_chain (CircuitError r m) = [CircuitError r m, Sentinel ErrCircuitOpen]"
  "err_chain (RateLimitError r n m) = [RateLimitError r n m, Sentinel ErrRateLimited]"
proof -
  have "err_chain (CircuitError r m) = CircuitError r m # err_chain (Sentinel ErrCircuitOpen)"
    by (rule err_chain_single) simp
  then show "err_chain (CircuitError r m) = [CircuitError r m, Sentinel ErrCircuitOpen]" by simp
  have "err_chain (RateLimitError r n m) = RateLimitError r n m # err_chain (Sentinel ErrRateLimited)"
    by (rule err_chain_single) simp
  then show "err_chain (RateLimitError r n m) = [RateLimitError r n m, Sentinel ErrRateLimited]" by simp
qed

definition errors_is :: "sentinel \<Rightarrow> go_error \<Rightarrow> bool" where
  "errors_is s e \<longleftrightarrow> Sentinel s \<in> set (err_chain e)"

fun first_some :: "('a \<Rightarrow> 'b option) \<Rightarrow> 'a list \<Rightarrow> 'b option" where
  "first_some f [] = None"
| "first_some f (x # xs) = (case f x of None \<Rightarrow> first_some f xs | Some y \<Rightarrow> Some y)"

definition errors_as :: "(go_error \<Rightarrow> 'a option) \<Rightarrow> go_error \<Rightarrow> 'a option" where
  "errors_as f e = first_some f (err_chain e)"

lemma first_some_None_iff: "first_some f xs = None \<longleftrightarrow> (\<forall>x \<in> set xs. f x = None)"
  by (induction xs) (auto split: option.splits)

section \<open>Classification\<close>

definition IsNotFoundError :: "go_error \<Rightarrow> bool" where
  "IsNotFoundError e \<longleftrightarrow> (\<exists>x \<in> set (err_chain e). case x of NotFoundError _ _ _ _ \<Rightarrow> True | _ \<Rightarrow> False)"

definition IsInputError :: "go_error \<Rightarrow> bool" where
  "IsInputError e \<longleftrightarrow> (\<exists>x \<in> set (err_chain e). case x of InputError _ _ _ _ \<Rightarrow> True | _ \<Rightarrow> False)"

definition IsStepError :: "go_error \<Rightarrow> bool" where
  "IsStepError e \<longleftrightarrow> (\<exists>x \<in> set (err_chain e). case x of StepError _ _ _ _ _ \<Rightarrow> True | _ \<Rightarrow> False)"

definition IsStreamError :: "go_error \<Rightarrow> bool" where
  "IsStreamError e \<longleftrightarrow> (\<exists>x \<in> set (err_chain e). case x of StreamError _ _ _ \<Rightarrow> True | _ \<Rightarrow> False)"

definition IsProtocolError :: "go_error \<Rightarrow> bool" where
  "IsProtocolError e \<longleftrightarrow> (\<exists>x \<in> set (err_chain e). case x of ProtocolError _ _ _ _ \<Rightarrow> True | _ \<Rightarrow> False)"

definition IsMiddlewareError :: "go_error \<Rightarrow> bool" where
  "IsMiddlewareError e \<longleftrightarrow>
     (\<exists>x \<in> set (err_chain e). case x of MiddlewareError _ _ _ _ \<Rightarrow> True | _ \<Rightarrow> False)"

definition IsAgentError :: "go_error \<Rightarrow> bool" where
  "IsAgentError e \<longleftrightarrow> (\<exists>x \<in> set (err_chain e). case x of AgentError _ _ _ _ _ _ \<Rightarrow> True | _ \<Rightarrow> False)"

definition IsErrorCode :: "go_error \<Rightarrow> ErrorCode \<Rightarrow> bool" where
  "IsErrorCode e code =
     (case errors_as (\<lambda>x. case x of AgentError c _ _ _ _ _ \<Rightarrow> Some c | _ \<Rightarrow> None) e of
        Some c \<Rightarrow> c = code | None \<Rightarrow> False)"

definition IsToolError :: "go_error \<Rightarrow> bool" where
  "IsToolError e \<longleftrightarrow> (\<exists>x \<in> set (err_chain e). case x of ToolError _ _ _ _ _ \<Rightarrow> True | _ \<Rightarrow> False)"

text \<open>The \<open>Retryable\<close> flag of the first \<open>ModelError\<close> in the chain, as \<open>errors.As\<close> finds it.\<close>

definition model_retryable :: "go_error \<Rightarrow> bool option" where
  "model_retryable = errors_as (\<lambda>x. case x of ModelError _ _ _ _ r \<Rightarrow> Some r | _ \<Rightarrow> None)"

definition IsModelError :: "go_error \<Rightarrow> bool" where
  "IsModelError e \<longleftrightarrow> model_retryable e \<noteq> None"

definition IsRetryable :: "go_error \<Rightarrow> bool" where
  "IsRetryable e = (case model_retryable e of Some r \<Rightarrow> r | None \<Rightarrow> False)"

definition IsValidationError :: "go_error \<Rightarrow> bool" where
  "IsValidationError e \<longleftrightarrow>
     (\<exists>x \<in> set (err_chain e). case x of ValidationError _ _ _ _ \<Rightarrow> True | _ \<Rightarrow> False)"

definition IsCircuitError :: "go_error \<Rightarrow> bool" where
  "IsCircuitError e \<longleftrightarrow> (\<exists>x \<in> set (err_chain e). case x of CircuitError _ _ \<Rightarrow> True | _ \<Rightarrow> False)"

definition IsRateLimitError :: "go_error \<Rightarrow> bool" where
  "IsRateLimitError e \<longleftrightarrow> (\<exists>x \<in> set (err_chain e). case x of RateLimitError _ _ _ \<Rightarrow> True | _ \<Rightarrow> False)"

definition IsNotFound :: "go_error \<Rightarrow> bool" where
  "IsNotFound e \<longleftrightarrow>
     errors_is ErrAgentNotFound e \<or> errors_is ErrToolNotFound e \<or> errors_is ErrModelNotFound e \<or>
     errors_is ErrSessionNotFound e \<or> errors_is ErrCheckpointNotFound e \<or> errors_is ErrRegistryNotFound e"

definition IsCancelled :: "go_error \<Rightarrow> bool" where
  "IsCancelled e \<longleftrightarrow> errors_is CtxCanceled e \<or> errors_is CtxDeadlineExceeded e"

definition IsRetryableError :: "go_error option \<Rightarrow> bool" where
  "IsRetryableError err = (case err of
     None \<Rightarrow> False
   | Some e \<Rightarrow>
       (if errors_is CtxCanceled e \<or> errors_is CtxDeadlineExceeded e then False
        else if IsRetryable e then True
        else if IsModelError e then False
        else if IsRateLimitError e then True
        else if IsCircuitError e then False
        else if IsInputError e \<or> IsNotFound e then False
        else True))"

lemmas classify_defs =
  errors_is_def errors_as_def IsNotFoundError_def IsInputError_def IsStepError_def IsStreamError_def
  IsProtocolError_def IsMiddlewareError_def IsAgentError_def IsToolError_def model_retryable_def
  IsModelError_def IsRetryable_def IsValidationError_def IsCircuitError_def IsRateLimitError_def
  IsNotFound_def IsCancelled_def

subsection \<open>Wrappers the authority looks through\<close>

text \<open>
  The kinds of wrapping that add context only: \<open>fmt.Errorf("...: %w")\<close> and the structs the
  classification never tests for.
\<close>

datatype wrapper =
    ByErrorf string
  | ByStep string int int string
  | ByStream string string
  | ByProtocol string string string
  | ByMiddleware string string string
  | ByAgent ErrorCode string int string "(string \<times> go_any) list"
  | ByTool ErrorCode string string string

fun apply_wrapper :: "wrapper \<Rightarrow> go_error \<Rightarrow> go_error" where
  "apply_wrapper (ByErrorf m) e = WrapErr m e"
| "apply_wrapper (ByStep k l a n) e = StepError k l a (Some e) n"
| "apply_wrapper (ByStream opn m) e = StreamError opn (Some e) m"
| "apply_wrapper (ByProtocol p opn m) e = ProtocolError p opn (Some e) m"
| "apply_wrapper (ByMiddleware w opn m) e = MiddlewareError w opn (Some e) m"
| "apply_wrapper (ByAgent c a s m d) e = AgentError c a s (Some e) m d"
| "apply_wrapper (ByTool c t args m) e = ToolError c t args (Some e) m"

fun wrap_all :: "wrapper list \<Rightarrow> go_error \<Rightarrow> go_error" where
  "wrap_all [] e = e"
| "wrap_all (w # ws) e = apply_wrapper w (wrap_all ws e)"

lemma err_chain_wrapper: "err_chain (apply_wrapper w e) = apply_wrapper w e # err_chain e"
  by (cases w) simp_all

lemma wrapper_transparent:
  "errors_is s (apply_wrapper w e) = errors_is s e"
  "model_retryable (apply_wrapper w e) = model_retryable e"
  "IsInputError (apply_wrapper w e) = IsInputError e"
  "IsCircuitError (apply_wrapper w e) = IsCircuitError e"
  "IsRateLimitError (apply_wrapper w e) = IsRateLimitError e"
  by (cases w; simp add: classify_defs)+

lemma retryable_wrapper: "IsRetryableError (Some (apply_wrapper w e)) = IsRetryableError (Some e)"
  by (simp add: IsRetryableError_def IsRetryable_def IsModelError_def IsNotFound_def wrapper_transparent)

section \<open>Properties\<close>

text \<open>
  Adding context never changes a retry decision: however many context layers
  (\<open>fmt.Errorf("%w")\<close>, step, stream, protocol, middleware, agent or tool errors) are put around
  an error, \<open>IsRetryableError\<close> answers as it does for the bare error.
\<close>

theorem retryable_context_invariant: "IsRetryableError (Some (wrap_all ws e)) = IsRetryableError (Some e)"
  by (induction ws) (simp_all add: retryable_wrapper)

text \<open>
  The decision of the retryability authority, as one table: nil and cancellations are never
  retried; otherwise the first model error of the chain decides by its flag; without a model error
  a rate limit is retried, and anything that is neither a circuit break, an input error nor a
  not-found error is retried.
\<close>

theorem retryable_decision_table:
  "IsRetryableError err \<longleftrightarrow>
     (case err of None \<Rightarrow> False | Some e \<Rightarrow>
        \<not> IsCancelled e \<and>
        (case model_retryable e of
           Some flag \<Rightarrow> flag
         | None \<Rightarrow> IsRateLimitError e \<or> \<not> (IsCircuitError e \<or> IsInputError e \<or> IsNotFound e)))"
  by (auto simp: IsRetryableError_def IsRetryable_def IsModelError_def IsCancelled_def split: option.splits)

text \<open>The typed circuit and rate-limit errors carry their sentinel; the bare sentinels carry no type.\<close>

lemma circuit_error_is_sentinel: "errors_is ErrCircuitOpen (CircuitError r m)"
  by (simp add: errors_is_def)

lemma bare_circuit_sentinel_retryable:
  "\<not> IsCircuitError (Sentinel ErrCircuitOpen) \<and> IsRetryableError (Some (Sentinel ErrCircuitOpen))"
  by (simp add: classify_defs IsRetryableError_def)

end
