(* ===== verification/GoStrings.thy ===== *)
theory GoStrings
  imports GoPrelude
begin

text \<open>
  What the components use of Go's \<open>strings\<close>, \<open>strconv\<close> and \<open>unicode/utf8\<close> packages, on strings as
  lists of bytes: runes, spaces, searching, splitting, decimal numbers.  Letter case and spaces are
  the ASCII ones.
\<close>

section \<open>Runes\<close>

text \<open>Go's UTF-8 decoding of a string: the first rune and the bytes it takes; a byte that starts
  no valid sequence is one replacement rune.\<close>

definition cont_byte :: "nat \<Rightarrow> nat \<Rightarrow> char \<Rightarrow> bool" where
  "cont_byte lo hi c = (lo \<le> of_char c \<and> of_char c \<le> (hi::nat))"

fun decode_rune :: "string \<Rightarrow> nat \<times> nat" where
  "decode_rune [] = (0xFFFD, 0)"
| "decode_rune (c0 # cs) =
     (let b = of_char c0; bad = (0xFFFD, 1);
          lo = (if b = 0xE0 then 0xA0 else if b = 0xF0 then 0x90 else 0x80);
          hi = (if b = 0xED then 0x9F else if b = 0xF4 then 0x8F else 0xBF)
      in if b < 0x80 then (b, 1)
         else if b < 0xC2 \<or> 0xF4 < b then bad
         else (case cs of
             [] \<Rightarrow> bad
           | c1 # cs1 \<Rightarrow>
               if \<not> cont_byte lo hi c1 then bad
               else if b < 0xE0 then ((b - 0xC0) * 64 + (of_char c1 - 0x80), 2)
               else (case cs1 of
                   [] \<Rightarrow> bad
                 | c2 # cs2 \<Rightarrow>
                     if \<not> cont_byte 0x80 0xBF c2 then bad
                     else if b < 0xF0
                          then ((b - 0xE0) * 4096 + (of_char c1 - 0x80) * 64 + (of_char c2 - 0x80), 3)
                     else (case cs2 of
                         [] \<Rightarrow> bad
                       | c3 # _ \<Rightarrow>
                           if \<not> cont_byte 0x80 0xBF c3 then bad
                           else ((b - 0xF0) * 262144 + (of_char c1 - 0x80) * 4096
                                 + (of_char c2 - 0x80) * 64 + (of_char c3 - 0x80), 4)))))"

lemma decode_rune_width:
  assumes "s \<noteq> []"
  shows "0 < snd (decode_rune s) \<and> snd (decode_rune s) \<le> length s \<and> snd (decode_rune s) \<le> 4"
  using assms by (cases s) (auto simp: Let_def split: list.splits)

function runes :: "string \<Rightarrow> nat list" where
  "runes s = (if s = [] then [] else fst (decode_rune s) # runes (drop (snd (decode_rune s)) s))"
  by auto
termination
proof (relation "measure length")
  fix s :: string
  assume "s \<noteq> []"
  then show "(drop (snd (decode_rune s)) s, s) \<in> measure length"
    using decode_rune_width [of s] by (cases s) auto
qed simp

declare runes.simps [simp del]

lemma runes_Nil [simp]: "runes [] = []"
  by (simp add: runes.simps)

lemma length_runes: "length (runes s) \<le> length s"
proof (induction s rule: runes.induct)
  case (1 s)
  show ?case
  proof (cases "s = []")
    case True
    then show ?thesis by (simp add: runes.simps)
  next
    case False
    then show ?thesis
      using 1 decode_rune_width [OF False] by (subst runes.simps) auto
  qed
qed

text \<open>The bytes of a rune; a value that is no Unicode scalar is written as U+FFFD.\<close>

definition encode_rune :: "nat \<Rightarrow> string" where
  "encode_rune r0 =
     (let r = (if r0 < 0xD800 \<or> (0xE000 \<le> r0 \<and> r0 < 0x110000) then r0 else 0xFFFD)
      in if r < 0x80 then [char_of r]
         else if r < 0x800 then [char_of (0xC0 + r div 64), char_of (0x80 + r mod 64)]
         else if r < 0x10000 then
           [char_of (0xE0 + r div 4096), char_of (0x80 + r div 64 mod 64), char_of (0x80 + r mod 64)]
         else [char_of (0xF0 + r div 262144), char_of (0x80 + r div 4096 mod 64),
               char_of (0x80 + r div 64 mod 64), char_of (0x80 + r mod 64)])"

definition scalar :: "nat \<Rightarrow> bool" where
  "scalar r \<longleftrightarrow> r < 0xD800 \<or> (0xE000 \<le> r \<and> r < 0x110000)"

definition string_of_runes :: "nat list \<Rightarrow> string" where
  "string_of_runes rs = concat (map encode_rune rs)"

definition rune_count :: "string \<Rightarrow> nat" where
  "rune_count s = length (runes s)"

lemma decode_two:
  "\<lbrakk>2 \<le> a; a < 32; b < 64\<rbrakk> \<Longrightarrow>
     decode_rune (char_of (192 + a :: nat) # char_of (128 + b :: nat) # s) = (a * 64 + b, 2)"
  by (simp add: Let_def cont_byte_def)

lemma decode_three:
  "\<lbrakk>a < 16; b < 64; c < 64; a = 0 \<longrightarrow> 32 \<le> b; a = 13 \<longrightarrow> b < 32\<rbrakk> \<Longrightarrow>
     decode_rune (char_of (224 + a :: nat) # char_of (128 + b :: nat) # char_of (128 + c :: nat) # s)
       = (a * 4096 + b * 64 + c, 3)"
  by (auto simp: Let_def cont_byte_def)

lemma decode_four:
  "\<lbrakk>a < 5; b < 64; c < 64; d < 64; a = 0 \<longrightarrow> 16 \<le> b; a = 4 \<longrightarrow> b < 16\<rbrakk> \<Longrightarrow>
     decode_rune (char_of (240 + a :: nat) # char_of (128 + b :: nat) # char_of (128 + c :: nat) # char_of (128 + d :: nat) # s)
       = (a * 262144 + b * 4096 + c * 64 + d, 4)"
  by (auto simp: Let_def cont_byte_def)

lemma div_parts:
  fixes r :: nat
  shows "r div 64 * 64 + r mod 64 = r" and "r div 4096 * 4096 + r div 64 mod 64 * 64 + r mod 64 = r"
    and "r div 262144 * 262144 + r div 4096 mod 64 * 4096 + r div 64 mod 64 * 64 + r mod 64 = r"
proof -
  have a: "r div 64 div 64 = r div 4096" and b: "r div 4096 div 64 = r div 262144"
    by (simp_all add: div_mult2_eq [symmetric])
  show 1: "r div 64 * 64 + r mod 64 = r" by simp
  show 2: "r div 4096 * 4096 + r div 64 mod 64 * 64 + r mod 64 = r"
    using div_mult_mod_eq [of "r div 64" 64] 1 unfolding a by linarith
  show "r div 262144 * 262144 + r div 4096 mod 64 * 4096 + r div 64 mod 64 * 64 + r mod 64 = r"
    using div_mult_mod_eq [of "r div 4096" 64] 2 unfolding b by linarith
qed

lemma decode_encode_rune:
  assumes "scalar r"
  shows "decode_rune (encode_rune r @ s) = (r, length (encode_rune r))"
proof -
  have enc: "encode_rune r = (if r < 0x80 then [char_of r]
         else if r < 0x800 then [char_of (0xC0 + r div 64), char_of (0x80 + r mod 64)]
         else if r < 0x10000 then
           [char_of (0xE0 + r div 4096), char_of (0x80 + r div 64 mod 64), char_of (0x80 + r mod 64)]
         else [char_of (0xF0 + r div 262144), char_of (0x80 + r div 4096 mod 64),
               char_of (0x80 + r div 64 mod 64), char_of (0x80 + r mod 64)])"
    using assms by (simp add: encode_rune_def scalar_def)
  consider (one) "r < 0x80" | (two) "0x80 \<le> r" "r < 0x800" | (three) "0x800 \<le> r" "r < 0x10000"
    | (four) "0x10000 \<le> r" by linarith
  then show ?thesis
  proof cases
    case one
    then show ?thesis by (simp add: enc)
  next
    case two
    then have "2 \<le> r div 64" "r div 64 < 32" by linarith+
    from decode_two [OF this, of "r mod 64" s] two show ?thesis by (simp add: enc div_parts del: decode_rune.simps)
  next
    case three
    have 1: "r div 4096 < 16" using three by linarith
    have 2: "r div 4096 = 0 \<longrightarrow> 32 \<le> r div 64 mod 64"
      using three div_parts(2) [of r] by (intro impI) linarith
    have 3: "r div 4096 = 13 \<longrightarrow> r div 64 mod 64 < 32"
      using assms div_parts(2) [of r] unfolding scalar_def by (intro impI) linarith
    from decode_three [OF 1 _ _ 2 3, of "r mod 64" s] three
    show ?thesis by (simp add: enc div_parts del: decode_rune.simps)
  next
    case four
    have r: "r < 1114112" using assms four by (auto simp: scalar_def)
    have 1: "r div 262144 < 5" using r by linarith
    have 2: "r div 262144 = 0 \<longrightarrow> 16 \<le> r div 4096 mod 64"
      using four div_parts(3) [of r] by (intro impI) linarith
    have 3: "r div 262144 = 4 \<longrightarrow> r div 4096 mod 64 < 16"
      using r div_parts(3) [of r] by (intro impI) linarith
    from decode_four [OF 1 _ _ _ 2 3, of "r div 64 mod 64" "r mod 64" s] four
    show ?thesis by (simp add: enc div_parts del: decode_rune.simps)
  qed
qed

lemma encode_rune_ne [simp]: "encode_rune r \<noteq> []"
  by (simp add: encode_rune_def Let_def)

lemma runes_encode: "scalar r \<Longrightarrow> runes (encode_rune r @ s) = r # runes s"
  by (subst runes.simps) (simp add: decode_encode_rune del: decode_rune.simps)

text \<open>Writing runes out and reading the string back gives the same runes.\<close>

lemma runes_string_of_runes: "\<forall>r \<in> set rs. scalar r \<Longrightarrow> runes (string_of_runes rs @ s) = rs @ runes s"
  by (induction rs) (simp_all add: string_of_runes_def runes_encode)

text \<open>An ASCII string is its own list of runes.\<close>

lemma runes_ascii: "\<forall>c \<in> set a. of_char c < (128::nat) \<Longrightarrow> runes (a @ s) = map of_char a @ runes s"
  by (induction a) (simp_all add: runes.simps [of "_ # _"])

lemma decode_scalar: "scalar (fst (decode_rune s))"
proof (cases s)
  case Nil
  then show ?thesis by (simp add: scalar_def)
next
  case (Cons c0 cs)
  show ?thesis
    unfolding Cons scalar_def
    by (auto simp: Let_def cont_byte_def split: list.splits)
qed

lemma runes_scalar: "r \<in> set (runes s) \<Longrightarrow> scalar r"
proof (induction s rule: runes.induct)
  case (1 s)
  then show ?case
    by (cases "s = []") (auto simp: runes.simps [of "_ # _"] neq_Nil_conv decode_scalar simp del: decode_rune.simps)
qed

text \<open>The bytes of the first \<open>n\<close> runes.\<close>

fun cut_runes :: "nat \<Rightarrow> string \<Rightarrow> string" where
  "cut_runes 0 s = []"
| "cut_runes (Suc n) s = (if s = [] then [] else take (snd (decode_rune s)) s @ cut_runes n (drop (snd (decode_rune s)) s))"

lemma ascii_no_cont:
  assumes "of_char c < (128::nat)"
  shows "\<not> cont_byte 0x80 hi c" and "\<not> cont_byte (if b = (0xE0::nat) then 0xA0 else if b = 0xF0 then 0x90 else 0x80) hi c"
  using assms by (auto simp: cont_byte_def)

text \<open>A rune whose bytes are kept decodes the same before an ASCII byte.\<close>

lemma decode_stable:
  assumes "of_char c < (128::nat)" and "h \<noteq> []" and "snd (decode_rune (h @ u)) \<le> length h"
  shows "decode_rune (h @ c # t) = decode_rune (h @ u)"
proof -
  note no = ascii_no_cont [OF assms(1)]
  obtain c0 h1 where h: "h = c0 # h1" using assms(2) by (cases h) simp_all
  show ?thesis
  proof (cases h1)
    case Nil
    show ?thesis using assms(3) unfolding h Nil by (cases u) (auto simp: Let_def no split: list.splits if_splits)
  next
    case h1: (Cons c1 h2)
    show ?thesis
    proof (cases h2)
      case Nil
      show ?thesis using assms(3) unfolding h h1 Nil by (cases u) (auto simp: Let_def no split: list.splits if_splits)
    next
      case h2: (Cons c2 h3)
      show ?thesis
      proof (cases h3)
        case Nil
        show ?thesis using assms(3) unfolding h h1 h2 Nil by (cases u) (auto simp: Let_def no split: if_splits)
      next
        case (Cons c3 h4)
        show ?thesis unfolding h h1 h2 Cons by (simp add: Let_def)
      qed
    qed
  qed
qed

lemma cut_runes_prefix: "\<exists>u. s = cut_runes n s @ u"
proof (induction n s rule: cut_runes.induct)
  case (2 n s)
  show ?case
  proof (cases "s = []")
    case False
    then obtain u where "drop (snd (decode_rune s)) s = cut_runes n (drop (snd (decode_rune s)) s) @ u" using 2 by blast
    then have u: "s = take (snd (decode_rune s)) s @ cut_runes n (drop (snd (decode_rune s)) s) @ u"
      by (metis append_take_drop_id)
    have h: "cut_runes (Suc n) s = take (snd (decode_rune s)) s @ cut_runes n (drop (snd (decode_rune s)) s)"
      using False by simp
    show ?thesis unfolding h append_assoc using u by (rule exI)
  qed simp
qed simp

lemma runes_cut_runes:
  assumes "of_char c < (128::nat)"
  shows "runes (cut_runes n s @ c # t) = take n (runes s) @ runes (c # t)"
proof (induction n s rule: cut_runes.induct)
  case (2 n s)
  let ?w = "snd (decode_rune s)"
  show ?case
  proof (cases "s = []")
    case False
    have w: "?w \<le> length s" using decode_rune_width [OF False] by simp
    obtain u where u: "s = cut_runes (Suc n) s @ u" using cut_runes_prefix by blast
    let ?h = "cut_runes (Suc n) s"
    have h: "?h = take ?w s @ cut_runes n (drop ?w s)" using False by simp
    have ne: "?h \<noteq> []" using decode_rune_width [OF False] False by (simp add: h)
    have "?w \<le> length ?h" using w by (simp add: h)
    then have same: "decode_rune (?h @ c # t) = decode_rune s"
      using decode_stable [OF assms ne, of u t] u by simp
    have "runes (?h @ c # t) = fst (decode_rune s) # runes (drop ?w (?h @ c # t))"
      using same by (subst runes.simps) simp
    also have "drop ?w (?h @ c # t) = cut_runes n (drop ?w s) @ c # t"
      using w by (simp add: h del: cut_runes.simps)
    also have "runes \<dots> = take n (runes (drop ?w s)) @ runes (c # t)" using 2 False by simp
    finally show ?thesis using False by (simp add: runes.simps [of s] del: cut_runes.simps)
  qed simp
qed simp

section \<open>Spaces\<close>

text \<open>\<open>strings.TrimSpace(s) == ""\<close>, for the ASCII spaces.\<close>

definition is_space :: "char \<Rightarrow> bool" where
  "is_space c \<longleftrightarrow> of_char c \<in> {9, 10, 11, 12, 13, 32 :: nat}"

definition is_blank :: "string \<Rightarrow> bool" where
  "is_blank s \<longleftrightarrow> list_all is_space s"

definition TrimSpace :: "string \<Rightarrow> string" where
  "TrimSpace s = rev (dropWhile is_space (rev (dropWhile is_space s)))"

section \<open>Searching\<close>

definition has_prefix :: "string \<Rightarrow> string \<Rightarrow> bool" where
  "has_prefix s pre = (length pre \<le> length s \<and> take (length pre) s = pre)"

definition has_suffix :: "string \<Rightarrow> string \<Rightarrow> bool" where
  "has_suffix s suf = (length suf \<le> length s \<and> drop (length s - length suf) s = suf)"

definition ascii_lower :: "string \<Rightarrow> string" where
  "ascii_lower s = map (\<lambda>c. let n = of_char c in if 65 \<le> n \<and> n \<le> 90 then char_of (n + 32 :: nat) else c) s"

text \<open>The first position of a substring.\<close>

fun index_of :: "string \<Rightarrow> string \<Rightarrow> nat option" where
  "index_of sub [] = (if sub = [] then Some 0 else None)"
| "index_of sub (c # s) =
     (if has_prefix (c # s) sub then Some 0 else map_option Suc (index_of sub s))"

definition contains :: "string \<Rightarrow> string \<Rightarrow> bool" where
  "contains s sub = (index_of sub s \<noteq> None)"

section \<open>Splitting and joining\<close>

fun split_lines :: "string \<Rightarrow> string list" where
  "split_lines [] = [[]]"
| "split_lines (c # s) =
     (if c = CHR 0x0A then [] # split_lines s
      else (case split_lines s of [] \<Rightarrow> [[c]] | l # ls \<Rightarrow> (c # l) # ls))"

text \<open>Cut at every byte that satisfies the predicate, empty pieces included.\<close>

fun split_on :: "(char \<Rightarrow> bool) \<Rightarrow> string \<Rightarrow> string list" where
  "split_on p [] = [[]]"
| "split_on p (c # s) =
     (if p c then [] # split_on p s
      else (case split_on p s of [] \<Rightarrow> [[c]] | w # ws \<Rightarrow> (c # w) # ws))"

fun join_strings :: "string \<Rightarrow> string list \<Rightarrow> string" where
  "join_strings sep [] = []"
| "join_strings sep [x] = x"
| "join_strings sep (x # y # xs) = x @ sep @ join_strings sep (y # xs)"

section \<open>Numbers\<close>

text \<open>The decimal rendering of \<open>fmt.Sprintf("%d")\<close> on a counter.\<close>

fun decimal :: "nat \<Rightarrow> string" where
  "decimal n = (if n < 10 then [char_of (48 + n)] else decimal (n div 10) @ [char_of (48 + n mod 10)])"

declare decimal.simps [simp del]

lemma decimal_digits: "set (decimal n) \<subseteq> {c. 48 \<le> (of_char c :: nat) \<and> (of_char c :: nat) \<le> 57}"
proof (induction n rule: decimal.induct)
  case (1 n)
  then show ?case by (subst decimal.simps) auto
qed

fun undecimal :: "string \<Rightarrow> nat" where
  "undecimal s = foldl (\<lambda>acc c. acc * 10 + (of_char c - 48)) 0 s"

lemma undecimal_decimal: "undecimal (decimal n) = n"
proof (induction n rule: decimal.induct)
  case (1 n)
  then show ?case by (subst decimal.simps) auto
qed

lemma decimal_inj: "decimal m = decimal n \<Longrightarrow> m = n"
  by (metis undecimal_decimal)


text \<open>Go's conversion of a \<open>float64\<close> to an \<open>int\<close> truncates towards zero.\<close>

definition int_of_float :: "rat \<Rightarrow> int" where
  "int_of_float v = (if 0 \<le> v then \<lfloor>v\<rfloor> else \<lceil>v\<rceil>)"

section \<open>Counting and replacing\<close>

text \<open>\<open>strings.Count\<close>, \<open>strings.ReplaceAll\<close> and \<open>strings.Replace\<close> of one occurrence; the empty string
  occurs before every rune and at the end.\<close>

function count_sub :: "string \<Rightarrow> string \<Rightarrow> nat" where
  "count_sub old s =
    (if old = [] \<or> s = [] then 0
     else if has_prefix s old then Suc (count_sub old (drop (length old) s))
     else count_sub old (tl s))"
  by auto
termination by (relation "measure (\<lambda>(old, s). length s)") auto

declare count_sub.simps [simp del]

definition strings_Count :: "string \<Rightarrow> string \<Rightarrow> nat" where
  "strings_Count s old = (if old = [] then Suc (rune_count s) else count_sub old s)"

function replace_all :: "string \<Rightarrow> string \<Rightarrow> string \<Rightarrow> string" where
  "replace_all old new s =
    (if old = [] \<or> s = [] then s
     else if has_prefix s old then new @ replace_all old new (drop (length old) s)
     else hd s # replace_all old new (tl s))"
  by auto
termination by (relation "measure (\<lambda>(old, new, s). length s)") auto

declare replace_all.simps [simp del]

function spread :: "string \<Rightarrow> string \<Rightarrow> string" where
  "spread new s =
    (if s = [] then new
     else new @ take (snd (decode_rune s)) s @ spread new (drop (snd (decode_rune s)) s))"
  by auto
termination
proof (relation "measure (\<lambda>(new, s). length s)")
  fix new s :: string
  assume "s \<noteq> []"
  then show "((new, drop (snd (decode_rune s)) s), new, s) \<in> measure (\<lambda>(new, s). length s)"
    using decode_rune_width [of s] by (cases s) auto
qed simp

declare spread.simps [simp del]

definition ReplaceAll :: "string \<Rightarrow> string \<Rightarrow> string \<Rightarrow> string" where
  "ReplaceAll s old new = (if old = [] then spread new s else replace_all old new s)"

definition replace_first :: "string \<Rightarrow> string \<Rightarrow> string \<Rightarrow> string" where
  "replace_first s old new =
    (case index_of old s of None \<Rightarrow> s | Some i \<Rightarrow> take i s @ new @ drop (i + length old) s)"

lemma has_prefix_append: "has_prefix s p \<Longrightarrow> s = p @ drop (length p) s"
  unfolding has_prefix_def by (metis append_take_drop_id)

lemma index_of_split: "index_of sub s = Some i \<Longrightarrow> s = take i s @ sub @ drop (i + length sub) s \<and> i + length sub \<le> length s"
proof (induction s arbitrary: i)
  case (Cons c s)
  show ?case
  proof (cases "has_prefix (c # s) sub")
    case True
    then show ?thesis using Cons.prems has_prefix_append [OF True] by (auto simp: has_prefix_def)
  next
    case False
    then show ?thesis using Cons by auto
  qed
qed (auto split: if_splits)

lemma index_of_None: "index_of sub s = None \<Longrightarrow> count_sub sub s = 0"
proof (induction s)
  case (Cons c s)
  then show ?case by (subst count_sub.simps) (auto split: if_splits)
qed (simp add: count_sub.simps)

lemma count_sub_pos: "old \<noteq> [] \<Longrightarrow> index_of old s = Some i \<Longrightarrow> 0 < count_sub old s"
proof (induction s arbitrary: i)
  case (Cons c s)
  then show ?case by (subst count_sub.simps) (auto split: if_splits)
qed simp

lemma count_sub_zero: "old \<noteq> [] \<Longrightarrow> count_sub old s = 0 \<longleftrightarrow> \<not> contains s old"
  using index_of_None [of old s] count_sub_pos [of old s] by (cases "index_of old s") (auto simp: contains_def)

text \<open>A single occurrence is replaced in the same way by both.\<close>

lemma replace_all_none: "count_sub old s = 0 \<Longrightarrow> replace_all old new s = s"
proof (induction old s rule: count_sub.induct)
  case (1 old s)
  show ?case
  proof (cases "old = [] \<or> s = []")
    case False
    then have "\<not> has_prefix s old" using 1 by (auto simp: count_sub.simps [of old s])
    then show ?thesis using 1 False by (auto simp: count_sub.simps [of old s] replace_all.simps [of old new s])
  qed (auto simp: replace_all.simps)
qed

lemma replace_unique:
  assumes "old \<noteq> []" and "count_sub old s = 1"
  shows "replace_all old new s = replace_first s old new"
  using assms
proof (induction s)
  case (Cons c s)
  show ?case
  proof (cases "has_prefix (c # s) old")
    case True
    then have "count_sub old (drop (length old) (c # s)) = 0" using Cons.prems by (simp add: count_sub.simps [of old "c # s"])
    from replace_all_none [OF this] show ?thesis using True Cons.prems
      by (simp add: replace_all.simps [of old new "c # s"] replace_first_def)
  next
    case False
    then have "count_sub old s = 1" using Cons.prems by (simp add: count_sub.simps [of old "c # s"])
    then obtain i where "index_of old s = Some i" using index_of_None [of old s] by (cases "index_of old s") auto
    then show ?thesis using Cons False \<open>count_sub old s = 1\<close>
      by (simp add: replace_all.simps [of old new "c # s"] replace_first_def)
  qed
qed (simp add: count_sub.simps)

end
