(* ===== verification/JobRegistry.thy ===== *)
theory JobRegistry
  imports TailStore GoErrors GoStrings
begin

text \<open>
  The background-job registry of \<open>core/jobs/jobs.go\<close> as a concurrent state machine.

  Job entries live in a store indexed by address (the Go pointers), so an entry that was removed
  from the map, or overwritten in it, keeps running.  Each critical section of the code is one
  atomic operation \<open>jop\<close>: \<open>Start\<close> up to its unlock, the assignment of the cancel function that
  follows it, the call of a cancel function that \<open>Kill\<close> or \<open>Teardown\<close> took along under the lock, and the three stages of the job's goroutine (status update, settlement, release) are
  separate operations, so every interleaving of them with \<open>Kill\<close> and \<open>Teardown\<close> is a run.
  Where the goroutine of an entry stands is its \<open>je_pc\<close>.
\<close>

section \<open>State\<close>

datatype job_status = StatusRunning | StatusStopping | StatusCompleted | StatusKilled | StatusFailed

record job =
  job_id :: string
  job_kind :: string
  job_label :: string
  job_owner :: string
  job_status :: job_status

record job_spec =
  spec_id :: string
  spec_kind :: string
  spec_label :: string
  spec_owner :: string
  spec_cap :: int
  spec_final :: bool
  spec_has_run :: bool

datatype job_pc = PcRegistered | PcRunning | PcFinished | PcSettled | PcReleased

record jentry =
  je_job :: job
  je_has_cancel :: bool
  je_cancel_due :: bool
  je_cancelled :: bool
  je_status :: job_status
  je_output :: "char tail_store"
  je_err :: "go_error option"
  je_reported :: bool
  je_final :: bool
  je_pc :: job_pc

text \<open>
  What the registry emits: a settlement notice, a call of the \<open>i\<close>-th done listener, a call of
  the \<open>i\<close>-th change listener.  The first two name the entry they are about.
\<close>

datatype job_event =
    EvNotice nat string job_status string "go_error option"
  | EvDone nat nat job
  | EvChanged nat string

record registry =
  jr_seq :: nat
  jr_items :: "string \<rightharpoonup> nat"
  jr_store :: "jentry list"
  jr_perOwner :: "string \<Rightarrow> int"
  jr_maxPerOwner :: int
  jr_notifier :: bool
  jr_doneListeners :: "bool list"
  jr_changedListeners :: "bool list"
  jr_events :: "job_event list"

definition NewRegistry :: registry where
  "NewRegistry = \<lparr>jr_seq = 0, jr_items = Map.empty, jr_store = [], jr_perOwner = (\<lambda>_. 0),
     jr_maxPerOwner = 10, jr_notifier = False, jr_doneListeners = [], jr_changedListeners = [],
     jr_events = []\<rparr>"

datatype jobs_error = ErrNilRun | ErrJobNotFound | ErrJobExists | ErrJobLimit

section \<open>Operations\<close>

definition SetNotifier :: "bool \<Rightarrow> registry \<Rightarrow> registry" where
  "SetNotifier b r = r\<lparr>jr_notifier := b\<rparr>"

definition SetMaxPerOwner :: "int \<Rightarrow> registry \<Rightarrow> registry" where
  "SetMaxPerOwner n r = r\<lparr>jr_maxPerOwner := (if n \<le> 0 then 10 else n)\<rparr>"

definition OnDone :: "registry \<Rightarrow> registry" where
  "OnDone r = r\<lparr>jr_doneListeners := jr_doneListeners r @ [True]\<rparr>"

definition OffDone :: "nat \<Rightarrow> registry \<Rightarrow> registry" where
  "OffDone i r = r\<lparr>jr_doneListeners := (jr_doneListeners r)[i := False]\<rparr>"

definition OnChanged :: "registry \<Rightarrow> registry" where
  "OnChanged r = r\<lparr>jr_changedListeners := jr_changedListeners r @ [True]\<rparr>"

definition OffChanged :: "nat \<Rightarrow> registry \<Rightarrow> registry" where
  "OffChanged i r = r\<lparr>jr_changedListeners := (jr_changedListeners r)[i := False]\<rparr>"

definition live_listeners :: "bool list \<Rightarrow> nat list" where
  "live_listeners ls = filter (\<lambda>i. ls ! i) [0..<length ls]"

definition emit :: "job_event list \<Rightarrow> registry \<Rightarrow> registry" where
  "emit evs r = r\<lparr>jr_events := jr_events r @ evs\<rparr>"

definition fireChanged :: "string \<Rightarrow> registry \<Rightarrow> registry" where
  "fireChanged owner r = emit (map (\<lambda>i. EvChanged i owner) (live_listeners (jr_changedListeners r))) r"

definition fireDone :: "nat \<Rightarrow> job \<Rightarrow> registry \<Rightarrow> registry" where
  "fireDone p j r = emit (map (\<lambda>i. EvDone i p j) (live_listeners (jr_doneListeners r))) r"

definition upd_entry :: "nat \<Rightarrow> (jentry \<Rightarrow> jentry) \<Rightarrow> registry \<Rightarrow> registry" where
  "upd_entry p f r = r\<lparr>jr_store := (jr_store r)[p := f (jr_store r ! p)]\<rparr>"

text \<open>
  \<open>Start\<close> up to and including its \<open>fireChanged\<close>: the new entry's address, or the error.  An
  explicit id is checked against the map, an assigned one is not.
\<close>

definition Start :: "job_spec \<Rightarrow> registry \<Rightarrow> (jobs_error + nat) \<times> registry" where
  "Start spec r =
     (if \<not> spec_has_run spec then (Inl ErrNilRun, r)
      else if spec_owner spec \<noteq> [] \<and> jr_perOwner r (spec_owner spec) \<ge> jr_maxPerOwner r
      then (Inl ErrJobLimit, r)
      else
        (let kind = (if spec_kind spec = [] then ''job'' else spec_kind spec) in
         if spec_id spec \<noteq> [] \<and> jr_items r (spec_id spec) \<noteq> None then (Inl ErrJobExists, r)
         else
           (let seq = (if spec_id spec = [] then Suc (jr_seq r) else jr_seq r);
                i = (if spec_id spec = [] then kind @ ''-'' @ decimal seq else spec_id spec);
                p = length (jr_store r);
                e = \<lparr>je_job = \<lparr>job_id = i, job_kind = kind, job_label = spec_label spec,
                              job_owner = spec_owner spec, job_status = StatusRunning\<rparr>,
                     je_has_cancel = False, je_cancel_due = False, je_cancelled = False, je_status = StatusRunning,
                     je_output = newTailStore (spec_cap spec), je_err = None, je_reported = False,
                     je_final = spec_final spec, je_pc = PcRegistered\<rparr>;
                r = r\<lparr>jr_seq := seq, jr_items := (jr_items r)(i \<mapsto> p), jr_store := jr_store r @ [e],
                      jr_perOwner := (if spec_owner spec = [] then jr_perOwner r
                        else (jr_perOwner r)(spec_owner spec := jr_perOwner r (spec_owner spec) + 1))\<rparr>
            in (Inr p, fireChanged (spec_owner spec) r))))"

text \<open>The tail of \<open>Start\<close>: the cancel function is stored and the goroutine begins.\<close>

definition launch :: "nat \<Rightarrow> registry \<Rightarrow> registry" where
  "launch p = upd_entry p (\<lambda>e. e\<lparr>je_has_cancel := True, je_pc := PcRunning\<rparr>)"

definition job_write :: "nat \<Rightarrow> char list \<Rightarrow> registry \<Rightarrow> registry" where
  "job_write p bs = upd_entry p (\<lambda>e. e\<lparr>je_output := ts_write bs (je_output e)\<rparr>)"

text \<open>The goroutine after \<open>spec.Run\<close> returned \<open>(final, err)\<close>.\<close>

definition finish_entry :: "string \<Rightarrow> go_error option \<Rightarrow> jentry \<Rightarrow> jentry" where
  "finish_entry final err e =
     (let e = e\<lparr>je_pc := PcFinished\<rparr> in
      case err of
        Some x \<Rightarrow> (if je_cancelled e then e\<lparr>je_status := StatusKilled\<rparr>
                   else e\<lparr>je_status := StatusFailed, je_err := Some x\<rparr>)
      | None \<Rightarrow>
          (let e = (if je_final e then e\<lparr>je_output := ts_reset_write final (je_output e)\<rparr> else e)
           in e\<lparr>je_status := StatusCompleted\<rparr>))"

definition finish :: "nat \<Rightarrow> string \<Rightarrow> go_error option \<Rightarrow> registry \<Rightarrow> registry" where
  "finish p final err = upd_entry p (finish_entry final err)"

definition settle :: "nat \<Rightarrow> registry \<Rightarrow> registry" where
  "settle p r =
     (let e = jr_store r ! p in
      if je_reported e then upd_entry p (\<lambda>e. e\<lparr>je_pc := PcSettled\<rparr>) r
      else
        (let r = upd_entry p (\<lambda>e. e\<lparr>je_reported := True, je_pc := PcSettled\<rparr>) r;
             c = (je_job e)\<lparr>job_status := je_status e\<rparr>;
             r = (if jr_notifier r
                  then emit [EvNotice p (job_id c) (job_status c) (job_label c) (je_err e)] r else r)
         in fireChanged (job_owner c) (fireDone p c r)))"

definition release :: "nat \<Rightarrow> registry \<Rightarrow> registry" where
  "release p r =
     (let owner = job_owner (je_job (jr_store r ! p));
          r = upd_entry p (\<lambda>e. e\<lparr>je_pc := PcReleased\<rparr>) r
      in if owner = [] then r
         else if jr_perOwner r owner > 0
              then r\<lparr>jr_perOwner := (jr_perOwner r)(owner := jr_perOwner r owner - 1)\<rparr> else r)"

text \<open>
  \<open>Kill\<close> and \<open>Teardown\<close> take the cancel function along under the lock (\<open>je_cancel_due\<close>) and call it after the
  unlock and after the change listeners: that call is the separate operation \<open>cancel_job\<close>.
\<close>

definition Kill :: "string \<Rightarrow> registry \<Rightarrow> jobs_error option \<times> registry" where
  "Kill i r = (case jr_items r i of
     None \<Rightarrow> (Some ErrJobNotFound, r)
   | Some p \<Rightarrow>
       (let e = jr_store r ! p in
        if je_status e \<noteq> StatusRunning then (None, r)
        else (None, fireChanged (job_owner (je_job e))
               (upd_entry p (\<lambda>e. e\<lparr>je_status := StatusStopping,
                                  je_cancel_due := (je_cancel_due e \<or> je_has_cancel e)\<rparr>) r))))"

definition cancel_job :: "nat \<Rightarrow> registry \<Rightarrow> registry" where
  "cancel_job p = upd_entry p (\<lambda>e. e\<lparr>je_cancel_due := False, je_cancelled := True\<rparr>)"

definition Output :: "string \<Rightarrow> int \<Rightarrow> registry \<Rightarrow> jobs_error + (char list \<times> int)" where
  "Output i since r = (case jr_items r i of
     None \<Rightarrow> Inl ErrJobNotFound | Some p \<Rightarrow> Inr (ts_read since (je_output (jr_store r ! p))))"

definition Status :: "string \<Rightarrow> registry \<Rightarrow> jobs_error + job" where
  "Status i r = (case jr_items r i of
     None \<Rightarrow> Inl ErrJobNotFound
   | Some p \<Rightarrow> Inr ((je_job (jr_store r ! p))\<lparr>job_status := je_status (jr_store r ! p)\<rparr>))"

text \<open>
  Whether the map holds the entry at address \<open>p\<close>; an entry is stored under its own id only, so
  that is where it is looked for.
\<close>

definition in_items :: "registry \<Rightarrow> nat \<Rightarrow> bool" where
  "in_items r p \<longleftrightarrow> jr_items r (job_id (je_job (jr_store r ! p))) = Some p"

text \<open>\<open>List\<close>: the iteration order of a Go map is unspecified, here it is that of the addresses.\<close>

definition ListJobs :: "string \<Rightarrow> registry \<Rightarrow> job list" where
  "ListJobs owner r =
     map (\<lambda>p. (je_job (jr_store r ! p))\<lparr>job_status := je_status (jr_store r ! p)\<rparr>)
       (filter (\<lambda>p. in_items r p \<and> (owner = [] \<or> job_owner (je_job (jr_store r ! p)) = owner))
          [0..<length (jr_store r)])"

definition settled_status :: "job_status \<Rightarrow> bool" where
  "settled_status s \<longleftrightarrow> s = StatusKilled \<or> s = StatusCompleted \<or> s = StatusFailed"

definition teardown_entry :: "jentry \<Rightarrow> jentry" where
  "teardown_entry e =
     (if je_status e = StatusRunning
      then e\<lparr>je_status := StatusKilled, je_cancel_due := (je_cancel_due e \<or> je_has_cancel e)\<rparr> else e)"

definition Teardown :: "string \<Rightarrow> registry \<Rightarrow> registry" where
  "Teardown owner r =
     (if owner = [] then r
      else
        (let mine = (\<lambda>p. in_items r p \<and> job_owner (je_job (jr_store r ! p)) = owner);
             store = map (\<lambda>p. if mine p then teardown_entry (jr_store r ! p) else jr_store r ! p)
                       [0..<length (jr_store r)];
             items = (\<lambda>i. case jr_items r i of
                        Some p \<Rightarrow> (if mine p \<and> settled_status (je_status (store ! p)) then None else Some p)
                      | None \<Rightarrow> None)
         in fireChanged owner
              (r\<lparr>jr_store := store, jr_items := items, jr_perOwner := (jr_perOwner r)(owner := 0)\<rparr>)))"

section \<open>Interleavings\<close>

datatype jop =
    JSetNotifier bool | JSetMax int | JOnDone | JOffDone nat | JOnChanged | JOffChanged nat
  | JStart job_spec | JLaunch nat | JWrite nat "char list" | JFinish nat string "go_error option"
  | JSettle nat | JRelease nat | JKill string | JTeardown string | JCancel nat

fun jenabled :: "registry \<Rightarrow> jop \<Rightarrow> bool" where
  "jenabled r (JLaunch p) \<longleftrightarrow> p < length (jr_store r) \<and> je_pc (jr_store r ! p) = PcRegistered"
| "jenabled r (JWrite p _) \<longleftrightarrow> p < length (jr_store r) \<and> je_pc (jr_store r ! p) = PcRunning"
| "jenabled r (JFinish p _ _) \<longleftrightarrow> p < length (jr_store r) \<and> je_pc (jr_store r ! p) = PcRunning"
| "jenabled r (JSettle p) \<longleftrightarrow> p < length (jr_store r) \<and> je_pc (jr_store r ! p) = PcFinished"
| "jenabled r (JRelease p) \<longleftrightarrow> p < length (jr_store r) \<and> je_pc (jr_store r ! p) = PcSettled"
| "jenabled r (JCancel p) \<longleftrightarrow> p < length (jr_store r) \<and> je_cancel_due (jr_store r ! p)"
| "jenabled r _ \<longleftrightarrow> True"

fun jexec :: "jop \<Rightarrow> registry \<Rightarrow> registry" where
  "jexec (JSetNotifier b) r = SetNotifier b r"
| "jexec (JSetMax n) r = SetMaxPerOwner n r"
| "jexec JOnDone r = OnDone r"
| "jexec (JOffDone i) r = OffDone i r"
| "jexec JOnChanged r = OnChanged r"
| "jexec (JOffChanged i) r = OffChanged i r"
| "jexec (JStart spec) r = snd (Start spec r)"
| "jexec (JLaunch p) r = launch p r"
| "jexec (JWrite p bs) r = job_write p bs r"
| "jexec (JFinish p final err) r = finish p final err r"
| "jexec (JSettle p) r = settle p r"
| "jexec (JRelease p) r = release p r"
| "jexec (JKill i) r = snd (Kill i r)"
| "jexec (JTeardown owner) r = Teardown owner r"
| "jexec (JCancel p) r = cancel_job p r"

text \<open>A schedule: operations that are not enabled where they stand are no runs of the program.\<close>

fun jrun :: "jop list \<Rightarrow> registry \<Rightarrow> registry option" where
  "jrun [] r = Some r"
| "jrun (op # ops) r = (if jenabled r op then jrun ops (jexec op r) else None)"

inductive jreach :: "registry \<Rightarrow> bool" where
  jreach_new: "jreach NewRegistry"
| jreach_step: "jreach r \<Longrightarrow> jenabled r op \<Longrightarrow> jreach (jexec op r)"

lemma jrun_reach: "jreach r \<Longrightarrow> jrun ops r = Some r' \<Longrightarrow> jreach r'"
  by (induction ops arbitrary: r) (auto split: if_splits intro: jreach_step)

subsection \<open>Frame facts\<close>

lemma emit_frame [simp]:
  "jr_store (emit evs r) = jr_store r" "jr_items (emit evs r) = jr_items r"
  "jr_perOwner (emit evs r) = jr_perOwner r" "jr_maxPerOwner (emit evs r) = jr_maxPerOwner r"
  "jr_seq (emit evs r) = jr_seq r" "jr_events (emit evs r) = jr_events r @ evs"
  "jr_notifier (emit evs r) = jr_notifier r"
  by (simp_all add: emit_def)

lemma fire_frame [simp]:
  "jr_store (fireChanged x r) = jr_store r" "jr_items (fireChanged x r) = jr_items r"
  "jr_perOwner (fireChanged x r) = jr_perOwner r" "jr_maxPerOwner (fireChanged x r) = jr_maxPerOwner r"
  "jr_seq (fireChanged x r) = jr_seq r"
  "jr_store (fireDone p j r) = jr_store r" "jr_items (fireDone p j r) = jr_items r"
  "jr_perOwner (fireDone p j r) = jr_perOwner r" "jr_maxPerOwner (fireDone p j r) = jr_maxPerOwner r"
  "jr_seq (fireDone p j r) = jr_seq r"
  by (simp_all add: fireChanged_def fireDone_def)

lemma upd_entry_frame [simp]:
  "jr_store (upd_entry p f r) = (jr_store r)[p := f (jr_store r ! p)]"
  "jr_items (upd_entry p f r) = jr_items r" "jr_perOwner (upd_entry p f r) = jr_perOwner r"
  "jr_maxPerOwner (upd_entry p f r) = jr_maxPerOwner r" "jr_seq (upd_entry p f r) = jr_seq r"
  "jr_events (upd_entry p f r) = jr_events r" "jr_notifier (upd_entry p f r) = jr_notifier r"
  "jr_doneListeners (upd_entry p f r) = jr_doneListeners r"
  "jr_changedListeners (upd_entry p f r) = jr_changedListeners r"
  by (simp_all add: upd_entry_def)

text \<open>
  What one operation does to the entry at an address that already exists: the only changes are
  those of the operation's own entry update.
\<close>

fun jentry_update :: "jop \<Rightarrow> registry \<Rightarrow> nat \<Rightarrow> jentry \<Rightarrow> jentry" where
  "jentry_update (JLaunch q) r p e = (if p = q then e\<lparr>je_has_cancel := True, je_pc := PcRunning\<rparr> else e)"
| "jentry_update (JWrite q bs) r p e = (if p = q then e\<lparr>je_output := ts_write bs (je_output e)\<rparr> else e)"
| "jentry_update (JFinish q final err) r p e = (if p = q then finish_entry final err e else e)"
| "jentry_update (JSettle q) r p e = (if p = q then e\<lparr>je_reported := True, je_pc := PcSettled\<rparr> else e)"
| "jentry_update (JRelease q) r p e = (if p = q then e\<lparr>je_pc := PcReleased\<rparr> else e)"
| "jentry_update (JKill i) r p e =
     (if jr_items r i = Some p \<and> je_status e = StatusRunning
      then e\<lparr>je_status := StatusStopping, je_cancel_due := (je_cancel_due e \<or> je_has_cancel e)\<rparr> else e)"
| "jentry_update (JTeardown owner) r p e =
     (if owner \<noteq> [] \<and> in_items r p \<and> job_owner (je_job e) = owner then teardown_entry e else e)"
| "jentry_update (JCancel q) r p e = (if p = q then e\<lparr>je_cancel_due := False, je_cancelled := True\<rparr> else e)"
| "jentry_update _ r p e = e"

lemma jexec_entry:
  assumes "jenabled r op" "p < length (jr_store r)"
  shows "p < length (jr_store (jexec op r)) \<and>
         jr_store (jexec op r) ! p = jentry_update op r p (jr_store r ! p)"
proof (cases op)
  case (JStart spec)
  with assms(2) show ?thesis by (simp add: Start_def Let_def nth_append)
next
  case (JSettle q)
  with assms show ?thesis by (auto simp: settle_def Let_def nth_list_update)
next
  case (JRelease q)
  with assms show ?thesis by (auto simp: release_def Let_def nth_list_update)
next
  case (JKill i)
  with assms(2) show ?thesis
    by (auto simp: Kill_def Let_def split: option.split intro!: nth_list_update_neq)
next
  case (JTeardown owner)
  with assms(2) show ?thesis by (simp add: Teardown_def Let_def)
qed (use assms in \<open>simp_all add: SetNotifier_def SetMaxPerOwner_def OnDone_def OffDone_def
       OnChanged_def OffChanged_def launch_def job_write_def finish_def cancel_job_def nth_list_update\<close>)

subsection \<open>Every job settles exactly once\<close>

definition reported_inv :: "jentry \<Rightarrow> bool" where
  "reported_inv e \<longleftrightarrow> (je_reported e \<longleftrightarrow> je_pc e \<in> {PcSettled, PcReleased})"

definition notices_for :: "nat \<Rightarrow> registry \<Rightarrow> nat" where
  "notices_for p r =
     length (filter (\<lambda>ev. case ev of EvNotice q _ _ _ _ \<Rightarrow> q = p | _ \<Rightarrow> False) (jr_events r))"

definition done_for :: "nat \<Rightarrow> nat \<Rightarrow> registry \<Rightarrow> nat" where
  "done_for i p r =
     length (filter (\<lambda>ev. case ev of EvDone j q _ \<Rightarrow> j = i \<and> q = p | _ \<Rightarrow> False) (jr_events r))"

lemma finish_entry_pc [simp]:
  "je_pc (finish_entry final err e) = PcFinished" "je_reported (finish_entry final err e) = je_reported e"
  "je_job (finish_entry final err e) = je_job e"
  by (simp_all add: finish_entry_def Let_def split: option.split)

lemma teardown_entry_frame [simp]:
  "je_pc (teardown_entry e) = je_pc e" "je_reported (teardown_entry e) = je_reported e"
  "je_job (teardown_entry e) = je_job e"
  by (simp_all add: teardown_entry_def)

lemma Start_store:
  "jr_store (snd (Start spec r)) = jr_store r \<or>
   (\<exists>e. jr_store (snd (Start spec r)) = jr_store r @ [e] \<and> job_owner (je_job e) = spec_owner spec \<and>
        je_pc e = PcRegistered \<and> \<not> je_reported e)"
  by (auto simp: Start_def Let_def)

lemma jexec_new_entry:
  assumes "p < length (jr_store (jexec op r))" "\<not> p < length (jr_store r)"
  shows "\<exists>spec. op = JStart spec \<and> p = length (jr_store r) \<and>
    (\<exists>e. jr_store (jexec op r) = jr_store r @ [e] \<and> job_owner (je_job e) = spec_owner spec \<and>
         je_pc e = PcRegistered \<and> \<not> je_reported e)"
proof (cases op)
  case (JStart spec)
  with assms Start_store [of spec r] show ?thesis by auto
qed (use assms in \<open>auto simp: SetNotifier_def SetMaxPerOwner_def OnDone_def OffDone_def OnChanged_def
       OffChanged_def launch_def job_write_def finish_def cancel_job_def settle_def release_def Kill_def Teardown_def
       Let_def split: option.splits if_splits\<close>)

lemma jexec_reported_inv:
  assumes "jenabled r op" "\<forall>e \<in> set (jr_store r). reported_inv e"
  shows "\<forall>e \<in> set (jr_store (jexec op r)). reported_inv e"
proof
  fix e assume "e \<in> set (jr_store (jexec op r))"
  then obtain p where p: "p < length (jr_store (jexec op r))" "e = jr_store (jexec op r) ! p"
    by (metis in_set_conv_nth)
  show "reported_inv e"
  proof (cases "p < length (jr_store r)")
    case True
    with assms(2) have "reported_inv (jr_store r ! p)" by simp
    with jexec_entry [OF assms(1) True] assms(1) p show ?thesis
      by (cases op) (auto simp: reported_inv_def)
  next
    case False
    with jexec_new_entry [OF p(1)] p show ?thesis
      by (auto simp: reported_inv_def nth_append)
  qed
qed

lemma filter_map_single:
  "distinct xs \<Longrightarrow> length (filter (\<lambda>x. x = y) xs) \<le> 1"
  by (simp add: distinct_filter_length_card card_le_Suc0_iff_eq)

lemma live_listeners_distinct: "distinct (live_listeners ls)"
  by (simp add: live_listeners_def)

lemma done_events_le_one:
  "length (filter (\<lambda>ev. case ev of EvDone j q _ \<Rightarrow> j = i \<and> q = p | _ \<Rightarrow> False)
     (map (\<lambda>k. EvDone k p' j) (live_listeners ls))) \<le> (if p' = p then 1 else 0)"
  using filter_map_single [OF live_listeners_distinct, of i ls] by (simp add: filter_map comp_def)

lemma event_filters_append [simp]:
  "notices_for p (emit evs r) = notices_for p r +
     length (filter (\<lambda>ev. case ev of EvNotice q _ _ _ _ \<Rightarrow> q = p | _ \<Rightarrow> False) evs)"
  "done_for i p (emit evs r) = done_for i p r +
     length (filter (\<lambda>ev. case ev of EvDone j q _ \<Rightarrow> j = i \<and> q = p | _ \<Rightarrow> False) evs)"
  by (simp_all add: notices_for_def done_for_def)

lemma fire_counts [simp]:
  "notices_for p (fireChanged x r) = notices_for p r" "done_for i p (fireChanged x r) = done_for i p r"
  "notices_for p (fireDone q j r) = notices_for p r"
  by (simp_all add: fireChanged_def fireDone_def filter_map comp_def)

lemma upd_entry_counts [simp]:
  "notices_for p (upd_entry q f r) = notices_for p r" "done_for i p (upd_entry q f r) = done_for i p r"
  by (simp_all add: notices_for_def done_for_def)

lemma events_only_counts:
  "jr_events r' = jr_events r \<Longrightarrow> notices_for p r' = notices_for p r"
  "jr_events r' = jr_events r \<Longrightarrow> done_for i p r' = done_for i p r"
  by (simp_all add: notices_for_def done_for_def)

lemma done_for_fireDone: "done_for i q (fireDone p j r) \<le> done_for i q r + (if p = q then 1 else 0)"
  using done_events_le_one [of i q p j "jr_doneListeners r"] by (simp add: fireDone_def)

lemma settle_notices:
  "notices_for q (settle p r) =
     notices_for q r + (if \<not> je_reported (jr_store r ! p) \<and> jr_notifier r \<and> p = q then 1 else 0)"
  by (auto simp: settle_def Let_def)

lemma settle_done:
  "done_for i q (settle p r) \<le>
     done_for i q r + (if \<not> je_reported (jr_store r ! p) \<and> p = q then 1 else 0)"
  by (auto simp: settle_def Let_def intro: order_trans [OF done_for_fireDone])

text \<open>Every other operation emits calls of the change listeners at most.\<close>

definition quiet :: "registry \<Rightarrow> registry \<Rightarrow> bool" where
  "quiet r r' \<longleftrightarrow> (\<exists>x ls. jr_events r' = jr_events r @ map (\<lambda>i. EvChanged i x) ls)"

lemma quiet_refl: "jr_events r' = jr_events r \<Longrightarrow> quiet r r'"
  unfolding quiet_def by (intro exI [of _ "[]"]) simp

lemma quiet_fire: "jr_events r1 = jr_events r \<Longrightarrow> quiet r (fireChanged x r1)"
  unfolding quiet_def fireChanged_def by simp blast

lemma quiet_counts:
  assumes "quiet r r'"
  shows "notices_for q r' = notices_for q r" "done_for i q r' = done_for i q r"
  using assms by (auto simp: quiet_def notices_for_def done_for_def filter_map comp_def)

lemma jexec_quiet:
  assumes "\<And>p. op \<noteq> JSettle p"
  shows "quiet r (jexec op r)"
  using assms
  by (cases op) (auto simp: SetNotifier_def SetMaxPerOwner_def OnDone_def OffDone_def OnChanged_def
     OffChanged_def launch_def job_write_def finish_def cancel_job_def release_def Kill_def Teardown_def Start_def
     Let_def split: option.split intro!: quiet_refl quiet_fire)

definition settle_inv :: "registry \<Rightarrow> bool" where
  "settle_inv r \<longleftrightarrow> (\<forall>e \<in> set (jr_store r). reported_inv e) \<and>
     (\<forall>p. notices_for p r \<le> (if p < length (jr_store r) \<and> je_reported (jr_store r ! p) then 1 else 0)) \<and>
     (\<forall>i p. done_for i p r \<le> (if p < length (jr_store r) \<and> je_reported (jr_store r ! p) then 1 else 0))"

lemma jentry_update_reported:
  assumes "jenabled r op" "p < length (jr_store r)" "reported_inv (jr_store r ! p)"
  shows "je_reported (jentry_update op r p (jr_store r ! p)) \<longleftrightarrow> je_reported (jr_store r ! p) \<or> op = JSettle p"
  using assms by (cases op) (auto simp: reported_inv_def)

lemma jexec_reported_mono:
  assumes "jenabled r op" "\<forall>e \<in> set (jr_store r). reported_inv e"
    and "p < length (jr_store r)" "je_reported (jr_store r ! p) \<or> op = JSettle p"
  shows "p < length (jr_store (jexec op r)) \<and> je_reported (jr_store (jexec op r) ! p)"
  using jexec_entry [OF assms(1,3)] jentry_update_reported [OF assms(1,3)] assms(2-4) by simp

lemma jexec_settle_inv:
  assumes en: "jenabled r op" and inv: "settle_inv r"
  shows "settle_inv (jexec op r)"
proof -
  let ?rep = "\<lambda>r p. p < length (jr_store r) \<and> je_reported (jr_store r ! p)"
  from inv have rep: "\<forall>e \<in> set (jr_store r). reported_inv e"
    and n: "notices_for p r \<le> (if ?rep r p then 1 else 0)"
    and d: "done_for i p r \<le> (if ?rep r p then 1 else 0)" for i p
    by (simp_all add: settle_inv_def)
  have mono: "?rep (jexec op r) p" if "?rep r p \<or> p < length (jr_store r) \<and> op = JSettle p" for p
    using jexec_reported_mono [OF en rep, of p] that by blast
  have "notices_for p (jexec op r) \<le> (if ?rep (jexec op r) p then 1 else 0) \<and>
        done_for i p (jexec op r) \<le> (if ?rep (jexec op r) p then 1 else 0)" for i p
  proof (cases "\<exists>q. op = JSettle q")
    case True
    then obtain q where q: "op = JSettle q" ..
    with en rep have q': "q < length (jr_store r)" "\<not> je_reported (jr_store r ! q)"
      by (auto simp: reported_inv_def)
    show ?thesis
      using n [of p] d [of i p] mono [of p] settle_notices [of p q r] settle_done [of i p q r] q q'
      by (auto split: if_splits)
  next
    case False
    then have "quiet r (jexec op r)" by (blast intro: jexec_quiet)
    then show ?thesis
      using quiet_counts(1) [of r "jexec op r" p] quiet_counts(2) [of r "jexec op r" i p] n [of p] d [of i p] mono [of p] by (auto split: if_splits)
  qed
  with jexec_reported_inv [OF en rep] show ?thesis by (simp add: settle_inv_def)
qed

lemma jreach_settle_inv: "jreach r \<Longrightarrow> settle_inv r"
proof (induction rule: jreach.induct)
  case jreach_new
  show ?case by (simp add: settle_inv_def NewRegistry_def notices_for_def done_for_def)
next
  case (jreach_step r op)
  then show ?case by (blast intro: jexec_settle_inv)
qed

definition spec_of :: "string \<Rightarrow> string \<Rightarrow> string \<Rightarrow> job_spec" where
  "spec_of i kind owner = \<lparr>spec_id = i, spec_kind = kind, spec_label = [], spec_owner = owner,
     spec_cap = 0, spec_final = False, spec_has_run = True\<rparr>"

text \<open>
  C8. Settlement is reported at most once, and not before it happened.  In every interleaving of starts, kills, teardowns and
  job completions, no job produces two settlement notices or reaches a done listener twice; none
  has produced any before its goroutine settles.
\<close>

theorem settled_once:
  assumes "jreach r"
  shows "notices_for p r \<le> 1 \<and> done_for i p r \<le> 1 \<and>
         (\<not> (p < length (jr_store r) \<and> je_pc (jr_store r ! p) \<in> {PcSettled, PcReleased}) \<longrightarrow>
          notices_for p r = 0 \<and> done_for i p r = 0)"
proof -
  from jreach_settle_inv [OF assms] have inv: "settle_inv r" .
  then have "je_reported (jr_store r ! p) \<longleftrightarrow> je_pc (jr_store r ! p) \<in> {PcSettled, PcReleased}"
    if "p < length (jr_store r)"
    using that by (auto simp: settle_inv_def reported_inv_def)
  moreover have "notices_for p r \<le> (if p < length (jr_store r) \<and> je_reported (jr_store r ! p) then 1 else 0)"
    and "done_for i p r \<le> (if p < length (jr_store r) \<and> je_reported (jr_store r ! p) then 1 else 0)"
    using inv by (simp_all add: settle_inv_def)
  ultimately show ?thesis by (auto split: if_splits)
qed

theorem settled_once_witness:
  "notices_for 0 (the (jrun [JSetNotifier True, JOnDone, JStart (spec_of ''a'' ''k'' ''o''), JLaunch 0,
      JFinish 0 [] None, JSettle 0] NewRegistry)) = 1"
proof -
  let ?ops = "[JSetNotifier True, JOnDone, JStart (spec_of ''a'' ''k'' ''o''), JLaunch 0,
      JFinish 0 [] None, JSettle 0]"
  let ?r = "the (jrun ?ops NewRegistry)"
  have run: "jrun ?ops NewRegistry = Some ?r"
    by (simp add: spec_of_def Start_def NewRegistry_def launch_def finish_def SetNotifier_def OnDone_def Let_def)
  have "jreach ?r" by (rule jrun_reach [OF jreach_new run])
  from settled_once [OF this, of 0 0] have "notices_for 0 ?r \<le> 1" by simp
  moreover have "0 < notices_for 0 ?r"
    by (simp add: spec_of_def Start_def NewRegistry_def launch_def finish_def finish_entry_def settle_def
        SetNotifier_def OnDone_def fireChanged_def fireDone_def live_listeners_def emit_def notices_for_def Let_def)
  ultimately show ?thesis by simp
qed

subsection \<open>The lifecycle of a status\<close>

definition status_inv :: "jentry \<Rightarrow> bool" where
  "status_inv e \<longleftrightarrow>
     (je_pc e \<in> {PcRegistered, PcRunning} \<longrightarrow>
        je_status e \<in> {StatusRunning, StatusStopping, StatusKilled}) \<and>
     (je_pc e \<notin> {PcRegistered, PcRunning} \<longrightarrow> settled_status (je_status e))"

lemma finish_entry_settled: "settled_status (je_status (finish_entry final err e))"
  by (simp add: finish_entry_def settled_status_def Let_def split: option.split)

lemma jentry_update_status_inv:
  assumes "jenabled r op" "p < length (jr_store r)" "status_inv (jr_store r ! p)"
  shows "status_inv (jentry_update op r p (jr_store r ! p))"
  using assms finish_entry_settled
  by (cases op) (auto simp: status_inv_def settled_status_def teardown_entry_def)

lemma Start_status_inv:
  "p < length (jr_store (snd (Start spec r))) \<Longrightarrow> \<not> p < length (jr_store r) \<Longrightarrow>
   status_inv (jr_store (snd (Start spec r)) ! p)"
  by (auto simp: Start_def Let_def status_inv_def nth_append split: if_splits)

lemma jreach_status_inv:
  assumes "jreach r"
  shows "\<forall>p < length (jr_store r). status_inv (jr_store r ! p)"
  using assms
proof (induction rule: jreach.induct)
  case jreach_new
  then show ?case by (simp add: NewRegistry_def)
next
  case (jreach_step r op)
  show ?case
  proof (intro allI impI)
    fix p assume p: "p < length (jr_store (jexec op r))"
    show "status_inv (jr_store (jexec op r) ! p)"
    proof (cases "p < length (jr_store r)")
      case True
      then show ?thesis
        using jexec_entry [OF jreach_step.hyps(2) True] jentry_update_status_inv [OF jreach_step.hyps(2) True]
          jreach_step.IH by simp
    next
      case False
      from jexec_new_entry [OF p False] obtain spec where "op = JStart spec" by blast
      with Start_status_inv [of p spec r] p False show ?thesis by simp
    qed
  qed
qed

text \<open>
  Status lifecycle.  In every reachable state, whichever operation happens next, a job's
  status moves only along the nine edges below and only while its work is still running; once the
  work returned, the status it left is final.
\<close>

theorem job_status_lifecycle:
  assumes "jreach r" "jenabled r op" "p < length (jr_store r)"
    and "je_status (jr_store (jexec op r) ! p) \<noteq> je_status (jr_store r ! p)"
  shows "(je_status (jr_store r ! p), je_status (jr_store (jexec op r) ! p)) \<in>
           {(StatusRunning, StatusStopping), (StatusRunning, StatusKilled),
            (StatusRunning, StatusCompleted), (StatusRunning, StatusFailed),
            (StatusStopping, StatusKilled), (StatusStopping, StatusCompleted),
            (StatusStopping, StatusFailed), (StatusKilled, StatusCompleted),
            (StatusKilled, StatusFailed)} \<and>
         je_pc (jr_store r ! p) \<in> {PcRegistered, PcRunning}"
proof -
  note entry = jexec_entry [OF assms(2,3)]
  have inv: "status_inv (jr_store r ! p)"
    using jreach_status_inv [OF assms(1)] assms(3) by blast
  show ?thesis
  proof (cases op)
    case (JFinish q final err)
    with entry inv assms(2,4) finish_entry_settled [of final err "jr_store r ! p"] show ?thesis
      by (simp add: status_inv_def settled_status_def split: if_splits) (elim disjE conjE; simp)
  next
    case (JTeardown owner)
    with entry inv assms(4) show ?thesis
      by (simp add: status_inv_def settled_status_def teardown_entry_def split: if_splits)
  next
    case (JKill i)
    with entry inv assms(4) show ?thesis
      by (simp add: status_inv_def settled_status_def split: if_splits)
  qed (use entry assms(4) in \<open>simp_all split: if_splits\<close>)
qed

theorem job_status_lifecycle_witness:
  "je_pc (jr_store (the (jrun [JStart (spec_of ''a'' ''k'' ''o''), JLaunch 0] NewRegistry)) ! 0)
     \<in> {PcRegistered, PcRunning}"
proof -
  let ?r = "the (jrun [JStart (spec_of ''a'' ''k'' ''o''), JLaunch 0] NewRegistry)"
  have run: "jrun [JStart (spec_of ''a'' ''k'' ''o''), JLaunch 0] NewRegistry = Some ?r"
    by (simp add: spec_of_def Start_def NewRegistry_def launch_def Let_def)
  have "jreach ?r" by (rule jrun_reach [OF jreach_new run])
  moreover have "0 < length (jr_store ?r)" "jenabled ?r (JKill ''a'')"
    "je_status (jr_store (jexec (JKill ''a'') ?r) ! 0) \<noteq> je_status (jr_store ?r ! 0)"
    by (simp_all add: spec_of_def Start_def NewRegistry_def launch_def Kill_def Let_def)
  ultimately show ?thesis by (blast dest: job_status_lifecycle)
qed

subsection \<open>The owner's concurrency cap\<close>

definition live_jobs :: "string \<Rightarrow> registry \<Rightarrow> nat set" where
  "live_jobs owner r =
     {p. p < length (jr_store r) \<and> job_owner (je_job (jr_store r ! p)) = owner \<and>
         je_pc (jr_store r ! p) \<noteq> PcReleased}"

lemma finite_live_jobs [simp]: "finite (live_jobs owner r)"
  by (simp add: live_jobs_def)

lemma jentry_update_owner: "job_owner (je_job (jentry_update op r p e)) = job_owner (je_job e)"
  by (cases op) simp_all

lemma jentry_update_released:
  assumes "jenabled r op" "p < length (jr_store r)"
  shows "je_pc (jentry_update op r p (jr_store r ! p)) = PcReleased \<longleftrightarrow>
         je_pc (jr_store r ! p) = PcReleased \<or> op = JRelease p"
  using assms by (cases op) auto

lemma live_jobs_old:
  assumes "jenabled r op"
  shows "{p \<in> live_jobs owner (jexec op r). p < length (jr_store r)} =
         {p \<in> live_jobs owner r. op \<noteq> JRelease p}"
  using jexec_entry [OF assms] jentry_update_released [OF assms]
  by (auto simp: live_jobs_def jentry_update_owner)

lemma live_jobs_step:
  assumes "jenabled r op" "\<And>spec. op \<noteq> JStart spec"
  shows "live_jobs owner (jexec op r) = {p \<in> live_jobs owner r. op \<noteq> JRelease p}"
proof -
  have "p < length (jr_store r)" if "p \<in> live_jobs owner (jexec op r)" for p
    using that assms(2) jexec_new_entry [of p op r] by (auto simp: live_jobs_def)
  then have "live_jobs owner (jexec op r) = {p \<in> live_jobs owner (jexec op r). p < length (jr_store r)}"
    by blast
  with live_jobs_old [OF assms(1)] show ?thesis by simp
qed

lemma live_jobs_Start:
  "live_jobs owner (snd (Start spec r)) =
     (case fst (Start spec r) of
        Inl _ \<Rightarrow> live_jobs owner r
      | Inr p \<Rightarrow> (if spec_owner spec = owner then insert p (live_jobs owner r) else live_jobs owner r))"
  by (auto simp: Start_def Let_def live_jobs_def nth_append less_Suc_eq split: if_splits)

lemma Start_address: "fst (Start spec r) = Inr p \<Longrightarrow> p = length (jr_store r)"
  by (auto simp: Start_def Let_def split: if_splits)

lemma Start_perOwner:
  "jr_perOwner (snd (Start spec r)) owner =
     jr_perOwner r owner +
     (case fst (Start spec r) of
        Inl _ \<Rightarrow> 0 | Inr _ \<Rightarrow> (if spec_owner spec = owner \<and> owner \<noteq> [] then 1 else 0))"
  by (auto simp: Start_def Let_def)

lemma Start_below_cap:
  "fst (Start spec r) = Inr p \<Longrightarrow> spec_owner spec \<noteq> [] \<Longrightarrow> jr_perOwner r (spec_owner spec) < jr_maxPerOwner r"
  by (auto simp: Start_def Let_def split: if_splits)

text \<open>Runs in which no owner is torn down.\<close>

inductive jreach_keep :: "registry \<Rightarrow> bool" where
  keep_new: "jreach_keep NewRegistry"
| keep_step: "jreach_keep r \<Longrightarrow> jenabled r op \<Longrightarrow> (\<And>owner. op \<noteq> JTeardown owner) \<Longrightarrow>
    jreach_keep (jexec op r)"

lemma counter_step:
  assumes en: "jenabled r op" and nt: "\<And>owner. op \<noteq> JTeardown owner"
    and inv: "\<And>owner. owner \<noteq> [] \<Longrightarrow> jr_perOwner r owner = int (card (live_jobs owner r))"
    and o: "owner \<noteq> []"
  shows "jr_perOwner (jexec op r) owner = int (card (live_jobs owner (jexec op r)))"
proof (cases op)
  case (JStart spec)
  show ?thesis
  proof (cases "fst (Start spec r)")
    case (Inl e)
    with JStart inv [OF o] show ?thesis by (simp add: live_jobs_Start Start_perOwner)
  next
    case (Inr p)
    have "p \<notin> live_jobs owner r" using Start_address [OF Inr] by (simp add: live_jobs_def)
    with JStart inv [OF o] Inr o show ?thesis by (simp add: live_jobs_Start Start_perOwner)
  qed
next
  case (JRelease q)
  let ?own = "job_owner (je_job (jr_store r ! q))"
  have live: "live_jobs owner (jexec op r) = live_jobs owner r - {q}"
    using live_jobs_step [OF en] JRelease by auto
  show ?thesis
  proof (cases "?own = owner")
    case True
    with en JRelease have q: "q \<in> live_jobs owner r" by (simp add: live_jobs_def)
    then have "0 < card (live_jobs owner r)" by (auto simp: card_gt_0_iff)
    with q live True o inv [OF o] JRelease show ?thesis by (simp add: release_def Let_def)
  next
    case False
    then have "q \<notin> live_jobs owner r" by (simp add: live_jobs_def)
    with live False inv [OF o] JRelease show ?thesis by (simp add: release_def Let_def)
  qed
next
  case (JTeardown x)
  with nt show ?thesis by blast
qed (use live_jobs_step [OF en] inv [OF o] in \<open>simp_all add: SetNotifier_def SetMaxPerOwner_def OnDone_def
  OffDone_def OnChanged_def OffChanged_def launch_def job_write_def finish_def cancel_job_def settle_def Kill_def Let_def
  split: option.split\<close>)

lemma keep_counter:
  assumes "jreach_keep r" "owner \<noteq> []"
  shows "jr_perOwner r owner = int (card (live_jobs owner r))"
  using assms
proof (induction arbitrary: owner rule: jreach_keep.induct)
  case keep_new
  then show ?case by (simp add: NewRegistry_def live_jobs_def)
next
  case (keep_step r op)
  show ?case by (rule counter_step [OF keep_step.hyps(2,3) keep_step.IH keep_step.prems])
qed

text \<open>
  C27. Concurrency cap.  As long as no owner is torn down, the per-owner counter is exactly the
  number of the owner's jobs whose goroutine has not released its slot, so an accepted start
  never takes an owner beyond the cap in force.
\<close>

theorem owner_cap_respected:
  assumes "jreach_keep r" "owner \<noteq> []" "fst (Start spec r) = Inr p" "spec_owner spec = owner"
  shows "jr_perOwner r owner = int (card (live_jobs owner r)) \<and>
         int (card (live_jobs owner (snd (Start spec r)))) \<le> jr_maxPerOwner r"
proof -
  note cnt = keep_counter [OF assms(1,2)]
  have "p \<notin> live_jobs owner r" using Start_address [OF assms(3)] by (simp add: live_jobs_def)
  with Start_below_cap [OF assms(3)] assms cnt show ?thesis by (simp add: live_jobs_Start)
qed

theorem owner_cap_respected_witness:
  "int (card (live_jobs ''o'' (snd (Start (spec_of [] ''sh'' ''o'') NewRegistry)))) \<le> 10"
proof -
  have s: "fst (Start (spec_of [] ''sh'' ''o'') NewRegistry) = Inr 0"
    by (simp add: Start_def spec_of_def NewRegistry_def Let_def)
  show ?thesis
    using owner_cap_respected [OF keep_new _ s, of "''o''"] by (simp add: spec_of_def NewRegistry_def)
qed

subsection \<open>Where the cap and the ids do not hold\<close>

definition teardown_schedule :: "jop list" where
  "teardown_schedule =
     [JSetMax 1,
      JStart (spec_of ''a'' ''sh'' ''o''), JLaunch 0, JTeardown ''o'', JCancel 0,
      JStart (spec_of ''b'' ''sh'' ''o''), JLaunch 1,
      JFinish 0 [] (Some (Sentinel CtxCanceled)), JSettle 0, JRelease 0,
      JStart (spec_of ''c'' ''sh'' ''o''), JLaunch 2]"

definition running_listed :: "string \<Rightarrow> registry \<Rightarrow> nat" where
  "running_listed owner r = length (filter (\<lambda>j. job_status j = StatusRunning) (ListJobs owner r))"

lemmas job_eval = Start_def launch_def finish_def cancel_job_def finish_entry_def settle_def release_def Kill_def
  Teardown_def teardown_entry_def SetMaxPerOwner_def NewRegistry_def spec_of_def Let_def
  fireChanged_def fireDone_def emit_def upd_entry_def live_listeners_def in_items_def
  settled_status_def newTailStore_def

text \<open>
  A teardown breaks the cap.  \<open>Teardown\<close> forgets the owner's counter while its jobs still
  run; when one of them ends, its release is charged to a job started afterwards.  With a cap of one,
  this schedule leaves two listed jobs of the owner running.
\<close>

theorem teardown_breaks_cap:
  "\<exists>r. jrun teardown_schedule NewRegistry = Some r \<and> jr_maxPerOwner r = 1 \<and>
       running_listed ''o'' r = 2"
  by (simp add: teardown_schedule_def job_eval running_listed_def ListJobs_def upt_rec [of 0])

definition collision_schedule :: "jop list" where
  "collision_schedule =
     [JStart (spec_of ''sh-1'' ''sh'' ''o''), JLaunch 0, JStart (spec_of [] ''sh'' ''p''), JLaunch 1]"

text \<open>
  An assigned id can take over an explicit one.  \<open>Start\<close> refuses an explicit id that is taken
  but does not check the id it assigns: here the assigned id is that of a running job, which the map
  then no longer holds, so that it can neither be read nor killed while it runs.
\<close>

theorem assigned_id_collides:
  "\<exists>r. jrun collision_schedule NewRegistry = Some r \<and>
       je_pc (jr_store r ! 0) = PcRunning \<and> je_pc (jr_store r ! 1) = PcRunning \<and>
       job_id (je_job (jr_store r ! 0)) = job_id (je_job (jr_store r ! 1)) \<and> \<not> in_items r 0 \<and>
       je_status (jr_store (snd (Kill ''sh-1'' r)) ! 0) = StatusRunning"
  by (simp add: collision_schedule_def job_eval decimal.simps char_of_def bit_0)

text \<open>Ids assigned under one kind never collide with each other (\<open>decimal_inj\<close>).\<close>

end
