(* ===== verification/GoalManager.thy ===== *)
theory GoalManager
  imports GoStrings
begin

text \<open>
  The durable goals of \<open>core/goal/goal.go\<close>: the document, the phase machine and the
  compare-and-set manager, over the store interface.

  The manager's operations take the store's \<open>load\<close> and \<open>save\<close> as arguments, the current time
  \<open>now\<close>, and what other managers of the same store do in the two windows the manager leaves
  open: \<open>between\<close> its first load and its second, and \<open>late\<close>, after the second load and before the
  save (the manager's own mutex excludes its own other callers).  The laws a store
  promises are the locale \<open>goal_store\<close>; the stores of \<open>core/goal/store.go\<close> interpret it.
\<close>

section \<open>Documents\<close>

datatype goal_phase = PhaseActive | PhasePaused | PhaseBlocked | PhaseComplete

datatype goal_error =
    GoalNotFound | GoalAlreadyExists | GoalStaleRevision | GoalInvalidTransition
  | GoalInvalidObjective | GoalInvalidMaxRounds | GoalInvalidBlockReason | GoalMaxRoundsReached
  | GoalBadThreshold | GoalStorage

record goal =
  g_id :: string
  g_objective :: string
  g_phase :: goal_phase
  g_revision :: int
  g_rounds :: int
  g_maxRounds :: int
  g_blockedStreak :: int
  g_blockerReason :: string
  g_createdAt :: int
  g_updatedAt :: int

section \<open>Phase transitions\<close>

text \<open>The mutation functions the operations hand to \<open>Update\<close>.\<close>

definition complete_fn :: "goal \<Rightarrow> goal_error + goal" where
  "complete_fn g = (case g_phase g of
     PhaseComplete \<Rightarrow> Inr g
   | _ \<Rightarrow> Inr (g\<lparr>g_phase := PhaseComplete, g_blockerReason := [], g_blockedStreak := 0\<rparr>))"

definition pause_fn :: "goal \<Rightarrow> goal_error + goal" where
  "pause_fn g = (if g_phase g \<noteq> PhaseActive then Inl GoalInvalidTransition
                 else Inr (g\<lparr>g_phase := PhasePaused\<rparr>))"

definition resume_fn :: "goal \<Rightarrow> goal_error + goal" where
  "resume_fn g = (if g_phase g = PhasePaused \<or> g_phase g = PhaseBlocked
                  then Inr (g\<lparr>g_phase := PhaseActive, g_blockedStreak := 0, g_blockerReason := []\<rparr>)
                  else Inl GoalInvalidTransition)"

text \<open>\<open>auto\<close> is the minimal streak of an autonomous block, \<open>None\<close> for the host's.\<close>

definition block_fn :: "string \<Rightarrow> int option \<Rightarrow> goal \<Rightarrow> goal_error + goal" where
  "block_fn reason auto g = (case auto of
     Some minStreak \<Rightarrow>
       (if g_phase g \<noteq> PhaseBlocked \<or> g_blockerReason g \<noteq> reason \<or> g_blockedStreak g < minStreak - 1
        then Inl GoalInvalidTransition
        else Inr (g\<lparr>g_blockedStreak := g_blockedStreak g + 1\<rparr>))
   | None \<Rightarrow>
       (case g_phase g of
          PhaseActive \<Rightarrow> Inr (g\<lparr>g_phase := PhaseBlocked, g_blockerReason := reason, g_blockedStreak := 1\<rparr>)
        | PhaseBlocked \<Rightarrow>
            (if g_blockerReason g = reason then Inr (g\<lparr>g_blockedStreak := g_blockedStreak g + 1\<rparr>)
             else Inr (g\<lparr>g_blockerReason := reason, g_blockedStreak := 1\<rparr>))
        | _ \<Rightarrow> Inl GoalInvalidTransition))"

definition start_round_fn :: "goal \<Rightarrow> goal_error + goal" where
  "start_round_fn g =
     (if g_phase g \<noteq> PhaseActive then Inl GoalInvalidTransition
      else if g_maxRounds g > 0 \<and> g_rounds g \<ge> g_maxRounds g then Inl GoalMaxRoundsReached
      else Inr (g\<lparr>g_rounds := g_rounds g + 1\<rparr>))"

lemmas goal_fns = complete_fn_def pause_fn_def resume_fn_def block_fn_def start_round_fn_def

section \<open>The manager\<close>

type_synonym 's goal_load = "'s \<Rightarrow> string \<Rightarrow> goal_error + goal"
type_synonym 's goal_save = "goal \<Rightarrow> 's \<Rightarrow> goal_error option \<times> 's"

definition Create ::
  "'s goal_load \<Rightarrow> 's goal_save \<Rightarrow> int \<Rightarrow> ('s \<Rightarrow> 's) \<Rightarrow> string \<Rightarrow> string \<Rightarrow> int \<Rightarrow> 's \<Rightarrow>
   (goal_error + goal) \<times> 's" where
  "Create load save now late newid objective maxRounds s =
     (if is_blank objective then (Inl GoalInvalidObjective, s)
      else if maxRounds < 0 then (Inl GoalInvalidMaxRounds, s)
      else
        (let g = \<lparr>g_id = newid, g_objective = objective, g_phase = PhaseActive, g_revision = 1,
                  g_rounds = 0, g_maxRounds = maxRounds, g_blockedStreak = 0, g_blockerReason = [],
                  g_createdAt = now, g_updatedAt = now\<rparr>
         in case load s (g_id g) of
              Inr _ \<Rightarrow> (Inl GoalAlreadyExists, s)
            | Inl _ \<Rightarrow> (case save g (late s) of
                (Some e, s') \<Rightarrow> (Inl e, s')
              | (None, s') \<Rightarrow> (Inr g, s'))))"

definition Update ::
  "'s goal_load \<Rightarrow> 's goal_save \<Rightarrow> int \<Rightarrow> ('s \<Rightarrow> 's) \<Rightarrow> ('s \<Rightarrow> 's) \<Rightarrow> string \<Rightarrow> (goal \<Rightarrow> goal_error + goal) \<Rightarrow> 's \<Rightarrow>
   (goal_error + goal) \<times> 's" where
  "Update load save now between late i fn s =
     (case load s i of
        Inl e \<Rightarrow> (Inl e, s)
      | Inr g0 \<Rightarrow>
          (case fn g0 of
             Inl e \<Rightarrow> (Inl e, s)
           | Inr g \<Rightarrow>
               (let s1 = between s in
                case load s1 i of
                  Inl e \<Rightarrow> (Inl e, s1)
                | Inr cur \<Rightarrow>
                    (if g_revision cur \<noteq> g_revision g0 then (Inl GoalStaleRevision, s1)
                     else
                       (let g = g\<lparr>g_revision := g_revision g + 1, g_updatedAt := now\<rparr>
                        in case save g (late s1) of
                             (Some e, s2) \<Rightarrow> (Inl e, s2)
                           | (None, s2) \<Rightarrow> (Inr g, s2))))))"

definition Complete where
  "Complete load save now between late i s = Update load save now between late i complete_fn s"

definition Pause where
  "Pause load save now between late i s = Update load save now between late i pause_fn s"

definition Resume where
  "Resume load save now between late i s = Update load save now between late i resume_fn s"

definition Block ::
  "'s goal_load \<Rightarrow> 's goal_save \<Rightarrow> int \<Rightarrow> ('s \<Rightarrow> 's) \<Rightarrow> ('s \<Rightarrow> 's) \<Rightarrow> string \<Rightarrow> string \<Rightarrow> int option \<Rightarrow> 's \<Rightarrow>
   (goal_error + goal) \<times> 's" where
  "Block load save now between late i reason auto s =
     (if is_blank reason then (Inl GoalInvalidBlockReason, s)
      else if (case auto of Some n \<Rightarrow> n < 1 | None \<Rightarrow> False) then (Inl GoalBadThreshold, s)
      else Update load save now between late i (block_fn reason auto) s)"

definition StartRound where
  "StartRound load save now between late i s = Update load save now between late i start_round_fn s"

definition Clear :: "(string \<Rightarrow> 's \<Rightarrow> goal_error option \<times> 's) \<Rightarrow> string \<Rightarrow> 's \<Rightarrow> goal_error option \<times> 's" where
  "Clear delete i s = delete i s"

section \<open>Well-formed documents\<close>

definition wf_goal :: "goal \<Rightarrow> bool" where
  "wf_goal g \<longleftrightarrow>
     \<not> is_blank (g_objective g) \<and> 1 \<le> g_revision g \<and> 0 \<le> g_rounds g \<and> 0 \<le> g_maxRounds g \<and>
     (0 < g_maxRounds g \<longrightarrow> g_rounds g \<le> g_maxRounds g) \<and>
     (if g_phase g = PhaseBlocked then \<not> is_blank (g_blockerReason g) \<and> 1 \<le> g_blockedStreak g
      else g_blockerReason g = [] \<and> g_blockedStreak g = 0)"

text \<open>The edges of the phase machine.\<close>

definition phase_edge :: "goal_phase \<Rightarrow> goal_phase \<Rightarrow> bool" where
  "phase_edge p q \<longleftrightarrow> p = q \<or>
     (p, q) \<in> {(PhaseActive, PhasePaused), (PhaseActive, PhaseBlocked), (PhaseActive, PhaseComplete),
               (PhasePaused, PhaseActive), (PhasePaused, PhaseComplete),
               (PhaseBlocked, PhaseActive), (PhaseBlocked, PhaseComplete)}"

text \<open>A mutation of the manager: one of the five functions above.\<close>

inductive goal_fn :: "(goal \<Rightarrow> goal_error + goal) \<Rightarrow> bool" where
  fn_complete: "goal_fn complete_fn"
| fn_pause: "goal_fn pause_fn"
| fn_resume: "goal_fn resume_fn"
| fn_block: "\<not> is_blank reason \<Longrightarrow> goal_fn (block_fn reason auto)"
| fn_start_round: "goal_fn start_round_fn"

lemma goal_fn_step:
  assumes "goal_fn fn" "wf_goal g" "fn g = Inr g'"
  shows "wf_goal g' \<and> phase_edge (g_phase g) (g_phase g') \<and> g_id g' = g_id g \<and>
         g_revision g' = g_revision g \<and> g_objective g' = g_objective g \<and>
         g_maxRounds g' = g_maxRounds g \<and> g_createdAt g' = g_createdAt g \<and>
         (g_rounds g' = g_rounds g \<or> fn = start_round_fn \<and> g_rounds g' = g_rounds g + 1)"
  using assms
  by (cases rule: goal_fn.cases)
    (auto simp: goal_fns wf_goal_def phase_edge_def split: goal_phase.splits if_splits option.splits)

lemma goal_fn_keeps: "goal_fn fn \<Longrightarrow> fn g = Inr g1 \<Longrightarrow> g_id g1 = g_id g \<and> g_revision g1 = g_revision g"
  by (erule goal_fn.cases) (auto simp: goal_fns split: goal_phase.splits if_splits option.splits)

lemma wf_goal_touch: "wf_goal g \<Longrightarrow> wf_goal (g\<lparr>g_revision := g_revision g + 1, g_updatedAt := now\<rparr>)"
  by (auto simp: wf_goal_def)

section \<open>The store interface\<close>

text \<open>
  What the manager relies on: whole-document replacement under the document's own id, no effect
  on other ids, and no effect of a failed write.
\<close>

locale goal_store =
  fixes load :: "'s \<Rightarrow> string \<Rightarrow> goal_error + goal"
    and save :: "goal \<Rightarrow> 's \<Rightarrow> goal_error option \<times> 's"
    and delete :: "string \<Rightarrow> 's \<Rightarrow> goal_error option \<times> 's"
    and ok :: "'s \<Rightarrow> bool"
  assumes load_id: "ok s \<Longrightarrow> load s i = Inr g \<Longrightarrow> g_id g = i"
    and save_ok: "ok s \<Longrightarrow> save g s = (None, s') \<Longrightarrow>
      ok s' \<and> load s' (g_id g) = Inr g \<and> (\<forall>j. j \<noteq> g_id g \<longrightarrow> load s' j = load s j)"
    and save_failed: "ok s \<Longrightarrow> save g s = (Some e, s') \<Longrightarrow> ok s' \<and> load s' = load s"
    and delete_ok: "ok s \<Longrightarrow> delete i s = (None, s') \<Longrightarrow>
      ok s' \<and> (\<forall>g. load s' i \<noteq> Inr g) \<and> (\<forall>j. j \<noteq> i \<longrightarrow> load s' j = load s j)"
    and delete_failed: "ok s \<Longrightarrow> delete i s = (Some e, s') \<Longrightarrow> ok s' \<and> load s' = load s"
begin

definition docs_inv :: "'s \<Rightarrow> bool" where
  "docs_inv s \<longleftrightarrow> ok s \<and> (\<forall>i g. load s i = Inr g \<longrightarrow> wf_goal g)"

lemma save_docs_inv:
  assumes "docs_inv s" "wf_goal g" "save g s = (e, s')"
  shows "docs_inv s'"
proof (cases e)
  case None
  have sv: "ok s'" "load s' (g_id g) = Inr g" "\<And>j. j \<noteq> g_id g \<Longrightarrow> load s' j = load s j"
    using save_ok [of s g s'] assms None by (simp_all add: docs_inv_def)
  have "wf_goal h" if "load s' j = Inr h" for j h
    using that sv assms by (cases "j = g_id g") (auto simp: docs_inv_def)
  with sv show ?thesis by (simp add: docs_inv_def)
next
  case (Some x)
  with save_failed [of s g x s'] assms show ?thesis by (simp add: docs_inv_def)
qed

text \<open>What a commit does: the reported document is stored, one revision above the one it read.\<close>

lemma update_commits:
  assumes "Update load save now between late i fn s = (Inr g', s')"
    and "ok s" "ok (late (between s))"
    and "\<And>g g1. fn g = Inr g1 \<Longrightarrow> g_id g1 = g_id g \<and> g_revision g1 = g_revision g"
  obtains g g1 cur where "load s i = Inr g" "fn g = Inr g1"
    "load (between s) i = Inr cur" "g_revision cur = g_revision g"
    "g' = g1\<lparr>g_revision := g_revision g + 1, g_updatedAt := now\<rparr>"
    "save g' (late (between s)) = (None, s')"
    "ok s'" "load s' i = Inr g'" "\<And>j. j \<noteq> i \<Longrightarrow> load s' j = load (late (between s)) j"
proof -
  obtain g where g: "load s i = Inr g"
    using assms(1) by (auto simp: Update_def split: sum.splits)
  then obtain g1 where g1: "fn g = Inr g1"
    using assms(1) by (auto simp: Update_def split: sum.splits)
  obtain cur where cur: "load (between s) i = Inr cur" "g_revision cur = g_revision g"
    using assms(1) g g1 by (auto simp: Update_def Let_def split: sum.splits if_splits)
  let ?g = "g1\<lparr>g_revision := g_revision g1 + 1, g_updatedAt := now\<rparr>"
  have sv: "save ?g (late (between s)) = (None, s')" and eq: "g' = ?g"
    using assms(1) g g1 cur by (auto simp: Update_def Let_def split: prod.splits option.splits)
  have ids: "g_id ?g = i" "g_revision g1 = g_revision g"
    using assms(4) [OF g1] load_id [OF assms(2) g] by simp_all
  show thesis
    using that [OF g g1 cur] save_ok [OF assms(3) sv] sv ids eq by simp
qed

lemma update_failed:
  assumes "Update load save now between late i fn s = (Inl e, s')"
    and "ok s" "ok (between s)" "ok (late (between s))"
  shows "ok s' \<and> (load s' = load s \<or> load s' = load (between s) \<or> load s' = load (late (between s)))"
  using assms save_failed [OF assms(4)]
  by (auto simp: Update_def Let_def split: sum.splits if_splits prod.splits option.splits)

lemma update_stale:
  assumes "load s i = Inr g" "fn g = Inr g1" "load (between s) i = Inr cur"
    and "g_revision cur \<noteq> g_revision g"
  shows "Update load save now between late i fn s = (Inl GoalStaleRevision, between s)"
  using assms by (simp add: Update_def Let_def)

lemma update_docs_inv:
  assumes "goal_fn fn" "docs_inv s" "docs_inv (between s)" "docs_inv (late (between s))"
  shows "docs_inv (snd (Update load save now between late i fn s))"
proof (cases "Update load save now between late i fn s")
  case (Pair r s')
  have oks: "ok s" "ok (between s)" "ok (late (between s))"
    using assms by (simp_all add: docs_inv_def)
  show ?thesis
  proof (cases r)
    case (Inl e)
    have "ok s'" "load s' = load s \<or> load s' = load (between s) \<or> load s' = load (late (between s))"
      using update_failed [of now between late i fn s e s'] oks Pair Inl by auto
    with Pair assms show ?thesis by (elim disjE) (simp_all add: docs_inv_def)
  next
    case (Inr g')
    have upd: "Update load save now between late i fn s = (Inr g', s')" using Pair Inr by simp
    obtain g g1 where g: "load s i = Inr g" "fn g = Inr g1"
      and g': "g' = g1\<lparr>g_revision := g_revision g + 1, g_updatedAt := now\<rparr>"
      and sv: "save g' (late (between s)) = (None, s')"
      using update_commits [OF upd oks(1,3) goal_fn_keeps [OF assms(1)]] by metis
    have wf: "wf_goal g" using g assms(2) by (simp add: docs_inv_def)
    note step = goal_fn_step [OF assms(1) wf g(2)]
    have "wf_goal g'" using step wf_goal_touch [of g1 now] g' by simp
    with save_docs_inv [OF assms(4) _ sv] Pair show ?thesis by simp
  qed
qed

lemma create_docs_inv:
  assumes "docs_inv s" "docs_inv (late s)"
  shows "docs_inv (snd (Create load save now late newid objective maxRounds s))"
proof -
  let ?g = "\<lparr>g_id = newid, g_objective = objective, g_phase = PhaseActive, g_revision = 1,
            g_rounds = 0, g_maxRounds = maxRounds, g_blockedStreak = 0, g_blockerReason = [],
            g_createdAt = now, g_updatedAt = now\<rparr>"
  obtain e s' where sv: "save ?g (late s) = (e, s')" by force
  have "docs_inv s'" if "\<not> is_blank objective" "\<not> maxRounds < 0"
  proof (rule save_docs_inv [OF assms(2) _ sv])
    show "wf_goal ?g" using that by (simp add: wf_goal_def)
  qed
  with sv assms show ?thesis by (auto simp: Create_def Let_def split: sum.split option.split)
qed

lemma clear_docs_inv:
  assumes "docs_inv s"
  shows "docs_inv (snd (Clear delete i s))"
proof (cases "delete i s")
  case (Pair e s')
  have ok: "ok s" using assms by (simp add: docs_inv_def)
  have "docs_inv s'"
  proof (cases e)
    case None
    have del: "ok s'" "\<And>g. load s' i \<noteq> Inr g" "\<And>j. j \<noteq> i \<Longrightarrow> load s' j = load s j"
      using delete_ok [OF ok] Pair None by auto
    have "wf_goal h" if "load s' j = Inr h" for j h
      using that del assms by (cases "j = i") (auto simp: docs_inv_def)
    with del show ?thesis by (simp add: docs_inv_def)
  next
    case (Some x)
    with delete_failed [OF ok] Pair assms show ?thesis by (simp add: docs_inv_def)
  qed
  with Pair show ?thesis by (simp add: Clear_def)
qed

end

section \<open>Managers sharing a store\<close>

text \<open>
  \<open>goal_steps load save delete s t\<close>: any number of managers take the store from \<open>s\<close> to \<open>t\<close>.  The
  windows of an operation hold arbitrary activity of the others.
\<close>

inductive goal_steps ::
  "'s goal_load \<Rightarrow> 's goal_save \<Rightarrow> (string \<Rightarrow> 's \<Rightarrow> goal_error option \<times> 's) \<Rightarrow> 's \<Rightarrow> 's \<Rightarrow> bool"
  for load save delete where
  gs_refl: "goal_steps load save delete s s"
| gs_update: "\<lbrakk>goal_steps load save delete s t; goal_steps load save delete t t1;
    goal_steps load save delete t1 t2; goal_fn fn\<rbrakk> \<Longrightarrow>
    goal_steps load save delete s (snd (Update load save now (\<lambda>_. t1) (\<lambda>_. t2) i fn t))"
| gs_create: "\<lbrakk>goal_steps load save delete s t; goal_steps load save delete t t1\<rbrakk> \<Longrightarrow>
    goal_steps load save delete s (snd (Create load save now (\<lambda>_. t1) newid objective maxRounds t))"
| gs_clear: "goal_steps load save delete s t \<Longrightarrow>
    goal_steps load save delete s (snd (Clear delete i t))"

context goal_store
begin

lemma goal_steps_docs_inv: "goal_steps load save delete s t \<Longrightarrow> docs_inv s \<Longrightarrow> docs_inv t"
proof (induction rule: goal_steps.induct)
  case (gs_update s t t1 t2 fn now i)
  then show ?case by (intro update_docs_inv) auto
next
  case (gs_create s t t1 now newid objective maxRounds)
  then show ?case by (intro create_docs_inv) auto
next
  case (gs_clear s t i)
  then show ?case by (intro clear_docs_inv) auto
qed auto

end

end
