(* ===== verification/GoalStores.thy ===== *)
theory GoalStores
  imports GoalManager "HOL-Library.Sublist" "HOL-Library.Multiset"
begin

text \<open>
  The two goal stores of \<open>core/goal/store.go\<close>, as interpretations of \<open>goal_store\<close>, and the
  properties of the manager over them.

  The file store lives on a directory \<open>gfs\<close>: file names to contents, and the outcomes of the next
  operating-system calls.  The content of a file is what \<open>json.Unmarshal\<close> reads from it:
  \<open>Some g\<close> for a document, \<open>None\<close> for bytes that do not parse; \<open>json.Marshal\<close> of a goal reads back
  as that goal.
\<close>

section \<open>MemoryStore\<close>

type_synonym mem_store = "string \<rightharpoonup> goal"

definition NewMemoryStore :: mem_store where
  "NewMemoryStore = Map.empty"

definition mem_Save :: "goal \<Rightarrow> mem_store \<Rightarrow> goal_error option \<times> mem_store" where
  "mem_Save g s = (None, s(g_id g \<mapsto> g))"

definition mem_Load :: "mem_store \<Rightarrow> string \<Rightarrow> goal_error + goal" where
  "mem_Load s i = (case s i of None \<Rightarrow> Inl GoalNotFound | Some g \<Rightarrow> Inr g)"

definition mem_Delete :: "string \<Rightarrow> mem_store \<Rightarrow> goal_error option \<times> mem_store" where
  "mem_Delete i s = (None, s(i := None))"

text \<open>\<open>order\<close> is the order in which Go happens to range over the map.\<close>

definition mem_List :: "string list \<Rightarrow> mem_store \<Rightarrow> goal list" where
  "mem_List order s = sort_key g_createdAt (List.map_filter s order)"

definition mem_ok :: "mem_store \<Rightarrow> bool" where
  "mem_ok s \<longleftrightarrow> (\<forall>i g. s i = Some g \<longrightarrow> g_id g = i)"

lemmas mem_defs = mem_Save_def mem_Load_def mem_Delete_def mem_ok_def

interpretation mem: goal_store mem_Load mem_Save mem_Delete mem_ok
  by unfold_locales (auto simp: mem_defs split: option.splits if_splits)

section \<open>FileStore\<close>

datatype io_fault = IoOk | IoFail | IoPartial "goal option"
datatype io_error = NotExist | IoError

record gfs =
  gfs_files :: "string \<rightharpoonup> goal option"
  gfs_faults :: "io_fault list"

definition next_fault :: "gfs \<Rightarrow> io_fault \<times> gfs" where
  "next_fault fs = (case gfs_faults fs of
     [] \<Rightarrow> (IoOk, fs) | f # rest \<Rightarrow> (f, fs\<lparr>gfs_faults := rest\<rparr>))"

text \<open>\<open>os.WriteFile\<close>: a failed write leaves the file alone or with other bytes.\<close>

definition os_WriteFile :: "string \<Rightarrow> goal option \<Rightarrow> gfs \<Rightarrow> io_error option \<times> gfs" where
  "os_WriteFile n c fs = (let (f, fs) = next_fault fs in
     case f of
       IoOk \<Rightarrow> (None, fs\<lparr>gfs_files := (gfs_files fs)(n \<mapsto> c)\<rparr>)
     | IoFail \<Rightarrow> (Some IoError, fs)
     | IoPartial c' \<Rightarrow> (Some IoError, fs\<lparr>gfs_files := (gfs_files fs)(n \<mapsto> c')\<rparr>))"

text \<open>\<open>os.Rename\<close> replaces the target atomically.\<close>

definition os_Rename :: "string \<Rightarrow> string \<Rightarrow> gfs \<Rightarrow> io_error option \<times> gfs" where
  "os_Rename a b fs = (let (f, fs) = next_fault fs in
     case (f, gfs_files fs a) of
       (IoOk, Some c) \<Rightarrow> (None, fs\<lparr>gfs_files := (gfs_files fs)(a := None, b \<mapsto> c)\<rparr>)
     | (IoOk, None) \<Rightarrow> (Some NotExist, fs)
     | _ \<Rightarrow> (Some IoError, fs))"

definition os_Remove :: "string \<Rightarrow> gfs \<Rightarrow> io_error option \<times> gfs" where
  "os_Remove n fs = (let (f, fs) = next_fault fs in
     case (f, gfs_files fs n) of
       (IoOk, Some c) \<Rightarrow> (None, fs\<lparr>gfs_files := (gfs_files fs)(n := None)\<rparr>)
     | (IoOk, None) \<Rightarrow> (Some NotExist, fs)
     | _ \<Rightarrow> (Some IoError, fs))"

definition goal_path :: "string \<Rightarrow> string" where
  "goal_path i = i @ ''.json''"

definition file_Save :: "goal \<Rightarrow> gfs \<Rightarrow> goal_error option \<times> gfs" where
  "file_Save g fs =
     (let tmp = goal_path (g_id g) @ ''.tmp'' in
      case os_WriteFile tmp (Some g) fs of
        (Some _, fs1) \<Rightarrow> (Some GoalStorage, fs1)
      | (None, fs1) \<Rightarrow>
          (case os_Rename tmp (goal_path (g_id g)) fs1 of
             (Some _, fs2) \<Rightarrow> (Some GoalStorage, snd (os_Remove tmp fs2))
           | (None, fs2) \<Rightarrow> (None, fs2)))"

definition file_Load :: "gfs \<Rightarrow> string \<Rightarrow> goal_error + goal" where
  "file_Load fs i = (case gfs_files fs (goal_path i) of
     None \<Rightarrow> Inl GoalNotFound
   | Some None \<Rightarrow> Inl GoalStorage
   | Some (Some g) \<Rightarrow> Inr g)"

definition file_Delete :: "string \<Rightarrow> gfs \<Rightarrow> goal_error option \<times> gfs" where
  "file_Delete i fs = (case os_Remove (goal_path i) fs of
     (None, fs') \<Rightarrow> (None, fs')
   | (Some NotExist, fs') \<Rightarrow> (None, fs')
   | (Some IoError, fs') \<Rightarrow> (Some GoalStorage, fs'))"

text \<open>The loop of \<open>List\<close> over the directory's entries, in the order \<open>os.ReadDir\<close> gives them.\<close>

fun file_entries :: "gfs \<Rightarrow> string list \<Rightarrow> goal_error + goal list" where
  "file_entries fs [] = Inr []"
| "file_entries fs (n # ns) =
     (if \<not> suffix ''.json'' n then file_entries fs ns
      else (case file_Load fs (take (length n - 5) n) of
              Inl e \<Rightarrow> Inl e
            | Inr g \<Rightarrow> (case file_entries fs ns of Inl e \<Rightarrow> Inl e | Inr gs \<Rightarrow> Inr (g # gs))))"

definition file_List :: "string list \<Rightarrow> gfs \<Rightarrow> goal_error + goal list" where
  "file_List entries fs = (case file_entries fs entries of
     Inl e \<Rightarrow> Inl e | Inr gs \<Rightarrow> Inr (sort_key g_createdAt gs))"

definition file_ok :: "gfs \<Rightarrow> bool" where
  "file_ok fs \<longleftrightarrow> (\<forall>i g. gfs_files fs (goal_path i) = Some (Some g) \<longrightarrow> g_id g = i)"

lemma goal_path_inject [simp]: "goal_path i = goal_path j \<longleftrightarrow> i = j"
  by (simp add: goal_path_def)

lemma goal_path_tmp [simp]:
  "goal_path i \<noteq> goal_path j @ ''.tmp''" "goal_path j @ ''.tmp'' \<noteq> goal_path i"
proof -
  have "last (goal_path i) \<noteq> last (goal_path j @ ''.tmp'')" by (simp add: goal_path_def)
  then show "goal_path i \<noteq> goal_path j @ ''.tmp''" "goal_path j @ ''.tmp'' \<noteq> goal_path i"
    by metis+
qed

lemma next_fault_files: "next_fault fs = (f, fs') \<Longrightarrow> gfs_files fs' = gfs_files fs"
  by (auto simp: next_fault_def split: list.splits)

lemma os_WriteFile_other:
  "os_WriteFile n c fs = (r, fs') \<Longrightarrow> m \<noteq> n \<Longrightarrow> gfs_files fs' m = gfs_files fs m"
  "os_WriteFile n c fs = (None, fs') \<Longrightarrow> gfs_files fs' n = Some c"
  by (auto simp: os_WriteFile_def split: prod.splits io_fault.splits dest: next_fault_files)

lemma os_Rename_cases:
  "os_Rename a b fs = (Some e, fs') \<Longrightarrow> gfs_files fs' = gfs_files fs"
  "os_Rename a b fs = (None, fs') \<Longrightarrow> gfs_files fs' = (gfs_files fs)(a := None, b := gfs_files fs a)"
  by (auto simp: os_Rename_def split: prod.splits io_fault.splits option.splits dest!: next_fault_files)

lemma os_Remove_cases:
  "os_Remove n fs = (Some IoError, fs') \<Longrightarrow> gfs_files fs' = gfs_files fs"
  "os_Remove n fs = (Some NotExist, fs') \<Longrightarrow> gfs_files fs' = gfs_files fs \<and> gfs_files fs n = None"
  "os_Remove n fs = (None, fs') \<Longrightarrow> gfs_files fs' = (gfs_files fs)(n := None)"
  by (auto simp: os_Remove_def split: prod.splits io_fault.splits option.splits dest!: next_fault_files)

lemma os_Remove_other: "m \<noteq> n \<Longrightarrow> gfs_files (snd (os_Remove n fs)) m = gfs_files fs m"
  by (auto simp: os_Remove_def split: prod.splits io_fault.splits option.splits dest!: next_fault_files)

lemma file_Save_ok:
  assumes "file_Save g fs = (None, fs')"
  shows "gfs_files fs' (goal_path i) = (if i = g_id g then Some (Some g) else gfs_files fs (goal_path i))"
proof -
  let ?tmp = "goal_path (g_id g) @ ''.tmp''"
  obtain fs1 where w: "os_WriteFile ?tmp (Some g) fs = (None, fs1)"
    and r: "os_Rename ?tmp (goal_path (g_id g)) fs1 = (None, fs')"
    using assms by (auto simp: file_Save_def Let_def split: prod.splits option.splits)
  show ?thesis
    using os_Rename_cases(2) [OF r] os_WriteFile_other(2) [OF w]
      os_WriteFile_other(1) [OF w, of "goal_path i"] by simp
qed

lemma file_Save_failed:
  assumes "file_Save g fs = (Some e, fs')"
  shows "gfs_files fs' (goal_path i) = gfs_files fs (goal_path i)"
proof -
  let ?tmp = "goal_path (g_id g) @ ''.tmp''"
  obtain r fs1 where w: "os_WriteFile ?tmp (Some g) fs = (r, fs1)" by force
  have fs1: "gfs_files fs1 (goal_path i) = gfs_files fs (goal_path i)"
    using os_WriteFile_other(1) [OF w] by simp
  show ?thesis
  proof (cases r)
    case None
    obtain e2 fs2 where n: "os_Rename ?tmp (goal_path (g_id g)) fs1 = (Some e2, fs2)"
      and fs': "fs' = snd (os_Remove ?tmp fs2)"
      using assms w None by (auto simp: file_Save_def Let_def split: prod.splits option.splits)
    show ?thesis using os_Rename_cases(1) [OF n] fs' fs1 by (simp add: os_Remove_other)
  next
    case (Some x)
    with assms w fs1 show ?thesis by (auto simp: file_Save_def Let_def)
  qed
qed

lemma file_Delete_cases:
  "file_Delete i fs = (None, fs') \<Longrightarrow> gfs_files fs' = (gfs_files fs)(goal_path i := None)"
  "file_Delete i fs = (Some e, fs') \<Longrightarrow> gfs_files fs' = gfs_files fs"
  by (auto simp: file_Delete_def fun_eq_iff split: prod.splits option.splits io_error.splits
      dest: os_Remove_cases)

lemma file_Load_cong:
  "gfs_files fs' (goal_path i) = gfs_files fs (goal_path i) \<Longrightarrow> file_Load fs' i = file_Load fs i"
  by (simp add: file_Load_def)

lemma file_Load_Inr: "file_Load fs i = Inr g \<longleftrightarrow> gfs_files fs (goal_path i) = Some (Some g)"
  by (simp add: file_Load_def split: option.split)

interpretation disk: goal_store file_Load file_Save file_Delete file_ok
proof
  fix fs i g assume "file_ok fs" "file_Load fs i = Inr g"
  then show "g_id g = i" by (auto simp: file_ok_def file_Load_Inr)
next
  fix fs g fs' assume "file_ok fs" "file_Save g fs = (None, fs')"
  note sv = file_Save_ok [OF this(2)]
  show "file_ok fs' \<and> file_Load fs' (g_id g) = Inr g \<and>
        (\<forall>j. j \<noteq> g_id g \<longrightarrow> file_Load fs' j = file_Load fs j)"
    using sv \<open>file_ok fs\<close> by (auto simp: file_ok_def file_Load_def split: if_splits)
next
  fix fs g e fs' assume "file_ok fs" "file_Save g fs = (Some e, fs')"
  then show "file_ok fs' \<and> file_Load fs' = file_Load fs"
    using file_Save_failed [of g fs e fs'] by (auto simp: file_ok_def file_Load_def fun_eq_iff)
next
  fix fs i fs' assume "file_ok fs" "file_Delete i fs = (None, fs')"
  then show "file_ok fs' \<and> (\<forall>g. file_Load fs' i \<noteq> Inr g) \<and> (\<forall>j. j \<noteq> i \<longrightarrow> file_Load fs' j = file_Load fs j)"
    using file_Delete_cases(1) [of i fs fs'] by (auto simp: file_ok_def file_Load_def)
next
  fix fs i e fs' assume "file_ok fs" "file_Delete i fs = (Some e, fs')"
  then show "file_ok fs' \<and> file_Load fs' = file_Load fs"
    using file_Delete_cases(2) [of i fs e fs'] by (auto simp: file_ok_def file_Load_def fun_eq_iff)
qed

end
