(* ===== verification/GoalLifecycle.thy ===== *)
theory GoalLifecycle
  imports GoalStores
begin

text \<open>
  Histories of one goal manager and the properties of goals over both stores: well-formedness of
  every stored document, the life cycle of a goal, the compare-and-set commit, its remaining
  window, the authority of autonomous blocks, and the atomicity of the file store.
\<close>

section \<open>Operations of one manager\<close>

datatype goal_mutation = MComplete | MPause | MResume | MBlock string "int option" | MStartRound

datatype goal_op = OpCreate string string int | OpMutate string goal_mutation | OpClear string

fun goal_mutate ::
  "'s goal_load \<Rightarrow> 's goal_save \<Rightarrow> int \<Rightarrow> string \<Rightarrow> goal_mutation \<Rightarrow> 's \<Rightarrow> (goal_error + goal) \<times> 's" where
  "goal_mutate load save now i MComplete s = Complete load save now id id i s"
| "goal_mutate load save now i MPause s = Pause load save now id id i s"
| "goal_mutate load save now i MResume s = Resume load save now id id i s"
| "goal_mutate load save now i (MBlock reason auto) s = Block load save now id id i reason auto s"
| "goal_mutate load save now i MStartRound s = StartRound load save now id id i s"

fun goal_exec ::
  "'s goal_load \<Rightarrow> 's goal_save \<Rightarrow> (string \<Rightarrow> 's \<Rightarrow> goal_error option \<times> 's) \<Rightarrow> int \<times> goal_op \<Rightarrow> 's \<Rightarrow> 's" where
  "goal_exec load save delete (now, OpCreate i objective maxRounds) s =
     snd (Create load save now id i objective maxRounds s)"
| "goal_exec load save delete (now, OpMutate i m) s = snd (goal_mutate load save now i m s)"
| "goal_exec load save delete (now, OpClear i) s = snd (Clear delete i s)"

definition goal_run where
  "goal_run load save delete ops s = fold (goal_exec load save delete) ops s"

text \<open>The mutations of a goal that a history answers with a document, of the kinds \<open>P\<close>.\<close>

fun goal_commits where
  "goal_commits load save delete j P [] s = (0 :: nat)"
| "goal_commits load save delete j P (op # ops) s =
     (case op of
        (now, OpMutate i m) \<Rightarrow> (if i = j \<and> P m \<and> \<not> isl (fst (goal_mutate load save now i m s)) then 1 else 0)
      | _ \<Rightarrow> 0) +
     goal_commits load save delete j P ops (goal_exec load save delete op s)"

text \<open>What may change in a goal over time.\<close>

definition goal_later :: "goal \<Rightarrow> goal \<Rightarrow> bool" where
  "goal_later g h \<longleftrightarrow>
     g_id h = g_id g \<and> g_objective h = g_objective g \<and> g_maxRounds h = g_maxRounds g \<and>
     g_createdAt h = g_createdAt g \<and> g_rounds g \<le> g_rounds h \<and>
     g_rounds h - g_rounds g \<le> g_revision h - g_revision g \<and>
     (g_phase g = PhaseComplete \<longrightarrow> g_phase h = PhaseComplete \<and> g_rounds h = g_rounds g)"

lemma goal_later_refl [intro, simp]: "goal_later g g"
  by (simp add: goal_later_def)

lemma goal_later_trans: "goal_later f g \<Longrightarrow> goal_later g h \<Longrightarrow> goal_later f h"
  by (auto simp: goal_later_def)

lemma goal_fn_later:
  assumes "goal_fn fn" "wf_goal g" "fn g = Inr g1"
  shows "goal_later g (g1\<lparr>g_revision := g_revision g + 1, g_updatedAt := now\<rparr>)"
proof -
  note step = goal_fn_step [OF assms]
  have "g_rounds g1 = g_rounds g" if "g_phase g = PhaseComplete"
    using step that assms(3) by (auto simp: start_round_fn_def)
  with step show ?thesis by (auto simp: goal_later_def phase_edge_def)
qed

lemma other_fn_rounds:
  "complete_fn g = Inr g1 \<Longrightarrow> g_rounds g1 = g_rounds g"
  "pause_fn g = Inr g1 \<Longrightarrow> g_rounds g1 = g_rounds g"
  "resume_fn g = Inr g1 \<Longrightarrow> g_rounds g1 = g_rounds g"
  "block_fn reason auto g = Inr g1 \<Longrightarrow> g_rounds g1 = g_rounds g"
  by (auto simp: complete_fn_def pause_fn_def resume_fn_def block_fn_def split: goal_phase.splits if_splits option.splits)

lemma goal_mutate_cases:
  obtains (refused) e where "goal_mutate load save now i m s = (Inl e, s)"
  | (update) fn where "goal_fn fn" "goal_mutate load save now i m s = Update load save now id id i fn s"
      "\<And>g g1. fn g = Inr g1 \<Longrightarrow> g_rounds g1 = g_rounds g + (if m = MStartRound then 1 else 0)"
proof (cases m)
  case (MBlock reason auto)
  show thesis
  proof (cases "is_blank reason \<or> (case auto of Some n \<Rightarrow> n < 1 | None \<Rightarrow> False)")
    case True
    then have "\<exists>e. goal_mutate load save now i m s = (Inl e, s)"
      using MBlock by (auto simp: Block_def)
    then show thesis using refused by blast
  next
    case False
    then show thesis
      using MBlock by (intro update [OF fn_block [of reason auto]]) (auto simp: Block_def other_fn_rounds)
  qed
next
  case MComplete
  then show thesis
    by (intro update [OF fn_complete]) (auto simp: Complete_def other_fn_rounds)
next
  case MPause
  then show thesis
    by (intro update [OF fn_pause]) (auto simp: Pause_def other_fn_rounds)
next
  case MResume
  then show thesis
    by (intro update [OF fn_resume]) (auto simp: Resume_def other_fn_rounds)
next
  case MStartRound
  then show thesis
    by (intro update [OF fn_start_round]) (auto simp: StartRound_def start_round_fn_def split: if_splits)
qed

context goal_store
begin

lemma update_later:
  assumes "goal_fn fn" "docs_inv s" "load s j = Inr g"
  shows "\<exists>g'. load (snd (Update load save now id id i fn s)) j = Inr g' \<and> goal_later g g' \<and>
    (if i = j \<and> \<not> isl (fst (Update load save now id id i fn s))
     then g_revision g' = g_revision g + 1 \<and> (\<exists>g1. fn g = Inr g1 \<and> g_rounds g' = g_rounds g1) else g' = g)"
proof (cases "Update load save now id id i fn s")
  case (Pair r s')
  have ok: "ok s" using assms by (simp add: docs_inv_def)
  show ?thesis
  proof (cases r)
    case (Inl e)
    have "load s' = load s"
      using update_failed [of now id id i fn s e s'] Pair Inl ok by simp
    with Pair Inl assms show ?thesis by auto
  next
    case (Inr g')
    have upd: "Update load save now id id i fn s = (Inr g', s')" using Pair Inr by simp
    obtain h g1 where h: "load s i = Inr h" "fn h = Inr g1"
      and g': "g' = g1\<lparr>g_revision := g_revision h + 1, g_updatedAt := now\<rparr>"
      and st: "load s' i = Inr g'" "\<And>k. k \<noteq> i \<Longrightarrow> load s' k = load s k"
      using update_commits [OF upd ok _ goal_fn_keeps [OF assms(1)]] ok by (metis id_apply)
    have "wf_goal h" using h assms(2) by (simp add: docs_inv_def)
    with h g' assms(1) have "goal_later h g'" by (simp add: goal_fn_later)
    moreover have "g_revision g' = g_revision h + 1 \<and> (\<exists>g1. fn h = Inr g1 \<and> g_rounds g' = g_rounds g1)" using h g' by simp
    ultimately show ?thesis using st h Pair Inr assms(3) by (cases "j = i") auto
  qed
qed

lemma create_later:
  assumes "docs_inv s" "load s j = Inr g"
  shows "load (snd (Create load save now id i objective maxRounds s)) j = Inr g"
proof -
  have ok: "ok s" using assms by (simp add: docs_inv_def)
  let ?g = "\<lparr>g_id = i, g_objective = objective, g_phase = PhaseActive, g_revision = 1,
            g_rounds = 0, g_maxRounds = maxRounds, g_blockedStreak = 0, g_blockerReason = [],
            g_createdAt = now, g_updatedAt = now\<rparr>"
  obtain e s' where sv: "save ?g s = (e, s')" by force
  have "load s' j = load s j" if "j \<noteq> i"
    using that save_ok [OF ok, of ?g s'] save_failed [OF ok, of ?g _ s'] sv by (cases e) auto
  with sv assms(2) show ?thesis
    by (cases "j = i") (auto simp: Create_def Let_def split: sum.split option.split)
qed

lemma exec_later:
  assumes "docs_inv s" "load s j = Inr g" "\<And>t. op \<noteq> (t, OpClear j)"
  shows "\<exists>g'. load (goal_exec load save delete op s) j = Inr g' \<and> goal_later g g' \<and>
    g_revision g' = g_revision g + int (goal_commits load save delete j (\<lambda>_. True) [op] s) \<and>
    g_rounds g' = g_rounds g + int (goal_commits load save delete j ((=) MStartRound) [op] s)"
proof -
  have ok: "ok s" using assms by (simp add: docs_inv_def)
  obtain now o' where op: "op = (now, o')" by force
  show ?thesis
  proof (cases o')
    case (OpCreate i objective maxRounds)
    with op create_later [OF assms(1,2)] show ?thesis by auto
  next
    case (OpMutate i m)
    show ?thesis
    proof (cases rule: goal_mutate_cases [where load = load and save = save and now = now and i = i and m = m and s = s])
      case (refused e)
      then show ?thesis using op OpMutate assms(2) by auto
    next
      case (update fn)
      note later = update_later [OF update(1) assms(1,2), of now i]
      then show ?thesis using op OpMutate update(2,3) by (fastforce split: if_splits)
    qed
  next
    case (OpClear i)
    then have "j \<noteq> i" using assms(3) op by blast
    obtain e s' where d: "delete i s = (e, s')" by force
    have "load s' j = load s j"
      using delete_ok [OF ok, of i s'] delete_failed [OF ok, of i _ s'] d \<open>j \<noteq> i\<close> by (cases e) auto
    with OpClear op d assms(2) show ?thesis by (simp add: Clear_def)
  qed
qed

lemma exec_docs_inv:
  assumes "docs_inv s"
  shows "docs_inv (goal_exec load save delete op s)"
proof -
  obtain now o' where op: "op = (now, o')" by force
  show ?thesis
  proof (cases o')
    case (OpMutate i m)
    then show ?thesis
      using op assms update_docs_inv [of _ s id id]
      by (cases rule: goal_mutate_cases [where load = load and save = save and now = now and i = i and m = m and s = s])
        auto
  qed (use op assms create_docs_inv [of s id] clear_docs_inv in auto)
qed

lemma run_docs_inv: "docs_inv s \<Longrightarrow> docs_inv (goal_run load save delete ops s)"
  unfolding goal_run_def by (induction ops arbitrary: s) (auto intro: exec_docs_inv)

lemma run_later:
  assumes "docs_inv s" "load s j = Inr g" "\<And>t. (t, OpClear j) \<notin> set ops"
  shows "\<exists>g'. load (goal_run load save delete ops s) j = Inr g' \<and> goal_later g g' \<and> wf_goal g' \<and>
    g_revision g' = g_revision g + int (goal_commits load save delete j (\<lambda>_. True) ops s) \<and>
    g_rounds g' = g_rounds g + int (goal_commits load save delete j ((=) MStartRound) ops s)"
  using assms unfolding goal_run_def
proof (induction ops arbitrary: s g)
  case Nil
  then show ?case by (auto simp: docs_inv_def)
next
  case (Cons op ops)
  obtain g1 where g1: "load (goal_exec load save delete op s) j = Inr g1" "goal_later g g1"
    and counts: "g_revision g1 = g_revision g + int (goal_commits load save delete j (\<lambda>_. True) [op] s)"
      "g_rounds g1 = g_rounds g + int (goal_commits load save delete j ((=) MStartRound) [op] s)"
    using exec_later [OF Cons.prems(1,2), of op] Cons.prems(3) by auto
  have inv: "docs_inv (goal_exec load save delete op s)" using exec_docs_inv Cons.prems(1) .
  obtain g2 where "load (fold (goal_exec load save delete) ops (goal_exec load save delete op s)) j = Inr g2"
    "goal_later g1 g2" "wf_goal g2"
    "g_revision g2 = g_revision g1 + int (goal_commits load save delete j (\<lambda>_. True) ops (goal_exec load save delete op s))"
    "g_rounds g2 = g_rounds g1 + int (goal_commits load save delete j ((=) MStartRound) ops (goal_exec load save delete op s))"
    using Cons.IH [OF inv g1(1)] Cons.prems(3) by auto
  then show ?case using counts goal_later_trans [OF g1(2)] by auto
qed

end

section \<open>Properties\<close>

text \<open>
  C7. Every document a file store ever holds is well formed: whatever any number of managers do through their
  mutations (Create, Complete, Pause, Resume, Block, StartRound, Clear), interleaved at the calls of the store, each
  such call one step, and whatever calls of the operating system fail, a goal that loads has
  an objective, a positive revision, between zero and \<open>MaxRounds\<close> rounds, and a blocker reason and
  a positive streak exactly while it is blocked.
\<close>

theorem goal_documents_wellformed:
  assumes "gfs_files fs0 = Map.empty" "goal_steps file_Load file_Save file_Delete fs0 fs"
    and "file_Load fs i = Inr g"
  shows "wf_goal g"
proof -
  have "disk.docs_inv fs0" using assms(1) by (simp add: disk.docs_inv_def file_ok_def file_Load_def)
  with disk.goal_steps_docs_inv [OF assms(2)] assms(3) show ?thesis by (simp add: disk.docs_inv_def)
qed

theorem goal_documents_wellformed_witness:
  "\<exists>fs g. goal_steps file_Load file_Save file_Delete \<lparr>gfs_files = Map.empty, gfs_faults = []\<rparr> fs \<and>
     file_Load fs ''a'' = Inr g \<and> wf_goal g"
proof -
  let ?init = "\<lparr>gfs_files = Map.empty, gfs_faults = []\<rparr>"
  let ?fs = "snd (Create file_Load file_Save 7 (\<lambda>_. ?init) ''a'' ''x'' 3 ?init)"
  have st: "goal_steps file_Load file_Save file_Delete ?init ?fs"
    by (intro gs_create gs_refl)
  have "\<exists>g. file_Load ?fs ''a'' = Inr g"
    by (simp add: Create_def Let_def is_blank_def is_space_def file_Load_def file_Save_def os_WriteFile_def
        os_Rename_def next_fault_def goal_path_def)
  then obtain g where g: "file_Load ?fs ''a'' = Inr g" ..
  have "wf_goal g" using goal_documents_wellformed [OF _ st g] by simp
  with st g show ?thesis by blast
qed





text \<open>
  The compare-and-set commit.  When no other manager acts between the second load and the
  save, a mutation that accepts the loaded document commits exactly if the stored revision is
  still the loaded one; it then stores the mutated document one revision further and touches
  nothing else, and otherwise it reports a stale revision and leaves the other writer's store.
\<close>

theorem goal_cas_commit:
  assumes "mem_ok s" "goal_fn fn" "mem_Load s i = Inr g" "fn g = Inr g1"
    and "mem_Load (between s) i = Inr cur"
  shows "Update mem_Load mem_Save now between id i fn s =
    (if g_revision cur \<noteq> g_revision g then (Inl GoalStaleRevision, between s)
     else (Inr (g1\<lparr>g_revision := g_revision g + 1, g_updatedAt := now\<rparr>),
           (between s)(i \<mapsto> g1\<lparr>g_revision := g_revision g + 1, g_updatedAt := now\<rparr>)))"
proof -
  have "g_id g1 = i" "g_revision g1 = g_revision g"
    using goal_fn_keeps [OF assms(2,4)] mem.load_id [OF assms(1,3)] by simp_all
  then show ?thesis using assms(3-5) by (simp add: Update_def Let_def mem_Save_def)
qed

theorem goal_cas_commit_witness:
  "\<exists>g g'. fst (Update mem_Load mem_Save 9 id id ''a'' pause_fn [''a'' \<mapsto> g]) = Inr g' \<and>
     g_phase g' = PhasePaused \<and> g_revision g' = g_revision g + 1"
proof -
  let ?g = "\<lparr>g_id = ''a'', g_objective = ''x'', g_phase = PhaseActive, g_revision = 4,
           g_rounds = 2, g_maxRounds = 3, g_blockedStreak = 0, g_blockerReason = [],
           g_createdAt = 0, g_updatedAt = 0\<rparr>"
  have "fst (Update mem_Load mem_Save 9 id id ''a'' pause_fn [''a'' \<mapsto> ?g]) =
        Inr (?g\<lparr>g_phase := PhasePaused, g_revision := 5, g_updatedAt := 9\<rparr>)"
    using goal_cas_commit [of "[''a'' \<mapsto> ?g]" pause_fn "''a''" ?g "?g\<lparr>g_phase := PhasePaused\<rparr>" id ?g 9]
    by (simp add: fn_pause pause_fn_def mem_defs)
  then show ?thesis by (intro exI [of _ ?g] exI [of _ "?g\<lparr>g_phase := PhasePaused, g_revision := 5, g_updatedAt := 9\<rparr>"]) simp
qed

text \<open>
  The window of the compare-and-set.  The commit check and the save are two store calls: if a
  second manager of the same store claims a round between them, both managers report success with
  the same round number, and the store ends up with one round and one revision for the two.
\<close>

theorem goal_cas_window:
  assumes "mem_ok s" "mem_Load s i = Inr g" "g_phase g = PhaseActive"
    and "g_maxRounds g = 0 \<or> g_rounds g < g_maxRounds g"
    and "other = StartRound mem_Load mem_Save now id id i s"
  shows "\<exists>g1 g2. fst other = Inr g1 \<and>
    fst (StartRound mem_Load mem_Save now' id (\<lambda>_. snd other) i s) = Inr g2 \<and>
    g_rounds g1 = g_rounds g + 1 \<and> g_rounds g2 = g_rounds g + 1 \<and>
    mem_Load (snd (StartRound mem_Load mem_Save now' id (\<lambda>_. snd other) i s)) i = Inr g2 \<and>
    g_revision g2 = g_revision g + 1"
  using assms mem.load_id [OF assms(1,2)]
  by (auto simp: StartRound_def Update_def start_round_fn_def mem_Save_def Let_def mem_Load_def [of "_ (_ \<mapsto> _)"])

theorem goal_cas_window_witness:
  "\<exists>g g1 g2. fst (StartRound mem_Load mem_Save 1 id id ''a'' [''a'' \<mapsto> g]) = Inr g1 \<and>
     fst (StartRound mem_Load mem_Save 2 id
       (\<lambda>_. snd (StartRound mem_Load mem_Save 1 id id ''a'' [''a'' \<mapsto> g])) ''a'' [''a'' \<mapsto> g]) = Inr g2 \<and>
     g_rounds g1 = g_rounds g2"
proof -
  let ?g = "\<lparr>g_id = ''a'', g_objective = ''x'', g_phase = PhaseActive, g_revision = 4,
           g_rounds = 2, g_maxRounds = 3, g_blockedStreak = 0, g_blockerReason = [],
           g_createdAt = 0, g_updatedAt = 0\<rparr>"
  have ok: "mem_ok [''a'' \<mapsto> ?g]" and ld: "mem_Load [''a'' \<mapsto> ?g] ''a'' = Inr ?g"
    by (simp_all add: mem_defs)
  have "\<exists>g1 g2. fst (StartRound mem_Load mem_Save 1 id id ''a'' [''a'' \<mapsto> ?g]) = Inr g1 \<and>
     fst (StartRound mem_Load mem_Save 2 id
       (\<lambda>_. snd (StartRound mem_Load mem_Save 1 id id ''a'' [''a'' \<mapsto> ?g])) ''a'' [''a'' \<mapsto> ?g]) = Inr g2 \<and>
     g_rounds g1 = g_rounds g2"
    using goal_cas_window [where now = 1 and now' = 2, OF ok ld _ _ refl] by auto
  then show ?thesis by blast
qed

text \<open>
  The authority of autonomous blocks.  A block reported by a goal round succeeds only on a
  goal that is already blocked for that very reason with a streak of at least the threshold less
  one; it leaves the phase and the rounds alone and extends the streak to the threshold or more.
\<close>

theorem autonomous_block_authority:
  assumes "file_ok fs" "Block file_Load file_Save now id id i reason (Some n) fs = (Inr g', fs')"
  shows "\<exists>g. file_Load fs i = Inr g \<and> g_phase g = PhaseBlocked \<and> g_blockerReason g = reason \<and>
    n - 1 \<le> g_blockedStreak g \<and> g_phase g' = PhaseBlocked \<and> g_rounds g' = g_rounds g \<and>
    n \<le> g_blockedStreak g' \<and> file_Load fs' i = Inr g'"
proof -
  have blk: "\<not> is_blank reason" "Update file_Load file_Save now id id i (block_fn reason (Some n)) fs = (Inr g', fs')"
    using assms(2) by (auto simp: Block_def split: if_splits)
  obtain g g1 where g: "file_Load fs i = Inr g" "block_fn reason (Some n) g = Inr g1"
    "g' = g1\<lparr>g_revision := g_revision g + 1, g_updatedAt := now\<rparr>" "file_Load fs' i = Inr g'"
    by (rule disk.update_commits [OF blk(2) assms(1) _ goal_fn_keeps [OF fn_block [OF blk(1)]]])
      (use assms(1) in simp_all)
  then show ?thesis by (auto simp: block_fn_def split: if_splits)
qed

theorem autonomous_block_authority_witness:
  "\<exists>g fs' g'. Block mem_Load mem_Save 9 id id ''a'' ''r'' (Some 3) [''a'' \<mapsto> g] = (Inl GoalInvalidTransition, [''a'' \<mapsto> g]) \<and>
     g_phase g' = PhaseBlocked \<and> file_Load fs' ''a'' = Inr g' \<and> 3 \<le> g_blockedStreak g'"
proof -
  let ?a = "\<lparr>g_id = ''a'', g_objective = ''x'', g_phase = PhaseActive, g_revision = 4,
           g_rounds = 2, g_maxRounds = 3, g_blockedStreak = 0, g_blockerReason = [],
           g_createdAt = 0, g_updatedAt = 0\<rparr>"
  let ?g = "?a\<lparr>g_phase := PhaseBlocked, g_blockerReason := ''r'', g_blockedStreak := 2\<rparr>"
  let ?fs = "\<lparr>gfs_files = [goal_path ''a'' \<mapsto> Some ?g], gfs_faults = []\<rparr>"
  let ?r = "Block file_Load file_Save 9 id id ''a'' ''r'' (Some 3) ?fs"
  have ok: "file_ok ?fs" by (simp add: file_ok_def)
  have "\<exists>g'. fst ?r = Inr g'"
    by (simp add: Block_def is_blank_def is_space_def Update_def Let_def block_fn_def file_Load_def
        file_Save_def os_WriteFile_def os_Rename_def next_fault_def)
  then obtain g' where "?r = (Inr g', snd ?r)" by (metis prod.collapse)
  note blk = autonomous_block_authority [OF ok this]
  have "Block mem_Load mem_Save 9 id id ''a'' ''r'' (Some 3) [''a'' \<mapsto> ?a] = (Inl GoalInvalidTransition, [''a'' \<mapsto> ?a])"
    by (simp add: Block_def is_blank_def is_space_def Update_def block_fn_def mem_Load_def)
  with blk show ?thesis by blast
qed

text \<open>
  A save is atomic for readers.  Whatever calls of the operating system fail, and with
  whatever bytes a failed write leaves, after \<open>Save\<close> every goal loads exactly as before, except
  that the saved goal loads as the new document when \<open>Save\<close> reports success.
\<close>

theorem file_save_atomic:
  "file_Load (snd (file_Save g fs)) i =
     (if i = g_id g \<and> fst (file_Save g fs) = None then Inr g else file_Load fs i)"
proof (cases "file_Save g fs")
  case (Pair r fs')
  then show ?thesis
    using file_Save_ok [of g fs fs' i] file_Save_failed [of g fs _ fs' i]
    by (cases r) (auto simp: file_Load_def)
qed

text \<open>
  What this rests on: the calls of one \<open>Save\<close> are not interleaved with another's.  Two processes that save the same
  goal share its temporary file; a write that stops half way between the other's write and rename gets published.
\<close>

lemma shared_tmp_clash:
  "let tmp = goal_path i @ ''.tmp'';
       fs1 = snd (os_WriteFile tmp (Some g) \<lparr>gfs_files = [goal_path i \<mapsto> Some g], gfs_faults = [IoOk, IoPartial None, IoOk]\<rparr>);
       fs2 = snd (os_WriteFile tmp (Some h) fs1);
       fs3 = snd (os_Rename tmp (goal_path i) fs2)
   in file_Load fs3 i = Inl GoalStorage"
  by (simp add: Let_def os_WriteFile_def os_Rename_def next_fault_def file_Load_def)

lemma file_entries_strict:
  "(case file_entries fs ns of
      Inl e \<Rightarrow> \<exists>n \<in> set ns. suffix ''.json'' n \<and> file_Load fs (take (length n - 5) n) = Inl e
    | Inr gs \<Rightarrow> map Inr gs = map (\<lambda>n. file_Load fs (take (length n - 5) n)) (filter (suffix ''.json'') ns))"
  by (induction ns) (auto split: sum.splits)

text \<open>
  Listing is strict: it fails as soon as one document of the directory does not parse, and
  otherwise returns exactly the documents of the directory, oldest first.
\<close>

theorem file_list_strict:
  "(case file_List ns fs of
      Inl e \<Rightarrow> \<exists>n \<in> set ns. suffix ''.json'' n \<and> file_Load fs (take (length n - 5) n) = Inl e
    | Inr gs \<Rightarrow> sorted (map g_createdAt gs) \<and>
        image_mset Inr (mset gs) =
        mset (map (\<lambda>n. file_Load fs (take (length n - 5) n)) (filter (suffix ''.json'') ns)))"
proof (cases "file_entries fs ns")
  case (Inl e)
  then show ?thesis using file_entries_strict [of ns fs] by (simp add: file_List_def)
next
  case (Inr gs)
  then have "map Inr gs = map (\<lambda>n. file_Load fs (take (length n - 5) n)) (filter (suffix ''.json'') ns)"
    using file_entries_strict [of ns fs] by simp
  then have "image_mset Inr (mset gs) =
      mset (map (\<lambda>n. file_Load fs (take (length n - 5) n)) (filter (suffix ''.json'') ns))"
    by (simp only: mset_map [symmetric, of Inr gs])
  with Inr show ?thesis by (simp add: file_List_def)
qed

end
