(* ===== verification/GoalRound.thy ===== *)
theory GoalRound
  imports GoalLifecycle
begin

text \<open>
  The round driver of \<open>module/goalround/goalround.go\<close>: arming, the three hooks and
  \<open>ShouldContinue\<close>, over a manager whose store operations are arguments.  A hook takes the
  session id \<open>sessionOf\<close> found; the run state it writes is a map of the three keys, and the
  notices it sends are a list.
\<close>

record armed_state =
  as_goalID :: string
  as_round :: int
  as_hostRun :: bool

record round_notice =
  rn_goal :: string
  rn_status :: string

record run_state =
  rs_hostTurn :: "bool option"
  rs_activeId :: "string option"
  rs_round :: "int option"

type_synonym round_driver = "string \<rightharpoonup> armed_state"

definition sessionOf :: "string \<Rightarrow> string \<Rightarrow> string" where
  "sessionOf fixed factsId = (if fixed \<noteq> [] then fixed else factsId)"

definition Arm :: "string \<Rightarrow> string \<Rightarrow> round_driver \<Rightarrow> round_driver" where
  "Arm sid gid d = (case d sid of Some _ \<Rightarrow> d
     | None \<Rightarrow> d(sid \<mapsto> \<lparr>as_goalID = gid, as_round = 0, as_hostRun = True\<rparr>))"

definition Disarm :: "string \<Rightarrow> round_driver \<Rightarrow> round_driver" where
  "Disarm sid d = d(sid := None)"

definition round_left :: "goal \<Rightarrow> bool" where
  "round_left g \<longleftrightarrow> \<not> (g_maxRounds g > 0 \<and> g_rounds g \<ge> g_maxRounds g)"

definition ShouldContinue :: "'s goal_load \<Rightarrow> string \<Rightarrow> round_driver \<Rightarrow> 's \<Rightarrow> string option" where
  "ShouldContinue load sid d s = (case d sid of
     None \<Rightarrow> None
   | Some st \<Rightarrow> (case load s (as_goalID st) of
       Inl _ \<Rightarrow> None
     | Inr g \<Rightarrow> (if g_phase g \<noteq> PhaseActive then None
                else if \<not> round_left g then None else Some (as_goalID st))))"

text \<open>The \<open>OnAgentStart\<close> hook.\<close>

definition goal_OnAgentStart ::
  "'s goal_load \<Rightarrow> 's goal_save \<Rightarrow> int \<Rightarrow> string \<Rightarrow> round_driver \<times> 's \<times> run_state \<times> round_notice list \<Rightarrow>
   round_driver \<times> 's \<times> run_state \<times> round_notice list" where
  "goal_OnAgentStart load save now sid = (\<lambda>(d, s, rs, ns).
     if sid = [] then (d, s, rs, ns)
     else (case d sid of
       None \<Rightarrow> (d, s, rs\<lparr>rs_hostTurn := Some True\<rparr>, ns)
     | Some st \<Rightarrow>
         (case StartRound load save now id id (as_goalID st) s of
            (Inl _, s') \<Rightarrow> (Disarm sid d, s', rs\<lparr>rs_hostTurn := Some False\<rparr>,
               ns @ [\<lparr>rn_goal = as_goalID st, rn_status = ''failed''\<rparr>])
          | (Inr g, s') \<Rightarrow>
              (d(sid \<mapsto> st\<lparr>as_round := g_rounds g, as_hostRun := False\<rparr>), s',
               rs\<lparr>rs_hostTurn := Some (as_hostRun st), rs_activeId := Some (as_goalID st),
                  rs_round := Some (g_rounds g)\<rparr>, ns))))"

text \<open>\<open>OnMessagesBuilt\<close>: the goal and round whose block is appended, if any.\<close>

definition goal_OnMessagesBuilt :: "'s goal_load \<Rightarrow> string \<Rightarrow> round_driver \<Rightarrow> 's \<Rightarrow> (goal \<times> int) option" where
  "goal_OnMessagesBuilt load sid d s = (case d sid of
     None \<Rightarrow> None
   | Some st \<Rightarrow> (if as_round st = 0 then None
       else (case load s (as_goalID st) of Inl _ \<Rightarrow> None | Inr g \<Rightarrow> Some (g, as_round st))))"

definition phase_name :: "goal_phase \<Rightarrow> string" where
  "phase_name p = (case p of PhaseActive \<Rightarrow> ''active'' | PhasePaused \<Rightarrow> ''paused''
     | PhaseBlocked \<Rightarrow> ''blocked'' | PhaseComplete \<Rightarrow> ''complete'')"

text \<open>The \<open>OnAgentEnd\<close> hook.\<close>

definition goal_OnAgentEnd ::
  "'s goal_load \<Rightarrow> string \<Rightarrow> round_driver \<times> 's \<times> round_notice list \<Rightarrow> round_driver \<times> 's \<times> round_notice list" where
  "goal_OnAgentEnd load sid = (\<lambda>(d, s, ns).
     case d sid of
       None \<Rightarrow> (d, s, ns)
     | Some st \<Rightarrow>
         (case load s (as_goalID st) of
            Inl _ \<Rightarrow> (Disarm sid d, s, ns @ [\<lparr>rn_goal = as_goalID st, rn_status = ''failed''\<rparr>])
          | Inr g \<Rightarrow>
              (case g_phase g of
                 PhaseActive \<Rightarrow>
                   (if g_maxRounds g > 0 \<and> g_rounds g \<ge> g_maxRounds g
                    then (Disarm sid d, s, ns @ [\<lparr>rn_goal = as_goalID st, rn_status = ''rounds_exhausted''\<rparr>])
                    else (d, s, ns))
               | p \<Rightarrow> (Disarm sid d, s, ns @ [\<lparr>rn_goal = as_goalID st, rn_status = phase_name p\<rparr>]))))"

section \<open>The continuation loop\<close>

text \<open>
  A run of the agent between the two hooks changes the store by \<open>work\<close>.  The consumer's loop runs
  the agent while \<open>ShouldContinue\<close> allows it; \<open>rounds_driven\<close> is that loop with a fuel, returning
  the host-turn marks of the runs, newest first, and whether the loop stopped by itself.
\<close>

definition goal_one_run ::
  "'s goal_load \<Rightarrow> 's goal_save \<Rightarrow> ('s \<Rightarrow> 's) \<Rightarrow> string \<Rightarrow> round_driver \<times> 's \<times> run_state \<times> round_notice list \<Rightarrow>
   round_driver \<times> 's \<times> run_state \<times> round_notice list" where
  "goal_one_run load save work sid c =
     (let (d1, s1, rs1, ns1) = goal_OnAgentStart load save 0 sid c;
          (d2, s2, ns2) = goal_OnAgentEnd load sid (d1, work s1, ns1)
      in (d2, s2, rs1, ns2))"

fun rounds_driven ::
  "'s goal_load \<Rightarrow> 's goal_save \<Rightarrow> (nat \<Rightarrow> 's \<Rightarrow> 's) \<Rightarrow> string \<Rightarrow> nat \<Rightarrow>
   round_driver \<times> 's \<times> run_state \<times> round_notice list \<Rightarrow> bool option list \<Rightarrow> (bool option list) option" where
  "rounds_driven load save work sid 0 c acc = None"
| "rounds_driven load save work sid (Suc n) (d, s, rs, ns) acc =
     (case ShouldContinue load sid d s of
        None \<Rightarrow> Some acc
      | Some _ \<Rightarrow>
          (let c' = goal_one_run load save (work n) sid (d, s, rs, ns)
           in rounds_driven load save work sid n c' (rs_hostTurn (fst (snd (snd c'))) # acc)))"

lemma rounds_driven_disarmed:
  "d sid = None \<Longrightarrow> rounds_driven load save work sid (Suc n) (d, s, rs, ns) acc = Some acc"
  by (simp add: ShouldContinue_def)

context goal_store
begin

text \<open>
  One run of an armed session: the claim fails and disarms, or it takes one round, marks the run,
  and leaves the session disarmed or armed for the same goal without host authority.
\<close>

lemma goal_one_run_cases:
  assumes "docs_inv s" "d sid = Some st" "load s (as_goalID st) = Inr g" "sid \<noteq> []"
    and work: "\<And>s. docs_inv s \<Longrightarrow> docs_inv (work s)"
      "\<And>s h. docs_inv s \<Longrightarrow> load s (as_goalID st) = Inr h \<Longrightarrow>
        \<exists>h'. load (work s) (as_goalID st) = Inr h' \<and> goal_later h h'"
  shows "\<exists>d' s' rs' ns'. goal_one_run load save work sid (d, s, rs, ns) = (d', s', rs', ns') \<and>
    (d' sid = None \<and> rs_hostTurn rs' = Some False \<or>
     (d' sid = None \<or> (\<exists>st'. d' sid = Some st' \<and> as_goalID st' = as_goalID st \<and> \<not> as_hostRun st')) \<and>
     rs_hostTurn rs' = Some (as_hostRun st) \<and> docs_inv s' \<and>
     (\<exists>g'. load s' (as_goalID st) = Inr g' \<and> g_maxRounds g' = g_maxRounds g \<and>
           g_rounds g + 1 \<le> g_rounds g'))"
proof (cases "StartRound load save 0 id id (as_goalID st) s")
  case (Pair r s1)
  have ok: "ok s" using assms(1) by (simp add: docs_inv_def)
  show ?thesis
  proof (cases r)
    case (Inl e)
    have "goal_one_run load save work sid (d, s, rs, ns) =
      (Disarm sid d, work s1, rs\<lparr>rs_hostTurn := Some False\<rparr>,
       ns @ [\<lparr>rn_goal = as_goalID st, rn_status = ''failed''\<rparr>])"
      using Pair Inl assms(2,4)
      by (simp add: goal_one_run_def goal_OnAgentStart_def goal_OnAgentEnd_def Disarm_def)
    then show ?thesis by (simp add: Disarm_def)
  next
    case (Inr g1)
    have upd: "Update load save 0 id id (as_goalID st) start_round_fn s = (Inr g1, s1)"
      using Pair Inr by (simp add: StartRound_def)
    obtain h where h: "start_round_fn g = Inr h"
      and g1: "g1 = h\<lparr>g_revision := g_revision g + 1, g_updatedAt := 0\<rparr>"
      and ld: "load s1 (as_goalID st) = Inr g1"
      by (rule update_commits [OF upd ok _ goal_fn_keeps [OF fn_start_round]])
        (use ok assms(3) in simp_all)
    have inv1: "docs_inv s1"
      using update_docs_inv [OF fn_start_round assms(1), of id id 0 "as_goalID st"] assms(1) upd by simp
    obtain g2 where g2: "load (work s1) (as_goalID st) = Inr g2" "goal_later g1 g2"
      using work(2) [OF inv1 ld] by blast
    let ?d1 = "d(sid \<mapsto> st\<lparr>as_round := g_rounds g1, as_hostRun := False\<rparr>)"
    let ?rs1 = "rs\<lparr>rs_hostTurn := Some (as_hostRun st), rs_activeId := Some (as_goalID st),
                  rs_round := Some (g_rounds g1)\<rparr>"
    obtain d2 s2 ns2 where e: "goal_OnAgentEnd load sid (?d1, work s1, ns) = (d2, s2, ns2)"
      by (metis prod_cases3)
    then have d2: "s2 = work s1 \<and> (d2 = ?d1 \<or> d2 = Disarm sid ?d1)"
      by (auto simp: goal_OnAgentEnd_def g2(1) split: goal_phase.splits if_splits)
    have run: "goal_one_run load save work sid (d, s, rs, ns) = (d2, work s1, ?rs1, ns2)"
      using Pair Inr assms(2,4) e d2 by (simp add: goal_one_run_def goal_OnAgentStart_def)
    have cnt: "g_maxRounds g2 = g_maxRounds g" "g_rounds g + 1 \<le> g_rounds g2"
      using g2(2) g1 h by (auto simp: goal_later_def start_round_fn_def split: if_splits)
    have "d2 sid = None \<or> (\<exists>st'. d2 sid = Some st' \<and> as_goalID st' = as_goalID st \<and> \<not> as_hostRun st')"
      using d2 by (auto simp: Disarm_def)
    then show ?thesis using run work(1) [OF inv1] g2(1) cnt by simp
  qed
qed

lemma rounds_driven_bounded:
  assumes "docs_inv s" "d sid = Some st" "load s (as_goalID st) = Inr g" "sid \<noteq> []"
    and "0 < g_maxRounds g" "nat (g_maxRounds g - g_rounds g) < n"
    and work: "\<And>k s. docs_inv s \<Longrightarrow> docs_inv (work k s)"
      "\<And>k s h. docs_inv s \<Longrightarrow> load s (as_goalID st) = Inr h \<Longrightarrow>
        \<exists>h'. load (work k s) (as_goalID st) = Inr h' \<and> goal_later h h'"
  shows "\<exists>marks. rounds_driven load save work sid n (d, s, rs, ns) acc = Some (marks @ acc) \<and>
    length marks \<le> nat (g_maxRounds g - g_rounds g) \<and>
    set (butlast marks) \<subseteq> {Some False} \<and> (\<not> as_hostRun st \<longrightarrow> set marks \<subseteq> {Some False})"
  using assms
proof (induction n arbitrary: d s rs ns st g acc)
  case 0
  then show ?case by simp
next
  case (Suc n)
  show ?case
  proof (cases "ShouldContinue load sid d s")
    case None
    then show ?thesis by (intro exI [of _ "[]"]) simp
  next
    case (Some gid)
    then have left: "g_rounds g < g_maxRounds g"
      using Suc.prems(2,3,5) by (auto simp: ShouldContinue_def round_left_def split: if_splits)
    then obtain n' where n: "n = Suc n'" using Suc.prems(6) by (cases n) auto
    have w: "docs_inv (work n s)" if "docs_inv s" for s
      using Suc.prems(7) [OF that] .
    have w': "\<exists>h'. load (work n s) (as_goalID st) = Inr h' \<and> goal_later h h'"
      if "docs_inv s" "load s (as_goalID st) = Inr h" for s h
      using Suc.prems(8) [OF that] .
    obtain d' s' rs' ns' where run: "goal_one_run load save (work n) sid (d, s, rs, ns) = (d', s', rs', ns')"
      and cs: "d' sid = None \<and> rs_hostTurn rs' = Some False \<or>
     (d' sid = None \<or> (\<exists>st'. d' sid = Some st' \<and> as_goalID st' = as_goalID st \<and> \<not> as_hostRun st')) \<and>
     rs_hostTurn rs' = Some (as_hostRun st) \<and> docs_inv s' \<and>
     (\<exists>g'. load s' (as_goalID st) = Inr g' \<and> g_maxRounds g' = g_maxRounds g \<and>
           g_rounds g + 1 \<le> g_rounds g')"
      using goal_one_run_cases [of s d sid st g "work n" rs ns, OF Suc.prems(1-4) w w'] by blast
    show ?thesis
    proof (cases "d' sid")
      case None
      then have "\<exists>b. rs_hostTurn rs' = Some b \<and> (\<not> as_hostRun st \<longrightarrow> \<not> b)" using cs by auto
      then obtain b where "rs_hostTurn rs' = Some b" "\<not> as_hostRun st \<longrightarrow> \<not> b" by blast
      moreover have "ShouldContinue load sid d' s' = None" using None by (simp add: ShouldContinue_def)
      moreover have "Suc 0 \<le> nat (g_maxRounds g - g_rounds g)" using left by simp
      ultimately show ?thesis using run Some
        by (intro exI [of _ "[Some b]"]) (simp add: n rounds_driven_disarmed)
    next
      case armed: (Some st')
      then obtain g' where st': "as_goalID st' = as_goalID st" "\<not> as_hostRun st'"
        and h: "rs_hostTurn rs' = Some (as_hostRun st)" "docs_inv s'" "load s' (as_goalID st) = Inr g'"
          "g_maxRounds g' = g_maxRounds g" "g_rounds g + 1 \<le> g_rounds g'"
        using cs by auto
      have "\<exists>marks. rounds_driven load save work sid n (d', s', rs', ns') (Some (as_hostRun st) # acc) =
          Some (marks @ Some (as_hostRun st) # acc) \<and>
          length marks \<le> nat (g_maxRounds g' - g_rounds g') \<and>
          set (butlast marks) \<subseteq> {Some False} \<and> (\<not> as_hostRun st' \<longrightarrow> set marks \<subseteq> {Some False})"
        by (rule Suc.IH [of s' d' st' g', OF h(2) armed]) (use st' h Suc.prems left in auto)
      then obtain marks where m: "rounds_driven load save work sid n (d', s', rs', ns')
            (Some (as_hostRun st) # acc) = Some (marks @ Some (as_hostRun st) # acc)"
          "length marks \<le> nat (g_maxRounds g' - g_rounds g')" "set marks \<subseteq> {Some False}"
        using st'(2) by auto
      show ?thesis
        using m run h Some left by (intro exI [of _ "marks @ [Some (as_hostRun st)]"]) auto
    qed
  qed
qed

end

section \<open>Properties\<close>

text \<open>
  Continuation rounds are bounded and only the first run has host authority.  Arm a session
  for a goal with a positive cap and let the consumer loop run the agent while \<open>ShouldContinue\<close>
  says so: whatever the runs do to the store short of clearing the goal, and whatever file-system
  calls fail, the loop stops by itself after at most \<open>MaxRounds - Rounds\<close> runs, and every run but
  the first is marked as a goal round, not a host turn.
\<close>

theorem continuation_bounded:
  assumes "file_ok fs" "\<forall>i h. file_Load fs i = Inr h \<longrightarrow> wf_goal h"
    and "file_Load fs gid = Inr g" "0 < g_maxRounds g" "sid \<noteq> []" "d sid = None"
    and "\<forall>k. \<forall>t. (t, OpClear gid) \<notin> set (ops k)"
  shows "\<exists>marks. rounds_driven file_Load file_Save (\<lambda>k. goal_run file_Load file_Save file_Delete (ops k)) sid
      (nat (g_maxRounds g - g_rounds g) + 1) (Arm sid gid d, fs, rs, ns) [] = Some marks \<and>
    length marks \<le> nat (g_maxRounds g - g_rounds g) \<and> set (butlast marks) \<subseteq> {Some False}"
proof -
  let ?st = "\<lparr>as_goalID = gid, as_round = 0, as_hostRun = True\<rparr>"
  have inv: "disk.docs_inv fs" using assms(1,2) by (simp add: disk.docs_inv_def)
  have run_inv: "disk.docs_inv (goal_run file_Load file_Save file_Delete (ops k) s)"
    if "disk.docs_inv s" for k s
    by (rule disk.run_docs_inv [OF that])
  have run_later: "\<exists>h'. file_Load (goal_run file_Load file_Save file_Delete (ops k) s) (as_goalID ?st) = Inr h' \<and>
      goal_later h h'" if "disk.docs_inv s" "file_Load s (as_goalID ?st) = Inr h" for k s h
    using disk.run_later [OF that, of "ops k"] assms(7) by auto
  have "\<exists>marks. rounds_driven file_Load file_Save (\<lambda>k. goal_run file_Load file_Save file_Delete (ops k)) sid
      (nat (g_maxRounds g - g_rounds g) + 1) (Arm sid gid d, fs, rs, ns) [] = Some (marks @ []) \<and>
    length marks \<le> nat (g_maxRounds g - g_rounds g) \<and> set (butlast marks) \<subseteq> {Some False} \<and>
    (\<not> as_hostRun ?st \<longrightarrow> set marks \<subseteq> {Some False})"
    by (rule disk.rounds_driven_bounded [OF inv _ _ _ _ _ run_inv run_later])
      (use assms in \<open>auto simp: Arm_def\<close>)
  then show ?thesis by auto
qed

theorem continuation_bounded_witness:
  "\<exists>marks. rounds_driven file_Load file_Save (\<lambda>k. goal_run file_Load file_Save file_Delete []) ''s''
      2 (Arm ''s'' ''a'' Map.empty,
         \<lparr>gfs_files = [goal_path ''a'' \<mapsto> Some \<lparr>g_id = ''a'', g_objective = ''x'', g_phase = PhaseActive,
            g_revision = 4, g_rounds = 2, g_maxRounds = 3, g_blockedStreak = 0, g_blockerReason = [],
            g_createdAt = 0, g_updatedAt = 0\<rparr>], gfs_faults = []\<rparr>,
         \<lparr>rs_hostTurn = None, rs_activeId = None, rs_round = None\<rparr>, []) [] = Some marks \<and>
    length marks \<le> 1"
proof -
  let ?g = "\<lparr>g_id = ''a'', g_objective = ''x'', g_phase = PhaseActive, g_revision = 4,
            g_rounds = 2, g_maxRounds = 3, g_blockedStreak = 0, g_blockerReason = [],
            g_createdAt = 0, g_updatedAt = 0\<rparr>"
  let ?store = "\<lparr>gfs_files = [goal_path ''a'' \<mapsto> Some ?g], gfs_faults = []\<rparr>"
  let ?rs = "\<lparr>rs_hostTurn = None, rs_activeId = None, rs_round = None\<rparr>"
  have wf: "wf_goal ?g" by (simp add: wf_goal_def is_blank_def is_space_def)
  have ld: "file_Load ?store i = Inr h \<longleftrightarrow> i = ''a'' \<and> h = ?g" for i h
    by (auto simp: file_Load_def)
  have ok: "file_ok ?store" by (simp add: file_ok_def)
  show ?thesis
    using continuation_bounded [where ops = "\<lambda>_. []" and d = Map.empty and sid = "''s''"
        and rs = ?rs and ns = "[]" and gid = "''a''", OF ok] ld wf
    by (auto simp: numeral_2_eq_2)
qed

end
