(* ===== verification/StateStores.thy ===== *)
theory StateStores
  imports GoPrelude "HOL-Library.Sublist"
begin

text \<open>
  The two implementations of \<open>kernel.StateManager\<close>: \<open>GraphState\<close> (\<open>graph/state.go\<close>, with history,
  rollback, fork and merge) and \<open>InMemoryState\<close> (\<open>core/runtime/state.go\<close>).  The interface is the
  locale \<open>state_manager\<close>, interpreted on both.

  A write returns the new state and the callbacks it owes, in order: the watcher's id and the
  change (key, old value, new value).  The code runs them after it has released its lock.
  A missing key reads as nil where Go indexes the map without a check.  A watcher's key list is
  an option: \<open>None\<close> is the nil slice.  Time stamps of history entries are left out.
\<close>

type_synonym state_change = "string \<times> go_any \<times> go_any"
type_synonym watcher = "nat \<times> string list option"

definition go_lookup :: "(string \<rightharpoonup> go_any) \<Rightarrow> string \<Rightarrow> go_any" where
  "go_lookup m k = (case m k of Some v \<Rightarrow> v | None \<Rightarrow> AnyNil)"

section \<open>GraphState\<close>

record state_entry =
  se_key :: string
  se_old :: go_any
  se_new :: go_any
  se_source :: string

record graph_state =
  gs_data :: "string \<rightharpoonup> go_any"
  gs_history :: "state_entry list"
  gs_watchers :: "watcher list"
  gs_nextWatch :: nat

definition NewGraphState :: graph_state where
  "NewGraphState = \<lparr>gs_data = Map.empty, gs_history = [], gs_watchers = [], gs_nextWatch = 0\<rparr>"

definition gs_Get :: "string \<Rightarrow> graph_state \<Rightarrow> go_any option" where
  "gs_Get k s = gs_data s k"

definition gs_GetString :: "string \<Rightarrow> graph_state \<Rightarrow> string" where
  "gs_GetString k s = (case gs_data s k of Some (AnyStr x) \<Rightarrow> x | _ \<Rightarrow> [])"

definition gs_GetInt :: "string \<Rightarrow> graph_state \<Rightarrow> int" where
  "gs_GetInt k s = (case gs_data s k of Some (AnyInt x) \<Rightarrow> x | _ \<Rightarrow> 0)"

definition gs_GetBool :: "string \<Rightarrow> graph_state \<Rightarrow> bool" where
  "gs_GetBool k s = (case gs_data s k of Some (AnyBool x) \<Rightarrow> x | _ \<Rightarrow> False)"

definition gs_Has :: "string \<Rightarrow> graph_state \<Rightarrow> bool" where
  "gs_Has k s \<longleftrightarrow> gs_data s k \<noteq> None"

definition gs_collectLocked :: "state_change \<Rightarrow> graph_state \<Rightarrow> (nat \<times> state_change) list" where
  "gs_collectLocked c s =
     [(i, c). (i, ks) \<leftarrow> gs_watchers s,
              case ks of None \<Rightarrow> True | Some ks \<Rightarrow> fst c \<in> set ks]"

definition SetWithSource ::
  "string \<Rightarrow> go_any \<Rightarrow> string \<Rightarrow> graph_state \<Rightarrow> graph_state \<times> (nat \<times> state_change) list" where
  "SetWithSource k v src s =
     (let old = go_lookup (gs_data s) k;
          s' = s\<lparr>gs_data := (gs_data s)(k \<mapsto> v),
                gs_history := gs_history s @ [\<lparr>se_key = k, se_old = old, se_new = v, se_source = src\<rparr>]\<rparr>
      in (s', gs_collectLocked (k, old, v) s'))"

definition gs_Set :: "string \<Rightarrow> go_any \<Rightarrow> graph_state \<Rightarrow> graph_state \<times> (nat \<times> state_change) list" where
  "gs_Set k v s = SetWithSource k v [] s"

definition gs_Delete :: "string \<Rightarrow> graph_state \<Rightarrow> graph_state \<times> (nat \<times> state_change) list" where
  "gs_Delete k s = (case gs_data s k of
     None \<Rightarrow> (s, [])
   | Some old \<Rightarrow>
       (let s' = s\<lparr>gs_data := (gs_data s)(k := None),
                  gs_history := gs_history s @ [\<lparr>se_key = k, se_old = old, se_new = AnyNil, se_source = ''delete''\<rparr>]\<rparr>
        in (s', gs_collectLocked (k, old, AnyNil) s')))"

definition gs_Snapshot :: "graph_state \<Rightarrow> (string \<rightharpoonup> go_any)" where
  "gs_Snapshot s = gs_data s"

definition Fork :: "graph_state \<Rightarrow> graph_state" where
  "Fork s = \<lparr>gs_data = gs_data s, gs_history = gs_history s, gs_watchers = gs_watchers s,
             gs_nextWatch = gs_nextWatch s\<rparr>"

text \<open>\<open>keys\<close> is the order in which Go ranges over \<open>other\<close>'s map.\<close>

definition MergeFrom ::
  "string list \<Rightarrow> graph_state \<Rightarrow> graph_state \<Rightarrow> graph_state \<times> (nat \<times> state_change) list" where
  "MergeFrom keys other s =
     fold (\<lambda>k (s, ns). let (s', ns') = SetWithSource k (go_lookup (gs_data other) k) ''merge'' s in (s', ns @ ns'))
       (filter (\<lambda>k. gs_data s k = None) keys) (s, [])"

definition HistoryBySource :: "string \<Rightarrow> graph_state \<Rightarrow> state_entry list" where
  "HistoryBySource src s = filter (\<lambda>e. se_source e = src) (gs_history s)"

fun replay :: "state_entry list \<Rightarrow> (string \<rightharpoonup> go_any) \<Rightarrow> (string \<rightharpoonup> go_any)" where
  "replay [] d = d"
| "replay (e # es) d =
     (if se_new e = AnyNil \<and> se_old e \<noteq> AnyNil then replay es d
      else if se_new e = AnyNil then replay es (d(se_key e := None))
      else replay es (d(se_key e \<mapsto> se_new e)))"

definition Rollback :: "int \<Rightarrow> graph_state \<Rightarrow> (unit + graph_state)" where
  "Rollback version s =
     (if version < 0 \<or> version > int (length (gs_history s)) then Inl ()
      else (let kept = take (nat version) (gs_history s)
            in Inr (s\<lparr>gs_data := replay kept Map.empty, gs_history := kept\<rparr>)))"

definition gs_Clear :: "graph_state \<Rightarrow> graph_state" where
  "gs_Clear s = s\<lparr>gs_data := Map.empty, gs_history := []\<rparr>"

text \<open>\<open>Watch\<close> returns the id its cancel function removes.\<close>

definition gs_Watch :: "string list option \<Rightarrow> graph_state \<Rightarrow> nat \<times> graph_state" where
  "gs_Watch ks s = (gs_nextWatch s,
     s\<lparr>gs_watchers := gs_watchers s @ [(gs_nextWatch s, ks)], gs_nextWatch := gs_nextWatch s + 1\<rparr>)"

fun remove_watcher :: "nat \<Rightarrow> watcher list \<Rightarrow> watcher list" where
  "remove_watcher i [] = []"
| "remove_watcher i (w # ws) = (if fst w = i then ws else w # remove_watcher i ws)"

definition gs_Unwatch :: "nat \<Rightarrow> graph_state \<Rightarrow> graph_state" where
  "gs_Unwatch i s = s\<lparr>gs_watchers := remove_watcher i (gs_watchers s)\<rparr>"

section \<open>InMemoryState\<close>

record mem_state =
  ms_data :: "string \<rightharpoonup> go_any"
  ms_watchers :: "watcher list"
  ms_nextWatch :: nat

definition NewInMemoryState :: mem_state where
  "NewInMemoryState = \<lparr>ms_data = Map.empty, ms_watchers = [], ms_nextWatch = 0\<rparr>"

definition NewInMemoryStateWithData :: "(string \<rightharpoonup> go_any) \<Rightarrow> mem_state" where
  "NewInMemoryStateWithData initial = \<lparr>ms_data = initial, ms_watchers = [], ms_nextWatch = 0\<rparr>"

definition ms_Get :: "string \<Rightarrow> mem_state \<Rightarrow> go_any option" where
  "ms_Get k s = ms_data s k"

definition ms_collectLocked :: "state_change \<Rightarrow> mem_state \<Rightarrow> (nat \<times> state_change) list" where
  "ms_collectLocked c s =
     [(i, c). (i, ks) \<leftarrow> ms_watchers s,
              case ks of None \<Rightarrow> True | Some ks \<Rightarrow> ks = [] \<or> fst c \<in> set ks]"

definition ms_Set :: "string \<Rightarrow> go_any \<Rightarrow> mem_state \<Rightarrow> mem_state \<times> (nat \<times> state_change) list" where
  "ms_Set k v s =
     (let old = go_lookup (ms_data s) k; s' = s\<lparr>ms_data := (ms_data s)(k \<mapsto> v)\<rparr>
      in (s', ms_collectLocked (k, old, v) s'))"

definition ms_Delete :: "string \<Rightarrow> mem_state \<Rightarrow> mem_state \<times> (nat \<times> state_change) list" where
  "ms_Delete k s =
     (let s' = s\<lparr>ms_data := (ms_data s)(k := None)\<rparr>;
          pending = ms_collectLocked (k, go_lookup (ms_data s) k, AnyNil) s'
      in (s', if ms_data s k \<noteq> None then pending else []))"

definition ms_Clear :: "mem_state \<Rightarrow> mem_state" where
  "ms_Clear s = s\<lparr>ms_data := Map.empty\<rparr>"

definition ms_Watch :: "string list option \<Rightarrow> mem_state \<Rightarrow> nat \<times> mem_state" where
  "ms_Watch ks s = (ms_nextWatch s,
     s\<lparr>ms_watchers := ms_watchers s @ [(ms_nextWatch s, ks)], ms_nextWatch := ms_nextWatch s + 1\<rparr>)"

definition ms_Unwatch :: "nat \<Rightarrow> mem_state \<Rightarrow> mem_state" where
  "ms_Unwatch i s = s\<lparr>ms_watchers := remove_watcher i (ms_watchers s)\<rparr>"

section \<open>The StateManager contract\<close>

datatype state_op = StSet string go_any | StDelete string | StClear
  | StWatch "string list option" | StUnwatch nat

text \<open>What an operation does to a store, and to the map the store stands for.\<close>

fun state_exec where
  "state_exec set' delete clear watch unwatch (StSet k v) s = fst (set' k v s)"
| "state_exec set' delete clear watch unwatch (StDelete k) s = fst (delete k s)"
| "state_exec set' delete clear watch unwatch StClear s = clear s"
| "state_exec set' delete clear watch unwatch (StWatch ks) s = snd (watch ks s)"
| "state_exec set' delete clear watch unwatch (StUnwatch i) s = unwatch i s"

fun map_exec :: "state_op \<Rightarrow> (string \<rightharpoonup> go_any) \<Rightarrow> (string \<rightharpoonup> go_any)" where
  "map_exec (StSet k v) m = m(k \<mapsto> v)"
| "map_exec (StDelete k) m = m(k := None)"
| "map_exec StClear m = Map.empty"
| "map_exec (StWatch ks) m = m"
| "map_exec (StUnwatch i) m = m"

locale state_manager =
  fixes get :: "string \<Rightarrow> 's \<Rightarrow> go_any option"
    and set' :: "string \<Rightarrow> go_any \<Rightarrow> 's \<Rightarrow> 's \<times> (nat \<times> state_change) list"
    and delete :: "string \<Rightarrow> 's \<Rightarrow> 's \<times> (nat \<times> state_change) list"
    and clear :: "'s \<Rightarrow> 's"
    and watch :: "string list option \<Rightarrow> 's \<Rightarrow> nat \<times> 's"
    and unwatch :: "nat \<Rightarrow> 's \<Rightarrow> 's"
  assumes get_set: "get j (fst (set' k v s)) = (if j = k then Some v else get j s)"
    and get_delete: "get j (fst (delete k s)) = (if j = k then None else get j s)"
    and get_clear: "get j (clear s) = None"
    and get_watch: "get j (snd (watch ks s)) = get j s"
    and get_unwatch: "get j (unwatch i s) = get j s"
    and set_change: "p \<in> set (snd (set' k v s)) \<Longrightarrow>
      snd p = (k, case get k s of Some old \<Rightarrow> old | None \<Rightarrow> AnyNil, v)"
    and delete_missing: "get k s = None \<Longrightarrow> snd (delete k s) = []"
begin

lemma exec_step: "(\<lambda>k. get k (state_exec set' delete clear watch unwatch op s)) = map_exec op (\<lambda>k. get k s)"
  by (cases op) (auto simp: fun_eq_iff get_set get_delete get_clear get_watch get_unwatch)

lemma exec_refines:
  "(\<lambda>k. get k (fold (state_exec set' delete clear watch unwatch) ops s)) = fold map_exec ops (\<lambda>k. get k s)"
  by (induction ops arbitrary: s) (simp_all add: exec_step)

end

lemma collect_change: "p \<in> set [(i, c). (i, ks) \<leftarrow> ws, P i ks] \<Longrightarrow> snd p = c"
  by auto

interpretation gs: state_manager gs_Get gs_Set gs_Delete gs_Clear gs_Watch gs_Unwatch
  by unfold_locales
    (auto simp: gs_Get_def gs_Set_def SetWithSource_def gs_Delete_def gs_Clear_def gs_Watch_def
      gs_Unwatch_def gs_collectLocked_def go_lookup_def Let_def split: option.splits)

interpretation ms: state_manager ms_Get ms_Set ms_Delete ms_Clear ms_Watch ms_Unwatch
  by unfold_locales
    (auto simp: ms_Get_def ms_Set_def ms_Delete_def ms_Clear_def ms_Watch_def
      ms_Unwatch_def ms_collectLocked_def go_lookup_def Let_def split: option.splits)

section \<open>Properties\<close>

text \<open>
  The two state managers are interchangeable for reads.  After any sequence of writes,
  deletions, clears and watcher changes, a \<open>GraphState\<close> and an \<open>InMemoryState\<close> answer every
  \<open>Get\<close> alike, and as the map that the operations describe.
\<close>

theorem state_managers_agree:
  "gs_Get k (fold (state_exec gs_Set gs_Delete gs_Clear gs_Watch gs_Unwatch) ops NewGraphState) =
     ms_Get k (fold (state_exec ms_Set ms_Delete ms_Clear ms_Watch ms_Unwatch) ops NewInMemoryState) \<and>
   gs_Get k (fold (state_exec gs_Set gs_Delete gs_Clear gs_Watch gs_Unwatch) ops NewGraphState) =
     fold map_exec ops Map.empty k"
proof -
  have "(\<lambda>k. gs_Get k NewGraphState) = Map.empty" "(\<lambda>k. ms_Get k NewInMemoryState) = Map.empty"
    by (simp_all add: gs_Get_def ms_Get_def NewGraphState_def NewInMemoryState_def)
  then show ?thesis
    using fun_cong [OF gs.exec_refines [of ops NewGraphState], of k]
      fun_cong [OF ms.exec_refines [of ops NewInMemoryState], of k] by simp
qed

text \<open>
  Where the two differ: the empty key list.  A watcher registered on a \<open>GraphState\<close> with a
  list that is empty but not nil is never notified, by any write, while on an \<open>InMemoryState\<close> the same
  registration is notified of every write.
\<close>

theorem watch_empty_keys_differ:
  assumes "\<forall>w \<in> set (gs_watchers s). fst w < gs_nextWatch s"
  shows "gs_nextWatch s \<notin> fst ` set (snd (gs_Set k v (snd (gs_Watch (Some []) s)))) \<and>
    (ms_nextWatch t, k, go_lookup (ms_data t) k, v) \<in> set (snd (ms_Set k v (snd (ms_Watch (Some []) t))))"
  using assms
  by (fastforce simp: gs_Set_def SetWithSource_def gs_Watch_def gs_collectLocked_def ms_Set_def
      ms_Watch_def ms_collectLocked_def Let_def)

theorem watch_empty_keys_differ_witness:
  "snd (gs_Set ''k'' (AnyInt 1) (snd (gs_Watch (Some []) NewGraphState))) = [] \<and>
   0 \<notin> fst ` set (snd (gs_Set ''k'' (AnyInt 1) (snd (gs_Watch (Some []) NewGraphState))))"
proof -
  have "0 \<notin> fst ` set (snd (gs_Set ''k'' (AnyInt 1) (snd (gs_Watch (Some []) NewGraphState))))"
    using watch_empty_keys_differ [of NewGraphState "''k''" "AnyInt 1"] by (simp add: NewGraphState_def)
  then show ?thesis
    by (simp add: gs_Set_def SetWithSource_def gs_Watch_def gs_collectLocked_def NewGraphState_def Let_def)
qed

subsection \<open>Rollback\<close>

definition set_all :: "(string \<times> go_any \<times> string) list \<Rightarrow> graph_state \<Rightarrow> graph_state" where
  "set_all ws s = fold (\<lambda>(k, v, src) s. fst (SetWithSource k v src s)) ws s"

lemma set_all_simps [simp]:
  "set_all [] s = s" "set_all ((k, v, src) # ws) s = set_all ws (fst (SetWithSource k v src s))"
  "set_all (us @ ws) s = set_all ws (set_all us s)"
  by (simp_all add: set_all_def)

lemma replay_append: "replay (es @ fs) d = replay fs (replay es d)"
  by (induction es arbitrary: d) simp_all

lemma SetWithSource_frame [simp]:
  "gs_data (fst (SetWithSource k v src s)) = (gs_data s)(k \<mapsto> v)"
  "gs_history (fst (SetWithSource k v src s)) = gs_history s @
     [\<lparr>se_key = k, se_old = go_lookup (gs_data s) k, se_new = v, se_source = src\<rparr>]"
  "gs_watchers (fst (SetWithSource k v src s)) = gs_watchers s"
  "gs_nextWatch (fst (SetWithSource k v src s)) = gs_nextWatch s"
  by (simp_all add: SetWithSource_def Let_def)

lemma set_all_frame [simp]:
  "gs_watchers (set_all ws s) = gs_watchers s" "gs_nextWatch (set_all ws s) = gs_nextWatch s"
  "length (gs_history (set_all ws s)) = length (gs_history s) + length ws"
  by (induction ws arbitrary: s) auto

lemma set_all_history_prefix: "prefix (gs_history s) (gs_history (set_all ws s))"
proof (induction ws arbitrary: s)
  case (Cons w ws)
  obtain k v src where w: "w = (k, v, src)" by (cases w)
  show ?case using Cons.IH [of "fst (SetWithSource k v src s)"] w by (auto simp: prefix_def)
qed simp

lemma set_all_take_history:
  assumes "n \<le> length ws"
  shows "take (length (gs_history s) + n) (gs_history (set_all ws s)) = gs_history (set_all (take n ws) s)"
proof -
  have "prefix (gs_history (set_all (take n ws) s)) (gs_history (set_all ws s))"
    using set_all_history_prefix [of "set_all (take n ws) s" "drop n ws"]
      set_all_simps(3) [of "take n ws" "drop n ws" s] by simp
  then show ?thesis using assms by (auto simp: prefix_def)
qed

lemma set_all_replay:
  assumes "\<forall>(k, v, src) \<in> set ws. v \<noteq> AnyNil" "replay (gs_history s) Map.empty = gs_data s"
  shows "replay (gs_history (set_all ws s)) Map.empty = gs_data (set_all ws s)"
  using assms by (induction ws arbitrary: s) (auto simp: replay_append)

lemma set_all_nonnil:
  assumes "\<forall>(k, v, src) \<in> set ws. v \<noteq> AnyNil" "\<And>j. gs_data s j \<noteq> Some AnyNil"
  shows "gs_data (set_all ws s) k \<noteq> Some AnyNil"
  using assms
proof (induction ws arbitrary: s)
  case (Cons w ws)
  obtain j v src where w: "w = (j, v, src)" by (cases w)
  have "gs_data (set_all ws (fst (SetWithSource j v src s))) k \<noteq> Some AnyNil"
    by (rule Cons.IH) (use Cons.prems w in auto)
  then show ?case by (simp add: w)
qed simp

lemma graph_state_eqI:
  "gs_data s = gs_data t \<Longrightarrow> gs_history s = gs_history t \<Longrightarrow> gs_watchers s = gs_watchers t \<Longrightarrow>
   gs_nextWatch s = gs_nextWatch t \<Longrightarrow> (s :: graph_state) = t"
  by simp

text \<open>
  Rollback is exact on writes.  After any sequence of writes of non-nil values, rolling back to
  version \<open>n\<close> restores precisely the state that stood after the first \<open>n\<close> writes, its history included.
\<close>

theorem rollback_exact:
  assumes "\<forall>(k, v, src) \<in> set ws. v \<noteq> AnyNil" "n \<le> length ws"
  shows "Rollback (int n) (set_all ws NewGraphState) = Inr (set_all (take n ws) NewGraphState)"
proof -
  let ?s = "set_all ws NewGraphState" and ?t = "set_all (take n ws) NewGraphState"
  have h: "take n (gs_history ?s) = gs_history ?t"
    using set_all_take_history [OF assms(2), of NewGraphState] by (simp add: NewGraphState_def)
  have "\<forall>(k, v, src) \<in> set (take n ws). v \<noteq> AnyNil"
    using assms(1) by (meson in_set_takeD)
  then have r: "replay (gs_history ?t) Map.empty = gs_data ?t"
    by (rule set_all_replay) (simp add: NewGraphState_def)
  have "?s\<lparr>gs_data := gs_data ?t, gs_history := gs_history ?t\<rparr> = ?t"
    by (rule graph_state_eqI) simp_all
  then show ?thesis using assms(2) h r by (simp add: Rollback_def Let_def NewGraphState_def)
qed

theorem rollback_exact_witness:
  "Rollback 1 (set_all [(''a'', AnyInt 1, ''n''), (''a'', AnyInt 2, ''m'')] NewGraphState) =
   Inr (set_all [(''a'', AnyInt 1, ''n'')] NewGraphState)"
  using rollback_exact [of "[(''a'', AnyInt 1, ''n''), (''a'', AnyInt 2, ''m'')]" 1] by simp

text \<open>
  Rollback undoes deletions it was not asked to undo.  If the newest change is the deletion of a
  written key, rolling back to the current version, which keeps every change, brings the key back.
\<close>

theorem rollback_resurrects:
  assumes "\<forall>(k, v, src) \<in> set ws. v \<noteq> AnyNil"
    and "s = set_all ws NewGraphState" "gs_data s k = Some v" "t = fst (gs_Delete k s)"
  shows "gs_data t k = None \<and>
    (\<exists>u. Rollback (int (length (gs_history t))) t = Inr u \<and> gs_data u k = Some v)"
proof -
  have r: "replay (gs_history s) Map.empty = gs_data s"
    unfolding assms(2) using assms(1) by (rule set_all_replay) (simp add: NewGraphState_def)
  have "v \<noteq> AnyNil"
    using set_all_nonnil [OF assms(1), of NewGraphState k] assms(2,3) by (auto simp: NewGraphState_def)
  then show ?thesis
    using assms(3,4) r by (auto simp: gs_Delete_def Rollback_def replay_append Let_def)
qed

theorem rollback_resurrects_witness:
  "gs_data (fst (gs_Delete ''a'' (set_all [(''a'', AnyInt 1, ''n'')] NewGraphState))) ''a'' = None \<and>
   (\<exists>u. Rollback 2 (fst (gs_Delete ''a'' (set_all [(''a'', AnyInt 1, ''n'')] NewGraphState))) = Inr u \<and>
        gs_data u ''a'' = Some (AnyInt 1))"
proof -
  have "length (gs_history (fst (gs_Delete ''a'' (set_all [(''a'', AnyInt 1, ''n'')] NewGraphState)))) = 2"
    by (simp add: gs_Delete_def NewGraphState_def Let_def)
  then show ?thesis
    using rollback_resurrects [OF _ refl _ refl, of "[(''a'', AnyInt 1, ''n'')]" "''a''" "AnyInt 1"]
    by (simp add: NewGraphState_def)
qed

subsection \<open>Merging\<close>

lemma MergeFrom_fold:
  "fst (fold (\<lambda>k (s, ns). let (s', ns') = SetWithSource k (f k) src s in (s', ns @ ns')) ks (s, ns)) =
   set_all (map (\<lambda>k. (k, f k, src)) ks) s"
  by (induction ks arbitrary: s ns) (simp_all add: case_prod_beta Let_def)

lemma set_all_data:
  "gs_data (set_all (map (\<lambda>k. (k, f k, src)) ks) s) = (\<lambda>k. if k \<in> set ks then Some (f k) else gs_data s k)"
  by (induction ks arbitrary: s) (auto simp: fun_eq_iff)

lemma MergeFrom_data:
  assumes "set keys = dom (gs_data other)"
  shows "gs_data (fst (MergeFrom keys other s)) = gs_data other ++ gs_data s"
  unfolding MergeFrom_def MergeFrom_fold set_all_data
  using assms by (auto simp: fun_eq_iff map_add_def go_lookup_def dom_def split: option.splits)

text \<open>
  A merge is first-write-wins in any iteration order.  Whatever order Go ranges over the other
  state's map, after \<open>MergeFrom\<close> the keys that were present keep their values, the other keys have
  the other state's, and each merged key has its own history entry after the old history, so that
  rolling back to the old version takes the merge back.
\<close>

theorem merge_first_write_wins:
  assumes "set keys = dom (gs_data other)" "distinct keys"
  shows "gs_data (fst (MergeFrom keys other s)) = gs_data other ++ gs_data s \<and>
    prefix (gs_history s) (gs_history (fst (MergeFrom keys other s))) \<and>
    length (gs_history (fst (MergeFrom keys other s))) =
      length (gs_history s) + card (dom (gs_data other) - dom (gs_data s))"
proof -
  let ?ks = "filter (\<lambda>k. gs_data s k = None) keys"
  have m: "fst (MergeFrom keys other s) = set_all (map (\<lambda>k. (k, go_lookup (gs_data other) k, ''merge'')) ?ks) s"
    unfolding MergeFrom_def MergeFrom_fold ..
  have "{k \<in> set keys. gs_data s k = None} = dom (gs_data other) - dom (gs_data s)"
    using assms(1) by auto
  then have "length ?ks = card (dom (gs_data other) - dom (gs_data s))"
    using distinct_filter_length_card [OF assms(2), of "\<lambda>k. gs_data s k = None"] by simp
  then show ?thesis
    using MergeFrom_data [OF assms(1), of s] set_all_history_prefix [of s] by (simp add: m)
qed

theorem merge_first_write_wins_witness:
  "gs_data (fst (MergeFrom [''b'', ''a''] (set_all [(''a'', AnyInt 1, []), (''b'', AnyInt 2, [])] NewGraphState)
     (set_all [(''a'', AnyInt 9, [])] NewGraphState))) = [''a'' \<mapsto> AnyInt 9, ''b'' \<mapsto> AnyInt 2]"
proof -
  have "set [''b'', ''a''] = dom (gs_data (set_all [(''a'', AnyInt 1, []), (''b'', AnyInt 2, [])] NewGraphState))"
    by (auto simp: NewGraphState_def)
  from merge_first_write_wins [OF this, of "set_all [(''a'', AnyInt 9, [])] NewGraphState"]
  show ?thesis by (auto simp: NewGraphState_def fun_eq_iff map_add_def)
qed

end
