(* ===== verification/GraphBuild.thy ===== *)
theory GraphBuild
  imports StateStores GoErrors
begin

text \<open>
  Building and compiling a graph (\<open>graph/graph.go\<close>, \<open>graph/node.go\<close>): nodes, labelled edges, the
  edge indexes and Kahn's topological sort.

  A node holds the functions its constructor was given: agents, the condition, the transform.
  They are arguments of the model; a function may fail differently on each attempt of a retry, so it
  is given the attempt's number.  Where the code ranges over the node map, the iteration order is
  an argument: any list without repetitions of the graph's node ids.
\<close>

section \<open>Nodes and edges\<close>

type_synonym nid = string

datatype node_kind = NodeKindAgent | NodeKindChain | NodeKindParallel | NodeKindCondition | NodeKindPassthrough

record agent_input =
  ai_messages :: "go_any list"
  ai_systemPrompt :: string
  ai_maxSteps :: int
  ai_meta :: "(string \<times> go_any) list option"

record agent_result =
  ar_content :: string
  ar_messages :: "go_any list"
  ar_usage :: "go_any option"
  ar_err :: "go_error option"

type_synonym agent_fn = "nat \<Rightarrow> agent_input \<Rightarrow> agent_result"
type_synonym condition_fn = "nat \<Rightarrow> graph_state \<Rightarrow> go_error + string"
type_synonym transform_fn = "nat \<Rightarrow> graph_state \<Rightarrow> go_error option \<times> graph_state"

text \<open>The kind of a node with the field of \<open>graphNode\<close> that kind uses.\<close>

datatype node_body =
    BodyAgent agent_fn
  | BodyChain "agent_fn list"
  | BodyParallel "agent_fn list"
  | BodyCondition condition_fn
  | BodyPassthrough transform_fn

record gnode =
  gn_id :: nid
  gn_body :: node_body
  gn_maxRetries :: int

definition gn_kind :: "gnode \<Rightarrow> node_kind" where
  "gn_kind n = (case gn_body n of
     BodyAgent _ \<Rightarrow> NodeKindAgent | BodyChain _ \<Rightarrow> NodeKindChain | BodyParallel _ \<Rightarrow> NodeKindParallel
   | BodyCondition _ \<Rightarrow> NodeKindCondition | BodyPassthrough _ \<Rightarrow> NodeKindPassthrough)"

record edge =
  e_from :: nid
  e_to :: nid
  e_label :: string

record graph =
  gr_name :: string
  gr_nodes :: "nid \<rightharpoonup> gnode"
  gr_edges :: "edge list"
  gr_outEdges :: "nid \<Rightarrow> edge list"
  gr_inEdges :: "nid \<Rightarrow> edge list"
  gr_dirty :: bool

datatype graph_error =
    ErrNodeExists nid | ErrNoAgents nid | ErrNilFn nid | ErrNoSource nid | ErrNoTarget nid
  | ErrNoNodes | ErrCycle "nid list"

definition NewGraph :: "string \<Rightarrow> graph" where
  "NewGraph name = \<lparr>gr_name = name, gr_nodes = Map.empty, gr_edges = [], gr_outEdges = (\<lambda>_. []),
     gr_inEdges = (\<lambda>_. []), gr_dirty = False\<rparr>"

type_synonym node_option = "gnode \<Rightarrow> gnode"

definition WithNodeMaxRetries :: "int \<Rightarrow> node_option" where
  "WithNodeMaxRetries n g = g\<lparr>gn_maxRetries := n\<rparr>"

definition put_node :: "node_body \<Rightarrow> node_option list \<Rightarrow> nid \<Rightarrow> graph \<Rightarrow> graph" where
  "put_node body opts i g =
     (let n = fold (\<lambda>opt n. opt n) opts \<lparr>gn_id = i, gn_body = body, gn_maxRetries = 0\<rparr>
      in g\<lparr>gr_nodes := (gr_nodes g)(i \<mapsto> n), gr_dirty := True\<rparr>)"

definition AddAgentNode :: "nid \<Rightarrow> agent_fn \<Rightarrow> node_option list \<Rightarrow> graph \<Rightarrow> graph_error + graph" where
  "AddAgentNode i agent opts g =
     (if gr_nodes g i \<noteq> None then Inl (ErrNodeExists i) else Inr (put_node (BodyAgent agent) opts i g))"

definition AddChainNode :: "nid \<Rightarrow> agent_fn list \<Rightarrow> node_option list \<Rightarrow> graph \<Rightarrow> graph_error + graph" where
  "AddChainNode i agents opts g =
     (if gr_nodes g i \<noteq> None then Inl (ErrNodeExists i)
      else if agents = [] then Inl (ErrNoAgents i)
      else Inr (put_node (BodyChain agents) opts i g))"

definition AddParallelNode :: "nid \<Rightarrow> agent_fn list \<Rightarrow> node_option list \<Rightarrow> graph \<Rightarrow> graph_error + graph" where
  "AddParallelNode i agents opts g =
     (if gr_nodes g i \<noteq> None then Inl (ErrNodeExists i)
      else if agents = [] then Inl (ErrNoAgents i)
      else Inr (put_node (BodyParallel agents) opts i g))"

definition AddConditionNode :: "nid \<Rightarrow> condition_fn option \<Rightarrow> node_option list \<Rightarrow> graph \<Rightarrow> graph_error + graph" where
  "AddConditionNode i fn opts g =
     (if gr_nodes g i \<noteq> None then Inl (ErrNodeExists i)
      else (case fn of None \<Rightarrow> Inl (ErrNilFn i) | Some f \<Rightarrow> Inr (put_node (BodyCondition f) opts i g)))"

definition AddPassthroughNode :: "nid \<Rightarrow> transform_fn option \<Rightarrow> node_option list \<Rightarrow> graph \<Rightarrow> graph_error + graph" where
  "AddPassthroughNode i fn opts g =
     (if gr_nodes g i \<noteq> None then Inl (ErrNodeExists i)
      else (case fn of None \<Rightarrow> Inl (ErrNilFn i) | Some f \<Rightarrow> Inr (put_node (BodyPassthrough f) opts i g)))"

definition AddLabeledEdge :: "nid \<Rightarrow> nid \<Rightarrow> string \<Rightarrow> graph \<Rightarrow> graph_error + graph" where
  "AddLabeledEdge u v l g =
     (if gr_nodes g u = None then Inl (ErrNoSource u)
      else if gr_nodes g v = None then Inl (ErrNoTarget v)
      else if \<exists>e \<in> set (gr_edges g). e_from e = u \<and> e_to e = v \<and> e_label e = l then Inr g
      else
        (let e = \<lparr>e_from = u, e_to = v, e_label = l\<rparr> in
         Inr (g\<lparr>gr_edges := gr_edges g @ [e],
                gr_outEdges := (gr_outEdges g)(u := gr_outEdges g u @ [e]),
                gr_inEdges := (gr_inEdges g)(v := gr_inEdges g v @ [e]),
                gr_dirty := True\<rparr>)))"

definition AddEdge :: "nid \<Rightarrow> nid \<Rightarrow> graph \<Rightarrow> graph_error + graph" where
  "AddEdge u v g = AddLabeledEdge u v [] g"

text \<open>A graph built by these operations (a refused call leaves the graph alone).\<close>

datatype graph_op =
    GAgent nid agent_fn "node_option list" | GChain nid "agent_fn list" "node_option list"
  | GParallel nid "agent_fn list" "node_option list" | GCondition nid "condition_fn option" "node_option list"
  | GPassthrough nid "transform_fn option" "node_option list" | GEdge nid nid string

fun graph_call :: "graph_op \<Rightarrow> graph \<Rightarrow> graph_error + graph" where
  "graph_call (GAgent i a opts) g = AddAgentNode i a opts g"
| "graph_call (GChain i as opts) g = AddChainNode i as opts g"
| "graph_call (GParallel i as opts) g = AddParallelNode i as opts g"
| "graph_call (GCondition i f opts) g = AddConditionNode i f opts g"
| "graph_call (GPassthrough i f opts) g = AddPassthroughNode i f opts g"
| "graph_call (GEdge u v l) g = AddLabeledEdge u v l g"

definition graph_exec :: "graph_op \<Rightarrow> graph \<Rightarrow> graph" where
  "graph_exec op g = (case graph_call op g of Inl _ \<Rightarrow> g | Inr g' \<Rightarrow> g')"

definition build_graph :: "string \<Rightarrow> graph_op list \<Rightarrow> graph" where
  "build_graph name ops = fold graph_exec ops (NewGraph name)"

section \<open>Compiling\<close>

definition rebuildIndexes :: "graph \<Rightarrow> graph" where
  "rebuildIndexes g =
     g\<lparr>gr_outEdges := fold (\<lambda>e m. m(e_from e := m (e_from e) @ [e])) (gr_edges g) (\<lambda>_. []),
       gr_inEdges := fold (\<lambda>e m. m(e_to e := m (e_to e) @ [e])) (gr_edges g) (\<lambda>_. []),
       gr_dirty := False\<rparr>"

text \<open>
  Kahn's algorithm: the inner loop over the out-edges of a node, then the loop over the queue, with
  a fuel (the number of nodes is enough, \<open>kahn_enough\<close>).
\<close>

fun kahn_edges :: "edge list \<Rightarrow> (nid \<Rightarrow> int) \<times> nid list \<Rightarrow> (nid \<Rightarrow> int) \<times> nid list" where
  "kahn_edges [] (d, q) = (d, q)"
| "kahn_edges (e # es) (d, q) =
     (let d = d(e_to e := d (e_to e) - 1);
          q = (if d (e_to e) = 0 then q @ [e_to e] else q)
      in kahn_edges es (d, q))"

fun kahn :: "nat \<Rightarrow> (nid \<Rightarrow> edge list) \<Rightarrow> nid list \<Rightarrow> (nid \<Rightarrow> int) \<Rightarrow> nid list \<Rightarrow> (nid list \<times> (nid \<Rightarrow> int)) option" where
  "kahn fuel out order d [] = Some (order, d)"
| "kahn 0 out order d (v # q) = None"
| "kahn (Suc fuel) out order d (v # q) =
     (let (d', q') = kahn_edges (out v) (d, q) in kahn fuel out (order @ [v]) d' q')"

definition topoSort :: "nid list \<Rightarrow> graph \<Rightarrow> (graph_error + nid list) option" where
  "topoSort ns g =
     (let inDegree = (\<lambda>v. int (length (gr_inEdges g v)))
      in case kahn (length ns) (gr_outEdges g) [] inDegree (filter (\<lambda>v. inDegree v = 0) ns) of
           None \<Rightarrow> None
         | Some (order, d) \<Rightarrow>
             (if length order \<noteq> length ns then Some (Inl (ErrCycle (filter (\<lambda>v. d v > 0) ns)))
              else Some (Inr order)))"

record compiled =
  cg_graph :: graph
  cg_topoOrder :: "nid list"
  cg_inDegree :: "nid \<Rightarrow> nat"
  cg_outEdges :: "nid \<Rightarrow> edge list"
  cg_inEdges :: "nid \<Rightarrow> edge list"

definition Compile :: "nid list \<Rightarrow> graph \<Rightarrow> (graph_error + compiled) option" where
  "Compile ns g =
     (if ns = [] then Some (Inl ErrNoNodes)
      else
        (let g = (if gr_dirty g then rebuildIndexes g else g)
         in case topoSort ns g of
              None \<Rightarrow> None
            | Some (Inl e) \<Rightarrow> Some (Inl e)
            | Some (Inr order) \<Rightarrow>
                Some (Inr \<lparr>cg_graph = g, cg_topoOrder = order,
                           cg_inDegree = (\<lambda>v. length (gr_inEdges g v)),
                           cg_outEdges = gr_outEdges g, cg_inEdges = gr_inEdges g\<rparr>)))"

section \<open>Well-formed graphs\<close>

definition wf_graph :: "graph \<Rightarrow> bool" where
  "wf_graph g \<longleftrightarrow> finite (dom (gr_nodes g)) \<and> distinct (gr_edges g) \<and>
     (\<forall>e \<in> set (gr_edges g). e_from e \<in> dom (gr_nodes g) \<and> e_to e \<in> dom (gr_nodes g)) \<and>
     gr_outEdges g = (\<lambda>u. filter (\<lambda>e. e_from e = u) (gr_edges g)) \<and>
     gr_inEdges g = (\<lambda>v. filter (\<lambda>e. e_to e = v) (gr_edges g))"

lemma index_fold:
  "fold (\<lambda>e m. m(f e := m (f e) @ [e])) es m = (\<lambda>v. m v @ filter (\<lambda>e. f e = v) es)"
  by (induction es arbitrary: m) (auto simp: fun_eq_iff)

lemma rebuild_wf: "wf_graph g \<Longrightarrow> wf_graph (rebuildIndexes g)"
  by (simp add: wf_graph_def rebuildIndexes_def index_fold)

lemma wf_new: "wf_graph (NewGraph name)"
  by (simp add: wf_graph_def NewGraph_def)

lemma wf_put_node: "wf_graph g \<Longrightarrow> wf_graph (put_node n opts i g)"
  by (auto simp: wf_graph_def put_node_def Let_def)

lemma edge_eq_iff: "e = \<lparr>e_from = u, e_to = v, e_label = l\<rparr> \<longleftrightarrow> e_from e = u \<and> e_to e = v \<and> e_label e = l"
  by (cases e) auto

lemma wf_add_edge:
  assumes "wf_graph g" "AddLabeledEdge u v l g = Inr g'"
  shows "wf_graph g'"
proof (cases "\<lparr>e_from = u, e_to = v, e_label = l\<rparr> \<in> set (gr_edges g)")
  case True
  then have "\<exists>e \<in> set (gr_edges g). e_from e = u \<and> e_to e = v \<and> e_label e = l" by force
  with assms show ?thesis by (auto simp: AddLabeledEdge_def split: if_splits)
next
  case False
  with assms show ?thesis
    by (auto simp: wf_graph_def AddLabeledEdge_def Let_def fun_eq_iff split: if_splits)
qed

lemma wf_exec: "wf_graph g \<Longrightarrow> wf_graph (graph_exec op g)"
  by (cases op)
    (auto simp: graph_exec_def AddAgentNode_def AddChainNode_def AddParallelNode_def
      AddConditionNode_def AddPassthroughNode_def intro: wf_put_node wf_add_edge split: sum.split option.split)

lemma wf_build: "wf_graph (build_graph name ops)"
proof -
  have "wf_graph g \<Longrightarrow> wf_graph (fold graph_exec ops g)" for g
    by (induction ops arbitrary: g) (auto intro: wf_exec)
  then show ?thesis by (simp add: build_graph_def wf_new)
qed

end
