(* ===== verification/TopoSort.thy ===== *)
theory TopoSort
  imports GraphBuild
begin

text \<open>
  Correctness of the topological sort of \<open>Compile\<close>: whatever order the node map is ranged over,
  it returns a topological order of an acyclic graph and reports a cycle of a cyclic one.
\<close>

section \<open>Counting edges\<close>

definition cnt_to :: "edge list \<Rightarrow> nid \<Rightarrow> nat" where
  "cnt_to es w = length (filter (\<lambda>e. e_to e = w) es)"

text \<open>The in-edges of \<open>w\<close> whose source is not yet done.\<close>

definition open_in :: "edge list \<Rightarrow> nid set \<Rightarrow> nid \<Rightarrow> nat" where
  "open_in es D w = length (filter (\<lambda>e. e_to e = w \<and> e_from e \<notin> D) es)"

lemma open_in_split:
  "v \<notin> D \<Longrightarrow> open_in es D w = open_in es (insert v D) w + cnt_to (filter (\<lambda>e. e_from e = v) es) w"
  by (induction es) (auto simp: open_in_def cnt_to_def)

lemma open_in_zero: "open_in es D w = 0 \<longleftrightarrow> (\<forall>e \<in> set es. e_to e = w \<longrightarrow> e_from e \<in> D)"
  by (auto simp: open_in_def filter_empty_conv)

lemma kahn_edges_spec:
  assumes "\<And>w. int (cnt_to es w) \<le> d w" "kahn_edges es (d, q) = (d', q')"
  shows "d' = (\<lambda>w. d w - int (cnt_to es w)) \<and>
    (\<exists>news. q' = q @ news \<and> distinct news \<and> set news = {w. 0 < d w \<and> d w = int (cnt_to es w)})"
  using assms
proof (induction es arbitrary: d q)
  case Nil
  then show ?case by (auto simp: cnt_to_def)
next
  case (Cons e es)
  let ?t = "e_to e"
  let ?d = "d(?t := d ?t - 1)"
  let ?q = "if d ?t = 1 then q @ [?t] else q"
  have cnt: "cnt_to (e # es) w = cnt_to es w + (if w = ?t then 1 else 0)" for w
    by (simp add: cnt_to_def)
  have pre: "int (cnt_to es w) \<le> ?d w" for w
    using Cons.prems(1) [of w] by (simp add: cnt split: if_splits)
  have run: "kahn_edges es (?d, ?q) = (d', q')"
    using Cons.prems(2) by (simp add: Let_def split: if_splits)
  obtain news where news: "d' = (\<lambda>w. ?d w - int (cnt_to es w))" "q' = ?q @ news" "distinct news"
    "set news = {w. 0 < ?d w \<and> ?d w = int (cnt_to es w)}"
    using Cons.IH [OF pre run] by blast
  have d': "d' = (\<lambda>w. d w - int (cnt_to (e # es) w))"
    using news(1) by (auto simp: cnt fun_eq_iff)
  show ?case
  proof (cases "d ?t = 1")
    case True
    have "cnt_to es ?t = 0" using pre [of ?t] True by simp
    then have "w \<in> set (?t # news) \<longleftrightarrow> 0 < d w \<and> d w = int (cnt_to (e # es) w)" for w
      unfolding news(4) cnt using True by (cases "w = ?t") (simp_all add: news(4))
    then have "set (?t # news) = {w. 0 < d w \<and> d w = int (cnt_to (e # es) w)}" by blast
    moreover have "?t \<notin> set news" using news(4) True by simp
    ultimately show ?thesis
      using d' news(2,3) True by (intro conjI exI [of _ "?t # news"]) simp_all
  next
    case False
    have "w \<in> set news \<longleftrightarrow> 0 < d w \<and> d w = int (cnt_to (e # es) w)" for w
      using False Cons.prems(1) [of ?t] by (cases "w = ?t") (auto simp: news(4) cnt)
    then have "set news = {w. 0 < d w \<and> d w = int (cnt_to (e # es) w)}" by blast
    then show ?thesis using d' news(2,3) False by (intro conjI exI [of _ news]) simp_all
  qed
qed

section \<open>The invariant of the queue\<close>

definition topo_list :: "edge list \<Rightarrow> nid list \<Rightarrow> bool" where
  "topo_list es vs \<longleftrightarrow> (\<forall>pre v post. vs = pre @ v # post \<longrightarrow> (\<forall>e \<in> set es. e_to e = v \<longrightarrow> e_from e \<in> set pre))"

definition kahn_inv :: "edge list \<Rightarrow> nid list \<Rightarrow> nid list \<Rightarrow> (nid \<Rightarrow> int) \<Rightarrow> nid list \<Rightarrow> bool" where
  "kahn_inv es ns order d q \<longleftrightarrow>
     distinct (order @ q) \<and> set (order @ q) \<subseteq> set ns \<and>
     (\<forall>w. d w = int (open_in es (set order) w)) \<and>
     (\<forall>w \<in> set ns. w \<in> set (order @ q) \<longleftrightarrow> d w = 0) \<and> topo_list es order"

lemma topo_list_snoc:
  "topo_list es vs \<Longrightarrow> (\<forall>e \<in> set es. e_to e = v \<longrightarrow> e_from e \<in> set vs) \<Longrightarrow> topo_list es (vs @ [v])"
  by (auto simp: topo_list_def append_eq_append_conv2 Cons_eq_append_conv append_eq_Cons_conv)

lemma kahn_inv_step:
  assumes inv: "kahn_inv es ns order d (v # q)"
    and targets: "\<forall>e \<in> set es. e_to e \<in> set ns"
    and run: "kahn_edges (filter (\<lambda>e. e_from e = v) es) (d, q) = (d', q')"
  shows "kahn_inv es ns (order @ [v]) d' q'"
proof -
  let ?out = "filter (\<lambda>e. e_from e = v) es"
  have v: "v \<notin> set order" "d v = 0" using inv by (auto simp: kahn_inv_def)
  have d: "d w = int (open_in es (set order) w)" for w using inv by (simp add: kahn_inv_def)
  have sp: "open_in es (set order) w = open_in es (insert v (set order)) w + cnt_to ?out w" for w
    by (rule open_in_split) (rule v(1))
  have le: "int (cnt_to ?out w) \<le> d w" for w by (simp add: d sp)
  obtain news where d': "d' = (\<lambda>w. d w - int (cnt_to ?out w))" and q': "q' = q @ news"
    and news: "distinct news" "set news = {w. 0 < d w \<and> d w = int (cnt_to ?out w)}"
    using kahn_edges_spec [OF le run] by blast
  have d'w: "d' w = int (open_in es (set (order @ [v])) w)" for w
    using sp [of w] by (simp add: d' d)
  have news_ns: "set news \<subseteq> set ns"
  proof
    fix w assume "w \<in> set news"
    then have "cnt_to ?out w \<noteq> 0" using news(2) by auto
    then have "\<exists>e \<in> set es. e_to e = w" by (auto simp: cnt_to_def filter_empty_conv)
    then show "w \<in> set ns" using targets by auto
  qed
  have old: "w \<in> set (order @ v # q) \<longleftrightarrow> d w = 0" if "w \<in> set ns" for w
    using inv that by (simp add: kahn_inv_def)
  have mem: "w \<in> set ((order @ [v]) @ q') \<longleftrightarrow> d' w = 0" if "w \<in> set ns" for w
    using old [OF that] news(2) le [of w] d [of w] by (auto simp: q' d')
  have "set news \<inter> set (order @ v # q) = {}"
    using old news_ns news(2) by fastforce
  then have dist: "distinct ((order @ [v]) @ q')"
    using inv news(1) by (auto simp: kahn_inv_def q')
  have "\<forall>e \<in> set es. e_to e = v \<longrightarrow> e_from e \<in> set order"
    using v(2) d [of v] by (simp add: open_in_zero)
  then have "topo_list es (order @ [v])"
    using inv by (intro topo_list_snoc) (simp_all add: kahn_inv_def)
  with dist mem d'w news_ns inv show ?thesis by (auto simp: kahn_inv_def q')
qed

lemma kahn_correct:
  assumes "kahn_inv es ns order d q" "\<forall>e \<in> set es. e_to e \<in> set ns"
    and "length ns \<le> length order + fuel"
  shows "\<exists>order' d'. kahn fuel (\<lambda>u. filter (\<lambda>e. e_from e = u) es) order d q = Some (order', d') \<and>
    kahn_inv es ns order' d' []"
  using assms
proof (induction fuel arbitrary: order d q)
  case 0
  have "length (order @ q) \<le> length ns"
    using 0(1) by (metis kahn_inv_def distinct_card card_mono card_length le_trans List.finite_set)
  then have "q = []" using 0(3) by (cases q) simp_all
  with 0 show ?case by simp
next
  case (Suc fuel)
  show ?case
  proof (cases q)
    case Nil
    with Suc.prems show ?thesis by simp
  next
    case (Cons v q0)
    obtain d' q' where run: "kahn_edges (filter (\<lambda>e. e_from e = v) es) (d, q0) = (d', q')" by force
    have "kahn_inv es ns (order @ [v]) d' q'"
      using kahn_inv_step [OF _ Suc.prems(2) run] Suc.prems(1) Cons by simp
    from Suc.IH [OF this Suc.prems(2)] Suc.prems(3) Cons run show ?thesis by simp
  qed
qed

section \<open>Topological orders and cycles\<close>

definition edge_rel :: "graph \<Rightarrow> (nid \<times> nid) set" where
  "edge_rel g = (\<lambda>e. (e_from e, e_to e)) ` set (gr_edges g)"

definition pos :: "nid list \<Rightarrow> nid \<Rightarrow> nat" where
  "pos vs v = length (takeWhile (\<lambda>x. x \<noteq> v) vs)"

lemma topo_list_pos:
  assumes "topo_list es vs" "e \<in> set es" "e_to e \<in> set vs"
  shows "pos vs (e_from e) < pos vs (e_to e) \<and> e_from e \<in> set vs"
proof -
  obtain pre post where vs: "vs = pre @ e_to e # post" "e_to e \<notin> set pre"
    using split_list_first [OF assms(3)] by blast
  then have src: "e_from e \<in> set pre" using assms(1,2) by (auto simp: topo_list_def)
  have "pos vs (e_to e) = length pre"
    using vs by (auto simp: pos_def takeWhile_append2 takeWhile_append)
  moreover have "pos vs (e_from e) < length pre"
  proof -
    obtain a b where "pre = a @ e_from e # b" "e_from e \<notin> set a" using split_list_first [OF src] by blast
    then show ?thesis using vs(1) by (auto simp: pos_def takeWhile_append)
  qed
  ultimately show ?thesis using src vs(1) by simp
qed

lemma topo_acyclic:
  assumes "topo_list (gr_edges g) vs" "\<forall>e \<in> set (gr_edges g). e_to e \<in> set vs"
  shows "acyclic (edge_rel g)"
proof -
  have "edge_rel g \<subseteq> measure (pos vs)"
    using topo_list_pos [OF assms(1)] assms(2) by (auto simp: edge_rel_def)
  then show ?thesis by (meson wf_acyclic wf_measure wf_subset)
qed

lemma acyclic_source:
  assumes "acyclic (edge_rel g)" "R \<noteq> {}"
  shows "\<exists>v \<in> R. \<forall>e \<in> set (gr_edges g). e_to e = v \<longrightarrow> e_from e \<notin> R"
proof -
  have "wf (edge_rel g)"
    by (rule finite_acyclic_wf) (simp_all add: edge_rel_def assms(1) [unfolded edge_rel_def])
  then obtain v where "v \<in> R" and min: "\<forall>u. (u, v) \<in> edge_rel g \<longrightarrow> u \<notin> R"
    using assms(2) unfolding wf_eq_minimal by blast
  have "e_from e \<notin> R" if "e \<in> set (gr_edges g)" "e_to e = v" for e
  proof -
    have "(e_from e, v) \<in> edge_rel g" using that by (auto simp: edge_rel_def)
    then show ?thesis using min by blast
  qed
  with \<open>v \<in> R\<close> show ?thesis by blast
qed

lemma wf_graph_targets: "wf_graph g \<Longrightarrow> set ns = dom (gr_nodes g) \<Longrightarrow> \<forall>e \<in> set (gr_edges g). e_to e \<in> set ns"
  by (simp add: wf_graph_def)

lemma topoSort_result:
  assumes wf: "wf_graph g" and ns: "distinct ns" "set ns = dom (gr_nodes g)"
  obtains order d where "kahn_inv (gr_edges g) ns order d []"
    "topoSort ns g = Some (if length order \<noteq> length ns then Inl (ErrCycle (filter (\<lambda>v. d v > 0) ns)) else Inr order)"
proof -
  let ?es = "gr_edges g"
  have out: "gr_outEdges g = (\<lambda>u. filter (\<lambda>e. e_from e = u) ?es)"
    and inn: "\<And>v. gr_inEdges g v = filter (\<lambda>e. e_to e = v) ?es"
    using wf by (simp_all add: wf_graph_def)
  let ?d = "\<lambda>v. int (length (gr_inEdges g v))"
  have "kahn_inv ?es ns [] ?d (filter (\<lambda>v. ?d v = 0) ns)"
    using ns(1) by (auto simp: kahn_inv_def topo_list_def open_in_def inn)
  from kahn_correct [OF this wf_graph_targets [OF wf ns(2)], of "length ns"]
  obtain order d where "kahn (length ns) (gr_outEdges g) [] ?d (filter (\<lambda>v. ?d v = 0) ns) = Some (order, d)"
    "kahn_inv ?es ns order d []"
    by (auto simp: out)
  then show thesis by (intro that [of order d]) (simp_all add: topoSort_def Let_def)
qed

lemma kahn_inv_full:
  assumes "kahn_inv es ns order d []" "distinct ns"
  shows "length order = length ns \<longleftrightarrow> set order = set ns"
proof -
  have "set order \<subseteq> set ns" "distinct order" using assms(1) by (simp_all add: kahn_inv_def)
  moreover from this have "length order = card (set order)" "length ns = card (set ns)"
    using assms(2) by (simp_all add: distinct_card)
  ultimately show ?thesis using card_subset_eq [of "set ns" "set order"] by auto
qed

lemma topoSort_acyclic:
  assumes wf: "wf_graph g" and ns: "distinct ns" "set ns = dom (gr_nodes g)" and ac: "acyclic (edge_rel g)"
  obtains order where "topoSort ns g = Some (Inr order)" "distinct order" "set order = set ns"
    "topo_list (gr_edges g) order"
proof -
  obtain order d where inv: "kahn_inv (gr_edges g) ns order d []"
    and r: "topoSort ns g = Some (if length order \<noteq> length ns then Inl (ErrCycle (filter (\<lambda>v. d v > 0) ns)) else Inr order)"
    by (rule topoSort_result [OF wf ns])
  have "set ns - set order = {}"
  proof (rule ccontr)
    assume "set ns - set order \<noteq> {}"
    from acyclic_source [OF ac this] obtain v where v: "v \<in> set ns - set order"
      "\<forall>e \<in> set (gr_edges g). e_to e = v \<longrightarrow> e_from e \<notin> set ns - set order" by blast
    then have "open_in (gr_edges g) (set order) v = 0"
      using wf ns(2) by (auto simp: open_in_zero wf_graph_def)
    then show False using inv v(1) by (auto simp: kahn_inv_def)
  qed
  then have "set order = set ns" using inv by (auto simp: kahn_inv_def)
  then show thesis
    using that r inv kahn_inv_full [OF inv ns(1)] by (simp add: kahn_inv_def)
qed

lemma topoSort_cyclic:
  assumes wf: "wf_graph g" and ns: "distinct ns" "set ns = dom (gr_nodes g)" and cy: "\<not> acyclic (edge_rel g)"
  shows "\<exists>vs. topoSort ns g = Some (Inl (ErrCycle vs)) \<and> vs \<noteq> [] \<and>
    (\<forall>v \<in> set vs. \<exists>u \<in> set vs. (u, v) \<in> edge_rel g)"
proof -
  obtain order d where inv: "kahn_inv (gr_edges g) ns order d []"
    and r: "topoSort ns g = Some (if length order \<noteq> length ns then Inl (ErrCycle (filter (\<lambda>v. d v > 0) ns)) else Inr order)"
    by (rule topoSort_result [OF wf ns])
  let ?vs = "filter (\<lambda>v. d v > 0) ns"
  have "set order \<noteq> set ns"
    using topo_acyclic [of g order] inv wf_graph_targets [OF wf ns(2)] cy by (auto simp: kahn_inv_def)
  then have len: "length order \<noteq> length ns" using kahn_inv_full [OF inv ns(1)] by simp
  have vs: "set ?vs = set ns - set order"
  proof -
    have "d v > 0 \<longleftrightarrow> v \<notin> set order" if "v \<in> set ns" for v
    proof -
      have "v \<in> set order \<longleftrightarrow> d v = 0" "0 \<le> d v" using inv that by (simp_all add: kahn_inv_def)
      then show ?thesis by linarith
    qed
    then show ?thesis by auto
  qed
  have "\<exists>u \<in> set ?vs. (u, v) \<in> edge_rel g" if "v \<in> set ?vs" for v
  proof -
    have "open_in (gr_edges g) (set order) v \<noteq> 0" using that inv by (simp add: kahn_inv_def)
    then obtain e where "e \<in> set (gr_edges g)" "e_to e = v" "e_from e \<notin> set order"
      by (auto simp: open_in_zero)
    moreover from this have "e_from e \<in> set ns" using wf ns(2) by (auto simp: wf_graph_def)
    ultimately show ?thesis using vs by (auto simp: edge_rel_def)
  qed
  moreover have "set ?vs \<noteq> {}" using vs inv \<open>set order \<noteq> set ns\<close> by (auto simp: kahn_inv_def)
  moreover from this have "?vs \<noteq> []" by (metis list.set(1))
  ultimately show ?thesis using r len by (intro exI [of _ ?vs]) simp
qed

lemma Compile_cases:
  assumes "ns \<noteq> []"
  shows "\<exists>g'. gr_nodes g' = gr_nodes g \<and> gr_edges g' = gr_edges g \<and> edge_rel g' = edge_rel g \<and>
    (wf_graph g \<longrightarrow> wf_graph g') \<and>
    Compile ns g = (case topoSort ns g' of None \<Rightarrow> None | Some (Inl e) \<Rightarrow> Some (Inl e)
      | Some (Inr order) \<Rightarrow> Some (Inr \<lparr>cg_graph = g', cg_topoOrder = order,
           cg_inDegree = (\<lambda>v. length (gr_inEdges g' v)),
           cg_outEdges = gr_outEdges g', cg_inEdges = gr_inEdges g'\<rparr>))"
  using assms rebuild_wf [of g]
  by (intro exI [of _ "if gr_dirty g then rebuildIndexes g else g"])
    (auto simp: Compile_def Let_def rebuildIndexes_def edge_rel_def)

section \<open>Properties\<close>

text \<open>
  C6. An acyclic graph compiles to a topological order.  However the graph was built and whatever
  order its node map is ranged over, if its edges have no cycle then \<open>Compile\<close> succeeds, and the
  order lists every node once, the source of every edge before its target.
\<close>

theorem compile_topological:
  assumes "g = build_graph name ops" "distinct ns" "set ns = dom (gr_nodes g)" "ns \<noteq> []"
    and "acyclic (edge_rel g)"
  shows "\<exists>cg. Compile ns g = Some (Inr cg) \<and> distinct (cg_topoOrder cg) \<and>
    set (cg_topoOrder cg) = dom (gr_nodes g) \<and>
    (\<forall>e \<in> set (gr_edges g). pos (cg_topoOrder cg) (e_from e) < pos (cg_topoOrder cg) (e_to e))"
proof -
  have wf: "wf_graph g" using assms(1) wf_build by simp
  obtain g' where g': "gr_nodes g' = gr_nodes g" "gr_edges g' = gr_edges g" "edge_rel g' = edge_rel g"
      "wf_graph g'"
    and c: "Compile ns g = (case topoSort ns g' of None \<Rightarrow> None | Some (Inl e) \<Rightarrow> Some (Inl e)
      | Some (Inr order) \<Rightarrow> Some (Inr \<lparr>cg_graph = g', cg_topoOrder = order,
           cg_inDegree = (\<lambda>v. length (gr_inEdges g' v)),
           cg_outEdges = gr_outEdges g', cg_inEdges = gr_inEdges g'\<rparr>))"
    using Compile_cases [OF assms(4), of g] wf by blast
  obtain order where o: "topoSort ns g' = Some (Inr order)" "distinct order" "set order = set ns"
    "topo_list (gr_edges g') order"
    by (rule topoSort_acyclic [OF g'(4) assms(2)]) (use assms(3,5) g' in simp_all)
  have "pos order (e_from e) < pos order (e_to e)" if "e \<in> set (gr_edges g)" for e
    using topo_list_pos [OF o(4)] that g'(2) o(3) wf_graph_targets [OF wf assms(3)] by simp
  then show ?thesis using c o assms(3) by simp
qed

text \<open>
  A cyclic graph is refused.  However the graph was built and its map is ranged over, if its
  edges have a cycle then \<open>Compile\<close> fails with a cycle error, and the nodes it names all have a
  predecessor among themselves.
\<close>

theorem compile_cycle:
  assumes "g = build_graph name ops" "distinct ns" "set ns = dom (gr_nodes g)" "ns \<noteq> []"
    and "\<not> acyclic (edge_rel g)"
  shows "\<exists>vs. Compile ns g = Some (Inl (ErrCycle vs)) \<and> vs \<noteq> [] \<and>
    (\<forall>v \<in> set vs. \<exists>u \<in> set vs. (u, v) \<in> edge_rel g)"
proof -
  have wf: "wf_graph g" using assms(1) wf_build by simp
  obtain g' where g': "gr_nodes g' = gr_nodes g" "edge_rel g' = edge_rel g" "wf_graph g'"
    and c: "Compile ns g = (case topoSort ns g' of None \<Rightarrow> None | Some (Inl e) \<Rightarrow> Some (Inl e)
      | Some (Inr order) \<Rightarrow> Some (Inr \<lparr>cg_graph = g', cg_topoOrder = order,
           cg_inDegree = (\<lambda>v. length (gr_inEdges g' v)),
           cg_outEdges = gr_outEdges g', cg_inEdges = gr_inEdges g'\<rparr>))"
    using Compile_cases [OF assms(4), of g] wf by blast
  show ?thesis
    using topoSort_cyclic [OF g'(3) assms(2)] assms(3,5) g' c by auto
qed

text \<open>Two nodes with one edge, and with an edge each way.\<close>

definition echo_agent :: agent_fn where
  "echo_agent attempt inp = \<lparr>ar_content = ''ok'', ar_messages = ai_messages inp, ar_usage = None, ar_err = None\<rparr>"

definition two_nodes :: "graph_op list" where
  "two_nodes = [GAgent ''a'' echo_agent [], GAgent ''b'' echo_agent [], GEdge ''a'' ''b'' []]"

lemmas build_eval = build_graph_def graph_exec_def AddAgentNode_def AddLabeledEdge_def put_node_def
  NewGraph_def Let_def

lemma two_nodes_graph:
  "dom (gr_nodes (build_graph [] two_nodes)) = set [''b'', ''a'']"
  "edge_rel (build_graph [] two_nodes) = {(''a'', ''b'')}"
  "edge_rel (build_graph [] (two_nodes @ [GEdge ''b'' ''a'' []])) = {(''a'', ''b''), (''b'', ''a'')}"
  "dom (gr_nodes (build_graph [] (two_nodes @ [GEdge ''b'' ''a'' []]))) = set [''b'', ''a'']"
  by (auto simp: two_nodes_def build_eval edge_rel_def)

theorem compile_topological_witness:
  "\<exists>cg. Compile [''b'', ''a''] (build_graph [] two_nodes) = Some (Inr cg) \<and> distinct (cg_topoOrder cg)"
proof -
  have "acyclic (edge_rel (build_graph [] two_nodes))"
    unfolding two_nodes_graph by (rule acyclicI) (auto elim: tranclE)
  then show ?thesis
    using compile_topological [OF refl, of "[''b'', ''a'']" "[]" two_nodes] two_nodes_graph(1) by auto
qed

theorem compile_cycle_witness:
  "\<exists>vs. Compile [''b'', ''a''] (build_graph [] (two_nodes @ [GEdge ''b'' ''a'' []])) = Some (Inl (ErrCycle vs)) \<and> vs \<noteq> []"
proof -
  have "(''a'', ''a'') \<in> (edge_rel (build_graph [] (two_nodes @ [GEdge ''b'' ''a'' []])))\<^sup>+"
    unfolding two_nodes_graph by (rule trancl_into_trancl [of _ "''b''"]) auto
  then have "\<not> acyclic (edge_rel (build_graph [] (two_nodes @ [GEdge ''b'' ''a'' []])))"
    by (auto simp: acyclic_def)
  then show ?thesis
    using compile_cycle [OF refl, of "[''b'', ''a'']" "[]" "two_nodes @ [GEdge ''b'' ''a'' []]"]
      two_nodes_graph(4) by auto
qed

end
