(* ===== verification/GraphRun.thy ===== *)
theory GraphRun
  imports TopoSort "HOL-Library.Multiset"
begin

text \<open>
  Running a compiled graph (\<open>graph/graph.go\<close>): one node's execution, the scheduler's counters and
  its mutually recursive \<open>tryStart\<close> and \<open>skip\<close>, \<open>complete\<close>, and the steps of \<open>runLoop\<close>.

  The goroutines that \<open>tryStart\<close> launches are the list \<open>sc_inflight\<close> of pending node executions with
  the parent state each was given; the loop receives their results in any order.  \<open>arrival v k\<close> is
  the order in which the agents of a parallel node \<open>v\<close> deliver on attempt \<open>k\<close>, and \<open>ord s\<close> the
  order in which Go ranges over the keys of a state when it merges it.  Node timeouts and retry
  delays are not modelled.
\<close>

section \<open>Executing a node\<close>

definition as_messages :: "go_any \<Rightarrow> go_any list option" where
  "as_messages v = (case v of
     AnyList xs \<Rightarrow> if list_all (\<lambda>x. case x of AnyRef _ \<Rightarrow> True | _ \<Rightarrow> False) xs then Some xs else None
   | _ \<Rightarrow> None)"

definition DefaultMaxSteps :: int where
  "DefaultMaxSteps = 10"

definition buildAgentInput :: "graph_state \<Rightarrow> agent_input" where
  "buildAgentInput s =
     \<lparr>ai_messages = (case gs_Get ''messages'' s of None \<Rightarrow> [] | Some v \<Rightarrow> (case as_messages v of Some ms \<Rightarrow> ms | None \<Rightarrow> [])),
      ai_systemPrompt = (case gs_Get ''system_prompt'' s of Some (AnyStr x) \<Rightarrow> x | _ \<Rightarrow> []),
      ai_maxSteps = (case gs_Get ''max_steps'' s of Some (AnyInt n) \<Rightarrow> n | _ \<Rightarrow> DefaultMaxSteps),
      ai_meta = (case gs_Get ''meta'' s of Some (AnyMap m) \<Rightarrow> Some m | _ \<Rightarrow> None)\<rparr>"

definition put :: "string \<Rightarrow> go_any \<Rightarrow> nid \<Rightarrow> graph_state \<Rightarrow> graph_state" where
  "put k v i s = fst (SetWithSource k v i s)"

definition runAgentNode :: "nat \<Rightarrow> nid \<Rightarrow> agent_fn \<Rightarrow> graph_state \<Rightarrow> go_error option \<times> graph_state" where
  "runAgentNode attempt i agent s =
     (let r = agent attempt (buildAgentInput s) in
      case ar_err r of
        Some e \<Rightarrow> (Some e, s)
      | None \<Rightarrow>
          (let s = put ''output'' (AnyStr (ar_content r)) i s;
               s = put ''messages'' (AnyList (ar_messages r)) i s;
               s = (case ar_usage r of None \<Rightarrow> s | Some u \<Rightarrow> put ''token_usage'' u i s)
           in (None, s)))"

fun runChainNode :: "nat \<Rightarrow> nid \<Rightarrow> agent_fn list \<Rightarrow> graph_state \<Rightarrow> go_error option \<times> graph_state" where
  "runChainNode attempt i [] s = (None, s)"
| "runChainNode attempt i (agent # agents) s =
     (let r = agent attempt (buildAgentInput s) in
      case ar_err r of
        Some e \<Rightarrow> (Some (WrapErr ''graph: chain node'' e), s)
      | None \<Rightarrow>
          (let s = put ''output'' (AnyStr (ar_content r)) i s;
               s = put ''messages'' (AnyList (ar_messages r)) i s
           in runChainNode attempt i agents s))"

fun combine_outputs :: "string list \<Rightarrow> string" where
  "combine_outputs [] = []"
| "combine_outputs [x] = x"
| "combine_outputs (x # xs) = x @ [CHR 0x0A] @ ''---'' @ [CHR 0x0A] @ combine_outputs xs"

definition runParallelNode ::
  "nat list \<Rightarrow> nat \<Rightarrow> nid \<Rightarrow> agent_fn list \<Rightarrow> graph_state \<Rightarrow> go_error option \<times> graph_state" where
  "runParallelNode arrival attempt i agents s =
     (let results = map (\<lambda>agent. agent attempt (buildAgentInput s)) agents;
          errs = [e. j \<leftarrow> arrival, j < length results, e \<leftarrow> (case ar_err (results ! j) of None \<Rightarrow> [] | Some e \<Rightarrow> [e])]
      in case errs of
           e # _ \<Rightarrow> (Some e, s)
         | [] \<Rightarrow>
             (let outputs = map ar_content results;
                  s = put ''outputs'' (AnyList (map AnyStr outputs)) i s
              in (None, put ''output'' (AnyStr (combine_outputs outputs)) i s)))"

definition runConditionNode ::
  "edge list \<Rightarrow> nat \<Rightarrow> nid \<Rightarrow> condition_fn \<Rightarrow> graph_state \<Rightarrow> go_error option \<times> graph_state" where
  "runConditionNode out attempt i cond s =
     (case cond attempt s of
        Inl e \<Rightarrow> (Some (WrapErr ''graph: condition node'' e), s)
      | Inr label \<Rightarrow>
          (if \<not> list_ex (\<lambda>e. e_label e = label) out
           then (Some (Errorf ''graph: no matching edge exists''), s)
           else (None, put ''output'' (AnyStr label) i (put ''branch'' (AnyStr label) i s))))"

definition runPassthroughNode :: "nat \<Rightarrow> transform_fn \<Rightarrow> graph_state \<Rightarrow> go_error option \<times> graph_state" where
  "runPassthroughNode attempt f s = (case f attempt s of
     (Some e, s') \<Rightarrow> (Some (WrapErr ''graph: passthrough node'' e), s')
   | (None, s') \<Rightarrow> (None, s'))"

definition runNodeKind :: "nat list \<Rightarrow> edge list \<Rightarrow> nat \<Rightarrow> gnode \<Rightarrow> graph_state \<Rightarrow> go_error option \<times> graph_state" where
  "runNodeKind arrival out attempt n s = (case gn_body n of
     BodyAgent f \<Rightarrow> runAgentNode attempt (gn_id n) f s
   | BodyChain fs \<Rightarrow> runChainNode attempt (gn_id n) fs s
   | BodyParallel fs \<Rightarrow> runParallelNode arrival attempt (gn_id n) fs s
   | BodyCondition f \<Rightarrow> runConditionNode out attempt (gn_id n) f s
   | BodyPassthrough f \<Rightarrow> runPassthroughNode attempt f s)"

text \<open>The retry loop: \<open>k\<close> iterations are left, \<open>lastErr\<close> is the last error.\<close>

fun node_attempts ::
  "(nat \<Rightarrow> graph_state \<Rightarrow> go_error option \<times> graph_state) \<Rightarrow> nat \<Rightarrow> nat \<Rightarrow> go_error option \<Rightarrow> graph_state \<Rightarrow>
   go_error option \<times> graph_state" where
  "node_attempts run 0 attempt lastErr s = (lastErr, s)"
| "node_attempts run (Suc k) attempt lastErr s =
     (case run attempt s of
        (None, s') \<Rightarrow> (None, s')
      | (Some e, s') \<Rightarrow> (if IsRetryableError (Some e) then node_attempts run k (attempt + 1) (Some e) s'
                      else (Some e, s')))"

definition executeNode ::
  "compiled \<Rightarrow> (nid \<Rightarrow> nat \<Rightarrow> nat list) \<Rightarrow> nid \<Rightarrow> graph_state option \<Rightarrow> go_error option \<times> graph_state option" where
  "executeNode cg arrival v parent = (case gr_nodes (cg_graph cg) v of
     None \<Rightarrow> (Some (Errorf ''graph: node not found''), None)
   | Some n \<Rightarrow>
       (let s = Fork (case parent of None \<Rightarrow> NewGraphState | Some p \<Rightarrow> p);
            (err, s') = node_attempts (\<lambda>k. runNodeKind (arrival v k) (cg_outEdges cg v) k n)
                          (nat (gn_maxRetries n + 1)) 0 None s
        in (err, Some s')))"

section \<open>The scheduler\<close>

definition is_cond :: "compiled \<Rightarrow> nid \<Rightarrow> bool" where
  "is_cond cg v = (case gr_nodes (cg_graph cg) v of None \<Rightarrow> False | Some n \<Rightarrow> gn_kind n = NodeKindCondition)"

record sched =
  sc_inflight :: "(nid \<times> graph_state option) list"
  sc_nodeStates :: "nid \<rightharpoonup> graph_state"
  sc_remaining :: "nid \<Rightarrow> int"
  sc_condPending :: "nid \<Rightarrow> int"
  sc_condPassed :: "nid \<Rightarrow> int"
  sc_skipped :: "nid \<Rightarrow> bool"

definition condInCount :: "compiled \<Rightarrow> nid \<Rightarrow> nat" where
  "condInCount cg v = length (filter (\<lambda>e. is_cond cg (e_from e)) (cg_inEdges cg v))"

definition newScheduler :: "compiled \<Rightarrow> sched" where
  "newScheduler cg =
     \<lparr>sc_inflight = [], sc_nodeStates = Map.empty,
      sc_remaining = (\<lambda>v. int (length (cg_inEdges cg v)) - int (condInCount cg v)),
      sc_condPending = (\<lambda>v. int (condInCount cg v)),
      sc_condPassed = (\<lambda>_. 0), sc_skipped = (\<lambda>_. False)\<rparr>"

definition startEntries :: "compiled \<Rightarrow> graph_state \<Rightarrow> sched \<Rightarrow> sched" where
  "startEntries cg init s =
     fold (\<lambda>v s. if cg_inDegree cg v = 0
                 then s\<lparr>sc_nodeStates := (sc_nodeStates s)(v \<mapsto> init),
                        sc_inflight := sc_inflight s @ [(v, Some init)]\<rparr>
                 else s) (cg_topoOrder cg) s"

definition join_states ::
  "(graph_state \<Rightarrow> string list) \<Rightarrow> (nid \<rightharpoonup> graph_state) \<Rightarrow> edge list \<Rightarrow> graph_state option" where
  "join_states ord states preds =
     fold (\<lambda>p merged. case states (e_from p) of
             None \<Rightarrow> merged
           | Some s \<Rightarrow> (case merged of
               None \<Rightarrow> Some (Fork s)
             | Some m \<Rightarrow> Some (fst (MergeFrom (ord s) s m)))) preds None"

definition collectPredecessorState ::
  "compiled \<Rightarrow> (graph_state \<Rightarrow> string list) \<Rightarrow> nid \<Rightarrow> (nid \<rightharpoonup> graph_state) \<Rightarrow> graph_state option" where
  "collectPredecessorState cg ord v states = (case cg_inEdges cg v of
     [] \<Rightarrow> None
   | [p] \<Rightarrow> states (e_from p)
   | preds \<Rightarrow> join_states ord states preds)"

definition upd_count :: "nid \<Rightarrow> int \<Rightarrow> (nid \<Rightarrow> int) \<Rightarrow> (nid \<Rightarrow> int)" where
  "upd_count v d f = f(v := f v + d)"

text \<open>
  \<open>tryStart\<close>, \<open>skip\<close> and its loop over the out-edges, with a fuel; \<open>None\<close> is running out of it.
\<close>

fun tryStart :: "nat \<Rightarrow> compiled \<Rightarrow> (graph_state \<Rightarrow> string list) \<Rightarrow> nid \<Rightarrow> sched \<Rightarrow> sched option"
and skip :: "nat \<Rightarrow> compiled \<Rightarrow> (graph_state \<Rightarrow> string list) \<Rightarrow> nid \<Rightarrow> sched \<Rightarrow> sched option"
and skip_edges :: "nat \<Rightarrow> compiled \<Rightarrow> (graph_state \<Rightarrow> string list) \<Rightarrow> nid \<Rightarrow> edge list \<Rightarrow> sched \<Rightarrow> sched option" where
  "tryStart 0 cg ord v s = None"
| "tryStart (Suc n) cg ord v s =
     (if sc_skipped s v then Some s
      else if sc_remaining s v > 0 \<or> sc_condPending s v > 0 then Some s
      else if sc_condPassed s v = 0 \<and> length (cg_inEdges cg v) = condInCount cg v \<and> length (cg_inEdges cg v) > 0
           then skip n cg ord v s
      else Some (s\<lparr>sc_inflight := sc_inflight s @ [(v, collectPredecessorState cg ord v (sc_nodeStates s))]\<rparr>))"
| "skip 0 cg ord v s = None"
| "skip (Suc n) cg ord v s =
     (if sc_skipped s v then Some s
      else if sc_remaining s v > 0 \<or> sc_condPending s v > 0 then Some s
      else skip_edges n cg ord v (cg_outEdges cg v) (s\<lparr>sc_skipped := (sc_skipped s)(v := True)\<rparr>))"
| "skip_edges n cg ord v [] s = Some s"
| "skip_edges n cg ord v (e # es) s =
     (let s = (if is_cond cg v then s\<lparr>sc_condPending := upd_count (e_to e) (- 1) (sc_condPending s)\<rparr>
               else s\<lparr>sc_remaining := upd_count (e_to e) (- 1) (sc_remaining s)\<rparr>)
      in case tryStart n cg ord (e_to e) s of
           None \<Rightarrow> None
         | Some s \<Rightarrow> skip_edges n cg ord v es s)"

definition hasLabeledOut :: "compiled \<Rightarrow> nid \<Rightarrow> bool" where
  "hasLabeledOut cg v \<longleftrightarrow> list_ex (\<lambda>e. e_label e \<noteq> []) (cg_outEdges cg v)"

definition branch_of :: "graph_state option \<Rightarrow> string" where
  "branch_of s = (case s of None \<Rightarrow> [] | Some s \<Rightarrow> (case gs_Get ''branch'' s of Some (AnyStr l) \<Rightarrow> l | _ \<Rightarrow> []))"

fun complete_edges ::
  "nat \<Rightarrow> compiled \<Rightarrow> (graph_state \<Rightarrow> string list) \<Rightarrow> bool \<Rightarrow> string \<Rightarrow> edge list \<Rightarrow> sched \<Rightarrow> sched option" where
  "complete_edges n cg ord isCond chosen [] s = Some s"
| "complete_edges n cg ord isCond chosen (e # es) s =
     (let s = (if isCond then
                 (let s = (if e_label e \<noteq> chosen then s
                           else s\<lparr>sc_condPassed := upd_count (e_to e) 1 (sc_condPassed s)\<rparr>)
                  in s\<lparr>sc_condPending := upd_count (e_to e) (- 1) (sc_condPending s)\<rparr>)
               else s\<lparr>sc_remaining := upd_count (e_to e) (- 1) (sc_remaining s)\<rparr>)
      in case tryStart n cg ord (e_to e) s of
           None \<Rightarrow> None
         | Some s \<Rightarrow> complete_edges n cg ord isCond chosen es s)"

text \<open>The fuel: twice the number of nodes, and one more (see \<open>tryStart_inv\<close>).\<close>

definition sched_fuel :: "compiled \<Rightarrow> nat" where
  "sched_fuel cg = 2 * length (cg_topoOrder cg) + 1"

definition complete :: "compiled \<Rightarrow> (graph_state \<Rightarrow> string list) \<Rightarrow> nid \<Rightarrow> sched \<Rightarrow> sched option" where
  "complete cg ord v s =
     (let isCond = (gr_nodes (cg_graph cg) v \<noteq> None \<and> (is_cond cg v \<or> hasLabeledOut cg v));
          chosen = (if isCond then branch_of (sc_nodeStates s v) else [])
      in complete_edges (sched_fuel cg) cg ord isCond chosen (cg_outEdges cg v) s)"

section \<open>The run loop\<close>

text \<open>\<open>drainResults\<close>: the results \<open>ds\<close> that happen to be ready are consumed.\<close>

definition drainResults ::
  "(go_error option \<times> graph_state option) list \<Rightarrow> go_error option \<times> graph_state option \<Rightarrow>
   go_error option \<times> graph_state option" where
  "drainResults ds r =
     fold (\<lambda>(e, st) (firstErr, final).
             (if firstErr = None then e else firstErr, if final = None then st else final)) ds r"

datatype run_config =
    Looping sched "graph_state option"
  | Returned "go_error option" "graph_state option"

text \<open>
  One iteration of the loop: it receives a result, or, the caller's context being done, it
  drains and returns.
\<close>

inductive run_step ::
  "compiled \<Rightarrow> (nid \<Rightarrow> nat \<Rightarrow> nat list) \<Rightarrow> (graph_state \<Rightarrow> string list) \<Rightarrow> run_config \<Rightarrow> run_config \<Rightarrow> bool"
  for cg arrival ord where
  run_ok: "\<lbrakk>sc_inflight s = xs @ (v, p) # ys; executeNode cg arrival v p = (None, Some st);
     complete cg ord v (s\<lparr>sc_inflight := xs @ ys, sc_nodeStates := (sc_nodeStates s)(v \<mapsto> st)\<rparr>) = Some s'\<rbrakk> \<Longrightarrow>
     run_step cg arrival ord (Looping s final) (Looping s' (Some st))"
| run_err: "\<lbrakk>sc_inflight s = xs @ (v, p) # ys; executeNode cg arrival v p = (Some e, st);
     mset ds \<subseteq># mset (map (\<lambda>(w, q). executeNode cg arrival w q) (xs @ ys));
     drainResults ds (Some e, final) = (err, final')\<rbrakk> \<Longrightarrow>
     run_step cg arrival ord (Looping s final) (Returned err final')"
| run_cancelled: "\<lbrakk>sc_inflight s \<noteq> [];
     mset ds \<subseteq># mset (map (\<lambda>(w, q). executeNode cg arrival w q) (sc_inflight s));
     drainResults ds (None, final) = (err, final')\<rbrakk> \<Longrightarrow>
     run_step cg arrival ord (Looping s final)
       (Returned (case err of None \<Rightarrow> Some (Sentinel CtxCanceled) | Some e \<Rightarrow> Some e) final')"
| run_return: "sc_inflight s = [] \<Longrightarrow> run_step cg arrival ord (Looping s final) (Returned None final)"

inductive_cases run_stepE: "run_step cg arrival ord (Looping s final) c"
inductive_simps returned_no_step: "run_step cg arrival ord (Returned e f) c"

definition run_start :: "compiled \<Rightarrow> graph_state \<Rightarrow> run_config" where
  "run_start cg init = Looping (startEntries cg init (newScheduler cg)) None"

text \<open>Seeding the state from the input and building the result (\<open>Run\<close>).\<close>

definition seed_state :: "agent_input \<Rightarrow> graph_state" where
  "seed_state inp =
     (let s = NewGraphState;
          s = (if ai_messages inp \<noteq> [] then put ''messages'' (AnyList (ai_messages inp)) ''input'' s else s);
          s = (if ai_systemPrompt inp \<noteq> [] then put ''system_prompt'' (AnyStr (ai_systemPrompt inp)) ''input'' s else s);
          s = (case ai_meta inp of None \<Rightarrow> s | Some m \<Rightarrow> put ''meta'' (AnyMap m) ''input'' s)
      in if ai_maxSteps inp > 0 then put ''max_steps'' (AnyInt (ai_maxSteps inp)) ''input'' s else s)"

definition collectMessages :: "graph_state option \<Rightarrow> go_any list" where
  "collectMessages s = (case s of None \<Rightarrow> [] | Some s \<Rightarrow>
     (case gs_Get ''messages'' s of None \<Rightarrow> [] | Some v \<Rightarrow> (case as_messages v of None \<Rightarrow> [] | Some ms \<Rightarrow> ms)))"

definition run_result :: "go_error option \<Rightarrow> graph_state option \<Rightarrow> agent_result" where
  "run_result err final = (case err of
     Some e \<Rightarrow> \<lparr>ar_content = [], ar_messages = collectMessages final, ar_usage = None, ar_err = Some (WrapErr ''graph'' e)\<rparr>
   | None \<Rightarrow> \<lparr>ar_content = (case final of None \<Rightarrow> [] | Some s \<Rightarrow> gs_GetString ''output'' s),
             ar_messages = collectMessages final, ar_usage = None, ar_err = None\<rparr>)"

end
