(* ===== verification/GraphSpec.thy ===== *)
theory GraphSpec
  imports GraphRun
begin

text \<open>
  Two sequential runs of a compiled graph, the nodes in topological order, each executed on the merged
  states of its predecessors.  The documented one, \<open>live_states\<close>, executes a node when some
  predecessor executed and, if that predecessor is a condition, chose the edge: a subtree behind unchosen
  branches is skipped as a whole.  The other, \<open>spec_states\<close>, opens the gate the scheduler's
  counters open: a plain in-edge counts even when its source was skipped.  They agree on the
  \<open>cascade_free\<close> graphs (\<open>live_is_spec\<close>).
\<close>

section \<open>Well-formed compiled graphs\<close>

abbreviation cg_edges :: "compiled \<Rightarrow> edge list" where
  "cg_edges cg \<equiv> gr_edges (cg_graph cg)"

abbreviation cg_nodes :: "compiled \<Rightarrow> nid set" where
  "cg_nodes cg \<equiv> dom (gr_nodes (cg_graph cg))"

definition wf_cg :: "compiled \<Rightarrow> bool" where
  "wf_cg cg \<longleftrightarrow> finite (cg_nodes cg) \<and> distinct (cg_edges cg) \<and>
     (\<forall>e \<in> set (cg_edges cg). e_from e \<in> cg_nodes cg \<and> e_to e \<in> cg_nodes cg) \<and>
     cg_outEdges cg = (\<lambda>u. filter (\<lambda>e. e_from e = u) (cg_edges cg)) \<and>
     cg_inEdges cg = (\<lambda>v. filter (\<lambda>e. e_to e = v) (cg_edges cg)) \<and>
     cg_inDegree cg = (\<lambda>v. length (cg_inEdges cg v)) \<and>
     distinct (cg_topoOrder cg) \<and> set (cg_topoOrder cg) = cg_nodes cg \<and>
     topo_list (cg_edges cg) (cg_topoOrder cg)"

text \<open>Labels are meant for the out-edges of conditions.\<close>

definition well_labelled :: "compiled \<Rightarrow> bool" where
  "well_labelled cg \<longleftrightarrow> (\<forall>e \<in> set (cg_edges cg). e_label e \<noteq> [] \<longrightarrow> is_cond cg (e_from e))"

lemma Compile_wf:
  assumes "g = build_graph name ops" "distinct ns" "set ns = dom (gr_nodes g)" "Compile ns g = Some (Inr cg)"
  shows "wf_cg cg"
proof -
  have ns: "ns \<noteq> []" using assms(4) by (auto simp: Compile_def)
  have wf: "wf_graph g" using assms(1) wf_build by simp
  obtain g' where g': "gr_nodes g' = gr_nodes g" "wf_graph g'"
    and c: "Compile ns g = (case topoSort ns g' of None \<Rightarrow> None | Some (Inl e) \<Rightarrow> Some (Inl e)
      | Some (Inr order) \<Rightarrow> Some (Inr \<lparr>cg_graph = g', cg_topoOrder = order,
           cg_inDegree = (\<lambda>v. length (gr_inEdges g' v)),
           cg_outEdges = gr_outEdges g', cg_inEdges = gr_inEdges g'\<rparr>))"
    using Compile_cases [OF ns, of g] wf by blast
  obtain order d where inv: "kahn_inv (gr_edges g') ns order d []"
    and r: "topoSort ns g' = Some (if length order \<noteq> length ns then Inl (ErrCycle (filter (\<lambda>v. d v > 0) ns)) else Inr order)"
    by (rule topoSort_result [OF g'(2) assms(2)]) (use assms(3) g' in simp)
  have len: "length order = length ns"
    using assms(4) c r by (auto split: if_splits)
  then have "set order = set ns" using kahn_inv_full [OF inv assms(2)] by simp
  then show ?thesis
    using assms(3,4) c r len inv g' by (auto simp: wf_cg_def wf_graph_def kahn_inv_def)
qed

lemma wf_cg_D:
  assumes "wf_cg cg"
  shows "finite (cg_nodes cg)"
    and "distinct (cg_inEdges cg v)" "distinct (cg_outEdges cg v)"
    and "e \<in> set (cg_inEdges cg v) \<longleftrightarrow> e \<in> set (cg_edges cg) \<and> e_to e = v"
    and "e \<in> set (cg_outEdges cg v) \<longleftrightarrow> e \<in> set (cg_edges cg) \<and> e_from e = v"
    and "e \<in> set (cg_edges cg) \<Longrightarrow> e_from e \<in> cg_nodes cg"
    and "e \<in> set (cg_edges cg) \<Longrightarrow> e_to e \<in> cg_nodes cg"
    and "cg_inDegree cg v = length (cg_inEdges cg v)"
    and "distinct (cg_topoOrder cg)" "set (cg_topoOrder cg) = cg_nodes cg"
    and "topo_list (cg_edges cg) (cg_topoOrder cg)"
  using assms by (auto simp: wf_cg_def)

section \<open>The two sequential runs\<close>

definition edge_passed :: "(nid \<rightharpoonup> graph_state) \<Rightarrow> edge \<Rightarrow> bool" where
  "edge_passed st e \<longleftrightarrow> st (e_from e) \<noteq> None \<and> e_label e = branch_of (st (e_from e))"

definition node_runs :: "compiled \<Rightarrow> (nid \<rightharpoonup> graph_state) \<Rightarrow> nid \<Rightarrow> bool" where
  "node_runs cg st v \<longleftrightarrow> cg_inEdges cg v = [] \<or>
     (\<exists>e \<in> set (cg_inEdges cg v). \<not> is_cond cg (e_from e) \<or> edge_passed st e)"

definition node_parent ::
  "compiled \<Rightarrow> (graph_state \<Rightarrow> string list) \<Rightarrow> graph_state \<Rightarrow> (nid \<rightharpoonup> graph_state) \<Rightarrow> nid \<Rightarrow> graph_state option" where
  "node_parent cg ord init st v =
     (if cg_inEdges cg v = [] then Some init else collectPredecessorState cg ord v st)"

definition spec_step ::
  "compiled \<Rightarrow> (nid \<Rightarrow> nat \<Rightarrow> nat list) \<Rightarrow> (graph_state \<Rightarrow> string list) \<Rightarrow> graph_state \<Rightarrow> nid \<Rightarrow>
   (nid \<rightharpoonup> graph_state) \<Rightarrow> (nid \<rightharpoonup> graph_state)" where
  "spec_step cg arrival ord init v st =
     (if node_runs cg st v then st(v := snd (executeNode cg arrival v (node_parent cg ord init st v))) else st)"

definition spec_states ::
  "compiled \<Rightarrow> (nid \<Rightarrow> nat \<Rightarrow> nat list) \<Rightarrow> (graph_state \<Rightarrow> string list) \<Rightarrow> graph_state \<Rightarrow> (nid \<rightharpoonup> graph_state)" where
  "spec_states cg arrival ord init = fold (spec_step cg arrival ord init) (cg_topoOrder cg) Map.empty"

text \<open>The documented run: a node is reached by an edge of an executed node, a chosen one if it is a condition.\<close>

definition node_live :: "compiled \<Rightarrow> (nid \<rightharpoonup> graph_state) \<Rightarrow> nid \<Rightarrow> bool" where
  "node_live cg st v \<longleftrightarrow> cg_inEdges cg v = [] \<or>
     (\<exists>e \<in> set (cg_inEdges cg v). st (e_from e) \<noteq> None \<and>
        (is_cond cg (e_from e) \<longrightarrow> e_label e = branch_of (st (e_from e))))"

definition live_step ::
  "compiled \<Rightarrow> (nid \<Rightarrow> nat \<Rightarrow> nat list) \<Rightarrow> (graph_state \<Rightarrow> string list) \<Rightarrow> graph_state \<Rightarrow> nid \<Rightarrow>
   (nid \<rightharpoonup> graph_state) \<Rightarrow> (nid \<rightharpoonup> graph_state)" where
  "live_step cg arrival ord init v st =
     (if node_live cg st v then st(v := snd (executeNode cg arrival v (node_parent cg ord init st v))) else st)"

definition live_states ::
  "compiled \<Rightarrow> (nid \<Rightarrow> nat \<Rightarrow> nat list) \<Rightarrow> (graph_state \<Rightarrow> string list) \<Rightarrow> graph_state \<Rightarrow> (nid \<rightharpoonup> graph_state)" where
  "live_states cg arrival ord init = fold (live_step cg arrival ord init) (cg_topoOrder cg) Map.empty"

text \<open>Where the skipping of one node is enough: a node with a plain in-edge is reached by some edge.\<close>

definition cascade_free ::
  "compiled \<Rightarrow> (nid \<Rightarrow> nat \<Rightarrow> nat list) \<Rightarrow> (graph_state \<Rightarrow> string list) \<Rightarrow> graph_state \<Rightarrow> bool" where
  "cascade_free cg arrival ord init \<longleftrightarrow> (\<forall>v \<in> set (cg_topoOrder cg).
     list_ex (\<lambda>e. \<not> is_cond cg (e_from e)) (cg_inEdges cg v) \<longrightarrow> node_live cg (live_states cg arrival ord init) v)"

lemma executeNode_Some: "v \<in> cg_nodes cg \<Longrightarrow> \<exists>s. snd (executeNode cg arrival v p) = Some s"
  by (auto simp: executeNode_def Let_def split: prod.split)

text \<open>What a node sees depends on its predecessors only.\<close>

lemma fold_cong_set: "(\<And>x a. x \<in> set xs \<Longrightarrow> f x a = g x a) \<Longrightarrow> fold f xs a = fold g xs a"
  by (induction xs arbitrary: a) auto

lemma collect_cong:
  assumes "\<And>e. e \<in> set (cg_inEdges cg v) \<Longrightarrow> st (e_from e) = st' (e_from e)"
  shows "collectPredecessorState cg ord v st = collectPredecessorState cg ord v st'"
proof -
  have "join_states ord st (cg_inEdges cg v) = join_states ord st' (cg_inEdges cg v)"
    unfolding join_states_def using assms by (intro fold_cong_set) simp
  then show ?thesis
    using assms by (auto simp: collectPredecessorState_def split: list.split)
qed

lemma node_runs_cong:
  "(\<And>e. e \<in> set (cg_inEdges cg v) \<Longrightarrow> st (e_from e) = st' (e_from e)) \<Longrightarrow> node_runs cg st v = node_runs cg st' v"
  by (auto simp: node_runs_def edge_passed_def)

lemma spec_step_other: "w \<noteq> v \<Longrightarrow> spec_step cg arrival ord init v st w = st w"
  by (simp add: spec_step_def)

lemma spec_fold_other: "w \<notin> set vs \<Longrightarrow> fold (spec_step cg arrival ord init) vs st w = st w"
  by (induction vs arbitrary: st) (auto simp: spec_step_other)

text \<open>The specification as an equation for every node.\<close>

lemma spec_states_eq:
  assumes wf: "wf_cg cg" and v: "v \<in> cg_nodes cg"
  shows "spec_states cg arrival ord init v =
    (let st = spec_states cg arrival ord init in
     if node_runs cg st v then snd (executeNode cg arrival v (node_parent cg ord init st v)) else None)"
proof -
  let ?st = "spec_states cg arrival ord init"
  have "v \<in> set (cg_topoOrder cg)" using v wf_cg_D(10) [OF wf] by simp
  then obtain pre post where o: "cg_topoOrder cg = pre @ v # post" "v \<notin> set pre" "v \<notin> set post"
    using wf_cg_D(9) [OF wf] by (metis split_list distinct_append distinct.simps(2) not_distinct_conv_prefix)
  let ?p = "fold (spec_step cg arrival ord init) pre Map.empty"
  have st: "?st = fold (spec_step cg arrival ord init) post (spec_step cg arrival ord init v ?p)"
    by (simp add: spec_states_def o(1))
  have preds: "?p (e_from e) = ?st (e_from e)" if "e \<in> set (cg_inEdges cg v)" for e
  proof -
    have "e \<in> set (cg_edges cg)" "e_to e = v" using that wf_cg_D(4) [OF wf] by auto
    then have "e_from e \<in> set pre" using wf_cg_D(11) [OF wf] o(1) by (auto simp: topo_list_def)
    then have "e_from e \<notin> set (v # post)" using wf_cg_D(9) [OF wf] by (auto simp: o(1))
    then show ?thesis unfolding st by (simp add: spec_fold_other spec_step_other)
  qed
  have "node_runs cg ?p v = node_runs cg ?st v" by (rule node_runs_cong) (rule preds)
  moreover have "collectPredecessorState cg ord v ?p = collectPredecessorState cg ord v ?st"
    by (rule collect_cong) (rule preds)
  moreover have "?st v = spec_step cg arrival ord init v ?p v"
    unfolding st by (rule spec_fold_other) (rule o(3))
  moreover have "?p v = None" using o(2) by (simp add: spec_fold_other)
  ultimately show ?thesis by (simp add: spec_step_def node_parent_def Let_def)
qed

lemma node_live_cong:
  "(\<And>e. e \<in> set (cg_inEdges cg v) \<Longrightarrow> st (e_from e) = st' (e_from e)) \<Longrightarrow> node_live cg st v = node_live cg st' v"
  by (auto simp: node_live_def)

lemma live_fold_other: "w \<notin> set vs \<Longrightarrow> fold (live_step cg arrival ord init) vs st w = st w"
  by (induction vs arbitrary: st) (auto simp: live_step_def)

lemma live_gate:
  assumes "list_ex (\<lambda>e. \<not> is_cond cg (e_from e)) (cg_inEdges cg v) \<longrightarrow> node_live cg st v"
  shows "node_runs cg st v = node_live cg st v"
  using assms by (auto simp: node_runs_def node_live_def edge_passed_def list_ex_iff)

lemma live_is_spec:
  assumes wf: "wf_cg cg" and free: "cascade_free cg arrival ord init"
  shows "live_states cg arrival ord init = spec_states cg arrival ord init"
proof -
  let ?live = "live_states cg arrival ord init"
  have "cg_topoOrder cg = pre @ post \<Longrightarrow>
    fold (live_step cg arrival ord init) pre Map.empty = fold (spec_step cg arrival ord init) pre Map.empty" for pre post
  proof (induction pre arbitrary: post rule: rev_induct)
    case Nil
    then show ?case by simp
  next
    case (snoc v pre)
    let ?p = "fold (live_step cg arrival ord init) pre Map.empty"
    have o: "cg_topoOrder cg = pre @ v # post" using snoc.prems by simp
    have preds: "?p (e_from e) = ?live (e_from e)" if "e \<in> set (cg_inEdges cg v)" for e
    proof -
      have "e \<in> set (cg_edges cg)" "e_to e = v" using that wf_cg_D(4) [OF wf] by auto
      moreover from this have "e_from e \<in> set pre"
        using wf_cg_D(9,11) [OF wf] by (auto simp: topo_list_def o)
      ultimately have "e_from e \<notin> set (v # post)" using wf_cg_D(9) [OF wf] by (auto simp: o)
      then have "fold (live_step cg arrival ord init) (v # post) ?p (e_from e) = ?p (e_from e)"
        by (rule live_fold_other)
      then show ?thesis by (simp add: live_states_def o)
    qed
    have live: "node_live cg ?p v = node_live cg ?live v" by (rule node_live_cong) (rule preds)
    have "node_runs cg ?p v = node_live cg ?p v"
      by (rule live_gate) (use free in \<open>simp add: live cascade_free_def o\<close>)
    then have "live_step cg arrival ord init v ?p = spec_step cg arrival ord init v ?p"
      unfolding live_step_def [of _ _ _ _ v] spec_step_def [of _ _ _ _ v] by (simp only:)
    then show ?case using snoc.IH [OF o] by (simp only: fold_append fold.simps comp_apply id_apply)
  qed
  from this [of "cg_topoOrder cg" "[]"] show ?thesis by (simp add: live_states_def spec_states_def)
qed

lemma spec_states_outside:
  assumes "wf_cg cg" "v \<notin> cg_nodes cg"
  shows "spec_states cg arrival ord init v = None"
  using assms wf_cg_D(10) [OF assms(1)] by (simp add: spec_states_def spec_fold_other)

end
