(* ===== verification/GraphSched.thy ===== *)
theory GraphSched
  imports GraphSpec
begin

text \<open>
  The concurrent scheduler refines the sequential specification: the invariant of its counters,
  its preservation by \<open>tryStart\<close>, \<open>skip\<close> and \<open>complete\<close>, and the theorems on whole runs.
\<close>

section \<open>The invariant\<close>

text \<open>
  \<open>D\<close> are the nodes whose result was received, \<open>P\<close> the out-edges of finished or skipped nodes
  whose loop has not reached them yet, \<open>X\<close> the nodes about to be tried.  An edge is resolved once
  its source is finished or skipped and its loop has passed it.
\<close>

definition skipped_set :: "sched \<Rightarrow> nid set" where
  "skipped_set s = {v. sc_skipped s v}"

definition running_set :: "sched \<Rightarrow> nid set" where
  "running_set s = fst ` set (sc_inflight s)"

definition resolved :: "nid set \<Rightarrow> edge set \<Rightarrow> sched \<Rightarrow> edge \<Rightarrow> bool" where
  "resolved D P s e \<longleftrightarrow> e_from e \<in> D \<union> skipped_set s \<and> e \<notin> P"

definition sched_sets :: "compiled \<Rightarrow> nid set \<Rightarrow> edge set \<Rightarrow> sched \<Rightarrow> bool" where
  "sched_sets cg D P s \<longleftrightarrow>
     distinct (map fst (sc_inflight s)) \<and>
     D \<inter> skipped_set s = {} \<and> D \<inter> running_set s = {} \<and> skipped_set s \<inter> running_set s = {} \<and>
     D \<union> skipped_set s \<union> running_set s \<subseteq> cg_nodes cg \<and>
     (\<forall>e \<in> P. e \<in> set (cg_edges cg) \<and> e_from e \<in> D \<union> skipped_set s)"

definition sched_counts :: "compiled \<Rightarrow> (nid \<rightharpoonup> graph_state) \<Rightarrow> nid set \<Rightarrow> edge set \<Rightarrow> sched \<Rightarrow> bool" where
  "sched_counts cg sp D P s \<longleftrightarrow> (\<forall>v.
     sc_remaining s v =
        int (length (filter (\<lambda>e. \<not> is_cond cg (e_from e) \<and> \<not> resolved D P s e) (cg_inEdges cg v))) \<and>
     sc_condPending s v =
        int (length (filter (\<lambda>e. is_cond cg (e_from e) \<and> \<not> resolved D P s e) (cg_inEdges cg v))) \<and>
     sc_condPassed s v =
        int (length (filter (\<lambda>e. is_cond cg (e_from e) \<and> resolved D P s e \<and> edge_passed sp e) (cg_inEdges cg v))))"

definition sched_ready :: "compiled \<Rightarrow> nid set \<Rightarrow> edge set \<Rightarrow> nid set \<Rightarrow> sched \<Rightarrow> bool" where
  "sched_ready cg D P X s \<longleftrightarrow>
     (\<forall>v \<in> cg_nodes cg. v \<notin> X \<longrightarrow>
        (v \<in> D \<union> skipped_set s \<union> running_set s \<longleftrightarrow> (\<forall>e \<in> set (cg_inEdges cg v). resolved D P s e))) \<and>
     (\<forall>v \<in> X. v \<notin> D \<union> skipped_set s \<union> running_set s)"

definition sched_data ::
  "compiled \<Rightarrow> (nid \<Rightarrow> nat \<Rightarrow> nat list) \<Rightarrow> (nid \<rightharpoonup> graph_state) \<Rightarrow> nid set \<Rightarrow> sched \<Rightarrow> bool" where
  "sched_data cg arrival sp D s \<longleftrightarrow>
     (\<forall>v \<in> D. sc_nodeStates s v = sp v \<and> sp v \<noteq> None) \<and>
     (\<forall>v \<in> skipped_set s. sp v = None) \<and>
     (\<forall>v. v \<notin> D \<union> running_set s \<longrightarrow> sc_nodeStates s v = None) \<and>
     (\<forall>v p. (v, p) \<in> set (sc_inflight s) \<longrightarrow>
        sp v = snd (executeNode cg arrival v p))"

definition sched_inv ::
  "compiled \<Rightarrow> (nid \<Rightarrow> nat \<Rightarrow> nat list) \<Rightarrow> (nid \<rightharpoonup> graph_state) \<Rightarrow> nid set \<Rightarrow> edge set \<Rightarrow> nid set \<Rightarrow> sched \<Rightarrow> bool" where
  "sched_inv cg arrival sp D P X s \<longleftrightarrow>
     sched_sets cg D P s \<and> sched_counts cg sp D P s \<and> sched_ready cg D P X s \<and> sched_data cg arrival sp D s"

lemma sched_invD:
  assumes "sched_inv cg arrival sp D P X s"
  shows "distinct (map fst (sc_inflight s))"
    and "D \<inter> skipped_set s = {}" "D \<inter> running_set s = {}" "skipped_set s \<inter> running_set s = {}"
    and "D \<union> skipped_set s \<union> running_set s \<subseteq> cg_nodes cg"
    and "e \<in> P \<Longrightarrow> e \<in> set (cg_edges cg) \<and> e_from e \<in> D \<union> skipped_set s"
    and "sc_remaining s v =
        int (length (filter (\<lambda>e. \<not> is_cond cg (e_from e) \<and> \<not> resolved D P s e) (cg_inEdges cg v)))"
    and "sc_condPending s v =
        int (length (filter (\<lambda>e. is_cond cg (e_from e) \<and> \<not> resolved D P s e) (cg_inEdges cg v)))"
    and "sc_condPassed s v =
        int (length (filter (\<lambda>e. is_cond cg (e_from e) \<and> resolved D P s e \<and> edge_passed sp e) (cg_inEdges cg v)))"
    and "v \<in> cg_nodes cg \<Longrightarrow> v \<notin> X \<Longrightarrow>
        v \<in> D \<union> skipped_set s \<union> running_set s \<longleftrightarrow> (\<forall>e \<in> set (cg_inEdges cg v). resolved D P s e)"
    and "v \<in> X \<Longrightarrow> v \<notin> D \<union> skipped_set s \<union> running_set s"
    and "v \<in> D \<Longrightarrow> sc_nodeStates s v = sp v \<and> sp v \<noteq> None"
    and "v \<in> skipped_set s \<Longrightarrow> sp v = None"
    and "v \<notin> D \<union> running_set s \<Longrightarrow> sc_nodeStates s v = None"
    and "(v, p) \<in> set (sc_inflight s) \<Longrightarrow>
        sp v = snd (executeNode cg arrival v p)"
proof -
  have inv: "sched_sets cg D P s" "sched_counts cg sp D P s" "sched_ready cg D P X s" "sched_data cg arrival sp D s"
    using assms by (simp_all add: sched_inv_def)
  show "distinct (map fst (sc_inflight s))"
    and "D \<inter> skipped_set s = {}" "D \<inter> running_set s = {}" "skipped_set s \<inter> running_set s = {}"
    and "D \<union> skipped_set s \<union> running_set s \<subseteq> cg_nodes cg"
    using inv(1) unfolding sched_sets_def by blast+
  show "e \<in> P \<Longrightarrow> e \<in> set (cg_edges cg) \<and> e_from e \<in> D \<union> skipped_set s"
    using inv(1) by (simp add: sched_sets_def)
  show "sc_remaining s v =
        int (length (filter (\<lambda>e. \<not> is_cond cg (e_from e) \<and> \<not> resolved D P s e) (cg_inEdges cg v)))"
    and "sc_condPending s v =
        int (length (filter (\<lambda>e. is_cond cg (e_from e) \<and> \<not> resolved D P s e) (cg_inEdges cg v)))"
    and "sc_condPassed s v =
        int (length (filter (\<lambda>e. is_cond cg (e_from e) \<and> resolved D P s e \<and> edge_passed sp e) (cg_inEdges cg v)))"
    using inv(2) by (simp_all add: sched_counts_def)
  show "v \<in> cg_nodes cg \<Longrightarrow> v \<notin> X \<Longrightarrow>
        v \<in> D \<union> skipped_set s \<union> running_set s \<longleftrightarrow> (\<forall>e \<in> set (cg_inEdges cg v). resolved D P s e)"
    and "v \<in> X \<Longrightarrow> v \<notin> D \<union> skipped_set s \<union> running_set s"
    using inv(3) unfolding sched_ready_def by blast+
  show "v \<in> D \<Longrightarrow> sc_nodeStates s v = sp v \<and> sp v \<noteq> None"
    and "v \<in> skipped_set s \<Longrightarrow> sp v = None"
    and "v \<notin> D \<union> running_set s \<Longrightarrow> sc_nodeStates s v = None"
    and "(v, p) \<in> set (sc_inflight s) \<Longrightarrow>
        sp v = snd (executeNode cg arrival v p)"
    using inv(4) unfolding sched_data_def by blast+
qed

lemma filter_remove_one:
  assumes "distinct xs"
  shows "int (length (filter (\<lambda>x. Q x \<and> x \<noteq> e) xs)) =
    int (length (filter Q xs)) - (if e \<in> set xs \<and> Q e then 1 else 0)"
  using assms by (induction xs) auto

lemma filter_add_one:
  assumes "distinct xs" "\<not> Q e"
  shows "int (length (filter (\<lambda>x. Q x \<or> x = e) xs)) =
    int (length (filter Q xs)) + (if e \<in> set xs then 1 else 0)"
  using assms by (induction xs) auto

section \<open>Resolving one edge\<close>

definition settle_edge :: "compiled \<Rightarrow> bool \<Rightarrow> edge \<Rightarrow> sched \<Rightarrow> sched" where
  "settle_edge cg passed e s =
     (if is_cond cg (e_from e)
      then s\<lparr>sc_condPending := upd_count (e_to e) (- 1) (sc_condPending s),
             sc_condPassed := (if passed then upd_count (e_to e) 1 (sc_condPassed s) else sc_condPassed s)\<rparr>
      else s\<lparr>sc_remaining := upd_count (e_to e) (- 1) (sc_remaining s)\<rparr>)"

lemma settle_edge_frame [simp]:
  "sc_inflight (settle_edge cg b e s) = sc_inflight s" "sc_nodeStates (settle_edge cg b e s) = sc_nodeStates s"
  "sc_skipped (settle_edge cg b e s) = sc_skipped s" "skipped_set (settle_edge cg b e s) = skipped_set s"
  "running_set (settle_edge cg b e s) = running_set s"
  by (simp_all add: settle_edge_def skipped_set_def running_set_def)

lemma settle_edge_counts:
  "sc_remaining (settle_edge cg b e s) v =
     sc_remaining s v - (if v = e_to e \<and> \<not> is_cond cg (e_from e) then 1 else 0)"
  "sc_condPending (settle_edge cg b e s) v =
     sc_condPending s v - (if v = e_to e \<and> is_cond cg (e_from e) then 1 else 0)"
  "sc_condPassed (settle_edge cg b e s) v =
     sc_condPassed s v + (if v = e_to e \<and> is_cond cg (e_from e) \<and> b then 1 else 0)"
  by (simp_all add: settle_edge_def upd_count_def)

lemma settle_edge_inv:
  assumes wf: "wf_cg cg" and inv: "sched_inv cg arrival sp D P {} s" and e: "e \<in> P"
    and passed: "is_cond cg (e_from e) \<Longrightarrow> passed \<longleftrightarrow> edge_passed sp e"
  shows "sched_inv cg arrival sp D (P - {e}) {e_to e} (settle_edge cg passed e s)"
proof -
  let ?s = "settle_edge cg passed e s"
  have ed: "e \<in> set (cg_edges cg)" "e_from e \<in> D \<union> skipped_set s"
    using sched_invD(6) [OF inv e] by auto
  have nres: "\<not> resolved D P s e" using e by (simp add: resolved_def)
  have res: "resolved D (P - {e}) ?s x \<longleftrightarrow> resolved D P s x \<or> x = e" for x
    using ed(2) by (auto simp: resolved_def)
  have mem: "e \<in> set (cg_inEdges cg v) \<longleftrightarrow> v = e_to e" for v
    using wf_cg_D(4) [OF wf] ed(1) by auto
  have dist: "distinct (cg_inEdges cg v)" for v by (rule wf_cg_D(2) [OF wf])
  have "e_to e \<notin> D \<union> skipped_set s \<union> running_set s"
    using sched_invD(10) [OF inv, of "e_to e"] nres mem [of "e_to e"] wf_cg_D(7) [OF wf ed(1)] by blast
  moreover have "sc_remaining ?s v =
      int (length (filter (\<lambda>x. \<not> is_cond cg (e_from x) \<and> \<not> resolved D (P - {e}) ?s x) (cg_inEdges cg v)))" for v
  proof -
    have eq: "(\<lambda>x. \<not> is_cond cg (e_from x) \<and> \<not> resolved D (P - {e}) ?s x) =
      (\<lambda>x. (\<not> is_cond cg (e_from x) \<and> \<not> resolved D P s x) \<and> x \<noteq> e)"
      by (auto simp: res)
    show ?thesis
      unfolding eq filter_remove_one [OF dist] settle_edge_counts sched_invD(7) [OF inv, symmetric]
      using nres mem by simp
  qed
  moreover have "sc_condPending ?s v =
      int (length (filter (\<lambda>x. is_cond cg (e_from x) \<and> \<not> resolved D (P - {e}) ?s x) (cg_inEdges cg v)))" for v
  proof -
    have eq: "(\<lambda>x. is_cond cg (e_from x) \<and> \<not> resolved D (P - {e}) ?s x) =
      (\<lambda>x. (is_cond cg (e_from x) \<and> \<not> resolved D P s x) \<and> x \<noteq> e)"
      by (auto simp: res)
    show ?thesis
      unfolding eq filter_remove_one [OF dist] settle_edge_counts sched_invD(8) [OF inv, symmetric]
      using nres mem by simp
  qed
  moreover have "sc_condPassed ?s v =
      int (length (filter (\<lambda>x. is_cond cg (e_from x) \<and> resolved D (P - {e}) ?s x \<and> edge_passed sp x) (cg_inEdges cg v)))" for v
  proof (cases "is_cond cg (e_from e) \<and> edge_passed sp e")
    case True
    have eq: "(\<lambda>x. is_cond cg (e_from x) \<and> resolved D (P - {e}) ?s x \<and> edge_passed sp x) =
      (\<lambda>x. (is_cond cg (e_from x) \<and> resolved D P s x \<and> edge_passed sp x) \<or> x = e)"
      using True by (auto simp: res)
    have "\<not> (is_cond cg (e_from e) \<and> resolved D P s e \<and> edge_passed sp e)" using nres by simp
    note add = filter_add_one [where Q = "\<lambda>x. is_cond cg (e_from x) \<and> resolved D P s x \<and> edge_passed sp x",
        OF dist this]
    show ?thesis
      unfolding eq add settle_edge_counts sched_invD(9) [OF inv, symmetric]
      using mem True passed by simp
  next
    case False
    have eq: "(\<lambda>x. is_cond cg (e_from x) \<and> resolved D (P - {e}) ?s x \<and> edge_passed sp x) =
      (\<lambda>x. is_cond cg (e_from x) \<and> resolved D P s x \<and> edge_passed sp x)"
      using False by (auto simp: res)
    show ?thesis
      unfolding eq settle_edge_counts sched_invD(9) [OF inv, symmetric]
      using False passed by auto
  qed
  moreover have "v \<in> D \<union> skipped_set s \<union> running_set s \<longleftrightarrow>
      (\<forall>x \<in> set (cg_inEdges cg v). resolved D (P - {e}) ?s x)"
    if "v \<in> cg_nodes cg" "v \<noteq> e_to e" for v
  proof -
    have "e \<notin> set (cg_inEdges cg v)" using mem that(2) by blast
    then have "(\<forall>x \<in> set (cg_inEdges cg v). resolved D (P - {e}) ?s x) \<longleftrightarrow>
        (\<forall>x \<in> set (cg_inEdges cg v). resolved D P s x)"
      using res by blast
    then show ?thesis using sched_invD(10) [OF inv that(1)] by simp
  qed
  moreover have "sched_sets cg D (P - {e}) ?s"
    using inv by (auto simp: sched_inv_def sched_sets_def)
  moreover have "sched_data cg arrival sp D ?s"
    using inv by (simp add: sched_inv_def sched_data_def)
  ultimately show ?thesis
    by (simp add: sched_inv_def sched_counts_def sched_ready_def)
qed

section \<open>Starting and skipping\<close>

lemma skipped_set_add: "skipped_set (s\<lparr>sc_skipped := (sc_skipped s)(v := True)\<rparr>) = insert v (skipped_set s)"
  by (auto simp: skipped_set_def)

lemma count_zero: "int (length (filter Q xs)) = 0 \<longleftrightarrow> (\<forall>x \<in> set xs. \<not> Q x)"
  by (simp add: filter_empty_conv)

lemma not_ready_iff:
  assumes "sched_inv cg arrival sp D P X s"
  shows "sc_remaining s v > 0 \<or> sc_condPending s v > 0 \<longleftrightarrow> (\<exists>e \<in> set (cg_inEdges cg v). \<not> resolved D P s e)"
  using count_zero [of "\<lambda>e. \<not> is_cond cg (e_from e) \<and> \<not> resolved D P s e" "cg_inEdges cg v"]
    count_zero [of "\<lambda>e. is_cond cg (e_from e) \<and> \<not> resolved D P s e" "cg_inEdges cg v"]
    sched_invD(7,8) [OF assms, of v]
  by force

lemma cond_only_iff:
  "length (cg_inEdges cg v) = condInCount cg v \<longleftrightarrow> (\<forall>e \<in> set (cg_inEdges cg v). is_cond cg (e_from e))"
proof
  assume "length (cg_inEdges cg v) = condInCount cg v"
  then show "\<forall>e \<in> set (cg_inEdges cg v). is_cond cg (e_from e)"
    unfolding condInCount_def using length_filter_less [of _ "cg_inEdges cg v" "\<lambda>e. is_cond cg (e_from e)"]
    by (metis less_irrefl)
qed (simp add: condInCount_def)

text \<open>The test of \<open>tryStart\<close> decides as the specification does.\<close>

lemma skip_test:
  assumes inv: "sched_inv cg arrival sp D P X s" and ready: "\<forall>e \<in> set (cg_inEdges cg v). resolved D P s e"
  shows "sc_condPassed s v = 0 \<and> length (cg_inEdges cg v) = condInCount cg v \<and> length (cg_inEdges cg v) > 0
    \<longleftrightarrow> \<not> node_runs cg sp v"
proof -
  have "sc_condPassed s v = 0 \<longleftrightarrow> (\<forall>e \<in> set (cg_inEdges cg v). is_cond cg (e_from e) \<longrightarrow> \<not> edge_passed sp e)"
    using ready unfolding sched_invD(9) [OF inv] count_zero by blast
  then show ?thesis by (auto simp: cond_only_iff node_runs_def)
qed

lemma resolved_states:
  assumes inv: "sched_inv cg arrival sp D P X s" and "resolved D P s e"
  shows "sc_nodeStates s (e_from e) = sp (e_from e)"
proof (cases "e_from e \<in> D")
  case True
  then show ?thesis using sched_invD(12) [OF inv] by simp
next
  case False
  then have k: "e_from e \<in> skipped_set s" using assms(2) by (simp add: resolved_def)
  then have "e_from e \<notin> running_set s" using sched_invD(4) [OF inv] by blast
  then show ?thesis using sched_invD(14) [OF inv] sched_invD(13) [OF inv k] False by simp
qed

text \<open>Marking a node as skipped, its out-edges owed.\<close>

lemma mark_skipped_inv:
  assumes wf: "wf_cg cg" and inv: "sched_inv cg arrival sp D P {v} s"
    and v: "v \<in> cg_nodes cg" "\<forall>e \<in> set (cg_inEdges cg v). resolved D P s e" "sp v = None"
  shows "sched_inv cg arrival sp D (P \<union> set (cg_outEdges cg v)) {} (s\<lparr>sc_skipped := (sc_skipped s)(v := True)\<rparr>)"
proof -
  let ?P = "P \<union> set (cg_outEdges cg v)" and ?s = "s\<lparr>sc_skipped := (sc_skipped s)(v := True)\<rparr>"
  have vn: "v \<notin> D \<union> skipped_set s \<union> running_set s" using sched_invD(11) [OF inv, of v] by simp
  have run: "running_set ?s = running_set s" by (simp add: running_set_def)
  have res: "resolved D ?P ?s e \<longleftrightarrow> resolved D P s e" if "e \<in> set (cg_edges cg)" for e
    using that vn wf_cg_D(5) [OF wf, of e v] wf_cg_D(5) [OF wf, of e "e_from e"]
    by (auto simp: resolved_def skipped_set_add)
  have res_in: "resolved D ?P ?s e \<longleftrightarrow> resolved D P s e" if "e \<in> set (cg_inEdges cg w)" for e w
    using res that wf_cg_D(4) [OF wf] by blast
  have flt: "filter (\<lambda>e. Q e (resolved D ?P ?s e)) (cg_inEdges cg w) = filter (\<lambda>e. Q e (resolved D P s e)) (cg_inEdges cg w)" for Q w
    by (rule filter_cong) (simp_all add: res_in)
  have "sched_sets cg D ?P ?s"
    using inv vn v(1) wf_cg_D(5) [OF wf]
    by (auto simp: sched_inv_def sched_sets_def skipped_set_add run)
  moreover have "sched_counts cg sp D ?P ?s"
    using inv flt [where Q = "\<lambda>e r. \<not> is_cond cg (e_from e) \<and> \<not> r"]
      flt [where Q = "\<lambda>e r. is_cond cg (e_from e) \<and> \<not> r"]
      flt [where Q = "\<lambda>e r. is_cond cg (e_from e) \<and> r \<and> edge_passed sp e"]
    by (simp add: sched_inv_def sched_counts_def)
  moreover have "w \<in> D \<union> skipped_set ?s \<union> running_set ?s \<longleftrightarrow> (\<forall>e \<in> set (cg_inEdges cg w). resolved D ?P ?s e)"
    if "w \<in> cg_nodes cg" for w
    using sched_invD(10) [OF inv that] v(2) res_in [of _ w] by (cases "w = v") (auto simp: skipped_set_add run)
  then have "sched_ready cg D ?P {} ?s" by (simp add: sched_ready_def)
  moreover have "sched_data cg arrival sp D ?s"
    using inv v(3) by (simp add: sched_inv_def sched_data_def skipped_set_add run)
  ultimately show ?thesis by (simp add: sched_inv_def)
qed

text \<open>Launching a node.\<close>

lemma launch_inv:
  assumes inv: "sched_inv cg arrival sp D P {v} s"
    and v: "v \<in> cg_nodes cg" "\<forall>e \<in> set (cg_inEdges cg v). resolved D P s e"
    and p: "sp v = snd (executeNode cg arrival v p)"
  shows "sched_inv cg arrival sp D P {} (s\<lparr>sc_inflight := sc_inflight s @ [(v, p)]\<rparr>)"
proof -
  let ?s = "s\<lparr>sc_inflight := sc_inflight s @ [(v, p)]\<rparr>"
  have vn: "v \<notin> D \<union> skipped_set s \<union> running_set s" using sched_invD(11) [OF inv, of v] by simp
  have sets: "running_set ?s = insert v (running_set s)" "skipped_set ?s = skipped_set s"
    by (simp_all add: running_set_def skipped_set_def)
  have res: "resolved D P ?s = resolved D P s" by (simp add: fun_eq_iff resolved_def sets)
  have "sched_sets cg D P ?s"
    using inv vn v(1) by (auto simp: sched_inv_def sched_sets_def sets running_set_def)
  moreover have "sched_counts cg sp D P ?s"
    using inv by (simp add: sched_inv_def sched_counts_def res)
  moreover have "w \<in> D \<union> skipped_set ?s \<union> running_set ?s \<longleftrightarrow> (\<forall>e \<in> set (cg_inEdges cg w). resolved D P ?s e)"
    if "w \<in> cg_nodes cg" for w
    using sched_invD(10) [OF inv that] v(2) by (cases "w = v") (auto simp: sets res)
  then have "sched_ready cg D P {} ?s" by (simp add: sched_ready_def)
  moreover have "sched_data cg arrival sp D ?s"
    using inv p by (auto simp: sched_inv_def sched_data_def sets)
  ultimately show ?thesis by (simp add: sched_inv_def)
qed

lemma unready_inv:
  assumes inv: "sched_inv cg arrival sp D P {v} s" and "\<exists>e \<in> set (cg_inEdges cg v). \<not> resolved D P s e"
  shows "sched_inv cg arrival sp D P {} s"
proof -
  have "w \<in> D \<union> skipped_set s \<union> running_set s \<longleftrightarrow> (\<forall>e \<in> set (cg_inEdges cg w). resolved D P s e)"
    if "w \<in> cg_nodes cg" for w
    using sched_invD(10) [OF inv that] sched_invD(11) [OF inv, of v] assms(2) by (cases "w = v") auto
  with inv show ?thesis by (simp add: sched_inv_def sched_ready_def)
qed

section \<open>The recursion\<close>

definition unskipped :: "compiled \<Rightarrow> sched \<Rightarrow> nat" where
  "unskipped cg s = card (cg_nodes cg - skipped_set s)"

lemma unskipped_mono:
  "wf_cg cg \<Longrightarrow> skipped_set s \<subseteq> skipped_set s' \<Longrightarrow> unskipped cg s' \<le> unskipped cg s"
  unfolding unskipped_def by (intro card_mono) (auto dest: wf_cg_D(1))

lemma unskipped_mark:
  assumes "wf_cg cg" "v \<in> cg_nodes cg" "v \<notin> skipped_set s"
  shows "Suc (unskipped cg (s\<lparr>sc_skipped := (sc_skipped s)(v := True)\<rparr>)) = unskipped cg s"
proof -
  have "cg_nodes cg - skipped_set s = insert v (cg_nodes cg - insert v (skipped_set s))"
    using assms(2,3) by blast
  then have "unskipped cg s = card (insert v (cg_nodes cg - insert v (skipped_set s)))"
    by (simp only: unskipped_def)
  also have "\<dots> = Suc (card (cg_nodes cg - insert v (skipped_set s)))"
    using wf_cg_D(1) [OF assms(1)] by simp
  finally show ?thesis by (simp only: unskipped_def skipped_set_add)
qed

lemma settle_unskipped [simp]: "unskipped cg (settle_edge cg b e s) = unskipped cg s"
  by (simp add: unskipped_def)

lemma spec_runs:
  assumes "wf_cg cg" "v \<in> cg_nodes cg" "sp = spec_states cg arrival ord init"
  shows "node_runs cg sp v \<Longrightarrow> sp v = snd (executeNode cg arrival v (node_parent cg ord init sp v))"
    and "\<not> node_runs cg sp v \<Longrightarrow> sp v = None"
proof -
  let ?st = "spec_states cg arrival ord init"
  have eq: "?st v = (if node_runs cg ?st v then snd (executeNode cg arrival v (node_parent cg ord init ?st v)) else None)"
    by (rule spec_states_eq [OF assms(1,2), unfolded Let_def])
  show "node_runs cg sp v \<Longrightarrow> sp v = snd (executeNode cg arrival v (node_parent cg ord init sp v))"
    unfolding assms(3) using eq by (simp only: if_True)
  show "\<not> node_runs cg sp v \<Longrightarrow> sp v = None"
    unfolding assms(3) using eq by (simp only: if_False)
qed

definition tryStart_ok ::
  "compiled \<Rightarrow> (nid \<Rightarrow> nat \<Rightarrow> nat list) \<Rightarrow> (graph_state \<Rightarrow> string list) \<Rightarrow> (nid \<rightharpoonup> graph_state) \<Rightarrow> nid set \<Rightarrow> nat \<Rightarrow> bool" where
  "tryStart_ok cg arrival ord sp D n \<longleftrightarrow> (\<forall>v P s.
     sched_inv cg arrival sp D P {v} s \<and> v \<in> cg_nodes cg \<and> cg_inEdges cg v \<noteq> [] \<and> 2 * unskipped cg s + 1 \<le> n \<longrightarrow>
     (\<exists>s'. tryStart n cg ord v s = Some s' \<and> sched_inv cg arrival sp D P {} s' \<and>
           skipped_set s \<subseteq> skipped_set s'))"

lemma skip_update_settle:
  "e_from e = v \<Longrightarrow>
   (if is_cond cg v then s\<lparr>sc_condPending := upd_count (e_to e) (- 1) (sc_condPending s)\<rparr>
    else s\<lparr>sc_remaining := upd_count (e_to e) (- 1) (sc_remaining s)\<rparr>) = settle_edge cg False e s"
  by (simp add: settle_edge_def)

lemma skip_edges_inv:
  assumes wf: "wf_cg cg" and T: "tryStart_ok cg arrival ord sp D n"
    and "sched_inv cg arrival sp D (P \<union> set es) {} s" "distinct es" "set es \<inter> P = {}"
    and "set es \<subseteq> set (cg_outEdges cg v)" "v \<in> skipped_set s" "2 * unskipped cg s + 1 \<le> n"
  shows "\<exists>s'. skip_edges n cg ord v es s = Some s' \<and> sched_inv cg arrival sp D P {} s' \<and>
    skipped_set s \<subseteq> skipped_set s'"
  using assms(3-8)
proof (induction es arbitrary: s)
  case Nil
  then show ?case by simp
next
  case (Cons e es)
  have e: "e \<in> set (cg_edges cg)" "e_from e = v"
    using Cons.prems(4) wf_cg_D(5) [OF wf] by auto
  let ?s = "settle_edge cg False e s"
  have "\<not> edge_passed sp e"
    using sched_invD(13) [OF Cons.prems(1,5)] e(2) by (simp add: edge_passed_def)
  then have "sched_inv cg arrival sp D (P \<union> set (e # es) - {e}) {e_to e} ?s"
    by (intro settle_edge_inv [OF wf Cons.prems(1)]) simp_all
  moreover have "P \<union> set (e # es) - {e} = P \<union> set es" using Cons.prems(2,3) by auto
  ultimately have inv: "sched_inv cg arrival sp D (P \<union> set es) {e_to e} ?s" by simp
  have to: "e_to e \<in> cg_nodes cg" "cg_inEdges cg (e_to e) \<noteq> []"
    using wf_cg_D(7) [OF wf e(1)] wf_cg_D(4) [OF wf, of e "e_to e"] e(1) by auto
  obtain s2 where s2: "tryStart n cg ord (e_to e) ?s = Some s2"
    "sched_inv cg arrival sp D (P \<union> set es) {} s2" "skipped_set s \<subseteq> skipped_set s2"
    using T inv to Cons.prems(6) unfolding tryStart_ok_def by fastforce
  have fuel: "2 * unskipped cg s2 + 1 \<le> n"
    using unskipped_mono [OF wf s2(3)] Cons.prems(6) by simp
  have "\<exists>s'. skip_edges n cg ord v es s2 = Some s' \<and> sched_inv cg arrival sp D P {} s' \<and>
      skipped_set s2 \<subseteq> skipped_set s'"
    by (rule Cons.IH [OF s2(2)]) (use Cons.prems s2(3) fuel in auto)
  then show ?case
    using s2 by (auto simp: skip_update_settle [OF e(2)] Let_def)
qed

lemma tryStart_inv:
  assumes wf: "wf_cg cg" and sp: "sp = spec_states cg arrival ord init"
  shows "tryStart_ok cg arrival ord sp D n"
proof (induction n rule: less_induct)
  case (less n)
  show ?case unfolding tryStart_ok_def
  proof (intro allI impI, elim conjE)
    fix v P s
    assume inv: "sched_inv cg arrival sp D P {v} s" and v: "v \<in> cg_nodes cg" "cg_inEdges cg v \<noteq> []"
      and n: "2 * unskipped cg s + 1 \<le> n"
    have vn: "v \<notin> D \<union> skipped_set s \<union> running_set s" using sched_invD(11) [OF inv, of v] by simp
    then have nsk: "\<not> sc_skipped s v" by (simp add: skipped_set_def)
    obtain m where m: "n = Suc m" using n by (cases n) auto
    show "\<exists>s'. tryStart n cg ord v s = Some s' \<and> sched_inv cg arrival sp D P {} s' \<and>
           skipped_set s \<subseteq> skipped_set s'"
    proof (cases "\<exists>e \<in> set (cg_inEdges cg v). \<not> resolved D P s e")
      case True
      then show ?thesis
        using unready_inv [OF inv True] not_ready_iff [OF inv, of v] nsk by (simp add: m)
    next
      case False
      then have ready: "\<forall>e \<in> set (cg_inEdges cg v). resolved D P s e" by blast
      have nr: "\<not> (sc_remaining s v > 0 \<or> sc_condPending s v > 0)"
        using not_ready_iff [OF inv, of v] ready by blast
      note test = skip_test [OF inv ready]
      show ?thesis
      proof (cases "node_runs cg sp v")
        case True
        let ?p = "collectPredecessorState cg ord v (sc_nodeStates s)"
        have "?p = collectPredecessorState cg ord v sp"
          by (rule collect_cong) (use ready resolved_states [OF inv] in blast)
        then have "node_parent cg ord init sp v = ?p" using v(2) by (simp add: node_parent_def)
        then have "sched_inv cg arrival sp D P {} (s\<lparr>sc_inflight := sc_inflight s @ [(v, ?p)]\<rparr>)"
          using launch_inv [OF inv v(1) ready, of ?p] spec_runs(1) [OF wf v(1) sp True] by simp
        moreover have "tryStart n cg ord v s = Some (s\<lparr>sc_inflight := sc_inflight s @ [(v, ?p)]\<rparr>)"
        proof -
          have "\<not> (sc_condPassed s v = 0 \<and> length (cg_inEdges cg v) = condInCount cg v \<and> length (cg_inEdges cg v) > 0)"
            using test True by blast
          then show ?thesis using nsk nr by (simp only: m tryStart.simps if_False)
        qed
        ultimately show ?thesis by (simp add: skipped_set_def)
      next
        case False
        let ?s = "s\<lparr>sc_skipped := (sc_skipped s)(v := True)\<rparr>"
        have marked: "sched_inv cg arrival sp D (P \<union> set (cg_outEdges cg v)) {} ?s"
          by (rule mark_skipped_inv [OF wf inv v(1) ready spec_runs(2) [OF wf v(1) sp False]])
        have card: "Suc (unskipped cg ?s) = unskipped cg s"
          by (rule unskipped_mark [OF wf v(1)]) (use vn in blast)
        then obtain k where k: "m = Suc k" "2 * unskipped cg ?s + 1 \<le> k"
          using n m by (cases m) auto
        have "set (cg_outEdges cg v) \<inter> P = {}"
        proof -
          have "e_from e \<noteq> v" if "e \<in> P" for e using sched_invD(6) [OF inv that] vn by auto
          then show ?thesis using wf_cg_D(5) [OF wf] by blast
        qed
        then have "\<exists>s'. skip_edges k cg ord v (cg_outEdges cg v) ?s = Some s' \<and> sched_inv cg arrival sp D P {} s' \<and>
            skipped_set ?s \<subseteq> skipped_set s'"
          by (intro skip_edges_inv [OF wf less marked wf_cg_D(3) [OF wf]])
            (use k m in \<open>simp_all add: skipped_set_def\<close>)
        moreover have "tryStart n cg ord v s = skip_edges k cg ord v (cg_outEdges cg v) ?s"
        proof -
          have t: "(sc_condPassed s v = 0 \<and> length (cg_inEdges cg v) = condInCount cg v \<and> length (cg_inEdges cg v) > 0) = True"
            using test False by blast
          show ?thesis by (simp only: m k(1) tryStart.simps skip.simps nsk nr t if_False if_True)
        qed
        ultimately show ?thesis by (auto simp: skipped_set_add)
      qed
    qed
  qed
qed

end
