(* ===== verification/GraphRefine.thy ===== *)
theory GraphRefine
  imports GraphSched
begin

text \<open>
  Whole runs of a graph: every interleaving of node completions computes the states of the
  sequential specification; a run never gets stuck, executes each node at most once and in
  dependency order, and its result is determined where one final node is.
\<close>

section \<open>Completing a node\<close>

lemma mark_done_inv:
  assumes wf: "wf_cg cg" and inv: "sched_inv cg arrival sp D {} {} s"
    and infl: "sc_inflight s = xs @ (v, p) # ys" and st: "sp v = Some st"
  shows "sched_inv cg arrival sp (insert v D) (set (cg_outEdges cg v)) {}
    (s\<lparr>sc_inflight := xs @ ys, sc_nodeStates := (sc_nodeStates s)(v \<mapsto> st)\<rparr>)"
proof -
  let ?s = "s\<lparr>sc_inflight := xs @ ys, sc_nodeStates := (sc_nodeStates s)(v \<mapsto> st)\<rparr>"
  let ?P = "set (cg_outEdges cg v)"
  have dist: "distinct (map fst (sc_inflight s))" by (rule sched_invD(1) [OF inv])
  have run: "running_set s = insert v (running_set ?s)" "v \<notin> running_set ?s"
    using dist by (auto simp: running_set_def infl)
  have sk: "skipped_set ?s = skipped_set s" by (simp add: skipped_set_def)
  have vn: "v \<notin> D" "v \<notin> skipped_set s" "v \<in> cg_nodes cg"
    using sched_invD(3,4,5) [OF inv] run(1) by blast+
  have res: "resolved (insert v D) ?P ?s e \<longleftrightarrow> resolved D {} s e" if "e \<in> set (cg_edges cg)" for e
    using that vn wf_cg_D(5) [OF wf, of e v] by (auto simp: resolved_def sk)
  have res_in: "resolved (insert v D) ?P ?s e \<longleftrightarrow> resolved D {} s e" if "e \<in> set (cg_inEdges cg w)" for e w
    using res that wf_cg_D(4) [OF wf] by blast
  have flt: "filter (\<lambda>e. Q e (resolved (insert v D) ?P ?s e)) (cg_inEdges cg w) =
      filter (\<lambda>e. Q e (resolved D {} s e)) (cg_inEdges cg w)" for Q w
    by (rule filter_cong) (simp_all add: res_in)
  have "sched_sets cg (insert v D) ?P ?s"
    using inv vn run wf_cg_D(5) [OF wf] dist infl
    by (auto simp: sched_inv_def sched_sets_def sk)
  moreover have "sched_counts cg sp (insert v D) ?P ?s"
    using inv flt [where Q = "\<lambda>e r. \<not> is_cond cg (e_from e) \<and> \<not> r"]
      flt [where Q = "\<lambda>e r. is_cond cg (e_from e) \<and> \<not> r"]
      flt [where Q = "\<lambda>e r. is_cond cg (e_from e) \<and> r \<and> edge_passed sp e"]
    by (simp add: sched_inv_def sched_counts_def)
  moreover have "w \<in> insert v D \<union> skipped_set ?s \<union> running_set ?s \<longleftrightarrow>
      (\<forall>e \<in> set (cg_inEdges cg w). resolved (insert v D) ?P ?s e)"
    if "w \<in> cg_nodes cg" for w
    using sched_invD(10) [OF inv that] res_in [of _ w] by (auto simp: sk run(1))
  then have "sched_ready cg (insert v D) ?P {} ?s" by (simp add: sched_ready_def)
  moreover have "sched_data cg arrival sp (insert v D) ?s"
  proof -
    have "sc_nodeStates ?s w = sp w \<and> sp w \<noteq> None" if "w \<in> insert v D" for w
      using that sched_invD(12) [OF inv, of w] st by auto
    moreover have "sc_nodeStates ?s w = None" if "w \<notin> insert v D \<union> running_set ?s" for w
      using that sched_invD(14) [OF inv, of w] run(1) by auto
    moreover have "set (sc_inflight ?s) \<subseteq> set (sc_inflight s)" by (auto simp: infl)
    ultimately show ?thesis
      using sched_invD(13) [OF inv] sched_invD(15) [OF inv] unfolding sched_data_def sk by blast
  qed
  ultimately show ?thesis by (simp add: sched_inv_def)
qed

lemma complete_update_settle:
  "e_from e = v \<Longrightarrow>
   (if is_cond cg v then
      (let s = (if e_label e \<noteq> chosen then s else s\<lparr>sc_condPassed := upd_count (e_to e) 1 (sc_condPassed s)\<rparr>)
       in s\<lparr>sc_condPending := upd_count (e_to e) (- 1) (sc_condPending s)\<rparr>)
    else s\<lparr>sc_remaining := upd_count (e_to e) (- 1) (sc_remaining s)\<rparr>) =
   settle_edge cg (e_label e = chosen) e s"
  by (simp add: settle_edge_def Let_def)

lemma complete_edges_inv:
  assumes wf: "wf_cg cg" and T: "tryStart_ok cg arrival ord sp D n"
    and "sched_inv cg arrival sp D (set es) {} s" "distinct es"
    and "set es \<subseteq> set (cg_outEdges cg v)" "2 * unskipped cg s + 1 \<le> n"
    and chosen: "is_cond cg v \<Longrightarrow> sp v \<noteq> None \<and> chosen = branch_of (sp v)"
  shows "\<exists>s'. complete_edges n cg ord (is_cond cg v) chosen es s = Some s' \<and> sched_inv cg arrival sp D {} {} s'"
  using assms(3-6)
proof (induction es arbitrary: s)
  case Nil
  then show ?case by simp
next
  case (Cons e es)
  have e: "e \<in> set (cg_edges cg)" "e_from e = v"
    using Cons.prems(3) wf_cg_D(5) [OF wf] by auto
  let ?s = "settle_edge cg (e_label e = chosen) e s"
  have "sched_inv cg arrival sp D (set (e # es) - {e}) {e_to e} ?s"
    by (rule settle_edge_inv [OF wf Cons.prems(1)]) (use chosen e(2) in \<open>auto simp: edge_passed_def\<close>)
  moreover have "set (e # es) - {e} = set es" using Cons.prems(2) by auto
  ultimately have inv: "sched_inv cg arrival sp D (set es) {e_to e} ?s" by simp
  have to: "e_to e \<in> cg_nodes cg" "cg_inEdges cg (e_to e) \<noteq> []"
    using wf_cg_D(7) [OF wf e(1)] wf_cg_D(4) [OF wf, of e "e_to e"] e(1) by auto
  obtain s2 where s2: "tryStart n cg ord (e_to e) ?s = Some s2"
    "sched_inv cg arrival sp D (set es) {} s2" "skipped_set s \<subseteq> skipped_set s2"
    using T inv to Cons.prems(4) unfolding tryStart_ok_def by fastforce
  have "\<exists>s'. complete_edges n cg ord (is_cond cg v) chosen es s2 = Some s' \<and> sched_inv cg arrival sp D {} {} s'"
    by (rule Cons.IH [OF s2(2)]) (use Cons.prems unskipped_mono [OF wf s2(3)] in auto)
  then show ?case
    using s2 complete_update_settle [OF e(2)] by (simp add: Let_def)
qed

lemma complete_inv:
  assumes wf: "wf_cg cg" and lab: "well_labelled cg"
    and sp: "sp = spec_states cg arrival ord init"
    and inv: "sched_inv cg arrival sp D {} {} s" and infl: "sc_inflight s = xs @ (v, p) # ys"
    and st: "sp v = Some st"
  shows "\<exists>s'. complete cg ord v (s\<lparr>sc_inflight := xs @ ys, sc_nodeStates := (sc_nodeStates s)(v \<mapsto> st)\<rparr>) = Some s' \<and>
    sched_inv cg arrival sp (insert v D) {} {} s'"
proof -
  let ?s = "s\<lparr>sc_inflight := xs @ ys, sc_nodeStates := (sc_nodeStates s)(v \<mapsto> st)\<rparr>"
  have "v \<in> running_set s" using infl by (simp add: running_set_def)
  then have v: "v \<in> cg_nodes cg" using sched_invD(5) [OF inv] by blast
  have "hasLabeledOut cg v \<longrightarrow> is_cond cg v"
    using lab wf_cg_D(5) [OF wf] by (auto simp: hasLabeledOut_def list_ex_iff well_labelled_def)
  then have cond: "(gr_nodes (cg_graph cg) v \<noteq> None \<and> (is_cond cg v \<or> hasLabeledOut cg v)) = is_cond cg v"
    using v by auto
  let ?chosen = "if is_cond cg v then branch_of (sc_nodeStates ?s v) else []"
  have "card (cg_nodes cg) = length (cg_topoOrder cg)"
    using wf_cg_D(9,10) [OF wf] by (metis distinct_card)
  then have "2 * unskipped cg ?s + 1 \<le> sched_fuel cg"
    using card_mono [OF wf_cg_D(1) [OF wf], of "cg_nodes cg - skipped_set ?s"]
    by (simp add: unskipped_def sched_fuel_def)
  then have "\<exists>s'. complete_edges (sched_fuel cg) cg ord (is_cond cg v) ?chosen (cg_outEdges cg v) ?s = Some s' \<and>
      sched_inv cg arrival sp (insert v D) {} {} s'"
    by (intro complete_edges_inv [OF wf tryStart_inv [OF wf sp] mark_done_inv [OF wf inv infl st] wf_cg_D(3) [OF wf]])
      (simp_all add: st)
  then show ?thesis unfolding complete_def Let_def cond .
qed

section \<open>Starting\<close>

lemma startEntries_eq:
  "startEntries cg init s =
     s\<lparr>sc_nodeStates := (\<lambda>v. if v \<in> set (cg_topoOrder cg) \<and> cg_inDegree cg v = 0 then Some init else sc_nodeStates s v),
       sc_inflight := sc_inflight s @ map (\<lambda>v. (v, Some init)) (filter (\<lambda>v. cg_inDegree cg v = 0) (cg_topoOrder cg))\<rparr>"
proof -
  have "fold (\<lambda>v s. if cg_inDegree cg v = 0
                 then s\<lparr>sc_nodeStates := (sc_nodeStates s)(v \<mapsto> init), sc_inflight := sc_inflight s @ [(v, Some init)]\<rparr>
                 else s) vs s =
     s\<lparr>sc_nodeStates := (\<lambda>v. if v \<in> set vs \<and> cg_inDegree cg v = 0 then Some init else sc_nodeStates s v),
       sc_inflight := sc_inflight s @ map (\<lambda>v. (v, Some init)) (filter (\<lambda>v. cg_inDegree cg v = 0) vs)\<rparr>" for vs
    by (induction vs arbitrary: s) (auto simp: fun_eq_iff)
  then show ?thesis by (simp add: startEntries_def)
qed

lemma start_inv:
  assumes wf: "wf_cg cg" and sp: "sp = spec_states cg arrival ord init"
  shows "sched_inv cg arrival sp {} {} {} (startEntries cg init (newScheduler cg))"
proof -
  let ?s = "startEntries cg init (newScheduler cg)"
  have entry: "cg_inDegree cg v = 0 \<longleftrightarrow> cg_inEdges cg v = []" for v
    using wf_cg_D(8) [OF wf, of v] by simp
  have infl: "sc_inflight ?s = map (\<lambda>v. (v, Some init)) (filter (\<lambda>v. cg_inEdges cg v = []) (cg_topoOrder cg))"
    by (simp add: startEntries_eq newScheduler_def entry)
  have run: "running_set ?s = {v \<in> cg_nodes cg. cg_inEdges cg v = []}"
    using wf_cg_D(10) [OF wf] by (auto simp: running_set_def infl image_image)
  have sk: "skipped_set ?s = {}" by (simp add: skipped_set_def startEntries_eq newScheduler_def)
  have nres: "\<not> resolved {} {} ?s e" for e by (simp add: resolved_def sk)
  have "sched_sets cg {} {} ?s"
    using wf_cg_D(9) [OF wf] by (auto simp: sched_sets_def sk run infl comp_def)
  moreover have "sched_counts cg sp {} {} ?s"
  proof -
    have "length (cg_inEdges cg v) = condInCount cg v + length (filter (\<lambda>e. \<not> is_cond cg (e_from e)) (cg_inEdges cg v))" for v
      unfolding condInCount_def by (rule length_filter_split)
    then have "int (length (cg_inEdges cg v)) - int (condInCount cg v) =
        int (length (filter (\<lambda>e. \<not> is_cond cg (e_from e)) (cg_inEdges cg v)))" for v
      by simp
    moreover have "sc_remaining ?s v = int (length (cg_inEdges cg v)) - int (condInCount cg v)"
      "sc_condPending ?s v = int (condInCount cg v)" "sc_condPassed ?s v = 0" for v
      by (simp_all add: startEntries_eq newScheduler_def)
    ultimately show ?thesis unfolding sched_counts_def using nres by (simp add: condInCount_def)
  qed
  moreover have "sched_ready cg {} {} {} ?s"
    using nres by (auto simp: sched_ready_def sk run)
  moreover have "sched_data cg arrival sp {} ?s"
  proof -
    have "sp v = snd (executeNode cg arrival v p)"
      if "(v, p) \<in> set (sc_inflight ?s)" for v p
    proof -
      have v: "v \<in> cg_nodes cg" "cg_inEdges cg v = []" "p = Some init"
        using that wf_cg_D(10) [OF wf] by (auto simp: infl)
      then show ?thesis
        using spec_runs(1) [OF wf v(1) sp] by (simp add: node_runs_def node_parent_def)
    qed
    moreover have "sc_nodeStates ?s v = None" if "v \<notin> running_set ?s" for v
    proof -
      have "\<not> (v \<in> set (cg_topoOrder cg) \<and> cg_inDegree cg v = 0)"
        using that unfolding run entry wf_cg_D(10) [OF wf] by blast
      then show ?thesis by (simp only: startEntries_eq) (simp add: newScheduler_def)
    qed
    ultimately show ?thesis by (simp add: sched_data_def sk)
  qed
  ultimately show ?thesis by (simp add: sched_inv_def)
qed

section \<open>Traces\<close>

text \<open>The nodes whose results the loop has received, in order.\<close>

inductive run_trace ::
  "compiled \<Rightarrow> (nid \<Rightarrow> nat \<Rightarrow> nat list) \<Rightarrow> (graph_state \<Rightarrow> string list) \<Rightarrow> graph_state \<Rightarrow> nid list \<Rightarrow> run_config \<Rightarrow> bool"
  for cg arrival ord init where
  rt_start: "run_trace cg arrival ord init [] (run_start cg init)"
| rt_ok: "\<lbrakk>run_trace cg arrival ord init tr (Looping s final);
     sc_inflight s = xs @ (v, p) # ys; executeNode cg arrival v p = (None, Some st);
     complete cg ord v (s\<lparr>sc_inflight := xs @ ys, sc_nodeStates := (sc_nodeStates s)(v \<mapsto> st)\<rparr>) = Some s'\<rbrakk> \<Longrightarrow>
     run_trace cg arrival ord init (tr @ [v]) (Looping s' (Some st))"

lemma looping_trace:
  assumes "(run_step cg arrival ord)\<^sup>*\<^sup>* (run_start cg init) (Looping s final)"
  shows "\<exists>tr. run_trace cg arrival ord init tr (Looping s final)"
proof -
  have "\<forall>s final. c = Looping s final \<longrightarrow> (\<exists>tr. run_trace cg arrival ord init tr c)"
    if "(run_step cg arrival ord)\<^sup>*\<^sup>* (run_start cg init) c" for c
    using that
  proof (induction rule: rtranclp_induct)
    case base
    show ?case using rt_start [of cg arrival ord init] by blast
  next
    case (step c c')
    from step.hyps(2) step.IH show ?case
      by (cases rule: run_step.cases) (auto intro: rt_ok)
  qed
  with assms show ?thesis by blast
qed

text \<open>\<open>n\<close> iterations of the loop: \<open>n\<close> results received, or one less and the return.\<close>

lemma steps_trace:
  "(run_step cg arrival ord ^^ n) (run_start cg init) c \<Longrightarrow>
   (case c of
      Looping s final \<Rightarrow> \<exists>tr. length tr = n \<and> run_trace cg arrival ord init tr c
    | Returned err final \<Rightarrow> \<exists>tr c'. n = Suc (length tr) \<and> run_trace cg arrival ord init tr c' \<and> run_step cg arrival ord c' c)"
proof (induction n arbitrary: c)
  case 0
  then show ?case using rt_start [of cg arrival ord init] by (auto simp: run_start_def)
next
  case (Suc n)
  from Suc.prems obtain c1 where c1: "(run_step cg arrival ord ^^ n) (run_start cg init) c1" "run_step cg arrival ord c1 c"
    by (auto elim: relpowp_Suc_E)
  then obtain s1 f1 where l: "c1 = Looping s1 f1" by (cases c1) (simp_all add: returned_no_step)
  then obtain tr where tr: "length tr = n" "run_trace cg arrival ord init tr c1" using Suc.IH [OF c1(1)] by auto
  from c1(2) show ?case unfolding l
  proof (cases rule: run_step.cases)
    case (run_ok xs v p ys st s')
    have "run_trace cg arrival ord init (tr @ [v]) c"
      unfolding run_ok(1) by (rule rt_ok [OF tr(2) [unfolded l] run_ok(2,3,4)])
    then show ?thesis using run_ok(1) tr(1) by (auto intro!: exI [of _ "tr @ [v]"])
  qed (use tr c1(2) in auto)
qed

lemma pos_snoc_old: "w \<in> set tr \<Longrightarrow> pos (tr @ [v]) w = pos tr w"
  by (simp add: pos_def takeWhile_append1)

lemma pos_snoc_new: "v \<notin> set tr \<Longrightarrow> pos (tr @ [v]) v = length tr"
  by (auto simp: pos_def takeWhile_append)

lemma pos_less: "w \<in> set tr \<Longrightarrow> pos tr w < length tr"
  by (induction tr) (auto simp: pos_def)

lemma trace_inv:
  assumes wf: "wf_cg cg" and lab: "well_labelled cg"
    and sp: "sp = spec_states cg arrival ord init"
    and "run_trace cg arrival ord init tr c"
  shows "\<exists>s final. c = Looping s final \<and> sched_inv cg arrival sp (set tr) {} {} s \<and> distinct tr \<and>
    (if tr = [] then final = None else final = sp (last tr)) \<and>
    (\<forall>e \<in> set (cg_edges cg). e_to e \<in> set tr \<longrightarrow> sp (e_from e) \<noteq> None \<longrightarrow>
       e_from e \<in> set tr \<and> pos tr (e_from e) < pos tr (e_to e))"
  using assms(4)
proof (induction rule: run_trace.induct)
  case rt_start
  show ?case using start_inv [OF wf sp] by (simp add: run_start_def)
next
  case (rt_ok tr s final xs v p ys st s')
  then have inv: "sched_inv cg arrival sp (set tr) {} {} s" and dist: "distinct tr"
    and ordr: "\<forall>e \<in> set (cg_edges cg). e_to e \<in> set tr \<longrightarrow> sp (e_from e) \<noteq> None \<longrightarrow>
       e_from e \<in> set tr \<and> pos tr (e_from e) < pos tr (e_to e)"
    by auto
  have "(v, p) \<in> set (sc_inflight s)" using rt_ok.hyps(2) by simp
  then have st: "sp v = Some st" using sched_invD(15) [OF inv] rt_ok.hyps(3) by force
  have vr: "v \<in> running_set s" using rt_ok.hyps(2) by (simp add: running_set_def)
  then have v: "v \<notin> set tr" "v \<in> cg_nodes cg" using sched_invD(3,5) [OF inv] by blast+
  have inv': "sched_inv cg arrival sp (insert v (set tr)) {} {} s'"
    using complete_inv [OF wf lab sp inv rt_ok.hyps(2) st] rt_ok.hyps(4) by auto
  have "e_from e \<in> set tr" if "e \<in> set (cg_edges cg)" "e_to e = v" "sp (e_from e) \<noteq> None" for e
  proof -
    have "e \<in> set (cg_inEdges cg v)" using that wf_cg_D(4) [OF wf] by blast
    then have "resolved (set tr) {} s e" using sched_invD(10) [OF inv v(2)] vr by blast
    then show ?thesis using sched_invD(13) [OF inv, of "e_from e"] that(3) by (auto simp: resolved_def)
  qed
  then have "\<forall>e \<in> set (cg_edges cg). e_to e \<in> set (tr @ [v]) \<longrightarrow> sp (e_from e) \<noteq> None \<longrightarrow>
       e_from e \<in> set (tr @ [v]) \<and> pos (tr @ [v]) (e_from e) < pos (tr @ [v]) (e_to e)"
    using ordr v(1) by (auto simp: pos_snoc_old pos_snoc_new pos_less)
  with inv' st dist v(1) show ?case by auto
qed

text \<open>When nothing is in flight every node is finished or skipped.\<close>

lemma quiet_all_resolved:
  assumes wf: "wf_cg cg" and inv: "sched_inv cg arrival sp D {} {} s" and "sc_inflight s = []"
  shows "D \<union> skipped_set s = cg_nodes cg"
proof (rule ccontr)
  assume ne: "D \<union> skipped_set s \<noteq> cg_nodes cg"
  have run: "running_set s = {}" using assms(3) by (simp add: running_set_def)
  have "acyclic (edge_rel (cg_graph cg))"
    using topo_acyclic [OF wf_cg_D(11) [OF wf]] wf_cg_D(7,10) [OF wf] by blast
  moreover have "cg_nodes cg - (D \<union> skipped_set s) \<noteq> {}" using ne sched_invD(5) [OF inv] by blast
  ultimately have "\<exists>v \<in> cg_nodes cg - (D \<union> skipped_set s). \<forall>e \<in> set (cg_edges cg).
      e_to e = v \<longrightarrow> e_from e \<notin> cg_nodes cg - (D \<union> skipped_set s)"
    by (rule acyclic_source)
  then obtain v where v: "v \<in> cg_nodes cg - (D \<union> skipped_set s)"
    "\<forall>e \<in> set (cg_edges cg). e_to e = v \<longrightarrow> e_from e \<notin> cg_nodes cg - (D \<union> skipped_set s)"
    by blast
  have "\<forall>e \<in> set (cg_inEdges cg v). resolved D {} s e"
    using v(2) wf_cg_D(4,6) [OF wf] by (auto simp: resolved_def)
  then have "v \<in> D \<union> skipped_set s \<union> running_set s" using sched_invD(10) [OF inv, of v] v(1) by simp
  then show False using v(1) run by simp
qed

lemma quiet_states:
  assumes wf: "wf_cg cg" and sp: "sp = spec_states cg arrival ord init"
    and inv: "sched_inv cg arrival sp D {} {} s" and q: "sc_inflight s = []"
  shows "sc_nodeStates s = sp \<and> D = dom sp"
proof -
  have run: "running_set s = {}" using q by (simp add: running_set_def)
  have all: "D \<union> skipped_set s = cg_nodes cg" by (rule quiet_all_resolved [OF wf inv q])
  have "sc_nodeStates s v = sp v \<and> (v \<in> D \<longleftrightarrow> sp v \<noteq> None)" for v
  proof (cases "v \<in> D")
    case True
    then show ?thesis using sched_invD(12) [OF inv] by blast
  next
    case False
    have "sp v = None"
    proof (cases "v \<in> cg_nodes cg")
      case True
      then have "v \<in> skipped_set s" using all False by auto
      then show ?thesis by (rule sched_invD(13) [OF inv])
    next
      case False
      then show ?thesis unfolding sp by (rule spec_states_outside [OF wf])
    qed
    then show ?thesis using sched_invD(14) [OF inv, of v] False run by simp
  qed
  then show ?thesis by auto
qed

end
