(* ===== verification/GraphProps.thy ===== *)
theory GraphProps
  imports GraphRefine
begin

text \<open>The properties of graph runs.\<close>

lemma pos_last: "distinct tr \<Longrightarrow> tr \<noteq> [] \<Longrightarrow> pos tr (last tr) = length tr - 1"
  by (induction tr) (auto simp: pos_def)

lemma Compile_same:
  assumes "Compile ns g = Some (Inr cg)"
  shows "gr_edges (cg_graph cg) = gr_edges g" "gr_nodes (cg_graph cg) = gr_nodes g"
  using assms
  by (auto simp: Compile_def Let_def rebuildIndexes_def split: if_splits option.splits sum.splits)

text \<open>What is known of a compiled graph, and of the loop wherever it is.\<close>

lemma looping_inv:
  assumes wf: "wf_cg cg" and lab: "well_labelled cg"
    and run: "(run_step cg arrival ord)\<^sup>*\<^sup>* (run_start cg init) (Looping s final)"
  obtains tr where "sched_inv cg arrival (spec_states cg arrival ord init) (set tr) {} {} s" "distinct tr"
    "run_trace cg arrival ord init tr (Looping s final)"
    "if tr = [] then final = None else final = spec_states cg arrival ord init (last tr)"
    "\<forall>e \<in> set (cg_edges cg). e_to e \<in> set tr \<longrightarrow> spec_states cg arrival ord init (e_from e) \<noteq> None \<longrightarrow>
       e_from e \<in> set tr \<and> pos tr (e_from e) < pos tr (e_to e)"
proof -
  obtain tr where tr: "run_trace cg arrival ord init tr (Looping s final)"
    using looping_trace [OF run] by blast
  show thesis using trace_inv [OF wf lab refl tr] that [OF _ _ tr] by auto
qed

lemma drain_simps [simp]:
  "drainResults [] r = r"
  "drainResults (d # ds) (e, f) = drainResults ds (if e = None then fst d else e, if f = None then snd d else f)"
  by (auto simp: drainResults_def split: prod.split)

lemma drain_first: "fst (drainResults ds (Some e, f)) = Some e"
  by (induction ds arbitrary: f) auto

lemma drain_ready: "fst (drainResults ds (None, f)) = Some e \<Longrightarrow> \<exists>d \<in> set ds. fst d = Some e"
proof (induction ds arbitrary: f)
  case (Cons d ds)
  then show ?case using drain_first by (cases "fst d") fastforce+
qed simp

text \<open>Each node in flight can be the next to deliver: its result goes on, its error ends the loop.\<close>

lemma inflight_delivers:
  assumes wf: "wf_cg cg" and lab: "well_labelled cg"
    and inv: "sched_inv cg arrival (spec_states cg arrival ord init) D {} {} s" and vp: "(v, p) \<in> set (sc_inflight s)"
  shows "case executeNode cg arrival v p of
      (None, st) \<Rightarrow> \<exists>s'. run_step cg arrival ord (Looping s final) (Looping s' st)
    | (Some e, st) \<Rightarrow> \<exists>f. run_step cg arrival ord (Looping s final) (Returned (Some e) f)"
proof -
  obtain xs ys where infl: "sc_inflight s = xs @ (v, p) # ys" using split_list [OF vp] by blast
  have "v \<in> running_set s" using vp by (force simp: running_set_def)
  then have "v \<in> cg_nodes cg" using sched_invD(5) [OF inv] by blast
  then obtain st where st: "snd (executeNode cg arrival v p) = Some st" using executeNode_Some by blast
  show ?thesis
  proof (cases "fst (executeNode cg arrival v p)")
    case None
    then have ex: "executeNode cg arrival v p = (None, Some st)" using st by (simp add: prod_eq_iff)
    have sp: "spec_states cg arrival ord init v = Some st" using sched_invD(15) [OF inv vp] st by simp
    obtain s' where "complete cg ord v (s\<lparr>sc_inflight := xs @ ys, sc_nodeStates := (sc_nodeStates s)(v \<mapsto> st)\<rparr>) = Some s'"
      using complete_inv [OF wf lab refl inv infl sp] by blast
    from run_ok [OF infl ex this] show ?thesis by (auto simp: ex)
  next
    case (Some e)
    then have ex: "executeNode cg arrival v p = (Some e, Some st)" using st by (simp add: prod_eq_iff)
    have "run_step cg arrival ord (Looping s final) (Returned (Some e) final)"
      by (rule run_err [OF infl ex, of "[]"]) simp_all
    then show ?thesis by (auto simp: ex)
  qed
qed

text \<open>Where an error the loop returns comes from.\<close>

lemma returned_error:
  assumes "run_step cg arrival ord (Looping s final) (Returned err f)"
  shows "err = None \<and> sc_inflight s = [] \<and> f = final \<or> sc_inflight s \<noteq> [] \<and> (err = Some (Sentinel CtxCanceled) \<or>
    (\<exists>(v, p) \<in> set (sc_inflight s). err \<noteq> None \<and> fst (executeNode cg arrival v p) = err))"
  using assms
proof (cases rule: run_step.cases)
  case (run_err xs v p ys e st ds)
  then have "err = Some e" using drain_first [of ds e final] by simp
  with run_err(1,2) show ?thesis by (auto intro!: bexI [of _ "(v, p)"])
next
  case (run_cancelled ds e)
  have "set ds \<subseteq> (\<lambda>(w, q). executeNode cg arrival w q) ` set (sc_inflight s)"
    using set_mset_mono [OF run_cancelled(3)] by simp
  then have "\<exists>(v, p) \<in> set (sc_inflight s). fst (executeNode cg arrival v p) = Some x" if "e = Some x" for x
    using that drain_ready [of ds final x] run_cancelled(4) by force
  then show ?thesis using run_cancelled(1,2) by (cases e) auto
qed auto

text \<open>
  C1. A graph run computes the documented run.  However the graph was built, whatever order its nodes
  complete in and whatever its agents answer, when the loop has nothing left in flight the state of every
  node is the one of the sequential run in topological order in which a node executes if some executed
  predecessor leads to it, by a chosen edge where that is a condition, and the subtree behind unchosen branches
  is skipped.  Two conditions on the graph: labels stand on the out-edges of conditions only, and
  (\<open>cascade_free\<close>) a node with a plain in-edge is reached by one of its in-edges.  Without the second the scheduler runs
  the node behind a skipped one (\<open>skip_does_not_cascade\<close>), without the first it loses the target of the labelled edge
  (\<open>labelled_passthrough_stalls\<close>).
\<close>

theorem graph_run_refines:
  assumes "g = build_graph name ops" "distinct ns" "set ns = dom (gr_nodes g)" "Compile ns g = Some (Inr cg)"
    and "well_labelled cg" "cascade_free cg arrival ord init"
    and "(run_step cg arrival ord)\<^sup>*\<^sup>* (run_start cg init) (Looping s final)" "sc_inflight s = []"
  shows "sc_nodeStates s = live_states cg arrival ord init \<and> {v. sc_skipped s v} = set ns - dom (live_states cg arrival ord init)"
proof -
  have wf: "wf_cg cg" by (rule Compile_wf [OF assms(1-4)])
  have nodes: "cg_nodes cg = set ns" using Compile_same [OF assms(4)] assms(3) by simp
  obtain tr where inv: "sched_inv cg arrival (spec_states cg arrival ord init) (set tr) {} {} s"
    by (rule looping_inv [OF wf assms(5,7)])
  note quiet = quiet_states [OF wf refl inv assms(8)]
  have "skipped_set s = cg_nodes cg - set tr"
    using quiet_all_resolved [OF wf inv assms(8)] sched_invD(2) [OF inv] by blast
  then show ?thesis
    unfolding live_is_spec [OF wf assms(6)] using quiet by (simp add: skipped_set_def nodes)
qed

text \<open>
  C2. A graph run never gets stuck and ends.  Labels standing on the out-edges of conditions only, but agents
  and conditions free to fail: after any number \<open>n\<close> of iterations the loop has received the results of \<open>n\<close> different
  nodes, or of \<open>n - 1\<close> and has returned, so that it ends within one iteration more than the graph has nodes.
  As long as it loops, each node in flight can be the next to deliver, a result letting the loop go on and an error ending it with
  that error; with nothing in flight no node was left behind waiting, each either has its state or is skipped,
  the loop can return without an error and can do nothing else.  It returns without an error in no other way: an error is the
  cancellation or the error of a node in flight.
\<close>

theorem graph_run_progress:
  assumes "g = build_graph name ops" "distinct ns" "set ns = dom (gr_nodes g)" "Compile ns g = Some (Inr cg)"
    and "well_labelled cg" "(run_step cg arrival ord ^^ n) (run_start cg init) c"
  shows "n \<le> length ns + 1 \<and> (case c of Returned err f \<Rightarrow> True | Looping s final \<Rightarrow>
    (\<forall>v p. (v, p) \<in> set (sc_inflight s) \<longrightarrow> (case executeNode cg arrival v p of
       (None, st) \<Rightarrow> \<exists>s'. run_step cg arrival ord c (Looping s' st)
     | (Some e, st) \<Rightarrow> \<exists>f. run_step cg arrival ord c (Returned (Some e) f))) \<and>
    (sc_inflight s = [] \<longrightarrow> (\<forall>v \<in> set ns. sc_nodeStates s v = None \<longleftrightarrow> sc_skipped s v) \<and>
       (\<forall>c'. run_step cg arrival ord c c' \<longleftrightarrow> c' = Returned None final)) \<and>
    (\<forall>err f. run_step cg arrival ord c (Returned err f) \<longrightarrow>
       err = None \<and> sc_inflight s = [] \<or> err = Some (Sentinel CtxCanceled) \<or>
       (\<exists>(v, p) \<in> set (sc_inflight s). err \<noteq> None \<and> fst (executeNode cg arrival v p) = err)))"
proof -
  have wf: "wf_cg cg" by (rule Compile_wf [OF assms(1-4)])
  have nodes: "cg_nodes cg = set ns" using Compile_same [OF assms(4)] assms(3) by simp
  have len: "length tr \<le> length ns" if t: "run_trace cg arrival ord init tr c'" for tr c'
  proof -
    obtain s where inv: "sched_inv cg arrival (spec_states cg arrival ord init) (set tr) {} {} s" "distinct tr"
      using trace_inv [OF wf assms(5) refl t] by auto
    then have "set tr \<subseteq> set ns" using sched_invD(5) [OF inv(1)] nodes by blast
    then show ?thesis using card_mono [of "set ns" "set tr"] inv(2) assms(2) by (simp add: distinct_card)
  qed
  show ?thesis
  proof (cases c)
    case (Returned err f)
    then show ?thesis using steps_trace [OF assms(6)] len by fastforce
  next
    case (Looping s final)
    have run: "(run_step cg arrival ord)\<^sup>*\<^sup>* (run_start cg init) (Looping s final)"
      using relpowp_imp_rtranclp [OF assms(6)] Looping by simp
    obtain tr where inv: "sched_inv cg arrival (spec_states cg arrival ord init) (set tr) {} {} s"
      by (rule looping_inv [OF wf assms(5) run])
    have "n \<le> length ns + 1" using steps_trace [OF assms(6)] len Looping by fastforce
    moreover have "sc_nodeStates s v = None \<longleftrightarrow> sc_skipped s v" if "sc_inflight s = []" "v \<in> set ns" for v
      using quiet_all_resolved [OF wf inv that(1)] quiet_states [OF wf refl inv that(1)] that(2)
        sched_invD(2) [OF inv] sched_invD(12) [OF inv, of v] sched_invD(13) [OF inv, of v]
      by (auto simp: nodes skipped_set_def)
    moreover have "run_step cg arrival ord c c' \<longleftrightarrow> c' = Returned None final" if "sc_inflight s = []" for c'
      using that run_return [of s cg arrival ord final] by (auto simp: Looping elim: run_stepE)
    moreover have "case executeNode cg arrival v p of
       (None, st) \<Rightarrow> \<exists>s'. run_step cg arrival ord c (Looping s' st)
     | (Some e, st) \<Rightarrow> \<exists>f. run_step cg arrival ord c (Returned (Some e) f)" if "(v, p) \<in> set (sc_inflight s)" for v p
      using inflight_delivers [OF wf assms(5) inv that, of final] unfolding Looping .
    moreover have "err = None \<and> sc_inflight s = [] \<or> err = Some (Sentinel CtxCanceled) \<or>
       (\<exists>(v, p) \<in> set (sc_inflight s). err \<noteq> None \<and> fst (executeNode cg arrival v p) = err)"
      if "run_step cg arrival ord c (Returned err f)" for err f
      using returned_error [OF that [unfolded Looping]] by blast
    ultimately show ?thesis unfolding Looping by (simp only: run_config.case) blast
  qed
qed

text \<open>
  C12. Nodes execute at most once and in dependency order.  Labels standing on the out-edges of conditions only,
  in every run, also one in which nodes fail or that is cancelled later, the nodes whose results the loop has received are
  distinct and at most as many as the graph has, and each comes after all its predecessors: those that
  are not skipped have delivered before it.
\<close>

theorem graph_run_order:
  assumes "g = build_graph name ops" "distinct ns" "set ns = dom (gr_nodes g)" "Compile ns g = Some (Inr cg)"
    and "well_labelled cg" "run_trace cg arrival ord init tr (Looping s final)"
  shows "distinct tr \<and> length tr \<le> length ns \<and> set tr \<subseteq> set ns \<and>
    (\<forall>e \<in> set (gr_edges g). e_to e \<in> set tr \<longrightarrow>
       sc_skipped s (e_from e) \<or> e_from e \<in> set tr \<and> pos tr (e_from e) < pos tr (e_to e))"
proof -
  have wf: "wf_cg cg" by (rule Compile_wf [OF assms(1-4)])
  have same: "cg_edges cg = gr_edges g" "cg_nodes cg = set ns"
    using Compile_same [OF assms(4)] assms(3) by simp_all
  let ?sp = "spec_states cg arrival ord init"
  obtain inv: "sched_inv cg arrival ?sp (set tr) {} {} s" and d: "distinct tr"
    and o: "\<forall>e \<in> set (cg_edges cg). e_to e \<in> set tr \<longrightarrow> ?sp (e_from e) \<noteq> None \<longrightarrow>
       e_from e \<in> set tr \<and> pos tr (e_from e) < pos tr (e_to e)"
    using trace_inv [OF wf assms(5) refl assms(6)] by auto
  have nodes: "set tr \<subseteq> set ns" using sched_invD(5) [OF inv] same by blast
  then have "length tr \<le> length ns"
    using card_mono [of "set ns" "set tr"] d assms(2) by (simp add: distinct_card)
  moreover have "sc_skipped s (e_from e) \<or> ?sp (e_from e) \<noteq> None"
    if e: "e \<in> set (cg_edges cg)" "e_to e \<in> set tr" for e
  proof -
    have "e_to e \<in> cg_nodes cg" "e \<in> set (cg_inEdges cg (e_to e))" using e wf_cg_D(4,7) [OF wf] by auto
    then have "resolved (set tr) {} s e" using sched_invD(10) [OF inv, of "e_to e"] e(2) by blast
    then show ?thesis using sched_invD(12) [OF inv, of "e_from e"] by (auto simp: resolved_def skipped_set_def)
  qed
  ultimately show ?thesis using d o nodes same by metis
qed

text \<open>
  One final node makes the result deterministic.  If a node \<open>t\<close> executes and every other node that
  executes has an edge to one that executes, then every run that ends returns the state of \<open>t\<close>.
\<close>

theorem graph_result_deterministic:
  assumes "g = build_graph name ops" "distinct ns" "set ns = dom (gr_nodes g)" "Compile ns g = Some (Inr cg)"
    and "well_labelled cg" "cascade_free cg arrival ord init"
    and "t \<in> dom (live_states cg arrival ord init)"
    and "\<forall>v \<in> dom (live_states cg arrival ord init) - {t}.
      \<exists>e \<in> set (cg_edges cg). e_from e = v \<and> e_to e \<in> dom (live_states cg arrival ord init)"
    and "(run_step cg arrival ord)\<^sup>*\<^sup>* (run_start cg init) (Looping s final)" "sc_inflight s = []"
  shows "final = live_states cg arrival ord init t"
proof -
  have wf: "wf_cg cg" by (rule Compile_wf [OF assms(1-4)])
  note spec = live_is_spec [OF wf assms(6)]
  let ?sp = "spec_states cg arrival ord init"
  obtain tr where tr: "sched_inv cg arrival ?sp (set tr) {} {} s" "distinct tr"
    "if tr = [] then final = None else final = ?sp (last tr)"
    "\<forall>e \<in> set (cg_edges cg). e_to e \<in> set tr \<longrightarrow> ?sp (e_from e) \<noteq> None \<longrightarrow>
       e_from e \<in> set tr \<and> pos tr (e_from e) < pos tr (e_to e)"
    by (rule looping_inv [OF wf assms(5,9)])
  have dom: "set tr = dom ?sp" using quiet_states [OF wf refl tr(1) assms(10)] by simp
  then have ne: "tr \<noteq> []" using assms(7) by (auto simp: spec)
  have "last tr = t"
  proof (rule ccontr)
    assume "last tr \<noteq> t"
    then have "last tr \<in> dom ?sp - {t}" using dom ne by auto
    from bspec [OF assms(8) [unfolded spec] this] obtain e where e: "e \<in> set (cg_edges cg)" "e_from e = last tr" "e_to e \<in> set tr"
      unfolding dom by blast
    then have "pos tr (last tr) < pos tr (e_to e)" using tr(4) dom ne by (metis domD last_in_set option.distinct(1))
    moreover have "pos tr (e_to e) < length tr" using pos_less [OF e(3)] .
    ultimately show False using pos_last [OF tr(2) ne] by simp
  qed
  then show ?thesis using tr(3) ne by (simp add: spec)
qed

section \<open>Concrete runs\<close>

text \<open>The run in which the nodes \<open>vs\<close> complete in that order.\<close>

fun deliver ::
  "compiled \<Rightarrow> (nid \<Rightarrow> nat \<Rightarrow> nat list) \<Rightarrow> (graph_state \<Rightarrow> string list) \<Rightarrow> nid list \<Rightarrow> sched \<times> graph_state option \<Rightarrow>
   (sched \<times> graph_state option) option" where
  "deliver cg arrival ord [] c = Some c"
| "deliver cg arrival ord (v # vs) (s, final) =
     (case dropWhile (\<lambda>x. fst x \<noteq> v) (sc_inflight s) of
        [] \<Rightarrow> None
      | (w, p) # ys \<Rightarrow>
          (case executeNode cg arrival v p of
             (None, Some st) \<Rightarrow>
               (case complete cg ord v (s\<lparr>sc_inflight := takeWhile (\<lambda>x. fst x \<noteq> v) (sc_inflight s) @ ys,
                                         sc_nodeStates := (sc_nodeStates s)(v \<mapsto> st)\<rparr>) of
                  None \<Rightarrow> None
                | Some s' \<Rightarrow> deliver cg arrival ord vs (s', Some st))
           | _ \<Rightarrow> None))"

lemma deliver_trace:
  "deliver cg arrival ord vs (s, final) = Some (s', final') \<Longrightarrow> run_trace cg arrival ord init tr (Looping s final) \<Longrightarrow>
   run_trace cg arrival ord init (tr @ vs) (Looping s' final')"
proof (induction vs arbitrary: s final tr)
  case Nil
  then show ?case by simp
next
  case (Cons v vs)
  obtain w p ys where d: "dropWhile (\<lambda>x. fst x \<noteq> v) (sc_inflight s) = (w, p) # ys"
    using Cons.prems by (auto split: list.splits)
  note split = iffD1 [OF dropWhile_eq_Cons_conv d]
  then have w: "w = v" by simp
  let ?xs = "takeWhile (\<lambda>x. fst x \<noteq> v) (sc_inflight s)"
  have infl: "sc_inflight s = ?xs @ (v, p) # ys" using split w by simp
  obtain st where ex: "executeNode cg arrival v p = (None, Some st)"
    using Cons.prems d by (auto split: prod.splits option.splits)
  obtain s2 where c: "complete cg ord v (s\<lparr>sc_inflight := ?xs @ ys, sc_nodeStates := (sc_nodeStates s)(v \<mapsto> st)\<rparr>) = Some s2"
    using Cons.prems d ex by (auto split: option.splits)
  have "run_trace cg arrival ord init (tr @ [v]) (Looping s2 (Some st))"
    by (rule rt_ok [OF Cons.prems(2) infl ex c])
  then show ?case using Cons.IH [of s2 "Some st" "tr @ [v]"] Cons.prems(1) d ex c by simp
qed

lemma trace_steps:
  "run_trace cg arrival ord init tr c \<Longrightarrow> (run_step cg arrival ord ^^ length tr) (run_start cg init) c"
proof (induction rule: run_trace.induct)
  case (rt_ok tr s final xs v p ys st s')
  then show ?case using run_ok [OF rt_ok.hyps(2-4)] by auto
qed simp

lemma deliver_steps:
  assumes "deliver cg arrival ord vs (startEntries cg init (newScheduler cg), None) = Some (s', final')"
  shows "(run_step cg arrival ord)\<^sup>*\<^sup>* (run_start cg init) (Looping s' final')"
  using trace_steps [OF deliver_trace [OF assms, of init "[]"]] rt_start [of cg arrival ord init]
  by (auto simp: run_start_def intro: relpowp_imp_rtranclp)

lemmas graph_eval = build_graph_def graph_exec_def AddAgentNode_def AddPassthroughNode_def AddConditionNode_def
  AddLabeledEdge_def put_node_def NewGraph_def Let_def Compile_def rebuildIndexes_def topoSort_def

lemmas run_eval = startEntries_def newScheduler_def condInCount_def is_cond_def gn_kind_def executeNode_def
  runNodeKind_def runAgentNode_def runConditionNode_def runPassthroughNode_def complete_def sched_fuel_def
  hasLabeledOut_def branch_of_def collectPredecessorState_def join_states_def upd_count_def put_def
  gs_Get_def Fork_def NewGraphState_def echo_agent_def Let_def eval_nat_numeral

subsection \<open>One node\<close>

definition one_node :: "graph_op list" where
  "one_node = [GAgent ''a'' echo_agent []]"

definition one_cg :: compiled where
  "one_cg = \<lparr>cg_graph = \<lparr>gr_name = [], gr_nodes = [''a'' \<mapsto> \<lparr>gn_id = ''a'', gn_body = BodyAgent echo_agent, gn_maxRetries = 0\<rparr>],
      gr_edges = [], gr_outEdges = (\<lambda>_. []), gr_inEdges = (\<lambda>_. []), gr_dirty = False\<rparr>,
    cg_topoOrder = [''a''], cg_inDegree = (\<lambda>_. 0), cg_outEdges = (\<lambda>_. []), cg_inEdges = (\<lambda>_. [])\<rparr>"

abbreviation "no_arrival \<equiv> (\<lambda>(_ :: nid) (_ :: nat). [] :: nat list)"
abbreviation "no_order \<equiv> (\<lambda>_ :: graph_state. [] :: string list)"

lemma one_cg_facts:
  "distinct [''a'']" "set [''a''] = dom (gr_nodes (build_graph [] one_node))"
  "Compile [''a''] (build_graph [] one_node) = Some (Inr one_cg)" "well_labelled one_cg"
  "cascade_free one_cg no_arrival no_order NewGraphState"
  "dom (live_states one_cg no_arrival no_order NewGraphState) = {''a''}"
  by (simp_all add: one_node_def one_cg_def graph_eval well_labelled_def cascade_free_def live_states_def
      live_step_def node_live_def node_parent_def run_eval)

lemma one_cg_run:
  obtains s final where "(run_step one_cg no_arrival no_order)\<^sup>*\<^sup>* (run_start one_cg NewGraphState) (Looping s final)"
    "sc_inflight s = []" "\<exists>st. final = Some st \<and> gs_Get ''output'' st = Some (AnyStr ''ok'')"
proof -
  let ?s0 = "startEntries one_cg NewGraphState (newScheduler one_cg)"
  have "\<exists>s final. deliver one_cg no_arrival no_order [''a''] (?s0, None) = Some (s, final) \<and> sc_inflight s = [] \<and>
      (\<exists>st. final = Some st \<and> gs_Get ''output'' st = Some (AnyStr ''ok''))"
    by (simp add: one_cg_def run_eval)
  then show thesis using that deliver_steps by blast
qed

theorem graph_result_deterministic_witness:
  "\<exists>s. sc_inflight s = [] \<and> (run_step one_cg no_arrival no_order)\<^sup>*\<^sup>* (run_start one_cg NewGraphState)
     (Looping s (live_states one_cg no_arrival no_order NewGraphState ''a''))"
proof -
  obtain s final where r: "(run_step one_cg no_arrival no_order)\<^sup>*\<^sup>* (run_start one_cg NewGraphState) (Looping s final)"
    "sc_inflight s = []"
    by (rule one_cg_run)
  have "final = live_states one_cg no_arrival no_order NewGraphState ''a''"
    by (rule graph_result_deterministic [OF refl one_cg_facts(1-5) _ _ r]) (simp_all add: one_cg_facts(6))
  with r show ?thesis by blast
qed

subsection \<open>A fork and a join\<close>

definition pick_y :: condition_fn where
  "pick_y = (\<lambda>attempt s. Inr ''y'')"

text \<open>The condition \<open>c\<close> chooses \<open>b\<close> over \<open>a\<close>; both lead to \<open>j\<close>.\<close>

definition fork_join :: "graph_op list" where
  "fork_join = [GCondition ''c'' (Some pick_y) [], GAgent ''a'' echo_agent [], GAgent ''b'' echo_agent [],
      GAgent ''j'' echo_agent [], GEdge ''c'' ''a'' ''x'', GEdge ''c'' ''b'' ''y'', GEdge ''a'' ''j'' [], GEdge ''b'' ''j'' []]"

abbreviation "fork_nodes \<equiv> [''c'', ''a'', ''b'', ''j'']"

lemma fork_run:
  obtains cg s st where "Compile fork_nodes (build_graph [] fork_join) = Some (Inr cg)" "well_labelled cg"
    "cascade_free cg no_arrival no_order NewGraphState"
    "run_trace cg no_arrival no_order NewGraphState [''c'', ''b'', ''j''] (Looping s (Some st))"
    "sc_inflight s = []" "sc_skipped s ''a''" "gs_Get ''output'' st = Some (AnyStr ''ok'')"
proof -
  have "\<exists>cg. Compile fork_nodes (build_graph [] fork_join) = Some (Inr cg) \<and> well_labelled cg \<and>
      cascade_free cg no_arrival no_order NewGraphState \<and>
      (\<exists>s st. deliver cg no_arrival no_order [''c'', ''b'', ''j''] (startEntries cg NewGraphState (newScheduler cg), None) = Some (s, Some st) \<and>
        sc_inflight s = [] \<and> sc_skipped s ''a'' \<and> gs_Get ''output'' st = Some (AnyStr ''ok''))"
    by (simp add: fork_join_def graph_eval run_eval pick_y_def well_labelled_def cascade_free_def live_states_def
        live_step_def node_live_def node_parent_def)
  then obtain cg s st where r: "Compile fork_nodes (build_graph [] fork_join) = Some (Inr cg)" "well_labelled cg"
    "cascade_free cg no_arrival no_order NewGraphState"
    "deliver cg no_arrival no_order [''c'', ''b'', ''j''] (startEntries cg NewGraphState (newScheduler cg), None) = Some (s, Some st)"
    "sc_inflight s = []" "sc_skipped s ''a''" "gs_Get ''output'' st = Some (AnyStr ''ok'')"
    by blast
  have "run_trace cg no_arrival no_order NewGraphState [''c'', ''b'', ''j''] (Looping s (Some st))"
    using deliver_trace [OF r(4), of NewGraphState "[]"] rt_start [of cg no_arrival no_order NewGraphState]
    by (simp add: run_start_def)
  from that [OF r(1-3) this r(5-7)] show thesis .
qed

lemma fork_nodes: "distinct fork_nodes" "set fork_nodes = dom (gr_nodes (build_graph [] fork_join))"
  by (auto simp: fork_join_def graph_eval)

theorem graph_run_refines_witness:
  "\<exists>cg s st. Compile fork_nodes (build_graph [] fork_join) = Some (Inr cg) \<and>
     (run_step cg no_arrival no_order)\<^sup>*\<^sup>* (run_start cg NewGraphState) (Looping s (Some st)) \<and> sc_inflight s = [] \<and>
     gs_Get ''output'' st = Some (AnyStr ''ok'') \<and> sc_skipped s ''a'' \<and>
     sc_nodeStates s = live_states cg no_arrival no_order NewGraphState \<and>
     dom (live_states cg no_arrival no_order NewGraphState) \<inter> {''a'', ''b'', ''j''} \<subseteq> {''b'', ''j''}"
proof -
  obtain cg s st where r: "Compile fork_nodes (build_graph [] fork_join) = Some (Inr cg)" "well_labelled cg"
    "cascade_free cg no_arrival no_order NewGraphState"
    "run_trace cg no_arrival no_order NewGraphState [''c'', ''b'', ''j''] (Looping s (Some st))"
    "sc_inflight s = []" "sc_skipped s ''a''" "gs_Get ''output'' st = Some (AnyStr ''ok'')"
    by (rule fork_run)
  have steps: "(run_step cg no_arrival no_order)\<^sup>*\<^sup>* (run_start cg NewGraphState) (Looping s (Some st))"
    by (rule relpowp_imp_rtranclp [OF trace_steps [OF r(4)]])
  have "sc_nodeStates s = live_states cg no_arrival no_order NewGraphState \<and>
      {v. sc_skipped s v} = set fork_nodes - dom (live_states cg no_arrival no_order NewGraphState)"
    by (rule graph_run_refines [OF refl fork_nodes r(1-3) steps r(5)])
  then show ?thesis using r steps by (intro exI [of _ cg] exI [of _ s] exI [of _ st]) blast
qed

theorem graph_run_progress_witness:
  "\<exists>cg s st. Compile fork_nodes (build_graph [] fork_join) = Some (Inr cg) \<and>
     (run_step cg no_arrival no_order ^^ 3) (run_start cg NewGraphState) (Looping s (Some st)) \<and>
     sc_skipped s ''a'' \<and> sc_nodeStates s ''a'' = None \<and>
     (\<forall>c'. run_step cg no_arrival no_order (Looping s (Some st)) c' \<longleftrightarrow> c' = Returned None (Some st))"
proof -
  obtain cg s st where r: "Compile fork_nodes (build_graph [] fork_join) = Some (Inr cg)" "well_labelled cg"
    "run_trace cg no_arrival no_order NewGraphState [''c'', ''b'', ''j''] (Looping s (Some st))"
    "sc_inflight s = []" "sc_skipped s ''a''"
    by (rule fork_run)
  have steps: "(run_step cg no_arrival no_order ^^ 3) (run_start cg NewGraphState) (Looping s (Some st))"
    using trace_steps [OF r(3)] by (simp add: eval_nat_numeral)
  from graph_run_progress [OF refl fork_nodes r(1,2) steps] show ?thesis
    using r(1,4,5) steps by (intro exI [of _ cg] exI [of _ s] exI [of _ st]) simp
qed

theorem graph_run_order_witness:
  "\<exists>cg s st. Compile fork_nodes (build_graph [] fork_join) = Some (Inr cg) \<and>
     run_trace cg no_arrival no_order NewGraphState [''c'', ''b'', ''j''] (Looping s (Some st)) \<and>
     length [''c'', ''b'', ''j''] \<le> length fork_nodes \<and>
     (\<forall>e \<in> set (gr_edges (build_graph [] fork_join)). e_to e = ''j'' \<longrightarrow>
        sc_skipped s (e_from e) \<or> e_from e \<in> {''c'', ''b'', ''j''} \<and> pos [''c'', ''b'', ''j''] (e_from e) < 2)"
proof -
  obtain cg s st where r: "Compile fork_nodes (build_graph [] fork_join) = Some (Inr cg)" "well_labelled cg"
    "run_trace cg no_arrival no_order NewGraphState [''c'', ''b'', ''j''] (Looping s (Some st))"
    by (rule fork_run)
  have "pos [''c'', ''b'', ''j''] ''j'' = 2" by (simp add: pos_def)
  with graph_run_order [OF refl fork_nodes r] r(1,3) show ?thesis
    by (intro exI [of _ cg] exI [of _ s] exI [of _ st]) (auto simp: fork_nodes)
qed

subsection \<open>Where the scheduler deviates\<close>

definition labelled_graph :: "graph_op list" where
  "labelled_graph =
     [GPassthrough ''p'' (Some (\<lambda>attempt s. (None, put ''branch'' (AnyStr ''ok'') ''p'' s))) [],
      GAgent ''b'' echo_agent [], GEdge ''p'' ''b'' ''ok'']"

text \<open>
  A labelled edge of a passthrough node is never taken.  This is the use interrupt nodes are
  documented for: the node records the branch of its labelled edge and completes; the loop then has
  nothing in flight and returns without an error, and the chosen target, whose counter of plain
  predecessors stays at one, has not run.
\<close>

theorem labelled_passthrough_stalls:
  "\<exists>cg s st. Compile [''p'', ''b''] (build_graph [] labelled_graph) = Some (Inr cg) \<and>
     (run_step cg no_arrival no_order)\<^sup>*\<^sup>* (run_start cg NewGraphState) (Looping s (Some st)) \<and>
     run_step cg no_arrival no_order (Looping s (Some st)) (Returned None (Some st)) \<and>
     gs_Get ''branch'' st = Some (AnyStr ''ok'') \<and>
     sc_nodeStates s ''b'' = None \<and> \<not> sc_skipped s ''b'' \<and> sc_remaining s ''b'' = 1"
proof -
  have "\<exists>cg s st. Compile [''p'', ''b''] (build_graph [] labelled_graph) = Some (Inr cg) \<and>
     deliver cg no_arrival no_order [''p''] (startEntries cg NewGraphState (newScheduler cg), None) = Some (s, Some st) \<and>
     sc_inflight s = [] \<and> gs_Get ''branch'' st = Some (AnyStr ''ok'') \<and>
     sc_nodeStates s ''b'' = None \<and> \<not> sc_skipped s ''b'' \<and> sc_remaining s ''b'' = 1"
    by (simp add: labelled_graph_def graph_eval run_eval)
  then show ?thesis using deliver_steps run_return by blast
qed

definition orphan_graph :: "graph_op list" where
  "orphan_graph =
     [GCondition ''c'' (Some (\<lambda>attempt s. Inr ''y'')) [], GAgent ''a'' echo_agent [], GAgent ''b'' echo_agent [],
      GAgent ''d'' echo_agent [], GEdge ''c'' ''a'' ''x'', GEdge ''a'' ''b'' [], GEdge ''c'' ''d'' ''y'']"

text \<open>
  Skipping does not cascade past one node.  In a chain behind the unchosen branch of a
  condition only the first node is skipped: its successor is launched, and on no parent state, so that it
  runs on a fresh empty state without the input of the run.
\<close>

theorem skip_does_not_cascade:
  "\<exists>cg s st. Compile [''c'', ''a'', ''b'', ''d''] (build_graph [] orphan_graph) = Some (Inr cg) \<and>
     (run_step cg no_arrival no_order)\<^sup>*\<^sup>* (run_start cg NewGraphState) (Looping s (Some st)) \<and>
     sc_skipped s ''a'' \<and> (''b'', None) \<in> set (sc_inflight s)"
proof -
  have "\<exists>cg s st. Compile [''c'', ''a'', ''b'', ''d''] (build_graph [] orphan_graph) = Some (Inr cg) \<and>
     deliver cg no_arrival no_order [''c''] (startEntries cg NewGraphState (newScheduler cg), None) = Some (s, Some st) \<and>
     sc_skipped s ''a'' \<and> (''b'', None) \<in> set (sc_inflight s)"
    by (simp add: orphan_graph_def graph_eval run_eval)
  then show ?thesis using deliver_steps by blast
qed

definition say_agent :: "string \<Rightarrow> agent_fn" where
  "say_agent x attempt inp = \<lparr>ar_content = x, ar_messages = [], ar_usage = None, ar_err = None\<rparr>"

definition two_sinks :: "graph_op list" where
  "two_sinks = [GAgent ''a'' (say_agent ''A'') [], GAgent ''b'' (say_agent ''B'') []]"

text \<open>
  Two final nodes race for the result.  A graph of two independent agents returns the output
  of whichever finishes last: one schedule returns one agent's output, another the other's.
\<close>

theorem two_sinks_race:
  "\<exists>cg s s' f f'. Compile [''a'', ''b''] (build_graph [] two_sinks) = Some (Inr cg) \<and>
     (run_step cg no_arrival no_order)\<^sup>*\<^sup>* (run_start cg NewGraphState) (Looping s f) \<and> sc_inflight s = [] \<and>
     (run_step cg no_arrival no_order)\<^sup>*\<^sup>* (run_start cg NewGraphState) (Looping s' f') \<and> sc_inflight s' = [] \<and>
     ar_content (run_result None f) = ''B'' \<and> ar_content (run_result None f') = ''A''"
proof -
  have "\<exists>cg s s' f f'. Compile [''a'', ''b''] (build_graph [] two_sinks) = Some (Inr cg) \<and>
     deliver cg no_arrival no_order [''a'', ''b''] (startEntries cg NewGraphState (newScheduler cg), None) = Some (s, f) \<and>
     sc_inflight s = [] \<and>
     deliver cg no_arrival no_order [''b'', ''a''] (startEntries cg NewGraphState (newScheduler cg), None) = Some (s', f') \<and>
     sc_inflight s' = [] \<and> ar_content (run_result None f) = ''B'' \<and> ar_content (run_result None f') = ''A''"
    by (simp add: two_sinks_def graph_eval run_eval say_agent_def run_result_def gs_GetString_def)
  then show ?thesis using deliver_steps by blast
qed

end
