(* ===== verification/Messages.thy ===== *)
theory Messages
  imports GoErrors GoStrings "HOL-Library.List_Lexorder" "HOL-Library.Char_ord"
begin

text \<open>
  The conversation data of \<open>core/types/message.go\<close> and \<open>core/types/content.go\<close>: messages, tool
  calls, token usage and the token estimate; the message-list helpers of the runtime and the
  engine (\<open>collapseSystem\<close>, \<open>lastContent\<close>, \<open>accumulateUsage\<close>), the single-system audit of
  \<open>module/msgcheck\<close>, and the JSON error payloads of the tool messages.

  A message list holds pointers that may be nil, so it is a list of options.  A \<open>Role\<close> and a
  \<open>ContentType\<close> are Go strings.  A nil slice of content parts is told from an empty one, because
  the tool-result hooks tell them apart.
\<close>

section \<open>Data\<close>

abbreviation (input) RoleSystem :: string where "RoleSystem \<equiv> ''system''"
abbreviation (input) RoleUser :: string where "RoleUser \<equiv> ''user''"
abbreviation (input) RoleAssistant :: string where "RoleAssistant \<equiv> ''assistant''"
abbreviation (input) RoleTool :: string where "RoleTool \<equiv> ''tool''"

record content_part =
  cp_type :: string
  cp_text :: string
  cp_imageURL :: string
  cp_imageData :: "(string \<times> string \<times> string) option"
  cp_audioData :: "(string \<times> string) option"
  cp_videoData :: "(string \<times> string) option"
  cp_fileData :: "(string \<times> string \<times> string) option"

record tool_call =
  tc_id :: string
  tc_type :: string
  tc_name :: string
  tc_args :: string
  tc_index :: "int option"

record message =
  msg_role :: string
  msg_content :: string
  msg_parts :: "content_part list option"
  msg_reasoning :: string
  msg_toolCalls :: "tool_call list"
  msg_toolCallID :: string
  msg_toolName :: string

type_synonym messages = "message option list"

definition blank_message :: "string \<Rightarrow> string \<Rightarrow> message" where
  "blank_message role content =
     \<lparr>msg_role = role, msg_content = content, msg_parts = None, msg_reasoning = [],
      msg_toolCalls = [], msg_toolCallID = [], msg_toolName = []\<rparr>"

definition NewSystemMessage :: "string \<Rightarrow> message" where
  "NewSystemMessage content = blank_message RoleSystem content"

definition NewUserMessage :: "string \<Rightarrow> message" where
  "NewUserMessage content = blank_message RoleUser content"

definition NewAssistantMessage :: "string \<Rightarrow> message" where
  "NewAssistantMessage content = blank_message RoleAssistant content"

definition NewToolMessage :: "string \<Rightarrow> string \<Rightarrow> string \<Rightarrow> message" where
  "NewToolMessage content toolCallID toolName =
     (blank_message RoleTool content)\<lparr>msg_toolCallID := toolCallID, msg_toolName := toolName\<rparr>"

lemmas new_message_defs [go_defs] =
  NewSystemMessage_def NewUserMessage_def NewAssistantMessage_def NewToolMessage_def blank_message_def

record token_usage =
  PromptTokens :: int
  CompletionTokens :: int
  TotalTokens :: int

section \<open>Token estimate\<close>

definition is_cjk :: "nat \<Rightarrow> bool" where
  "is_cjk r = (0x4E00 \<le> r \<and> r \<le> 0x9FFF)"

definition weightedRuneCount :: "string \<Rightarrow> nat" where
  "weightedRuneCount s = (let rs = runes s in length rs + 3 * length (filter is_cjk rs))"

text \<open>The weight of one content part: an image part without its data makes Go panic (\<open>None\<close>).\<close>

definition part_weight :: "content_part \<Rightarrow> nat option" where
  "part_weight p =
     (if cp_type p = ''text'' then Some (weightedRuneCount (cp_text p))
      else if cp_type p = ''image_url'' then Some (weightedRuneCount (cp_imageURL p) + 50)
      else if cp_type p = ''image_data''
           then (case cp_imageData p of None \<Rightarrow> None | Some (d, _, _) \<Rightarrow> Some (length d div 4))
      else Some 50)"

fun parts_weight :: "content_part list \<Rightarrow> nat option" where
  "parts_weight [] = Some 0"
| "parts_weight (p # ps) =
     (case part_weight p of None \<Rightarrow> None
      | Some a \<Rightarrow> map_option (\<lambda>b. a + b) (parts_weight ps))"

definition message_weight :: "message \<Rightarrow> nat option" where
  "message_weight m =
     map_option
       (\<lambda>body. body + weightedRuneCount (msg_reasoning m)
               + sum_list (map (\<lambda>tc. weightedRuneCount (tc_name tc) + weightedRuneCount (tc_args tc))
                              (msg_toolCalls m)) + 12)
       (case msg_parts m of
          Some (p # ps) \<Rightarrow> parts_weight (p # ps)
        | _ \<Rightarrow> Some (weightedRuneCount (msg_content m)))"

fun messages_weight :: "messages \<Rightarrow> nat option" where
  "messages_weight [] = Some 0"
| "messages_weight (None # ms) = messages_weight ms"
| "messages_weight (Some m # ms) =
     (case message_weight m of None \<Rightarrow> None
      | Some a \<Rightarrow> map_option (\<lambda>b. a + b) (messages_weight ms))"

definition EstimateTokens :: "messages \<Rightarrow> nat option" where
  "EstimateTokens msgs = map_option (\<lambda>total. total div 4) (messages_weight msgs)"

section \<open>Message lists\<close>

abbreviation is_system :: "message option \<Rightarrow> bool" where
  "is_system m \<equiv> (case m of None \<Rightarrow> False | Some x \<Rightarrow> msg_role x = RoleSystem)"

text \<open>The two slices the loop of \<open>collapseSystem\<close> fills.\<close>

fun split_system :: "messages \<Rightarrow> string list \<times> messages" where
  "split_system [] = ([], [])"
| "split_system (m # ms) =
     (case split_system ms of (sections, others) \<Rightarrow>
        (case m of
           Some x \<Rightarrow> (if msg_role x = RoleSystem
                     then ((if msg_content x \<noteq> [] then msg_content x # sections else sections), others)
                     else (sections, m # others))
         | None \<Rightarrow> (sections, m # others)))"

definition collapseSystem :: "messages \<Rightarrow> messages" where
  "collapseSystem msgs =
     (case split_system msgs of (sections, others) \<Rightarrow>
        if sections = [] then msgs
        else Some (NewSystemMessage (join_strings [CHR 0x0A, CHR 0x0A] sections)) # others)"

text \<open>\<open>validateSingleSystem\<close> of \<open>module/msgcheck\<close>: the index of the first misplaced system message.\<close>

fun validate_from :: "nat \<Rightarrow> messages \<Rightarrow> nat option" where
  "validate_from i [] = None"
| "validate_from i (m # ms) =
     (if is_system m \<and> i \<noteq> 0 then Some i else validate_from (Suc i) ms)"

definition validateSingleSystem :: "messages \<Rightarrow> go_error option" where
  "validateSingleSystem msgs =
     map_option (\<lambda>i. Errorf ''msgcheck: system message at index (must be index 0)'')
       (validate_from 0 msgs)"

definition lastContent :: "messages \<Rightarrow> string" where
  "lastContent msgs =
     (case find (\<lambda>m. case m of None \<Rightarrow> False
                     | Some x \<Rightarrow> msg_role x = RoleAssistant \<and> msg_content x \<noteq> []) (rev msgs) of
        Some (Some x) \<Rightarrow> msg_content x
      | _ \<Rightarrow> [])"

definition accumulateUsage :: "token_usage option \<Rightarrow> token_usage option \<Rightarrow> token_usage option" where
  "accumulateUsage tot add =
     (case add of
        None \<Rightarrow> tot
      | Some a \<Rightarrow>
         (case tot of
            None \<Rightarrow> Some \<lparr>PromptTokens = PromptTokens a, CompletionTokens = CompletionTokens a,
                          TotalTokens = TotalTokens a\<rparr>
          | Some t \<Rightarrow> Some \<lparr>PromptTokens = PromptTokens t + PromptTokens a,
                          CompletionTokens = CompletionTokens t + CompletionTokens a,
                          TotalTokens = TotalTokens t + TotalTokens a\<rparr>))"

subsection \<open>Collapsing the system messages\<close>

lemma split_system_eq:
  "split_system ms =
     (filter (\<lambda>c. c \<noteq> []) (map (\<lambda>m. msg_content (the m)) (filter is_system ms)),
      filter (\<lambda>m. \<not> is_system m) ms)"
  by (induction ms) (auto split: option.splits)

lemma validate_from_None:
  "validate_from i ms = None \<longleftrightarrow> (\<forall>j < length ms. is_system (ms ! j) \<longrightarrow> i + j = 0)"
proof (induction ms arbitrary: i)
  case (Cons m ms)
  show ?case
    by (auto simp: Cons.IH nth_Cons less_Suc_eq_0_disj split: nat.splits)
qed simp

lemma validate_no_system: "filter is_system ms = [] \<Longrightarrow> validate_from i ms = None"
  by (induction ms arbitrary: i) (auto split: if_splits)

lemma validateSingleSystem_iff:
  "validateSingleSystem ms = None \<longleftrightarrow> (\<forall>j < length ms. is_system (ms ! j) \<longrightarrow> j = 0)"
  by (simp add: validateSingleSystem_def validate_from_None)

text \<open>The system messages that carry text; the empty ones are what \<open>collapseSystem\<close> drops.\<close>

definition system_sections :: "messages \<Rightarrow> string list" where
  "system_sections ms = filter (\<lambda>c. c \<noteq> []) (map (\<lambda>m. msg_content (the m)) (filter is_system ms))"

lemma collapseSystem_eq:
  "collapseSystem ms =
     (if system_sections ms = [] then ms
      else Some (NewSystemMessage (join_strings [CHR 0x0A, CHR 0x0A] (system_sections ms)))
             # filter (\<lambda>m. \<not> is_system m) ms)"
  by (simp add: collapseSystem_def split_system_eq system_sections_def)

lemma filter_not_system_none:
  "filter is_system (filter (\<lambda>m. \<not> is_system m) ms) = []"
  by (simp add: filter_empty_conv)

lemma collapseSystem_valid:
  assumes "system_sections ms \<noteq> []"
  shows "validateSingleSystem (collapseSystem ms) = None"
  using assms validate_no_system [OF filter_not_system_none, of "Suc 0" ms]
  by (simp add: collapseSystem_eq validateSingleSystem_def)

lemma join_strings_not_Nil: "xs \<noteq> [] \<Longrightarrow> \<forall>x \<in> set xs. x \<noteq> [] \<Longrightarrow> join_strings sep xs \<noteq> []"
  by (cases "(sep, xs)" rule: join_strings.cases) auto

lemma collapseSystem_idem: "collapseSystem (collapseSystem ms) = collapseSystem ms"
proof (cases "system_sections ms = []")
  case True
  then show ?thesis by (simp add: collapseSystem_eq)
next
  case False
  let ?c = "join_strings [CHR 0x0A, CHR 0x0A] (system_sections ms)"
  have "?c \<noteq> []"
    by (rule join_strings_not_Nil [OF False]) (simp add: system_sections_def)
  moreover have "system_sections (collapseSystem ms) = filter (\<lambda>c. c \<noteq> []) [?c]"
    using False filter_not_system_none [of ms]
    by (simp add: collapseSystem_eq system_sections_def new_message_defs)
  ultimately show ?thesis
    using False by (simp add: collapseSystem_eq [of "collapseSystem ms"])
      (simp add: collapseSystem_eq new_message_defs)
qed

text \<open>
  Collapsing the system messages.  When some system message carries text, the list
  \<open>FireMessagesBuilt\<close> hands on starts with one system message that joins all the sections in list
  order, every other message follows unchanged and in order, the single-system audit of
  \<open>module/msgcheck\<close> accepts it, and collapsing again changes nothing.
\<close>

theorem collapse_single_system:
  assumes "Some m \<in> set ms" and "msg_role m = RoleSystem" and "msg_content m \<noteq> []"
  shows "collapseSystem ms =
           Some (NewSystemMessage (join_strings [CHR 0x0A, CHR 0x0A] (system_sections ms)))
             # filter (\<lambda>m. \<not> is_system m) ms
         \<and> msg_content m \<in> set (system_sections ms)
         \<and> validateSingleSystem (collapseSystem ms) = None
         \<and> collapseSystem (collapseSystem ms) = collapseSystem ms"
proof -
  have mem: "msg_content m \<in> set (system_sections ms)"
    using assms unfolding system_sections_def by (force intro!: image_eqI [where x = "Some m"])
  then have "system_sections ms \<noteq> []" by auto
  then have "collapseSystem ms =
      Some (NewSystemMessage (join_strings [CHR 0x0A, CHR 0x0A] (system_sections ms)))
        # filter (\<lambda>m. \<not> is_system m) ms"
    by (simp add: collapseSystem_eq)
  then show ?thesis
    using mem collapseSystem_valid [OF \<open>system_sections ms \<noteq> []\<close>] collapseSystem_idem by blast
qed

theorem collapse_single_system_witness:
  "collapseSystem [Some (NewUserMessage ''hi''), Some (NewSystemMessage ''a''), None,
                   Some (NewSystemMessage ''''), Some (NewSystemMessage ''b'')]
     = [Some (NewSystemMessage (''a'' @ [CHR 0x0A, CHR 0x0A] @ ''b'')), Some (NewUserMessage ''hi''), None]"
  using collapse_single_system [of "NewSystemMessage ''a''"
      "[Some (NewUserMessage ''hi''), Some (NewSystemMessage ''a''), None,
        Some (NewSystemMessage ''''), Some (NewSystemMessage ''b'')]"]
  by (simp add: new_message_defs system_sections_def)

text \<open>
  An empty system message escapes the collapse.  When every system message is empty the list is
  handed on as it is, so a blank system message behind the first position reaches the audit, which
  aborts the model call: \<open>collapseSystem\<close> does not establish what its comment promises.
\<close>

theorem collapse_blank_system_rejected:
  assumes "\<forall>x. Some x \<in> set ms \<longrightarrow> msg_role x = RoleSystem \<longrightarrow> msg_content x = []"
    and "j < length ms" and "ms ! j = Some m" and "msg_role m = RoleSystem" and "0 < j"
  shows "collapseSystem ms = ms \<and> validateSingleSystem (collapseSystem ms) \<noteq> None"
proof -
  have "system_sections ms = []"
    using assms(1) by (auto simp: system_sections_def filter_empty_conv split: option.splits)
  then have "collapseSystem ms = ms" by (simp add: collapseSystem_eq)
  moreover have "validateSingleSystem ms \<noteq> None"
    using assms(2-5) by (auto simp: validateSingleSystem_iff)
  ultimately show ?thesis by simp
qed

theorem collapse_blank_system_rejected_witness:
  "validateSingleSystem (collapseSystem [Some (NewUserMessage ''hi''), Some (NewSystemMessage '''')]) \<noteq> None"
  using collapse_blank_system_rejected
    [of "[Some (NewUserMessage ''hi''), Some (NewSystemMessage '''')]" "Suc 0" "NewSystemMessage ''''"]
  by (auto simp: new_message_defs)

end
