(* ===== verification/Orchestrate.thy ===== *)
theory Orchestrate
  imports Messages
begin

text \<open>
  \<open>core/orchestrate/orchestrate.go\<close>: the concurrent execution of a batch of tool calls and the
  parallel, chain and pipe agents, with \<open>NormalizeToolCall\<close> of \<open>core/kernel/tool.go\<close> and
  \<open>Result\<close> of \<open>core/kernel/result.go\<close>.

  Everything the code calls out to acts on an abstract world \<open>'w\<close>; a call that may panic returns a
  \<open>call\<close>.  A goroutine body is one atomic step on the world and writes its own slot; \<open>pick\<close> is the
  choice of the Go scheduler among the goroutines the semaphore has let in, so a statement about
  every \<open>pick\<close> is a statement about every completion order.
\<close>

section \<open>Calls and goroutines\<close>

datatype 'a call = Panics string | Returns 'a

definition remove_nth :: "nat \<Rightarrow> 'a list \<Rightarrow> 'a list" where
  "remove_nth k xs = take k xs @ drop (Suc k) xs"

lemma length_remove_nth: "k < length xs \<Longrightarrow> length (remove_nth k xs) = length xs - 1"
  by (simp add: remove_nth_def)

lemma mset_remove_nth_set:
  "k < length xs \<Longrightarrow> distinct xs \<Longrightarrow> set (remove_nth k xs) = set xs - {xs ! k} \<and> distinct (remove_nth k xs)"
  using id_take_nth_drop [of k xs] unfolding remove_nth_def
  by (metis (no_types, lifting) Diff_insert_absorb Un_iff distinct.simps(2) distinct_append
      insert_is_Un list.simps(15) set_append sup_commute sup_left_commute disjoint_insert(1) disjoint_insert(2))

definition slot_choice :: "nat \<Rightarrow> nat \<Rightarrow> 'a list \<Rightarrow> nat" where
  "slot_choice n maxConc pending = n mod min (max 1 maxConc) (length pending)"

lemma slot_choice_less: "pending \<noteq> [] \<Longrightarrow> slot_choice n maxConc pending < length pending"
  unfolding slot_choice_def by (rule less_le_trans [OF mod_less_divisor]) auto

function run_goroutines ::
  "('w \<Rightarrow> nat) \<Rightarrow> nat \<Rightarrow> (nat \<Rightarrow> 'w \<Rightarrow> 'r \<times> 'w) \<Rightarrow> nat list \<Rightarrow> 'r list \<Rightarrow> 'w \<Rightarrow> 'r list \<times> 'w" where
  "run_goroutines pick maxConc body pending slots w =
     (if pending = [] then (slots, w)
      else let k = slot_choice (pick w) maxConc pending; i = pending ! k
           in (case body i w of (r, w1) \<Rightarrow>
                 run_goroutines pick maxConc body (remove_nth k pending) (slots[i := r]) w1))"
  by pat_completeness auto
termination
  by (relation "measure (\<lambda>(_, _, _, pending, _, _). length pending)")
     (auto simp: length_remove_nth slot_choice_less)

declare run_goroutines.simps [simp del]

lemma run_goroutines_Nil [simp]: "run_goroutines pick n body [] slots w = (slots, w)"
  by (simp add: run_goroutines.simps)

text \<open>Whatever the scheduler does, each pending slot ends with a result of its own body, the
  other slots keep theirs, and the world makes steps of the bodies only.\<close>

lemma run_goroutines_slots:
  assumes "distinct pending" and "set pending \<subseteq> {..<length slots}"
    and body: "\<And>i w. i \<in> set pending \<Longrightarrow> P i (fst (body i w))"
  shows "length (fst (run_goroutines pick n body pending slots w)) = length slots \<and>
         (\<forall>i \<in> set pending. P i (fst (run_goroutines pick n body pending slots w) ! i)) \<and>
         (\<forall>i. i \<notin> set pending \<longrightarrow> fst (run_goroutines pick n body pending slots w) ! i = slots ! i)"
  using assms
proof (induction pick n body pending slots w rule: run_goroutines.induct)
  case (1 pick n body pending slots w)
  show ?case
  proof (cases "pending = []")
    case True
    then show ?thesis by simp
  next
    case False
    define k where "k = slot_choice (pick w) n pending"
    obtain r w1 where b: "body (pending ! k) w = (r, w1)" by (cases "body (pending ! k) w")
    have k: "k < length pending" unfolding k_def by (rule slot_choice_less [OF False])
    then have mem: "pending ! k \<in> set pending" by simp
    have rest: "set (remove_nth k pending) = set pending - {pending ! k}" "distinct (remove_nth k pending)"
      using mset_remove_nth_set [OF k "1.prems"(1)] by auto
    have eq: "run_goroutines pick n body pending slots w
        = run_goroutines pick n body (remove_nth k pending) (slots[pending ! k := r]) w1"
      using False b by (subst run_goroutines.simps) (simp add: k_def Let_def)
    have IH: "length (fst (run_goroutines pick n body (remove_nth k pending) (slots[pending ! k := r]) w1)) = length slots \<and>
         (\<forall>i \<in> set (remove_nth k pending).
             P i (fst (run_goroutines pick n body (remove_nth k pending) (slots[pending ! k := r]) w1) ! i)) \<and>
         (\<forall>i. i \<notin> set (remove_nth k pending) \<longrightarrow>
             fst (run_goroutines pick n body (remove_nth k pending) (slots[pending ! k := r]) w1) ! i
               = slots[pending ! k := r] ! i)"
      using "1.IH" [OF False k_def refl b [symmetric]] rest "1.prems" by auto
    have own: "P (pending ! k) r"
      using "1.prems"(3) [OF mem, of w] b by simp
    have upd: "slots[pending ! k := r] ! (pending ! k) = r"
      using "1.prems"(2) mem by auto
    show ?thesis
      unfolding eq using IH own upd mem rest(1) by (metis DiffI Diff_iff insertI1 nth_list_update_neq singletonD)
  qed
qed

lemma run_goroutines_world:
  assumes "\<And>i w. Q w \<Longrightarrow> Q (snd (body i w))" and "Q w"
  shows "Q (snd (run_goroutines pick n body pending slots w))"
  using assms
proof (induction pick n body pending slots w rule: run_goroutines.induct)
  case (1 pick n body pending slots w)
  show ?case
  proof (cases "pending = []")
    case False
    let ?k = "slot_choice (pick w) n pending"
    obtain r w1 where b: "body (pending ! ?k) w = (r, w1)" by (cases "body (pending ! ?k) w")
    have "Q w1" using "1.prems"(1) [OF "1.prems"(2), of "pending ! ?k"] b by simp
    then show ?thesis
      using "1.IH" [OF False refl refl b [symmetric]] "1.prems"(1) False b
      by (subst run_goroutines.simps) (simp add: Let_def)
  qed (use 1 in simp)
qed

section \<open>Tool calls\<close>

text \<open>\<open>fresh\<close> is \<open>types.SessionID\<close>, a random string.\<close>

definition NormalizeToolCall :: "('w \<Rightarrow> string \<times> 'w) \<Rightarrow> tool_call \<Rightarrow> 'w \<Rightarrow> tool_call \<times> 'w" where
  "NormalizeToolCall fresh tc w =
     (let tc = (if tc_type tc = [] then tc\<lparr>tc_type := ''function''\<rparr> else tc);
          (tc, w) = (if tc_id tc = []
                     then (case fresh w of (sid, w1) \<Rightarrow> (tc\<lparr>tc_id := ''call_'' @ sid\<rparr>, w1)) else (tc, w));
          tc = (if tc_args tc = [] then tc\<lparr>tc_args := ''{}''\<rparr> else tc)
      in (tc, w))"

lemma NormalizeToolCall_id: "tc_id (fst (NormalizeToolCall fresh tc w)) \<noteq> []"
  by (auto simp: NormalizeToolCall_def Let_def split: prod.splits)

lemma NormalizeToolCall_stable:
  "tc_id tc \<noteq> [] \<Longrightarrow> snd (NormalizeToolCall fresh tc w) = w"
  "tc_id tc \<noteq> [] \<Longrightarrow> tc_id (fst (NormalizeToolCall fresh tc w)) = tc_id tc"
  "tc_name (fst (NormalizeToolCall fresh tc w)) = tc_name tc"
  by (auto simp: NormalizeToolCall_def Let_def split: prod.splits)

subsection \<open>JSON error payloads\<close>

text \<open>\<open>json.Marshal\<close> of a string: the bytes from 0x80 up are taken to be valid UTF-8 without the
  two line separators U+2028 and U+2029, which Go escapes as well.\<close>

definition hex_digit :: "nat \<Rightarrow> char" where
  "hex_digit n = (if n < 10 then char_of (48 + n) else char_of (87 + n))"

definition json_escape_char :: "char \<Rightarrow> string" where
  "json_escape_char c =
     (let n = (of_char c :: nat) in
      if n = 0x22 then [CHR 0x5C, CHR 0x22]
      else if n = 0x5C then [CHR 0x5C, CHR 0x5C]
      else if n = 0x08 then [CHR 0x5C, CHR ''b'']
      else if n = 0x0C then [CHR 0x5C, CHR ''f'']
      else if n = 0x0A then [CHR 0x5C, CHR ''n'']
      else if n = 0x0D then [CHR 0x5C, CHR ''r'']
      else if n = 0x09 then [CHR 0x5C, CHR ''t'']
      else if n < 0x20 \<or> n = 0x3C \<or> n = 0x3E \<or> n = 0x26
           then CHR 0x5C # ''u00'' @ [hex_digit (n div 16), hex_digit (n mod 16)]
      else [c])"

definition json_string :: "string \<Rightarrow> string" where
  "json_string s = CHR 0x22 # concat (map json_escape_char s) @ [CHR 0x22]"

definition json_object :: "(string \<times> string) list \<Rightarrow> string" where
  "json_object kvs =
     ''{'' @ join_strings '','' (map (\<lambda>(k, v). json_string k @ '':'' @ json_string v) (sort_key fst kvs)) @ ''}''"

definition jsonErrorPayload :: "string \<Rightarrow> (string \<times> string) list \<Rightarrow> string" where
  "jsonErrorPayload msg extra = json_object (AList.merge [(''error'', msg)] extra)"

subsection \<open>Running one call\<close>

datatype tool_effect = EffectRead | EffectWrite | EffectExec | EffectNetwork | EffectUserData

datatype 'w tool_body =
    ToolRun "string \<Rightarrow> 'w \<Rightarrow> (string \<times> go_error option) call \<times> 'w"
  | ToolWithResult "string \<Rightarrow> 'w \<Rightarrow> (string \<times> content_part list option \<times> go_error option) call \<times> 'w"

record 'w tool =
  t_name :: string
  t_description :: string
  t_effects :: "tool_effect list"
  t_timeoutMs :: int64
  t_body :: "'w tool_body"

text \<open>What the batch execution uses of its surroundings: the registry's \<open>Get\<close>, the random ids, the
  Go scheduler, whether the call's context (with the budget given, if any) ran into its deadline
  between two worlds, and the text of an error.\<close>

record 'w batch_env =
  be_get :: "(string \<Rightarrow> 'w \<Rightarrow> 'w tool option) option"
  be_fresh :: "'w \<Rightarrow> string \<times> 'w"
  be_pick :: "'w \<Rightarrow> nat"
  be_deadline :: "int64 option \<Rightarrow> 'w \<Rightarrow> 'w \<Rightarrow> bool"
  be_text :: "go_error \<Rightarrow> string"

record tool_exec_result =
  ter_message :: "message option"
  ter_err :: "go_error option"

definition runToolResult ::
  "'w tool \<Rightarrow> string \<Rightarrow> 'w \<Rightarrow> (string \<times> content_part list option \<times> go_error option) call \<times> 'w" where
  "runToolResult t args w = (case t_body t of
     ToolWithResult f \<Rightarrow> f args w
   | ToolRun f \<Rightarrow> (case f args w of
        (Panics p, w1) \<Rightarrow> (Panics p, w1)
      | (Returns (s, err), w1) \<Rightarrow> (Returns (s, None, err), w1)))"

definition newToolResultMessage :: "string \<Rightarrow> content_part list option \<Rightarrow> string \<Rightarrow> string \<Rightarrow> message" where
  "newToolResultMessage content parts toolCallID toolName =
     (let msg = NewToolMessage content toolCallID toolName
      in (case parts of Some (p # ps) \<Rightarrow> msg\<lparr>msg_parts := parts\<rparr> | _ \<Rightarrow> msg))"

definition failed_call :: "string \<Rightarrow> go_error \<Rightarrow> string \<Rightarrow> string \<Rightarrow> tool_exec_result" where
  "failed_call payload err toolCallID toolName =
     \<lparr>ter_message = Some (NewToolMessage payload toolCallID toolName), ter_err = Some err\<rparr>"

text \<open>The goroutine of one call: its slot, and the call, which it normalises in place.\<close>

definition exec_call ::
  "'w batch_env \<Rightarrow> (string \<Rightarrow> 'w \<Rightarrow> int64) option \<Rightarrow> tool_call option \<Rightarrow> 'w \<Rightarrow>
   (tool_exec_result \<times> tool_call option) \<times> 'w" where
  "exec_call env callTimeout call w = (case call of
     None \<Rightarrow> ((failed_call (jsonErrorPayload ''tool call is nil'' []) (Errorf ''tool call is nil'') [] [], None), w)
   | Some tc0 \<Rightarrow>
      (case NormalizeToolCall (be_fresh env) tc0 w of (tc, w1) \<Rightarrow>
       (case be_get env of
          None \<Rightarrow> ((failed_call (jsonErrorPayload ''no tool registry'' []) (Errorf ''no tool registry'')
                     (tc_id tc) (tc_name tc), Some tc), w1)
        | Some get \<Rightarrow>
           (case get (tc_name tc) w1 of
              None \<Rightarrow> ((failed_call (jsonErrorPayload (''tool not found: '' @ tc_name tc) [])
                         (Errorf (''tool not found: '' @ tc_name tc)) (tc_id tc) (tc_name tc), Some tc), w1)
            | Some tool \<Rightarrow>
               (let budget = (case callTimeout of None \<Rightarrow> None
                              | Some f \<Rightarrow> (if sint (f (tc_name tc) w1) > 0 then Some (f (tc_name tc) w1) else None))
                in (case runToolResult tool (tc_args tc) w1 of
                      (Panics p, w2) \<Rightarrow>
                        ((failed_call (jsonErrorPayload (''tool panicked: '' @ p) [])
                            (Errorf (''tool panicked: '' @ p)) (tc_id tc) (tc_name tc), Some tc), w2)
                    | (Returns (result, parts, err), w2) \<Rightarrow>
                        (if be_deadline env budget w1 w2
                         then ((failed_call (jsonErrorPayload ''tool call timed out''
                                   [(''code'', ''TOOL_TIMEOUT''), (''tool'', tc_name tc)])
                                  (WrapErr (''tool '' @ tc_name tc) (Sentinel CtxDeadlineExceeded))
                                  (tc_id tc) (tc_name tc), Some tc), w2)
                         else (case err of
                             Some e \<Rightarrow> ((failed_call (jsonErrorPayload (be_text env e) []) e
                                          (tc_id tc) (tc_name tc), Some tc), w2)
                           | None \<Rightarrow> ((\<lparr>ter_message = Some (newToolResultMessage result parts (tc_id tc) (tc_name tc)),
                                        ter_err = None\<rparr>, Some tc), w2)))))))))"

text \<open>The batch: one slot per call, all of them pending at first.  The second result is the
  caller's slice of calls, normalised in place.\<close>

definition ExecToolsConcurrentResults ::
  "'w batch_env \<Rightarrow> (string \<Rightarrow> 'w \<Rightarrow> int64) option \<Rightarrow> int \<Rightarrow> tool_call option list \<Rightarrow> 'w \<Rightarrow>
   (tool_exec_result \<times> tool_call option) list \<times> 'w" where
  "ExecToolsConcurrentResults env callTimeout maxConcurrency tools w =
     (let maxConc = (if maxConcurrency > 0 \<and> maxConcurrency < int (length tools)
                     then nat maxConcurrency else length tools)
      in run_goroutines (be_pick env) maxConc
           (\<lambda>i. exec_call env callTimeout (tools ! i)) [0..<length tools]
           (map (\<lambda>tc. (\<lparr>ter_message = None, ter_err = None\<rparr>, tc)) tools) w)"

definition ExecToolsConcurrent ::
  "'w batch_env \<Rightarrow> (string \<Rightarrow> 'w \<Rightarrow> int64) option \<Rightarrow> int \<Rightarrow> tool_call option list \<Rightarrow> 'w \<Rightarrow>
   messages \<times> 'w" where
  "ExecToolsConcurrent env callTimeout maxConcurrency tools w =
     (case ExecToolsConcurrentResults env callTimeout maxConcurrency tools w of
        (results, w1) \<Rightarrow> (map (\<lambda>r. ter_message (fst r)) results, w1))"

subsection \<open>Every call is answered\<close>

text \<open>A message that answers a call: a tool message with its id and name.\<close>

definition answers :: "tool_call \<Rightarrow> message option \<Rightarrow> bool" where
  "answers tc m = (case m of None \<Rightarrow> False
     | Some x \<Rightarrow> msg_role x = RoleTool \<and> msg_toolCallID x = tc_id tc \<and> msg_toolCalls x = [])"

lemma answers_NewToolMessage [simp]:
  "answers tc (Some (NewToolMessage c i n)) \<longleftrightarrow> i = tc_id tc"
  by (auto simp: answers_def new_message_defs)

lemma answers_newToolResultMessage [simp]:
  "answers tc (Some (newToolResultMessage c ps i n)) \<longleftrightarrow> i = tc_id tc"
  by (auto simp: answers_def newToolResultMessage_def new_message_defs Let_def split: option.splits list.splits)

text \<open>The slot of a call holds an answer to the normalised call, whatever happened.\<close>

definition slot_ok :: "tool_call \<Rightarrow> tool_exec_result \<times> tool_call option \<Rightarrow> bool" where
  "slot_ok tc0 slot = (case slot of
     (r, Some tc) \<Rightarrow> answers tc (ter_message r) \<and> tc_id tc \<noteq> [] \<and> (tc_id tc0 \<noteq> [] \<longrightarrow> tc_id tc = tc_id tc0)
                     \<and> tc_name tc = tc_name tc0
   | (r, None) \<Rightarrow> False)"

lemma exec_call_ok: "slot_ok tc0 (fst (exec_call env callTimeout (Some tc0) w))"
proof -
  obtain tc w1 where n: "NormalizeToolCall (be_fresh env) tc0 w = (tc, w1)"
    by (cases "NormalizeToolCall (be_fresh env) tc0 w")
  have "tc_id tc \<noteq> []" "tc_id tc0 \<noteq> [] \<longrightarrow> tc_id tc = tc_id tc0" "tc_name tc = tc_name tc0"
    using NormalizeToolCall_id [of "be_fresh env" tc0 w] NormalizeToolCall_stable(2) [of tc0 "be_fresh env" w] NormalizeToolCall_stable(3) [of "be_fresh env" tc0 w] n
    by auto
  then show ?thesis
    by (auto simp: exec_call_def n slot_ok_def failed_call_def Let_def
        split: option.splits prod.splits call.splits)
qed

lemma exec_results_ok:
  assumes "rs = fst (ExecToolsConcurrentResults env callTimeout maxConcurrency (map Some cs) w)"
  shows "length rs = length cs \<and> (\<forall>i < length cs. slot_ok (cs ! i) (rs ! i))"
proof -
  let ?slots = "map (\<lambda>tc. (\<lparr>ter_message = None, ter_err = None\<rparr>, tc)) (map Some cs)"
  have "length (fst (run_goroutines (be_pick env) n
          (\<lambda>i. exec_call env callTimeout (map Some cs ! i)) [0..<length cs] ?slots w)) = length ?slots \<and>
        (\<forall>i \<in> set [0..<length cs]. slot_ok (cs ! i) (fst (run_goroutines (be_pick env) n
          (\<lambda>i. exec_call env callTimeout (map Some cs ! i)) [0..<length cs] ?slots w) ! i)) \<and>
        (\<forall>i. i \<notin> set [0..<length cs] \<longrightarrow> fst (run_goroutines (be_pick env) n
          (\<lambda>i. exec_call env callTimeout (map Some cs ! i)) [0..<length cs] ?slots w) ! i = ?slots ! i)"
    for n
    by (rule run_goroutines_slots) (auto simp: exec_call_ok)
  then show ?thesis
    unfolding assms ExecToolsConcurrentResults_def by (simp add: Let_def)
qed

end
