(* ===== verification/AgentCompose.thy ===== *)
theory AgentCompose
  imports Orchestrate
begin

text \<open>
  The parallel, chain and pipe agents of \<open>core/orchestrate/orchestrate.go\<close> over arbitrary agents,
  and \<open>Result\<close> of \<open>core/kernel/result.go\<close>.  An agent may panic, and may return a nil result.

  The batch timeout of the parallel agent only derives the context the sub-agents see, which here is
  part of the world.
\<close>

section \<open>Agents and results\<close>

datatype TerminateReason =
    TerminateUnknown | TerminateFinished | TerminateMaxSteps | TerminateAborted
  | TerminateCanceled | TerminateError

record agent_result =
  rs_content :: string
  rs_messages :: messages
  rs_usage :: "token_usage option"
  rs_reason :: TerminateReason
  rs_err :: "go_error option"

definition empty_result :: agent_result where
  "empty_result = \<lparr>rs_content = [], rs_messages = [], rs_usage = None,
                   rs_reason = TerminateUnknown, rs_err = None\<rparr>"

definition IsSuccess :: "agent_result option \<Rightarrow> bool" where
  "IsSuccess r = (case r of None \<Rightarrow> False | Some x \<Rightarrow> rs_err x = None)"

record agent_input =
  ai_messages :: messages
  ai_systemPrompt :: string
  ai_enableStreaming :: bool
  ai_maxSteps :: int
  ai_meta :: "(string \<times> go_any) list"
  ai_streamSender :: bool

record 'w agent =
  ag_name :: string
  ag_run :: "agent_input option \<Rightarrow> 'w \<Rightarrow> agent_result option call \<times> 'w"

section \<open>Parallel\<close>

definition add_usage :: "token_usage option \<Rightarrow> token_usage option \<Rightarrow> token_usage option" where
  "add_usage tot add = (case add of None \<Rightarrow> tot
     | Some a \<Rightarrow> (let t = (case tot of None \<Rightarrow> \<lparr>PromptTokens = 0, CompletionTokens = 0, TotalTokens = 0\<rparr>
                          | Some t \<Rightarrow> t)
                in Some \<lparr>PromptTokens = PromptTokens t + PromptTokens a,
                         CompletionTokens = CompletionTokens t + CompletionTokens a,
                         TotalTokens = TotalTokens t + TotalTokens a\<rparr>))"

text \<open>The loop of \<open>mergeResults\<close> from index \<open>i\<close> on, over the agents' names and their slots.\<close>

fun merge_from :: "nat \<Rightarrow> (string \<times> agent_result option) list \<Rightarrow> agent_result \<Rightarrow> agent_result" where
  "merge_from i [] acc = acc"
| "merge_from i ((name, None) # rs) acc = merge_from (Suc i) rs acc"
| "merge_from i ((name, Some res) # rs) acc =
     merge_from (Suc i) rs
       (acc\<lparr>rs_err := (if rs_err res \<noteq> None \<and> rs_err acc = None then rs_err res else rs_err acc),
            rs_messages := rs_messages acc @ rs_messages res,
            rs_usage := add_usage (rs_usage acc) (rs_usage res),
            rs_content := rs_content acc
              @ (if i > 0 \<and> rs_content res \<noteq> [] then CHR 0x0A # ''---'' @ [CHR 0x0A] else [])
              @ ''['' @ name @ ''] '' @ rs_content res\<rparr>)"

definition mergeResults :: "string list \<Rightarrow> agent_result option list \<Rightarrow> agent_result" where
  "mergeResults names results = merge_from 0 (zip names results) empty_result"

definition parallel_body :: "'w agent list \<Rightarrow> agent_input option \<Rightarrow> nat \<Rightarrow> 'w \<Rightarrow> agent_result option \<times> 'w" where
  "parallel_body agents input i w = (case ag_run (agents ! i) input w of
     (Panics p, w1) \<Rightarrow> (Some (empty_result\<lparr>rs_reason := TerminateError,
                          rs_err := Some (Errorf (''parallel agent panicked: '' @ p))\<rparr>), w1)
   | (Returns r, w1) \<Rightarrow> (r, w1))"

definition parallel_run ::
  "('w \<Rightarrow> nat) \<Rightarrow> int \<Rightarrow> 'w agent list \<Rightarrow> agent_input option \<Rightarrow> 'w \<Rightarrow> agent_result option call \<times> 'w" where
  "parallel_run pick maxConcurrency agents input w =
     (if agents = [] then (Returns (Some empty_result), w)
      else let maxConc = (if maxConcurrency > 0 \<and> maxConcurrency < int (length agents)
                          then nat maxConcurrency else length agents)
           in (case run_goroutines pick maxConc (parallel_body agents input) [0..<length agents]
                      (replicate (length agents) None) w of
                 (results, w1) \<Rightarrow> (Returns (Some (mergeResults (map ag_name agents) results)), w1)))"

definition Parallel :: "('w \<Rightarrow> nat) \<Rightarrow> int \<Rightarrow> 'w agent list \<Rightarrow> 'w agent" where
  "Parallel pick maxConcurrency agents =
     \<lparr>ag_name = ''parallel:'' @ join_strings ''+'' (map ag_name agents),
      ag_run = parallel_run pick maxConcurrency agents\<rparr>"

section \<open>Chain and pipe\<close>

definition next_input :: "agent_input option \<Rightarrow> agent_result \<Rightarrow> agent_input option" where
  "next_input input res = map_option (\<lambda>inp.
     \<lparr>ai_messages = rs_messages res, ai_systemPrompt = ai_systemPrompt inp,
      ai_enableStreaming = ai_enableStreaming inp, ai_maxSteps = ai_maxSteps inp,
      ai_meta = [], ai_streamSender = False\<rparr>) input"

text \<open>The loop of both agents; \<open>tf\<close> is the pipe's transform, if there is one.  Reading a field of
  a nil result or of a nil input panics.\<close>

abbreviation (input) nil_deref :: string where
  "nil_deref \<equiv> ''invalid memory address or nil pointer dereference''"

fun sequential_run ::
  "(agent_result \<Rightarrow> agent_input option) option \<Rightarrow> 'w agent list \<Rightarrow> agent_input option \<Rightarrow>
   agent_result option \<Rightarrow> 'w \<Rightarrow> agent_result option call \<times> 'w" where
  "sequential_run tf [] input lastResult w = (Returns lastResult, w)"
| "sequential_run tf (a # as) input lastResult w =
     (case ag_run a input w of
        (Panics p, w1) \<Rightarrow> (Panics p, w1)
      | (Returns None, w1) \<Rightarrow> (Panics nil_deref, w1)
      | (Returns (Some res), w1) \<Rightarrow>
          (if rs_err res \<noteq> None then (Returns (Some res), w1)
           else (case tf of
                   Some f \<Rightarrow> sequential_run tf as (f res) (Some res) w1
                 | None \<Rightarrow> (if input = None then (Panics nil_deref, w1)
                           else sequential_run tf as (next_input input res) (Some res) w1))))"

definition chain_run :: "'w agent list \<Rightarrow> agent_input option \<Rightarrow> 'w \<Rightarrow> agent_result option call \<times> 'w" where
  "chain_run agents input w =
     (if agents = [] then (Returns (Some empty_result), w) else sequential_run None agents input None w)"

definition Chain :: "'w agent list \<Rightarrow> 'w agent" where
  "Chain agents =
     \<lparr>ag_name = ''chain:'' @ join_strings [CHR 0xE2, CHR 0x86, CHR 0x92] (map ag_name agents),
      ag_run = chain_run agents\<rparr>"

definition pipe_run ::
  "(agent_result \<Rightarrow> agent_input option) option \<Rightarrow> 'w agent list \<Rightarrow> agent_input option \<Rightarrow> 'w \<Rightarrow>
   agent_result option call \<times> 'w" where
  "pipe_run tf agents input w =
     (if agents = [] then (Returns (Some empty_result), w) else sequential_run tf agents input None w)"

definition Pipe :: "'w agent list \<Rightarrow> (agent_result \<Rightarrow> agent_input option) option \<Rightarrow> 'w agent" where
  "Pipe agents tf =
     \<lparr>ag_name = ''pipe:'' @ join_strings ''|'' (map ag_name agents),
      ag_run = pipe_run tf agents\<rparr>"

subsection \<open>Nesting chains\<close>

lemma next_input_simps [simp]:
  "next_input (next_input input r1) r2 = next_input input r2"
  "next_input input r = None \<longleftrightarrow> input = None"
  by (auto simp: next_input_def option.map_comp comp_def)

text \<open>What a run of agents does when it is followed by more of them.\<close>

lemma sequential_run_append:
  "sequential_run None (as @ bs) input lastResult w =
     (if as = [] then sequential_run None bs input lastResult w
      else case sequential_run None as input lastResult w of
        (Panics p, w1) \<Rightarrow> (Panics p, w1)
      | (Returns None, w1) \<Rightarrow> (Panics nil_deref, w1)
      | (Returns (Some res), w1) \<Rightarrow>
          (if rs_err res \<noteq> None then (Returns (Some res), w1)
           else sequential_run None bs (next_input input res) (Some res) w1))"
proof (induction as arbitrary: input lastResult w)
  case (Cons a as)
  obtain c w1 where c: "ag_run a input w = (c, w1)" by (cases "ag_run a input w")
  show ?case
  proof (cases "\<exists>res. c = Returns (Some res) \<and> rs_err res = None \<and> input \<noteq> None")
    case True
    then obtain res inp where "c = Returns (Some res)" "rs_err res = None" "input = Some inp" by blast
    then show ?thesis
      by (cases "as = []") (auto simp: c Cons.IH split: call.splits option.splits prod.splits)
  next
    case False
    then show ?thesis by (auto simp: c split: call.splits option.splits)
  qed
qed simp

text \<open>
  Nesting chains.  A chain inside a chain behaves like the agents written out in its place, on
  every input and in every world: the same results, the same effects, the same stop at the first
  error.
\<close>

theorem chain_nested:
  assumes "bs \<noteq> []"
  shows "ag_run (Chain (as @ Chain bs # cs)) input w = ag_run (Chain (as @ bs @ cs)) input w"
proof -
  have inner: "sequential_run None (Chain bs # cs) i l v = sequential_run None (bs @ cs) i l v" for i l v
  proof -
    have "ag_run (Chain bs) i v = sequential_run None bs i None v"
      using assms by (simp add: Chain_def chain_run_def)
    moreover have "sequential_run None bs i None v = sequential_run None bs i l v"
      using assms by (cases bs) simp_all
    moreover have "i = None \<Longrightarrow> \<exists>p u. sequential_run None bs i l v = (Panics p, u)
         \<or> (\<exists>r u. sequential_run None bs i l v = (Returns (Some r), u) \<and> rs_err r \<noteq> None)"
      using assms by (cases bs) (auto split: call.splits option.splits prod.splits)
    ultimately show ?thesis
      using assms by (cases "i = None")
        (auto simp: sequential_run_append [of bs cs] split: call.splits option.splits prod.splits)
  qed
  have "sequential_run None (as @ Chain bs # cs) input None w
      = sequential_run None (as @ bs @ cs) input None w"
    by (simp only: sequential_run_append [of as] inner)
  then show ?thesis
    using assms by (simp add: Chain_def chain_run_def)
qed

definition echo_agent :: "string \<Rightarrow> 'w agent" where
  "echo_agent s = \<lparr>ag_name = s, ag_run = (\<lambda>inp w. (Returns (Some (empty_result
     \<lparr>rs_content := s, rs_messages := (case inp of None \<Rightarrow> [] | Some i \<Rightarrow> ai_messages i)
        @ [Some (NewAssistantMessage s)]\<rparr>)), w))\<rparr>"

theorem chain_nested_witness:
  "ag_run (Chain [echo_agent ''a'', Chain [echo_agent ''b''], echo_agent ''c'']) None (0 :: nat)
     = ag_run (Chain [echo_agent ''a'', echo_agent ''b'', echo_agent ''c'']) None 0"
  using chain_nested [of "[echo_agent ''b'']" "[echo_agent ''a'']" "[echo_agent ''c'']" None 0] by simp

section \<open>What a parallel run merges\<close>

definition outcome_of :: "'w agent \<Rightarrow> agent_result option call \<Rightarrow> agent_result option" where
  "outcome_of a c = (case c of
     Panics p \<Rightarrow> Some (empty_result\<lparr>rs_reason := TerminateError,
                      rs_err := Some (Errorf (''parallel agent panicked: '' @ p))\<rparr>)
   | Returns r \<Rightarrow> r)"

lemma parallel_body_outcome:
  "fst (parallel_body agents input i w) = outcome_of (agents ! i) (fst (ag_run (agents ! i) input w))"
  by (auto simp: parallel_body_def outcome_of_def split: prod.splits call.splits)

lemma merge_from_messages:
  "rs_messages (merge_from i rs acc)
     = rs_messages acc @ concat (map (\<lambda>(_, r). case r of None \<Rightarrow> [] | Some x \<Rightarrow> rs_messages x) rs)"
  by (induction i rs acc rule: merge_from.induct) auto

lemma merge_from_err:
  "rs_err (merge_from i rs acc)
     = (case rs_err acc of Some e \<Rightarrow> Some e
        | None \<Rightarrow> (case map_option (\<lambda>x. rs_err (the (snd x)))
                         (find (\<lambda>(_, r). r \<noteq> None \<and> rs_err (the r) \<noteq> None) rs) of
                    None \<Rightarrow> None | Some e \<Rightarrow> e))"
  by (induction i rs acc rule: merge_from.induct) (auto split: option.splits)

lemma total_add_usage:
  "(case add_usage t u of None \<Rightarrow> 0 | Some x \<Rightarrow> TotalTokens x)
     = (case t of None \<Rightarrow> 0 | Some x \<Rightarrow> TotalTokens x) + (case u of None \<Rightarrow> 0 | Some x \<Rightarrow> TotalTokens x)"
  by (auto simp: add_usage_def Let_def split: option.splits)

definition result_tokens :: "agent_result option \<Rightarrow> int" where
  "result_tokens r = (case r of None \<Rightarrow> 0 | Some x \<Rightarrow> (case rs_usage x of None \<Rightarrow> 0 | Some u \<Rightarrow> TotalTokens u))"

lemma merge_from_usage:
  "(case rs_usage (merge_from i rs acc) of None \<Rightarrow> 0 | Some u \<Rightarrow> TotalTokens u)
     = (case rs_usage acc of None \<Rightarrow> 0 | Some u \<Rightarrow> TotalTokens u) + sum_list (map (\<lambda>(_, r). result_tokens r) rs)"
  by (induction i rs acc rule: merge_from.induct) (auto simp: total_add_usage result_tokens_def)

text \<open>
  A parallel run of independent agents.  When the outcome of each agent does not depend on what
  the others do, every schedule and every concurrency limit gives the same result: the merge of all
  outcomes in agent order, with a panic turned into an error result, the messages concatenated in
  that order and the token totals added up.
\<close>

theorem parallel_deterministic:
  assumes "agents \<noteq> []"
    and indep: "\<And>i v. i < length agents \<Longrightarrow> fst (ag_run (agents ! i) input v) = out i"
  shows "fst (ag_run (Parallel pick maxConcurrency agents) input w) =
           Returns (Some (mergeResults (map ag_name agents)
                           (map (\<lambda>i. outcome_of (agents ! i) (out i)) [0..<length agents])))
         \<and> result_tokens (Some (mergeResults (map ag_name agents)
                           (map (\<lambda>i. outcome_of (agents ! i) (out i)) [0..<length agents])))
           = (\<Sum>i < length agents. result_tokens (outcome_of (agents ! i) (out i)))"
proof -
  let ?n = "length agents"
  let ?want = "\<lambda>i. outcome_of (agents ! i) (out i)"
  have slots: "fst (run_goroutines pick k (parallel_body agents input) [0..<?n] (replicate ?n None) w)
      = map ?want [0..<?n]" for k
  proof -
    have "length (fst (run_goroutines pick k (parallel_body agents input) [0..<?n] (replicate ?n None) w))
            = length (replicate ?n (None :: agent_result option)) \<and>
      (\<forall>i \<in> set [0..<?n]. fst (run_goroutines pick k (parallel_body agents input) [0..<?n]
          (replicate ?n None) w) ! i = ?want i) \<and>
      (\<forall>i. i \<notin> set [0..<?n] \<longrightarrow> fst (run_goroutines pick k (parallel_body agents input) [0..<?n]
          (replicate ?n None) w) ! i = replicate ?n None ! i)"
      by (rule run_goroutines_slots) (auto simp: parallel_body_outcome indep)
    then show ?thesis by (intro nth_equalityI) auto
  qed
  have run: "fst (ag_run (Parallel pick maxConcurrency agents) input w)
      = Returns (Some (mergeResults (map ag_name agents) (map ?want [0..<?n])))"
    using assms(1) slots by (simp add: Parallel_def parallel_run_def Let_def case_prod_beta)
  have "result_tokens (Some (mergeResults (map ag_name agents) (map ?want [0..<?n])))
      = sum_list (map (\<lambda>(_, r). result_tokens r) (zip (map ag_name agents) (map ?want [0..<?n])))"
    using merge_from_usage [of 0 "zip (map ag_name agents) (map ?want [0..<?n])" empty_result]
    by (simp add: mergeResults_def result_tokens_def empty_result_def)
  also have "map (\<lambda>(_, r). result_tokens r) (zip (map ag_name agents) (map ?want [0..<?n]))
      = map (\<lambda>i. result_tokens (?want i)) [0..<?n]"
    by (intro nth_equalityI) auto
  also have "sum_list \<dots> = (\<Sum>i < ?n. result_tokens (?want i))"
    by (simp add: interv_sum_list_conv_sum_set_nat atLeast0LessThan)
  finally show ?thesis using run by simp
qed

definition talk :: "string \<Rightarrow> int \<Rightarrow> agent_result option call" where
  "talk s n = Returns (Some (empty_result\<lparr>rs_content := s,
     rs_usage := Some \<lparr>PromptTokens = 0, CompletionTokens = n, TotalTokens = n\<rparr>\<rparr>))"

definition talker :: "string \<Rightarrow> int \<Rightarrow> nat agent" where
  "talker s n = \<lparr>ag_name = s, ag_run = (\<lambda>_ w. (talk s n, Suc w))\<rparr>"

lemma talker_outcome: "result_tokens (outcome_of a (talk s n)) = n"
  by (simp add: talk_def outcome_of_def result_tokens_def)

theorem parallel_deterministic_witness:
  "\<exists>r. fst (ag_run (Parallel (\<lambda>w. w) 1 [talker ''a'' 2, talker ''b'' 3]) None (7 :: nat)) = Returns (Some r)
       \<and> result_tokens (Some r) = 5"
proof -
  let ?ags = "[talker ''a'' 2, talker ''b'' 3]"
  let ?out = "\<lambda>i. if i = 0 then talk ''a'' 2 else talk ''b'' 3"
  have "fst (ag_run (?ags ! i) None v) = ?out i" if "i < length ?ags" for i v
    using that by (cases i) (simp_all add: talker_def)
  note * = parallel_deterministic [of ?ags None ?out "\<lambda>w. w" 1 7, OF _ this]
  have "(\<Sum>i < length ?ags. result_tokens (outcome_of (?ags ! i) (?out i))) = 5"
    by (simp only: list.size numeral_2_eq_2 add_Suc_right add_0_right One_nat_def sum.lessThan_Suc lessThan_0 sum.empty)
      (simp add: talker_outcome)
  with * show ?thesis by (intro exI conjI) (rule conjunct1, blast, simp)
qed

end
