(* ===== verification/CircuitBreaker.thy ===== *)
theory CircuitBreaker
  imports GoErrors
begin

text \<open>
  The circuit breaker of \<open>middleware/circuitbreaker/circuitbreaker.go\<close>, the interface
  \<open>kernel.CircuitBreaker\<close> and its model-call middleware of \<open>core/kernel/resilience.go\<close>, and
  the middleware chain of \<open>core/kernel/middleware.go\<close>.

  Each method holds the breaker's mutex for its whole body, so it is one atomic state
  transformer; \<open>time.Now()\<close> is an argument in nanoseconds.  The interface is the locale
  \<open>circuit_breaker\<close>; the middleware's lemmas are proved in it and the concrete breaker
  interprets it.
\<close>

section \<open>The breaker\<close>

datatype CircuitState = CircuitClosed | CircuitOpen | CircuitHalfOpen

definition circuit_state_string :: "CircuitState \<Rightarrow> string" where
  "circuit_state_string s = (case s of
     CircuitClosed \<Rightarrow> ''closed'' | CircuitOpen \<Rightarrow> ''open'' | CircuitHalfOpen \<Rightarrow> ''half-open'')"

record breaker_config =
  MaxFailures :: int
  ResetTimeout :: int
  HalfOpenMaxCalls :: int

definition DefaultConfig :: breaker_config where
  "DefaultConfig = \<lparr>MaxFailures = 5, ResetTimeout = 30 * 1000000000, HalfOpenMaxCalls = 3\<rparr>"

record breaker =
  br_name :: string
  maxFail :: int
  resetAfter :: int
  halfOpenMax :: int
  br_state :: CircuitState
  failures :: int
  lastFailure :: int
  halfOpenCalls :: int

definition NewBreaker :: "string \<Rightarrow> breaker_config option \<Rightarrow> breaker" where
  "NewBreaker name cfg0 =
     (let cfg = (case cfg0 of None \<Rightarrow> DefaultConfig | Some c \<Rightarrow> c);
          cfg = (if MaxFailures cfg \<le> 0 then cfg\<lparr>MaxFailures := MaxFailures DefaultConfig\<rparr> else cfg);
          cfg = (if ResetTimeout cfg \<le> 0 then cfg\<lparr>ResetTimeout := ResetTimeout DefaultConfig\<rparr> else cfg);
          cfg = (if HalfOpenMaxCalls cfg \<le> 0
                 then cfg\<lparr>HalfOpenMaxCalls := HalfOpenMaxCalls DefaultConfig\<rparr> else cfg)
      in \<lparr>br_name = name, maxFail = MaxFailures cfg, resetAfter = ResetTimeout cfg,
          halfOpenMax = HalfOpenMaxCalls cfg, br_state = CircuitClosed,
          failures = 0, lastFailure = 0, halfOpenCalls = 0\<rparr>)"

definition Allow :: "int \<Rightarrow> breaker \<Rightarrow> bool \<times> breaker" where
  "Allow now cb = (case br_state cb of
     CircuitClosed \<Rightarrow> (True, cb)
   | CircuitOpen \<Rightarrow>
       (if now - lastFailure cb > resetAfter cb
        then (True, cb\<lparr>br_state := CircuitHalfOpen, halfOpenCalls := 0\<rparr>)
        else (False, cb))
   | CircuitHalfOpen \<Rightarrow>
       (if halfOpenCalls cb < halfOpenMax cb
        then (True, cb\<lparr>halfOpenCalls := halfOpenCalls cb + 1\<rparr>)
        else (False, cb)))"

definition RecordSuccess :: "breaker \<Rightarrow> breaker" where
  "RecordSuccess cb = (case br_state cb of
     CircuitHalfOpen \<Rightarrow>
       (let cb = cb\<lparr>halfOpenCalls := halfOpenCalls cb - 1\<rparr>
        in if halfOpenCalls cb \<le> 0 then cb\<lparr>br_state := CircuitClosed, failures := 0\<rparr> else cb)
   | CircuitClosed \<Rightarrow> cb\<lparr>failures := 0\<rparr>
   | CircuitOpen \<Rightarrow> cb)"

definition RecordFailure :: "int \<Rightarrow> breaker \<Rightarrow> breaker" where
  "RecordFailure now cb0 = (let cb = cb0\<lparr>lastFailure := now\<rparr> in case br_state cb of
     CircuitHalfOpen \<Rightarrow> cb\<lparr>br_state := CircuitOpen, failures := maxFail cb\<rparr>
   | CircuitClosed \<Rightarrow>
       (let cb = cb\<lparr>failures := failures cb + 1\<rparr>
        in if failures cb \<ge> maxFail cb then cb\<lparr>br_state := CircuitOpen\<rparr> else cb)
   | CircuitOpen \<Rightarrow> cb)"

lemmas breaker_ops = Allow_def RecordSuccess_def RecordFailure_def

subsection \<open>Well-formedness\<close>

definition breaker_inv :: "breaker \<Rightarrow> bool" where
  "breaker_inv cb \<longleftrightarrow>
     0 < maxFail cb \<and> 0 < resetAfter cb \<and> 0 < halfOpenMax cb \<and>
     0 \<le> failures cb \<and> failures cb \<le> maxFail cb \<and>
     (br_state cb = CircuitClosed \<longrightarrow> failures cb < maxFail cb) \<and>
     (br_state cb = CircuitHalfOpen \<longrightarrow> 0 \<le> halfOpenCalls cb \<and> halfOpenCalls cb \<le> halfOpenMax cb)"

lemma NewBreaker_inv [inv_intros]: "breaker_inv (NewBreaker name cfg)"
  by (simp add: breaker_inv_def NewBreaker_def DefaultConfig_def Let_def split: option.split)

lemma NewBreaker_state: "br_state (NewBreaker name cfg) = CircuitClosed"
  and NewBreaker_failures: "failures (NewBreaker name cfg) = 0"
  by (simp_all add: NewBreaker_def Let_def)

lemma Allow_inv [inv_intros]: "breaker_inv cb \<Longrightarrow> breaker_inv (snd (Allow now cb))"
  by (auto simp: breaker_inv_def Allow_def split: CircuitState.split)

lemma RecordSuccess_inv [inv_intros]: "breaker_inv cb \<Longrightarrow> breaker_inv (RecordSuccess cb)"
  by (auto simp: breaker_inv_def RecordSuccess_def Let_def split: CircuitState.split)

lemma RecordFailure_inv [inv_intros]: "breaker_inv cb \<Longrightarrow> breaker_inv (RecordFailure now cb)"
  by (auto simp: breaker_inv_def RecordFailure_def Let_def split: CircuitState.split)

lemma breaker_config_frame [frame_simps]:
  "maxFail (snd (Allow now cb)) = maxFail cb" "maxFail (RecordSuccess cb) = maxFail cb"
  "maxFail (RecordFailure now cb) = maxFail cb"
  "halfOpenMax (snd (Allow now cb)) = halfOpenMax cb" "halfOpenMax (RecordSuccess cb) = halfOpenMax cb"
  "halfOpenMax (RecordFailure now cb) = halfOpenMax cb"
  "resetAfter (snd (Allow now cb)) = resetAfter cb" "resetAfter (RecordSuccess cb) = resetAfter cb"
  "resetAfter (RecordFailure now cb) = resetAfter cb"
  by (auto simp: breaker_ops Let_def split: CircuitState.split)

section \<open>Histories of operations\<close>

datatype breaker_op = OpAllow int | OpSuccess | OpFailure int

fun breaker_step :: "breaker_op \<Rightarrow> breaker \<Rightarrow> breaker" where
  "breaker_step (OpAllow now) cb = snd (Allow now cb)"
| "breaker_step OpSuccess cb = RecordSuccess cb"
| "breaker_step (OpFailure now) cb = RecordFailure now cb"

definition breaker_run :: "breaker_op list \<Rightarrow> breaker \<Rightarrow> breaker" where
  "breaker_run ops cb = fold breaker_step ops cb"

lemma breaker_run_simps [simp]:
  "breaker_run [] cb = cb"
  "breaker_run (op # ops) cb = breaker_run ops (breaker_step op cb)"
  "breaker_run (ops @ ops') cb = breaker_run ops' (breaker_run ops cb)"
  by (simp_all add: breaker_run_def)

lemma breaker_step_inv [inv_intros]: "breaker_inv cb \<Longrightarrow> breaker_inv (breaker_step op cb)"
  by (cases op) (simp_all add: inv_intros)

lemma breaker_run_inv [inv_intros]: "breaker_inv cb \<Longrightarrow> breaker_inv (breaker_run ops cb)"
  by (induction ops arbitrary: cb) (simp_all add: inv_intros)

lemma breaker_run_frame [frame_simps]:
  "maxFail (breaker_run ops cb) = maxFail cb" "halfOpenMax (breaker_run ops cb) = halfOpenMax cb"
  "resetAfter (breaker_run ops cb) = resetAfter cb"
proof -
  have "maxFail (breaker_step op cb) = maxFail cb \<and> halfOpenMax (breaker_step op cb) = halfOpenMax cb \<and>
        resetAfter (breaker_step op cb) = resetAfter cb" for op cb
    by (cases op) (simp_all add: frame_simps)
  then show "maxFail (breaker_run ops cb) = maxFail cb" "halfOpenMax (breaker_run ops cb) = halfOpenMax cb"
    "resetAfter (breaker_run ops cb) = resetAfter cb"
    by (induction ops arbitrary: cb) simp_all
qed

text \<open>
  The abstract view of a history: the number of failures since the last success, the calls that
  only ask for permission left aside.
\<close>

definition trailing_failures :: "breaker_op list \<Rightarrow> nat" where
  "trailing_failures ops =
     length (takeWhile (\<lambda>op. case op of OpFailure _ \<Rightarrow> True | _ \<Rightarrow> False)
       (rev (filter (\<lambda>op. case op of OpAllow _ \<Rightarrow> False | _ \<Rightarrow> True) ops)))"

lemma trailing_failures_simps [simp]:
  "trailing_failures [] = 0"
  "trailing_failures (ops @ [OpAllow now]) = trailing_failures ops"
  "trailing_failures (ops @ [OpSuccess]) = 0"
  "trailing_failures (ops @ [OpFailure now]) = Suc (trailing_failures ops)"
  by (simp_all add: trailing_failures_def)

lemma closed_counts_failures:
  assumes "br_state cb = CircuitClosed" "failures cb = 0" "0 < maxFail cb"
    and "\<And>k. k \<le> length ops \<Longrightarrow> int (trailing_failures (take k ops)) < maxFail cb"
  shows "br_state (breaker_run ops cb) = CircuitClosed \<and>
         failures (breaker_run ops cb) = int (trailing_failures ops)"
  using assms(4)
proof (induction ops rule: rev_induct)
  case Nil
  show ?case using assms(1,2) by simp
next
  case (snoc op ops)
  have "int (trailing_failures (take k ops)) < maxFail cb" if "k \<le> length ops" for k
    using snoc.prems [of k] that by simp
  then have IH: "br_state (breaker_run ops cb) = CircuitClosed"
      "failures (breaker_run ops cb) = int (trailing_failures ops)"
    using snoc.IH by blast+
  have "int (trailing_failures (ops @ [op])) < maxFail cb"
    using snoc.prems [of "length (ops @ [op])"] by simp
  with IH show ?case
    by (cases op) (simp_all add: breaker_ops Let_def frame_simps)
qed

text \<open>
  C24. Trip condition.  A fresh breaker stays closed for as long as no prefix of its history has
  \<open>MaxFailures\<close> failures in a row, its counter being the length of the current row; the next
  failure opens it exactly when it is the one that completes the row.
\<close>

theorem breaker_trip_condition:
  assumes "\<And>k. k \<le> length ops \<Longrightarrow> int (trailing_failures (take k ops)) < maxFail (NewBreaker name cfg)"
  shows "br_state (breaker_run ops (NewBreaker name cfg)) = CircuitClosed \<and>
         failures (breaker_run ops (NewBreaker name cfg)) = int (trailing_failures ops) \<and>
         (br_state (breaker_run (ops @ [OpFailure now]) (NewBreaker name cfg)) = CircuitOpen \<longleftrightarrow>
          int (trailing_failures (ops @ [OpFailure now])) = maxFail (NewBreaker name cfg))"
proof -
  let ?cb = "NewBreaker name cfg"
  have pos: "0 < maxFail ?cb"
    using NewBreaker_inv [of name cfg] by (simp add: breaker_inv_def)
  have *: "br_state (breaker_run ops ?cb) = CircuitClosed"
      "failures (breaker_run ops ?cb) = int (trailing_failures ops)"
    using closed_counts_failures [OF NewBreaker_state NewBreaker_failures pos assms] by simp_all
  have "int (trailing_failures ops) < maxFail ?cb"
    using assms [of "length ops"] by simp
  with * have "br_state (breaker_run (ops @ [OpFailure now]) ?cb) = CircuitOpen \<longleftrightarrow>
      int (trailing_failures (ops @ [OpFailure now])) = maxFail ?cb"
    by (auto simp: RecordFailure_def Let_def frame_simps)
  with * show ?thesis by blast
qed

theorem breaker_trip_condition_witness:
  "br_state (breaker_run ([OpFailure 1, OpSuccess, OpFailure 2] @ [OpFailure 3])
     (NewBreaker ''m'' (Some \<lparr>MaxFailures = 2, ResetTimeout = 10, HalfOpenMaxCalls = 1\<rparr>))) = CircuitOpen"
proof -
  let ?c = "Some \<lparr>MaxFailures = 2, ResetTimeout = 10, HalfOpenMaxCalls = 1\<rparr>"
  have max: "maxFail (NewBreaker ''m'' ?c) = 2"
    by (simp add: NewBreaker_def)
  have "int (trailing_failures (take k [OpFailure 1, OpSuccess, OpFailure 2])) < maxFail (NewBreaker ''m'' ?c)"
    if "k \<le> length [OpFailure 1, OpSuccess, OpFailure 2]" for k
  proof -
    from that consider "k = 0" | "k = 1" | "k = 2" | "k = 3" by fastforce
    then show ?thesis by cases (simp_all add: max trailing_failures_def)
  qed
  from breaker_trip_condition [OF this, of 3] show ?thesis
    by (simp add: max trailing_failures_def)
qed

section \<open>Probing\<close>

fun grants :: "int list \<Rightarrow> breaker \<Rightarrow> nat" where
  "grants [] cb = 0"
| "grants (t # ts) cb = (case Allow t cb of (ok, cb') \<Rightarrow> (if ok then 1 else 0) + grants ts cb')"

lemma half_open_grants:
  assumes "br_state cb = CircuitHalfOpen" "halfOpenCalls cb \<le> halfOpenMax cb"
  shows "grants ts cb = min (length ts) (nat (halfOpenMax cb - halfOpenCalls cb))"
  using assms
proof (induction ts arbitrary: cb)
  case Nil
  then show ?case by simp
next
  case (Cons t ts)
  show ?case
  proof (cases "halfOpenCalls cb < halfOpenMax cb")
    case True
    let ?cb = "cb\<lparr>halfOpenCalls := halfOpenCalls cb + 1\<rparr>"
    have "grants ts ?cb = min (length ts) (nat (halfOpenMax ?cb - halfOpenCalls ?cb))"
      using Cons True by (intro Cons.IH) simp_all
    with True Cons.prems show ?thesis by (auto simp: Allow_def)
  next
    case False
    with Cons show ?thesis by (auto simp: Allow_def)
  qed
qed

text \<open>
  Probe budget.  Once the reset timeout of an open breaker has elapsed, callers that report no
  outcome are granted exactly \<open>HalfOpenMaxCalls + 1\<close> calls however many ask: the call that moves
  the breaker to half-open is not counted against the budget.
\<close>

theorem probe_budget:
  assumes "breaker_inv cb" "br_state cb = CircuitOpen" "t - lastFailure cb > resetAfter cb"
  shows "grants (t # ts) cb = 1 + min (length ts) (nat (halfOpenMax cb))"
proof -
  have "grants ts (cb\<lparr>br_state := CircuitHalfOpen, halfOpenCalls := 0\<rparr>)
        = min (length ts) (nat (halfOpenMax cb))"
    using assms(1) by (subst half_open_grants) (auto simp: breaker_inv_def)
  with assms show ?thesis by (simp add: Allow_def)
qed

definition opened_breaker :: breaker where
  "opened_breaker = breaker_run [OpFailure 5]
     (NewBreaker ''m'' (Some \<lparr>MaxFailures = 1, ResetTimeout = 10, HalfOpenMaxCalls = 1\<rparr>))"

lemma opened_breaker_eq:
  "opened_breaker = \<lparr>br_name = ''m'', maxFail = 1, resetAfter = 10, halfOpenMax = 1,
     br_state = CircuitOpen, failures = 1, lastFailure = 5, halfOpenCalls = 0\<rparr>"
  by (simp add: opened_breaker_def NewBreaker_def RecordFailure_def)

theorem probe_budget_witness: "grants (20 # [21, 22, 23]) opened_breaker = 2"
  using probe_budget [of opened_breaker 20 "[21, 22, 23]"]
  by (simp add: opened_breaker_eq breaker_inv_def)

lemma half_open_successes:
  assumes "br_state cb = CircuitHalfOpen"
  shows "br_state (breaker_run (replicate n OpSuccess) cb) =
         (if 0 < n \<and> halfOpenCalls cb \<le> int n then CircuitClosed else CircuitHalfOpen)"
  using assms
proof (induction n arbitrary: cb)
  case 0
  then show ?case by simp
next
  case (Suc n)
  have closed: "br_state (breaker_run (replicate m OpSuccess) c) = CircuitClosed"
    if "br_state c = CircuitClosed" for m c
    using that by (induction m arbitrary: c) (simp_all add: RecordSuccess_def)
  show ?case
  proof (cases "halfOpenCalls cb \<le> 1")
    case True
    with Suc.prems have "br_state (RecordSuccess cb) = CircuitClosed"
      by (simp add: RecordSuccess_def Let_def)
    with True closed show ?thesis by simp
  next
    case False
    with Suc.prems have "br_state (RecordSuccess cb) = CircuitHalfOpen"
      "halfOpenCalls (RecordSuccess cb) = halfOpenCalls cb - 1"
      by (simp_all add: RecordSuccess_def Let_def)
    with Suc.IH [of "RecordSuccess cb"] False show ?thesis by auto
  qed
qed

lemma half_open_allows:
  assumes "br_state cb = CircuitHalfOpen" "halfOpenCalls cb + int (length ts) \<le> halfOpenMax cb"
  shows "br_state (breaker_run (map OpAllow ts) cb) = CircuitHalfOpen \<and>
         halfOpenCalls (breaker_run (map OpAllow ts) cb) = halfOpenCalls cb + int (length ts)"
  using assms by (induction ts arbitrary: cb) (simp_all add: Allow_def)

text \<open>
  Recovery.  When an open breaker's timeout has elapsed and \<open>k + 1\<close> probes are let through
  (\<open>k \<le> HalfOpenMaxCalls\<close>), \<open>max 1 k\<close> successes close it and fewer do not: the breaker is never
  stuck half-open while its probes succeed.
\<close>

theorem breaker_recovery:
  assumes "breaker_inv cb" "br_state cb = CircuitOpen" "t - lastFailure cb > resetAfter cb"
    and "int (length ts) \<le> halfOpenMax cb"
  shows "br_state (breaker_run (OpAllow t # map OpAllow ts @ replicate n OpSuccess) cb) =
         (if max 1 (length ts) \<le> n then CircuitClosed else CircuitHalfOpen)"
proof -
  let ?h = "cb\<lparr>br_state := CircuitHalfOpen, halfOpenCalls := 0\<rparr>"
  have step: "snd (Allow t cb) = ?h" using assms(2,3) by (simp add: Allow_def)
  have "br_state (breaker_run (map OpAllow ts) ?h) = CircuitHalfOpen"
    and "halfOpenCalls (breaker_run (map OpAllow ts) ?h) = int (length ts)"
    using half_open_allows [of ?h ts] assms(4) by simp_all
  then show ?thesis
    using half_open_successes [of "breaker_run (map OpAllow ts) ?h" n] step by auto
qed

theorem breaker_recovery_witness:
  "br_state (breaker_run (OpAllow 20 # map OpAllow [21] @ replicate 1 OpSuccess) opened_breaker) = CircuitClosed"
  using breaker_recovery [of opened_breaker 20 "[21]" 1]
  by (simp add: opened_breaker_eq breaker_inv_def)

section \<open>Model handlers and the middleware chain\<close>

text \<open>
  A \<open>ModelHandler\<close> is a state transformer over the world \<open>'w\<close>: it takes the messages and returns
  the response (with its usage) and an error.  A middleware that embeds no \<open>WrapGenerate\<close>
  function, or a nil entry of the chain, is \<open>None\<close>.
\<close>

type_synonym ('m, 'r, 'w) handler = "'m \<Rightarrow> 'w \<Rightarrow> ('r \<times> go_error option) \<times> 'w"

record ('m, 'r, 'w) func_middleware =
  fm_name :: string
  fm_wrap :: "(('m, 'r, 'w) handler \<Rightarrow> ('m, 'r, 'w) handler) option"

definition WrapGenerate :: "('m, 'r, 'w) func_middleware \<Rightarrow> ('m, 'r, 'w) handler \<Rightarrow> ('m, 'r, 'w) handler" where
  "WrapGenerate f next_h = (case fm_wrap f of None \<Rightarrow> next_h | Some g \<Rightarrow> g next_h)"

fun apply_from :: "('m, 'r, 'w) func_middleware option list \<Rightarrow> nat \<Rightarrow> ('m, 'r, 'w) handler \<Rightarrow> ('m, 'r, 'w) handler" where
  "apply_from mws 0 handler = handler"
| "apply_from mws (Suc i) handler =
     apply_from mws i (case mws ! i of None \<Rightarrow> handler | Some m \<Rightarrow> WrapGenerate m handler)"

definition Apply :: "('m, 'r, 'w) handler \<Rightarrow> ('m, 'r, 'w) func_middleware option list \<Rightarrow> ('m, 'r, 'w) handler" where
  "Apply handler mws = apply_from mws (length mws) handler"

lemma apply_from_Cons:
  "apply_from (m # mws) (Suc i) h =
     (case m of None \<Rightarrow> apply_from mws i h | Some f \<Rightarrow> WrapGenerate f (apply_from mws i h))"
proof (induction i arbitrary: h)
  case 0
  then show ?case by (cases m) simp_all
next
  case (Suc i)
  have "apply_from (m # mws) (Suc (Suc i)) h =
        apply_from (m # mws) (Suc i) (case mws ! i of None \<Rightarrow> h | Some f \<Rightarrow> WrapGenerate f h)"
    by (subst apply_from.simps(2)) (simp only: nth_Cons_Suc)
  also note Suc.IH
  finally show ?case by (simp only: apply_from.simps(2) [of mws i])
qed

lemma Apply_Nil [simp]: "Apply h [] = h"
  by (simp add: Apply_def)

lemma Apply_Cons:
  "Apply h (m # mws) = (case m of None \<Rightarrow> Apply h mws | Some f \<Rightarrow> WrapGenerate f (Apply h mws))"
  by (simp only: Apply_def list.size(4) apply_from_Cons add_0_right add_Suc_right)

text \<open>
  Chain order.  The index loop of \<open>Apply\<close>, which wraps from the last middleware to the first,
  builds the onion with the first middleware outermost; chains compose, and nil entries and
  middlewares without a wrap function leave the handler as it is.
\<close>

theorem Apply_onion:
  "Apply h (mws @ mws') = Apply (Apply h mws') mws \<and>
   Apply h mws = foldr (\<lambda>m k. case m of None \<Rightarrow> k | Some f \<Rightarrow> WrapGenerate f k) mws h"
proof -
  have *: "Apply h mws = foldr (\<lambda>m k. case m of None \<Rightarrow> k | Some f \<Rightarrow> WrapGenerate f k) mws h" for h mws
    by (induction mws) (simp_all add: Apply_Cons split: option.split)
  show ?thesis
    unfolding * foldr_append by (simp add: comp_def)
qed

end
