(* ===== verification/Resilience.thy ===== *)
theory Resilience
  imports CircuitBreaker Complex_Main
begin

text \<open>
  The resilience middlewares of \<open>core/kernel/resilience.go\<close> over their two interfaces, and the
  token-bucket limiter of \<open>middleware/ratelimiter/ratelimiter.go\<close>.

  The world of a model call is a pair: the breaker (or limiter) and the rest \<open>'w\<close>, whose clock
  reads through \<open>clock\<close>.  The limiter's \<open>float64\<close> tokens are reals: the rounding of the
  additions is not modelled.
\<close>

section \<open>The circuit-breaker middleware\<close>

type_synonym 'b allow_fn = "int \<Rightarrow> 'b \<Rightarrow> bool \<times> 'b"

text \<open>The report of a call that was let through.\<close>

definition circuit_report :: "('b \<Rightarrow> 'b) \<Rightarrow> (int \<Rightarrow> 'b \<Rightarrow> 'b) \<Rightarrow> int \<Rightarrow> go_error option \<Rightarrow> 'b \<Rightarrow> 'b" where
  "circuit_report success failure now err b = (case err of Some _ \<Rightarrow> failure now b | None \<Rightarrow> success b)"

definition circuit_generate ::
  "'b allow_fn \<Rightarrow> ('b \<Rightarrow> 'b) \<Rightarrow> (int \<Rightarrow> 'b \<Rightarrow> 'b) \<Rightarrow> string \<Rightarrow> ('w \<Rightarrow> int) \<Rightarrow>
   ('m, 'r option, 'w) handler \<Rightarrow> ('m, 'r option, 'b \<times> 'w) handler" where
  "circuit_generate allow success failure name clock next_h msgs bw = (case bw of (b, w) \<Rightarrow>
     (case allow (clock w) b of (ok, b') \<Rightarrow>
        if \<not> ok then ((None, Some (NewCircuitError name)), (b', w))
        else (case next_h msgs w of ((resp, err), w') \<Rightarrow>
                ((resp, err), (circuit_report success failure (clock w') err b', w')))))"

record 's circuit_stream_reader =
  csr_reader :: 's
  csr_failed :: bool

definition circuit_stream ::
  "'b allow_fn \<Rightarrow> (int \<Rightarrow> 'b \<Rightarrow> 'b) \<Rightarrow> string \<Rightarrow> ('w \<Rightarrow> int) \<Rightarrow>
   ('m, 's, 'w) handler \<Rightarrow> 'm \<Rightarrow> 'b \<times> 'w \<Rightarrow>
   ('s circuit_stream_reader option \<times> 's option \<times> go_error option) \<times> ('b \<times> 'w)" where
  "circuit_stream allow failure name clock next_h msgs bw = (case bw of (b, w) \<Rightarrow>
     (case allow (clock w) b of (ok, b') \<Rightarrow>
        if \<not> ok then ((None, None, Some (NewCircuitError name)), (b', w))
        else (case next_h msgs w of ((stream, err), w') \<Rightarrow>
                (case err of
                   Some e \<Rightarrow> ((None, Some stream, Some e), (failure (clock w') b', w'))
                 | None \<Rightarrow> ((Some \<lparr>csr_reader = stream, csr_failed = False\<rparr>, None, None), (b', w'))))))"

text \<open>\<open>Recv\<close> of the wrapped reader: the error the inner \<open>Recv\<close> returned decides the flag.\<close>

definition circuit_recv :: "go_error option \<Rightarrow> 's circuit_stream_reader \<Rightarrow> 's circuit_stream_reader" where
  "circuit_recv err r = (case err of
     Some e \<Rightarrow> (if \<not> errors_is IoEOF e \<and> \<not> errors_is CtxCanceled e \<and> \<not> errors_is CtxDeadlineExceeded e
               then r\<lparr>csr_failed := True\<rparr> else r)
   | None \<Rightarrow> r)"

definition circuit_close :: "('b \<Rightarrow> 'b) \<Rightarrow> (int \<Rightarrow> 'b \<Rightarrow> 'b) \<Rightarrow> int \<Rightarrow> 's circuit_stream_reader \<Rightarrow> 'b \<Rightarrow> 'b" where
  "circuit_close success failure now r b = (if csr_failed r then failure now b else success b)"

section \<open>The interface\<close>

text \<open>What a caller of \<open>kernel.CircuitBreaker\<close> relies on.\<close>

locale circuit_breaker =
  fixes allow :: "int \<Rightarrow> 'b \<Rightarrow> bool \<times> 'b"
    and success :: "'b \<Rightarrow> 'b"
    and failure :: "int \<Rightarrow> 'b \<Rightarrow> 'b"
    and state :: "'b \<Rightarrow> CircuitState"
    and inv :: "'b \<Rightarrow> bool"
  assumes allow_inv: "inv b \<Longrightarrow> inv (snd (allow t b))"
    and success_inv: "inv b \<Longrightarrow> inv (success b)"
    and failure_inv: "inv b \<Longrightarrow> inv (failure t b)"
    and allow_closed: "state b = CircuitClosed \<Longrightarrow> allow t b = (True, b)"
    and reject_unchanged: "\<not> fst (allow t b) \<Longrightarrow> snd (allow t b) = b"
    and success_closed: "state b = CircuitClosed \<Longrightarrow> state (success b) = CircuitClosed"
    and failure_trips: "state b = CircuitHalfOpen \<Longrightarrow> state (failure t b) = CircuitOpen"
begin

abbreviation generate where
  "generate \<equiv> circuit_generate allow success failure"

lemma generate_inv:
  "inv b \<Longrightarrow> inv (fst (snd (generate name clock next_h msgs (b, w))))"
  using allow_inv [of b "clock w"]
  by (auto simp: circuit_generate_def circuit_report_def success_inv failure_inv split: prod.split option.split)

lemma generate_rejected:
  assumes "\<not> fst (allow (clock w) b)"
  shows "generate name clock next_h msgs (b, w) = ((None, Some (NewCircuitError name)), (b, w))"
  using assms reject_unchanged [OF assms]
  by (cases "allow (clock w) b") (simp add: circuit_generate_def)

lemma generate_closed:
  assumes "state b = CircuitClosed" "next_h msgs w = ((resp, err), w')"
  shows "generate name clock next_h msgs (b, w) =
    ((resp, err), (case err of None \<Rightarrow> success b | Some _ \<Rightarrow> failure (clock w') b, w'))"
  using assms by (simp add: circuit_generate_def circuit_report_def allow_closed split: option.split)

lemma generate_passes_result:
  assumes "fst (allow (clock w) b)"
  shows "fst (generate name clock next_h msgs (b, w)) = fst (next_h msgs w) \<and>
         snd (snd (generate name clock next_h msgs (b, w))) = snd (next_h msgs w)"
  using assms by (auto simp: circuit_generate_def split: prod.split option.split)

end

lemma Allow_reject: "\<not> fst (Allow t cb) \<Longrightarrow> snd (Allow t cb) = cb"
  by (auto simp: Allow_def split: CircuitState.splits if_splits)

interpretation cb: circuit_breaker Allow RecordSuccess RecordFailure br_state breaker_inv
  by unfold_locales
    (auto simp: inv_intros Allow_reject, auto simp: breaker_ops Let_def)

section \<open>Concurrent calls\<close>

text \<open>
  A request passes the middleware in two steps of its own: it enters, asking the breaker and calling the provider
  if it is let through, and later it leaves and reports.  The steps of different requests interleave in any order;
  each reads the clock.  \<open>cs_calls\<close> counts the provider's calls and \<open>cs_peak\<close> the most that were ever
  in flight at once, both for the statements only.
\<close>

datatype circuit_event = Enter nat int | Leave nat int "go_error option"

record circuit_sys =
  cs_breaker :: breaker
  cs_inflight :: "nat list"
  cs_calls :: nat
  cs_peak :: nat

fun circuit_exec :: "circuit_event \<Rightarrow> circuit_sys \<Rightarrow> circuit_sys option" where
  "circuit_exec (Enter i now) s = (case Allow now (cs_breaker s) of (ok, b) \<Rightarrow>
     if \<not> ok then Some (s\<lparr>cs_breaker := b\<rparr>)
     else Some (s\<lparr>cs_breaker := b, cs_inflight := i # cs_inflight s, cs_calls := cs_calls s + 1,
                  cs_peak := max (cs_peak s) (length (cs_inflight s) + 1)\<rparr>))"
| "circuit_exec (Leave i now err) s =
     (if i \<notin> set (cs_inflight s) then None
      else Some (s\<lparr>cs_breaker := circuit_report RecordSuccess RecordFailure now err (cs_breaker s),
                   cs_inflight := remove1 i (cs_inflight s)\<rparr>))"

fun circuit_run :: "circuit_event list \<Rightarrow> circuit_sys \<Rightarrow> circuit_sys option" where
  "circuit_run [] s = Some s"
| "circuit_run (ev # evs) s = Option.bind (circuit_exec ev s) (circuit_run evs)"

definition circuit_start :: "string \<Rightarrow> breaker_config option \<Rightarrow> circuit_sys" where
  "circuit_start name cfg = \<lparr>cs_breaker = NewBreaker name cfg, cs_inflight = [], cs_calls = 0, cs_peak = 0\<rparr>"

text \<open>One request alone: entering and leaving is the middleware's handler.\<close>

lemma generate_events:
  assumes "next_h msgs w = ((resp, err), w')" "cs_inflight s = []"
  shows "map_option cs_breaker (circuit_run (if fst (Allow (clock w) (cs_breaker s)) then [Enter i (clock w), Leave i (clock w') err]
      else [Enter i (clock w)]) s) =
    Some (fst (snd (cb.generate name clock next_h msgs (cs_breaker s, w))))"
  using assms by (auto simp: circuit_generate_def split: prod.split)

fun event_in_window :: "int \<Rightarrow> int \<Rightarrow> circuit_event \<Rightarrow> bool" where
  "event_in_window lo hi (Enter i now) \<longleftrightarrow> lo \<le> now \<and> now \<le> hi"
| "event_in_window lo hi (Leave i now err) \<longleftrightarrow> lo \<le> now \<and> now \<le> hi"

fun event_fails :: "circuit_event \<Rightarrow> bool" where
  "event_fails (Enter i now) \<longleftrightarrow> True"
| "event_fails (Leave i now err) \<longleftrightarrow> err \<noteq> None"

text \<open>
  A closed breaker has counted every answer; an open one stays open for the window, and let through no
  more than the answers that opened it and the calls in flight beside the last of them.
\<close>

definition shedding :: "int \<Rightarrow> int \<Rightarrow> circuit_sys \<Rightarrow> bool" where
  "shedding lo hi s \<longleftrightarrow> (let b = cs_breaker s in
     breaker_inv b \<and> hi - lo \<le> resetAfter b \<and>
     length (cs_inflight s) \<le> cs_peak s \<and> length (cs_inflight s) \<le> cs_calls s \<and>
     int (cs_calls s) \<le> maxFail b + int (cs_peak s - 1) \<and> (cs_peak s = 0 \<longrightarrow> cs_calls s = 0) \<and>
     (br_state b = CircuitClosed \<and> failures b = int (cs_calls s) - int (length (cs_inflight s)) \<or>
      br_state b = CircuitOpen \<and> lo \<le> lastFailure b \<and> maxFail b \<le> int (cs_calls s) - int (length (cs_inflight s))))"

lemma open_refuses:
  "br_state b = CircuitOpen \<Longrightarrow> hi - lo \<le> resetAfter b \<Longrightarrow> lo \<le> lastFailure b \<Longrightarrow> now \<le> hi \<Longrightarrow> Allow now b = (False, b)"
  by (simp add: Allow_def)

lemma shedding_exec:
  assumes inv: "shedding lo hi s" and ev: "event_in_window lo hi ev" "event_fails ev" and ex: "circuit_exec ev s = Some s'"
  shows "shedding lo hi s' \<and> maxFail (cs_breaker s') = maxFail (cs_breaker s)"
proof (cases ev)
  case (Enter i now)
  show ?thesis
  proof (cases "br_state (cs_breaker s) = CircuitClosed")
    case True
    then show ?thesis
      using inv ex Enter by (auto simp: shedding_def Let_def Allow_def breaker_inv_def)
  next
    case False
    then have "Allow now (cs_breaker s) = (False, cs_breaker s)"
      using inv ev Enter open_refuses [of "cs_breaker s" hi lo now] by (auto simp: shedding_def Let_def)
    then show ?thesis using inv ex Enter by simp
  qed
next
  case (Leave i now err)
  then obtain e where e: "err = Some e" using ev(2) by auto
  let ?b = "cs_breaker s" and ?n = "length (cs_inflight s)"
  have i: "i \<in> set (cs_inflight s)" using ex Leave by (simp split: if_splits)
  then have len: "length (remove1 i (cs_inflight s)) = ?n - 1" "0 < ?n"
    by (auto simp: length_remove1)
  have s': "s' = s\<lparr>cs_breaker := RecordFailure now ?b, cs_inflight := remove1 i (cs_inflight s)\<rparr>"
    using ex Leave i e by (simp add: circuit_report_def)
  have le: "?n - 1 \<le> cs_peak s" "?n - 1 \<le> cs_calls s" "int (cs_calls s) - int (?n - 1) = int (cs_calls s) - int ?n + 1"
  proof -
    have "?n \<le> cs_peak s" "?n \<le> cs_calls s" using inv by (simp_all add: shedding_def Let_def)
    with len(2) show "?n - 1 \<le> cs_peak s" "?n - 1 \<le> cs_calls s"
      "int (cs_calls s) - int (?n - 1) = int (cs_calls s) - int ?n + 1" by linarith+
  qed
  have inv': "breaker_inv (RecordFailure now ?b)" using inv by (simp add: shedding_def Let_def RecordFailure_inv)
  consider (closed) "br_state ?b = CircuitClosed" "failures ?b = int (cs_calls s) - int ?n"
    | (opened) "br_state ?b = CircuitOpen" "lo \<le> lastFailure ?b" "maxFail ?b \<le> int (cs_calls s) - int ?n"
    using inv unfolding shedding_def Let_def by blast
  then show ?thesis
  proof cases
    case closed
    then have r: "RecordFailure now ?b = (if failures ?b + 1 \<ge> maxFail ?b
        then ?b\<lparr>lastFailure := now, failures := failures ?b + 1, br_state := CircuitOpen\<rparr>
        else ?b\<lparr>lastFailure := now, failures := failures ?b + 1\<rparr>)"
      by (simp add: RecordFailure_def)
    show ?thesis
      using inv inv' le ev(1) Leave closed unfolding shedding_def Let_def s'
      by (simp add: r len(1) del: One_nat_def, linarith?)
  next
    case opened
    then have r: "RecordFailure now ?b = ?b\<lparr>lastFailure := now\<rparr>" by (simp add: RecordFailure_def)
    show ?thesis
      using inv inv' le ev(1) Leave opened unfolding shedding_def Let_def s'
      by (simp add: r len(1) del: One_nat_def, linarith?)
  qed
qed

lemma shedding_run:
  "shedding lo hi s \<Longrightarrow> \<forall>ev \<in> set evs. event_in_window lo hi ev \<and> event_fails ev \<Longrightarrow> circuit_run evs s = Some s' \<Longrightarrow>
   shedding lo hi s' \<and> maxFail (cs_breaker s') = maxFail (cs_breaker s)"
proof (induction evs arbitrary: s)
  case Nil
  then show ?case by simp
next
  case (Cons ev evs)
  then obtain s1 where s1: "circuit_exec ev s = Some s1" "circuit_run evs s1 = Some s'"
    by (auto simp: bind_eq_Some_conv)
  have "shedding lo hi s1 \<and> maxFail (cs_breaker s1) = maxFail (cs_breaker s)"
    by (rule shedding_exec [OF Cons.prems(1) _ _ s1(1)]) (use Cons.prems(2) in simp_all)
  then show ?case using Cons.IH [of s1] Cons.prems(2) s1(2) by simp
qed

text \<open>
  C9. Load shedding.  While the provider keeps failing inside one reset window, and however the requests
  interleave, the breaker is open as soon as \<open>MaxFailures\<close> of them have been answered and refuses every request
  from then on; the provider is called at most \<open>MaxFailures\<close> times and once more for each further
  request that was in flight at the peak, so at most \<open>MaxFailures\<close> times by requests that come one after the other.
\<close>

theorem breaker_sheds_load:
  assumes "circuit_run evs (circuit_start name cfg) = Some s"
    and "\<forall>ev \<in> set evs. event_in_window lo hi ev \<and> event_fails ev"
    and "hi - lo \<le> resetAfter (NewBreaker name cfg)"
  shows "int (cs_calls s) \<le> maxFail (NewBreaker name cfg) + int (cs_peak s - 1) \<and>
    (if int (cs_calls s - length (cs_inflight s)) < maxFail (NewBreaker name cfg) then br_state (cs_breaker s) = CircuitClosed
     else \<forall>i now. lo \<le> now \<and> now \<le> hi \<longrightarrow> circuit_exec (Enter i now) s = Some s)"
proof -
  have "shedding lo hi (circuit_start name cfg)"
    using assms(3) NewBreaker_inv [of name cfg]
    by (simp add: shedding_def circuit_start_def Let_def NewBreaker_state NewBreaker_failures breaker_inv_def)
  from shedding_run [OF this assms(2,1)]
  have inv: "shedding lo hi s" and max: "maxFail (cs_breaker s) = maxFail (NewBreaker name cfg)"
    by (simp_all add: circuit_start_def)
  have "circuit_exec (Enter i now) s = Some s" if "br_state (cs_breaker s) = CircuitOpen" "lo \<le> now \<and> now \<le> hi" for i now
    using inv that open_refuses [of "cs_breaker s" hi lo now] by (simp add: shedding_def Let_def)
  then show ?thesis
    using inv max by (auto simp: shedding_def Let_def breaker_inv_def of_nat_diff)
qed

definition two_failures :: "breaker_config option" where
  "two_failures = Some \<lparr>MaxFailures = 2, ResetTimeout = 10, HalfOpenMaxCalls = 1\<rparr>"

text \<open>Three requests that enter after the first failure are all let through: the bound is reached.\<close>

theorem breaker_sheds_load_witness:
  "\<exists>s. circuit_run [Enter 0 5, Leave 0 6 (Some (Errorf ''down'')), Enter 1 6, Enter 2 6, Enter 3 6,
       Leave 2 7 (Some (Errorf ''down'')), Enter 4 8] (circuit_start ''m'' two_failures) = Some s \<and>
     cs_calls s = 4 \<and> cs_peak s = 3 \<and> int (cs_calls s) \<le> 2 + int (cs_peak s - 1) \<and>
     circuit_exec (Enter 5 9) s = Some s"
proof -
  let ?evs = "[Enter 0 5, Leave 0 6 (Some (Errorf ''down'')), Enter 1 6, Enter 2 6, Enter 3 6,
       Leave 2 7 (Some (Errorf ''down'')), Enter 4 8]"
  have "\<exists>s. circuit_run ?evs (circuit_start ''m'' two_failures) = Some s \<and> cs_calls s = 4 \<and> cs_peak s = 3 \<and> length (cs_inflight s) = 2"
    by (simp add: circuit_start_def two_failures_def NewBreaker_def Allow_def RecordFailure_def circuit_report_def)
  then obtain s where s: "circuit_run ?evs (circuit_start ''m'' two_failures) = Some s" "cs_calls s = 4" "cs_peak s = 3"
    "length (cs_inflight s) = 2" by blast
  have max: "maxFail (NewBreaker ''m'' two_failures) = 2" "resetAfter (NewBreaker ''m'' two_failures) = 10"
    by (simp_all add: NewBreaker_def two_failures_def)
  have "circuit_exec (Enter 5 9) s = Some s"
    using breaker_sheds_load [OF s(1), of 5 9] s(2,4) by (simp add: max)
  with s breaker_sheds_load [OF s(1), of 5 9] show ?thesis by (intro exI [of _ s]) (simp add: max)
qed

text \<open>
  Stream accounting.  However the chunks of a stream arrive, closing it reports exactly one
  outcome to the breaker: a failure when some \<open>Recv\<close> returned an error that is neither the
  normal end of stream nor a cancellation, a success otherwise.
\<close>

theorem stream_outcome:
  fixes s :: 's
  shows "circuit_close success failure now
     (fold circuit_recv errs \<lparr>csr_reader = s, csr_failed = False\<rparr>) b =
   (if \<exists>e. Some e \<in> set errs \<and> \<not> errors_is IoEOF e \<and> \<not> IsCancelled e then failure now b else success b)"
proof -
  have "csr_failed (fold circuit_recv errs r) \<longleftrightarrow>
      csr_failed r \<or> (\<exists>e. Some e \<in> set errs \<and> \<not> errors_is IoEOF e \<and> \<not> IsCancelled e)"
    for r :: "'s circuit_stream_reader"
  proof (induction errs arbitrary: r)
    case Nil
    then show ?case by simp
  next
    case (Cons x errs)
    then show ?case by (cases x) (auto simp: circuit_recv_def IsCancelled_def)
  qed
  then show ?thesis by (simp add: circuit_close_def)
qed

section \<open>The token-bucket limiter\<close>

record limiter =
  tokens :: real
  capacity :: real
  rate :: real
  lastTime :: int

definition NewLimiter :: "real \<Rightarrow> real \<Rightarrow> int \<Rightarrow> limiter" where
  "NewLimiter cap0 rate0 now =
     (let cap = (if cap0 \<le> 0 then 1 else cap0); r = (if rate0 \<le> 0 then 1 else rate0)
      in \<lparr>tokens = cap, capacity = cap, rate = r, lastTime = now\<rparr>)"

text \<open>Nanoseconds to seconds, as \<open>Duration.Seconds\<close>.\<close>

definition seconds :: "int \<Rightarrow> real" where
  "seconds d = real_of_int d / 1000000000"

definition LimiterAllow :: "int \<Rightarrow> limiter \<Rightarrow> bool \<times> limiter" where
  "LimiterAllow now rl =
     (let elapsed = seconds (now - lastTime rl);
          t = tokens rl + elapsed * rate rl;
          t = (if t > capacity rl then capacity rl else t);
          rl = rl\<lparr>lastTime := now, tokens := t\<rparr>
      in if t \<ge> 1 then (True, rl\<lparr>tokens := t - 1\<rparr>) else (False, rl))"

definition ratelimit_generate ::
  "('l \<Rightarrow> bool \<times> 'l) \<Rightarrow> ('m, 'r option, 'w) handler \<Rightarrow> ('m, 'r option, 'l \<times> 'w) handler" where
  "ratelimit_generate allow next_h msgs lw = (case lw of (l, w) \<Rightarrow>
     (case allow l of (ok, l') \<Rightarrow>
        if \<not> ok then ((None, Some (Sentinel ErrRateLimited)), (l', w))
        else (case next_h msgs w of (r, w') \<Rightarrow> (r, (l', w')))))"

definition limiter_inv :: "limiter \<Rightarrow> bool" where
  "limiter_inv rl \<longleftrightarrow> 0 < capacity rl \<and> 0 < rate rl \<and> 0 \<le> tokens rl \<and> tokens rl \<le> capacity rl"

lemma NewLimiter_inv [inv_intros]: "limiter_inv (NewLimiter c r now)"
  by (simp add: limiter_inv_def NewLimiter_def Let_def)

lemma seconds_nonneg: "0 \<le> d \<Longrightarrow> 0 \<le> seconds d"
  by (simp add: seconds_def)

lemma LimiterAllow_frame [frame_simps]:
  "capacity (snd (LimiterAllow now rl)) = capacity rl"
  "rate (snd (LimiterAllow now rl)) = rate rl"
  "lastTime (snd (LimiterAllow now rl)) = now"
  by (simp_all add: LimiterAllow_def Let_def)

lemma LimiterAllow_inv [inv_intros]:
  assumes "limiter_inv rl" "lastTime rl \<le> now"
  shows "limiter_inv (snd (LimiterAllow now rl))"
proof -
  have "0 \<le> seconds (now - lastTime rl) * rate rl"
    using assms by (simp add: limiter_inv_def seconds_nonneg)
  then show ?thesis
    using assms by (auto simp: limiter_inv_def LimiterAllow_def Let_def)
qed

lemma LimiterAllow_spends:
  "tokens (snd (LimiterAllow now rl)) + (if fst (LimiterAllow now rl) then 1 else 0)
     \<le> tokens rl + seconds (now - lastTime rl) * rate rl"
  by (simp add: LimiterAllow_def Let_def)

fun limiter_grants :: "int list \<Rightarrow> limiter \<Rightarrow> nat" where
  "limiter_grants [] rl = 0"
| "limiter_grants (t # ts) rl =
     (case LimiterAllow t rl of (ok, rl') \<Rightarrow> (if ok then 1 else 0) + limiter_grants ts rl')"

lemma limiter_grants_le:
  assumes "limiter_inv rl" "sorted (lastTime rl # ts)"
  shows "real (limiter_grants ts rl) \<le> tokens rl + seconds (last (lastTime rl # ts) - lastTime rl) * rate rl"
  using assms
proof (induction ts arbitrary: rl)
  case Nil
  then show ?case by (simp add: limiter_inv_def seconds_def)
next
  case (Cons t ts)
  obtain ok rl' where A: "LimiterAllow t rl = (ok, rl')" by force
  have eq: "lastTime rl' = t" "rate rl' = rate rl"
    using LimiterAllow_frame [of t rl] A by simp_all
  have "limiter_inv rl'"
    using LimiterAllow_inv [of rl t] Cons.prems A by simp
  then have "real (limiter_grants ts rl') \<le> tokens rl' + seconds (last (t # ts) - t) * rate rl"
    using Cons.IH [of rl'] Cons.prems eq by simp
  moreover have "tokens rl' + (if ok then 1 else 0) \<le> tokens rl + seconds (t - lastTime rl) * rate rl"
    using LimiterAllow_spends [of t rl] A by simp
  moreover have "seconds (last (lastTime rl # t # ts) - lastTime rl) * rate rl =
      seconds (last (t # ts) - t) * rate rl + seconds (t - lastTime rl) * rate rl"
    by (simp add: seconds_def field_simps)
  ultimately show ?case using A by auto
qed

text \<open>
  Rate bound.  A fresh limiter grants, over any run of requests with nondecreasing times, at
  most its capacity plus the tokens its rate produces from its creation to the last request.
\<close>

theorem limiter_rate_bound:
  assumes "sorted (t0 # ts)"
  shows "real (limiter_grants ts (NewLimiter c r t0))
         \<le> capacity (NewLimiter c r t0) + seconds (last (t0 # ts) - t0) * rate (NewLimiter c r t0)"
proof -
  have "lastTime (NewLimiter c r t0) = t0" "tokens (NewLimiter c r t0) = capacity (NewLimiter c r t0)"
    by (simp_all add: NewLimiter_def Let_def)
  with limiter_grants_le [OF NewLimiter_inv, of c r t0 ts] assms show ?thesis by simp
qed

theorem limiter_rate_bound_witness:
  "real (limiter_grants [0, 0, 0, 1000000000] (NewLimiter 2 1 0)) \<le> 3"
proof -
  have "sorted ((0::int) # [0, 0, 0, 1000000000])" by simp
  from limiter_rate_bound [OF this, of 2 1] show ?thesis
    by (simp add: NewLimiter_def seconds_def)
qed

text \<open>A rejected request never reaches the model and is answered with the bare sentinel.\<close>

lemma ratelimit_rejects:
  "\<not> fst (allow l) \<Longrightarrow>
   ratelimit_generate allow next_h msgs (l, w) = ((None, Some (Sentinel ErrRateLimited)), (snd (allow l), w))"
  by (cases "allow l") (simp add: ratelimit_generate_def)

end
