(* ===== verification/RuntimeHooks.thy ===== *)
theory RuntimeHooks
  imports AgentCompose Resilience
begin

text \<open>
  The hook machinery of \<open>core/runtime/runtime.go\<close>: registration and unregistration, the panic-safe
  firing of each hook list, the enrichment with the run's identity, and the step lifecycle
  \<open>RunStep\<close>; the step index of \<open>core/kernel/agentcontext.go\<close>.

  A hook acts on the world and may panic.  The context keeps what this code reads of it: the run's
  identity, whether the run's \<open>AgentContext\<close> has an event sender, and the step index; \<open>cx_key\<close> stands for its deadline and other values.  A hook that
  returns without panicking returns a non-nil context; the nil context a recovered panic leaves is
  \<open>None\<close>.  A nil \<open>*Runtime\<close> receiver is not modelled.
\<close>

section \<open>Contexts, hook arguments and the runtime\<close>

record go_ctx =
  cx_agent :: "(string \<times> string) option"
  cx_step :: "int option"
  cx_send :: bool
  cx_key :: nat

definition WithStepIndex :: "go_ctx \<Rightarrow> int \<Rightarrow> go_ctx" where
  "WithStepIndex ctx n = ctx\<lparr>cx_step := Some n\<rparr>"

record agent_run_info =
  ari_agentName :: string
  ari_invocationID :: string
  ari_runPath :: string
  ari_branch :: string
  ari_input :: "agent_input option"

record run_info =
  ri_invocationID :: string
  ri_agentName :: string
  ri_input :: "agent_input option"
  ri_allMsgs :: messages
  ri_result :: "agent_result option"
  ri_err :: "go_error option"
  ri_checkpointID :: string

record step_info =
  si_invocationID :: string
  si_agentName :: string
  si_messages :: "messages option"
  si_stepIndex :: int
  si_maxSteps :: int
  si_hasToolCalls :: bool
  si_continue :: bool

record model_call_info =
  mi_invocationID :: string
  mi_agentName :: string
  mi_stepIndex :: int
  mi_messages :: "messages option"
  mi_response :: "message option"
  mi_usage :: "token_usage option"
  mi_error :: "go_error option"

record tool_call_info =
  ti_invocationID :: string
  ti_agentName :: string
  ti_stepIndex :: int
  ti_name :: string
  ti_args :: string
  ti_effects :: "tool_effect list"
  ti_result :: string
  ti_parts :: "content_part list option"
  ti_error :: "go_error option"

record decision_info =
  di_invocationID :: string
  di_agentName :: string
  di_stepIndex :: int
  di_tool :: string
  di_args :: string
  di_decision :: string
  di_reason :: string

type_synonym ('i, 'w) hook = "go_ctx \<Rightarrow> 'i \<Rightarrow> 'w \<Rightarrow> (go_ctx \<times> 'i \<times> go_error option) call \<times> 'w"

record retry_policy =
  rp_MaxRetries :: int
  rp_BaseDelay :: int64
  rp_MaxDelay :: int64
  rp_RetryOnTool :: bool
  rp_RetryOnModel :: bool

record tool_info =
  tf_name :: string
  tf_description :: string

record gen_config =
  gc_tools :: "tool_info list option"
  gc_options :: nat

text \<open>A stream is the list of what its \<open>Recv\<close> calls return; behind its end \<open>Recv\<close> returns \<open>io.EOF\<close>.\<close>

type_synonym raw_stream = "(message option \<times> go_error option) list"

record 'w model =
  mo_generate :: "gen_config \<Rightarrow> (go_ctx \<times> messages, message option \<times> token_usage option, 'w) handler"
  mo_stream :: "gen_config \<Rightarrow> (go_ctx \<times> messages, raw_stream, 'w) handler"

record 'w registry =
  rg_get :: "string \<Rightarrow> 'w \<Rightarrow> 'w tool option"
  rg_list :: "'w \<Rightarrow> 'w tool list"

record 'w runtime =
  rt_model :: "'w model option"
  rt_tools :: "'w registry option"
  rt_policy :: retry_policy
  agentStartHooks :: "(agent_run_info option, 'w) hook option list"
  agentEndHooks :: "(run_info option, 'w) hook option list"
  messagesHooks :: "(messages, 'w) hook option list"
  stepStartHooks :: "(step_info option, 'w) hook option list"
  stepEndHooks :: "(step_info option, 'w) hook option list"
  modelCallHooks :: "(model_call_info option, 'w) hook option list"
  modelResultHooks :: "(model_call_info option, 'w) hook option list"
  toolCallHooks :: "(tool_call_info option, 'w) hook option list"
  toolResultHooks :: "(tool_call_info option, 'w) hook option list"
  decisionHooks :: "(decision_info option, 'w) hook option list"

section \<open>Registration\<close>

text \<open>The unregister function captures the index at registration and sets that entry to nil.\<close>

definition clear_at :: "nat \<Rightarrow> 'h option list \<Rightarrow> 'h option list" where
  "clear_at idx hooks = hooks[idx := None]"

definition OnAgentStart where
  "OnAgentStart fn rt = (rt\<lparr>agentStartHooks := agentStartHooks rt @ [Some fn]\<rparr>,
     \<lambda>rt'. rt'\<lparr>agentStartHooks := clear_at (length (agentStartHooks rt)) (agentStartHooks rt')\<rparr>)"

definition OnAgentEnd where
  "OnAgentEnd fn rt = (rt\<lparr>agentEndHooks := agentEndHooks rt @ [Some fn]\<rparr>,
     \<lambda>rt'. rt'\<lparr>agentEndHooks := clear_at (length (agentEndHooks rt)) (agentEndHooks rt')\<rparr>)"

definition OnMessagesBuilt where
  "OnMessagesBuilt fn rt = (rt\<lparr>messagesHooks := messagesHooks rt @ [Some fn]\<rparr>,
     \<lambda>rt'. rt'\<lparr>messagesHooks := clear_at (length (messagesHooks rt)) (messagesHooks rt')\<rparr>)"

definition OnStepStart where
  "OnStepStart fn rt = (rt\<lparr>stepStartHooks := stepStartHooks rt @ [Some fn]\<rparr>,
     \<lambda>rt'. rt'\<lparr>stepStartHooks := clear_at (length (stepStartHooks rt)) (stepStartHooks rt')\<rparr>)"

definition OnStepEnd where
  "OnStepEnd fn rt = (rt\<lparr>stepEndHooks := stepEndHooks rt @ [Some fn]\<rparr>,
     \<lambda>rt'. rt'\<lparr>stepEndHooks := clear_at (length (stepEndHooks rt)) (stepEndHooks rt')\<rparr>)"

definition OnModelCall where
  "OnModelCall fn rt = (rt\<lparr>modelCallHooks := modelCallHooks rt @ [Some fn]\<rparr>,
     \<lambda>rt'. rt'\<lparr>modelCallHooks := clear_at (length (modelCallHooks rt)) (modelCallHooks rt')\<rparr>)"

definition OnModelResult where
  "OnModelResult fn rt = (rt\<lparr>modelResultHooks := modelResultHooks rt @ [Some fn]\<rparr>,
     \<lambda>rt'. rt'\<lparr>modelResultHooks := clear_at (length (modelResultHooks rt)) (modelResultHooks rt')\<rparr>)"

definition OnToolCall where
  "OnToolCall fn rt = (rt\<lparr>toolCallHooks := toolCallHooks rt @ [Some fn]\<rparr>,
     \<lambda>rt'. rt'\<lparr>toolCallHooks := clear_at (length (toolCallHooks rt)) (toolCallHooks rt')\<rparr>)"

definition OnToolResult where
  "OnToolResult fn rt = (rt\<lparr>toolResultHooks := toolResultHooks rt @ [Some fn]\<rparr>,
     \<lambda>rt'. rt'\<lparr>toolResultHooks := clear_at (length (toolResultHooks rt)) (toolResultHooks rt')\<rparr>)"

definition OnDecision where
  "OnDecision fn rt = (rt\<lparr>decisionHooks := decisionHooks rt @ [Some fn]\<rparr>,
     \<lambda>rt'. rt'\<lparr>decisionHooks := clear_at (length (decisionHooks rt)) (decisionHooks rt')\<rparr>)"

section \<open>Firing\<close>

definition fireHookSafe ::
  "string \<Rightarrow> 'i \<Rightarrow> ('i, 'w) hook \<Rightarrow> go_ctx \<Rightarrow> 'i \<Rightarrow> 'w \<Rightarrow> (go_ctx option \<times> 'i \<times> go_error option) \<times> 'w" where
  "fireHookSafe name zero fn ctx info w = (case fn ctx info w of
     (Panics p, w1) \<Rightarrow> ((None, zero, Some (Errorf (''hook '' @ name @ '' panicked: '' @ p))), w1)
   | (Returns (c, i, e), w1) \<Rightarrow> ((Some c, i, e), w1))"

text \<open>The loop the run-level, message, result and decision hooks share.\<close>

fun fire_hooks ::
  "string \<Rightarrow> 'i \<Rightarrow> ('i, 'w) hook option list \<Rightarrow> go_ctx \<Rightarrow> 'i \<Rightarrow> 'w \<Rightarrow>
   (go_ctx option \<times> 'i \<times> go_error option) \<times> 'w" where
  "fire_hooks name zero [] ctx info w = ((Some ctx, info, None), w)"
| "fire_hooks name zero (None # fns) ctx info w = fire_hooks name zero fns ctx info w"
| "fire_hooks name zero (Some fn # fns) ctx info w =
     (case fireHookSafe name zero fn ctx info w of
        ((c, i, Some e), w1) \<Rightarrow> ((c, zero, Some e), w1)
      | ((None, i, None), w1) \<Rightarrow> ((None, i, None), w1)
      | ((Some c, i, None), w1) \<Rightarrow> fire_hooks name zero fns c i w1)"

definition FireAgentStart where
  "FireAgentStart rt ctx info w = fire_hooks ''agent_start'' None (agentStartHooks rt) ctx info w"

definition FireAgentEnd where
  "FireAgentEnd rt ctx info w = fire_hooks ''agent_end'' None (agentEndHooks rt) ctx info w"

definition FireMessagesBuilt ::
  "'w runtime \<Rightarrow> go_ctx \<Rightarrow> messages \<Rightarrow> 'w \<Rightarrow> (go_ctx option \<times> messages \<times> go_error option) \<times> 'w" where
  "FireMessagesBuilt rt ctx msgs w =
     (case fire_hooks ''messages_built'' [] (messagesHooks rt) ctx msgs w of
        ((c, ms, Some e), w1) \<Rightarrow> ((c, [], Some e), w1)
      | ((c, ms, None), w1) \<Rightarrow> ((c, collapseSystem ms, None), w1))"

subsection \<open>Identity of the run\<close>

definition correlation :: "go_ctx \<Rightarrow> string \<times> string \<times> int" where
  "correlation ctx =
     (let (invocationID, agentName) = (case cx_agent ctx of None \<Rightarrow> ([], []) | Some p \<Rightarrow> p);
          stepIndex = (case cx_step ctx of None \<Rightarrow> - 1 | Some n \<Rightarrow> n)
      in (invocationID, agentName, stepIndex))"

definition invocationIDFromContext :: "go_ctx \<Rightarrow> string" where
  "invocationIDFromContext ctx = (case cx_agent ctx of None \<Rightarrow> [] | Some p \<Rightarrow> fst p)"

definition enrichModelInfo :: "go_ctx \<Rightarrow> model_call_info option \<Rightarrow> model_call_info option" where
  "enrichModelInfo ctx info = map_option (\<lambda>i.
     (case correlation ctx of (iid, name, step) \<Rightarrow>
        i\<lparr>mi_invocationID := iid, mi_agentName := name, mi_stepIndex := step\<rparr>)) info"

text \<open>The effects of a tool that declares none are write and execute.\<close>

definition EffectiveEffects :: "'w tool \<Rightarrow> tool_effect list" where
  "EffectiveEffects t = (if t_effects t = [] then [EffectWrite, EffectExec] else t_effects t)"

text \<open>The callers have checked that the registry is not nil.\<close>

definition enrichToolInfo :: "'w runtime \<Rightarrow> go_ctx \<Rightarrow> tool_call_info option \<Rightarrow> 'w \<Rightarrow> tool_call_info option" where
  "enrichToolInfo rt ctx info w = map_option (\<lambda>i.
     (case correlation ctx of (iid, name, step) \<Rightarrow>
        let i = i\<lparr>ti_invocationID := iid, ti_agentName := name, ti_stepIndex := step\<rparr>
        in if ti_name i = [] then i
           else (case rt_tools rt of
                   None \<Rightarrow> i
                 | Some reg \<Rightarrow>
                    (case find (\<lambda>t. t_name t = ti_name i) (rg_list reg w) of
                       None \<Rightarrow> i
                     | Some t \<Rightarrow> i\<lparr>ti_effects := EffectiveEffects t\<rparr>)))) info"

definition FireDecision :: "'w runtime \<Rightarrow> go_ctx \<Rightarrow> decision_info option \<Rightarrow> 'w \<Rightarrow> go_error option \<times> 'w" where
  "FireDecision rt ctx info w =
     (let info = map_option (\<lambda>i. (case correlation ctx of (iid, name, step) \<Rightarrow>
                    i\<lparr>di_invocationID := iid, di_agentName := name, di_stepIndex := step\<rparr>)) info
      in (case fire_hooks ''decision'' None (decisionHooks rt) ctx info w of
            ((c, i, err), w1) \<Rightarrow> (err, w1)))"

definition fireModelResult ::
  "'w runtime \<Rightarrow> go_ctx \<Rightarrow> model_call_info option \<Rightarrow> 'w \<Rightarrow>
   (go_ctx option \<times> model_call_info option \<times> go_error option) \<times> 'w" where
  "fireModelResult rt ctx info w =
     fire_hooks ''model_result'' None (modelResultHooks rt) ctx (enrichModelInfo ctx info) w"

definition fireToolCall ::
  "'w runtime \<Rightarrow> go_ctx \<Rightarrow> tool_call_info option \<Rightarrow> 'w \<Rightarrow>
   (go_ctx option \<times> tool_call_info option \<times> go_error option) \<times> 'w" where
  "fireToolCall rt ctx info w =
     fire_hooks ''tool_call'' None (toolCallHooks rt) ctx (enrichToolInfo rt ctx info w) w"

definition fireToolResult ::
  "'w runtime \<Rightarrow> go_ctx \<Rightarrow> tool_call_info option \<Rightarrow> 'w \<Rightarrow>
   (go_ctx option \<times> tool_call_info option \<times> go_error option) \<times> 'w" where
  "fireToolResult rt ctx info w =
     fire_hooks ''tool_result'' None (toolResultHooks rt) ctx (enrichToolInfo rt ctx info w) w"

text \<open>The model-call hooks also carry the message list along: the last non-nil list a hook returned.\<close>

fun model_call_loop ::
  "(model_call_info option, 'w) hook option list \<Rightarrow> go_ctx \<Rightarrow> model_call_info option \<Rightarrow> messages \<Rightarrow> 'w \<Rightarrow>
   (go_ctx option \<times> messages \<times> go_error option) \<times> 'w" where
  "model_call_loop [] ctx info msgs w = ((Some ctx, msgs, None), w)"
| "model_call_loop (None # fns) ctx info msgs w = model_call_loop fns ctx info msgs w"
| "model_call_loop (Some fn # fns) ctx info msgs w =
     (case fireHookSafe ''model_call'' None fn ctx info w of
        ((c, i, Some e), w1) \<Rightarrow> ((c, [], Some e), w1)
      | ((None, i, None), w1) \<Rightarrow> ((None, msgs, None), w1)
      | ((Some c, i, None), w1) \<Rightarrow>
          model_call_loop fns c i
            (case i of None \<Rightarrow> msgs
             | Some x \<Rightarrow> (case mi_messages x of None \<Rightarrow> msgs | Some ms \<Rightarrow> ms)) w1)"

definition fireModelCall ::
  "'w runtime \<Rightarrow> go_ctx \<Rightarrow> messages \<Rightarrow> 'w \<Rightarrow> (go_ctx option \<times> messages \<times> go_error option) \<times> 'w" where
  "fireModelCall rt ctx msgs w =
     (if modelCallHooks rt = [] then ((Some ctx, msgs, None), w)
      else model_call_loop (modelCallHooks rt) ctx
             (enrichModelInfo ctx (Some \<lparr>mi_invocationID = [], mi_agentName = [], mi_stepIndex = 0,
                mi_messages = Some msgs, mi_response = None, mi_usage = None, mi_error = None\<rparr>)) msgs w)"

text \<open>A chain of hooks that ends without an error ends with a context: only a panic leaves none.\<close>

lemma fireModelCall_ctx: "fireModelCall rt ctx msgs w = ((c, ms, None), w1) \<Longrightarrow> c \<noteq> None"
proof -
  have "model_call_loop fns ctx info msgs w = ((c, ms, None), w1) \<Longrightarrow> c \<noteq> None" for fns info
    by (induction fns ctx info msgs w rule: model_call_loop.induct)
      (auto simp: fireHookSafe_def split: prod.splits call.splits option.splits)
  then show "fireModelCall rt ctx msgs w = ((c, ms, None), w1) \<Longrightarrow> c \<noteq> None"
    by (auto simp: fireModelCall_def split: if_splits)
qed

section \<open>The step lifecycle\<close>

type_synonym step_ret = "go_ctx option \<times> bool \<times> step_info option \<times> go_error option"

fun step_hook_loop ::
  "string \<Rightarrow> (step_info option, 'w) hook option list \<Rightarrow> go_ctx \<Rightarrow> step_info option \<Rightarrow> 'w \<Rightarrow> step_ret \<times> 'w" where
  "step_hook_loop name [] ctx info w = ((Some ctx, True, info, None), w)"
| "step_hook_loop name (None # fns) ctx info w = step_hook_loop name fns ctx info w"
| "step_hook_loop name (Some fn # fns) ctx info w =
     (case fireHookSafe name None fn ctx info w of
        ((c, i, Some e), w1) \<Rightarrow> ((c, False, i, Some e), w1)
      | ((c, None, None), w1) \<Rightarrow> ((c, True, None, None), w1)
      | ((None, Some i, None), w1) \<Rightarrow> ((None, True, Some i, None), w1)
      | ((Some c, Some i, None), w1) \<Rightarrow>
          (if \<not> si_continue i then ((Some c, False, Some i, None), w1)
           else step_hook_loop name fns c (Some i) w1))"

definition step_identity :: "go_ctx \<Rightarrow> step_info option \<Rightarrow> step_info option" where
  "step_identity ctx info = map_option (\<lambda>i.
     if si_invocationID i = [] then i\<lparr>si_invocationID := invocationIDFromContext ctx\<rparr> else i) info"

text \<open>With hooks registered, a nil \<open>info\<close> is dereferenced.\<close>

definition FireStepStart :: "'w runtime \<Rightarrow> go_ctx \<Rightarrow> step_info option \<Rightarrow> 'w \<Rightarrow> step_ret call \<times> 'w" where
  "FireStepStart rt ctx info w =
     (let step = (case info of None \<Rightarrow> 0 | Some i \<Rightarrow> si_stepIndex i);
          info = step_identity ctx info;
          ctx = WithStepIndex ctx step
      in if stepStartHooks rt = [] then (Returns (Some ctx, True, info, None), w)
         else (case info of
                 None \<Rightarrow> (Panics nil_deref, w)
               | Some i \<Rightarrow>
                   (case step_hook_loop ''step_start'' (stepStartHooks rt) ctx (Some (i\<lparr>si_continue := True\<rparr>)) w of
                      ((Some c, True, Some i1, None), w1) \<Rightarrow>
                        (Returns (Some (WithStepIndex c step), True, Some i1, None), w1)
                    | (ret, w1) \<Rightarrow> (Returns ret, w1))))"

definition FireStepEnd :: "'w runtime \<Rightarrow> go_ctx \<Rightarrow> step_info option \<Rightarrow> 'w \<Rightarrow> step_ret call \<times> 'w" where
  "FireStepEnd rt ctx info w =
     (let info = step_identity ctx info
      in if stepEndHooks rt = [] then (Returns (Some ctx, True, info, None), w)
         else (case info of
                 None \<Rightarrow> (Panics nil_deref, w)
               | Some i \<Rightarrow>
                   (case step_hook_loop ''step_end'' (stepEndHooks rt) ctx (Some (i\<lparr>si_continue := True\<rparr>)) w of
                      (ret, w1) \<Rightarrow> (Returns ret, w1))))"

definition combine_errors :: "go_error option \<Rightarrow> go_error option \<Rightarrow> go_error option" where
  "combine_errors err endErr = (case err of
     None \<Rightarrow> endErr
   | Some e \<Rightarrow> (case endErr of None \<Rightarrow> Some e | Some e2 \<Rightarrow> Some (JoinErr [e, e2])))"

text \<open>The body of a step is a closure: \<open>'l\<close> holds the variables of its caller that it writes.\<close>

type_synonym ('l, 'w) step_body =
  "go_ctx \<Rightarrow> step_info option \<Rightarrow> 'l \<Rightarrow> 'w \<Rightarrow> (go_ctx \<times> step_info option \<times> go_error option) call \<times> 'l \<times> 'w"

text \<open>The deferred \<open>FireStepEnd\<close> runs when the body returns and when it panics; a panic of its own
  replaces the body's.\<close>

definition RunStep ::
  "'w runtime \<Rightarrow> go_ctx \<Rightarrow> step_info option \<Rightarrow> ('l, 'w) step_body \<Rightarrow> 'l \<Rightarrow> 'w \<Rightarrow> step_ret call \<times> 'l \<times> 'w" where
  "RunStep rt ctx info body l w = (case FireStepStart rt ctx info w of
     (Panics p, w1) \<Rightarrow> (Panics p, l, w1)
   | (Returns (None, cont, i, err), w1) \<Rightarrow> (Returns (None, cont, i, err), l, w1)
   | (Returns (Some c, cont, i, err), w1) \<Rightarrow>
      (if err \<noteq> None \<or> \<not> cont then (Returns (Some c, cont, i, err), l, w1)
       else (case body c i l w1 of
               (Panics p, l2, w2) \<Rightarrow>
                 (case FireStepEnd rt c i w2 of
                    (Panics q, w3) \<Rightarrow> (Panics q, l2, w3) | (Returns _, w3) \<Rightarrow> (Panics p, l2, w3))
             | (Returns (c2, i2, err2), l2, w2) \<Rightarrow>
                 (case FireStepEnd rt c2 i2 w2 of
                    (Panics q, w3) \<Rightarrow> (Panics q, l2, w3)
                  | (Returns (endCtx, endCont, endInfo, endErr), w3) \<Rightarrow>
                      (Returns (endCtx, endCont, (case endInfo of None \<Rightarrow> i2 | Some x \<Rightarrow> Some x),
                                combine_errors err2 endErr), l2, w3)))))"

subsection \<open>Facts on firing\<close>

lemma fireHookSafe_ctx: "fireHookSafe name zero fn ctx info w = ((c, i, None), w1) \<Longrightarrow> c \<noteq> None"
  by (auto simp: fireHookSafe_def split: prod.splits call.splits)

lemma fire_hooks_ctx: "fire_hooks name zero fns ctx info w = ((c, i, None), w1) \<Longrightarrow> c \<noteq> None"
  by (induction name zero fns ctx info w rule: fire_hooks.induct)
    (auto dest: fireHookSafe_ctx split: prod.splits option.splits)

lemma step_hook_loop_ctx: "step_hook_loop name fns ctx info w = ((c, cont, i, None), w1) \<Longrightarrow> c \<noteq> None"
  by (induction name fns ctx info w rule: step_hook_loop.induct)
    (auto dest: fireHookSafe_ctx split: prod.splits option.splits if_splits)

lemma FireStep_ctx:
  "FireStepStart rt ctx info w = (Returns (c, cont, i, None), w1) \<Longrightarrow> c \<noteq> None"
  "FireStepEnd rt ctx info w = (Returns (c, cont, i, None), w1) \<Longrightarrow> c \<noteq> None"
  using step_hook_loop_ctx
  by (fastforce simp: FireStepStart_def FireStepEnd_def Let_def split: if_splits option.splits prod.splits bool.splits)+

lemma RunStep_ctx: "RunStep rt ctx info body l w = (Returns (c, cont, i, None), l1, w1) \<Longrightarrow> c \<noteq> None"
  using FireStep_ctx
  by (fastforce simp: RunStep_def combine_errors_def split: if_splits option.splits prod.splits call.splits)

lemma fire_hooks_append:
  "fire_hooks name zero (fs @ gs) ctx info w =
     (case fire_hooks name zero fs ctx info w of
        ((Some c, i, None), w1) \<Rightarrow> fire_hooks name zero gs c i w1
      | ret \<Rightarrow> ret)"
  by (induction name zero fs ctx info w rule: fire_hooks.induct)
    (auto dest: fireHookSafe_ctx split: prod.splits option.splits)

text \<open>Unregistering takes the hook out of every later firing, whatever was registered meanwhile.\<close>

lemma unregister_fire:
  "fire_hooks name zero (clear_at (length fs) (fs @ Some fn # gs)) = fire_hooks name zero (fs @ gs)"
  by (intro ext) (simp add: clear_at_def fire_hooks_append split: prod.split option.split)

text \<open>A property of the threaded value that each hook keeps holds of what the list returns.\<close>

lemma fire_hooks_invariant:
  assumes "\<And>fn c i v c' i' v'. Some fn \<in> set fns \<Longrightarrow> P i \<Longrightarrow> fn c i v = (Returns (c', i', None), v') \<Longrightarrow> P i'"
    and "P info" and "fire_hooks name zero fns ctx info w = ((c, i, None), w1)"
  shows "P i"
  using assms
proof (induction name zero fns ctx info w rule: fire_hooks.induct)
  case (3 name zero fn fns ctx info w)
  then show ?case
    by (auto simp: fireHookSafe_def split: prod.splits option.splits call.splits)
       (metis list.set_intros(1,2))
qed auto

lemma step_hook_loop_invariant:
  assumes "\<And>fn c i v c' i' v'. Some fn \<in> set fns \<Longrightarrow> P i \<Longrightarrow> fn c i v = (Returns (c', i', None), v') \<Longrightarrow> P i'"
    and "P info" and "step_hook_loop name fns ctx info w = ((c, cont, i, None), w1)"
  shows "P i"
  using assms
proof (induction name fns ctx info w rule: step_hook_loop.induct)
  case (3 name fn fns ctx info w)
  then show ?case
    by (auto simp: fireHookSafe_def split: prod.splits option.splits call.splits if_splits)
       (metis list.set_intros(1,2))+
qed auto

end
