(* ===== verification/AgentRuntime.thy ===== *)
theory AgentRuntime
  imports RuntimeHooks
begin

unbundle bit_operations_syntax

text \<open>
  Model and tool calls of \<open>core/runtime/runtime.go\<close>: \<open>CallModel\<close> with its retry loop, the streaming
  reader that fires the result hooks at the end, and \<open>ExecTools\<close> with its hook gate, the concurrent
  batch with retries, and the result hooks.

  The retry loops are bounded by \<open>MaxRetries\<close> and therefore total.  Between two attempts \<open>op_wait\<close>
  is the \<open>select\<close> of the timer against the context.
\<close>

section \<open>Surroundings\<close>

datatype event =
    TokenEvent string
  | ReasoningEvent string
  | ToolCallEvent string string string
  | ToolResultEvent string string string

record 'w ops =
  op_fresh :: "'w \<Rightarrow> string \<times> 'w"
  op_pick :: "'w \<Rightarrow> nat"
  op_deadline :: "go_ctx \<Rightarrow> int64 option \<Rightarrow> 'w \<Rightarrow> 'w \<Rightarrow> bool"
  op_text :: "go_error \<Rightarrow> string"
  op_wait :: "go_ctx \<Rightarrow> int64 \<Rightarrow> 'w \<Rightarrow> go_error option \<times> 'w"
  op_ctxErr :: "go_ctx \<Rightarrow> 'w \<Rightarrow> go_error option"
  op_send :: "event \<Rightarrow> 'w \<Rightarrow> 'w"

definition retryDelay :: "retry_policy \<Rightarrow> nat \<Rightarrow> int64" where
  "retryDelay policy attempt =
     (let delay = (if rp_BaseDelay policy = 0 then 1000000000 else rp_BaseDelay policy);
          delay = delay * push_bit (attempt - 1) 1
      in if sint (rp_MaxDelay policy) > 0 \<and> sint delay > sint (rp_MaxDelay policy)
         then rp_MaxDelay policy else delay)"

definition WithRetryPolicy :: "retry_policy \<Rightarrow> 'w runtime \<Rightarrow> 'w runtime" where
  "WithRetryPolicy p rt =
     (if rp_MaxRetries p > 0 \<or> sint (rp_BaseDelay p) > 0 \<or> sint (rp_MaxDelay p) > 0
         \<or> rp_RetryOnTool p \<or> rp_RetryOnModel p
      then rt\<lparr>rt_policy := p\<rparr> else rt)"

section \<open>Construction\<close>

text \<open>The chain of middlewares around the model, on both kinds of calls.\<close>

definition middlewareModel ::
  "(go_ctx \<times> messages, message option \<times> token_usage option, 'w) func_middleware option list \<Rightarrow>
   (go_ctx \<times> messages, raw_stream, 'w) func_middleware option list \<Rightarrow> 'w model \<Rightarrow> 'w model" where
  "middlewareModel gen str m =
     \<lparr>mo_generate = (\<lambda>cfg. Apply (mo_generate m cfg) gen), mo_stream = (\<lambda>cfg. Apply (mo_stream m cfg) str)\<rparr>"

definition NewRuntime ::
  "'w model option \<Rightarrow> 'w registry option \<Rightarrow> ('w runtime \<Rightarrow> 'w runtime) list \<Rightarrow>
   (go_ctx \<times> messages, message option \<times> token_usage option, 'w) func_middleware option list \<Rightarrow>
   (go_ctx \<times> messages, raw_stream, 'w) func_middleware option list \<Rightarrow> 'w runtime" where
  "NewRuntime m tools opts gen str =
     (let rt = \<lparr>rt_model = m, rt_tools = tools,
                rt_policy = \<lparr>rp_MaxRetries = 0, rp_BaseDelay = 0, rp_MaxDelay = 0,
                             rp_RetryOnTool = False, rp_RetryOnModel = False\<rparr>,
                agentStartHooks = [], agentEndHooks = [], messagesHooks = [], stepStartHooks = [],
                stepEndHooks = [], modelCallHooks = [], modelResultHooks = [], toolCallHooks = [],
                toolResultHooks = [], decisionHooks = []\<rparr>;
          rt = fold (\<lambda>opt rt. opt rt) opts rt
      in if gen \<noteq> [] then rt\<lparr>rt_model := map_option (middlewareModel gen str) (rt_model rt)\<rparr> else rt)"

section \<open>Model calls\<close>

text \<open>The summary of a tool, without its JSON schema.\<close>

definition ToolFromInfo :: "'w tool \<Rightarrow> tool_info" where
  "ToolFromInfo t = \<lparr>tf_name = t_name t, tf_description = t_description t\<rparr>"

definition ToolFromTools :: "'w tool list \<Rightarrow> tool_info list" where
  "ToolFromTools ts = map ToolFromInfo ts"

text \<open>The runtime's tools are offered when the options name none.\<close>

definition with_registry_tools :: "'w runtime \<Rightarrow> gen_config \<Rightarrow> 'w \<Rightarrow> gen_config" where
  "with_registry_tools rt cfg w =
     (case rt_tools rt of
        Some reg \<Rightarrow> (if gc_tools cfg = None \<and> rg_list reg w \<noteq> []
                     then cfg\<lparr>gc_tools := Some (ToolFromTools (rg_list reg w))\<rparr> else cfg)
      | None \<Rightarrow> cfg)"

type_synonym model_ret = "message option \<times> token_usage option \<times> go_error option"

definition model_info_result :: "messages \<Rightarrow> message option \<Rightarrow> token_usage option \<Rightarrow> go_error option \<Rightarrow> model_call_info" where
  "model_info_result msgs resp usage err =
     \<lparr>mi_invocationID = [], mi_agentName = [], mi_stepIndex = 0, mi_messages = Some msgs,
      mi_response = resp, mi_usage = usage, mi_error = err\<rparr>"

text \<open>One attempt: the model's answer and the result hooks; \<open>Inr e\<close> asks for another attempt.\<close>

definition model_attempt ::
  "'w runtime \<Rightarrow> 'w model \<Rightarrow> go_ctx \<Rightarrow> messages \<Rightarrow> gen_config \<Rightarrow> 'w \<Rightarrow> (model_ret + go_error) \<times> 'w" where
  "model_attempt rt m ctx msgs cfg w = (case mo_generate m cfg (ctx, msgs) w of
     (((resp, usage), None), w1) \<Rightarrow>
        (case fireModelResult rt ctx (Some (model_info_result msgs resp usage None)) w1 of
           ((c, i, Some hookErr), w2) \<Rightarrow> (Inl (None, None, Some hookErr), w2)
         | ((c, None, None), w2) \<Rightarrow> (Inl (resp, usage, None), w2)
         | ((c, Some i, None), w2) \<Rightarrow> (Inl (mi_response i, mi_usage i, None), w2))
   | (((resp, usage), Some err), w1) \<Rightarrow>
        (case fireModelResult rt ctx (Some (model_info_result msgs None None (Some err))) w1 of
           ((c, i, Some hookErr), w2) \<Rightarrow>
              (Inl (None, None, Some (JoinErr [hookErr, err])), w2)
         | ((c, i, None), w2) \<Rightarrow> (Inr err, w2)))"

definition exhausted :: "go_error option \<Rightarrow> model_ret" where
  "exhausted lastErr = (None, None, Some (case lastErr of
     None \<Rightarrow> Errorf ''model call failed after retries''
   | Some e \<Rightarrow> WrapErr ''model call failed after retries'' e))"

function call_loop ::
  "'w ops \<Rightarrow> 'w runtime \<Rightarrow> 'w model \<Rightarrow> retry_policy \<Rightarrow> go_ctx \<Rightarrow> messages \<Rightarrow> gen_config \<Rightarrow>
   nat \<Rightarrow> go_error option \<Rightarrow> 'w \<Rightarrow> model_ret \<times> 'w" where
  "call_loop ops rt m policy ctx msgs cfg attempt lastErr w =
     (if int attempt > rp_MaxRetries policy then (exhausted lastErr, w)
      else if attempt > 0 \<and> (\<not> rp_RetryOnModel policy \<or> \<not> IsRetryableError lastErr) then (exhausted lastErr, w)
      else (case (if attempt > 0 then op_wait ops ctx (retryDelay policy attempt) w else (None, w)) of
              (Some e, w1) \<Rightarrow> ((None, None, op_ctxErr ops ctx w1), w1)
            | (None, w1) \<Rightarrow>
               (case model_attempt rt m ctx msgs cfg w1 of
                  (Inl ret, w2) \<Rightarrow> (ret, w2)
                | (Inr e, w2) \<Rightarrow> call_loop ops rt m policy ctx msgs cfg (Suc attempt) (Some e) w2)))"
  by pat_completeness auto
termination
  by (relation "measure (\<lambda>(_, _, _, policy, _, _, _, attempt, _, _). nat (rp_MaxRetries policy + 1 - int attempt))")
     auto

declare call_loop.simps [simp del]

text \<open>Without an error the hooks leave a context (\<open>fireModelCall_ctx\<close>).\<close>

definition CallModel ::
  "'w ops \<Rightarrow> 'w runtime \<Rightarrow> go_ctx \<Rightarrow> messages \<Rightarrow> gen_config \<Rightarrow> 'w \<Rightarrow> model_ret \<times> 'w" where
  "CallModel ops rt ctx msgs opts w = (case rt_model rt of
     None \<Rightarrow> ((None, None, Some (Sentinel ErrNilModel)), w)
   | Some m \<Rightarrow>
      (case fireModelCall rt ctx msgs w of
         ((c, msgs1, Some e), w1) \<Rightarrow> ((None, None, Some e), w1)
       | ((c, msgs1, None), w1) \<Rightarrow>
          (let policy = (if rp_MaxRetries (rt_policy rt) < 0
                         then (rt_policy rt)\<lparr>rp_MaxRetries := 0\<rparr> else rt_policy rt)
           in call_loop ops rt m policy (the c) msgs1 (with_registry_tools rt opts w1) 0 None w1)))"

definition CountTokens ::
  "(messages \<Rightarrow> 'w \<Rightarrow> (int \<times> go_error option) \<times> 'w) \<Rightarrow> 'w runtime \<Rightarrow> messages \<Rightarrow> 'w \<Rightarrow> (int \<times> go_error option) \<times> 'w" where
  "CountTokens count rt msgs w = (case rt_model rt of
     None \<Rightarrow> ((0, Some (Sentinel ErrNilModel)), w) | Some m \<Rightarrow> count msgs w)"

subsection \<open>Streaming\<close>

record hook_stream =
  hs_ctx :: go_ctx
  hs_msgs :: messages
  hs_raw :: raw_stream
  hs_closed :: bool
  hs_rawClosed :: bool

definition CallModelStream ::
  "'w runtime \<Rightarrow> go_ctx \<Rightarrow> messages \<Rightarrow> gen_config \<Rightarrow> 'w \<Rightarrow> (go_error + hook_stream) \<times> 'w" where
  "CallModelStream rt ctx msgs opts w = (case rt_model rt of
     None \<Rightarrow> (Inl (Sentinel ErrNilModel), w)
   | Some m \<Rightarrow>
      (case fireModelCall rt ctx msgs w of
         ((c, msgs1, Some e), w1) \<Rightarrow> (Inl e, w1)
       | ((c, msgs1, None), w1) \<Rightarrow>
          (case mo_stream m (with_registry_tools rt opts w1) (the c, msgs1) w1 of
             ((raw, Some e), w2) \<Rightarrow> (Inl e, w2)
           | ((raw, None), w2) \<Rightarrow>
               (Inr \<lparr>hs_ctx = the c, hs_msgs = msgs1, hs_raw = raw, hs_closed = False, hs_rawClosed = False\<rparr>, w2))))"

text \<open>What the raw reader's next \<open>Recv\<close> returns, and the reader after it.\<close>

definition raw_recv :: "raw_stream \<Rightarrow> (message option \<times> go_error option) \<times> raw_stream" where
  "raw_recv raw = (case raw of [] \<Rightarrow> ((None, Some (Sentinel IoEOF)), []) | r # rs \<Rightarrow> (r, rs))"

definition final_response :: "message option \<Rightarrow> message" where
  "final_response chunk = (let resp = NewAssistantMessage [] in case chunk of
     None \<Rightarrow> resp
   | Some m \<Rightarrow> resp\<lparr>msg_content := msg_content m, msg_reasoning := msg_reasoning m,
                   msg_toolCalls := msg_toolCalls m\<rparr>)"

definition stream_Recv ::
  "'w runtime \<Rightarrow> hook_stream \<Rightarrow> 'w \<Rightarrow> ((message option \<times> go_error option) \<times> hook_stream) \<times> 'w" where
  "stream_Recv rt r w = (case raw_recv (hs_raw r) of
     ((chunk, err), raw) \<Rightarrow>
       (let r = r\<lparr>hs_raw := raw\<rparr> in
        case err of
          None \<Rightarrow> (((chunk, None), r), w)
        | Some e \<Rightarrow>
           (if errors_is IoEOF e \<and> \<not> hs_closed r
            then (let r = r\<lparr>hs_closed := True\<rparr> in
                  case fireModelResult rt (hs_ctx r)
                         (Some (model_info_result (hs_msgs r) (Some (final_response chunk)) None None)) w of
                    ((c, i, Some hookErr), w1) \<Rightarrow> (((chunk, Some hookErr), r), w1)
                  | ((c, i, None), w1) \<Rightarrow> (((chunk, Some e), r\<lparr>hs_rawClosed := True\<rparr>), w1))
            else (((chunk, Some e), r), w))))"

definition stream_Close :: "hook_stream \<Rightarrow> hook_stream" where
  "stream_Close r = (if \<not> hs_closed r then r\<lparr>hs_closed := True, hs_rawClosed := True\<rparr> else r)"

section \<open>Tool calls\<close>

definition jsonErrorContent :: "string \<Rightarrow> string" where
  "jsonErrorContent msg = json_object [(''error'', msg)]"

definition ExecTools_env :: "'w ops \<Rightarrow> 'w runtime \<Rightarrow> go_ctx \<Rightarrow> 'w batch_env" where
  "ExecTools_env ops rt ctx =
     \<lparr>be_get = map_option rg_get (rt_tools rt), be_fresh = op_fresh ops, be_pick = op_pick ops,
      be_deadline = op_deadline ops ctx, be_text = op_text ops\<rparr>"

text \<open>\<open>timeoutOf\<close>: the tool's declared budget in nanoseconds, in 64 bits.\<close>

definition timeoutOf :: "'w runtime \<Rightarrow> string \<Rightarrow> 'w \<Rightarrow> int64" where
  "timeoutOf rt toolName w = (case rt_tools rt of
     None \<Rightarrow> 0
   | Some reg \<Rightarrow> (case rg_get reg toolName w of
        None \<Rightarrow> 0
      | Some t \<Rightarrow> (if sint (t_timeoutMs t) > 0 then t_timeoutMs t * 1000000 else 0)))"

type_synonym slot = "tool_exec_result \<times> tool_call option"

definition exec_batch :: "'w ops \<Rightarrow> 'w runtime \<Rightarrow> go_ctx \<Rightarrow> tool_call option list \<Rightarrow> 'w \<Rightarrow> slot list \<times> 'w" where
  "exec_batch ops rt ctx = ExecToolsConcurrentResults (ExecTools_env ops rt ctx) (Some (timeoutOf rt)) 0"

definition failed_slots :: "slot list \<Rightarrow> nat list" where
  "failed_slots slots = filter (\<lambda>i. ter_err (fst (slots ! i)) \<noteq> None) [0..<length slots]"

definition write_back :: "(nat \<times> slot) list \<Rightarrow> slot list \<Rightarrow> slot list" where
  "write_back upds slots = fold (\<lambda>(i, r) s. s[i := r]) upds slots"

fun retry_rounds ::
  "'w ops \<Rightarrow> 'w runtime \<Rightarrow> go_ctx \<Rightarrow> nat \<Rightarrow> nat \<Rightarrow> slot list \<Rightarrow> 'w \<Rightarrow> slot list \<times> 'w" where
  "retry_rounds ops rt ctx attempt 0 slots w = (slots, w)"
| "retry_rounds ops rt ctx attempt (Suc left) slots w =
     (let idx = failed_slots slots
      in if idx = [] then (slots, w)
         else (case op_wait ops ctx (retryDelay (rt_policy rt) attempt) w of
                 (Some e, w1) \<Rightarrow> (slots, w1)
               | (None, w1) \<Rightarrow>
                   (case exec_batch ops rt ctx (map (\<lambda>i. snd (slots ! i)) idx) w1 of
                      (again, w2) \<Rightarrow>
                        retry_rounds ops rt ctx (Suc attempt) left (write_back (zip idx again) slots) w2)))"

definition execToolsWithRetry ::
  "'w ops \<Rightarrow> 'w runtime \<Rightarrow> go_ctx \<Rightarrow> tool_call list \<Rightarrow> 'w \<Rightarrow> slot list \<times> 'w" where
  "execToolsWithRetry ops rt ctx toolCalls w =
     (case exec_batch ops rt ctx (map Some toolCalls) w of
        (slots, w1) \<Rightarrow>
          (if \<not> rp_RetryOnTool (rt_policy rt) \<or> rp_MaxRetries (rt_policy rt) \<le> 0 then (slots, w1)
           else retry_rounds ops rt ctx 1 (nat (rp_MaxRetries (rt_policy rt))) slots w1))"

text \<open>The loop over the calls before execution: normalise, fire the hooks, take over what they
  rewrote.  A rejected call has its error message already; the flag says that some call was.\<close>

definition blank_tool_info :: "string \<Rightarrow> string \<Rightarrow> tool_call_info" where
  "blank_tool_info name args =
     \<lparr>ti_invocationID = [], ti_agentName = [], ti_stepIndex = 0, ti_name = name, ti_args = args,
      ti_effects = [], ti_result = [], ti_parts = None, ti_error = None\<rparr>"

fun gate_loop ::
  "'w ops \<Rightarrow> 'w runtime \<Rightarrow> go_ctx \<Rightarrow> tool_call list \<Rightarrow> 'w \<Rightarrow> ((message option \<times> tool_call) list \<times> bool) \<times> 'w" where
  "gate_loop ops rt ctx [] w = (([], False), w)"
| "gate_loop ops rt ctx (tc0 # tcs) w =
     (case NormalizeToolCall (op_fresh ops) tc0 w of (tc, w1) \<Rightarrow>
      (case fireToolCall rt ctx (Some (blank_tool_info (tc_name tc) (tc_args tc))) w1 of ((c, tci, err), w2) \<Rightarrow>
        (let msg = map_option (\<lambda>e. NewToolMessage (jsonErrorContent (''tool call blocked: '' @ op_text ops e))
                                    (tc_id tc) (tc_name tc)) err;
             tc' = (case tci of None \<Rightarrow> tc | Some x \<Rightarrow> tc\<lparr>tc_name := ti_name x, tc_args := ti_args x\<rparr>)
         in (case gate_loop ops rt ctx tcs w2 of ((rest, blocked), w3) \<Rightarrow>
               (((msg, tc') # rest, err \<noteq> None \<or> blocked), w3)))))"

fun result_loop ::
  "'w ops \<Rightarrow> 'w runtime \<Rightarrow> go_ctx \<Rightarrow> (message option \<times> tool_call) list \<Rightarrow> 'w \<Rightarrow> messages \<times> 'w" where
  "result_loop ops rt ctx [] w = ([], w)"
| "result_loop ops rt ctx ((None, tc) # rest) w =
     (case result_loop ops rt ctx rest w of (ms, w1) \<Rightarrow> (None # ms, w1))"
| "result_loop ops rt ctx ((Some msg, tc) # rest) w =
     (case fireToolResult rt ctx (Some ((blank_tool_info (msg_toolName msg) (tc_args tc))
               \<lparr>ti_result := msg_content msg, ti_parts := msg_parts msg\<rparr>)) w of ((c, tci, err), w1) \<Rightarrow>
        (let msg' = (case err of
               Some e \<Rightarrow> NewToolMessage (jsonErrorContent (''tool result rejected: '' @ op_text ops e))
                          (tc_id tc) (tc_name tc)
             | None \<Rightarrow> (case tci of
                  None \<Rightarrow> msg
                | Some x \<Rightarrow> (let msg = msg\<lparr>msg_content := ti_result x\<rparr>
                           in case ti_parts x of None \<Rightarrow> msg | Some ps \<Rightarrow> msg\<lparr>msg_parts := Some ps\<rparr>)))
         in (case result_loop ops rt ctx rest w1 of (ms, w2) \<Rightarrow> (Some msg' # ms, w2))))"

definition skip_payload :: string where
  "skip_payload = json_object [(''error'', ''tool call skipped: batch aborted by tool call hook'')]"

fun normalize_all :: "('w \<Rightarrow> string \<times> 'w) \<Rightarrow> tool_call list \<Rightarrow> 'w \<Rightarrow> tool_call list \<times> 'w" where
  "normalize_all fresh [] w = ([], w)"
| "normalize_all fresh (tc # tcs) w =
     (case NormalizeToolCall fresh tc w of (tc', w1) \<Rightarrow>
      (case normalize_all fresh tcs w1 of (tcs', w2) \<Rightarrow> (tc' # tcs', w2)))"

text \<open>The messages, and the caller's calls as they are afterwards (they are rewritten in place).\<close>

definition ExecTools ::
  "'w ops \<Rightarrow> 'w runtime \<Rightarrow> go_ctx \<Rightarrow> tool_call list \<Rightarrow> 'w \<Rightarrow> (messages \<times> tool_call list) \<times> 'w" where
  "ExecTools ops rt ctx toolCalls w =
     (if toolCalls = [] then (([], []), w)
      else if rt_tools rt = None
      then (case normalize_all (op_fresh ops) toolCalls w of (tcs, w1) \<Rightarrow>
              ((map (\<lambda>tc. Some (NewToolMessage (json_object [(''error'', ''no tool registry configured'')])
                                 (tc_id tc) (tc_name tc))) tcs, tcs), w1))
      else (case gate_loop ops rt ctx toolCalls w of ((gated, blocked), w1) \<Rightarrow>
              (if blocked
               then ((map (\<lambda>(m, tc). case m of
                         None \<Rightarrow> Some (NewToolMessage skip_payload (tc_id tc) (tc_name tc))
                       | Some x \<Rightarrow> Some x) gated, map snd gated), w1)
               else (case execToolsWithRetry ops rt ctx (map snd gated) w1 of (slots, w2) \<Rightarrow>
                       (let tcs = map (\<lambda>s. the (snd s)) slots
                        in (case result_loop ops rt ctx (zip (map (\<lambda>s. ter_message (fst s)) slots) tcs) w2 of
                              (ms, w3) \<Rightarrow> ((ms, tcs), w3)))))))"

section \<open>Every tool call is answered\<close>

lemma slot_ok_trans:
  "slot_ok tc0 (r, Some tc) \<Longrightarrow> slot_ok tc slot \<Longrightarrow> slot_ok tc0 slot"
  by (auto simp: slot_ok_def split: prod.splits option.splits)

lemma slot_ok_D:
  assumes "slot_ok tc0 slot"
  shows "snd slot = Some (the (snd slot))" and "answers (the (snd slot)) (ter_message (fst slot))"
    and "tc_id (the (snd slot)) \<noteq> []" and "tc_id tc0 \<noteq> [] \<longrightarrow> tc_id (the (snd slot)) = tc_id tc0"
  using assms by (auto simp: slot_ok_def split: prod.splits option.splits)

lemma exec_batch_ok:
  "list_all2 slot_ok cs (fst (exec_batch ops rt ctx (map Some cs) w))"
  using exec_results_ok [OF refl, where cs = cs and env = "ExecTools_env ops rt ctx"
      and callTimeout = "Some (timeoutOf rt)" and maxConcurrency = 0 and w = w]
  by (simp add: list_all2_conv_all_nth exec_batch_def)

lemma write_back_ok:
  assumes "\<forall>(i, r) \<in> set upds. slot_ok (cs ! i) r" and "list_all2 slot_ok cs slots"
  shows "list_all2 slot_ok cs (write_back upds slots)"
  using assms
proof (induction upds arbitrary: slots)
  case (Cons u upds)
  obtain i r where u: "u = (i, r)" by (cases u)
  have "list_all2 slot_ok cs (slots[i := r])"
    unfolding list_all2_conv_all_nth
  proof (intro conjI allI impI)
    show "length cs = length (slots[i := r])"
      using Cons.prems(2) by (simp add: list_all2_lengthD)
    fix j assume "j < length cs"
    then show "slot_ok (cs ! j) (slots[i := r] ! j)"
      using Cons.prems u by (cases "j = i") (auto simp: list_all2_conv_all_nth)
  qed
  then show ?case
    using Cons.IH [of "slots[i := r]"] Cons.prems(1) by (simp add: u write_back_def)
qed (simp add: write_back_def)

lemma retry_rounds_ok:
  assumes "list_all2 slot_ok cs slots"
  shows "list_all2 slot_ok cs (fst (retry_rounds ops rt ctx attempt left slots w))"
  using assms
proof (induction ops rt ctx attempt left slots w rule: retry_rounds.induct)
  case (2 ops rt ctx attempt left slots w)
  let ?idx = "failed_slots slots"
  let ?tcs = "map (\<lambda>i. the (snd (slots ! i))) ?idx"
  have ok: "slot_ok (cs ! i) (slots ! i)" if "i < length slots" for i
    using 2(2) that by (auto simp: list_all2_conv_all_nth)
  have idx: "\<forall>i \<in> set ?idx. i < length slots"
    by (auto simp: failed_slots_def)
  have calls: "map (\<lambda>i. snd (slots ! i)) ?idx = map Some ?tcs"
  proof -
    have "snd (slots ! i) = Some (the (snd (slots ! i)))" if "i \<in> set ?idx" for i
      using slot_ok_D(1) [OF ok [of i]] idx that by blast
    then show ?thesis by simp
  qed
  have again: "list_all2 slot_ok cs (write_back (zip ?idx again) slots)"
    if "again = fst (exec_batch ops rt ctx (map (\<lambda>i. snd (slots ! i)) ?idx) v)" for again v
  proof (rule write_back_ok [OF _ 2(2)], safe)
    fix i r
    assume mem: "(i, r) \<in> set (zip ?idx again)"
    have all: "list_all2 slot_ok ?tcs again"
      unfolding that calls by (rule exec_batch_ok)
    from mem obtain j where j: "j < length ?idx" "i = ?idx ! j" "r = again ! j"
      using all by (auto simp: in_set_zip list_all2_lengthD)
    then have "slot_ok (?tcs ! j) r" using all by (auto dest: list_all2_nthD)
    moreover have "i < length slots" using j idx nth_mem by metis
    moreover have "?tcs ! j = the (snd (slots ! i))" using j by simp
    ultimately show "slot_ok (cs ! i) r"
      using ok [of i] slot_ok_D(1) [of "cs ! i" "slots ! i"]
      by (metis slot_ok_trans prod.collapse)
  qed
  show ?case
  proof (cases "?idx = []")
    case False
    then show ?thesis
      using 2(1) [OF refl False] again 2(2)
      by (auto simp: Let_def split: prod.splits option.splits) (metis fst_conv)+
  qed (use 2(2) in simp)
qed simp

lemma execToolsWithRetry_ok:
  "list_all2 slot_ok cs (fst (execToolsWithRetry ops rt ctx cs w))"
  using exec_batch_ok [of cs ops rt ctx w]
  by (auto simp: execToolsWithRetry_def retry_rounds_ok split: prod.splits)

text \<open>A call keeps a non-empty id and gets one otherwise.\<close>

definition id_kept :: "tool_call \<Rightarrow> tool_call \<Rightarrow> bool" where
  "id_kept tc0 tc = (tc_id tc \<noteq> [] \<and> (tc_id tc0 \<noteq> [] \<longrightarrow> tc_id tc = tc_id tc0))"

lemma id_kept_normalize: "id_kept tc (fst (NormalizeToolCall fresh tc w))"
  by (simp add: id_kept_def NormalizeToolCall_id NormalizeToolCall_stable)

lemma id_kept_trans: "id_kept a b \<Longrightarrow> id_kept b c \<Longrightarrow> id_kept a c"
  by (auto simp: id_kept_def)

lemma slot_ok_id_kept: "slot_ok tc0 slot \<Longrightarrow> id_kept tc0 (the (snd slot))"
  using slot_ok_D [of tc0 slot] by (auto simp: id_kept_def)

definition gate_ok :: "tool_call \<Rightarrow> message option \<times> tool_call \<Rightarrow> bool" where
  "gate_ok tc0 g = (id_kept tc0 (snd g) \<and> (fst g \<noteq> None \<longrightarrow> answers (snd g) (fst g)))"

lemma fire_hooks_error: "fire_hooks name zero fns ctx info w = ((c, i, Some e), w1) \<Longrightarrow> i = zero"
  by (induction name zero fns ctx info w rule: fire_hooks.induct) (auto split: prod.splits option.splits)

lemma gate_loop_ok:
  "list_all2 gate_ok tcs (fst (fst (gate_loop ops rt ctx tcs w))) \<and>
   (snd (fst (gate_loop ops rt ctx tcs w)) \<longleftrightarrow> (\<exists>g \<in> set (fst (fst (gate_loop ops rt ctx tcs w))). fst g \<noteq> None))"
proof (induction tcs arbitrary: w)
  case (Cons tc0 tcs)
  obtain tc w1 where n: "NormalizeToolCall (op_fresh ops) tc0 w = (tc, w1)"
    by (cases "NormalizeToolCall (op_fresh ops) tc0 w")
  obtain c tci err w2
    where f: "fireToolCall rt ctx (Some (blank_tool_info (tc_name tc) (tc_args tc))) w1 = ((c, tci, err), w2)"
    by (metis prod_cases3 surj_pair)
  have k: "id_kept tc0 tc" using id_kept_normalize [of tc0 "op_fresh ops" w] n by simp
  have "tci = None" if "err \<noteq> None"
    using f that unfolding fireToolCall_def by (cases err) (auto dest: fire_hooks_error)
  then show ?case
    using Cons.IH [of w2] k
    by (auto simp: n f Let_def gate_ok_def id_kept_def split: prod.splits option.splits)
qed simp

lemma answers_update [simp]:
  "answers tc (Some (msg\<lparr>msg_content := x\<rparr>)) = answers tc (Some msg)"
  "answers tc (Some (msg\<lparr>msg_parts := ps\<rparr>)) = answers tc (Some msg)"
  by (simp_all add: answers_def)

lemma result_loop_ok:
  "list_all2 (\<lambda>tc m. answers tc m) tcs ms \<Longrightarrow>
   list_all2 (\<lambda>tc m. answers tc m) tcs (fst (result_loop ops rt ctx (zip ms tcs) w))"
proof (induction tcs ms arbitrary: w rule: list_all2_induct)
  case (Cons tc tcs m ms)
  then obtain msg where m: "m = Some msg" by (cases m) (auto simp: answers_def)
  obtain c tci err w1
    where f: "fireToolResult rt ctx (Some ((blank_tool_info (msg_toolName msg) (tc_args tc))
               \<lparr>ti_result := msg_content msg, ti_parts := msg_parts msg\<rparr>)) w = ((c, tci, err), w1)"
    by (metis prod_cases3 surj_pair)
  show ?case
    using Cons.IH [of w1] Cons.hyps(1)
    by (cases err; cases tci; cases "result_loop ops rt ctx (zip ms tcs) w1")
      (auto simp: m f Let_def split: option.split)
qed simp

lemma normalize_all_ok: "list_all2 id_kept tcs (fst (normalize_all fresh tcs w))"
proof (induction tcs arbitrary: w)
  case (Cons tc tcs)
  show ?case
    using Cons.IH [of "snd (NormalizeToolCall fresh tc w)"] id_kept_normalize [of tc fresh w]
    by (auto split: prod.splits)
qed simp

lemma list_all2_map_same: "(\<And>x. x \<in> set xs \<Longrightarrow> P (f x) (g x)) \<Longrightarrow> list_all2 P (map f xs) (map g xs)"
  by (simp add: list_all2_conv_all_nth)

lemma blocked_answers:
  assumes "list_all2 gate_ok calls gated"
  shows "list_all2 answers (map snd gated)
    (map (\<lambda>(m, tc). case m of None \<Rightarrow> Some (NewToolMessage skip_payload (tc_id tc) (tc_name tc)) | Some x \<Rightarrow> Some x) gated)"
proof (rule list_all2_map_same)
  fix x assume "x \<in> set gated"
  then obtain tc0 where "gate_ok tc0 x" using assms
    by (auto simp: in_set_conv_nth list_all2_conv_all_nth)
  then show "answers (snd x) (case x of (m, tc) \<Rightarrow> (case m of
      None \<Rightarrow> Some (NewToolMessage skip_payload (tc_id tc) (tc_name tc)) | Some x \<Rightarrow> Some x))"
    by (auto simp: gate_ok_def split: prod.splits option.splits)
qed

lemma slots_keep_ids:
  assumes kept: "list_all2 id_kept calls tcs" and slots: "list_all2 slot_ok tcs slots"
  shows "list_all2 id_kept calls (map (\<lambda>s. the (snd s)) slots)"
  unfolding list_all2_conv_all_nth
proof (intro conjI allI impI)
  show "length calls = length (map (\<lambda>s. the (snd s)) slots)" using kept slots by (auto dest!: list_all2_lengthD)
  fix i assume "i < length calls"
  then have "id_kept (calls ! i) (tcs ! i)" "slot_ok (tcs ! i) (slots ! i)" "i < length slots"
    using kept slots list_all2_lengthD [OF kept] list_all2_lengthD [OF slots]
    by (auto dest: list_all2_nthD)
  then show "id_kept (calls ! i) (map (\<lambda>s. the (snd s)) slots ! i)"
    using slot_ok_id_kept id_kept_trans by fastforce
qed

text \<open>
  C5. Every tool call is answered.  Whatever the hooks, the tools, the scheduler and the retries do,
  \<open>ExecTools\<close> answers a batch with one tool message per call, in the order of the calls and each
  with the id of its call; a call that came with an id keeps it and one without gets one.  This
  holds for a missing registry, an unknown tool, a tool that panics, fails or times out, and a batch
  that a hook aborts.
\<close>

theorem exec_tools_answers:
  "\<exists>ms tcs w1. ExecTools ops rt ctx calls w = ((ms, tcs), w1)
     \<and> list_all2 answers tcs ms \<and> list_all2 id_kept calls tcs"
proof -
  obtain ms tcs w1 where e: "ExecTools ops rt ctx calls w = ((ms, tcs), w1)"
    by (metis prod_cases3 surj_pair)
  have "list_all2 answers tcs ms \<and> list_all2 id_kept calls tcs"
  proof (cases "calls = [] \<or> rt_tools rt = None")
    case True
    then show ?thesis
      using e normalize_all_ok [of calls "op_fresh ops" w]
      by (auto simp: ExecTools_def list_all2_conv_all_nth split: if_splits prod.splits)
  next
    case False
    obtain gated blocked w2 where g: "gate_loop ops rt ctx calls w = ((gated, blocked), w2)"
      by (metis prod_cases3 surj_pair)
    have ok: "list_all2 gate_ok calls gated"
      using gate_loop_ok [of calls ops rt ctx w] g by simp
    then have kept: "list_all2 id_kept calls (map snd gated)"
      by (auto simp: list_all2_conv_all_nth gate_ok_def)
    show ?thesis
    proof (cases blocked)
      case True
      have "ms = map (\<lambda>(m, tc). case m of None \<Rightarrow> Some (NewToolMessage skip_payload (tc_id tc) (tc_name tc))
                                | Some x \<Rightarrow> Some x) gated" "tcs = map snd gated"
        using e False True by (auto simp: ExecTools_def g)
      then show ?thesis using kept blocked_answers [OF ok] by simp
    next
      case unblocked: False
      obtain slots w3 where s: "execToolsWithRetry ops rt ctx (map snd gated) w2 = (slots, w3)"
        by (cases "execToolsWithRetry ops rt ctx (map snd gated) w2")
      have slots: "list_all2 slot_ok (map snd gated) slots"
        using execToolsWithRetry_ok [of "map snd gated" ops rt ctx w2] s by simp
      let ?tcs = "map (\<lambda>s. the (snd s)) slots"
      let ?ms = "map (\<lambda>s. ter_message (fst s)) slots"
      have "list_all2 answers ?tcs ?ms"
        using slots slot_ok_D(2) by (auto simp: list_all2_conv_all_nth)
      then have "list_all2 answers ?tcs (fst (result_loop ops rt ctx (zip ?ms ?tcs) w3))"
        by (rule result_loop_ok)
      moreover have "list_all2 id_kept calls ?tcs" by (rule slots_keep_ids [OF kept slots])
      moreover have "tcs = ?tcs" "ms = fst (result_loop ops rt ctx (zip ?ms ?tcs) w3)"
        using e False unblocked by (auto simp: ExecTools_def g s Let_def split: prod.splits)
      ultimately show ?thesis by simp
    qed
  qed
  then show ?thesis using e by blast
qed

end
