(* ===== verification/StepLoop.thy ===== *)
theory StepLoop
  imports AgentRuntime
begin

text \<open>
  The ReAct loop of \<open>engine/steploop.go\<close>: model call, tool phase, repeat, within a step budget; the
  collection of a streamed answer and the merging of its tool-call deltas.

  \<open>run_loop\<close> recurses on the steps left of the budget, so it is total.  A stream is a finite list of
  \<open>Recv\<close> results.  \<open>rin_send\<close> tells whether an event sender was given.
\<close>

section \<open>Streamed answers\<close>

text \<open>The tool calls merged so far and the position of each delta index among them.\<close>

type_synonym stream_calls = "tool_call list \<times> (int \<rightharpoonup> nat)"

definition blank_call :: "int option \<Rightarrow> tool_call" where
  "blank_call idx = \<lparr>tc_id = [], tc_type = [], tc_name = [], tc_args = [], tc_index = idx\<rparr>"

definition absorb_delta :: "tool_call \<Rightarrow> tool_call \<Rightarrow> tool_call" where
  "absorb_delta t tc =
     (let t = (if tc_id t = [] then t\<lparr>tc_id := tc_id tc\<rparr> else t);
          t = (if tc_type t = [] then t\<lparr>tc_type := tc_type tc\<rparr> else t)
      in t\<lparr>tc_name := tc_name t @ tc_name tc, tc_args := tc_args t @ tc_args tc\<rparr>)"

definition mergeStreamToolCall :: "tool_call \<Rightarrow> stream_calls \<Rightarrow> stream_calls" where
  "mergeStreamToolCall tc st = (case st of (calls, index) \<Rightarrow>
     (case tc_index tc of
        None \<Rightarrow> (calls @ [tc], index)
      | Some k \<Rightarrow>
         (let (pos, calls, index) = (case index k of
                 Some pos \<Rightarrow> (pos, calls, index)
               | None \<Rightarrow> (length calls, calls @ [blank_call (Some k)], index(k \<mapsto> length calls)))
          in (calls[pos := absorb_delta (calls ! pos) tc], index))))"

record collector =
  co_content :: string
  co_reasoning :: string
  co_calls :: stream_calls

definition collect_chunk :: "'w ops \<Rightarrow> message \<Rightarrow> collector \<Rightarrow> 'w \<Rightarrow> collector \<times> 'w" where
  "collect_chunk ops chunk co w =
     (let (co, w) = (if msg_content chunk \<noteq> []
                     then (co\<lparr>co_content := co_content co @ msg_content chunk\<rparr>,
                           op_send ops (TokenEvent (msg_content chunk)) w) else (co, w));
          (co, w) = (if msg_reasoning chunk \<noteq> []
                     then (co\<lparr>co_reasoning := co_reasoning co @ msg_reasoning chunk\<rparr>,
                           op_send ops (ReasoningEvent (msg_reasoning chunk)) w) else (co, w))
      in (co\<lparr>co_calls := fold mergeStreamToolCall (msg_toolCalls chunk) (co_calls co)\<rparr>, w))"

lemma stream_Recv_shrinks:
  "stream_Recv rt r w = (((chunk, None), r1), w1) \<Longrightarrow> length (hs_raw r1) < length (hs_raw r)"
  by (auto simp: stream_Recv_def raw_recv_def Let_def split: list.splits prod.splits option.splits if_splits)

function collect_loop ::
  "'w ops \<Rightarrow> 'w runtime \<Rightarrow> hook_stream \<Rightarrow> collector \<Rightarrow> 'w \<Rightarrow> (go_error + collector) \<times> hook_stream \<times> 'w" where
  "collect_loop ops rt r co w = (case stream_Recv rt r w of
     (((chunk, Some e), r1), w1) \<Rightarrow> ((if errors_is IoEOF e then Inr co else Inl e), r1, w1)
   | (((None, None), r1), w1) \<Rightarrow> collect_loop ops rt r1 co w1
   | (((Some m, None), r1), w1) \<Rightarrow>
       (case collect_chunk ops m co w1 of (co1, w2) \<Rightarrow> collect_loop ops rt r1 co1 w2))"
  by pat_completeness auto

termination
  by (relation "measure (\<lambda>(_, _, r, _, _). length (hs_raw r))") (auto dest: stream_Recv_shrinks [OF sym])

declare collect_loop.simps [simp del]

definition collectStream ::
  "'w ops \<Rightarrow> 'w runtime \<Rightarrow> hook_stream \<Rightarrow> 'w \<Rightarrow> (go_error + message) \<times> hook_stream \<times> 'w" where
  "collectStream ops rt r w =
     (case collect_loop ops rt r \<lparr>co_content = [], co_reasoning = [], co_calls = ([], Map.empty)\<rparr> w of
        (Inl e, r1, w1) \<Rightarrow> (Inl e, stream_Close r1, w1)
      | (Inr co, r1, w1) \<Rightarrow>
          (Inr ((NewAssistantMessage (co_content co))
                  \<lparr>msg_reasoning := co_reasoning co, msg_toolCalls := fst (co_calls co)\<rparr>),
           stream_Close r1, w1))"

section \<open>The step\<close>

record run_input =
  rin_agentName :: string
  rin_messages :: messages
  rin_opts :: gen_config
  rin_maxSteps :: int
  rin_streamMode :: bool
  rin_send :: bool

definition defaultMaxSteps :: int where
  "defaultMaxSteps = 25"

definition WithMaxSteps :: "int \<Rightarrow> int \<Rightarrow> int" where
  "WithMaxSteps n maxSteps = (if n > 0 then n else maxSteps)"

definition NewStepLoop :: "(int \<Rightarrow> int) list \<Rightarrow> int" where
  "NewStepLoop opts = fold (\<lambda>opt s. opt s) opts defaultMaxSteps"

definition callModel ::
  "'w ops \<Rightarrow> 'w runtime \<Rightarrow> go_ctx \<Rightarrow> messages \<Rightarrow> gen_config \<Rightarrow> bool \<Rightarrow> bool \<Rightarrow> 'w \<Rightarrow> model_ret \<times> 'w" where
  "callModel ops rt ctx msgs opts stream send w =
     (if \<not> stream \<or> \<not> send then CallModel ops rt ctx msgs opts w
      else (case CallModelStream rt ctx msgs opts w of
              (Inl e, w1) \<Rightarrow> ((None, None, Some e), w1)
            | (Inr reader, w1) \<Rightarrow>
               (case collectStream ops rt reader w1 of
                  (Inl e, r, w2) \<Rightarrow> ((None, None, Some e), w2)
                | (Inr resp, r, w2) \<Rightarrow> ((Some resp, None, None), w2))))"

text \<open>The events of the tool phase; \<open>ExecTools\<close> returns no nil message.\<close>

definition call_event :: "tool_call \<Rightarrow> event" where
  "call_event tc = ToolCallEvent (tc_name tc) (tc_args tc) (tc_id tc)"

definition result_event :: "message option \<Rightarrow> event" where
  "result_event m = (case m of None \<Rightarrow> ToolResultEvent [] [] []
     | Some x \<Rightarrow> ToolResultEvent (msg_toolName x) (msg_content x) (msg_toolCallID x))"

definition execToolPhase ::
  "'w ops \<Rightarrow> 'w runtime \<Rightarrow> go_ctx \<Rightarrow> message \<Rightarrow> bool \<Rightarrow> 'w \<Rightarrow> (messages \<times> tool_call list) \<times> 'w" where
  "execToolPhase ops rt ctx resp send w =
     (let w1 = (if send then fold (\<lambda>tc. op_send ops (call_event tc)) (msg_toolCalls resp) w else w)
      in (case ExecTools ops rt ctx (msg_toolCalls resp) w1 of
            ((results, tcs), w2) \<Rightarrow>
              ((results, tcs), if send then fold (\<lambda>m. op_send ops (result_event m)) results w2 else w2)))"

definition finishedResult :: "messages \<Rightarrow> token_usage option \<Rightarrow> agent_result" where
  "finishedResult msgs usage =
     \<lparr>rs_content = lastContent msgs, rs_messages = msgs, rs_usage = usage,
      rs_reason = TerminateFinished, rs_err = None\<rparr>"

text \<open>The closure \<open>Run\<close> passes to the step: it writes the run's \<open>totalUsage\<close> and \<open>stepRes\<close>.  The
  response is a pointer into the message list, so the calls \<open>ExecTools\<close> rewrites show there.\<close>

definition step_body ::
  "'w ops \<Rightarrow> 'w runtime \<Rightarrow> run_input \<Rightarrow> bool \<Rightarrow> (token_usage option \<times> agent_result option, 'w) step_body" where
  "step_body ops rt input send ctx info l w = (case info of
     None \<Rightarrow> (Panics nil_deref, l, w)
   | Some i \<Rightarrow>
      (let stepMsgs = (case si_messages i of None \<Rightarrow> [] | Some ms \<Rightarrow> ms) in
       case callModel ops rt ctx stepMsgs (rin_opts input) (rin_streamMode input) send w of
         ((resp, usage, Some e), w1) \<Rightarrow> (Returns (ctx, Some i, Some (WrapErr ''step'' e)), l, w1)
       | ((None, usage, None), w1) \<Rightarrow>
           (Returns (ctx, Some i, Some (Errorf ''step: empty model response'')), l, w1)
       | ((Some resp, usage, None), w1) \<Rightarrow>
           (let tot = (if usage \<noteq> None then accumulateUsage (fst l) usage else fst l) in
            if msg_toolCalls resp \<noteq> []
            then (case execToolPhase ops rt ctx resp send w1 of ((results, tcs), w2) \<Rightarrow>
                    (Returns (ctx, Some (i\<lparr>si_messages := Some (stepMsgs @ Some (resp\<lparr>msg_toolCalls := tcs\<rparr>) # results),
                                           si_hasToolCalls := True\<rparr>), None),
                     (tot, snd l), w2))
            else (Returns (ctx, Some (i\<lparr>si_messages := Some (stepMsgs @ [Some resp]),
                                        si_hasToolCalls := False\<rparr>), None),
                  (tot, Some (finishedResult (stepMsgs @ [Some resp]) tot)), w1))))"

text \<open>A runtime without \<open>RunStep\<close>: the deferred function assigns variables that are not the results.\<close>

definition fallback_step ::
  "'w runtime \<Rightarrow> go_ctx \<Rightarrow> step_info option \<Rightarrow> ('l, 'w) step_body \<Rightarrow> 'l \<Rightarrow> 'w \<Rightarrow> step_ret call \<times> 'l \<times> 'w" where
  "fallback_step rt ctx info body l w = (case FireStepStart rt ctx info w of
     (Panics p, w1) \<Rightarrow> (Panics p, l, w1)
   | (Returns (None, cont, i, err), w1) \<Rightarrow> (Returns (None, cont, i, err), l, w1)
   | (Returns (Some c, cont, i, err), w1) \<Rightarrow>
      (if err \<noteq> None \<or> \<not> cont then (Returns (Some c, cont, i, err), l, w1)
       else (case body c i l w1 of
               (Panics p, l2, w2) \<Rightarrow>
                 (case FireStepEnd rt c i w2 of
                    (Panics q, w3) \<Rightarrow> (Panics q, l2, w3) | (Returns _, w3) \<Rightarrow> (Panics p, l2, w3))
             | (Returns (c2, i2, err2), l2, w2) \<Rightarrow>
                 (case FireStepEnd rt c2 i2 w2 of
                    (Panics q, w3) \<Rightarrow> (Panics q, l2, w3)
                  | (Returns _, w3) \<Rightarrow> (Returns (Some c2, cont, i2, err2), l2, w3)))))"

definition runStep ::
  "bool \<Rightarrow> 'w runtime \<Rightarrow> go_ctx \<Rightarrow> step_info option \<Rightarrow> ('l, 'w) step_body \<Rightarrow> 'l \<Rightarrow> 'w \<Rightarrow> step_ret call \<times> 'l \<times> 'w" where
  "runStep lifecycler rt ctx info body l w =
     (if lifecycler then RunStep rt ctx info body l w else fallback_step rt ctx info body l w)"

section \<open>The loop\<close>

definition error_result :: "messages \<Rightarrow> token_usage option \<Rightarrow> TerminateReason \<Rightarrow> go_error option \<Rightarrow> agent_result" where
  "error_result msgs usage reason err =
     \<lparr>rs_content = [], rs_messages = msgs, rs_usage = usage, rs_reason = reason, rs_err = err\<rparr>"

lemma runStep_ctx: "runStep lc rt ctx info body l w = (Returns (c, cont, i, None), l1, w1) \<Longrightarrow> c \<noteq> None"
  using RunStep_ctx FireStep_ctx(1)
  by (fastforce simp: runStep_def fallback_step_def split: if_splits option.splits prod.splits call.splits)

text \<open>A step without an error leaves a context (\<open>runStep_ctx\<close>).\<close>

fun run_loop ::
  "'w ops \<Rightarrow> bool \<Rightarrow> 'w runtime \<Rightarrow> run_input \<Rightarrow> bool \<Rightarrow> int \<Rightarrow> nat \<Rightarrow>
   go_ctx \<Rightarrow> messages \<Rightarrow> token_usage option \<Rightarrow> 'w \<Rightarrow> agent_result call \<times> 'w" where
  "run_loop ops lc rt input send maxSteps 0 ctx msgs tot w =
     (Returns \<lparr>rs_content = lastContent msgs, rs_messages = msgs, rs_usage = tot,
               rs_reason = TerminateMaxSteps, rs_err = None\<rparr>, w)"
| "run_loop ops lc rt input send maxSteps (Suc left) ctx msgs tot w =
     (if op_ctxErr ops ctx w \<noteq> None
      then (Returns (error_result msgs tot TerminateCanceled (op_ctxErr ops ctx w)), w)
      else
        (case runStep lc rt ctx
                (Some \<lparr>si_invocationID = [], si_agentName = rin_agentName input, si_messages = Some msgs,
                       si_stepIndex = maxSteps - int (Suc left), si_maxSteps = maxSteps,
                       si_hasToolCalls = False, si_continue = False\<rparr>)
                (step_body ops rt input send) (tot, None) w of
           (Panics p, l, w1) \<Rightarrow> (Panics p, w1)
         | (Returns (c, cont, info, err), (tot1, stepRes), w1) \<Rightarrow>
             (if err \<noteq> None then (Returns (error_result msgs tot1 TerminateError err), w1)
              else (case stepRes of
                Some res \<Rightarrow> (Returns res, w1)
              | None \<Rightarrow>
                  if \<not> cont then (Returns (finishedResult msgs tot1), w1)
                  else run_loop ops lc rt input send maxSteps left
                         (the c)
                         (case info of None \<Rightarrow> msgs
                          | Some i \<Rightarrow> (case si_messages i of None \<Rightarrow> msgs | Some ms \<Rightarrow> ms)) tot1 w1))))"

definition Run ::
  "'w ops \<Rightarrow> bool \<Rightarrow> 'w runtime \<Rightarrow> int \<Rightarrow> go_ctx \<Rightarrow> run_input option \<Rightarrow> 'w \<Rightarrow> agent_result call \<times> 'w" where
  "Run ops lc rt loopSteps ctx input w = (case input of
     None \<Rightarrow> (Returns (error_result [] None TerminateError (Some (Errorf ''engine: nil input''))), w)
   | Some inp \<Rightarrow>
      (if rin_messages inp = []
       then (Returns (error_result [] None TerminateError (Some (Errorf ''engine: no input messages''))), w)
       else (let maxSteps = (if rin_maxSteps inp \<le> 0 then loopSteps else rin_maxSteps inp);
                 send = (rin_send inp \<or> (cx_agent ctx \<noteq> None \<and> cx_send ctx))
             in run_loop ops lc rt inp send maxSteps (nat maxSteps) ctx (rin_messages inp) None w)))"

section \<open>Answered transcripts\<close>

text \<open>Each message with tool calls is followed at once by one answer per call, in order.\<close>

fun answered :: "messages \<Rightarrow> bool" where
  "answered [] = True"
| "answered (m # ms) =
     ((case m of None \<Rightarrow> True
       | Some x \<Rightarrow> length (msg_toolCalls x) \<le> length ms
                  \<and> list_all2 answers (msg_toolCalls x) (take (length (msg_toolCalls x)) ms))
      \<and> answered ms)"

lemma answered_append: "answered xs \<Longrightarrow> answered ys \<Longrightarrow> answered (xs @ ys)"
  by (induction xs) (auto split: option.splits)

lemma answered_no_calls:
  "(\<And>x. Some x \<in> set ms \<Longrightarrow> msg_toolCalls x = []) \<Longrightarrow> answered ms"
  by (induction ms) (auto split: option.splits)

lemma answers_no_calls: "list_all2 answers tcs ms \<Longrightarrow> Some x \<in> set ms \<Longrightarrow> msg_toolCalls x = []"
  by (auto simp: in_set_conv_nth list_all2_conv_all_nth answers_def)

lemma answered_tool_phase:
  assumes "list_all2 answers tcs ms" and "msg_toolCalls resp = tcs"
  shows "answered (Some resp # ms)"
  using assms answered_no_calls [of ms] answers_no_calls [OF assms(1)] list_all2_lengthD [OF assms(1)]
  by auto

definition info_answered :: "step_info option \<Rightarrow> bool" where
  "info_answered info = (case info of None \<Rightarrow> True
     | Some i \<Rightarrow> (case si_messages i of None \<Rightarrow> True | Some ms \<Rightarrow> answered ms))"

text \<open>A step hook may rewrite the messages of the step as long as it keeps them answered.\<close>

definition keeps_answered :: "(step_info option, 'w) hook \<Rightarrow> bool" where
  "keeps_answered fn \<longleftrightarrow>
     (\<forall>c i v c' i' v'. info_answered i \<longrightarrow> fn c i v = (Returns (c', i', None), v') \<longrightarrow> info_answered i')"

lemma execToolPhase_answers:
  "execToolPhase ops rt ctx resp send w = ((ms, tcs), w1) \<Longrightarrow> list_all2 answers tcs ms"
proof -
  assume e: "execToolPhase ops rt ctx resp send w = ((ms, tcs), w1)"
  let ?w = "if send then fold (\<lambda>tc. op_send ops (call_event tc)) (msg_toolCalls resp) w else w"
  obtain ms1 tcs1 w2 where "ExecTools ops rt ctx (msg_toolCalls resp) ?w = ((ms1, tcs1), w2)"
      "list_all2 answers tcs1 ms1"
    using exec_tools_answers [of ops rt ctx "msg_toolCalls resp" ?w] by blast
  then show ?thesis using e by (auto simp: execToolPhase_def Let_def)
qed

lemma info_answered_identity [simp]:
  "info_answered (step_identity ctx info) = info_answered info"
  by (cases info) (auto simp: info_answered_def step_identity_def)

lemma step_identity_None [simp]: "step_identity ctx None = None"
  by (simp add: step_identity_def)

lemma info_answered_Some [simp]:
  "info_answered (Some (i\<lparr>si_continue := b\<rparr>)) = info_answered (Some i)"
  "info_answered (Some (i\<lparr>si_messages := Some ms, si_hasToolCalls := b\<rparr>)) = answered ms"
  by (simp_all add: info_answered_def)

lemma step_hook_loop_answered:
  assumes "\<forall>fn. Some fn \<in> set fns \<longrightarrow> keeps_answered fn" and "info_answered info"
    and "step_hook_loop name fns ctx info w = ((c, cont, i, None), w1)"
  shows "info_answered i"
  by (rule step_hook_loop_invariant [where P = info_answered, OF _ assms(2,3)]) (use assms(1) in \<open>unfold keeps_answered_def, meson\<close>)

lemma FireStepStart_answered:
  assumes hooks: "\<forall>fn. Some fn \<in> set (stepStartHooks rt) \<longrightarrow> keeps_answered fn" and info: "info_answered info"
    and fire: "FireStepStart rt ctx info w = (Returns (c, cont, i, None), w1)"
  shows "info_answered i"
proof (cases "stepStartHooks rt = [] \<or> info = None")
  case True
  then show ?thesis using fire info
    by (cases info) (auto simp: FireStepStart_def Let_def split: if_splits option.splits)
next
  case False
  then obtain j where j: "step_identity ctx info = Some j"
    by (cases info) (auto simp: step_identity_def)
  let ?step = "case info of None \<Rightarrow> 0 | Some i \<Rightarrow> si_stepIndex i"
  obtain c0 cont0 i0 e0 v where loop: "step_hook_loop ''step_start'' (stepStartHooks rt)
      (WithStepIndex ctx ?step) (Some (j\<lparr>si_continue := True\<rparr>)) w = ((c0, cont0, i0, e0), v)"
    by (metis prod_cases4 surj_pair)
  have "i0 = i" "e0 = None"
    using fire False by (auto simp: FireStepStart_def j loop Let_def split: option.splits bool.splits)
  moreover have "info_answered (Some (j\<lparr>si_continue := True\<rparr>))"
    using info j info_answered_identity [of ctx info] by simp
  ultimately show ?thesis
    using step_hook_loop_answered [OF hooks _ loop [unfolded \<open>e0 = None\<close>]] by simp
qed

lemma FireStepEnd_answered:
  assumes hooks: "\<forall>fn. Some fn \<in> set (stepEndHooks rt) \<longrightarrow> keeps_answered fn" and info: "info_answered info"
    and fire: "FireStepEnd rt ctx info w = (Returns (c, cont, i, None), w1)"
  shows "info_answered i"
proof (cases "stepEndHooks rt = [] \<or> info = None")
  case True
  then show ?thesis using fire info
    by (cases info) (auto simp: FireStepEnd_def Let_def split: if_splits option.splits)
next
  case False
  then obtain j where j: "step_identity ctx info = Some j"
    by (cases info) (auto simp: step_identity_def)
  have "info_answered (Some (j\<lparr>si_continue := True\<rparr>))"
    using info j info_answered_identity [of ctx info] by simp
  moreover have "step_hook_loop ''step_end'' (stepEndHooks rt) ctx (Some (j\<lparr>si_continue := True\<rparr>)) w
      = ((c, cont, i, None), w1)"
    using fire False by (auto simp: FireStepEnd_def j Let_def split: prod.splits)
  ultimately show ?thesis by (rule step_hook_loop_answered [OF hooks])
qed

text \<open>What the closure keeps: the message list, and the result it hands to the run.\<close>

lemma step_body_answered:
  assumes "info_answered i" and "step_body ops rt input send c i l v = (r, l', v')"
  shows "(\<forall>res. snd l' = Some res \<longrightarrow> snd l = Some res \<or> answered (rs_messages res))"
    and "r = Returns (c', i', err) \<Longrightarrow> info_answered i'"
proof -
  have phase: "answered (ms @ Some (resp\<lparr>msg_toolCalls := tcs\<rparr>) # results)"
    if "answered ms" "execToolPhase ops rt c resp send w1 = ((results, tcs), w2)" for ms resp results tcs w1 w2
    by (rule answered_append [OF that(1)])
       (use answered_tool_phase [OF execToolPhase_answers [OF that(2)], of "resp\<lparr>msg_toolCalls := tcs\<rparr>"] in simp)
  have last: "answered (ms @ [Some resp])" if "answered ms" "msg_toolCalls resp = []" for ms resp
    using that by (intro answered_append) auto
  have "(\<forall>res. snd l' = Some res \<longrightarrow> snd l = Some res \<or> answered (rs_messages res)) \<and>
        (\<forall>c' i' err. r = Returns (c', i', err) \<longrightarrow> info_answered i')"
  proof (cases i)
    case None
    then show ?thesis using assms(2) by (auto simp: step_body_def)
  next
    case (Some j)
    define ms where "ms = (case si_messages j of None \<Rightarrow> [] | Some ms \<Rightarrow> ms)"
    have ms: "answered ms" using assms(1) Some by (auto simp: info_answered_def ms_def split: option.splits)
    obtain resp usage err w1
      where call: "callModel ops rt c ms (rin_opts input) (rin_streamMode input) send v = ((resp, usage, err), w1)"
      by (metis prod_cases3 surj_pair)
    note body = assms(2) [unfolded step_body_def Some option.case Let_def, folded ms_def, unfolded call prod.case]
    show ?thesis
    proof (cases "err = None \<and> resp \<noteq> None")
      case False
      then show ?thesis using body assms(1) Some by (cases err; cases resp) auto
    next
      case True
      then obtain m where m: "resp = Some m" "err = None" by auto
      then show ?thesis
        using body last [OF ms] phase [OF ms, of m]
        by (auto simp: finishedResult_def simp del: answered.simps split: if_splits prod.splits)
    qed
  qed
  then show "\<forall>res. snd l' = Some res \<longrightarrow> snd l = Some res \<or> answered (rs_messages res)"
    and "r = Returns (c', i', err) \<Longrightarrow> info_answered i'" by blast+
qed

lemma combine_errors_None [simp]: "combine_errors a b = None \<longleftrightarrow> a = None \<and> b = None"
  by (auto simp: combine_errors_def split: option.splits)

lemma runStep_answered:
  assumes starts: "\<forall>fn. Some fn \<in> set (stepStartHooks rt) \<longrightarrow> keeps_answered fn"
    and ends: "\<forall>fn. Some fn \<in> set (stepEndHooks rt) \<longrightarrow> keeps_answered fn"
    and info: "info_answered info"
    and run: "runStep lc rt ctx info (step_body ops rt input send) (tot, None) w
                = (Returns (c, cont, i, err), (tot1, stepRes), w1)"
  shows "(\<forall>res. stepRes = Some res \<longrightarrow> answered (rs_messages res)) \<and> (err = None \<longrightarrow> info_answered i)"
proof -
  obtain ret v1 where start: "FireStepStart rt ctx info w = (ret, v1)" by (cases "FireStepStart rt ctx info w")
  show ?thesis
  proof (cases "\<exists>c0 i0. ret = Returns (Some c0, True, i0, None)")
    case False
    then show ?thesis
      using run start FireStepStart_answered [OF starts info]
      by (auto simp: runStep_def RunStep_def fallback_step_def split: call.splits option.splits prod.splits if_splits)
  next
    case True
    then obtain c0 i0 where ret: "ret = Returns (Some c0, True, i0, None)" by blast
    have i0: "info_answered i0" using FireStepStart_answered [OF starts info] start ret by blast
    obtain r l2 v2 where body: "step_body ops rt input send c0 i0 (tot, None) v1 = (r, l2, v2)"
      by (metis prod_cases3)
    note b = step_body_answered [OF i0 body]
    obtain c2 i2 err2 where r: "r = Returns (c2, i2, err2)"
      using run by (cases r) (auto simp: runStep_def RunStep_def fallback_step_def start ret body
          split: call.splits prod.splits if_splits)
    have i2: "info_answered i2" using b(2) [OF r] .
    have l2: "l2 = (tot1, stepRes)"
      using run by (auto simp: runStep_def RunStep_def fallback_step_def start ret body r
          split: call.splits prod.splits if_splits)
    obtain e v3 where fin: "FireStepEnd rt c2 i2 v2 = (e, v3)" by (cases "FireStepEnd rt c2 i2 v2")
    have "info_answered i" if "err = None"
      using run that i2 fin FireStepEnd_answered [OF ends i2, of c2 v2 c cont i v3]
      by (cases e) (auto simp: runStep_def RunStep_def fallback_step_def start ret body r fin
          split: if_splits prod.splits option.splits)
    then show ?thesis using b(1) l2 by auto
  qed
qed

lemma run_loop_answered:
  assumes "\<forall>fn. Some fn \<in> set (stepStartHooks rt) \<longrightarrow> keeps_answered fn"
    and "\<forall>fn. Some fn \<in> set (stepEndHooks rt) \<longrightarrow> keeps_answered fn"
    and "answered msgs"
    and "run_loop ops lc rt input send maxSteps left ctx msgs tot w = (Returns res, w1)"
  shows "answered (rs_messages res)"
  using assms
proof (induction ops lc rt input send maxSteps left ctx msgs tot w rule: run_loop.induct)
  case (2 ops lc rt input send maxSteps left ctx msgs tot w)
  show ?case
  proof (cases "op_ctxErr ops ctx w = None")
    case False
    then show ?thesis using 2 by (auto simp: error_result_def)
  next
    case True
    let ?info = "Some \<lparr>si_invocationID = [], si_agentName = rin_agentName input, si_messages = Some msgs,
                       si_stepIndex = maxSteps - int (Suc left), si_maxSteps = maxSteps,
                       si_hasToolCalls = False, si_continue = False\<rparr>"
    have info: "info_answered ?info" using "2.prems"(3) by (simp add: info_answered_def)
    obtain r l v where step: "runStep lc rt ctx ?info (step_body ops rt input send) (tot, None) w = (r, l, v)"
      by (metis prod_cases3)
    obtain tot1 stepRes where l: "l = (tot1, stepRes)" by (cases l)
    show ?thesis
    proof (cases r)
      case (Panics p)
      then show ?thesis using "2.prems"(4) True step l by simp
    next
      case (Returns q)
      obtain c cont i err where q: "q = (c, cont, i, err)" by (metis prod_cases4)
      note ok = runStep_answered [OF "2.prems"(1,2) info step [unfolded l Returns q]]
      show ?thesis
      proof (cases "err = None \<and> stepRes = None \<and> cont")
        case False
        then show ?thesis using "2.prems"(3,4) True step ok
          by (auto simp: l Returns q error_result_def finishedResult_def split: option.splits if_splits)
      next
        case cont: True
        let ?ms = "case i of None \<Rightarrow> msgs | Some j \<Rightarrow> (case si_messages j of None \<Rightarrow> msgs | Some ms \<Rightarrow> ms)"
        have "answered ?ms" using ok cont "2.prems"(3) by (auto simp: info_answered_def split: option.splits)
        moreover have "run_loop ops lc rt input send maxSteps left (the c) ?ms tot1 v
            = (Returns res, w1)"
          using "2.prems"(4) True step cont by (simp add: l Returns q)
        ultimately show ?thesis
          using "2.IH" [OF _ step [symmetric] Returns _ _ _ _ l [symmetric]] "2.prems"(1,2) True cont q by blast
      qed
    qed
  qed
qed auto

text \<open>
  C3. A run's transcript stays valid.  Let the messages a run starts from be answered (each message
  with tool calls followed by one tool message per call, in order and with its id), and let the step
  hooks keep that.  Then whatever the model, the tools and the remaining hooks do, the transcript of
  the result is answered: on a final answer, an exhausted budget, a cancellation, an error and an
  abort by a hook, in both modes of the model call.
\<close>

theorem run_transcript_valid:
  assumes "\<forall>fn. Some fn \<in> set (stepStartHooks rt) \<longrightarrow> keeps_answered fn"
    and "\<forall>fn. Some fn \<in> set (stepEndHooks rt) \<longrightarrow> keeps_answered fn"
    and "answered (rin_messages input)"
    and "Run ops lc rt loopSteps ctx (Some input) w = (Returns res, w1)"
  shows "answered (rs_messages res)"
proof (cases "rin_messages input = []")
  case True
  then show ?thesis using assms(4) by (auto simp: Run_def error_result_def)
next
  case False
  then show ?thesis
    using run_loop_answered [OF assms(1-3)] assms(4) by (auto simp: Run_def Let_def)
qed

subsection \<open>A concrete run\<close>

text \<open>A model that asks for the tool ''t'' on its first call, without naming an id, and answers on
  the second; the world counts the calls of the model and of the tool.\<close>

type_synonym demo_world = "nat \<times> nat"

definition demo_ops :: "demo_world ops" where
  "demo_ops = \<lparr>op_fresh = (\<lambda>w. (''sess'', w)), op_pick = (\<lambda>w. 0), op_deadline = (\<lambda>_ _ _ _. False),
     op_text = (\<lambda>_. ''err''), op_wait = (\<lambda>_ _ w. (None, w)), op_ctxErr = (\<lambda>_ _. None), op_send = (\<lambda>_ w. w)\<rparr>"

definition demo_model :: "demo_world model" where
  "demo_model = \<lparr>mo_generate = (\<lambda>_ _ (n, k).
      (((Some (if n = 0 then (NewAssistantMessage [])
                  \<lparr>msg_toolCalls := [\<lparr>tc_id = [], tc_type = [], tc_name = ''t'', tc_args = [], tc_index = None\<rparr>]\<rparr>
               else NewAssistantMessage ''done''),
         Some \<lparr>PromptTokens = 1, CompletionTokens = 2, TotalTokens = 3\<rparr>), None), (Suc n, k))),
     mo_stream = (\<lambda>_ _ w. (([], None), w))\<rparr>"

definition demo_tool :: "demo_world tool" where
  "demo_tool = \<lparr>t_name = ''t'', t_description = [], t_effects = [EffectRead], t_timeoutMs = 0,
     t_body = ToolRun (\<lambda>_ (n, k). (Returns (''ok'', None), (n, Suc k)))\<rparr>"

definition demo_registry :: "demo_world registry" where
  "demo_registry = \<lparr>rg_get = (\<lambda>name w. if name = ''t'' then Some demo_tool else None), rg_list = (\<lambda>w. [demo_tool])\<rparr>"

definition stop_hook :: "(step_info option, 'w) hook" where
  "stop_hook c i v = (Returns (c, map_option (\<lambda>x. x\<lparr>si_continue := False\<rparr>) i, None), v)"

definition demo_rt :: "(step_info option, demo_world) hook option list \<Rightarrow> demo_world runtime" where
  "demo_rt ends = (NewRuntime (Some demo_model) (Some demo_registry) [] [] [])\<lparr>stepEndHooks := ends\<rparr>"

definition demo_input :: run_input where
  "demo_input = \<lparr>rin_agentName = ''a'', rin_messages = [Some (NewUserMessage ''hi'')],
     rin_opts = \<lparr>gc_tools = None, gc_options = 0\<rparr>, rin_maxSteps = 3, rin_streamMode = False, rin_send = False\<rparr>"

definition demo_ctx :: go_ctx where
  "demo_ctx = \<lparr>cx_agent = None, cx_step = None, cx_send = False, cx_key = 0\<rparr>"

lemmas demo_eval =
  demo_ops_def demo_model_def demo_tool_def demo_registry_def demo_rt_def demo_input_def demo_ctx_def
  NewRuntime_def Run_def run_loop.simps runStep_def RunStep_def FireStepStart_def FireStepEnd_def
  step_identity_def invocationIDFromContext_def WithStepIndex_def step_body_def callModel_def CallModel_def
  fireModelCall_def enrichModelInfo_def model_info_result_def call_loop.simps model_attempt_def fireModelResult_def with_registry_tools_def
  execToolPhase_def ExecTools_def NormalizeToolCall_def fireToolCall_def fireToolResult_def
  execToolsWithRetry_def exec_batch_def ExecToolsConcurrentResults_def run_goroutines.simps slot_choice_def
  exec_call_def ExecTools_env_def runToolResult_def newToolResultMessage_def remove_nth_def timeoutOf_def
  enrichToolInfo_def correlation_def blank_tool_info_def accumulateUsage_def finishedResult_def lastContent_def
  new_message_defs stop_hook_def fireHookSafe_def combine_errors_def Let_def

lemma demo_run:
  "Run demo_ops True (demo_rt []) 25 demo_ctx (Some demo_input) (0, 0) =
     (Returns (finishedResult
        [Some (NewUserMessage ''hi''),
         Some ((NewAssistantMessage [])\<lparr>msg_toolCalls :=
            [\<lparr>tc_id = ''call_sess'', tc_type = ''function'', tc_name = ''t'', tc_args = ''{}'', tc_index = None\<rparr>]\<rparr>),
         Some (NewToolMessage ''ok'' ''call_sess'' ''t''),
         Some (NewAssistantMessage ''done'')]
        (Some \<lparr>PromptTokens = 2, CompletionTokens = 4, TotalTokens = 6\<rparr>)), (2, 1))"
  by (simp add: demo_eval eval_nat_numeral)

theorem run_transcript_valid_witness:
  "\<exists>res w1. Run demo_ops True (demo_rt [Some stop_hook]) 25 demo_ctx (Some demo_input) (0, 0) = (Returns res, w1)
     \<and> answered (rs_messages res)"
proof -
  have "keeps_answered (stop_hook :: (step_info option, demo_world) hook)"
    by (auto simp: keeps_answered_def stop_hook_def info_answered_def split: option.splits)
  moreover obtain res w1
    where run: "Run demo_ops True (demo_rt [Some stop_hook]) 25 demo_ctx (Some demo_input) (0, 0) = (Returns res, w1)"
    by (simp add: demo_eval eval_nat_numeral)
  ultimately show ?thesis
    using run_transcript_valid [OF _ _ _ run]
    by (auto simp: demo_rt_def demo_input_def NewRuntime_def new_message_defs)
qed

section \<open>Aborting a step\<close>

text \<open>
  A step-end hook that stops the loop discards the step.  When the only step hook sets
  \<open>Continue\<close> to false after a step with tool calls, the tools of the step have run and its usage is
  counted, but the result carries the messages from before the step: neither the assistant message
  nor the tool messages are in the transcript.
\<close>

theorem step_end_abort_drops_step:
  assumes "stepStartHooks rt = []" and "stepEndHooks rt = [Some stop_hook]"
    and "op_ctxErr ops ctx w = None" and "rin_messages input \<noteq> []" and "rin_maxSteps input > 0"
    and "\<not> rin_streamMode input" and "\<not> rin_send input" and "cx_agent ctx = None"
    and model: "CallModel ops rt (WithStepIndex ctx 0) (rin_messages input) (rin_opts input) w
                  = ((Some resp, usage, None), w1)"
    and "msg_toolCalls resp \<noteq> []"
    and tools: "ExecTools ops rt (WithStepIndex ctx 0) (msg_toolCalls resp) w1 = ((results, tcs), w2)"
  shows "Run ops True rt loopSteps ctx (Some input) w
           = (Returns (finishedResult (rin_messages input) (accumulateUsage None usage)), w2)"
proof -
  obtain k where k: "nat (rin_maxSteps input) = Suc k" "rin_maxSteps input = int (Suc k)"
    using assms(5) by (metis gr0_conv_Suc nat_0_iff not_le nat_eq_iff2 zero_less_nat_eq)
  show ?thesis
    using assms k
    by (simp add: Run_def runStep_def RunStep_def FireStepStart_def FireStepEnd_def step_body_def
        callModel_def execToolPhase_def step_identity_def stop_hook_def fireHookSafe_def
        accumulateUsage_def combine_errors_def Let_def split: option.split)
qed

theorem step_end_abort_drops_step_witness:
  "\<exists>u. Run demo_ops True (demo_rt [Some stop_hook]) 25 demo_ctx (Some demo_input) (0, 0) =
     (Returns (finishedResult [Some (NewUserMessage ''hi'')] u), (1, 1))"
proof -
  have m: "CallModel demo_ops (demo_rt [Some stop_hook]) (WithStepIndex demo_ctx 0) (rin_messages demo_input)
      (rin_opts demo_input) (0, 0) =
    ((Some ((NewAssistantMessage [])
        \<lparr>msg_toolCalls := [\<lparr>tc_id = [], tc_type = [], tc_name = ''t'', tc_args = [], tc_index = None\<rparr>]\<rparr>),
      Some \<lparr>PromptTokens = 1, CompletionTokens = 2, TotalTokens = 3\<rparr>, None), (1, 0))"
    by (simp add: demo_eval)
  obtain results tcs where t: "ExecTools demo_ops (demo_rt [Some stop_hook]) (WithStepIndex demo_ctx 0)
      [\<lparr>tc_id = [], tc_type = [], tc_name = ''t'', tc_args = [], tc_index = None\<rparr>] (1, 0) = ((results, tcs), (1, 1))"
    by (simp add: demo_eval)
  show ?thesis
    using step_end_abort_drops_step [OF _ _ _ _ _ _ _ _ m] t
    by (simp add: demo_rt_def demo_ops_def demo_input_def demo_ctx_def NewRuntime_def new_message_defs) blast
qed

text \<open>A runtime without \<open>RunStep\<close> ignores what its step-end hooks answer.\<close>

lemma fallback_drops_step_end:
  assumes "FireStepStart rt ctx info w = (Returns (Some c, True, i, None), w1)"
    and "body c i l w1 = (Returns (c2, i2, err2), l2, w2)"
    and "FireStepEnd rt c2 i2 w2 = (Returns (endCtx, endCont, endInfo, endErr), w3)"
  shows "fallback_step rt ctx info body l w = (Returns (Some c2, True, i2, err2), l2, w3)"
    and "RunStep rt ctx info body l w =
      (Returns (endCtx, endCont, (case endInfo of None \<Rightarrow> i2 | Some x \<Rightarrow> Some x), combine_errors err2 endErr), l2, w3)"
  using assms by (simp_all add: fallback_step_def RunStep_def)

end
