(* ===== verification/StreamMerge.thy ===== *)
theory StreamMerge
  imports StepLoop
begin

text \<open>
  The merging of streamed tool-call deltas (\<open>mergeStreamToolCall\<close> of \<open>engine/steploop.go\<close>) against
  a reference that looks at all deltas at once: one call per index, in the order in which the
  indexes first appear, with the fragments of its name and arguments concatenated.
\<close>

definition first_filled :: "string list \<Rightarrow> string" where
  "first_filled xs = (case find (\<lambda>x. x \<noteq> []) xs of None \<Rightarrow> [] | Some x \<Rightarrow> x)"

lemma first_filled_simps [simp]:
  "first_filled [] = []"
  "first_filled (xs @ [x]) = (if first_filled xs = [] then x else first_filled xs)"
  by (induction xs) (auto simp: first_filled_def)

definition deltas_of :: "int \<Rightarrow> tool_call list \<Rightarrow> tool_call list" where
  "deltas_of k ds = filter (\<lambda>d. tc_index d = Some k) ds"

definition assemble :: "tool_call list \<Rightarrow> int \<Rightarrow> tool_call" where
  "assemble ds k =
     \<lparr>tc_id = first_filled (map tc_id (deltas_of k ds)), tc_type = first_filled (map tc_type (deltas_of k ds)),
      tc_name = concat (map tc_name (deltas_of k ds)), tc_args = concat (map tc_args (deltas_of k ds)),
      tc_index = Some k\<rparr>"

text \<open>The indexes in the order of their first delta.\<close>

definition index_order :: "tool_call list \<Rightarrow> int list" where
  "index_order ds = rev (remdups (rev (map (\<lambda>d. the (tc_index d)) ds)))"

lemma index_order_snoc:
  "index_order (ds @ [d]) =
     (let k = the (tc_index d) in if k \<in> set (index_order ds) then index_order ds else index_order ds @ [k])"
  by (simp add: index_order_def Let_def)

lemma distinct_index_order: "distinct (index_order ds)"
  by (simp add: index_order_def)

lemma assemble_snoc:
  assumes "tc_index d = Some j"
  shows "assemble (ds @ [d]) k = (if k = j then absorb_delta (assemble ds k) d else assemble ds k)"
  using assms by (simp add: assemble_def deltas_of_def absorb_delta_def Let_def)

lemma assemble_fresh: "k \<notin> set (index_order ds) \<Longrightarrow> \<forall>d \<in> set ds. tc_index d \<noteq> None \<Longrightarrow> assemble ds k = blank_call (Some k)"
proof -
  assume "k \<notin> set (index_order ds)" and "\<forall>d \<in> set ds. tc_index d \<noteq> None"
  then have "deltas_of k ds = []"
    by (force simp: index_order_def deltas_of_def filter_empty_conv)
  then show ?thesis by (simp add: assemble_def blank_call_def)
qed

text \<open>What the loop maintains.\<close>

definition merge_inv :: "tool_call list \<Rightarrow> stream_calls \<Rightarrow> bool" where
  "merge_inv ds st \<longleftrightarrow> fst st = map (assemble ds) (index_order ds) \<and>
     (\<forall>k pos. snd st k = Some pos \<longleftrightarrow> pos < length (index_order ds) \<and> index_order ds ! pos = k)"

lemma merge_inv_step:
  assumes inv: "merge_inv ds st" and all: "\<forall>d \<in> set ds. tc_index d \<noteq> None" and k: "tc_index d = Some k"
  shows "merge_inv (ds @ [d]) (mergeStreamToolCall d st)"
proof (cases "snd st k")
  case None
  have fresh: "k \<notin> set (index_order ds)"
  proof
    assume "k \<in> set (index_order ds)"
    then obtain i where "i < length (index_order ds)" "index_order ds ! i = k"
      by (auto simp: in_set_conv_nth)
    then have "snd st k = Some i" using inv by (simp add: merge_inv_def)
    with None show False by simp
  qed
  have calls: "fst st = map (assemble ds) (index_order ds)" using inv by (simp add: merge_inv_def)
  have "map (assemble (ds @ [d])) (index_order ds) = map (assemble ds) (index_order ds)"
    using fresh by (auto simp: assemble_snoc [OF k])
  moreover have "assemble (ds @ [d]) k = absorb_delta (blank_call (Some k)) d"
    by (simp add: assemble_snoc [OF k] assemble_fresh [OF fresh all])
  ultimately show ?thesis
    using inv None fresh calls
    by (cases st) (auto simp: merge_inv_def mergeStreamToolCall_def k Let_def index_order_snoc nth_append
        less_Suc_eq list_update_append split: if_splits)
next
  case (Some pos)
  then have pos: "pos < length (index_order ds)" "index_order ds ! pos = k"
    using inv by (auto simp: merge_inv_def)
  have seen: "k \<in> set (index_order ds)" using pos nth_mem by blast
  have "(map (assemble ds) (index_order ds))[pos := absorb_delta (assemble ds k) d]
      = map (assemble (ds @ [d])) (index_order ds)"
    using pos distinct_index_order [of ds]
    by (intro nth_equalityI) (auto simp: nth_list_update assemble_snoc [OF k] nth_eq_iff_index_eq)
  moreover have "mergeStreamToolCall d st = ((fst st)[pos := absorb_delta (fst st ! pos) d], snd st)"
    using Some by (cases st) (simp add: mergeStreamToolCall_def k)
  moreover have "fst st ! pos = assemble ds k"
    using inv pos by (simp add: merge_inv_def)
  moreover have "index_order (ds @ [d]) = index_order ds"
    using seen by (simp add: index_order_snoc k)
  ultimately show ?thesis
    using inv by (simp add: merge_inv_def)
qed

lemma merge_inv_fold:
  "\<forall>d \<in> set ds. tc_index d \<noteq> None \<Longrightarrow> merge_inv ds (fold mergeStreamToolCall ds ([], Map.empty))"
proof (induction ds rule: rev_induct)
  case Nil
  then show ?case by (simp add: merge_inv_def index_order_def)
next
  case (snoc d ds)
  then obtain k where "tc_index d = Some k" by auto
  then show ?case using snoc merge_inv_step by auto
qed

text \<open>
  C23. Streamed tool calls are reassembled.  For deltas that carry an index, in any interleaving, the
  merge yields one call per index in the order of first appearance; its id and type are the first
  non-empty ones sent for it, and its name and arguments are all its fragments in order.  How the
  deltas are split over chunks does not matter.
\<close>

theorem stream_calls_reassembled:
  assumes "\<forall>d \<in> set (concat chunks). tc_index d \<noteq> None"
  shows "fst (fold (\<lambda>chunk. fold mergeStreamToolCall chunk) chunks ([], Map.empty))
           = map (assemble (concat chunks)) (index_order (concat chunks))"
proof -
  have "fold (\<lambda>chunk. fold mergeStreamToolCall chunk) chunks st
      = fold mergeStreamToolCall (concat chunks) st" for st
    by (induction chunks arbitrary: st) simp_all
  then show ?thesis using merge_inv_fold [OF assms] by (simp add: merge_inv_def)
qed

definition demo_delta :: "int \<Rightarrow> string \<Rightarrow> string \<Rightarrow> string \<Rightarrow> tool_call" where
  "demo_delta k i n a = \<lparr>tc_id = i, tc_type = [], tc_name = n, tc_args = a, tc_index = Some k\<rparr>"

theorem stream_calls_reassembled_witness:
  "fst (fold (\<lambda>chunk. fold mergeStreamToolCall chunk)
          [[demo_delta 1 ''x'' ''f'' ''{'', demo_delta 0 ''y'' ''g'' ''1''], [demo_delta 1 '''' '''' ''}'']]
          ([], Map.empty)) =
   [demo_delta 1 ''x'' ''f'' ''{}'', demo_delta 0 ''y'' ''g'' ''1'']"
  using stream_calls_reassembled
    [of "[[demo_delta 1 ''x'' ''f'' ''{'', demo_delta 0 ''y'' ''g'' ''1''], [demo_delta 1 '''' '''' ''}'']]"]
  by (simp add: demo_delta_def assemble_def deltas_of_def index_order_def first_filled_def)

end
