(* ===== verification/Retry.thy ===== *)
theory Retry
  imports Resilience
begin

unbundle bit_operations_syntax

text \<open>
  The retry middleware of \<open>middleware/retry/retry.go\<close>: the backoff arithmetic at its 64-bit
  width, and the retry loop over an arbitrary world.

  The loop of the always mode may run forever, so \<open>retry_loop\<close> is a partial function: not
  returning is \<open>None\<close>.  \<open>wait\<close> is the \<open>select\<close> between \<open>ctx.Done()\<close> and the timer: it answers the
  context's error when the cancellation wins.  The random numbers of the jitter are the argument
  \<open>rnd\<close>, one per attempt, each in \<open>[0, 1)\<close>; its \<open>float64\<close> product is a real.
\<close>

section \<open>Configuration\<close>

datatype retry_mode = ModeNormal | ModeAlways

record retry_mw =
  MaxRetries :: int
  BaseDelay :: int64
  MaxDelay :: int64
  Mode :: retry_mode
  JitterRatio :: real

definition retry_defaults :: retry_mw where
  "retry_defaults = \<lparr>MaxRetries = 3, BaseDelay = 1000000000, MaxDelay = 30 * 1000000000,
                     Mode = ModeNormal, JitterRatio = 1 / 10\<rparr>"

definition NewWithOptions :: "(retry_mw \<Rightarrow> retry_mw) list \<Rightarrow> retry_mw" where
  "NewWithOptions opts =
     (let m = fold (\<lambda>opt m. opt m) opts retry_defaults
      in if JitterRatio m < 0 then m\<lparr>JitterRatio := 0\<rparr> else m)"

definition NewRetry :: "int \<Rightarrow> int64 \<Rightarrow> int64 \<Rightarrow> retry_mw" where
  "NewRetry maxRetries baseDelay maxDelay = NewWithOptions [\<lambda>m.
     (let m = (if maxRetries > 0 then m\<lparr>MaxRetries := maxRetries\<rparr> else m);
          m = (if sint baseDelay > 0 then m\<lparr>BaseDelay := baseDelay\<rparr> else m)
      in if sint maxDelay > 0 then m\<lparr>MaxDelay := maxDelay\<rparr> else m)]"

section \<open>Delays\<close>

definition backoff :: "retry_mw \<Rightarrow> nat \<Rightarrow> int64" where
  "backoff m attempt =
     (if attempt = 0 then 0
      else let shift = attempt - 1;
               shift = (if shift > 62 then 62 else shift);
               delay = BaseDelay m * push_bit shift 1
           in if sint delay > sint (MaxDelay m) \<or> sint delay \<le> 0 then MaxDelay m else delay)"

text \<open>\<open>time.Duration(x)\<close> of a float truncates towards zero.\<close>

definition trunc :: "real \<Rightarrow> int" where
  "trunc x = (if 0 \<le> x then \<lfloor>x\<rfloor> else \<lceil>x\<rceil>)"

definition jitter :: "int64 \<Rightarrow> real \<Rightarrow> real \<Rightarrow> int64" where
  "jitter d ratio u =
     (if sint d \<le> 0 then 0
      else let span = real_of_int (sint d) * ratio; delta = span * (2 * u - 1)
           in d + word_of_int (trunc delta))"

definition providerRetryAfter :: "go_error option \<Rightarrow> int64" where
  "providerRetryAfter err = (case err of None \<Rightarrow> 0 | Some e \<Rightarrow>
     (case errors_as (\<lambda>x. case x of RateLimitError _ n _ \<Rightarrow> Some n | _ \<Rightarrow> None) e of
        Some n \<Rightarrow> (if n > 0 then word_of_int n * 1000000000 else 0)
      | None \<Rightarrow> 0))"

definition delayFor :: "retry_mw \<Rightarrow> nat \<Rightarrow> go_error option \<Rightarrow> real \<Rightarrow> int64" where
  "delayFor m attempt lastErr u =
     (let wait = providerRetryAfter lastErr
      in if sint wait > 0 then (if sint wait > sint (MaxDelay m) then MaxDelay m else wait)
         else let delay = backoff m attempt
              in if JitterRatio m > 0 then jitter delay (JitterRatio m) u else delay)"

definition isRetryable :: "go_error option \<Rightarrow> bool" where
  "isRetryable err = (case err of None \<Rightarrow> False | Some e \<Rightarrow>
     (if errors_is CtxCanceled e \<or> errors_is CtxDeadlineExceeded e then False
      else IsRetryableError (Some e)))"

lemma isRetryable_eq: "isRetryable err = IsRetryableError err"
  by (cases err) (auto simp: isRetryable_def IsRetryableError_def)

section \<open>The loop\<close>

partial_function (option) retry_loop ::
  "string \<Rightarrow> retry_mw \<Rightarrow> (nat \<Rightarrow> real) \<Rightarrow> (int64 \<Rightarrow> 'w \<Rightarrow> go_error option \<times> 'w) \<Rightarrow>
   ('w \<Rightarrow> ('r option \<times> go_error option) \<times> 'w) \<Rightarrow> nat \<Rightarrow> go_error option \<Rightarrow> 'w \<Rightarrow>
   (('r option \<times> go_error option) \<times> 'w) option" where
  "retry_loop label m rnd wait next_h attempt lastErr w =
     (case (if attempt > 0 then wait (delayFor m attempt lastErr (rnd attempt)) w else (None, w)) of
        (Some e, w1) \<Rightarrow> Some ((None, Some e), w1)
      | (None, w1) \<Rightarrow>
         (case next_h w1 of ((resp, err), w2) \<Rightarrow>
           (case err of
              None \<Rightarrow> Some ((resp, None), w2)
            | Some e \<Rightarrow>
                (if \<not> isRetryable (Some e) then Some ((None, Some e), w2)
                 else if Mode m = ModeNormal \<and> int attempt \<ge> MaxRetries m
                      then Some ((None, Some (WrapErr label e)), w2)
                      else retry_loop label m rnd wait next_h (Suc attempt) (Some e) w2))))"

definition retry_generate where
  "retry_generate m rnd wait next_h w = retry_loop ''retry'' m rnd wait next_h 0 None w"

definition retry_stream where
  "retry_stream m rnd wait next_h w = retry_loop ''retry stream'' m rnd wait next_h 0 None w"

subsection \<open>Delays stay within their bounds\<close>

lemma sint_shifted:
  "sint (b * 2 ^ s :: int64) = signed_take_bit 63 (sint b * 2 ^ s)"
proof -
  have "b * 2 ^ s = (word_of_int (sint b * 2 ^ s) :: int64)"
    by simp
  then have "sint (b * 2 ^ s) = sint (word_of_int (sint b * 2 ^ s) :: int64)"
    by (rule arg_cong)
  also have "\<dots> = signed_take_bit 63 (sint b * 2 ^ s)"
    by (subst sint_sbintrunc') simp
  finally show ?thesis .
qed

lemma dvd_signed_take_bit:
  assumes "(2::int) ^ k dvd z" "k \<le> 64"
  shows "(2::int) ^ k dvd signed_take_bit 63 z"
proof -
  have "(2::int) ^ k dvd 2 ^ 64" using assms(2) by (rule le_imp_power_dvd)
  with assms(1) have "(2::int) ^ k dvd take_bit 64 z"
    by (simp add: take_bit_eq_mod dvd_mod)
  with \<open>2 ^ k dvd 2 ^ 64\<close> show ?thesis
    by (simp add: signed_take_bit_eq_take_bit_minus dvd_diff)
qed

text \<open>
  Backoff bounds.  Whatever the base delay, the attempt and the 64-bit wrap-around of the
  shifted product, the local backoff is a positive delay of at most \<open>MaxDelay\<close>: it is never
  skipped.
\<close>

theorem backoff_bounds:
  assumes "0 < sint (MaxDelay m)" "0 < attempt"
  shows "0 < sint (backoff m attempt)" "sint (backoff m attempt) \<le> sint (MaxDelay m)"
  using assms by (auto simp: backoff_def Let_def)

theorem backoff_bounds_witness: "0 < sint (backoff retry_defaults 200)"
  by (rule backoff_bounds(1)) (simp_all add: retry_defaults_def)

lemma overflowed_shift:
  fixes b mx :: int
  assumes "0 < b" "2 ^ v dvd b" "0 < mx" "b * mx < 2 ^ (63 + v)" and big: "2 ^ 63 \<le> b * 2 ^ s"
  shows "signed_take_bit 63 (b * 2 ^ s) > mx \<or> signed_take_bit 63 (b * 2 ^ s) \<le> 0"
proof (rule ccontr)
  let ?r = "signed_take_bit 63 (b * 2 ^ s)"
  assume "\<not> ?thesis"
  then have r: "0 < ?r" "?r \<le> mx" by auto
  have "(2::int) ^ (v + s) dvd b * 2 ^ s" using assms(2) by (simp add: power_add)
  then have "(2::int) ^ min (v + s) 64 dvd b * 2 ^ s"
    by (rule dvd_trans [OF le_imp_power_dvd, rotated]) simp
  then have "(2::int) ^ min (v + s) 64 dvd ?r" by (rule dvd_signed_take_bit) simp
  then have le: "(2::int) ^ min (v + s) 64 \<le> ?r" using r(1) by (rule zdvd_imp_le)
  have "?r < 2 ^ 63" using signed_take_bit_int_less_exp [of 63 "b * 2 ^ s"] by simp
  with le have "(2::int) ^ min (v + s) 64 < 2 ^ 63" by linarith
  then have "min (v + s) 64 < 63" by (rule power_less_imp_less_exp [of "2::int", rotated]) simp
  then have "min (v + s) 64 = v + s" by simp
  with le r(2) have "(2::int) ^ (v + s) \<le> mx" by simp
  then have "b * 2 ^ (v + s) \<le> b * mx" using assms(1) by simp
  also have "\<dots> < 2 ^ (63 + v)" by (rule assms(4))
  finally have "2 ^ v * (b * 2 ^ s) < (2::int) ^ v * 2 ^ 63" by (simp add: power_add mult_ac)
  with big show False by simp
qed

text \<open>
  Exponential backoff.  For a positive base \<open>b\<close> (a multiple of \<open>2 ^ v\<close>) and a maximum with
  \<open>b * max < 2 ^ (63 + v)\<close>, the delay is exactly \<open>min (b * 2 ^ (attempt - 1)) max\<close> at every
  attempt: the capped shift and the test for a non-positive product hide the overflow completely.
\<close>

theorem backoff_exponential:
  assumes "0 < sint (BaseDelay m)" "2 ^ v dvd sint (BaseDelay m)"
    and "0 < sint (MaxDelay m)" "sint (MaxDelay m) \<le> 2 ^ 62"
    and "sint (BaseDelay m) * sint (MaxDelay m) < 2 ^ (63 + v)" and "0 < attempt"
  shows "sint (backoff m attempt) = min (sint (BaseDelay m) * 2 ^ (attempt - 1)) (sint (MaxDelay m))"
proof -
  let ?b = "sint (BaseDelay m)" and ?mx = "sint (MaxDelay m)" and ?s = "min (attempt - 1) 62"
  let ?r = "signed_take_bit 63 (?b * 2 ^ ?s)"
  have code: "sint (backoff m attempt) = (if ?r > ?mx \<or> ?r \<le> 0 then ?mx else ?r)"
    using assms(6) by (auto simp: backoff_def Let_def sint_shifted min_def)
  have cap: "min (?b * 2 ^ ?s) ?mx = min (?b * 2 ^ (attempt - 1)) ?mx"
  proof (cases "attempt - 1 \<le> 62")
    case False
    then have pow: "(2::int) ^ 62 \<le> 2 ^ (attempt - 1)" by (intro power_increasing) simp_all
    have "1 * (2::int) ^ 62 \<le> ?b * 2 ^ 62" using assms(1) by (intro mult_right_mono) simp_all
    with assms(4) have low: "?mx \<le> ?b * 2 ^ 62" by linarith
    also have "\<dots> \<le> ?b * 2 ^ (attempt - 1)" using pow assms(1) by (intro mult_left_mono) simp_all
    finally have "min (?b * 2 ^ (attempt - 1)) ?mx = ?mx" by (rule min_absorb2)
    moreover have "?s = 62" using False by simp
    moreover have "min (?b * 2 ^ 62) ?mx = ?mx" using low by (rule min_absorb2)
    ultimately show ?thesis by (simp only:)
  qed (simp add: min_def)
  show ?thesis
  proof (cases "?b * 2 ^ ?s < 2 ^ 63")
    case True
    moreover have "0 < ?b * 2 ^ ?s" using assms(1) by simp
    ultimately have "?r = ?b * 2 ^ ?s" by (intro signed_take_bit_int_eq_self) simp_all
    with \<open>0 < ?b * 2 ^ ?s\<close> show ?thesis unfolding code cap [symmetric] by auto
  next
    case False
    then have "?r > ?mx \<or> ?r \<le> 0"
      by (intro overflowed_shift [OF assms(1,2,3,5)]) simp
    moreover have "?mx \<le> ?b * 2 ^ ?s" using False assms(4) by (simp add: not_less)
    ultimately show ?thesis unfolding code cap [symmetric] by auto
  qed
qed

theorem backoff_exponential_witness: "sint (backoff retry_defaults 40) = 30000000000"
  using backoff_exponential [of retry_defaults 9 40] by (simp add: retry_defaults_def)

lemma trunc_abs: "\<bar>real_of_int (trunc x)\<bar> \<le> \<bar>x\<bar>"
proof (cases "0 \<le> x")
  case True
  then show ?thesis by (simp add: trunc_def)
next
  case False
  then have "\<lceil>x\<rceil> \<le> 0" "x \<le> real_of_int \<lceil>x\<rceil>" by linarith+
  with False show ?thesis by (simp add: trunc_def)
qed

lemma jitter_offset:
  assumes "0 \<le> D" "0 \<le> ratio" "0 \<le> u" "u < 1"
  shows "\<bar>real_of_int (trunc (D * ratio * (2 * u - 1)))\<bar> \<le> D * ratio"
proof -
  have "\<bar>D * ratio * (2 * u - 1)\<bar> = D * ratio * \<bar>2 * u - 1\<bar>"
    using assms by (simp add: abs_mult)
  also have "\<dots> \<le> D * ratio * 1"
    using assms by (intro mult_left_mono) auto
  finally show ?thesis using trunc_abs [of "D * ratio * (2 * u - 1)"] by simp
qed

text \<open>
  Symmetric jitter.  For a ratio below one and a delay that cannot overflow, the jittered
  delay differs from the delay by at most the fraction \<open>ratio\<close> of it, whatever number is drawn;
  so it is never negative.
\<close>

theorem jitter_bounds:
  assumes "0 < sint d" "sint d < 2 ^ 62" "0 \<le> ratio" "ratio < 1" "0 \<le> u" "u < 1"
  shows "\<bar>real_of_int (sint (jitter d ratio u)) - real_of_int (sint d)\<bar> \<le> real_of_int (sint d) * ratio \<and>
         0 \<le> sint (jitter d ratio u)"
proof -
  let ?D = "real_of_int (sint d)" and ?t = "trunc (real_of_int (sint d) * ratio * (2 * u - 1))"
  have off: "\<bar>real_of_int ?t\<bar> \<le> ?D * ratio"
    by (rule jitter_offset) (use assms in linarith)+
  have "0 \<le> ?D" using assms(1) by linarith
  then have "?D * ratio \<le> ?D * 1" using assms(4) by (intro mult_left_mono) linarith+
  with off have t: "\<bar>?t\<bar> \<le> sint d" by linarith
  have "jitter d ratio u = word_of_int (sint d + ?t)"
    using assms(1) by (simp add: jitter_def)
  moreover have "sint (word_of_int (sint d + ?t) :: int64) = sint d + ?t"
  proof (rule sint64_of_int)
    have "- sint d \<le> ?t" "?t \<le> sint d" "(2::int) ^ 63 = 2 * 2 ^ 62" using t by simp_all
    with assms(1,2) show "- (2 ^ 63) \<le> sint d + ?t" "sint d + ?t < 2 ^ 63" by linarith+
  qed
  ultimately have eq: "sint (jitter d ratio u) = sint d + ?t" by simp
  have "\<bar>real_of_int (sint (jitter d ratio u)) - ?D\<bar> \<le> ?D * ratio"
    using off by (simp add: eq)
  moreover have "0 \<le> sint (jitter d ratio u)"
    using t by (simp add: eq)
  ultimately show ?thesis by blast
qed

theorem jitter_bounds_witness: "0 \<le> sint (jitter 1000 (1 / 10) (9 / 10))"
  by (rule jitter_bounds [where d = 1000 and ratio = "1 / 10" and u = "9 / 10", THEN conjunct2]) simp_all

subsection \<open>Termination and outcome of the loop\<close>

lemma retry_loop_normal:
  assumes "Mode m = ModeNormal"
    and next_calls: "\<And>w. calls (snd (next_h w)) = Suc (calls w)"
    and wait_calls: "\<And>d w. calls (snd (wait d w)) = calls w"
  shows "\<exists>r w'. retry_loop label m rnd wait next_h attempt le w = Some (r, w') \<and>
           calls w' \<le> calls w + Suc (nat (MaxRetries m) - attempt)"
proof (induction "nat (MaxRetries m) - attempt" arbitrary: attempt le w rule: less_induct)
  case less
  define wt where "wt = (if attempt > 0 then wait (delayFor m attempt le (rnd attempt)) w else (None, w))"
  have unfold: "retry_loop label m rnd wait next_h attempt le w =
     (case wt of
        (Some e, w1) \<Rightarrow> Some ((None, Some e), w1)
      | (None, w1) \<Rightarrow>
         (case next_h w1 of ((resp, err), w2) \<Rightarrow>
           (case err of
              None \<Rightarrow> Some ((resp, None), w2)
            | Some e \<Rightarrow>
                (if \<not> isRetryable (Some e) then Some ((None, Some e), w2)
                 else if Mode m = ModeNormal \<and> int attempt \<ge> MaxRetries m
                      then Some ((None, Some (WrapErr label e)), w2)
                      else retry_loop label m rnd wait next_h (Suc attempt) (Some e) w2))))"
    unfolding wt_def by (rule retry_loop.simps)
  obtain stop w1 where wt: "wt = (stop, w1)" by force
  then have w1: "calls w1 = calls w"
    using wait_calls [of "delayFor m attempt le (rnd attempt)" w]
    by (auto simp: wt_def split: if_splits)
  obtain resp err w2 where nx: "next_h w1 = ((resp, err), w2)" by (metis surj_pair)
  with next_calls [of w1] w1 have w2: "calls w2 = Suc (calls w)" by simp
  show ?case
  proof (cases "stop = None \<and> (\<exists>e. err = Some e \<and> isRetryable (Some e)) \<and> int attempt < MaxRetries m")
    case True
    then obtain e where e: "err = Some e" "isRetryable (Some e)" by blast
    have "nat (MaxRetries m) - Suc attempt < nat (MaxRetries m) - attempt" using True by linarith
    from less [OF this, of "Some e" w2] obtain r w' where
      "retry_loop label m rnd wait next_h (Suc attempt) (Some e) w2 = Some (r, w')"
      "calls w' \<le> calls w2 + Suc (nat (MaxRetries m) - Suc attempt)" by blast
    with True e wt nx w2 show ?thesis unfolding unfold by auto
  next
    case False
    with wt nx w1 w2 assms(1) show ?thesis
      unfolding unfold by (auto split: option.splits)
  qed
qed

text \<open>
  C25. Bounded retries.  In the normal mode the loop always returns, after at most
  \<open>MaxRetries + 1\<close> calls of the model (one call when \<open>MaxRetries\<close> is not positive), whatever the
  model answers and whenever the context is cancelled.
\<close>

theorem retry_normal_terminates:
  assumes "Mode m = ModeNormal"
    and "\<And>w. calls (snd (next_h w)) = Suc (calls w)"
    and "\<And>d w. calls (snd (wait d w)) = calls w"
  shows "\<exists>r w'. retry_generate m rnd wait next_h w = Some (r, w') \<and>
           calls w' \<le> calls w + Suc (nat (MaxRetries m))"
  using retry_loop_normal [of m calls next_h wait "''retry''" rnd 0 None w, OF assms]
  by (simp add: retry_generate_def)

definition down :: "nat \<Rightarrow> (unit option \<times> go_error option) \<times> nat" where
  "down n = ((None, Some (NewRateLimitError ''m'' 1)), Suc n)"

theorem retry_normal_terminates_witness:
  "\<exists>r w'. retry_generate retry_defaults (\<lambda>_. 0) (\<lambda>d n. (None, n)) down 0 = Some (r, w') \<and>
     id w' \<le> id 0 + Suc (nat 3)"
  using retry_normal_terminates [of retry_defaults id down "\<lambda>d n. (None, n)" "\<lambda>_. 0" 0]
  by (simp add: retry_defaults_def down_def)



definition transient :: "('r option \<times> go_error option) \<Rightarrow> bool" where
  "transient r \<longleftrightarrow> (case snd r of Some e \<Rightarrow> isRetryable (Some e) | None \<Rightarrow> False)"





text \<open>
  The always mode.  If every call fails transiently and the context is never cancelled, the
  always mode does not return: its retries have no limit of their own.
\<close>

theorem retry_always_diverges:
  assumes "Mode m = ModeAlways"
    and "\<And>w. transient (fst (next_h w))"
    and "\<And>d w. fst (wait d w) = None"
  shows "retry_generate m rnd wait next_h w = None"
proof (rule ccontr)
  assume "\<not> ?thesis"
  then obtain r where r: "retry_loop ''retry'' m rnd wait next_h 0 None w = Some r"
    by (auto simp: retry_generate_def)
  have "\<not> (Mode m = ModeAlways \<and> (\<forall>w. transient (fst (next_h w))) \<and> (\<forall>d w. fst (wait d w) = None))"
  proof (rule retry_loop.raw_induct [where P = "\<lambda>label m rnd wait next_h attempt le w r.
      \<not> (Mode m = ModeAlways \<and> (\<forall>w. transient (fst (next_h w))) \<and> (\<forall>d w. fst (wait d w) = None))", OF _ r],
      rule notI)
    fix loop label m rnd wait next_h attempt le w r
    let ?hyp = "\<lambda>m wait next_h. Mode m = ModeAlways \<and> (\<forall>w. transient (fst (next_h w))) \<and>
      (\<forall>d w. fst (wait d w) = None)"
    assume IH: "\<And>label m rnd wait next_h attempt le w r.
        loop label m rnd wait next_h attempt le w = Some r \<Longrightarrow> \<not> ?hyp m wait next_h"
      and eq: "(case (if attempt > 0 then wait (delayFor m attempt le (rnd attempt)) w else (None, w)) of
        (Some e, w1) \<Rightarrow> Some ((None, Some e), w1)
      | (None, w1) \<Rightarrow>
         (case next_h w1 of ((resp, err), w2) \<Rightarrow>
           (case err of
              None \<Rightarrow> Some ((resp, None), w2)
            | Some e \<Rightarrow>
                (if \<not> isRetryable (Some e) then Some ((None, Some e), w2)
                 else if Mode m = ModeNormal \<and> int attempt \<ge> MaxRetries m
                      then Some ((None, Some (WrapErr label e)), w2)
                      else loop label m rnd wait next_h (Suc attempt) (Some e) w2)))) = Some r"
      and hyp: "?hyp m wait next_h"
    obtain w1 where w1: "(if attempt > 0 then wait (delayFor m attempt le (rnd attempt)) w else (None, w)) = (None, w1)"
      using hyp by (metis prod.collapse fst_conv)
    obtain resp e w2 where nx: "next_h w1 = ((resp, Some e), w2)" "isRetryable (Some e)"
      using hyp unfolding transient_def by (metis (no_types, lifting) option.case_eq_if option.collapse prod.collapse)
    from eq w1 nx hyp have "loop label m rnd wait next_h (Suc attempt) (Some e) w2 = Some r" by simp
    with IH hyp show False by blast
  qed
  with assms show False by blast
qed

theorem retry_always_diverges_witness:
  "retry_generate (retry_defaults\<lparr>Mode := ModeAlways\<rparr>) (\<lambda>_. 0) (\<lambda>d n. (None, n)) down 0 = None"
  by (rule retry_always_diverges)
    (simp_all add: down_def transient_def isRetryable_eq IsRetryableError_def classify_defs NewRateLimitError_def)

end
