(* ===== verification/RunBounds.thy ===== *)
theory RunBounds
  imports StepLoop Retry
begin

text \<open>
  Bounds of a run: how often it can call the model, that a batch a hook rejects runs no tool, and the
  backoff of the runtime's own retries in 64 bits.

  A counter \<open>cnt\<close> on the world is \<open>metered\<close> when a model call raises it by at most one and nothing
  else the runtime calls changes it.
\<close>

section \<open>Metered worlds\<close>

definition quiet_hooks :: "('w \<Rightarrow> nat) \<Rightarrow> ('i, 'w) hook option list \<Rightarrow> bool" where
  "quiet_hooks cnt fns \<longleftrightarrow> (\<forall>fn c i v. Some fn \<in> set fns \<longrightarrow> cnt (snd (fn c i v)) = cnt v)"

definition quiet_ops :: "('w \<Rightarrow> nat) \<Rightarrow> 'w ops \<Rightarrow> bool" where
  "quiet_ops cnt ops \<longleftrightarrow> (\<forall>w. cnt (snd (op_fresh ops w)) = cnt w) \<and>
     (\<forall>c d w. cnt (snd (op_wait ops c d w)) = cnt w) \<and> (\<forall>e w. cnt (op_send ops e w) = cnt w)"

definition quiet_tools :: "('w \<Rightarrow> nat) \<Rightarrow> 'w runtime \<Rightarrow> bool" where
  "quiet_tools cnt rt \<longleftrightarrow> (\<forall>reg name t args v v'. rt_tools rt = Some reg \<longrightarrow> rg_get reg name v = Some t \<longrightarrow>
     cnt (snd (runToolResult t args v')) = cnt v')"

definition metered_model :: "('w \<Rightarrow> nat) \<Rightarrow> 'w model \<Rightarrow> bool" where
  "metered_model cnt m \<longleftrightarrow> (\<forall>cfg x v. cnt (snd (mo_generate m cfg x v)) \<le> Suc (cnt v) \<and>
     cnt (snd (mo_stream m cfg x v)) \<le> Suc (cnt v))"

definition metered :: "('w \<Rightarrow> nat) \<Rightarrow> 'w ops \<Rightarrow> 'w runtime \<Rightarrow> bool" where
  "metered cnt ops rt \<longleftrightarrow> quiet_ops cnt ops \<and> quiet_tools cnt rt \<and>
     quiet_hooks cnt (stepStartHooks rt) \<and> quiet_hooks cnt (stepEndHooks rt) \<and>
     quiet_hooks cnt (modelCallHooks rt) \<and> quiet_hooks cnt (modelResultHooks rt) \<and>
     quiet_hooks cnt (toolCallHooks rt) \<and> quiet_hooks cnt (toolResultHooks rt) \<and>
     (\<forall>m. rt_model rt = Some m \<longrightarrow> metered_model cnt m)"

subsection \<open>Hooks\<close>

lemma quiet_hooks_Cons:
  "quiet_hooks cnt (None # fns) = quiet_hooks cnt fns"
  "quiet_hooks cnt (Some fn # fns) \<longleftrightarrow> (\<forall>c i v. cnt (snd (fn c i v)) = cnt v) \<and> quiet_hooks cnt fns"
  by (auto simp: quiet_hooks_def)

lemma fireHookSafe_world: "snd (fireHookSafe name zero fn c i v) = snd (fn c i v)"
  by (auto simp: fireHookSafe_def split: prod.splits call.splits)

lemma fire_hooks_quiet:
  "quiet_hooks cnt fns \<Longrightarrow> cnt (snd (fire_hooks name zero fns ctx info w)) = cnt w"
proof (induction name zero fns ctx info w rule: fire_hooks.induct)
  case (3 name zero fn fns ctx info w)
  have "cnt (snd (fireHookSafe name zero fn ctx info w)) = cnt w"
    using 3(2) by (simp add: fireHookSafe_world quiet_hooks_Cons)
  then show ?case
    using 3 by (auto simp: quiet_hooks_Cons split: prod.splits option.splits)
qed (simp_all add: quiet_hooks_Cons)

lemma step_hook_loop_quiet:
  "quiet_hooks cnt fns \<Longrightarrow> cnt (snd (step_hook_loop name fns ctx info w)) = cnt w"
proof (induction name fns ctx info w rule: step_hook_loop.induct)
  case (3 name fn fns ctx info w)
  have "cnt (snd (fireHookSafe name None fn ctx info w)) = cnt w"
    using 3(2) by (simp add: fireHookSafe_world quiet_hooks_Cons)
  then show ?case
    using 3 by (auto simp: quiet_hooks_Cons split: prod.splits option.splits)
qed (simp_all add: quiet_hooks_Cons)

lemma model_call_loop_quiet:
  "quiet_hooks cnt fns \<Longrightarrow> cnt (snd (model_call_loop fns ctx info msgs w)) = cnt w"
proof (induction fns ctx info msgs w rule: model_call_loop.induct)
  case (3 fn fns ctx info msgs w)
  have "cnt (snd (fireHookSafe ''model_call'' None fn ctx info w)) = cnt w"
    using 3(2) by (simp add: fireHookSafe_world quiet_hooks_Cons)
  then show ?case
    using 3 by (auto simp: quiet_hooks_Cons split: prod.splits option.splits)
qed (simp_all add: quiet_hooks_Cons)

lemma FireStep_quiet:
  "quiet_hooks cnt (stepStartHooks rt) \<Longrightarrow> cnt (snd (FireStepStart rt ctx info w)) = cnt w"
  "quiet_hooks cnt (stepEndHooks rt) \<Longrightarrow> cnt (snd (FireStepEnd rt ctx info w)) = cnt w"
  using step_hook_loop_quiet [of cnt "stepStartHooks rt"] step_hook_loop_quiet [of cnt "stepEndHooks rt"]
  by (auto simp: FireStepStart_def FireStepEnd_def Let_def split: option.splits prod.splits bool.splits)
     (metis snd_conv)+

lemma fireModelCall_quiet:
  "quiet_hooks cnt (modelCallHooks rt) \<Longrightarrow> cnt (snd (fireModelCall rt ctx msgs w)) = cnt w"
  by (simp add: fireModelCall_def model_call_loop_quiet)

lemma fire_result_quiet:
  "quiet_hooks cnt (modelResultHooks rt) \<Longrightarrow> cnt (snd (fireModelResult rt ctx info1 w)) = cnt w"
  "quiet_hooks cnt (toolCallHooks rt) \<Longrightarrow> cnt (snd (fireToolCall rt ctx info2 w)) = cnt w"
  "quiet_hooks cnt (toolResultHooks rt) \<Longrightarrow> cnt (snd (fireToolResult rt ctx info3 w)) = cnt w"
  by (simp_all add: fireModelResult_def fireToolCall_def fireToolResult_def fire_hooks_quiet)

subsection \<open>Tool calls\<close>

lemma normalize_quiet: "quiet_ops cnt ops \<Longrightarrow> cnt (snd (NormalizeToolCall (op_fresh ops) tc w)) = cnt w"
  by (auto simp: NormalizeToolCall_def Let_def quiet_ops_def split: prod.splits) (metis snd_conv)

lemma normalize_all_quiet: "quiet_ops cnt ops \<Longrightarrow> cnt (snd (normalize_all (op_fresh ops) tcs w)) = cnt w"
proof (induction tcs arbitrary: w)
  case (Cons tc tcs)
  show ?case
    using Cons normalize_quiet [OF Cons.prems, of tc w] by (auto split: prod.splits) (metis snd_conv)
qed simp

lemma exec_call_quiet:
  assumes "quiet_ops cnt ops" and "quiet_tools cnt rt"
  shows "cnt (snd (exec_call (ExecTools_env ops rt ctx) timeout call w)) = cnt w"
proof (cases call)
  case (Some tc0)
  obtain tc w1 where n: "NormalizeToolCall (op_fresh ops) tc0 w = (tc, w1)"
    by (cases "NormalizeToolCall (op_fresh ops) tc0 w")
  have w1: "cnt w1 = cnt w" using normalize_quiet [OF assms(1), of tc0 w] n by simp
  have run: "cnt w2 = cnt w1"
    if "rt_tools rt = Some reg" "rg_get reg (tc_name tc) w1 = Some t" "runToolResult t (tc_args tc) w1 = (r, w2)"
    for reg t r w2
  proof -
    have "cnt (snd (runToolResult t (tc_args tc) w1)) = cnt w1"
      using assms(2) that(1,2) unfolding quiet_tools_def by blast
    then show ?thesis using that(3) by simp
  qed
  show ?thesis
    using w1 run
    by (auto simp: Some exec_call_def ExecTools_env_def n Let_def split: option.splits prod.splits call.splits)
qed (simp add: exec_call_def)

lemma exec_batch_quiet:
  assumes "quiet_ops cnt ops" and "quiet_tools cnt rt"
  shows "cnt (snd (exec_batch ops rt ctx calls w)) = cnt w"
  unfolding exec_batch_def ExecToolsConcurrentResults_def Let_def
  by (rule run_goroutines_world [where Q = "\<lambda>v. cnt v = cnt w"]) (simp_all add: exec_call_quiet assms)

lemma retry_rounds_quiet:
  assumes "quiet_ops cnt ops" and "quiet_tools cnt rt"
  shows "cnt (snd (retry_rounds ops rt ctx attempt left slots w)) = cnt w"
proof (induction left arbitrary: attempt slots w)
  case (Suc left)
  let ?d = "retryDelay (rt_policy rt) attempt"
  obtain e w1 where wt: "op_wait ops ctx ?d w = (e, w1)" by (cases "op_wait ops ctx ?d w")
  have w1: "cnt w1 = cnt w"
    using assms(1) wt unfolding quiet_ops_def by (metis snd_conv)
  let ?calls = "map (\<lambda>i. snd (slots ! i)) (failed_slots slots)"
  obtain again w2 where ex: "exec_batch ops rt ctx ?calls w1 = (again, w2)"
    by (cases "exec_batch ops rt ctx ?calls w1")
  have "cnt w2 = cnt w1" using exec_batch_quiet [OF assms, of ctx ?calls w1] ex by simp
  then show ?case using w1 wt ex Suc by (auto simp: Let_def split: option.splits)
qed simp

lemma gate_loop_quiet:
  assumes "quiet_ops cnt ops" and "quiet_hooks cnt (toolCallHooks rt)"
  shows "cnt (snd (gate_loop ops rt ctx tcs w)) = cnt w"
proof (induction tcs arbitrary: w)
  case (Cons tc0 tcs)
  obtain tc w1 where n: "NormalizeToolCall (op_fresh ops) tc0 w = (tc, w1)"
    by (cases "NormalizeToolCall (op_fresh ops) tc0 w")
  let ?info = "Some (blank_tool_info (tc_name tc) (tc_args tc))"
  obtain f w2 where f: "fireToolCall rt ctx ?info w1 = (f, w2)" by (cases "fireToolCall rt ctx ?info w1")
  have "cnt w2 = cnt w"
    using normalize_quiet [OF assms(1), of tc0 w] fire_result_quiet(2) [OF assms(2), of ctx ?info w1] n f by simp
  then show ?case
    using Cons.IH [of w2] by (auto simp: n f Let_def split: prod.splits)
qed simp

lemma result_loop_quiet:
  assumes "quiet_hooks cnt (toolResultHooks rt)"
  shows "cnt (snd (result_loop ops rt ctx slots w)) = cnt w"
proof (induction slots arbitrary: w)
  case (Cons slot rest)
  obtain m tc where slot: "slot = (m, tc)" by (cases slot)
  show ?case
  proof (cases m)
    case None
    then show ?thesis using Cons.IH [of w] by (auto simp: slot split: prod.splits)
  next
    case (Some msg)
    let ?info = "Some ((blank_tool_info (msg_toolName msg) (tc_args tc))
        \<lparr>ti_result := msg_content msg, ti_parts := msg_parts msg\<rparr>)"
    obtain f w1 where f: "fireToolResult rt ctx ?info w = (f, w1)" by (cases "fireToolResult rt ctx ?info w")
    have "cnt w1 = cnt w" using fire_result_quiet(3) [OF assms, of ctx ?info w] f by simp
    then show ?thesis using Cons.IH [of w1] by (auto simp: slot Some f Let_def split: prod.splits)
  qed
qed simp

lemma ExecTools_quiet:
  assumes "metered cnt ops rt"
  shows "cnt (snd (ExecTools ops rt ctx calls w)) = cnt w"
proof -
  note m = assms [unfolded metered_def]
  obtain g w1 where g: "gate_loop ops rt ctx calls w = (g, w1)" by (cases "gate_loop ops rt ctx calls w")
  obtain slots w2 where s: "execToolsWithRetry ops rt ctx (map snd (fst g)) w1 = (slots, w2)"
    by (cases "execToolsWithRetry ops rt ctx (map snd (fst g)) w1")
  have "cnt w1 = cnt w" using gate_loop_quiet [of cnt ops rt ctx calls w] m g by simp
  moreover have "cnt w2 = cnt w1"
  proof -
    have "cnt (snd (execToolsWithRetry ops rt ctx (map snd (fst g)) w1)) = cnt w1"
      using exec_batch_quiet [of cnt ops rt ctx "map Some (map snd (fst g))" w1] m
      by (auto simp: execToolsWithRetry_def retry_rounds_quiet split: prod.splits)
    then show ?thesis using s by simp
  qed
  moreover have "cnt (snd (result_loop ops rt ctx xs w2)) = cnt w2" for xs
    using m by (intro result_loop_quiet) simp
  moreover have "cnt (snd (normalize_all (op_fresh ops) calls w)) = cnt w"
    using m by (intro normalize_all_quiet) simp
  ultimately show ?thesis
    using g s by (cases g) (simp add: ExecTools_def case_prod_beta Let_def)
qed

lemma fold_send_quiet: "quiet_ops cnt ops \<Longrightarrow> cnt (fold (\<lambda>x. op_send ops (f x)) xs w) = cnt w"
  by (induction xs arbitrary: w) (auto simp: quiet_ops_def)

lemma execToolPhase_quiet:
  assumes "metered cnt ops rt"
  shows "cnt (snd (execToolPhase ops rt ctx resp send w)) = cnt w"
proof -
  have q: "quiet_ops cnt ops" using assms by (simp add: metered_def)
  let ?w = "if send then fold (\<lambda>tc. op_send ops (call_event tc)) (msg_toolCalls resp) w else w"
  obtain r w1 where e: "ExecTools ops rt ctx (msg_toolCalls resp) ?w = (r, w1)"
    by (cases "ExecTools ops rt ctx (msg_toolCalls resp) ?w")
  have "cnt w1 = cnt ?w" using ExecTools_quiet [OF assms, of ctx "msg_toolCalls resp" ?w] e by simp
  then show ?thesis
    using e by (cases r) (auto simp: execToolPhase_def Let_def fold_send_quiet [OF q])
qed

subsection \<open>Model calls\<close>

lemma model_attempt_metered:
  assumes "metered_model cnt m" and "quiet_hooks cnt (modelResultHooks rt)"
  shows "cnt (snd (model_attempt rt m ctx msgs cfg w)) \<le> Suc (cnt w)"
proof -
  obtain resp usage err w1 where g: "mo_generate m cfg (ctx, msgs) w = (((resp, usage), err), w1)"
    by (metis prod_cases3 surj_pair)
  have "cnt (snd (mo_generate m cfg (ctx, msgs) w)) \<le> Suc (cnt w)"
    using assms(1) unfolding metered_model_def by blast
  then have "cnt w1 \<le> Suc (cnt w)" using g by simp
  moreover have "cnt w2 = cnt w1" if "fireModelResult rt ctx i w1 = (r, w2)" for i r w2
    using fire_result_quiet(1) [OF assms(2), of ctx i w1] that by simp
  ultimately show ?thesis
    by (auto simp: model_attempt_def g split: option.splits prod.splits)
qed

lemma call_loop_metered:
  assumes "metered_model cnt m" and "quiet_hooks cnt (modelResultHooks rt)" and "quiet_ops cnt ops"
  shows "cnt (snd (call_loop ops rt m policy ctx msgs cfg attempt lastErr w))
           \<le> cnt w + nat (rp_MaxRetries policy + 1 - int attempt)"
  using assms
proof (induction ops rt m policy ctx msgs cfg attempt lastErr w rule: call_loop.induct)
  case (1 ops rt m policy ctx msgs cfg attempt lastErr w)
  let ?stop = "int attempt > rp_MaxRetries policy \<or>
    (attempt > 0 \<and> (\<not> rp_RetryOnModel policy \<or> \<not> IsRetryableError lastErr))"
  show ?case
  proof (cases ?stop)
    case True
    then show ?thesis by (subst call_loop.simps) auto
  next
    case False
    let ?wt = "if attempt > 0 then op_wait ops ctx (retryDelay policy attempt) w else (None, w)"
    obtain e w1 where wt: "?wt = (e, w1)" by (cases ?wt)
    have w1: "cnt w1 = cnt w"
      using "1.prems"(3) wt unfolding quiet_ops_def by (metis prod.inject snd_conv)
    obtain r w2 where at: "model_attempt rt m ctx msgs cfg w1 = (r, w2)"
      by (cases "model_attempt rt m ctx msgs cfg w1")
    have w2: "cnt w2 \<le> Suc (cnt w)"
      using model_attempt_metered [OF "1.prems"(1,2), of ctx msgs cfg w1] at w1 by simp
    have budget: "nat (rp_MaxRetries policy + 1 - int attempt) = Suc (nat (rp_MaxRetries policy + 1 - int (Suc attempt)))"
      using False by (auto simp: nat_diff_split_asm)
    have eq: "call_loop ops rt m policy ctx msgs cfg attempt lastErr w =
      (case e of Some e \<Rightarrow> ((None, None, op_ctxErr ops ctx w1), w1)
       | None \<Rightarrow> (case r of Inl ret \<Rightarrow> (ret, w2)
                 | Inr e \<Rightarrow> call_loop ops rt m policy ctx msgs cfg (Suc attempt) (Some e) w2))"
      using False wt at by (subst call_loop.simps) (auto split: option.splits sum.splits)
    show ?thesis
    proof (cases "\<exists>x. e = None \<and> r = Inr x")
      case True
      then obtain x where x: "e = None" "r = Inr x" by blast
      have "cnt (snd (call_loop ops rt m policy ctx msgs cfg (Suc attempt) (Some x) w2))
          \<le> cnt w2 + nat (rp_MaxRetries policy + 1 - int (Suc attempt))"
        using "1.IH" [OF _ _ wt [symmetric] x(1) at [symmetric] x(2)] False "1.prems" by simp
      then show ?thesis using eq x w2 budget by simp
    next
      case False
      then show ?thesis using eq w1 w2 budget by (cases e; cases r) auto
    qed
  qed
qed

text \<open>The model calls one step may cost.\<close>

definition step_cost :: "'w runtime \<Rightarrow> nat" where
  "step_cost rt = nat (rp_MaxRetries (rt_policy rt)) + 1"

lemma CallModel_metered:
  assumes "metered cnt ops rt"
  shows "cnt (snd (CallModel ops rt ctx msgs opts w)) \<le> cnt w + step_cost rt"
proof (cases "rt_model rt")
  case (Some m)
  note mt = assms [unfolded metered_def]
  obtain c msgs1 err w1 where f: "fireModelCall rt ctx msgs w = ((c, msgs1, err), w1)"
    by (metis prod_cases3 surj_pair)
  have w1: "cnt w1 = cnt w" using fireModelCall_quiet [of cnt rt ctx msgs w] mt f by simp
  let ?policy = "if rp_MaxRetries (rt_policy rt) < 0 then (rt_policy rt)\<lparr>rp_MaxRetries := 0\<rparr> else rt_policy rt"
  have "cnt (snd (call_loop ops rt m ?policy c1 msgs1 cfg 0 None w1)) \<le> cnt w1 + step_cost rt" for c1 cfg
    using call_loop_metered [of cnt m rt ops ?policy c1 msgs1 cfg 0 None w1] mt Some
    by (auto simp: step_cost_def split: if_splits)
  then show ?thesis
    using w1 by (auto simp: CallModel_def Some f Let_def split: option.splits)
qed (simp add: CallModel_def)

lemma CallModelStream_metered:
  assumes "metered cnt ops rt"
  shows "cnt (snd (CallModelStream rt ctx msgs opts w)) \<le> Suc (cnt w)"
proof (cases "rt_model rt")
  case (Some m)
  note mt = assms [unfolded metered_def]
  obtain c msgs1 err w1 where f: "fireModelCall rt ctx msgs w = ((c, msgs1, err), w1)"
    by (metis prod_cases3 surj_pair)
  have w1: "cnt w1 = cnt w" using fireModelCall_quiet [of cnt rt ctx msgs w] mt f by simp
  have gen: "cnt w2 \<le> Suc (cnt w1)" if "mo_stream m cfg x w1 = (r, w2)" for cfg x r w2
  proof -
    have "cnt (snd (mo_stream m cfg x w1)) \<le> Suc (cnt w1)"
      using mt Some unfolding metered_model_def by blast
    then show ?thesis using that by simp
  qed
  show ?thesis
    using w1 gen by (auto simp: CallModelStream_def Some f split: option.splits prod.splits)
qed (simp add: CallModelStream_def)

lemma stream_Recv_quiet:
  assumes "metered cnt ops rt"
  shows "cnt (snd (stream_Recv rt r w)) = cnt w"
proof -
  have "cnt (snd (fireModelResult rt c i v)) = cnt v" for c i v
    using assms fire_result_quiet(1) [of cnt rt] by (simp add: metered_def)
  then have "cnt v' = cnt v" if "fireModelResult rt c i v = (x, v')" for c i v x v'
    using that by (metis snd_conv)
  then show ?thesis
    by (auto simp: stream_Recv_def Let_def split: prod.splits option.splits)
qed

lemma collect_chunk_quiet:
  "quiet_ops cnt ops \<Longrightarrow> cnt (snd (collect_chunk ops m co w)) = cnt w"
  by (simp add: collect_chunk_def quiet_ops_def)

lemma collect_loop_quiet:
  assumes "metered cnt ops rt"
  shows "cnt (snd (snd (collect_loop ops rt r co w))) = cnt w"
  using assms
proof (induction ops rt r co w rule: collect_loop.induct)
  case (1 ops rt r co w)
  obtain chunk err r1 w1 where rec: "stream_Recv rt r w = (((chunk, err), r1), w1)"
    by (metis surj_pair)
  have w1: "cnt w1 = cnt w" using stream_Recv_quiet [OF "1.prems", of r w] rec by simp
  show ?case
  proof (cases "err = None")
    case False
    then show ?thesis using w1 by (subst collect_loop.simps) (cases chunk; auto simp: rec)
  next
    case err: True
    show ?thesis
    proof (cases chunk)
      case None
      then show ?thesis
        using w1 "1.IH"(1) [OF rec [symmetric] refl refl None err "1.prems"] err
        by (subst collect_loop.simps) (simp add: rec)
    next
      case (Some m)
      obtain co1 w2 where ch: "collect_chunk ops m co w1 = (co1, w2)" by (cases "collect_chunk ops m co w1")
      have "cnt w2 = cnt w1"
        using collect_chunk_quiet [of cnt ops m co w1] "1.prems" ch by (simp add: metered_def)
      then show ?thesis
        using w1 "1.IH"(2) [OF rec [symmetric] refl refl Some err ch [symmetric] "1.prems"] err Some ch
        by (subst collect_loop.simps) (simp add: rec)
    qed
  qed
qed

lemma callModel_metered:
  assumes "metered cnt ops rt"
  shows "cnt (snd (callModel ops rt ctx msgs opts stream send w)) \<le> cnt w + step_cost rt"
proof (cases "\<not> stream \<or> \<not> send")
  case True
  then show ?thesis using CallModel_metered [OF assms] by (auto simp: callModel_def)
next
  case False
  obtain r w1 where s: "CallModelStream rt ctx msgs opts w = (r, w1)"
    by (cases "CallModelStream rt ctx msgs opts w")
  have w1: "cnt w1 \<le> Suc (cnt w)" using CallModelStream_metered [OF assms, of ctx msgs opts w] s by simp
  have "cnt (snd (snd (collectStream ops rt rd w1))) = cnt w1" for rd
    using collect_loop_quiet [OF assms]
    by (simp add: collectStream_def case_prod_beta split: sum.split)
  then show ?thesis
    using False w1 s by (auto simp: callModel_def step_cost_def case_prod_beta split: sum.split)
qed

section \<open>The budget of a run\<close>

lemma step_body_metered:
  assumes "metered cnt ops rt"
  shows "cnt (snd (snd (step_body ops rt input send c i l w))) \<le> cnt w + step_cost rt"
proof (cases i)
  case (Some j)
  define ms where "ms = (case si_messages j of None \<Rightarrow> [] | Some ms \<Rightarrow> ms)"
  obtain resp usage err w1
    where call: "callModel ops rt c ms (rin_opts input) (rin_streamMode input) send w = ((resp, usage, err), w1)"
    by (metis prod_cases3 surj_pair)
  have w1: "cnt w1 \<le> cnt w + step_cost rt"
    using callModel_metered [OF assms, of c ms "rin_opts input" "rin_streamMode input" send w] call by simp
  show ?thesis
    using w1 execToolPhase_quiet [OF assms]
    by (auto simp: step_body_def Some ms_def [symmetric] call Let_def case_prod_beta split: option.split)
qed (simp add: step_body_def)

lemma runStep_metered:
  assumes "metered cnt ops rt"
  shows "cnt (snd (snd (runStep lc rt ctx info (step_body ops rt input send) l w))) \<le> cnt w + step_cost rt"
proof -
  note mt = assms [unfolded metered_def]
  obtain s w1 where s: "FireStepStart rt ctx info w = (s, w1)" by (cases "FireStepStart rt ctx info w")
  have w1: "cnt w1 = cnt w" using FireStep_quiet(1) [of cnt rt ctx info w] mt s by simp
  have body: "cnt v' \<le> cnt w1 + step_cost rt"
    if "step_body ops rt input send c i l w1 = (r, l', v')" for c i r l' v'
    using step_body_metered [OF assms, of input send c i l w1] that by simp
  have fin: "cnt v' = cnt v" if "FireStepEnd rt c i v = (e, v')" for c i v e v'
    using FireStep_quiet(2) [of cnt rt c i v] mt that by simp
  show ?thesis
    using w1 body fin
    by (auto simp: runStep_def RunStep_def fallback_step_def s split: call.splits prod.splits option.splits)
qed

lemma run_loop_metered:
  assumes "metered cnt ops rt"
  shows "cnt (snd (run_loop ops lc rt input send maxSteps left ctx msgs tot w)) \<le> cnt w + left * step_cost rt"
proof (induction left arbitrary: ctx msgs tot w)
  case (Suc left)
  show ?case
  proof (cases "op_ctxErr ops ctx w = None")
    case True
    let ?info = "Some \<lparr>si_invocationID = [], si_agentName = rin_agentName input, si_messages = Some msgs,
                       si_stepIndex = maxSteps - int (Suc left), si_maxSteps = maxSteps,
                       si_hasToolCalls = False, si_continue = False\<rparr>"
    obtain r l w1 where step: "runStep lc rt ctx ?info (step_body ops rt input send) (tot, None) w = (r, l, w1)"
      by (metis prod_cases3)
    have w1: "cnt w1 \<le> cnt w + step_cost rt"
      using runStep_metered [OF assms, of lc ctx ?info input send "(tot, None)" w] step by simp
    show ?thesis
    proof (cases r)
      case (Returns q)
      obtain c cont i err where q: "q = (c, cont, i, err)" by (metis prod_cases4)
      let ?c = "the c"
      let ?ms = "case i of None \<Rightarrow> msgs | Some j \<Rightarrow> (case si_messages j of None \<Rightarrow> msgs | Some ms \<Rightarrow> ms)"
      have "cnt (snd (run_loop ops lc rt input send maxSteps left ?c ?ms (fst l) w1))
          \<le> cnt w + step_cost rt + left * step_cost rt"
        using Suc [of ?c ?ms "fst l" w1] w1 by simp
      then show ?thesis
        using True step w1 by (cases l) (auto simp: Returns q split: option.splits)
    qed (use True step w1 in \<open>cases l; simp\<close>)
  qed simp
qed simp

text \<open>
  C11. The model-call budget of a run.  A run calls the model at most \<open>MaxRetries + 1\<close> times per
  step (a negative \<open>MaxRetries\<close> counts as 0) and makes at most as many steps as its budget: any
  counter that only model calls raise grows by at most the product, in both modes, with any hooks
  and tools, and whatever the result.
\<close>

theorem run_model_call_budget:
  assumes "metered cnt ops rt"
  shows "cnt (snd (Run ops lc rt loopSteps ctx (Some input) w))
           \<le> cnt w + nat (if rin_maxSteps input \<le> 0 then loopSteps else rin_maxSteps input)
                      * (nat (rp_MaxRetries (rt_policy rt)) + 1)"
  using run_loop_metered [OF assms, unfolded step_cost_def]
  by (simp add: Run_def Let_def)

theorem run_model_call_budget_witness:
  "fst (snd (Run demo_ops True (demo_rt []) 25 demo_ctx (Some demo_input) (0, 0))) \<le> 3"
proof -
  have "metered fst demo_ops (demo_rt [])"
    by (auto simp: metered_def quiet_ops_def quiet_tools_def quiet_hooks_def metered_model_def
        demo_rt_def demo_ops_def demo_model_def demo_registry_def demo_tool_def runToolResult_def NewRuntime_def
        split: if_splits)
  from run_model_call_budget [OF this, of True 25 demo_ctx demo_input "(0, 0)"]
  show ?thesis by (simp add: demo_rt_def demo_input_def NewRuntime_def)
qed

section \<open>A rejected batch runs no tool\<close>

lemma gate_loop_get_irrelevant:
  assumes "rt_tools rt = Some reg"
  shows "gate_loop ops (rt\<lparr>rt_tools := Some (reg\<lparr>rg_get := other\<rparr>)\<rparr>) ctx calls w = gate_loop ops rt ctx calls w"
proof (induction calls arbitrary: w)
  case (Cons tc tcs)
  have "enrichToolInfo (rt\<lparr>rt_tools := Some (reg\<lparr>rg_get := other\<rparr>)\<rparr>) ctx info v = enrichToolInfo rt ctx info v"
    for info v
    by (simp add: enrichToolInfo_def assms cong: if_cong)
  then have "fireToolCall (rt\<lparr>rt_tools := Some (reg\<lparr>rg_get := other\<rparr>)\<rparr>) ctx info v = fireToolCall rt ctx info v"
    for info v
    by (simp add: fireToolCall_def)
  then show ?case by (simp add: Cons.IH)
qed simp

lemma blocked_call_skips:
  assumes "rt_tools rt = Some reg" and "gate_loop ops rt ctx calls w = ((gated, True), w1)"
  shows "ExecTools ops (rt\<lparr>rt_tools := Some (reg\<lparr>rg_get := other\<rparr>)\<rparr>) ctx calls w
           = ((map (\<lambda>(m, tc). case m of
                 None \<Rightarrow> Some (NewToolMessage skip_payload (tc_id tc) (tc_name tc))
               | Some x \<Rightarrow> Some x) gated, map snd gated), w1)
         \<and> (\<exists>g \<in> set gated. fst g \<noteq> None)"
proof -
  have "\<exists>g \<in> set gated. fst g \<noteq> None"
    using gate_loop_ok [of calls ops rt ctx w] assms(2) by simp
  moreover from this have "calls \<noteq> []" using assms(2) by auto
  ultimately show ?thesis
    using assms by (simp add: ExecTools_def gate_loop_get_irrelevant)
qed

text \<open>
  A batch with a rejected call runs no tool.  When a tool-call hook rejects one call of a batch
  (or panics on it), no tool of the batch is looked up or run: the answers and the effects are the
  same with any other tools behind the registry.  The rejected calls are answered with their reasons
  and every other one as skipped.
\<close>

theorem blocked_batch_runs_nothing:
  assumes "rt_tools rt = Some reg" and "gate_loop ops rt ctx calls w = ((gated, True), w1)"
  shows "ExecTools ops (rt\<lparr>rt_tools := Some (reg\<lparr>rg_get := other\<rparr>)\<rparr>) ctx calls w
           = ((map (\<lambda>(m, tc). case m of
                 None \<Rightarrow> Some (NewToolMessage skip_payload (tc_id tc) (tc_name tc))
               | Some x \<Rightarrow> Some x) gated, map snd gated), w1)
         \<and> (\<exists>g \<in> set gated. fst g \<noteq> None)"
  using blocked_call_skips [OF assms] .

definition reject_hook :: "(tool_call_info option, 'w) hook" where
  "reject_hook c i v = (Returns (c, None, Some (Errorf ''no'')), v)"

theorem blocked_batch_runs_nothing_witness:
  "\<exists>ms tcs. ExecTools demo_ops ((demo_rt [])\<lparr>toolCallHooks := [Some reject_hook],
        rt_tools := Some (demo_registry\<lparr>rg_get := (\<lambda>_ _. None)\<rparr>)\<rparr>) demo_ctx
      [\<lparr>tc_id = ''1'', tc_type = [], tc_name = ''t'', tc_args = [], tc_index = None\<rparr>] (0, 0) = ((ms, tcs), (0, 0))"
proof -
  let ?rt = "(demo_rt [])\<lparr>toolCallHooks := [Some reject_hook]\<rparr>"
  let ?tc = "\<lparr>tc_id = ''1'', tc_type = [], tc_name = ''t'', tc_args = [], tc_index = None\<rparr>"
  have reg: "rt_tools ?rt = Some demo_registry" by (simp add: demo_rt_def NewRuntime_def)
  obtain gated where gate: "gate_loop demo_ops ?rt demo_ctx [?tc] (0, 0) = ((gated, True), (0, 0))"
    by (simp add: demo_eval reject_hook_def)
  show ?thesis
    using blocked_batch_runs_nothing [OF reg gate, of "\<lambda>_ _. None"] by simp
qed

section \<open>The runtime's backoff\<close>

lemma retryDelay_shift:
  "retryDelay p a =
     (let delay = (if rp_BaseDelay p = 0 then 1000000000 else rp_BaseDelay p) * 2 ^ (a - 1)
      in if sint (rp_MaxDelay p) > 0 \<and> sint delay > sint (rp_MaxDelay p) then rp_MaxDelay p else delay)"
  by (simp add: retryDelay_def push_bit_of_1)

text \<open>
  The backoff of the runtime wraps.  While the doubled delay fits 64 bits it is the base delay
  doubled per attempt, capped by \<open>MaxDelay\<close>.  From attempt 65 on it is 0 for every policy, so the
  cap is lost and the loop retries at once; the retry middleware guards against this, the runtime
  does not.
\<close>

theorem runtime_backoff_wraps:
  assumes "0 < sint (rp_BaseDelay p)" and "0 < sint (rp_MaxDelay p)"
  shows "(sint (rp_BaseDelay p) * 2 ^ (a - 1) < 2 ^ 63 \<longrightarrow>
            sint (retryDelay p a) = min (sint (rp_BaseDelay p) * 2 ^ (a - 1)) (sint (rp_MaxDelay p)))
       \<and> (65 \<le> a \<longrightarrow> retryDelay p a = 0)"
proof -
  let ?b = "rp_BaseDelay p"
  have nz: "?b \<noteq> 0" using assms(1) by auto
  have "sint (?b * 2 ^ (a - 1)) = sint ?b * 2 ^ (a - 1)" if "sint ?b * 2 ^ (a - 1) < 2 ^ 63"
  proof -
    have "- (2 ^ 63) \<le> sint ?b * 2 ^ (a - 1)" using assms(1) by (simp add: order_trans [of _ 0])
    then show ?thesis
      using that unfolding sint_shifted by (intro signed_take_bit_int_eq_self) auto
  qed
  then have "sint ?b * 2 ^ (a - 1) < 2 ^ 63 \<longrightarrow>
      sint (retryDelay p a) = min (sint ?b * 2 ^ (a - 1)) (sint (rp_MaxDelay p))"
    using assms nz by (auto simp: retryDelay_shift Let_def min_def)
  moreover have "retryDelay p a = 0" if "65 \<le> a"
  proof -
    have "(2 :: int64) ^ (a - 1) = 0" using that by (simp add: exp_eq_zero_iff)
    then have zero: "?b * 2 ^ (a - 1) = 0" by (simp only: mult_zero_right)
    show ?thesis
      unfolding retryDelay_shift Let_def if_not_P [OF nz] zero using assms(2) by simp
  qed
  ultimately show ?thesis by blast
qed

theorem runtime_backoff_wraps_witness:
  "retryDelay \<lparr>rp_MaxRetries = 100, rp_BaseDelay = 1000000000, rp_MaxDelay = 30000000000,
               rp_RetryOnTool = True, rp_RetryOnModel = True\<rparr> 70 = 0"
  using runtime_backoff_wraps [of "\<lparr>rp_MaxRetries = 100, rp_BaseDelay = 1000000000, rp_MaxDelay = 30000000000,
               rp_RetryOnTool = True, rp_RetryOnModel = True\<rparr>" 70]
  by simp

end
