(* ===== verification/SessionLog.thy ===== *)
theory SessionLog
  imports Messages
begin

text \<open>
  The append-only session log of \<open>core/session/log.go\<close> over the events of
  \<open>core/types/sessionevent.go\<close>: commit, replacement of a range of the derived surface, restoring
  a persisted log, the derived message history, and subscriptions.

  Every method runs under the log's mutex, so it is one step.  The commit tells which subscribers
  it notified; Go's map gives them no order, so they are a set.  Sequence numbers are integers
  (an \<open>int64\<close> that counts commits does not overflow).
\<close>

section \<open>Events and the log\<close>

datatype surface_op = SurfaceAppend | SurfaceReplace | SurfaceLogOnly | SurfaceOther int

record session_event =
  se_seq :: int
  se_kind :: string
  se_surface :: surface_op
  se_from :: int
  se_to :: int
  se_message :: "message option"
  se_meta :: "(string \<times> go_any) list"
  se_at :: int

definition NewSessionEvent :: "string \<Rightarrow> message option \<Rightarrow> int \<Rightarrow> session_event" where
  "NewSessionEvent kind msg now =
     \<lparr>se_seq = 0, se_kind = kind, se_surface = SurfaceAppend, se_from = 0, se_to = 0,
      se_message = msg, se_meta = [], se_at = now\<rparr>"

definition NewReplaceEvent :: "string \<Rightarrow> int \<Rightarrow> int \<Rightarrow> message option \<Rightarrow> int \<Rightarrow> session_event" where
  "NewReplaceEvent kind from to msg now =
     \<lparr>se_seq = 0, se_kind = kind, se_surface = SurfaceReplace, se_from = from, se_to = to,
      se_message = msg, se_meta = [], se_at = now\<rparr>"

definition NewLogOnlyEvent :: "string \<Rightarrow> (string \<times> go_any) list \<Rightarrow> int \<Rightarrow> session_event" where
  "NewLogOnlyEvent kind meta now =
     \<lparr>se_seq = 0, se_kind = kind, se_surface = SurfaceLogOnly, se_from = 0, se_to = 0,
      se_message = None, se_meta = meta, se_at = now\<rparr>"

record surface_node =
  sn_seq :: int
  sn_kind :: string
  sn_msg :: "message option"

definition node_of :: "session_event \<Rightarrow> surface_node" where
  "node_of e = \<lparr>sn_seq = se_seq e, sn_kind = se_kind e, sn_msg = se_message e\<rparr>"

record session_log =
  sl_id :: string
  sl_closed :: bool
  sl_seq :: int
  sl_events :: "session_event list"
  sl_surface :: "surface_node list"
  sl_watches :: "nat set"
  sl_nextID :: nat

datatype session_error =
    ErrSeqAssigned | ErrSurfaceRange | ErrClosed | ErrRestoreNotEmpty
  | ErrRestoreSeq nat int | ErrRestoreSurface session_error

definition NewLog :: "string \<Rightarrow> session_log" where
  "NewLog i = \<lparr>sl_id = i, sl_closed = False, sl_seq = 0, sl_events = [], sl_surface = [],
              sl_watches = {}, sl_nextID = 0\<rparr>"

section \<open>Operations\<close>

text \<open>The first index of the surface that carries a sequence number.\<close>

fun seq_index :: "int \<Rightarrow> surface_node list \<Rightarrow> nat option" where
  "seq_index s [] = None"
| "seq_index s (n # ns) = (if sn_seq n = s then Some 0 else map_option Suc (seq_index s ns))"

definition in_range :: "int \<Rightarrow> int \<Rightarrow> surface_node \<Rightarrow> bool" where
  "in_range from to n = (from \<le> sn_seq n \<and> sn_seq n \<le> to)"

definition applyReplaceScratch ::
  "surface_node list \<Rightarrow> int \<Rightarrow> int \<Rightarrow> surface_node \<Rightarrow> session_error + surface_node list" where
  "applyReplaceScratch surface from to replacement =
     (if from \<le> 0 \<or> to < from then Inl ErrSurfaceRange
      else (case seq_index from surface of
              None \<Rightarrow> Inl ErrSurfaceRange
            | Some startIdx \<Rightarrow>
               (let shadowed = length (takeWhile (in_range from to) (drop startIdx surface))
                in if int shadowed \<noteq> to - from + 1 then Inl ErrSurfaceRange
                   else Inr (take startIdx surface @ [replacement] @ drop (startIdx + shadowed) surface))))"

definition Append :: "session_event \<Rightarrow> session_log \<Rightarrow> ((session_error + session_event) \<times> nat set) \<times> session_log" where
  "Append e0 l =
     (if sl_closed l then ((Inl ErrClosed, {}), l)
      else if se_seq e0 \<noteq> 0 then ((Inl ErrSeqAssigned, {}), l)
      else
        (let e = e0\<lparr>se_seq := sl_seq l + 1\<rparr>;
             l1 = l\<lparr>sl_seq := sl_seq l + 1, sl_events := sl_events l @ [e]\<rparr>
         in (case se_surface e of
               SurfaceAppend \<Rightarrow> ((Inr e, sl_watches l), l1\<lparr>sl_surface := sl_surface l @ [node_of e]\<rparr>)
             | SurfaceReplace \<Rightarrow>
                 (case applyReplaceScratch (sl_surface l) (se_from e) (se_to e) (node_of e) of
                    Inl err \<Rightarrow>
                      ((Inl err, {}), l1\<lparr>sl_seq := sl_seq l1 - 1, sl_events := butlast (sl_events l1)\<rparr>)
                  | Inr s \<Rightarrow> ((Inr e, sl_watches l), l1\<lparr>sl_surface := s\<rparr>))
             | _ \<Rightarrow> ((Inr e, sl_watches l), l1))))"

text \<open>The first event whose sequence number is not its position plus one.\<close>

fun bad_seq :: "nat \<Rightarrow> session_event list \<Rightarrow> (nat \<times> int) option" where
  "bad_seq i [] = None"
| "bad_seq i (e # es) = (if se_seq e \<noteq> int i + 1 then Some (i, se_seq e) else bad_seq (Suc i) es)"

text \<open>The validation pass of \<open>Restore\<close>: replay the events on a scratch surface.\<close>

fun rebuild :: "surface_node list \<Rightarrow> session_event list \<Rightarrow> session_error + surface_node list" where
  "rebuild scratch [] = Inr scratch"
| "rebuild scratch (e # es) =
     (case se_surface e of
        SurfaceAppend \<Rightarrow> rebuild (scratch @ [node_of e]) es
      | SurfaceReplace \<Rightarrow>
          (case applyReplaceScratch scratch (se_from e) (se_to e) (node_of e) of
             Inl err \<Rightarrow> Inl err
           | Inr s \<Rightarrow> rebuild s es)
      | _ \<Rightarrow> rebuild scratch es)"

definition Restore :: "session_event list \<Rightarrow> session_log \<Rightarrow> session_error option \<times> session_log" where
  "Restore events l =
     (if sl_closed l then (Some ErrClosed, l)
      else if sl_events l \<noteq> [] \<or> sl_seq l \<noteq> 0 then (Some ErrRestoreNotEmpty, l)
      else (case bad_seq 0 events of
              Some (i, s) \<Rightarrow> (Some (ErrRestoreSeq i s), l)
            | None \<Rightarrow>
               (case rebuild [] events of
                  Inl err \<Rightarrow> (Some (ErrRestoreSurface err), l)
                | Inr scratch \<Rightarrow>
                    (None, l\<lparr>sl_seq := int (length events), sl_events := sl_events l @ events,
                             sl_surface := scratch\<rparr>))))"

definition Events :: "session_log \<Rightarrow> session_event list" where
  "Events l = sl_events l"

definition DeriveMessages :: "session_log \<Rightarrow> message list" where
  "DeriveMessages l = List.map_filter sn_msg (sl_surface l)"

definition SurfaceSeq :: "session_log \<Rightarrow> int list" where
  "SurfaceSeq l = map sn_seq (sl_surface l)"

definition Subscribe :: "session_log \<Rightarrow> nat \<times> session_log" where
  "Subscribe l = (let i = Suc (sl_nextID l) in (i, l\<lparr>sl_nextID := i, sl_watches := insert i (sl_watches l)\<rparr>))"

definition CancelWatch :: "nat \<Rightarrow> session_log \<Rightarrow> session_log" where
  "CancelWatch i l = l\<lparr>sl_watches := sl_watches l - {i}\<rparr>"

definition CloseLog :: "session_log \<Rightarrow> session_log" where
  "CloseLog l = l\<lparr>sl_closed := True\<rparr>"

section \<open>Executions\<close>

datatype log_op =
    OpAppend session_event
  | OpRestore "session_event list"
  | OpSubscribe
  | OpCancel nat
  | OpClose

fun log_step :: "log_op \<Rightarrow> session_log \<Rightarrow> session_log" where
  "log_step (OpAppend e) l = snd (Append e l)"
| "log_step (OpRestore es) l = snd (Restore es l)"
| "log_step OpSubscribe l = snd (Subscribe l)"
| "log_step (OpCancel i) l = CancelWatch i l"
| "log_step OpClose l = CloseLog l"

definition log_run :: "log_op list \<Rightarrow> session_log \<Rightarrow> session_log" where
  "log_run ops l = fold log_step ops l"

section \<open>The log is the source of the surface\<close>

definition log_inv :: "session_log \<Rightarrow> bool" where
  "log_inv l \<longleftrightarrow> sl_seq l = int (length (sl_events l)) \<and> bad_seq 0 (sl_events l) = None \<and>
     rebuild [] (sl_events l) = Inr (sl_surface l)"

lemma bad_seq_snoc:
  "bad_seq i (es @ [e]) =
     (case bad_seq i es of Some x \<Rightarrow> Some x
      | None \<Rightarrow> if se_seq e \<noteq> int (i + length es) + 1 then Some (i + length es, se_seq e) else None)"
  by (induction es arbitrary: i) (auto split: option.splits)

lemma bad_seq_None: "bad_seq i es = None \<longleftrightarrow> (\<forall>j < length es. se_seq (es ! j) = int (i + j) + 1)"
  by (induction es rule: rev_induct)
    (auto simp: bad_seq_snoc nth_append less_Suc_eq split: option.splits)

lemma rebuild_append:
  "rebuild s (es @ fs) = (case rebuild s es of Inl err \<Rightarrow> Inl err | Inr s1 \<Rightarrow> rebuild s1 fs)"
  by (induction s es rule: rebuild.induct) (auto split: surface_op.splits sum.splits)

lemma log_inv_New [inv_intros]: "log_inv (NewLog i)"
  by (simp add: log_inv_def NewLog_def)

lemma log_inv_commit:
  assumes "log_inv l" and "se_seq e = sl_seq l + 1" and "rebuild (sl_surface l) [e] = Inr s"
  shows "log_inv (l\<lparr>sl_seq := sl_seq l + 1, sl_events := sl_events l @ [e], sl_surface := s\<rparr>)"
  using assms by (simp add: log_inv_def bad_seq_snoc rebuild_append)

lemma Append_cases:
  obtains (rejected) err where "Append e0 l = ((Inl err, {}), l)"
  | (committed) s where "Append e0 l = ((Inr (e0\<lparr>se_seq := sl_seq l + 1\<rparr>), sl_watches l),
        l\<lparr>sl_seq := sl_seq l + 1, sl_events := sl_events l @ [e0\<lparr>se_seq := sl_seq l + 1\<rparr>], sl_surface := s\<rparr>)"
      "rebuild (sl_surface l) [e0\<lparr>se_seq := sl_seq l + 1\<rparr>] = Inr s" "\<not> sl_closed l" "se_seq e0 = 0"
proof (cases "sl_closed l \<or> se_seq e0 \<noteq> 0")
  case True
  then have "\<exists>err. Append e0 l = ((Inl err, {}), l)" by (auto simp: Append_def)
  then show ?thesis using rejected by blast
next
  case False
  let ?e = "e0\<lparr>se_seq := sl_seq l + 1\<rparr>"
  show ?thesis
  proof (cases "rebuild (sl_surface l) [?e]")
    case (Inl err)
    then have "Append e0 l = ((Inl err, {}), l)"
      using False by (auto simp: Append_def Let_def split: surface_op.splits sum.splits)
    then show ?thesis by (rule rejected)
  next
    case (Inr s)
    then have "Append e0 l = ((Inr ?e, sl_watches l),
        l\<lparr>sl_seq := sl_seq l + 1, sl_events := sl_events l @ [?e], sl_surface := s\<rparr>)"
      using False by (auto simp: Append_def Let_def split: surface_op.splits sum.splits)
    with Inr False show ?thesis using committed by simp
  qed
qed

lemma Append_inv [inv_intros]: "log_inv l \<Longrightarrow> log_inv (snd (Append e l))"
  by (cases rule: Append_cases [of e l]) (simp_all add: log_inv_commit)

lemma Restore_inv [inv_intros]: "log_inv l \<Longrightarrow> log_inv (snd (Restore es l))"
  by (auto simp: Restore_def log_inv_def split: option.splits sum.splits)

lemma log_step_inv: "log_inv l \<Longrightarrow> log_inv (log_step p l)"
proof (cases p)
  case (OpAppend e)
  then show "log_inv l \<Longrightarrow> log_inv (log_step p l)" by (simp add: inv_intros)
next
  case (OpRestore es)
  then show "log_inv l \<Longrightarrow> log_inv (log_step p l)" by (simp add: inv_intros)
qed (auto simp: Subscribe_def CancelWatch_def CloseLog_def log_inv_def Let_def)

lemma log_run_inv: "log_inv (log_run ops (NewLog i))"
proof -
  have "log_inv l \<Longrightarrow> log_inv (fold log_step ops l)" for l
    by (induction ops arbitrary: l) (auto intro: log_step_inv)
  then show ?thesis unfolding log_run_def by (blast intro: inv_intros)
qed

text \<open>
  C21. A session log survives persistence.  Whatever was done to a log (commits, rejected commits,
  restores, subscriptions, closing), restoring its events into a fresh log succeeds and gives back
  the same events, sequence number, surface and derived message history: the log is the only source
  of the derived state.
\<close>

theorem session_log_roundtrip:
  "let l = log_run ops (NewLog i); (err, l') = Restore (Events l) (NewLog j)
   in err = None \<and> Events l' = Events l \<and> sl_seq l' = sl_seq l \<and> sl_surface l' = sl_surface l \<and>
      DeriveMessages l' = DeriveMessages l \<and> SurfaceSeq l' = SurfaceSeq l"
  using log_run_inv [of ops i]
  by (auto simp: Let_def log_inv_def Restore_def NewLog_def Events_def DeriveMessages_def SurfaceSeq_def)

subsection \<open>Append-only\<close>

lemma log_step_prefix: "\<exists>es. sl_events (log_step p l) = sl_events l @ es"
proof (cases p)
  case (OpAppend e)
  then show ?thesis by (cases rule: Append_cases [of e l]) auto
qed (auto simp: Restore_def Subscribe_def CancelWatch_def CloseLog_def Let_def split: option.splits sum.splits)

lemma log_run_prefix: "\<exists>es. sl_events (fold log_step ops l) = sl_events l @ es"
proof (induction ops arbitrary: l)
  case (Cons p ops)
  obtain es where "sl_events (log_step p l) = sl_events l @ es" using log_step_prefix by blast
  moreover obtain fs where "sl_events (fold log_step ops (log_step p l)) = sl_events (log_step p l) @ fs"
    using Cons.IH by blast
  ultimately show ?case by simp
qed simp

text \<open>
  Committed records are final.  In every execution the committed records are numbered from 1
  without a gap, later operations only add records behind them, and a commit that is rejected (the
  log is closed, the event brings a number, or the range is not on the surface) changes nothing and
  notifies nobody.
\<close>

theorem session_log_append_only:
  fixes ops more i
  defines "l \<equiv> log_run ops (NewLog i)"
  shows "take (length (Events l)) (Events (log_run more l)) = Events l
       \<and> map se_seq (Events l) = map (\<lambda>k. int k + 1) [0..<length (Events l)]
       \<and> (case Append e l of
            ((Inl err, notified), l') \<Rightarrow> l' = l \<and> notified = {}
          | ((Inr e', notified), l') \<Rightarrow> Events l' = Events l @ [e'] \<and> se_seq e' = sl_seq l + 1
              \<and> notified = sl_watches l)"
proof -
  have "bad_seq 0 (sl_events l) = None"
    using log_run_inv [of ops i] by (simp add: l_def log_inv_def)
  then have "map se_seq (Events l) = map (\<lambda>k. int k + 1) [0..<length (Events l)]"
    by (intro nth_equalityI) (auto simp: bad_seq_None Events_def)
  moreover have "take (length (Events l)) (Events (log_run more l)) = Events l"
    using log_run_prefix [of more l] by (auto simp: Events_def log_run_def)
  moreover have "case Append e l of
            ((Inl err, notified), l') \<Rightarrow> l' = l \<and> notified = {}
          | ((Inr e', notified), l') \<Rightarrow> Events l' = Events l @ [e'] \<and> se_seq e' = sl_seq l + 1
              \<and> notified = sl_watches l"
    by (cases rule: Append_cases [of e l]) (auto simp: Events_def)
  ultimately show ?thesis by blast
qed

end
