(* ===== verification/LogSession.thy ===== *)
theory LogSession
  imports SessionLog
begin

text \<open>
  The two sessions of \<open>module/session\<close>: \<open>sessionImpl\<close> (session.go), which keeps its messages,
  counter and status in fields, and \<open>logSession\<close> (logsess.go), which derives them from the event
  log.  The \<open>Session\<close> interface they share is the locale \<open>session\<close>: what its operations do to the
  four things a client observes.

  A method holds the session's mutex, so it is one step.  \<open>createdAt\<close> and the identifiers come from
  the clock and the random source and are arguments; \<open>logSession\<close>'s field \<open>meta\<close> is never read by
  the code and is left out.  \<open>CloneMessages\<close> copies values, so it is the identity here.
\<close>

section \<open>The in-memory session\<close>

record session_impl =
  sim_id :: string
  sim_messages :: messages
  sim_usedTokens :: int
  sim_agentName :: string
  sim_status :: string
  sim_createdAt :: int
  sim_meta :: "(string \<times> go_any) list"

definition NewSession :: "string \<Rightarrow> int \<Rightarrow> string \<Rightarrow> session_impl" where
  "NewSession i now agentName =
     \<lparr>sim_id = i, sim_messages = [], sim_usedTokens = 0, sim_agentName = agentName, sim_status = ''active'',
      sim_createdAt = now, sim_meta = []\<rparr>"

definition sim_AddMessage :: "message option \<Rightarrow> session_impl \<Rightarrow> session_impl" where
  "sim_AddMessage m s = s\<lparr>sim_messages := sim_messages s @ [m]\<rparr>"

definition sim_AddMessages :: "messages \<Rightarrow> session_impl \<Rightarrow> session_impl" where
  "sim_AddMessages ms s = s\<lparr>sim_messages := sim_messages s @ ms\<rparr>"

definition sim_GetMessages :: "session_impl \<Rightarrow> messages" where
  "sim_GetMessages s = sim_messages s"

definition sim_AddTokenUsage :: "int \<Rightarrow> session_impl \<Rightarrow> session_impl" where
  "sim_AddTokenUsage n s = s\<lparr>sim_usedTokens := sim_usedTokens s + n\<rparr>"

definition sim_SetAgentName :: "string \<Rightarrow> session_impl \<Rightarrow> session_impl" where
  "sim_SetAgentName a s = s\<lparr>sim_agentName := a\<rparr>"

definition sim_SetStatus :: "string \<Rightarrow> session_impl \<Rightarrow> session_impl" where
  "sim_SetStatus st s = s\<lparr>sim_status := st\<rparr>"

definition sim_TrimMessages :: "messages \<Rightarrow> session_impl \<Rightarrow> session_impl" where
  "sim_TrimMessages ms s = s\<lparr>sim_messages := ms\<rparr>"

definition sim_SetMeta :: "string \<Rightarrow> go_any \<Rightarrow> session_impl \<Rightarrow> session_impl" where
  "sim_SetMeta k v s = s\<lparr>sim_meta := AList.update k v (sim_meta s)\<rparr>"

lemmas session_impl_defs =
  sim_AddMessage_def sim_AddMessages_def sim_GetMessages_def sim_AddTokenUsage_def sim_SetAgentName_def
  sim_SetStatus_def sim_TrimMessages_def sim_SetMeta_def

section \<open>The log-backed session\<close>

record log_session =
  ls_id :: string
  ls_agentName :: string
  ls_createdAt :: int
  ls_log :: session_log

definition NewLogSession :: "string \<Rightarrow> int \<Rightarrow> string \<Rightarrow> log_session" where
  "NewLogSession i now agentName =
     \<lparr>ls_id = i, ls_agentName = agentName, ls_createdAt = now, ls_log = NewLog i\<rparr>"

text \<open>Every operation discards the error of the commit.\<close>

definition ls_commit :: "session_event \<Rightarrow> log_session \<Rightarrow> log_session" where
  "ls_commit e s = s\<lparr>ls_log := snd (Append e (ls_log s))\<rparr>"

fun fold_meta :: "session_event list \<Rightarrow> (string \<rightharpoonup> go_any) \<Rightarrow> (string \<rightharpoonup> go_any)" where
  "fold_meta [] out = out"
| "fold_meta (ev # evs) out =
     (if se_kind ev \<noteq> ''session/meta'' then fold_meta evs out
      else fold_meta evs (out ++ map_of (se_meta ev)))"

definition ls_Meta :: "log_session \<Rightarrow> (string \<rightharpoonup> go_any)" where
  "ls_Meta s = fold_meta (Events (ls_log s)) Map.empty"

fun fold_usage :: "session_event list \<Rightarrow> int \<Rightarrow> int" where
  "fold_usage [] tot = tot"
| "fold_usage (ev # evs) tot =
     (if se_kind ev = ''session/usage'' then
        fold_usage evs (case map_of (se_meta ev) ''used_tokens'' of
                          Some (AnyInt v) \<Rightarrow> v
                        | Some (AnyFloat v) \<Rightarrow> int_of_float v
                        | _ \<Rightarrow> tot)
      else fold_usage evs tot)"

definition ls_UsedTokens :: "log_session \<Rightarrow> int" where
  "ls_UsedTokens s = fold_usage (Events (ls_log s)) 0"

definition ls_Status :: "log_session \<Rightarrow> string" where
  "ls_Status s = (case ls_Meta s ''status'' of Some (AnyStr v) \<Rightarrow> v | _ \<Rightarrow> ''active'')"

definition role_kind :: "string \<Rightarrow> string" where
  "role_kind r =
     (if r = RoleSystem then ''system/message''
      else if r = RoleAssistant then ''assistant/message''
      else if r = RoleTool then ''tool/result''
      else ''user/message'')"

text \<open>The clock reading of \<open>NewSessionEvent\<close> is the argument \<open>now\<close> of the operations.\<close>

definition ls_AddMessage :: "int \<Rightarrow> message option \<Rightarrow> log_session \<Rightarrow> log_session" where
  "ls_AddMessage now m s =
     (case m of None \<Rightarrow> s
      | Some msg \<Rightarrow> ls_commit (NewSessionEvent (role_kind (msg_role msg)) (Some msg) now) s)"

definition ls_AddMessages :: "int \<Rightarrow> messages \<Rightarrow> log_session \<Rightarrow> log_session" where
  "ls_AddMessages now ms s = fold (ls_AddMessage now) ms s"

definition ls_GetMessages :: "log_session \<Rightarrow> message list" where
  "ls_GetMessages s = DeriveMessages (ls_log s)"

definition ls_AddTokenUsage :: "int \<Rightarrow> int \<Rightarrow> log_session \<Rightarrow> log_session" where
  "ls_AddTokenUsage now usage s =
     ls_commit (NewLogOnlyEvent ''session/usage'' [(''used_tokens'', AnyInt (ls_UsedTokens s + usage))] now) s"

definition ls_SetAgentName :: "string \<Rightarrow> log_session \<Rightarrow> log_session" where
  "ls_SetAgentName a s = s\<lparr>ls_agentName := a\<rparr>"

definition ls_SetMeta :: "int \<Rightarrow> string \<Rightarrow> go_any \<Rightarrow> log_session \<Rightarrow> log_session" where
  "ls_SetMeta now k v s = (if k = [] then s else ls_commit (NewLogOnlyEvent ''session/meta'' [(k, v)] now) s)"

definition ls_SetStatus :: "int \<Rightarrow> string \<Rightarrow> log_session \<Rightarrow> log_session" where
  "ls_SetStatus now st s = ls_SetMeta now ''status'' (AnyStr st) s"

text \<open>\<open>TrimMessages\<close> reads the content of the last message given, so a nil one panics (\<open>None\<close>).\<close>

definition trim_summary :: "message \<Rightarrow> message" where
  "trim_summary m = NewUserMessage (''[history trimmed to '' @ msg_content m @ '']'')"

definition ls_TrimMessages :: "int \<Rightarrow> messages \<Rightarrow> log_session \<Rightarrow> log_session option" where
  "ls_TrimMessages now ms s =
     (let seqs = SurfaceSeq (ls_log s)
      in if seqs = [] then Some (ls_AddMessages now ms s)
         else if ms = [] then
           Some (ls_commit (NewReplaceEvent ''user/message'' (hd seqs) (last seqs)
                  (Some (NewUserMessage ''[history trimmed]'')) now) s)
         else (case last ms of
                 None \<Rightarrow> None
               | Some m \<Rightarrow>
                   Some (ls_AddMessages now ms
                     (ls_commit (NewReplaceEvent ''user/message'' (hd seqs) (last seqs)
                        (Some (trim_summary m)) now) s))))"

section \<open>The contract of the interface\<close>

text \<open>What a client observes: messages, used tokens, status, agent name.\<close>

type_synonym session_view = "messages \<times> int \<times> string \<times> string"

definition sim_view :: "session_impl \<Rightarrow> session_view" where
  "sim_view s = (sim_GetMessages s, sim_usedTokens s, sim_status s, sim_agentName s)"

definition ls_view :: "log_session \<Rightarrow> session_view" where
  "ls_view s = (map Some (ls_GetMessages s), ls_UsedTokens s, ls_Status s, ls_agentName s)"

datatype session_op =
    AddMessageOp message
  | AddTokenUsageOp int
  | SetStatusOp string
  | SetAgentNameOp string

fun view_step :: "session_op \<Rightarrow> session_view \<Rightarrow> session_view" where
  "view_step (AddMessageOp m) (ms, u, st, a) = (ms @ [Some m], u, st, a)"
| "view_step (AddTokenUsageOp n) (ms, u, st, a) = (ms, u + n, st, a)"
| "view_step (SetStatusOp st') (ms, u, st, a) = (ms, u, st', a)"
| "view_step (SetAgentNameOp a') (ms, u, st, a) = (ms, u, st, a')"

fun session_step ::
  "(message \<Rightarrow> 's \<Rightarrow> 's) \<Rightarrow> (int \<Rightarrow> 's \<Rightarrow> 's) \<Rightarrow> (string \<Rightarrow> 's \<Rightarrow> 's) \<Rightarrow> (string \<Rightarrow> 's \<Rightarrow> 's) \<Rightarrow>
   session_op \<Rightarrow> 's \<Rightarrow> 's" where
  "session_step add usage status agent (AddMessageOp m) s = add m s"
| "session_step add usage status agent (AddTokenUsageOp n) s = usage n s"
| "session_step add usage status agent (SetStatusOp st) s = status st s"
| "session_step add usage status agent (SetAgentNameOp a) s = agent a s"

locale session =
  fixes add :: "message \<Rightarrow> 's \<Rightarrow> 's"
    and usage :: "int \<Rightarrow> 's \<Rightarrow> 's"
    and status :: "string \<Rightarrow> 's \<Rightarrow> 's"
    and agent :: "string \<Rightarrow> 's \<Rightarrow> 's"
    and view :: "'s \<Rightarrow> session_view"
    and live :: "'s \<Rightarrow> bool"
  assumes add: "live s \<Longrightarrow> view (add m s) = view_step (AddMessageOp m) (view s) \<and> live (add m s)"
    and usage: "live s \<Longrightarrow> view (usage n s) = view_step (AddTokenUsageOp n) (view s) \<and> live (usage n s)"
    and status: "live s \<Longrightarrow> view (status st s) = view_step (SetStatusOp st) (view s) \<and> live (status st s)"
    and agent: "live s \<Longrightarrow> view (agent a s) = view_step (SetAgentNameOp a) (view s) \<and> live (agent a s)"
begin

lemma step_view:
  assumes "live s"
  shows "view (session_step add usage status agent p s) = view_step p (view s)
       \<and> live (session_step add usage status agent p s)"
  using assms add usage status agent by (cases p) auto

lemma run_view:
  assumes "live s"
  shows "view (fold (session_step add usage status agent) ops s) = fold view_step ops (view s)"
  using assms by (induction ops arbitrary: s) (simp_all add: step_view)

end

interpretation impl: session "\<lambda>m. sim_AddMessage (Some m)" sim_AddTokenUsage sim_SetStatus sim_SetAgentName
    sim_view "\<lambda>_. True"
  by unfold_locales (auto simp: sim_view_def session_impl_defs)

subsection \<open>The log-backed session keeps the contract while its log is open\<close>

definition ls_live :: "log_session \<Rightarrow> bool" where
  "ls_live s \<longleftrightarrow> \<not> sl_closed (ls_log s)"

lemma fold_usage_append: "fold_usage (es @ fs) t = fold_usage fs (fold_usage es t)"
  by (induction es arbitrary: t) auto

lemma fold_meta_append: "fold_meta (es @ fs) t = fold_meta fs (fold_meta es t)"
  by (induction es arbitrary: t) auto

lemma commit_append:
  assumes "ls_live s"
  shows "ls_commit (NewSessionEvent k msg now) s =
     (let e = (NewSessionEvent k msg now)\<lparr>se_seq := sl_seq (ls_log s) + 1\<rparr>
      in s\<lparr>ls_log := (ls_log s)\<lparr>sl_seq := sl_seq (ls_log s) + 1, sl_events := sl_events (ls_log s) @ [e],
              sl_surface := sl_surface (ls_log s) @ [node_of e]\<rparr>\<rparr>)"
  using assms by (simp add: ls_commit_def Append_def NewSessionEvent_def ls_live_def Let_def)

lemma commit_log_only:
  assumes "ls_live s"
  shows "ls_commit (NewLogOnlyEvent k meta now) s =
     s\<lparr>ls_log := (ls_log s)\<lparr>sl_seq := sl_seq (ls_log s) + 1,
         sl_events := sl_events (ls_log s) @ [(NewLogOnlyEvent k meta now)\<lparr>se_seq := sl_seq (ls_log s) + 1\<rparr>]\<rparr>\<rparr>"
  using assms by (simp add: ls_commit_def Append_def NewLogOnlyEvent_def ls_live_def Let_def)

lemma event_fields [simp]:
  "se_kind (NewSessionEvent k msg now) = k" "se_meta (NewSessionEvent k msg now) = []"
  "se_message (NewSessionEvent k msg now) = msg"
  "se_kind (NewLogOnlyEvent k meta now) = k" "se_meta (NewLogOnlyEvent k meta now) = meta"
  by (simp_all add: NewSessionEvent_def NewLogOnlyEvent_def)

lemmas ls_observers = ls_view_def ls_GetMessages_def ls_UsedTokens_def ls_Status_def ls_Meta_def
  DeriveMessages_def Events_def

lemma map_filter_snoc: "List.map_filter f (xs @ [x]) = List.map_filter f xs @ (case f x of None \<Rightarrow> [] | Some y \<Rightarrow> [y])"
  by (auto simp: List.map_filter_def split: option.splits)

lemma role_kind_not_meta [simp]: "role_kind r \<noteq> ''session/meta''" "role_kind r \<noteq> ''session/usage''"
  by (auto simp: role_kind_def)

interpretation logged: session "\<lambda>m. ls_AddMessage now (Some m)" "ls_AddTokenUsage now" "ls_SetStatus now"
    ls_SetAgentName ls_view ls_live
  for now
proof
  fix s and m :: message
  assume "ls_live s"
  then show "ls_view (ls_AddMessage now (Some m) s) = view_step (AddMessageOp m) (ls_view s)
      \<and> ls_live (ls_AddMessage now (Some m) s)"
    by (simp add: ls_AddMessage_def commit_append Let_def ls_observers ls_live_def map_filter_snoc
        fold_usage_append fold_meta_append node_of_def)
next
  fix s and n :: int
  assume "ls_live s"
  then show "ls_view (ls_AddTokenUsage now n s) = view_step (AddTokenUsageOp n) (ls_view s)
      \<and> ls_live (ls_AddTokenUsage now n s)"
    by (simp add: ls_AddTokenUsage_def commit_log_only ls_observers ls_live_def
        fold_usage_append fold_meta_append)
next
  fix s and st :: string
  assume "ls_live s"
  then show "ls_view (ls_SetStatus now st s) = view_step (SetStatusOp st) (ls_view s)
      \<and> ls_live (ls_SetStatus now st s)"
    by (simp add: ls_SetStatus_def ls_SetMeta_def commit_log_only ls_observers ls_live_def
        fold_usage_append fold_meta_append)
next
  fix s and a :: string
  assume "ls_live s"
  then show "ls_view (ls_SetAgentName a s) = view_step (SetAgentNameOp a) (ls_view s)
      \<and> ls_live (ls_SetAgentName a s)"
    by (simp add: ls_SetAgentName_def ls_observers ls_live_def)
qed

text \<open>
  The two session back ends are interchangeable.  Any sequence of adding messages and token
  usage and setting the status and the agent name leaves a fresh in-memory session and a fresh
  log-backed session with the same messages, token counter, status and agent name.
\<close>

theorem session_backends_agree:
  "ls_view (fold (session_step (\<lambda>m. ls_AddMessage now (Some m)) (ls_AddTokenUsage now) (ls_SetStatus now)
        ls_SetAgentName) ops (NewLogSession i now a))
   = sim_view (fold (session_step (\<lambda>m. sim_AddMessage (Some m)) sim_AddTokenUsage sim_SetStatus sim_SetAgentName)
        ops (NewSession j now a))"
proof -
  have "ls_view (NewLogSession i now a) = sim_view (NewSession j now a)" and "ls_live (NewLogSession i now a)"
    by (simp_all add: ls_observers NewLogSession_def NewLog_def NewSession_def sim_view_def sim_GetMessages_def ls_live_def)
  then show ?thesis by (simp add: logged.run_view impl.run_view)
qed

section \<open>Trimming\<close>

text \<open>Every operation of \<open>logSession\<close>; a panic of \<open>TrimMessages\<close> ends the run.\<close>

datatype log_session_op =
    LsAdd "message option" | LsUsage int | LsMeta string go_any | LsAgent string | LsTrim messages

fun ls_step :: "int \<Rightarrow> log_session_op \<Rightarrow> log_session \<Rightarrow> log_session option" where
  "ls_step now (LsAdd m) s = Some (ls_AddMessage now m s)"
| "ls_step now (LsUsage n) s = Some (ls_AddTokenUsage now n s)"
| "ls_step now (LsMeta k v) s = Some (ls_SetMeta now k v s)"
| "ls_step now (LsAgent a) s = Some (ls_SetAgentName a s)"
| "ls_step now (LsTrim ms) s = ls_TrimMessages now ms s"

fun ls_run :: "int \<Rightarrow> log_session_op list \<Rightarrow> log_session \<Rightarrow> log_session option" where
  "ls_run now [] s = Some s"
| "ls_run now (p # ps) s = Option.bind (ls_step now p s) (ls_run now ps)"

text \<open>The surface of a log that only its session writes to is in commit order.\<close>

definition ordered_log :: "session_log \<Rightarrow> bool" where
  "ordered_log l \<longleftrightarrow> \<not> sl_closed l \<and> 0 \<le> sl_seq l \<and> sorted_wrt (<) (SurfaceSeq l) \<and>
     (\<forall>q \<in> set (SurfaceSeq l). 0 < q \<and> q \<le> sl_seq l)"

lemma ordered_new: "ordered_log (ls_log (NewLogSession i now a))"
  by (simp add: ordered_log_def NewLogSession_def NewLog_def SurfaceSeq_def)

lemma ordered_live: "ordered_log (ls_log s) \<Longrightarrow> ls_live s"
  by (simp add: ordered_log_def ls_live_def)

lemma ordered_commit_append:
  assumes "ordered_log (ls_log s)"
  shows "ordered_log (ls_log (ls_commit (NewSessionEvent k msg now) s))"
  using assms ordered_live [OF assms]
  by (auto simp: commit_append Let_def ordered_log_def SurfaceSeq_def sorted_wrt_append node_of_def)

lemma ordered_commit_log_only:
  assumes "ordered_log (ls_log s)"
  shows "ordered_log (ls_log (ls_commit (NewLogOnlyEvent k meta now) s))"
  using assms ordered_live [OF assms]
  by (force simp: commit_log_only ordered_log_def SurfaceSeq_def)

lemma ordered_add: "ordered_log (ls_log s) \<Longrightarrow> ordered_log (ls_log (ls_AddMessage now m s))"
  by (auto simp: ls_AddMessage_def intro: ordered_commit_append split: option.splits)

lemma ordered_adds: "ordered_log (ls_log s) \<Longrightarrow> ordered_log (ls_log (ls_AddMessages now ms s))"
  unfolding ls_AddMessages_def by (induction ms arbitrary: s) (auto intro: ordered_add)

subsection \<open>Replacing the whole surface\<close>

lemma seq_index_hd: "ns \<noteq> [] \<Longrightarrow> seq_index (sn_seq (hd ns)) ns = Some 0"
  by (cases ns) auto

lemma sorted_between:
  assumes "sorted_wrt (<) (map sn_seq ns)" and "n \<in> set ns"
  shows "in_range (sn_seq (hd ns)) (sn_seq (last ns)) n"
proof -
  have mono: "sn_seq (ns ! j) \<le> sn_seq (ns ! k)" if "j \<le> k" "k < length ns" for j k
    using sorted_wrt_nth_less [OF assms(1), of j k] that by (cases "j = k") auto
  obtain i where "i < length ns" "n = ns ! i" using assms(2) by (auto simp: in_set_conv_nth)
  moreover from this have "ns \<noteq> []" by auto
  ultimately show ?thesis
    using mono [of 0 i] mono [of i "length ns - 1"]
    by (auto simp: in_range_def hd_conv_nth last_conv_nth)
qed

lemma replace_whole_surface:
  assumes "sorted_wrt (<) (map sn_seq ns)" and "ns \<noteq> []" and "0 < sn_seq (hd ns)"
  shows "applyReplaceScratch ns (sn_seq (hd ns)) (sn_seq (last ns)) r =
     (if int (length ns) = sn_seq (last ns) - sn_seq (hd ns) + 1 then Inr [r] else Inl ErrSurfaceRange)"
proof -
  have "takeWhile (in_range (sn_seq (hd ns)) (sn_seq (last ns))) ns = ns"
    using sorted_between [OF assms(1)] by (simp add: takeWhile_eq_all_conv)
  then have "length (takeWhile (in_range (sn_seq (hd ns)) (sn_seq (last ns))) ns) = length ns"
    by (rule arg_cong)
  moreover have "sn_seq (hd ns) \<le> sn_seq (last ns)"
    using sorted_between [OF assms(1), of "hd ns"] assms(2) by (simp add: in_range_def)
  ultimately show ?thesis
    using assms by (simp add: applyReplaceScratch_def seq_index_hd Let_def)
qed

definition gapless :: "session_log \<Rightarrow> bool" where
  "gapless l \<longleftrightarrow> int (length (SurfaceSeq l)) = last (SurfaceSeq l) - hd (SurfaceSeq l) + 1"

lemma commit_replace_whole:
  fixes now :: int and k :: string and m :: message and s :: log_session
  assumes "ordered_log (ls_log s)" and "SurfaceSeq (ls_log s) \<noteq> []"
  defines "e \<equiv> (NewReplaceEvent k (hd (SurfaceSeq (ls_log s))) (last (SurfaceSeq (ls_log s))) (Some m) now)
                  \<lparr>se_seq := sl_seq (ls_log s) + 1\<rparr>"
  shows "ls_commit (NewReplaceEvent k (hd (SurfaceSeq (ls_log s))) (last (SurfaceSeq (ls_log s))) (Some m) now) s =
     (if gapless (ls_log s)
      then s\<lparr>ls_log := (ls_log s)\<lparr>sl_seq := sl_seq (ls_log s) + 1, sl_events := sl_events (ls_log s) @ [e],
              sl_surface := [node_of e]\<rparr>\<rparr>
      else s)"
proof -
  let ?ns = "sl_surface (ls_log s)"
  have ne: "?ns \<noteq> []" using assms(2) by (simp add: SurfaceSeq_def)
  have srt: "sorted_wrt (<) (map sn_seq ?ns)" and pos: "0 < sn_seq (hd ?ns)"
    using assms(1) ne by (auto simp: ordered_log_def SurfaceSeq_def)
  have "applyReplaceScratch ?ns (sn_seq (hd ?ns)) (sn_seq (last ?ns)) (node_of e) =
     (if gapless (ls_log s) then Inr [node_of e] else Inl ErrSurfaceRange)"
    using replace_whole_surface [OF srt ne pos] ne
    by (simp add: gapless_def SurfaceSeq_def hd_map last_map)
  moreover have "\<not> sl_closed (ls_log s)" using assms(1) by (simp add: ordered_log_def)
  ultimately show ?thesis
    using ne by (simp add: ls_commit_def Append_def NewReplaceEvent_def Let_def e_def
        SurfaceSeq_def hd_map last_map)
qed

lemma ordered_commit_replace:
  assumes "ordered_log (ls_log s)" and "SurfaceSeq (ls_log s) \<noteq> []"
  shows "ordered_log (ls_log (ls_commit
      (NewReplaceEvent k (hd (SurfaceSeq (ls_log s))) (last (SurfaceSeq (ls_log s))) (Some m) now) s))"
  unfolding commit_replace_whole [OF assms]
  using assms(1) by (simp add: ordered_log_def SurfaceSeq_def node_of_def)

lemma ordered_trim:
  assumes "ordered_log (ls_log s)" and "ls_TrimMessages now ms s = Some s'"
  shows "ordered_log (ls_log s')"
  using assms
  by (auto simp: ls_TrimMessages_def Let_def intro: ordered_adds ordered_commit_replace
      split: if_splits option.splits)

lemma ordered_step:
  assumes "ordered_log (ls_log s)" and "ls_step now p s = Some s'"
  shows "ordered_log (ls_log s')"
  using assms
  by (cases p) (auto simp: ls_AddTokenUsage_def ls_SetMeta_def ls_SetAgentName_def
      intro: ordered_add ordered_commit_log_only ordered_trim)

lemma ordered_run:
  assumes "ordered_log (ls_log s)" and "ls_run now ps s = Some s'"
  shows "ordered_log (ls_log s')"
  using assms
proof (induction now ps s rule: ls_run.induct)
  case (2 now p ps s)
  then show ?case by (auto simp: bind_eq_Some_conv intro: ordered_step)
qed simp

lemma get_add:
  assumes "ls_live s"
  shows "ls_GetMessages (ls_AddMessage now m s) = ls_GetMessages s @ (case m of None \<Rightarrow> [] | Some x \<Rightarrow> [x])"
  using assms by (cases m) (simp_all add: ls_AddMessage_def commit_append Let_def ls_observers map_filter_snoc node_of_def)

lemma get_adds:
  assumes "ls_live s"
  shows "ls_GetMessages (ls_AddMessages now ms s) = ls_GetMessages s @ List.map_filter id ms"
  using assms unfolding ls_AddMessages_def
proof (induction ms arbitrary: s)
  case (Cons m ms)
  then have "ls_live (ls_AddMessage now m s)"
    by (cases m) (auto simp: ls_AddMessage_def commit_append Let_def ls_live_def)
  then show ?case using Cons by (cases m) (simp_all add: get_add)
qed simp

definition trim_result :: "messages \<Rightarrow> message list" where
  "trim_result ms =
     (if ms = [] then [NewUserMessage ''[history trimmed]'']
      else trim_summary (the (last ms)) # List.map_filter id ms)"

text \<open>
  What trimming a log-backed session does.  In every reachable session, \<open>TrimMessages\<close> on a
  non-empty history leaves a summary message followed by the given messages exactly when the records
  on the surface are gapless; when a record that is not on the surface (a status, metadata or usage
  update) was committed between two messages, the replacement is rejected, the error is discarded and
  the given messages are added behind the history they were to replace.
\<close>

theorem log_session_trim:
  assumes "ls_run now ops (NewLogSession i now a) = Some s"
    and "SurfaceSeq (ls_log s) \<noteq> []"
    and "ls_TrimMessages now ms s = Some s'"
  shows "ls_GetMessages s' =
     (if gapless (ls_log s) then trim_result ms else ls_GetMessages s @ List.map_filter id ms)"
proof -
  have ok: "ordered_log (ls_log s)" using ordered_run [OF ordered_new assms(1)] .
  let ?repl = "\<lambda>m. ls_commit
      (NewReplaceEvent ''user/message'' (hd (SurfaceSeq (ls_log s))) (last (SurfaceSeq (ls_log s))) (Some m) now) s"
  have live: "ls_live (?repl m)" for m
    using ordered_live [OF ordered_commit_replace [OF ok assms(2)]] .
  have get: "ls_GetMessages (?repl m) = (if gapless (ls_log s) then [m] else ls_GetMessages s)" for m
    using commit_replace_whole [OF ok assms(2)]
    by (simp add: ls_observers node_of_def NewReplaceEvent_def List.map_filter_def)
  show ?thesis
    using assms(2,3) live get
    by (auto simp: ls_TrimMessages_def Let_def trim_result_def get_adds split: if_splits option.splits)
qed

lemmas trim_eval = NewLogSession_def NewLog_def ls_AddMessage_def ls_commit_def Append_def
  NewSessionEvent_def NewLogOnlyEvent_def NewReplaceEvent_def ls_SetStatus_def ls_SetMeta_def
  node_of_def SurfaceSeq_def Let_def

abbreviation (input) interrupted_session :: log_session where
  "interrupted_session \<equiv>
     the (ls_run 0 [LsAdd (Some (NewUserMessage ''a'')), LsMeta ''status'' (AnyStr ''x''),
                    LsAdd (Some (NewUserMessage ''b''))] (NewLogSession ''s'' 0 ''agent''))"

theorem log_session_trim_witness:
  "ls_GetMessages (the (ls_TrimMessages 0 [Some (NewUserMessage ''b'')] interrupted_session))
   = map NewUserMessage [''a'', ''b'', ''b'']"
proof -
  have run: "ls_run 0 [LsAdd (Some (NewUserMessage ''a'')), LsMeta ''status'' (AnyStr ''x''),
      LsAdd (Some (NewUserMessage ''b''))] (NewLogSession ''s'' 0 ''agent'') = Some interrupted_session"
    by (simp add: trim_eval)
  have seqs: "SurfaceSeq (ls_log interrupted_session) = [1, 3]"
    and get: "ls_GetMessages interrupted_session = map NewUserMessage [''a'', ''b'']"
    by (simp_all add: trim_eval ls_observers List.map_filter_def)
  have "ls_TrimMessages 0 [Some (NewUserMessage ''b'')] interrupted_session =
      Some (the (ls_TrimMessages 0 [Some (NewUserMessage ''b'')] interrupted_session))"
    using seqs by (simp add: ls_TrimMessages_def Let_def del: ls_run.simps)
  from log_session_trim [OF run _ this] show ?thesis
    using seqs get by (simp add: gapless_def List.map_filter_def del: ls_run.simps)
qed

end
