(* ===== verification/SessionStore.thy ===== *)
theory SessionStore
  imports LogSession
begin

text \<open>
  The stores of \<open>core/session/store.go\<close>: the in-memory store and the file store, which keeps one
  document per session under a base64url file name and replaces it by writing a temporary file and
  renaming it; and the log-backed session service of \<open>module/session/logsess.go\<close> over either.  What
  the service relies on is the locale \<open>event_store\<close>; both stores interpret it.

  A file holds the value a later \<open>Unmarshal\<close> reads from its bytes, or is not a document.  Of
  \<open>encoding/json\<close> the model keeps what it does to the values: numbers become \<open>float64\<close> (exact here),
  an empty slice of content parts is omitted, a value of unknown type (\<open>AnyRef\<close>) is rendered by the
  parameter \<open>ref_json\<close> or rejected.  Strings are valid UTF-8.
\<close>

section \<open>File names\<close>

subsection \<open>Unpadded base64url\<close>

definition b64_char :: "nat \<Rightarrow> char" where
  "b64_char i = char_of (if i < 26 then 65 + i else if i < 52 then 97 + (i - 26)
                         else if i < 62 then 48 + (i - 52) else if i = 62 then 45 else 95)"

definition b64_val :: "char \<Rightarrow> nat option" where
  "b64_val ch = (let n = of_char ch in
     if 65 \<le> n \<and> n \<le> 90 then Some (n - 65)
     else if 97 \<le> n \<and> n \<le> 122 then Some (n - 97 + 26)
     else if 48 \<le> n \<and> n \<le> 57 then Some (n - 48 + 52)
     else if n = 45 then Some 62
     else if n = 95 then Some 63
     else None)"

fun b64_encode :: "string \<Rightarrow> string" where
  "b64_encode [] = []"
| "b64_encode [a] = (let x = of_char a in [b64_char (x div 4), b64_char ((x mod 4) * 16)])"
| "b64_encode [a, b] = (let x = of_char a; y = of_char b in
     [b64_char (x div 4), b64_char ((x mod 4) * 16 + y div 16), b64_char ((y mod 16) * 4)])"
| "b64_encode (a # b # c # s) = (let x = of_char a; y = of_char b; z = of_char c in
     b64_char (x div 4) # b64_char ((x mod 4) * 16 + y div 16) #
     b64_char ((y mod 16) * 4 + z div 64) # b64_char (z mod 64) # b64_encode s)"

fun b64_decode :: "string \<Rightarrow> string option" where
  "b64_decode [] = Some []"
| "b64_decode [a] = None"
| "b64_decode [a, b] =
     (case (b64_val a, b64_val b) of
        (Some x, Some y) \<Rightarrow> Some [char_of (x * 4 + y div 16)]
      | _ \<Rightarrow> None)"
| "b64_decode [a, b, c] =
     (case (b64_val a, b64_val b, b64_val c) of
        (Some x, Some y, Some z) \<Rightarrow> Some [char_of (x * 4 + y div 16), char_of ((y mod 16) * 16 + z div 4)]
      | _ \<Rightarrow> None)"
| "b64_decode (a # b # c # d # s) =
     (case (b64_val a, b64_val b, b64_val c, b64_val d, b64_decode s) of
        (Some x, Some y, Some z, Some w, Some t) \<Rightarrow>
          Some (char_of (x * 4 + y div 16) # char_of ((y mod 16) * 16 + z div 4) #
                char_of ((z mod 4) * 64 + w) # t)
      | _ \<Rightarrow> None)"

text \<open>The decoder of the standard library skips carriage returns and line feeds.\<close>

definition is_newline :: "char \<Rightarrow> bool" where
  "is_newline c = (of_char c = (10::nat) \<or> of_char c = (13::nat))"

definition encodeSegment :: "string \<Rightarrow> string" where
  "encodeSegment i = b64_encode i"

definition decodeSegment :: "string \<Rightarrow> string option" where
  "decodeSegment seg = b64_decode (filter (\<lambda>c. \<not> is_newline c) seg)"

lemma b64_val_char [simp]: "i < 64 \<Longrightarrow> b64_val (b64_char i) = Some i"
  by (auto simp: b64_val_def b64_char_def Let_def)

lemma b64_char_plain [simp]: "i < 64 \<Longrightarrow> \<not> is_newline (b64_char i)"
  by (auto simp: is_newline_def b64_char_def)

lemma byte_bound [simp]: "of_char (c::char) < (256::nat)"
  using nat_of_char_less_256 by simp

lemma byte_parts [simp]:
  "of_char (c::char) div 4 < (64::nat)" "of_char (c::char) div 16 < (16::nat)" "of_char (c::char) div 64 < (4::nat)"
  using byte_bound [of c] by linarith+

lemma b64_groups [simp]:
  "(x mod 4) * 16 < (64::nat)" "q < 16 \<Longrightarrow> (x mod 4) * 16 + q < (64::nat)"
  "(x mod 16) * 4 < (64::nat)" "q < 4 \<Longrightarrow> (x mod 16) * 4 + q < (64::nat)"
  by linarith+

lemma b64_join [simp]:
  "q < 16 \<Longrightarrow> (x div 4) * 4 + ((x mod 4) * 16 + q) div 16 = (x::nat)"
  "(x div 4) * 4 + ((x mod 4) * 16) div 16 = (x::nat)"
  by (simp_all add: div_mult_mod_eq)

lemma b64_low [simp]:
  "q < 16 \<Longrightarrow> ((x mod 4) * 16 + q) mod 16 = (q::nat)"
  "r < 4 \<Longrightarrow> ((y mod 16) * 4 + r) mod 4 = (r::nat)"
  "r < 4 \<Longrightarrow> ((y mod 16) * 4 + r) div 4 = (y mod 16 :: nat)"
  by simp_all

lemma b64_join2 [simp]:
  "(y div 16) * 16 + y mod 16 = (y::nat)" "(z div 64) * 64 + z mod 64 = (z::nat)"
  by (simp_all add: div_mult_mod_eq)

lemma b64_decode_encode: "b64_decode (b64_encode s) = Some s"
  by (induction s rule: b64_encode.induct) (simp_all add: Let_def)

lemma b64_encode_plain: "\<forall>c \<in> set (b64_encode s). \<not> is_newline c"
  by (induction s rule: b64_encode.induct) (simp_all add: Let_def)

lemma decode_encode [simp]: "decodeSegment (encodeSegment i) = Some i"
proof -
  have "filter (\<lambda>c. \<not> is_newline c) (b64_encode i) = b64_encode i"
    using b64_encode_plain by (simp add: filter_id_conv)
  then show ?thesis by (simp add: decodeSegment_def encodeSegment_def b64_decode_encode)
qed

lemma encode_inj [simp]: "encodeSegment i = encodeSegment j \<longleftrightarrow> i = j"
  by (metis decode_encode option.inject)

section \<open>What encoding and decoding does to an event\<close>

fun json_any :: "(nat \<Rightarrow> go_any option) \<Rightarrow> go_any \<Rightarrow> go_any option" where
  "json_any ref_json (AnyRef r) = ref_json r"
| "json_any ref_json (AnyInt n) = Some (AnyFloat (of_int n))"
| "json_any ref_json (AnyList xs) = map_option AnyList (those (map (json_any ref_json) xs))"
| "json_any ref_json (AnyMap m) =
     map_option AnyMap (those (map (\<lambda>kv. map_option (Pair (fst kv)) (json_any ref_json (snd kv))) m))"
| "json_any ref_json v = Some v"

definition json_meta :: "(nat \<Rightarrow> go_any option) \<Rightarrow> (string \<times> go_any) list \<Rightarrow> (string \<times> go_any) list option" where
  "json_meta ref_json m = those (map (\<lambda>kv. map_option (Pair (fst kv)) (json_any ref_json (snd kv))) m)"

definition json_message :: "message \<Rightarrow> message" where
  "json_message m = (if msg_parts m = Some [] then m\<lparr>msg_parts := None\<rparr> else m)"

definition json_event :: "(nat \<Rightarrow> go_any option) \<Rightarrow> session_event \<Rightarrow> session_event option" where
  "json_event ref_json e =
     map_option (\<lambda>m. e\<lparr>se_message := map_option json_message (se_message e), se_meta := m\<rparr>)
       (json_meta ref_json (se_meta e))"

definition json_events :: "(nat \<Rightarrow> go_any option) \<Rightarrow> session_event list \<Rightarrow> session_event list option" where
  "json_events ref_json evs = those (map (json_event ref_json) evs)"

section \<open>The stores\<close>

datatype event_store_error =
    ErrNotFound | ErrEmptyID | ErrMarshal | ErrIO string | ErrCorrupt | ErrCorruptSeq nat int

subsection \<open>In memory\<close>

type_synonym memory_event_store = "string \<rightharpoonup> session_event list"

definition NewMemoryEventStore :: memory_event_store where
  "NewMemoryEventStore = Map.empty"

definition mstore_Save :: "string \<Rightarrow> session_event list \<Rightarrow> memory_event_store \<Rightarrow> event_store_error option \<times> memory_event_store" where
  "mstore_Save i events st = (None, st(i \<mapsto> events))"

definition mstore_Load :: "string \<Rightarrow> memory_event_store \<Rightarrow> event_store_error + session_event list" where
  "mstore_Load i st = (case st i of None \<Rightarrow> Inl ErrNotFound | Some evs \<Rightarrow> Inr evs)"

definition mstore_Delete :: "string \<Rightarrow> memory_event_store \<Rightarrow> event_store_error option \<times> memory_event_store" where
  "mstore_Delete i st = (None, st(i := None))"

text \<open>\<open>List\<close> collects the keys of the map in some order and sorts them.\<close>

definition mstore_List :: "string list \<Rightarrow> string list" where
  "mstore_List keys = sort keys"

subsection \<open>In files\<close>

datatype document = Document "session_event list" | NotADocument

type_synonym file_event_store = "string \<rightharpoonup> document"

text \<open>What the operating system does to a save: the temporary name it gives, and the call that fails.\<close>

definition temp_name :: "string \<Rightarrow> string" where
  "temp_name r = ''.session-'' @ r @ ''.tmp''"

datatype save_fault = FaultTemp | FaultWrite | FaultSync | FaultClose | FaultRename

definition fstore_path :: "string \<Rightarrow> event_store_error + string" where
  "fstore_path i = (if i = [] then Inl ErrEmptyID else Inr (encodeSegment i @ ''.json''))"

text \<open>The deferred \<open>os.Remove\<close> takes the temporary file away on every return; after the rename
  there is none.\<close>

definition fstore_Save :: "(nat \<Rightarrow> go_any option) \<Rightarrow> string \<Rightarrow> save_fault option \<Rightarrow> string \<Rightarrow> session_event list \<Rightarrow>
    file_event_store \<Rightarrow> event_store_error option \<times> file_event_store" where
  "fstore_Save ref_json tmpName fault i events st =
     (case fstore_path i of
        Inl err \<Rightarrow> (Some err, st)
      | Inr path \<Rightarrow>
          (case json_events ref_json events of
             None \<Rightarrow> (Some ErrMarshal, st)
           | Some data \<Rightarrow>
              if fault = Some FaultTemp then (Some (ErrIO ''temp''), st)
              else
                (let created = st(tmpName \<mapsto> NotADocument)
                 in if fault = Some FaultWrite then (Some (ErrIO ''write''), created(tmpName := None))
                    else (let written = created(tmpName \<mapsto> Document data)
                          in if fault = Some FaultSync then (Some (ErrIO ''sync''), written(tmpName := None))
                             else if fault = Some FaultClose then (Some (ErrIO ''close''), written(tmpName := None))
                             else if fault = Some FaultRename then (Some (ErrIO ''rename''), written(tmpName := None))
                             else (None, written(path \<mapsto> Document data, tmpName := None))))))"

text \<open>\<open>unreadable\<close> is an error of \<open>ReadFile\<close> other than a missing file.\<close>

definition fstore_Load :: "bool \<Rightarrow> string \<Rightarrow> file_event_store \<Rightarrow> event_store_error + session_event list" where
  "fstore_Load unreadable i st =
     (case fstore_path i of
        Inl err \<Rightarrow> Inl err
      | Inr path \<Rightarrow>
          (case st path of
             None \<Rightarrow> Inl ErrNotFound
           | Some d \<Rightarrow>
               if unreadable then Inl (ErrIO ''read'')
               else (case d of
                   NotADocument \<Rightarrow> Inl ErrCorrupt
                 | Document evs \<Rightarrow>
                     (case bad_seq 0 evs of
                        Some (k, sq) \<Rightarrow> Inl (ErrCorruptSeq k sq)
                      | None \<Rightarrow> Inr evs))))"

definition fstore_Delete :: "bool \<Rightarrow> string \<Rightarrow> file_event_store \<Rightarrow> event_store_error option \<times> file_event_store" where
  "fstore_Delete refused i st =
     (case fstore_path i of
        Inl err \<Rightarrow> (Some err, st)
      | Inr path \<Rightarrow>
          (case st path of
             None \<Rightarrow> (None, st)
           | Some _ \<Rightarrow> if refused then (Some (ErrIO ''remove''), st) else (None, st(path := None))))"

text \<open>The identifier a directory entry stands for: \<open>filepath.Ext\<close> is the suffix from the last dot.\<close>

definition file_ext :: "string \<Rightarrow> string" where
  "file_ext nm = (if CHR ''.'' \<in> set nm then CHR ''.'' # rev (takeWhile (\<lambda>c. c \<noteq> CHR ''.'') (rev nm)) else [])"

definition entry_id :: "string \<times> bool \<Rightarrow> string option" where
  "entry_id e =
     (let (nm, isDir) = e
      in if isDir \<or> file_ext nm \<noteq> ''.json'' then None
         else decodeSegment (take (length nm - length ''.json'') nm))"

definition fstore_List :: "(string \<times> bool) list \<Rightarrow> string list" where
  "fstore_List entries = sort (List.map_filter entry_id entries)"

section \<open>The contract of a store\<close>

text \<open>What the log session reads of a metadata value: a number or a string.\<close>

fun any_num :: "go_any \<Rightarrow> int option" where
  "any_num (AnyInt n) = Some n"
| "any_num (AnyFloat q) = Some (int_of_float q)"
| "any_num _ = None"

fun any_str :: "go_any \<Rightarrow> string option" where
  "any_str (AnyStr t) = Some t"
| "any_str _ = None"

definition any_agree :: "go_any \<Rightarrow> go_any \<Rightarrow> bool" where
  "any_agree v w \<longleftrightarrow> any_num v = any_num w \<and> any_str v = any_str w"

definition event_agree :: "session_event \<Rightarrow> session_event \<Rightarrow> bool" where
  "event_agree e f \<longleftrightarrow> se_seq f = se_seq e \<and> se_kind f = se_kind e \<and> se_surface f = se_surface e \<and>
     se_from f = se_from e \<and> se_to f = se_to e \<and>
     map_option json_message (se_message f) = map_option json_message (se_message e) \<and>
     list_all2 (\<lambda>x y. fst x = fst y \<and> any_agree (snd x) (snd y)) (se_meta e) (se_meta f)"

definition plain_event :: "session_event \<Rightarrow> bool" where
  "plain_event e \<longleftrightarrow> (\<forall>kv \<in> set (se_meta e). \<forall>r. snd kv \<noteq> AnyRef r)"

locale event_store =
  fixes save :: "string \<Rightarrow> session_event list \<Rightarrow> 'st \<Rightarrow> event_store_error option \<times> 'st"
    and load :: "string \<Rightarrow> 'st \<Rightarrow> event_store_error + session_event list"
    and delete :: "string \<Rightarrow> 'st \<Rightarrow> event_store_error option \<times> 'st"
  assumes load_save: "\<lbrakk>save i evs st = (None, st'); bad_seq 0 evs = None; list_all plain_event evs\<rbrakk> \<Longrightarrow>
      \<exists>evs'. load i st' = Inr evs' \<and> list_all2 event_agree evs evs'"
    and save_failed: "save i evs st = (Some e, st') \<Longrightarrow> load j st' = load j st"
    and save_other: "\<lbrakk>save i evs st = (r, st'); j \<noteq> i\<rbrakk> \<Longrightarrow> load j st' = load j st"
    and load_delete: "delete i st = (None, st') \<Longrightarrow> load i st' = Inl ErrNotFound"
    and delete_other: "\<lbrakk>delete i st = (r, st'); j \<noteq> i\<rbrakk> \<Longrightarrow> load j st' = load j st"

lemma event_agree_refl [simp]: "event_agree e e"
  by (simp add: event_agree_def any_agree_def list_all2_same)

interpretation mem: event_store mstore_Save mstore_Load mstore_Delete
  by unfold_locales (auto simp: mstore_Save_def mstore_Load_def mstore_Delete_def list_all2_same)

subsection \<open>The file store keeps it\<close>

lemma path_not_temp: "fstore_path i = Inr path \<Longrightarrow> path \<noteq> temp_name r"
  by (auto simp: fstore_path_def temp_name_def dest: arg_cong [where f = last] split: if_splits)

lemma path_inj: "\<lbrakk>fstore_path i = Inr p; fstore_path j = Inr q\<rbrakk> \<Longrightarrow> p = q \<longleftrightarrow> i = j"
  by (auto simp: fstore_path_def split: if_splits)

lemma those_Some: "those xs = Some ys \<longleftrightarrow> xs = map Some ys"
proof (induction xs arbitrary: ys)
  case (Cons x xs)
  then show ?case by (cases x; cases ys) auto
qed auto

lemma json_any_agree:
  assumes "json_any ref_json v = Some w" and "\<forall>r. v \<noteq> AnyRef r"
  shows "any_agree v w"
  using assms by (cases v) (auto simp: any_agree_def int_of_float_def)

lemma json_event_agree:
  assumes "json_event ref_json e = Some f" and "plain_event e"
  shows "event_agree e f"
proof -
  obtain m where m: "json_meta ref_json (se_meta e) = Some m"
    and f: "f = e\<lparr>se_message := map_option json_message (se_message e), se_meta := m\<rparr>"
    using assms(1) by (auto simp: json_event_def)
  have "list_all2 (\<lambda>x y. fst x = fst y \<and> any_agree (snd x) (snd y)) (se_meta e) m"
    using m assms(2) unfolding json_meta_def those_Some
  proof (subst list_all2_conv_all_nth, intro conjI allI impI)
    assume eq: "map (\<lambda>kv. map_option (Pair (fst kv)) (json_any ref_json (snd kv))) (se_meta e) = map Some m"
    show len: "length (se_meta e) = length m" using arg_cong [OF eq, of length] by simp
    fix i assume i: "i < length (se_meta e)"
    then have "map_option (Pair (fst (se_meta e ! i))) (json_any ref_json (snd (se_meta e ! i))) = Some (m ! i)"
      using arg_cong [OF eq, of "\<lambda>xs. xs ! i"] len by simp
    moreover have "\<forall>r. snd (se_meta e ! i) \<noteq> AnyRef r"
      using assms(2) i by (simp add: plain_event_def)
    ultimately show "fst (se_meta e ! i) = fst (m ! i)" "any_agree (snd (se_meta e ! i)) (snd (m ! i))"
      by (cases "m ! i"; auto intro: json_any_agree)+
  qed
  then show ?thesis
    by (cases "se_message e") (simp_all add: f event_agree_def json_message_def)
qed

lemma json_events_agree:
  assumes "json_events ref_json evs = Some fs" and "list_all plain_event evs"
  shows "list_all2 event_agree evs fs"
  using assms unfolding json_events_def those_Some
proof (induction evs arbitrary: fs)
  case (Cons e evs)
  then show ?case by (cases fs) (auto intro: json_event_agree)
qed simp

lemma bad_seq_agree: "list_all2 event_agree evs fs \<Longrightarrow> bad_seq k fs = bad_seq k evs"
  by (induction evs fs arbitrary: k rule: list_all2_induct) (auto simp: event_agree_def)

lemma fstore_Save_cases:
  obtains (refused) e where "fstore_Save ref_json (temp_name r) fault i evs st = (Some e, st)"
  | (failed) e where "fstore_Save ref_json (temp_name r) fault i evs st = (Some e, st(temp_name r := None))"
  | (saved) path data where
      "fstore_Save ref_json (temp_name r) fault i evs st = (None, st(path \<mapsto> Document data, temp_name r := None))"
      "fstore_path i = Inr path" "json_events ref_json evs = Some data"
proof (cases "fstore_path i")
  case (Inl err)
  then show ?thesis using refused by (simp add: fstore_Save_def)
next
  case path: (Inr path)
  show ?thesis
  proof (cases "json_events ref_json evs")
    case None
    then show ?thesis using path refused by (simp add: fstore_Save_def)
  next
    case (Some data)
    note upd = path_not_temp [OF path, of r] fun_upd_twist [of "temp_name r" path]
    show ?thesis
      using path Some refused failed saved upd
      by (cases fault rule: option.exhaust; cases "the fault")
        (simp_all add: fstore_Save_def Let_def fun_upd_twist)
  qed
qed

lemma fstore_Load_frame:
  assumes "\<And>path. fstore_path j = Inr path \<Longrightarrow> st' path = st path"
  shows "fstore_Load unreadable j st' = fstore_Load unreadable j st"
  using assms by (simp add: fstore_Load_def split: sum.splits)

interpretation disk: event_store "fstore_Save ref_json (temp_name r) fault" "fstore_Load False" "fstore_Delete refused"
  for ref_json r fault refused
proof
  fix i evs st st'
  assume save: "fstore_Save ref_json (temp_name r) fault i evs st = (None, st')"
    and seq: "bad_seq 0 evs = None" and plain: "list_all plain_event evs"
  from save show "\<exists>evs'. fstore_Load False i st' = Inr evs' \<and> list_all2 event_agree evs evs'"
  proof (cases rule: fstore_Save_cases [of ref_json r fault i evs st])
    case (saved path data)
    note agree = json_events_agree [OF saved(3) plain]
    have "fstore_Load False i st' = Inr data"
      using saved save bad_seq_agree [OF agree, of 0] seq path_not_temp [OF saved(2), of r]
      by (auto simp: fstore_Load_def)
    then show ?thesis using agree by blast
  qed simp_all
next
  fix i evs st e st' j
  assume "fstore_Save ref_json (temp_name r) fault i evs st = (Some e, st')"
  then show "fstore_Load False j st' = fstore_Load False j st"
    by (cases rule: fstore_Save_cases [of ref_json r fault i evs st])
      (auto intro!: fstore_Load_frame dest: path_not_temp)
next
  fix i evs st x st' j
  assume "fstore_Save ref_json (temp_name r) fault i evs st = (x, st')" and "j \<noteq> i"
  then show "fstore_Load False j st' = fstore_Load False j st"
    by (cases rule: fstore_Save_cases [of ref_json r fault i evs st])
      (auto intro!: fstore_Load_frame dest: path_not_temp path_inj)
next
  fix i st st'
  assume "fstore_Delete refused i st = (None, st')"
  then show "fstore_Load False i st' = Inl ErrNotFound"
    by (auto simp: fstore_Delete_def fstore_Load_def split: sum.splits option.splits if_splits)
next
  fix i st x st' j
  assume "fstore_Delete refused i st = (x, st')" and "j \<noteq> i"
  then show "fstore_Load False j st' = fstore_Load False j st"
    by (auto simp: fstore_Delete_def intro!: fstore_Load_frame dest: path_inj split: sum.splits option.splits if_splits)
qed

section \<open>The log-backed session service\<close>

datatype service_error = StoreFailed event_store_error | RestoreFailed session_error | ErrNotLogSession

definition svc_Create :: "string \<Rightarrow> int \<Rightarrow> string \<Rightarrow> (string \<times> go_any) list \<Rightarrow> log_session" where
  "svc_Create i now agentName meta =
     fold (\<lambda>kv s. ls_SetMeta now (fst kv) (snd kv) s) meta (NewLogSession i now agentName)"

definition svc_Get :: "(string \<Rightarrow> 'st \<Rightarrow> event_store_error + session_event list) \<Rightarrow> int \<Rightarrow> string \<Rightarrow> 'st \<Rightarrow>
    service_error + log_session" where
  "svc_Get load now i st =
     (case load i st of
        Inl err \<Rightarrow> Inl (StoreFailed err)
      | Inr evs \<Rightarrow>
          (case Restore evs (NewLog i) of
             (Some err, _) \<Rightarrow> Inl (RestoreFailed err)
           | (None, l) \<Rightarrow> Inr \<lparr>ls_id = i, ls_agentName = [], ls_createdAt = now, ls_log = l\<rparr>))"

definition svc_Save :: "(string \<Rightarrow> session_event list \<Rightarrow> 'st \<Rightarrow> event_store_error option \<times> 'st) \<Rightarrow> log_session option \<Rightarrow>
    'st \<Rightarrow> service_error option \<times> 'st" where
  "svc_Save save sess st =
     (case sess of
        None \<Rightarrow> (Some ErrNotLogSession, st)
      | Some ls \<Rightarrow> (let (r, st') = save (ls_id ls) (Events (ls_log ls)) st in (map_option StoreFailed r, st')))"

definition svc_Delete :: "(string \<Rightarrow> 'st \<Rightarrow> event_store_error option \<times> 'st) \<Rightarrow> string \<Rightarrow> 'st \<Rightarrow> service_error option \<times> 'st" where
  "svc_Delete delete i st = (let (r, st') = delete i st in (map_option StoreFailed r, st'))"

text \<open>\<open>List\<close> returns a session with a fresh, empty log for every identifier.\<close>

definition svc_List :: "int \<Rightarrow> event_store_error + string list \<Rightarrow> service_error + log_session list" where
  "svc_List now ids =
     (case ids of Inl err \<Rightarrow> Inl (StoreFailed err) | Inr xs \<Rightarrow> Inr (map (\<lambda>i. NewLogSession i now []) xs))"

subsection \<open>What a reload observes\<close>

lemma map_of_agree:
  assumes "list_all2 (\<lambda>x y. fst x = fst y \<and> any_agree (snd x) (snd y)) m n"
  shows "rel_option any_agree (map_of m k) (map_of n k)"
  using assms by (induction m n rule: list_all2_induct) (auto simp: split_beta)

lemma usage_value:
  "(case v of Some (AnyInt x) \<Rightarrow> x | Some (AnyFloat x) \<Rightarrow> int_of_float x | _ \<Rightarrow> t)
   = (case Option.bind v any_num of Some n \<Rightarrow> n | None \<Rightarrow> t)"
  by (cases v; cases "the v") auto

lemma status_value:
  "(case v of Some (AnyStr x) \<Rightarrow> x | _ \<Rightarrow> t) = (case Option.bind v any_str of Some n \<Rightarrow> n | None \<Rightarrow> t)"
  by (cases v; cases "the v") auto

lemma rel_option_agree:
  "rel_option any_agree u v \<Longrightarrow> Option.bind u any_num = Option.bind v any_num \<and> Option.bind u any_str = Option.bind v any_str"
  by (cases u; cases v) (auto simp: any_agree_def)

lemma fold_usage_agree:
  "list_all2 event_agree evs fs \<Longrightarrow> fold_usage fs t = fold_usage evs t"
proof (induction evs fs arbitrary: t rule: list_all2_induct)
  case (Cons e evs f fs)
  then have "rel_option any_agree (map_of (se_meta e) ''used_tokens'') (map_of (se_meta f) ''used_tokens'')"
    and "se_kind f = se_kind e" by (auto simp: event_agree_def intro: map_of_agree)
  then show ?case using Cons.IH rel_option_agree by (simp add: usage_value)
qed simp

lemma fold_meta_agree:
  assumes "list_all2 event_agree evs fs" and "rel_option any_agree (u k) (v k)"
  shows "rel_option any_agree (fold_meta evs u k) (fold_meta fs v k)"
  using assms
proof (induction evs fs arbitrary: u v rule: list_all2_induct)
  case (Cons e evs f fs)
  then have "rel_option any_agree (map_of (se_meta e) k) (map_of (se_meta f) k)"
    and "se_kind f = se_kind e" by (auto simp: event_agree_def intro: map_of_agree)
  moreover from this(1) Cons.prems
  have "rel_option any_agree ((u ++ map_of (se_meta e)) k) ((v ++ map_of (se_meta f)) k)"
    by (auto simp: map_add_def split: option.splits)
  ultimately show ?case using Cons by simp
qed simp

subsection \<open>Replaying the reloaded events\<close>

definition node_agree :: "surface_node \<Rightarrow> surface_node \<Rightarrow> bool" where
  "node_agree x y \<longleftrightarrow> sn_seq x = sn_seq y \<and> map_option json_message (sn_msg x) = map_option json_message (sn_msg y)"

lemma seq_index_agree: "list_all2 node_agree ns os \<Longrightarrow> seq_index q ns = seq_index q os"
  by (induction ns os rule: list_all2_induct) (auto simp: node_agree_def)

lemma takeWhile_agree:
  "list_all2 node_agree ns os \<Longrightarrow> length (takeWhile (in_range a b) ns) = length (takeWhile (in_range a b) os)"
  by (induction ns os rule: list_all2_induct) (auto simp: node_agree_def in_range_def)

lemma replace_agree:
  assumes "list_all2 node_agree ns os" and "node_agree r r'"
  shows "rel_sum (=) (list_all2 node_agree) (applyReplaceScratch ns a b r) (applyReplaceScratch os a b r')"
  using assms seq_index_agree [OF assms(1)] takeWhile_agree [OF list_all2_dropI [OF assms(1)]]
  by (auto simp: applyReplaceScratch_def Let_def split: option.splits
      intro!: list_all2_appendI list_all2_takeI list_all2_dropI)

lemma node_of_agree: "event_agree e f \<Longrightarrow> node_agree (node_of e) (node_of f)"
  by (simp add: node_agree_def node_of_def event_agree_def)

lemma rebuild_agree:
  assumes "list_all2 event_agree evs fs" and "list_all2 node_agree ns os"
  shows "rel_sum (=) (list_all2 node_agree) (rebuild ns evs) (rebuild os fs)"
  using assms
proof (induction evs fs arbitrary: ns os rule: list_all2_induct)
  case (Cons e evs f fs)
  note na = node_of_agree [OF Cons.hyps(1)]
  have ev: "se_surface f = se_surface e" "se_from f = se_from e" "se_to f = se_to e"
    using Cons.hyps(1) by (simp_all add: event_agree_def)
  show ?case
  proof (cases "se_surface e")
    case SurfaceReplace
    have "rel_sum (=) (list_all2 node_agree) (applyReplaceScratch ns (se_from e) (se_to e) (node_of e))
        (applyReplaceScratch os (se_from e) (se_to e) (node_of f))"
      by (rule replace_agree [OF Cons.prems na])
    then show ?thesis using SurfaceReplace ev Cons.IH
      by (auto elim!: rel_sum.cases)
  qed (use ev Cons na in \<open>auto intro!: Cons.IH list_all2_appendI\<close>)
qed simp

lemma derive_agree:
  "list_all2 node_agree ns os \<Longrightarrow>
     map json_message (List.map_filter sn_msg os) = map json_message (List.map_filter sn_msg ns)"
  by (induction ns os rule: list_all2_induct)
    (auto simp: node_agree_def List.map_filter_simps split: option.splits)

subsection \<open>Saving and getting\<close>

lemma log_inv_commit_ls: "log_inv (ls_log s) \<Longrightarrow> log_inv (ls_log (ls_commit e s))"
  by (simp add: ls_commit_def inv_intros)

lemma log_inv_add: "log_inv (ls_log s) \<Longrightarrow> log_inv (ls_log (ls_AddMessage now m s))"
  by (auto simp: ls_AddMessage_def intro: log_inv_commit_ls split: option.splits)

lemma log_inv_adds: "log_inv (ls_log s) \<Longrightarrow> log_inv (ls_log (ls_AddMessages now ms s))"
  unfolding ls_AddMessages_def by (induction ms arbitrary: s) (auto intro: log_inv_add)

lemma log_inv_ls_step:
  assumes "log_inv (ls_log s)" and "ls_step now p s = Some s'"
  shows "log_inv (ls_log s')"
  using assms
  by (cases p) (auto simp: ls_AddTokenUsage_def ls_SetMeta_def ls_SetAgentName_def ls_TrimMessages_def Let_def
      intro: log_inv_add log_inv_adds log_inv_commit_ls split: if_splits option.splits)

lemma log_inv_ls_run:
  assumes "ls_run now ops s = Some s'" and "log_inv (ls_log s)"
  shows "log_inv (ls_log s')"
  using assms
  by (induction now ops s rule: ls_run.induct) (auto simp: bind_eq_Some_conv intro: log_inv_ls_step)

definition reload_of :: "log_session \<Rightarrow> log_session \<Rightarrow> bool" where
  "reload_of s s' \<longleftrightarrow> ls_id s' = ls_id s \<and> ls_agentName s' = [] \<and>
     map json_message (ls_GetMessages s') = map json_message (ls_GetMessages s) \<and>
     ls_UsedTokens s' = ls_UsedTokens s \<and> ls_Status s' = ls_Status s"

context event_store
begin

lemma get_save:
  assumes "log_inv (ls_log s)" and "list_all plain_event (Events (ls_log s))"
    and "svc_Save save (Some s) st = (None, st')"
  shows "\<exists>s'. svc_Get load now (ls_id s) st' = Inr s' \<and> reload_of s s'"
proof -
  let ?evs = "sl_events (ls_log s)"
  have seq: "bad_seq 0 ?evs = None" and reb: "rebuild [] ?evs = Inr (sl_surface (ls_log s))"
    using assms(1) by (simp_all add: log_inv_def)
  have saved: "save (ls_id s) ?evs st = (None, st')"
    using assms(3) by (simp add: svc_Save_def Events_def split: prod.splits)
  then obtain evs' where load: "load (ls_id s) st' = Inr evs'" and agree: "list_all2 event_agree ?evs evs'"
    using load_save [OF saved seq] assms(2) by (auto simp: Events_def)
  have seq': "bad_seq 0 evs' = None" using bad_seq_agree [OF agree] seq by simp
  obtain ns where reb': "rebuild [] evs' = Inr ns" and ns: "list_all2 node_agree (sl_surface (ls_log s)) ns"
    using rebuild_agree [OF agree, of "[]" "[]"] reb by (auto elim: rel_sum.cases)
  let ?l = "(NewLog (ls_id s))\<lparr>sl_seq := int (length evs'), sl_events := evs', sl_surface := ns\<rparr>"
  have "Restore evs' (NewLog (ls_id s)) = (None, ?l)"
    using seq' reb' by (simp add: Restore_def NewLog_def)
  then have "svc_Get load now (ls_id s) st' =
      Inr \<lparr>ls_id = ls_id s, ls_agentName = [], ls_createdAt = now, ls_log = ?l\<rparr>"
    using load by (simp add: svc_Get_def)
  moreover have "rel_option any_agree (fold_meta ?evs Map.empty ''status'') (fold_meta evs' Map.empty ''status'')"
    by (rule fold_meta_agree [OF agree]) simp
  then have "ls_Status \<lparr>ls_id = ls_id s, ls_agentName = [], ls_createdAt = now, ls_log = ?l\<rparr> = ls_Status s"
    using rel_option_agree by (simp add: ls_Status_def status_value ls_Meta_def Events_def)
  ultimately show ?thesis
    using fold_usage_agree [OF agree] derive_agree [OF ns]
    by (simp add: reload_of_def ls_GetMessages_def DeriveMessages_def ls_UsedTokens_def Events_def)
qed

text \<open>A session taken from \<open>List\<close> is empty; saving it erases the history kept under its name.\<close>

lemma save_listed:
  assumes "svc_List now (Inr ids) = Inr ss" and "s \<in> set ss"
    and "svc_Save save (Some s) st = (None, st')"
  shows "\<exists>s'. svc_Get load now (ls_id s) st' = Inr s' \<and> ls_GetMessages s' = [] \<and> ls_UsedTokens s' = 0"
proof -
  obtain i where s: "s = NewLogSession i now []" using assms(1,2) by (auto simp: svc_List_def)
  have "log_inv (ls_log s)" "list_all plain_event (Events (ls_log s))"
    by (simp_all add: s NewLogSession_def log_inv_New Events_def) (simp add: NewLog_def)
  from get_save [OF this assms(3)] show ?thesis
    by (auto simp: reload_of_def s NewLogSession_def NewLog_def ls_observers List.map_filter_def)
qed

end

text \<open>
  C28. A log-backed session survives the file store.  When saving any reachable session succeeds,
  getting it back by its identifier succeeds, whatever other files the directory holds, and gives the
  same messages (an empty list of content parts counts as none), token counter and status; the agent
  name is not in the log and comes back empty.
\<close>

theorem log_session_file_roundtrip:
  assumes "ls_run now ops (NewLogSession i now a) = Some s"
    and "list_all plain_event (Events (ls_log s))"
    and "svc_Save (fstore_Save ref_json (temp_name r) fault) (Some s) st = (None, st')"
  shows "\<exists>s'. svc_Get (fstore_Load False) later (ls_id s) st' = Inr s' \<and> reload_of s s'"
proof (rule disk.get_save [OF _ assms(2,3)])
  show "log_inv (ls_log s)"
    using log_inv_ls_run [OF assms(1)] by (simp add: NewLogSession_def log_inv_New)
qed

theorem log_session_file_roundtrip_witness:
  "\<exists>s' st'. svc_Get (fstore_Load False) 9 ''s'' st' = Inr s' \<and>
     map json_message (ls_GetMessages s') = [NewUserMessage ''a''] \<and>
     ls_UsedTokens s' = 7 \<and> ls_Status s' = ''done'' \<and> ls_agentName s' = []"
proof -
  let ?ops = "[LsAdd (Some (NewUserMessage ''a'')), LsUsage 3, LsMeta ''status'' (AnyStr ''done''), LsUsage 4]"
  define s where "s = the (ls_run 0 ?ops (NewLogSession ''s'' 0 ''agent''))"
  have run: "ls_run 0 ?ops (NewLogSession ''s'' 0 ''agent'') = Some s"
    and plain: "list_all plain_event (Events (ls_log s))"
    and view: "ls_id s = ''s''" "ls_GetMessages s = [NewUserMessage ''a'']" "ls_UsedTokens s = 7" "ls_Status s = ''done''"
    by (simp_all add: s_def trim_eval ls_AddTokenUsage_def ls_observers List.map_filter_def plain_event_def)
  obtain st' where "svc_Save (fstore_Save (\<lambda>_. None) (temp_name ''1'') None) (Some s) Map.empty = (None, st')"
    by (simp add: s_def trim_eval ls_AddTokenUsage_def ls_observers svc_Save_def fstore_Save_def fstore_path_def
        json_events_def json_event_def json_meta_def)
  from log_session_file_roundtrip [OF run plain this, of 9]
  obtain s' where s': "svc_Get (fstore_Load False) 9 ''s'' st' = Inr s'" "reload_of s s'" by (auto simp: view)
  show ?thesis using s' view by (auto simp: reload_of_def json_message_def new_message_defs)
qed

end
