(* ===== verification/SessionService.thy ===== *)
theory SessionService
  imports SessionStore RuntimeHooks
begin

text \<open>
  The session services of \<open>module/session\<close> that hold \<open>sessionImpl\<close> objects, in memory
  (inmemory.go) and in files (filesystem.go), and the observer that records a finished run
  (observer.go).

  A client mutates the session it holds through its pointer, so sessions live in a heap and the
  services hold addresses; a step of a service runs under its mutex.  The world is the heap and the
  state of one service.  Identifiers and times are arguments.
\<close>

section \<open>Sessions as objects\<close>

record session_heap =
  sh_heap :: "nat \<Rightarrow> session_impl"
  sh_next :: nat

definition alloc :: "session_impl \<Rightarrow> ('a) session_heap_scheme \<Rightarrow> nat \<times> ('a) session_heap_scheme" where
  "alloc s w = (sh_next w, w\<lparr>sh_heap := (sh_heap w)(sh_next w := s), sh_next := Suc (sh_next w)\<rparr>)"

definition mutate :: "nat \<Rightarrow> (session_impl \<Rightarrow> session_impl) \<Rightarrow> ('a) session_heap_scheme \<Rightarrow> ('a) session_heap_scheme" where
  "mutate p f w = w\<lparr>sh_heap := (sh_heap w)(p := f (sh_heap w p))\<rparr>"

text \<open>The index of a service: the session identifiers of a user, in the order they were added.\<close>

type_synonym user_index = "(string \<times> string list) list"

definition idx_get :: "string \<Rightarrow> user_index \<Rightarrow> string list" where
  "idx_get u idx = (case map_of idx u of None \<Rightarrow> [] | Some ids \<Rightarrow> ids)"

definition idx_add :: "string \<Rightarrow> string \<Rightarrow> user_index \<Rightarrow> user_index" where
  "idx_add u i idx = AList.update u (idx_get u idx @ [i]) idx"

definition idx_remove :: "string \<Rightarrow> user_index \<Rightarrow> user_index" where
  "idx_remove i idx = map (\<lambda>(u, ids). (u, filter (\<lambda>j. j \<noteq> i) ids)) idx"

section \<open>In memory\<close>

record ims_service = session_heap +
  sm_sessions :: "string \<rightharpoonup> nat"
  sm_userIdx :: user_index

definition NewInMemorySessionService :: ims_service where
  "NewInMemorySessionService =
     \<lparr>sh_heap = (\<lambda>_. NewSession [] 0 []), sh_next = 0, sm_sessions = Map.empty, sm_userIdx = []\<rparr>"

definition ims_Create :: "string \<Rightarrow> int \<Rightarrow> string \<Rightarrow> string \<Rightarrow> (string \<times> go_any) list \<Rightarrow> ims_service \<Rightarrow> nat \<times> ims_service" where
  "ims_Create i now agentName userID meta w =
     (let sess = (NewSession i now agentName)\<lparr>sim_status := [],
                    sim_meta := AList.update ''user_id'' (AnyStr userID) meta\<rparr>;
          (p, w1) = alloc sess w
      in (p, w1\<lparr>sm_sessions := (sm_sessions w1)(i \<mapsto> p), sm_userIdx := idx_add userID i (sm_userIdx w1)\<rparr>))"

definition ims_Get :: "string \<Rightarrow> ims_service \<Rightarrow> nat option \<times> ims_service" where
  "ims_Get i w =
     (case sm_sessions w i of
        None \<Rightarrow> (None, w)
      | Some q \<Rightarrow> (let (p, w1) = alloc (sh_heap w q) w in (Some p, w1)))"

definition ims_Save :: "nat \<Rightarrow> ims_service \<Rightarrow> ims_service" where
  "ims_Save p w = w\<lparr>sm_sessions := (sm_sessions w)(sim_id (sh_heap w p) \<mapsto> p)\<rparr>"

definition ims_Delete :: "string \<Rightarrow> ims_service \<Rightarrow> ims_service" where
  "ims_Delete i w = w\<lparr>sm_sessions := (sm_sessions w)(i := None), sm_userIdx := idx_remove i (sm_userIdx w)\<rparr>"

fun ims_copies :: "string list \<Rightarrow> ims_service \<Rightarrow> nat list \<times> ims_service" where
  "ims_copies [] w = ([], w)"
| "ims_copies (i # is) w =
     (case ims_Get i w of
        (None, _) \<Rightarrow> ims_copies is w
      | (Some p, w1) \<Rightarrow> (let (ps, w2) = ims_copies is w1 in (p # ps, w2)))"

definition ims_List :: "string \<Rightarrow> ims_service \<Rightarrow> nat list \<times> ims_service" where
  "ims_List userID w = ims_copies (idx_get userID (sm_userIdx w)) w"

text \<open>What the service holds under an identifier.\<close>

definition ims_stored :: "string \<Rightarrow> ims_service \<Rightarrow> session_impl option" where
  "ims_stored i w = map_option (sh_heap w) (sm_sessions w i)"

definition ims_wf :: "ims_service \<Rightarrow> bool" where
  "ims_wf w \<longleftrightarrow> (\<forall>i p. sm_sessions w i = Some p \<longrightarrow> p < sh_next w)"

lemma ims_wf_new [inv_intros]: "ims_wf NewInMemorySessionService"
  by (simp add: ims_wf_def NewInMemorySessionService_def)

lemma ims_wf_Create [inv_intros]: "ims_wf w \<Longrightarrow> ims_wf (snd (ims_Create i now a u meta w))"
  by (auto simp: ims_wf_def ims_Create_def alloc_def Let_def less_Suc_eq)

lemma ims_wf_Get [inv_intros]: "ims_wf w \<Longrightarrow> ims_wf (snd (ims_Get i w))"
  by (auto simp: ims_wf_def ims_Get_def alloc_def less_Suc_eq split: option.splits)

lemma ims_wf_Save [inv_intros]: "\<lbrakk>ims_wf w; p < sh_next w\<rbrakk> \<Longrightarrow> ims_wf (ims_Save p w)"
  by (simp add: ims_wf_def ims_Save_def)

lemma ims_wf_Delete [inv_intros]: "ims_wf w \<Longrightarrow> ims_wf (ims_Delete i w)"
  by (simp add: ims_wf_def ims_Delete_def)

lemma ims_wf_mutate [inv_intros]: "ims_wf w \<Longrightarrow> ims_wf (mutate p f w)"
  by (simp add: ims_wf_def mutate_def)

text \<open>A session obtained with \<open>Get\<close> is private until it is saved.\<close>

lemma ims_Get_spec:
  assumes "ims_wf w" and "ims_Get i w = (Some p, w1)"
  shows "p = sh_next w" and "ims_stored i w = Some (sh_heap w1 p)" and "sh_next w1 = Suc p"
    and "ims_stored j (mutate p f w1) = ims_stored j w"
proof -
  obtain q where q: "sm_sessions w i = Some q"
    using assms(2) by (cases "sm_sessions w i") (simp_all add: ims_Get_def)
  then have w1: "w1 = w\<lparr>sh_heap := (sh_heap w)(sh_next w := sh_heap w q), sh_next := Suc (sh_next w)\<rparr>"
      "p = sh_next w"
    using assms(2) by (auto simp: ims_Get_def alloc_def)
  have "sm_sessions w j \<noteq> Some (sh_next w)"
    using assms(1) by (auto simp: ims_wf_def)
  then show "ims_stored j (mutate p f w1) = ims_stored j w"
    by (cases "sm_sessions w j") (simp_all add: ims_stored_def mutate_def w1)
  show "p = sh_next w" "ims_stored i w = Some (sh_heap w1 p)" "sh_next w1 = Suc p"
    using q by (simp_all add: ims_stored_def w1)
qed

section \<open>In files\<close>

record message_file =
  mf_role :: string
  mf_content :: string
  mf_toolCalls :: "tool_call list"
  mf_toolCallID :: string

record session_file =
  sf_id :: string
  sf_agentName :: string
  sf_status :: string
  sf_createdAt :: int
  sf_meta :: "(string \<times> go_any) list"
  sf_usedTokens :: int
  sf_messages :: "message_file list"
  sf_userID :: string

definition message_to_file :: "message \<Rightarrow> message_file" where
  "message_to_file m = \<lparr>mf_role = msg_role m, mf_content = msg_content m,
                        mf_toolCalls = msg_toolCalls m, mf_toolCallID = msg_toolCallID m\<rparr>"

definition file_to_message :: "message_file \<Rightarrow> message" where
  "file_to_message mf = (blank_message (mf_role mf) (mf_content mf))
      \<lparr>msg_toolCalls := mf_toolCalls mf, msg_toolCallID := mf_toolCallID mf\<rparr>"

text \<open>A nil message makes the conversion panic (\<open>None\<close>).\<close>

definition sessionToFile :: "session_impl \<Rightarrow> string \<Rightarrow> session_file option" where
  "sessionToFile s userID =
     map_option (\<lambda>ms. \<lparr>sf_id = sim_id s, sf_agentName = sim_agentName s, sf_status = sim_status s,
         sf_createdAt = sim_createdAt s, sf_meta = sim_meta s, sf_usedTokens = sim_usedTokens s, sf_messages = ms,
         sf_userID = (case map_of (sim_meta s) ''user_id'' of
                        None \<Rightarrow> userID | Some (AnyStr u) \<Rightarrow> u | Some _ \<Rightarrow> [])\<rparr>)
       (those (map (map_option message_to_file) (sim_GetMessages s)))"

definition fileToSession :: "session_file \<Rightarrow> session_impl" where
  "fileToSession sf =
     \<lparr>sim_id = sf_id sf, sim_messages = map (Some \<circ> file_to_message) (sf_messages sf),
      sim_usedTokens = sf_usedTokens sf, sim_agentName = sf_agentName sf, sim_status = sf_status sf,
      sim_createdAt = sf_createdAt sf, sim_meta = AList.update ''user_id'' (AnyStr (sf_userID sf)) (sf_meta sf)\<rparr>"

text \<open>A file holds a session, the index, or bytes that are neither.  Read as a session, the index has
  none of the fields and gives the zero value; read as an index, a session has no index.\<close>

datatype session_doc = SessionDoc session_file | IndexDoc user_index | OtherDoc

definition zero_session_file :: session_file where
  "zero_session_file = \<lparr>sf_id = [], sf_agentName = [], sf_status = [], sf_createdAt = 0, sf_meta = [],
                        sf_usedTokens = 0, sf_messages = [], sf_userID = []\<rparr>"

fun read_session :: "session_doc \<Rightarrow> session_file option" where
  "read_session (SessionDoc sf) = Some sf"
| "read_session (IndexDoc idx) = Some zero_session_file"
| "read_session OtherDoc = None"

definition json_session :: "(nat \<Rightarrow> go_any option) \<Rightarrow> session_file \<Rightarrow> session_doc option" where
  "json_session ref_json sf = map_option (\<lambda>m. SessionDoc (sf\<lparr>sf_meta := m\<rparr>)) (json_meta ref_json (sf_meta sf))"

record file_service = session_heap +
  fsv_files :: "string \<rightharpoonup> session_doc"
  fsv_userIdx :: user_index
  fsv_loaded :: bool
  fsv_cache :: "string \<rightharpoonup> nat"

datatype file_service_error =
    ErrEmptySessionID | ErrInvalidID string | ErrMarshalSession | ErrWriteSession | ErrReadSession
  | ErrUnmarshalSession | ErrDeleteSession

text \<open>A write that fails leaves something else at the path (\<open>WriteFailed\<close>), since the file is
  truncated first.\<close>

datatype write_io = WriteOk | WriteFailed "session_doc option"

definition write_file :: "write_io \<Rightarrow> string \<Rightarrow> session_doc \<Rightarrow> file_service \<Rightarrow> bool \<times> file_service" where
  "write_file wio path d w =
     (case wio of
        WriteOk \<Rightarrow> (True, w\<lparr>fsv_files := (fsv_files w)(path \<mapsto> d)\<rparr>)
      | WriteFailed left \<Rightarrow> (False, w\<lparr>fsv_files := (fsv_files w)(path := left)\<rparr>))"

definition sessionPath :: "string \<Rightarrow> string" where
  "sessionPath i = i @ ''.json''"

definition indexPath :: string where
  "indexPath = ''_index.json''"

definition validateSessionID :: "string \<Rightarrow> file_service_error option" where
  "validateSessionID i =
     (if i = [] then Some ErrEmptySessionID
      else if i = ''.'' \<or> i = ''..'' \<or> CHR ''/'' \<in> set i \<or> CHR 92 \<in> set i \<or> hd i = CHR ''.'' then Some (ErrInvalidID i)
      else None)"

definition ensureIndexLoaded :: "file_service \<Rightarrow> file_service" where
  "ensureIndexLoaded w =
     (if fsv_loaded w then w
      else (case fsv_files w indexPath of
              None \<Rightarrow> w\<lparr>fsv_loaded := True\<rparr>
            | Some (IndexDoc idx) \<Rightarrow> w\<lparr>fsv_userIdx := idx, fsv_loaded := True\<rparr>
            | Some (SessionDoc _) \<Rightarrow> w\<lparr>fsv_userIdx := [], fsv_loaded := True\<rparr>
            | Some OtherDoc \<Rightarrow> w\<lparr>fsv_loaded := True\<rparr>))"

definition saveIndex :: "write_io \<Rightarrow> file_service \<Rightarrow> file_service" where
  "saveIndex wio w = snd (write_file wio indexPath (IndexDoc (fsv_userIdx w)) w)"

definition fsv_Create :: "(nat \<Rightarrow> go_any option) \<Rightarrow> write_io \<Rightarrow> write_io \<Rightarrow> string \<Rightarrow> int \<Rightarrow> string \<Rightarrow> string \<Rightarrow>
    (string \<times> go_any) list \<Rightarrow> file_service \<Rightarrow> (file_service_error + nat) \<times> file_service" where
  "fsv_Create ref_json wio iio i now agentName userID meta w0 =
     (let w = ensureIndexLoaded w0;
          sess = (NewSession i now agentName)\<lparr>sim_meta := AList.update ''user_id'' (AnyStr userID) meta\<rparr>
      in case Option.bind (sessionToFile sess userID) (json_session ref_json) of
           None \<Rightarrow> (Inl ErrMarshalSession, w)
         | Some d \<Rightarrow>
             (case write_file wio (sessionPath i) d w of
                (False, w1) \<Rightarrow> (Inl ErrWriteSession, w1)
              | (True, w1) \<Rightarrow>
                 (let w2 = saveIndex iio (w1\<lparr>fsv_userIdx := idx_add userID i (fsv_userIdx w1)\<rparr>);
                      (p, w3) = alloc sess w2
                  in (Inr p, w3\<lparr>fsv_cache := (fsv_cache w3)(i \<mapsto> p)\<rparr>))))"

text \<open>\<open>readable\<close> is false when reading an existing file fails.\<close>

definition fsv_Get :: "bool \<Rightarrow> string \<Rightarrow> file_service \<Rightarrow> (file_service_error + nat option) \<times> file_service" where
  "fsv_Get readable i w =
     (case validateSessionID i of
        Some err \<Rightarrow> (Inl err, w)
      | None \<Rightarrow>
          (case fsv_cache w i of
             Some p \<Rightarrow> (Inr (Some p), w)
           | None \<Rightarrow>
              (case fsv_files w (sessionPath i) of
                 None \<Rightarrow> (Inr None, w)
               | Some d \<Rightarrow>
                   if \<not> readable then (Inl ErrReadSession, w)
                   else (case read_session d of
                       None \<Rightarrow> (Inl ErrUnmarshalSession, w)
                     | Some sf \<Rightarrow>
                         (let (p, w1) = alloc (fileToSession sf) w
                          in (Inr (Some p), w1\<lparr>fsv_cache := (fsv_cache w1)(i \<mapsto> p)\<rparr>))))))"

text \<open>\<open>None\<close> is the panic on a nil message.\<close>

definition fsv_Save :: "(nat \<Rightarrow> go_any option) \<Rightarrow> write_io \<Rightarrow> write_io \<Rightarrow> nat \<Rightarrow> file_service \<Rightarrow>
    (file_service_error option \<times> file_service) option" where
  "fsv_Save ref_json wio iio p w0 =
     (let w = ensureIndexLoaded w0; s = sh_heap w p
      in case validateSessionID (sim_id s) of
           Some err \<Rightarrow> Some (Some err, w)
         | None \<Rightarrow>
            (let userID = (case map_of (sim_meta s) ''user_id'' of Some (AnyStr u) \<Rightarrow> u | _ \<Rightarrow> [])
             in case sessionToFile s userID of
                  None \<Rightarrow> None
                | Some sf \<Rightarrow>
                    (case json_session ref_json sf of
                       None \<Rightarrow> Some (Some ErrMarshalSession, w)
                     | Some d \<Rightarrow>
                         (case write_file wio (sessionPath (sim_id s)) d w of
                            (False, w1) \<Rightarrow> Some (Some ErrWriteSession, w1)
                          | (True, w1) \<Rightarrow>
                             (let w2 = w1\<lparr>fsv_cache := (fsv_cache w1)(sim_id s \<mapsto> p)\<rparr>
                              in Some (None,
                                   if sim_id s \<in> set (idx_get userID (fsv_userIdx w2)) then w2
                                   else saveIndex iio (w2\<lparr>fsv_userIdx := idx_add userID (sim_id s) (fsv_userIdx w2)\<rparr>)))))))"

definition fsv_Delete :: "bool \<Rightarrow> write_io \<Rightarrow> string \<Rightarrow> file_service \<Rightarrow> file_service_error option \<times> file_service" where
  "fsv_Delete refused iio i w0 =
     (let w = ensureIndexLoaded w0
      in case validateSessionID i of
           Some err \<Rightarrow> (Some err, w)
         | None \<Rightarrow>
             if refused \<and> fsv_files w (sessionPath i) \<noteq> None then (Some ErrDeleteSession, w)
             else (None, saveIndex iio (w\<lparr>fsv_files := (fsv_files w)(sessionPath i := None),
                      fsv_cache := (fsv_cache w)(i := None), fsv_userIdx := idx_remove i (fsv_userIdx w)\<rparr>)))"

text \<open>\<open>List\<close> skips the files it cannot read or decode.\<close>

fun fsv_collect :: "(string \<Rightarrow> bool) \<Rightarrow> string list \<Rightarrow> file_service \<Rightarrow> nat list \<times> file_service" where
  "fsv_collect readable [] w = ([], w)"
| "fsv_collect readable (i # is) w =
     (case fsv_cache w i of
        Some p \<Rightarrow> (let (ps, w1) = fsv_collect readable is w in (p # ps, w1))
      | None \<Rightarrow>
          (case (if readable i then Option.bind (fsv_files w (sessionPath i)) read_session else None) of
             None \<Rightarrow> fsv_collect readable is w
           | Some sf \<Rightarrow>
              (let (p, w1) = alloc (fileToSession sf) w;
                   (ps, w2) = fsv_collect readable is (w1\<lparr>fsv_cache := (fsv_cache w1)(i \<mapsto> p)\<rparr>)
               in (p # ps, w2))))"

definition fsv_List :: "(string \<Rightarrow> bool) \<Rightarrow> string \<Rightarrow> file_service \<Rightarrow> nat list \<times> file_service" where
  "fsv_List readable userID w0 =
     (let w = ensureIndexLoaded w0 in fsv_collect readable (idx_get userID (fsv_userIdx w)) w)"

text \<open>A new process over the same directory.\<close>

definition fsv_restart :: "file_service \<Rightarrow> file_service" where
  "fsv_restart w = w\<lparr>fsv_userIdx := [], fsv_loaded := False, fsv_cache := Map.empty\<rparr>"

subsection \<open>Saving, restarting and getting\<close>

definition stored_message :: "message \<Rightarrow> message" where
  "stored_message m = file_to_message (message_to_file m)"

lemma stored_message_eq:
  "stored_message m = m\<lparr>msg_parts := None, msg_reasoning := [], msg_toolName := []\<rparr>"
  by (simp add: stored_message_def file_to_message_def message_to_file_def blank_message_def)

lemma those_conv: "those xs = Some ys \<longleftrightarrow> xs = map Some ys"
  by (rule those_Some)

lemma sessionToFile_messages:
  assumes "sessionToFile s u = Some sf"
  shows "map (Some \<circ> file_to_message) (sf_messages sf) = map (map_option stored_message) (sim_messages s)"
proof -
  have "map (map_option message_to_file) (sim_messages s) = map Some (sf_messages sf)"
    using assms by (auto simp: sessionToFile_def those_conv sim_GetMessages_def)
  from arg_cong [OF this, of "map (map_option file_to_message)"]
  show ?thesis by (simp add: comp_def option.map_comp stored_message_def [abs_def])
qed

lemma index_not_session: "i \<noteq> ''_index'' \<Longrightarrow> indexPath \<noteq> sessionPath i"
proof
  assume "i \<noteq> ''_index''" and "indexPath = sessionPath i"
  then have "''_index'' @ ''.json'' = i @ ''.json''" by (simp add: indexPath_def sessionPath_def)
  then have "''_index'' = i" by (simp only: append_same_eq)
  then show False using \<open>i \<noteq> ''_index''\<close> by simp
qed

lemma saveIndex_files: "path \<noteq> indexPath \<Longrightarrow> fsv_files (saveIndex iio w) path = fsv_files w path"
  by (cases iio) (simp_all add: saveIndex_def write_file_def)

lemma ensureIndexLoaded_frame [frame_simps]:
  "sh_heap (ensureIndexLoaded w) = sh_heap w" "fsv_files (ensureIndexLoaded w) = fsv_files w"
  by (simp_all add: ensureIndexLoaded_def split: option.splits session_doc.splits)

lemma fsv_Save_file:
  assumes "fsv_Save ref_json WriteOk iio p w = Some (None, w')" and "sim_id (sh_heap w p) \<noteq> ''_index''"
  obtains sf m u where "sessionToFile (sh_heap w p) u = Some sf"
    "fsv_files w' (sessionPath (sim_id (sh_heap w p))) = Some (SessionDoc (sf\<lparr>sf_meta := m\<rparr>))"
    "validateSessionID (sim_id (sh_heap w p)) = None"
proof -
  let ?s = "sh_heap w p"
  let ?u = "case map_of (sim_meta ?s) ''user_id'' of Some (AnyStr u) \<Rightarrow> u | _ \<Rightarrow> []"
  note path = index_not_session [OF assms(2), symmetric]
  have valid: "validateSessionID (sim_id ?s) = None"
    using assms(1) by (simp add: fsv_Save_def Let_def frame_simps split: option.splits)
  obtain sf where sf: "sessionToFile ?s ?u = Some sf"
    using assms(1) valid by (simp add: fsv_Save_def Let_def frame_simps split: option.splits)
  obtain m where m: "json_session ref_json sf = Some (SessionDoc (sf\<lparr>sf_meta := m\<rparr>))"
    using assms(1) valid sf
    by (simp add: fsv_Save_def Let_def frame_simps json_session_def split: option.splits)
  have "fsv_files w' (sessionPath (sim_id ?s)) = Some (SessionDoc (sf\<lparr>sf_meta := m\<rparr>))"
    using assms(1) valid sf m path
    by (auto simp: fsv_Save_def Let_def frame_simps write_file_def saveIndex_files split: if_splits)
  then show thesis using that sf valid by blast
qed

text \<open>
  What the file service keeps of a session.  After a successful save of a session whose
  identifier is not that of the index file, a new process gets a session with the same identifier,
  agent name, status, creation time and token counter, and the same messages without their content
  parts, reasoning and tool names, which the file format does not hold.
\<close>

theorem file_service_roundtrip:
  assumes "fsv_Save ref_json WriteOk iio p w = Some (None, w')"
    and "s = sh_heap w p" and "sim_id s \<noteq> ''_index''"
  shows "\<exists>q w'' t. fsv_Get True (sim_id s) (fsv_restart w') = (Inr (Some q), w'') \<and> sh_heap w'' q = t
       \<and> sim_id t = sim_id s \<and> sim_agentName t = sim_agentName s \<and> sim_status t = sim_status s
       \<and> sim_createdAt t = sim_createdAt s \<and> sim_usedTokens t = sim_usedTokens s
       \<and> sim_messages t = map (map_option (\<lambda>m. m\<lparr>msg_parts := None, msg_reasoning := [], msg_toolName := []\<rparr>))
           (sim_messages s)"
proof -
  obtain sf m u where sf: "sessionToFile s u = Some sf"
    and doc: "fsv_files w' (sessionPath (sim_id s)) = Some (SessionDoc (sf\<lparr>sf_meta := m\<rparr>))"
    and valid: "validateSessionID (sim_id s) = None"
    using fsv_Save_file [OF assms(1)] assms(2,3) by metis
  have "sf_id sf = sim_id s" "sf_agentName sf = sim_agentName s" "sf_status sf = sim_status s"
    "sf_createdAt sf = sim_createdAt s" "sf_usedTokens sf = sim_usedTokens s"
    using sf by (auto simp: sessionToFile_def)
  then show ?thesis
    using doc valid sessionToFile_messages [OF sf]
    by (simp add: fsv_Get_def fsv_restart_def alloc_def fileToSession_def stored_message_eq [abs_def])
qed

theorem file_service_roundtrip_witness:
  "\<exists>w' q w''. fsv_Get True ''s1'' (fsv_restart w') = (Inr (Some q), w'') \<and>
     sim_messages (sh_heap w'' q) = [Some (NewToolMessage ''out'' ''c1'' [])]"
proof -
  define s where "s = sim_AddMessage (Some (NewToolMessage ''out'' ''c1'' ''grep'')) (NewSession ''s1'' 0 ''a'')"
  define w where "w = \<lparr>sh_heap = (\<lambda>_. s), sh_next = 1, fsv_files = Map.empty, fsv_userIdx = [], fsv_loaded = True,
      fsv_cache = Map.empty\<rparr>"
  have s: "s = sh_heap w 0" "sim_id s \<noteq> ''_index''" "sim_id s = ''s1''"
    by (simp_all add: w_def s_def sim_AddMessage_def NewSession_def)
  have "\<exists>w'. fsv_Save (\<lambda>_. None) WriteOk WriteOk 0 w = Some (None, w')"
    by (simp add: fsv_Save_def w_def s_def sim_AddMessage_def NewSession_def Let_def ensureIndexLoaded_def
        validateSessionID_def sessionToFile_def sim_GetMessages_def json_session_def json_meta_def write_file_def)
  then obtain w' where "fsv_Save (\<lambda>_. None) WriteOk WriteOk 0 w = Some (None, w')" ..
  from file_service_roundtrip [OF this s(1,2)] show ?thesis
    by (auto simp: s(3)) (auto simp: s_def sim_AddMessage_def NewSession_def new_message_defs)
qed

text \<open>The identifier \<open>_index\<close> is accepted and names the index file.\<close>

lemma index_is_a_session_id:
  assumes "fsv_cache w ''_index'' = None" and "fsv_files w indexPath = Some (IndexDoc idx)"
  shows "\<exists>p w'. fsv_Get True ''_index'' w = (Inr (Some p), w') \<and> sim_id (sh_heap w' p) = []"
    and "\<exists>w'. fsv_Delete False (WriteFailed None) ''_index'' w = (None, w') \<and> fsv_files w' indexPath = None"
  using assms
  by (simp_all add: fsv_Get_def fsv_Delete_def validateSessionID_def sessionPath_def indexPath_def alloc_def
      fileToSession_def zero_session_file_def Let_def frame_simps saveIndex_def write_file_def)

section \<open>The session observer\<close>

definition session_id_of :: "run_info \<Rightarrow> string" where
  "session_id_of info =
     (case ri_input info of
        None \<Rightarrow> []
      | Some inp \<Rightarrow> (case map_of (ai_meta inp) ''session_id'' of Some (AnyStr sid) \<Rightarrow> sid | _ \<Rightarrow> []))"

text \<open>The service and the session operations are those of the interfaces; an object is an address.\<close>

record 'w session_svc =
  svc_get :: "string \<Rightarrow> 'w \<Rightarrow> (file_service_error + nat option) \<times> 'w"
  svc_create :: "string \<Rightarrow> 'w \<Rightarrow> (file_service_error + nat option) \<times> 'w"
  svc_save :: "nat \<Rightarrow> 'w \<Rightarrow> 'w"
  svc_setStatus :: "nat \<Rightarrow> string \<Rightarrow> 'w \<Rightarrow> 'w"
  svc_addMessages :: "nat \<Rightarrow> messages \<Rightarrow> 'w \<Rightarrow> 'w"
  svc_addUsage :: "nat \<Rightarrow> int \<Rightarrow> 'w \<Rightarrow> 'w"

definition load_or_create :: "'w session_svc \<Rightarrow> run_info \<Rightarrow> 'w \<Rightarrow> nat option \<times> 'w" where
  "load_or_create svc info w =
     (let sid = session_id_of info;
          (loaded, w1) = (if sid \<noteq> [] then svc_get svc sid w else (Inr None, w))
      in case loaded of
           Inr (Some p) \<Rightarrow> (Some p, w1)
         | _ \<Rightarrow> (case svc_create svc (ri_agentName info) w1 of
                   (Inr (Some p), w2) \<Rightarrow> (Some p, w2)
                 | (_, w2) \<Rightarrow> (None, w2)))"

definition OnRunComplete :: "'w session_svc option \<Rightarrow> run_info \<Rightarrow> 'w \<Rightarrow> 'w" where
  "OnRunComplete osvc info w =
     (case osvc of
        None \<Rightarrow> w
      | Some svc \<Rightarrow>
          (case load_or_create svc info w of
             (None, w1) \<Rightarrow> w1
           | (Some p, w1) \<Rightarrow>
               (let w2 = svc_setStatus svc p (if ri_err info \<noteq> None then ''error'' else ''completed'') w1;
                    n = (case ri_input info of None \<Rightarrow> 0 | Some inp \<Rightarrow> length (ai_messages inp));
                    w3 = (if n < length (ri_allMsgs info) then svc_addMessages svc p (drop n (ri_allMsgs info)) w2
                          else w2);
                    w4 = (case Option.bind (ri_result info) rs_usage of
                            None \<Rightarrow> w3 | Some u \<Rightarrow> svc_addUsage svc p (TotalTokens u) w3)
                in svc_save svc p w4)))"

text \<open>The in-memory service as such a record; a new session takes the identifier \<open>i\<close>.\<close>

definition ims_svc :: "string \<Rightarrow> int \<Rightarrow> ims_service session_svc" where
  "ims_svc i now =
     \<lparr>svc_get = (\<lambda>sid w. let (r, w1) = ims_Get sid w in (Inr r, w1)),
      svc_create = (\<lambda>agent w. let (p, w1) = ims_Create i now agent [] [] w in (Inr (Some p), w1)),
      svc_save = ims_Save,
      svc_setStatus = (\<lambda>p st. mutate p (sim_SetStatus st)),
      svc_addMessages = (\<lambda>p ms. mutate p (sim_AddMessages ms)),
      svc_addUsage = (\<lambda>p n. mutate p (sim_AddTokenUsage n))\<rparr>"

definition recorded_run :: "run_info \<Rightarrow> session_impl \<Rightarrow> session_impl" where
  "recorded_run info s =
     s\<lparr>sim_status := (if ri_err info \<noteq> None then ''error'' else ''completed''),
       sim_messages := sim_messages s @
         drop (case ri_input info of None \<Rightarrow> 0 | Some inp \<Rightarrow> length (ai_messages inp)) (ri_allMsgs info),
       sim_usedTokens := sim_usedTokens s +
         (case Option.bind (ri_result info) rs_usage of None \<Rightarrow> 0 | Some u \<Rightarrow> TotalTokens u)\<rparr>"

text \<open>
  A finished run is recorded exactly once, on the run's own session.  When the session named by
  the run's input is in the in-memory service, the observer leaves it with the run's status, the
  messages the run added behind the old ones and its token usage added; every other session is
  unchanged.
\<close>

theorem observer_records_run:
  assumes "ims_wf w" and "session_id_of info = sid" and "sid \<noteq> []"
    and "ims_stored sid w = Some s" and "sim_id s = sid"
  shows "ims_stored sid (OnRunComplete (Some (ims_svc i now)) info w) = Some (recorded_run info s)
       \<and> (\<forall>j. j \<noteq> sid \<longrightarrow> ims_stored j (OnRunComplete (Some (ims_svc i now)) info w) = ims_stored j w)"
proof -
  obtain q where q: "sm_sessions w sid = Some q" "sh_heap w q = s"
    using assms(4) by (auto simp: ims_stored_def)
  let ?p = "sh_next w"
  let ?w1 = "w\<lparr>sh_heap := (sh_heap w)(?p := s), sh_next := Suc ?p\<rparr>"
  have load: "load_or_create (ims_svc i now) info w = (Some ?p, ?w1)"
    using assms(2,3) q by (simp add: load_or_create_def ims_svc_def ims_Get_def alloc_def)
  have run: "OnRunComplete (Some (ims_svc i now)) info w =
      w\<lparr>sh_heap := (sh_heap w)(?p := recorded_run info s), sh_next := Suc ?p,
        sm_sessions := (sm_sessions w)(sid \<mapsto> ?p)\<rparr>"
    using load assms(5)
    by (auto simp: OnRunComplete_def ims_svc_def mutate_def ims_Save_def recorded_run_def Let_def
        sim_SetStatus_def sim_AddMessages_def sim_AddTokenUsage_def split: option.splits)
  have old: "sm_sessions w j \<noteq> Some ?p" for j
    using assms(1) by (auto simp: ims_wf_def)
  show ?thesis
    using old by (auto simp: run ims_stored_def map_option_case split: option.splits)
qed

theorem observer_records_run_witness:
  "\<exists>w. map_option sim_messages (ims_stored ''s1'' w) = Some (map Some [NewUserMessage ''q'', NewAssistantMessage ''a'']) \<and>
     map_option sim_status (ims_stored ''s1'' w) = Some ''completed''"
proof -
  let ?s = "sim_AddMessage (Some (NewUserMessage ''q'')) (NewSession ''s1'' 0 ''agent'')"
  define w where "w = \<lparr>sh_heap = (\<lambda>_. ?s), sh_next = 1, sm_sessions = [''s1'' \<mapsto> 0], sm_userIdx = []\<rparr>"
  define inp where "inp = \<lparr>ai_messages = [Some (NewUserMessage ''q'')], ai_systemPrompt = [], ai_enableStreaming = False,
      ai_maxSteps = 1, ai_meta = [(''session_id'', AnyStr ''s1'')], ai_streamSender = False\<rparr>"
  define info where "info = \<lparr>ri_invocationID = [], ri_agentName = ''agent'', ri_input = Some inp,
      ri_allMsgs = map Some [NewUserMessage ''q'', NewAssistantMessage ''a''], ri_result = None, ri_err = None,
      ri_checkpointID = []\<rparr>"
  have "ims_wf w" "session_id_of info = ''s1''" "ims_stored ''s1'' w = Some ?s" "sim_id ?s = ''s1''"
    by (simp_all add: w_def info_def inp_def session_id_of_def ims_wf_def ims_stored_def sim_AddMessage_def NewSession_def)
  from observer_records_run [OF this(1,2) _ this(3,4), of "[]" 0]
  have "ims_stored ''s1'' (OnRunComplete (Some (ims_svc [] 0)) info w) = Some (recorded_run info ?s)" by simp
  then show ?thesis
    by (intro exI [of _ "OnRunComplete (Some (ims_svc [] 0)) info w"])
      (simp add: recorded_run_def info_def inp_def sim_AddMessage_def NewSession_def)
qed

end
