(* ===== verification/Permission.thy ===== *)
theory Permission
  imports RunBounds
begin

text \<open>
  The permission module (\<open>module/permission\<close>) and the approval vocabulary it consumes
  (\<open>core/kernel/permission.go\<close>): the tool-call hook that confines write calls to the file policy,
  passes every call through the approval policy and escalates to the host, and the preset table.

  The policies decide from the world without changing it; asking the host and firing a decision hook
  change the world.  Parameters are the policies, the asker, the decoder of JSON arguments
  (\<open>encoding/json\<close>), what the context carries (a delegated policy, its error) and the error text.  A
  policy's error is its text; an asker's error is what \<open>IsDeniedError\<close> finds in it.
\<close>

section \<open>Vocabulary\<close>

datatype ApprovalDecision = ApprovalAuto | ApprovalAsk | ApprovalAllowedOnce | ApprovalDeny | ApprovalOther int

datatype PermissionMode =
    PermissionReadOnly | PermissionWorkspaceWrite | PermissionDangerFullAccess | PermissionOther int

fun DefaultApprovalFor :: "PermissionMode \<Rightarrow> ApprovalDecision" where
  "DefaultApprovalFor PermissionReadOnly = ApprovalAsk"
| "DefaultApprovalFor PermissionWorkspaceWrite = ApprovalAsk"
| "DefaultApprovalFor PermissionDangerFullAccess = ApprovalAuto"
| "DefaultApprovalFor (PermissionOther _) = ApprovalDeny"

record approval_request =
  apr_tool :: string
  apr_effects :: "tool_effect list"
  apr_args :: string
  apr_reason :: string

datatype asker_error = DeniedError string | ChannelError go_error

type_synonym 'w file_policy = "string \<Rightarrow> 'w \<Rightarrow> string option"
type_synonym 'w approval_policy = "approval_request \<Rightarrow> 'w \<Rightarrow> ApprovalDecision option"
type_synonym 'w asker = "go_ctx \<Rightarrow> approval_request \<Rightarrow> 'w \<Rightarrow> (ApprovalDecision \<times> asker_error option) \<times> 'w"

record 'w permission_module =
  pm_file :: "'w file_policy option"
  pm_approval :: "'w approval_policy option"
  pm_asker :: "'w asker option"
  pm_paths :: "string \<Rightarrow> string \<Rightarrow> string + string list"

record 'w permission_env =
  pe_delegated :: "go_ctx \<Rightarrow> 'w approval_policy option"
  pe_ctxErr :: "go_ctx \<Rightarrow> 'w \<Rightarrow> go_error option"
  pe_fire :: "go_ctx \<Rightarrow> decision_info \<Rightarrow> 'w \<Rightarrow> 'w"
  pe_text :: "go_error \<Rightarrow> string"

definition NeverApprovalPolicy :: "'w approval_policy" where
  "NeverApprovalPolicy req w = Some ApprovalDeny"

text \<open>Names are quoted without escapes.\<close>

definition quoted :: "string \<Rightarrow> string" where
  "quoted s = CHR 34 # s @ [CHR 34]"

section \<open>Paths of the arguments\<close>

definition isPathKey :: "string \<Rightarrow> bool" where
  "isPathKey k = (k \<in> {''path'', ''file'', ''filepath'', ''dir'', ''directory'', ''target'', ''root'', ''workdir''}
     \<or> has_suffix k ''_path'' \<or> has_suffix k ''_dir'')"

text \<open>The order of an object's members stands for the order in which Go ranges over the map.\<close>

fun collectPaths :: "go_any \<Rightarrow> string list" where
  "collectPaths (AnyMap m) =
     concat (map (\<lambda>kv. case snd kv of
                         AnyStr s \<Rightarrow> if isPathKey (ascii_lower (fst kv)) then [s] else []
                       | v \<Rightarrow> collectPaths v) m)"
| "collectPaths (AnyList xs) = concat (map collectPaths xs)"
| "collectPaths _ = []"

definition defaultPaths :: "(string \<Rightarrow> string + go_any) \<Rightarrow> string \<Rightarrow> string \<Rightarrow> string + string list" where
  "defaultPaths unmarshal tool args =
     (if args = [] then Inr []
      else (case unmarshal args of
              Inl err \<Rightarrow> Inl (''unparseable tool arguments: '' @ err)
            | Inr v \<Rightarrow> Inr (collectPaths v)))"

definition NewPermission ::
  "(string \<Rightarrow> string + go_any) \<Rightarrow> 'w file_policy option \<Rightarrow> 'w approval_policy option \<Rightarrow> 'w asker option \<Rightarrow>
   ('w permission_module \<Rightarrow> 'w permission_module) list \<Rightarrow> 'w permission_module" where
  "NewPermission unmarshal file approval asker opts =
     fold (\<lambda>opt m. opt m) opts
       \<lparr>pm_file = file, pm_approval = approval, pm_asker = asker, pm_paths = defaultPaths unmarshal\<rparr>"

definition WithPaths :: "(string \<Rightarrow> string \<Rightarrow> string + string list) \<Rightarrow> 'w permission_module \<Rightarrow> 'w permission_module" where
  "WithPaths fn m = m\<lparr>pm_paths := fn\<rparr>"

section \<open>The enforcement hook\<close>

definition fire_decision ::
  "'w permission_env \<Rightarrow> go_ctx \<Rightarrow> tool_call_info \<Rightarrow> string \<Rightarrow> string \<Rightarrow> 'w \<Rightarrow> 'w" where
  "fire_decision env ctx info decision reason w =
     pe_fire env ctx \<lparr>di_invocationID = ti_invocationID info, di_agentName = ti_agentName info,
       di_stepIndex = ti_stepIndex info, di_tool = ti_name info, di_args = ti_args info,
       di_decision = decision, di_reason = reason\<rparr> w"

text \<open>The error a step ends with; none means that the call may go on.\<close>

definition decide ::
  "'w permission_module \<Rightarrow> 'w permission_env \<Rightarrow> go_ctx \<Rightarrow> tool_call_info \<Rightarrow> approval_request \<Rightarrow> string \<Rightarrow> 'w \<Rightarrow>
   go_error option \<times> 'w" where
  "decide m env ctx info req reason w =
     (let nm = quoted (ti_name info)
      in case pm_asker m of
           None \<Rightarrow> (Some (Errorf (''permission: tool '' @ nm @ '' needs host approval but no answerer is configured'')),
                    fire_decision env ctx info ''rejected'' ''no approval answerer configured'' w)
         | Some asker \<Rightarrow>
            (case asker ctx (req\<lparr>apr_reason := reason\<rparr>) w of ((dec, err), w1) \<Rightarrow>
              (case (err, dec) of
                 (Some (DeniedError fb), ApprovalDeny) \<Rightarrow>
                   (Some (Errorf (''permission: tool '' @ nm @ '' rejected by the host: '' @ fb)),
                    fire_decision env ctx info ''rejected'' fb w1)
               | _ \<Rightarrow>
                  (if err \<noteq> None \<or> pe_ctxErr env ctx w1 \<noteq> None then
                     (Some (WrapErr (''permission: approval for tool '' @ nm @ '' failed'')
                        (case err of
                           Some (DeniedError fb) \<Rightarrow> Errorf fb
                         | Some (ChannelError e) \<Rightarrow> e
                         | None \<Rightarrow> the (pe_ctxErr env ctx w1))),
                      fire_decision env ctx info ''rejected'' ''approval channel error or cancellation'' w1)
                   else if dec = ApprovalAllowedOnce \<or> dec = ApprovalAuto then
                     (None, fire_decision env ctx info ''approved'' reason w1)
                   else (Some (Errorf (''permission: tool '' @ nm @ '' rejected by the host'')),
                         fire_decision env ctx info ''rejected'' reason w1)))))"

definition shouldAsk :: "'w permission_module \<Rightarrow> approval_request \<Rightarrow> 'w \<Rightarrow> bool" where
  "shouldAsk m req w =
     (case pm_approval m of None \<Rightarrow> False | Some p \<Rightarrow> p req w = Some ApprovalAsk)"

definition checkFile :: "'w permission_module \<Rightarrow> string \<Rightarrow> 'w \<Rightarrow> string option" where
  "checkFile m path w =
     (if path = [] then None
      else (case pm_file m of
              None \<Rightarrow> Some (''policy denial: write '' @ path @ '' at read-only: no file policy configured'')
            | Some check \<Rightarrow> check path w))"

text \<open>The Boolean tells that the axis settled the call.\<close>

fun contain_paths ::
  "'w permission_module \<Rightarrow> 'w permission_env \<Rightarrow> go_ctx \<Rightarrow> tool_call_info \<Rightarrow> approval_request \<Rightarrow> bool \<Rightarrow>
   string list \<Rightarrow> 'w \<Rightarrow> (bool \<times> go_error option) \<times> 'w" where
  "contain_paths m env ctx info req escalate [] w = ((False, None), w)"
| "contain_paths m env ctx info req escalate (path # paths) w =
     (case checkFile m path w of
        None \<Rightarrow> contain_paths m env ctx info req escalate paths w
      | Some err \<Rightarrow>
          (if escalate \<and> shouldAsk m req w then
             (case decide m env ctx info req err w of (aerr, w1) \<Rightarrow> ((True, aerr), w1))
           else ((True, Some (Errorf (''permission: '' @ err))), fire_decision env ctx info ''policy_deny'' err w)))"

definition contain ::
  "'w permission_module \<Rightarrow> 'w permission_env \<Rightarrow> go_ctx \<Rightarrow> tool_call_info \<Rightarrow> approval_request \<Rightarrow> bool \<Rightarrow> 'w \<Rightarrow>
   (bool \<times> go_error option) \<times> 'w" where
  "contain m env ctx info req escalate w =
     (if EffectWrite \<notin> set (apr_effects req) then ((False, None), w)
      else (case pm_paths m (ti_name info) (ti_args info) of
              Inl err \<Rightarrow> ((True, Some (Errorf (''permission: '' @ err))),
                          fire_decision env ctx info ''policy_deny'' (''unparseable arguments: '' @ err) w)
            | Inr paths \<Rightarrow> contain_paths m env ctx info req escalate paths w))"

definition delegated_verdict ::
  "'w permission_env \<Rightarrow> 'w approval_policy \<Rightarrow> go_ctx \<Rightarrow> tool_call_info \<Rightarrow> approval_request \<Rightarrow> 'w \<Rightarrow>
   go_error option \<times> 'w" where
  "delegated_verdict env dp ctx info req w =
     (let nm = quoted (ti_name info);
          dec = (case dp req w of None \<Rightarrow> ApprovalDeny | Some d \<Rightarrow> d)
      in if dec = ApprovalAuto \<or> dec = ApprovalAllowedOnce then (None, w)
         else if dec = ApprovalAsk then
           (Some (Errorf (''permission: delegated tool '' @ nm @ '' requires approval that cannot be answered in a child'')),
            fire_decision env ctx info ''policy_deny'' ''delegated approval policy asks but no answerer watches a child'' w)
         else
           (Some (Errorf (''permission: delegated tool '' @ nm @ '' denied by the pinned approval policy'')),
            fire_decision env ctx info ''policy_deny'' ''delegated approval policy denied the call'' w))"

definition session_verdict ::
  "'w permission_module \<Rightarrow> 'w permission_env \<Rightarrow> go_ctx \<Rightarrow> tool_call_info \<Rightarrow> approval_request \<Rightarrow> 'w \<Rightarrow>
   go_error option \<times> 'w" where
  "session_verdict m env ctx info req w =
     (let nm = quoted (ti_name info)
      in case pm_approval m of
           None \<Rightarrow> decide m env ctx info req ''no approval policy configured'' w
         | Some p \<Rightarrow>
            (let dec = (case p req w of None \<Rightarrow> ApprovalDeny | Some d \<Rightarrow> d)
             in case dec of
                  ApprovalAuto \<Rightarrow> (None, w)
                | ApprovalAllowedOnce \<Rightarrow> (None, w)
                | ApprovalDeny \<Rightarrow>
                    (Some (Errorf (''permission: tool '' @ nm @ '' denied by approval policy'')),
                     fire_decision env ctx info ''policy_deny'' ''approval policy denied the call'' w)
                | ApprovalAsk \<Rightarrow> decide m env ctx info req ''the approval policy asks the host'' w
                | ApprovalOther _ \<Rightarrow>
                    (Some (Errorf (''permission: unknown approval decision for tool '' @ nm)),
                     fire_decision env ctx info ''policy_deny'' ''unknown approval decision'' w)))"

text \<open>The effects a call of the session is judged by: none declared counts as write and execute.\<close>

definition judged_effects :: "tool_effect list \<Rightarrow> tool_effect list" where
  "judged_effects effects = (if effects = [] then [EffectWrite, EffectExec] else effects)"

definition verdict ::
  "'w permission_module \<Rightarrow> 'w permission_env \<Rightarrow> go_ctx \<Rightarrow> tool_call_info \<Rightarrow> 'w \<Rightarrow> go_error option \<times> 'w" where
  "verdict m env ctx info w =
     (let request = (\<lambda>effects. \<lparr>apr_tool = ti_name info, apr_effects = effects, apr_args = ti_args info, apr_reason = []\<rparr>)
      in case pe_delegated env ctx of
           Some dp \<Rightarrow>
             (let req = request (ti_effects info)
              in case contain m env ctx info req False w of
                   ((_, Some err), w1) \<Rightarrow> (Some err, w1)
                 | ((True, None), w1) \<Rightarrow> (None, w1)
                 | ((False, None), w1) \<Rightarrow> delegated_verdict env dp ctx info req w1)
         | None \<Rightarrow>
             (let req = request (judged_effects (ti_effects info))
              in case contain m env ctx info req True w of
                   ((_, Some err), w1) \<Rightarrow> (Some err, w1)
                 | ((True, None), w1) \<Rightarrow> (None, w1)
                 | ((False, None), w1) \<Rightarrow> session_verdict m env ctx info req w1))"

definition permission_hook :: "'w permission_module \<Rightarrow> 'w permission_env \<Rightarrow> (tool_call_info option, 'w) hook" where
  "permission_hook m env ctx info w =
     (case info of
        None \<Rightarrow> (Returns (ctx, None, None), w)
      | Some i \<Rightarrow>
          (case verdict m env ctx i w of
             (None, w1) \<Rightarrow> (Returns (ctx, info, None), w1)
           | (Some err, w1) \<Rightarrow> (Returns (ctx, None, Some err), w1)))"

section \<open>Presets\<close>

record preset =
  pr_name :: string
  pr_description :: string
  pr_mode :: PermissionMode
  pr_approval :: string

datatype approval_kind = AskPolicy | AutoPolicy | NeverPolicy

datatype preset_error = ErrNilFilePolicy | ErrPolicyNotSettable | ErrUnknownApproval

definition DefaultPresets :: "preset list" where
  "DefaultPresets =
     [\<lparr>pr_name = ''workspace-write'', pr_description = ''Writes confined to the workspace; risky calls ask the user'',
       pr_mode = PermissionWorkspaceWrite, pr_approval = ''ask''\<rparr>,
      \<lparr>pr_name = ''danger-full-access'', pr_description = ''Full access; approval never asks (CI / unattended)'',
       pr_mode = PermissionDangerFullAccess, pr_approval = ''never''\<rparr>]"

fun FindPreset :: "preset list \<Rightarrow> string \<Rightarrow> preset option" where
  "FindPreset [] name = None"
| "FindPreset (p # ps) name = (if pr_name p = name then Some p else FindPreset ps name)"

definition resolveApproval :: "preset \<Rightarrow> preset_error + approval_kind" where
  "resolveApproval p =
     (if pr_approval p = ''ask'' then Inr AskPolicy
      else if pr_approval p = ''never'' then Inr AutoPolicy
      else if pr_approval p = [] then
        (case DefaultApprovalFor (pr_mode p) of
           ApprovalAuto \<Rightarrow> Inr AutoPolicy
         | ApprovalDeny \<Rightarrow> Inr NeverPolicy
         | _ \<Rightarrow> Inr AskPolicy)
      else Inl ErrUnknownApproval)"

fun policy_of :: "approval_kind \<Rightarrow> 'w approval_policy" where
  "policy_of AskPolicy req w = Some ApprovalAsk"
| "policy_of AutoPolicy req w = Some ApprovalAuto"
| "policy_of NeverPolicy req w = NeverApprovalPolicy req w"

text \<open>A file policy for \<open>Apply\<close>: none, one without \<open>SetMode\<close>, or one holding a mode.\<close>

datatype settable_policy = NilPolicy | FixedPolicy PermissionMode | SettablePolicy PermissionMode

definition ApplyPreset :: "preset \<Rightarrow> settable_policy \<Rightarrow> (preset_error + approval_kind) \<times> settable_policy" where
  "ApplyPreset p file =
     (case file of
        NilPolicy \<Rightarrow> (Inl ErrNilFilePolicy, file)
      | FixedPolicy _ \<Rightarrow> (Inl ErrPolicyNotSettable, file)
      | SettablePolicy _ \<Rightarrow>
          (case resolveApproval p of
             Inl err \<Rightarrow> (Inl err, file)
           | Inr a \<Rightarrow> (Inr a, SettablePolicy (pr_mode p))))"

section \<open>What lets a call through\<close>

text \<open>The host's approval, asked in the world \<open>w\<close> about a call.\<close>

definition host_approves ::
  "'w permission_module \<Rightarrow> go_ctx \<Rightarrow> tool_call_info \<Rightarrow> 'w \<Rightarrow> bool" where
  "host_approves m ctx info w \<longleftrightarrow> (\<exists>asker req dec w1. pm_asker m = Some asker \<and>
     asker ctx req w = ((dec, None), w1) \<and> (dec = ApprovalAllowedOnce \<or> dec = ApprovalAuto) \<and>
     apr_tool req = ti_name info \<and> apr_args req = ti_args info)"

lemma decide_passes:
  assumes "decide m env ctx info req reason w = (None, w')"
    and "apr_tool req = ti_name info" and "apr_args req = ti_args info"
  shows "host_approves m ctx info w"
proof -
  obtain asker where asker: "pm_asker m = Some asker"
    using assms(1) by (cases "pm_asker m") (simp_all add: decide_def Let_def)
  obtain dec err w1 where ask: "asker ctx (req\<lparr>apr_reason := reason\<rparr>) w = ((dec, err), w1)"
    by (cases "asker ctx (req\<lparr>apr_reason := reason\<rparr>) w") auto
  have "err = None \<and> (dec = ApprovalAllowedOnce \<or> dec = ApprovalAuto)"
    using assms(1) asker ask
    by (auto simp: decide_def Let_def split: option.splits asker_error.splits ApprovalDecision.splits if_splits)
  then show ?thesis
    unfolding host_approves_def using asker ask assms(2,3)
    by (intro exI [of _ asker] exI [of _ "req\<lparr>apr_reason := reason\<rparr>"] exI [of _ dec] exI [of _ w1]) auto
qed

lemma contain_paths_unsettled:
  "contain_paths m env ctx info req escalate paths w = ((False, e), w1) \<Longrightarrow>
     e = None \<and> w1 = w \<and> (\<forall>p \<in> set paths. checkFile m p w = None)"
  by (induction paths) (auto split: option.splits prod.splits if_splits)

lemma contain_paths_settled:
  assumes "contain_paths m env ctx info req escalate paths w = ((True, None), w')"
    and "apr_tool req = ti_name info" and "apr_args req = ti_args info"
  shows "escalate \<and> shouldAsk m req w \<and> host_approves m ctx info w"
  using assms
  by (induction paths) (auto split: option.splits prod.splits if_splits intro: decide_passes)

lemma contain_cases:
  assumes "contain m env ctx info req escalate w = ((settled, err), w1)"
    and "apr_tool req = ti_name info" and "apr_args req = ti_args info"
  shows "err = None \<Longrightarrow> \<not> settled \<Longrightarrow> w1 = w \<and> (EffectWrite \<in> set (apr_effects req) \<longrightarrow>
           (\<exists>paths. pm_paths m (ti_name info) (ti_args info) = Inr paths \<and> (\<forall>p \<in> set paths. checkFile m p w = None)))"
    and "err = None \<Longrightarrow> settled \<Longrightarrow> escalate \<and> host_approves m ctx info w"
    and "err \<noteq> None \<Longrightarrow> settled"
proof -
  show "err = None \<Longrightarrow> \<not> settled \<Longrightarrow> w1 = w \<and> (EffectWrite \<in> set (apr_effects req) \<longrightarrow>
           (\<exists>paths. pm_paths m (ti_name info) (ti_args info) = Inr paths \<and> (\<forall>p \<in> set paths. checkFile m p w = None)))"
    using assms(1) by (auto simp: contain_def dest: contain_paths_unsettled split: if_splits sum.splits)
  show "err = None \<Longrightarrow> settled \<Longrightarrow> escalate \<and> host_approves m ctx info w"
    using assms(1)
    by (auto simp: contain_def dest!: contain_paths_settled [OF _ assms(2,3)] split: if_splits sum.splits)
  show "err \<noteq> None \<Longrightarrow> settled"
    using assms(1)
    by (cases settled) (auto simp: contain_def dest: contain_paths_unsettled split: if_splits sum.splits)
qed


text \<open>
  A delegated call is decided without the host.  Under a policy pinned by a delegation the hook
  does the same with any asker and any approval policy of the session.  A call gets through only
  when the pinned policy allows it and, if its declared effects include a write, every path it names
  passes the file policy.
\<close>

theorem delegated_call_pinned:
  assumes "pe_delegated env ctx = Some dp"
  shows "permission_hook (m\<lparr>pm_asker := asker, pm_approval := approval\<rparr>) env ctx (Some i) w
           = permission_hook m env ctx (Some i) w
       \<and> (case permission_hook m env ctx (Some i) w of
            (Returns (c, x, None), w') \<Rightarrow>
               x = Some i \<and> w' = w \<and>
               dp \<lparr>apr_tool = ti_name i, apr_effects = ti_effects i, apr_args = ti_args i, apr_reason = []\<rparr> w
                 \<in> {Some ApprovalAuto, Some ApprovalAllowedOnce} \<and>
               (EffectWrite \<in> set (ti_effects i) \<longrightarrow> (\<exists>paths. pm_paths m (ti_name i) (ti_args i) = Inr paths \<and>
                  (\<forall>p \<in> set paths. checkFile m p w = None)))
          | _ \<Rightarrow> True)"
proof -
  let ?req = "\<lparr>apr_tool = ti_name i, apr_effects = ti_effects i, apr_args = ti_args i, apr_reason = []\<rparr>"
  have paths: "contain_paths (m\<lparr>pm_asker := asker, pm_approval := approval\<rparr>) env ctx i r False ps v
      = contain_paths m env ctx i r False ps v" for r ps v
    by (induction ps) (auto simp: checkFile_def fire_decision_def split: option.splits)
  have same: "contain (m\<lparr>pm_asker := asker, pm_approval := approval\<rparr>) env ctx i r False v
      = contain m env ctx i r False v" for r v
    by (simp add: contain_def paths cong: sum.case_cong)
  have "permission_hook (m\<lparr>pm_asker := asker, pm_approval := approval\<rparr>) env ctx (Some i) w
      = permission_hook m env ctx (Some i) w"
    using assms by (simp add: permission_hook_def verdict_def same)
  moreover have "x = Some i \<and> w' = w \<and> dp ?req w \<in> {Some ApprovalAuto, Some ApprovalAllowedOnce} \<and>
      (EffectWrite \<in> set (ti_effects i) \<longrightarrow> (\<exists>paths. pm_paths m (ti_name i) (ti_args i) = Inr paths \<and>
         (\<forall>p \<in> set paths. checkFile m p w = None)))"
    if hook: "permission_hook m env ctx (Some i) w = (Returns (c, x, None), w')" for c x w'
  proof -
    obtain settled err w1 where con: "contain m env ctx i ?req False w = ((settled, err), w1)"
      by (cases "contain m env ctx i ?req False w") auto
    have pass: "verdict m env ctx i w = (None, w')" and x: "x = Some i"
      using hook by (auto simp: permission_hook_def split: option.splits prod.splits)
    then have err: "err = None"
      using assms con by (cases settled) (auto simp: verdict_def Let_def split: option.splits)
    have unsettled: "\<not> settled" using contain_cases(2) [OF con _ _ err] by auto
    note fits = contain_cases(1) [OF con _ _ err unsettled]
    have "delegated_verdict env dp ctx i ?req w = (None, w')"
      using pass assms con err unsettled fits by (simp add: verdict_def Let_def)
    then have "dp ?req w \<in> {Some ApprovalAuto, Some ApprovalAllowedOnce} \<and> w' = w"
      by (auto simp: delegated_verdict_def Let_def split: option.splits if_splits)
    then show ?thesis using fits x by simp
  qed
  ultimately show ?thesis by (auto split: prod.splits call.splits option.splits)
qed

text \<open>With no approval policy and no answerer nothing of the session gets through.\<close>

lemma nil_policies_deny:
  assumes "pe_delegated env ctx = None" and "pm_approval m = None" and "pm_asker m = None"
  shows "\<exists>err w'. permission_hook m env ctx (Some i) w = (Returns (ctx, None, Some err), w')"
proof -
  have "fst (verdict m env ctx i w) \<noteq> None"
  proof -
    let ?req = "\<lparr>apr_tool = ti_name i, apr_effects = judged_effects (ti_effects i), apr_args = ti_args i, apr_reason = []\<rparr>"
    obtain settled err w1 where con: "contain m env ctx i ?req True w = ((settled, err), w1)"
      by (cases "contain m env ctx i ?req True w") auto
    show ?thesis
    proof (cases err)
      case None
      then have "\<not> settled"
        using contain_cases(2) [OF con _ _ None] assms(3) by (auto simp: host_approves_def)
      then show ?thesis
        using assms con None by (simp add: verdict_def Let_def session_verdict_def decide_def)
    qed (use assms con in \<open>cases settled; simp add: verdict_def Let_def\<close>)
  qed
  then show ?thesis by (auto simp: permission_hook_def split: prod.splits option.splits)
qed

section \<open>Where the axis does not look\<close>

text \<open>A path inside a list under a path key is not collected, so it is never checked.\<close>

lemma listed_paths_not_checked:
  "collectPaths (AnyMap [(''path'', AnyList [AnyStr ''/etc/passwd''])]) = []"
  "collectPaths (AnyMap [(''paths'', AnyList [AnyStr ''/etc/passwd''])]) = []"
  by simp_all

text \<open>A delegated call without declared effects is not checked at all, where the same call of the
  session counts as a write.\<close>

lemma delegated_undeclared_skips_containment:
  assumes "pe_delegated env ctx = Some (policy_of AutoPolicy)" and "ti_effects i = []"
  shows "permission_hook m env ctx (Some i) w = (Returns (ctx, Some i, None), w)"
  using assms
  by (simp add: permission_hook_def verdict_def contain_def delegated_verdict_def)

section \<open>In a batch of tool calls\<close>

lemma gate_loop_blocks:
  assumes "tc \<in> set calls"
    and "\<And>v tc' v1 c i. NormalizeToolCall (op_fresh ops) tc v = (tc', v1) \<Longrightarrow>
           snd (snd (fst (fireToolCall rt ctx (Some (blank_tool_info (tc_name tc') (tc_args tc'))) v1))) \<noteq> None"
  shows "snd (fst (gate_loop ops rt ctx calls w))"
  using assms(1)
proof (induction calls arbitrary: w)
  case (Cons tc0 tcs)
  obtain tc' w1 where n: "NormalizeToolCall (op_fresh ops) tc0 w = (tc', w1)" by fastforce
  obtain c tci err w2 where f:
    "fireToolCall rt ctx (Some (blank_tool_info (tc_name tc') (tc_args tc'))) w1 = ((c, tci, err), w2)"
    by (metis prod.collapse)
  have "err \<noteq> None" if "tc0 = tc" using assms(2) n f that by fastforce
  moreover have "snd (fst (gate_loop ops rt ctx tcs w2))" if "tc0 \<noteq> tc" using Cons that by simp
  ultimately show ?case using n f by (cases "tc0 = tc") (auto simp: Let_def split: prod.splits)
qed simp

text \<open>The registered tools of a name, if any, declare a write.\<close>

definition declares_write :: "'w registry \<Rightarrow> string \<Rightarrow> bool" where
  "declares_write reg name \<longleftrightarrow>
     (\<forall>v t. find (\<lambda>t. t_name t = name) (rg_list reg v) = Some t \<longrightarrow> EffectWrite \<in> set (EffectiveEffects t))"

lemma enrich_keeps:
  assumes "rt_tools rt = Some reg" and "declares_write reg nm"
  obtains j where "enrichToolInfo rt ctx (Some (blank_tool_info nm args)) v = Some j"
    "ti_name j = nm" "ti_args j = args" "EffectWrite \<in> set (judged_effects (ti_effects j))"
  using assms that
  by (cases "correlation ctx"; cases "find (\<lambda>t. t_name t = nm) (rg_list reg v)")
    (auto simp: enrichToolInfo_def blank_tool_info_def Let_def judged_effects_def declares_write_def)

lemma first_hook_error:
  assumes "toolCallHooks rt = Some hook # hs" and "enrichToolInfo rt ctx info v = info'"
    and "hook ctx info' v = (Returns (c, x, Some e), v')"
  shows "snd (snd (fst (fireToolCall rt ctx info v))) = Some e"
  using assms by (simp add: fireToolCall_def fireHookSafe_def)

text \<open>
  C29. A denied write stops the whole batch.  Let the permission hook be the first tool-call hook, with
  an approval policy that never asks and no delegation.  If one call of a batch is to a tool that
  declares a write (or declares nothing, or is unknown) and names a path the file policy denies, then
  no tool of the batch is looked up or run, whatever the other hooks do.
\<close>

theorem denied_write_runs_nothing:
  assumes "rt_tools rt = Some reg" and "toolCallHooks rt = Some (permission_hook m env) # hs"
    and "pe_delegated env ctx = None" and "\<And>req v. \<not> shouldAsk m req v"
    and "tc \<in> set calls" and "declares_write reg (tc_name tc)"
    and "pm_paths m (tc_name tc) (if tc_args tc = [] then ''{}'' else tc_args tc) = Inr paths"
    and "p \<in> set paths" and "\<And>v. checkFile m p v \<noteq> None"
  shows "ExecTools ops (rt\<lparr>rt_tools := Some (reg\<lparr>rg_get := other\<rparr>)\<rparr>) ctx calls w = ExecTools ops rt ctx calls w"
proof -
  have gate: "snd (fst (gate_loop ops rt ctx calls w))"
  proof (rule gate_loop_blocks [OF assms(5)])
    fix v tc' v1
    assume n: "NormalizeToolCall (op_fresh ops) tc v = (tc', v1)"
    then have nm: "tc_name tc' = tc_name tc" and ar: "tc_args tc' = (if tc_args tc = [] then ''{}'' else tc_args tc)"
      by (auto simp: NormalizeToolCall_def Let_def split: prod.splits if_splits)
    obtain j where j: "enrichToolInfo rt ctx (Some (blank_tool_info (tc_name tc') (tc_args tc'))) v1 = Some j"
        "ti_name j = tc_name tc'" "ti_args j = tc_args tc'" "EffectWrite \<in> set (judged_effects (ti_effects j))"
      using enrich_keeps [OF assms(1), of "tc_name tc'"] assms(6) nm by metis
    have paths: "pm_paths m (ti_name j) (ti_args j) = Inr paths" using j nm ar assms(7) by simp
    let ?req = "\<lparr>apr_tool = ti_name j, apr_effects = judged_effects (ti_effects j), apr_args = ti_args j, apr_reason = []\<rparr>"
    obtain settled err v2 where con: "contain m env ctx j ?req True v1 = ((settled, err), v2)"
      by (cases "contain m env ctx j ?req True v1") auto
    have walk: "contain_paths m env ctx j ?req True paths v1 = ((settled, err), v2)"
      using con paths j(4) by (simp add: contain_def)
    have "err \<noteq> None"
    proof
      assume none: "err = None"
      show False
      proof (cases settled)
        case True
        then show False
          using contain_paths_settled [of m env ctx j ?req True paths v1 v2] walk none assms(4) by simp
      next
        case False
        then show False
          using contain_paths_unsettled [of m env ctx j ?req True paths v1 err v2] walk assms(8) assms(9) [of v1] by auto
      qed
    qed
    then obtain e where "verdict m env ctx j v1 = (Some e, v2)"
      using con assms(3) by (cases settled) (auto simp: verdict_def Let_def)
    then have "permission_hook m env ctx (Some j) v1 = (Returns (ctx, None, Some e), v2)"
      by (simp add: permission_hook_def)
    from first_hook_error [OF assms(2) j(1) this]
    show "snd (snd (fst (fireToolCall rt ctx (Some (blank_tool_info (tc_name tc') (tc_args tc'))) v1))) \<noteq> None"
      by simp
  qed
  obtain gated blocked w1 where g: "gate_loop ops rt ctx calls w = ((gated, blocked), w1)"
    by (metis prod.collapse)
  then have g': "gate_loop ops rt ctx calls w = ((gated, True), w1)" using gate by simp
  have "ExecTools ops (rt\<lparr>rt_tools := Some (reg\<lparr>rg_get := rg_get reg\<rparr>)\<rparr>) ctx calls w
      = ExecTools ops (rt\<lparr>rt_tools := Some (reg\<lparr>rg_get := other\<rparr>)\<rparr>) ctx calls w"
    using blocked_call_skips [OF assms(1) g', of "rg_get reg"] blocked_call_skips [OF assms(1) g', of other] by simp
  moreover have "rt\<lparr>rt_tools := Some (reg\<lparr>rg_get := rg_get reg\<rparr>)\<rparr> = rt" using assms(1) by simp
  ultimately show ?thesis by simp
qed

section \<open>Presets\<close>

text \<open>
  A preset is applied whole or not at all.  When applying a preset fails, the file policy keeps
  its mode; when it succeeds, the policy has the preset's mode and the approval policy is the one the
  preset names: \<open>ask\<close> asks about every call, \<open>never\<close> lets every call pass, and a preset without a
  disposition gets the default of its tier.
\<close>

theorem preset_atomic:
  "case ApplyPreset p file of
     (Inl err, file') \<Rightarrow> file' = file
   | (Inr a, file') \<Rightarrow> file' = SettablePolicy (pr_mode p) \<and>
       policy_of a req w = Some (if pr_approval p = ''ask'' then ApprovalAsk
          else if pr_approval p = ''never'' then ApprovalAuto else DefaultApprovalFor (pr_mode p))"
  by (cases "pr_mode p"; cases "file") (simp_all add: ApplyPreset_def resolveApproval_def NeverApprovalPolicy_def)

section \<open>Concrete calls\<close>

definition demo_paths :: "string \<Rightarrow> string \<Rightarrow> string + string list" where
  "demo_paths = defaultPaths (\<lambda>args. Inr (AnyMap [(''path'', AnyStr args)]))"

definition demo_policy :: "'w file_policy" where
  "demo_policy path w = (if path = ''/etc'' then Some ''outside the workspace'' else None)"

definition demo_module :: "bool \<Rightarrow> nat permission_module" where
  "demo_module ask = \<lparr>pm_file = Some demo_policy, pm_approval = Some (policy_of (if ask then AskPolicy else AutoPolicy)),
     pm_asker = (if ask then Some (\<lambda>c req v. ((ApprovalAllowedOnce, None), Suc v)) else None), pm_paths = demo_paths\<rparr>"

definition demo_env :: "nat approval_policy option \<Rightarrow> nat permission_env" where
  "demo_env dp = \<lparr>pe_delegated = (\<lambda>_. dp), pe_ctxErr = (\<lambda>_ _. None), pe_fire = (\<lambda>_ _ w. w), pe_text = (\<lambda>_. [])\<rparr>"

lemmas permission_eval = demo_paths_def demo_policy_def demo_module_def demo_env_def permission_hook_def
  verdict_def contain_def shouldAsk_def checkFile_def decide_def fire_decision_def defaultPaths_def
  isPathKey_def has_suffix_def ascii_lower_def blank_tool_info_def judged_effects_def delegated_verdict_def
  session_verdict_def


theorem delegated_call_pinned_witness:
  "permission_hook ((demo_module True)\<lparr>pm_asker := None, pm_approval := None\<rparr>) (demo_env (Some NeverApprovalPolicy)) demo_ctx
     (Some (blank_tool_info ''write'' ''/tmp'')) 0
   = permission_hook (demo_module True) (demo_env (Some NeverApprovalPolicy)) demo_ctx
     (Some (blank_tool_info ''write'' ''/tmp'')) 0"
proof -
  have "pe_delegated (demo_env (Some NeverApprovalPolicy)) demo_ctx = Some NeverApprovalPolicy" by (simp add: demo_env_def)
  from delegated_call_pinned [OF this, THEN conjunct1] show ?thesis .
qed

theorem denied_write_runs_nothing_witness:
  "\<exists>rt reg. \<forall>ops. rt_tools rt = Some reg \<and> (\<exists>t. rg_get reg ''write'' 0 = Some t) \<and>
     ExecTools ops (rt\<lparr>rt_tools := Some (reg\<lparr>rg_get := (\<lambda>_ _. None)\<rparr>)\<rparr>) demo_ctx
       [\<lparr>tc_id = ''1'', tc_type = [], tc_name = ''write'', tc_args = ''/etc'', tc_index = None\<rparr>] (0::nat)
     = ExecTools ops rt demo_ctx [\<lparr>tc_id = ''1'', tc_type = [], tc_name = ''write'', tc_args = ''/etc'', tc_index = None\<rparr>] 0"
proof -
  define t :: "nat tool" where "t = \<lparr>t_name = ''write'', t_description = [], t_effects = [EffectWrite], t_timeoutMs = 0,
     t_body = ToolRun (\<lambda>_ n. (Returns (''ok'', None), Suc n))\<rparr>"
  define reg where "reg = \<lparr>rg_get = (\<lambda>_ _. Some t), rg_list = (\<lambda>_. [t])\<rparr>"
  define rt where "rt = (NewRuntime None (Some reg) [] [] [])\<lparr>toolCallHooks := [Some (permission_hook (demo_module False) (demo_env None))]\<rparr>"
  let ?tc = "\<lparr>tc_id = ''1'', tc_type = [], tc_name = ''write'', tc_args = ''/etc'', tc_index = None\<rparr>"
  have reg: "rt_tools rt = Some reg"
    and hooks: "toolCallHooks rt = Some (permission_hook (demo_module False) (demo_env None)) # []"
    by (simp_all add: rt_def NewRuntime_def)
  have "declares_write reg (tc_name ?tc)"
    by (simp add: declares_write_def reg_def t_def EffectiveEffects_def)
  moreover have "pm_paths (demo_module False) (tc_name ?tc) (if tc_args ?tc = [] then ''{}'' else tc_args ?tc) = Inr [''/etc'']"
    by (simp add: permission_eval)
  moreover have "\<And>req v. \<not> shouldAsk (demo_module False) req v" "\<And>v. checkFile (demo_module False) ''/etc'' v \<noteq> None"
    "pe_delegated (demo_env None) demo_ctx = None"
    by (simp_all add: permission_eval)
  ultimately have "\<And>ops. ExecTools ops (rt\<lparr>rt_tools := Some (reg\<lparr>rg_get := (\<lambda>_ _. None)\<rparr>)\<rparr>) demo_ctx [?tc] 0
      = ExecTools ops rt demo_ctx [?tc] 0"
    using denied_write_runs_nothing [OF reg hooks, of demo_ctx ?tc "[?tc]" "[''/etc'']" "''/etc''"] by simp
  then show ?thesis using reg by (intro exI [of _ rt] exI [of _ reg]) (simp add: reg_def)
qed

end
