(* ===== verification/Guard.thy ===== *)
theory Guard
  imports StepLoop "HOL-Library.Monad_Syntax"
begin

text \<open>
  The context guard of \<open>module/guard/guard.go\<close>: configuration, calibration of the token estimate,
  compaction of long tool results, trimming of the message list to a budget, the repair of broken
  tool pairs, and the two hooks.

  An option result is \<open>None\<close> where Go panics (an index or slice out of range, a nil message or image)
  or does not return.  A \<open>float64\<close> is the rational it stands for; the rounding of a product is not
  modelled.  The trim callback and the summarizer act on a world \<open>'w\<close>.
\<close>

section \<open>Configuration\<close>

record trim_report =
  tr_originalSize :: nat
  tr_finalSize :: nat
  tr_truncated :: bool
  tr_strategy :: string

definition blank_report :: "nat \<Rightarrow> trim_report" where
  "blank_report n = \<lparr>tr_originalSize = n, tr_finalSize = 0, tr_truncated = False, tr_strategy = []\<rparr>"

record 'w guard_config =
  TokenBudget :: int
  CompactThreshold :: rat
  MinBudget :: int
  ToolTruncateLength :: int
  Strategy :: int
  MaxLines :: int
  KeepHeadRatio :: rat
  MinPreserve :: int
  OnTrim :: "(message list \<Rightarrow> trim_report \<Rightarrow> 'w \<Rightarrow> 'w) option"
  Summarizer :: "(go_ctx \<Rightarrow> messages \<Rightarrow> 'w \<Rightarrow> (string \<times> go_error option) \<times> 'w) option"

abbreviation (input) CompactSimple :: int where "CompactSimple \<equiv> 0"
abbreviation (input) CompactSmart :: int where "CompactSmart \<equiv> 1"
abbreviation (input) CompactSummary :: int where "CompactSummary \<equiv> 2"

definition defaultGuardConfig :: "'w guard_config" where
  "defaultGuardConfig =
     \<lparr>TokenBudget = 128000 - 4096, CompactThreshold = 85 / 100, MinBudget = 2048, ToolTruncateLength = 2000,
      Strategy = CompactSimple, MaxLines = 50, KeepHeadRatio = 1 / 2, MinPreserve = 10,
      OnTrim = None, Summarizer = None\<rparr>"

record 'w guard =
  gd_cfg :: "'w guard_config"
  gd_ema :: rat
  gd_calibrated :: bool

definition NewGuardModule :: "'w guard" where
  "NewGuardModule = \<lparr>gd_cfg = defaultGuardConfig, gd_ema = 4, gd_calibrated = False\<rparr>"

text \<open>The value a field of the module ends with: it starts as the default.\<close>

definition resolve_field :: "'a::linordered_ab_group_add \<Rightarrow> 'a \<Rightarrow> 'a \<Rightarrow> 'a" where
  "resolve_field dst src dflt = (if 0 < src then src else if src = 0 then dflt else dst)"

definition NewGuardModuleWith :: "'w guard_config \<Rightarrow> 'w guard" where
  "NewGuardModuleWith cfg0 =
     (let def = (defaultGuardConfig :: 'w guard_config);
          cfg1 = (if CompactThreshold cfg0 < 0 \<or> CompactThreshold cfg0 > 1 then cfg0\<lparr>CompactThreshold := 0\<rparr> else cfg0);
          cfg = (if Strategy cfg1 < CompactSimple \<or> Strategy cfg1 > CompactSummary
                 then cfg1\<lparr>Strategy := CompactSimple\<rparr> else cfg1);
          m = NewGuardModule; mc = gd_cfg m
      in m\<lparr>gd_cfg := mc
            \<lparr>Strategy := Strategy cfg, OnTrim := OnTrim cfg, Summarizer := Summarizer cfg,
             TokenBudget := resolve_field (TokenBudget mc) (TokenBudget cfg) (TokenBudget def),
             CompactThreshold := resolve_field (CompactThreshold mc) (CompactThreshold cfg) (CompactThreshold def),
             MinBudget := resolve_field (MinBudget mc) (MinBudget cfg) (MinBudget def),
             ToolTruncateLength := resolve_field (ToolTruncateLength mc) (ToolTruncateLength cfg) (ToolTruncateLength def),
             MaxLines := resolve_field (MaxLines mc) (MaxLines cfg) (MaxLines def),
             KeepHeadRatio := resolve_field (KeepHeadRatio mc) (KeepHeadRatio cfg) (KeepHeadRatio def),
             MinPreserve := resolve_field (MinPreserve mc) (MinPreserve cfg) (MinPreserve def)\<rparr>\<rparr>)"

section \<open>Calibrated estimate\<close>

definition Calibrate :: "int \<Rightarrow> messages \<Rightarrow> 'w guard \<Rightarrow> 'w guard option" where
  "Calibrate actual msgs g =
     (if actual \<le> 0 \<or> msgs = [] then Some g
      else do {
        est \<leftarrow> EstimateTokens msgs;
        Some (if est = 0 then g
              else (let ratio = of_int actual / of_nat est
                    in if \<not> gd_calibrated g then g\<lparr>gd_ema := ratio, gd_calibrated := True\<rparr>
                       else g\<lparr>gd_ema := 3 / 10 * ratio + (1 - 3 / 10) * gd_ema g\<rparr>))
      })"

definition gd_Estimate :: "'w guard \<Rightarrow> messages \<Rightarrow> int option" where
  "gd_Estimate g msgs = do {
     est \<leftarrow> EstimateTokens msgs;
     Some (if est = 0 then 0
           else if gd_calibrated g \<and> 0 < gd_ema g then int_of_float (of_nat est * gd_ema g)
           else int est)
   }"

definition CalibrationFactor :: "'w guard \<Rightarrow> rat" where
  "CalibrationFactor g = (if gd_calibrated g then gd_ema g else 1)"

definition ShouldTrim :: "'w guard \<Rightarrow> messages \<Rightarrow> int \<Rightarrow> bool option" where
  "ShouldTrim g msgs budget =
     (if length msgs < 2 \<or> budget \<le> 0 then Some False
      else map_option (\<lambda>est. budget < est) (gd_Estimate g msgs))"

section \<open>Compaction of a tool result\<close>

definition itoa :: "int \<Rightarrow> string" where
  "itoa n = (if n < 0 then CHR ''-'' # decimal (nat (- n)) else decimal (nat n))"

abbreviation (input) newline :: string where "newline \<equiv> [CHR 0x0A]"

text \<open>The lines from index \<open>start\<close> on; a negative start panics.\<close>

definition lines_from :: "int \<Rightarrow> string list \<Rightarrow> string option" where
  "lines_from start lines = (if start < 0 then None else Some (join_strings newline (drop (nat start) lines)))"

definition head_lines :: "int \<Rightarrow> string list \<Rightarrow> string" where
  "head_lines n lines = concat (map (\<lambda>l. l @ newline) (take (nat n) lines))"

definition simple_lines :: "int \<Rightarrow> rat \<Rightarrow> int \<Rightarrow> string \<Rightarrow> (string \<times> bool) option" where
  "simple_lines maxLines keepHeadRatio minPreserve content =
     (let lines = split_lines content; n = int (length lines)
      in if maxLines > 0 \<and> n > maxLines then
           (let keepLines = max (int_of_float (of_int maxLines * keepHeadRatio)) (min minPreserve (maxLines div 2));
                tailLines = (if maxLines - keepLines < 1 then 1 else maxLines - keepLines)
            in do {
              tl \<leftarrow> lines_from (n - tailLines) lines;
              Some (head_lines keepLines lines @ ''... [truncated '' @ itoa (n - maxLines) @ '' lines] ...'' @ newline @ tl, True)
            })
         else Some (content, False))"

text \<open>The numbers of runes kept at the head and the tail.\<close>

definition simple_cut :: "int \<Rightarrow> rat \<Rightarrow> int \<Rightarrow> int \<Rightarrow> int \<times> int" where
  "simple_cut maxChars keepHeadRatio minPreserve n =
     (let headLen = max (int_of_float (of_int maxChars * keepHeadRatio)) (min (minPreserve * 20) (maxChars div 2));
          t0 = maxChars - headLen;
          t1 = (if t0 < min (minPreserve * 20) 200 then min (minPreserve * 20) 200 else t0);
          t2 = (if t1 > maxChars - headLen then maxChars - headLen else t1);
          t3 = (if t2 < 1 then 1 else t2);
          t4 = (if headLen + t3 > n then n - headLen else t3)
      in (headLen, t4))"

text \<open>A head longer than the runes makes the tail slice start behind them and panics.\<close>

definition simple_chars :: "int \<Rightarrow> rat \<Rightarrow> int \<Rightarrow> string \<Rightarrow> (string \<times> bool) option" where
  "simple_chars maxChars keepHeadRatio minPreserve content =
     (let rs = runes content; n = int (length rs)
      in if maxChars > 0 \<and> n > maxChars then
           (let (headLen, tailLen) = simple_cut maxChars keepHeadRatio minPreserve n
            in if headLen < 0 \<or> headLen > n \<or> tailLen < 0 \<or> tailLen > n then None
               else Some (string_of_runes (take (nat headLen) rs) @ newline @ ''... [truncated '' @
                      itoa (n - (headLen + tailLen)) @ '' chars] ...'' @ newline @
                      string_of_runes (drop (nat (n - tailLen)) rs), True))
         else Some (content, False))"

definition compactSimple :: "string \<Rightarrow> int \<Rightarrow> int \<Rightarrow> rat \<Rightarrow> int \<Rightarrow> (string \<times> bool) option" where
  "compactSimple content maxChars maxLines keepHeadRatio minPreserve = do {
     (c1, m1) \<leftarrow> simple_lines maxLines keepHeadRatio minPreserve content;
     (c2, m2) \<leftarrow> simple_chars maxChars keepHeadRatio minPreserve c1;
     Some (c2, m1 \<or> m2)
   }"

definition compactSmart :: "string \<Rightarrow> int \<Rightarrow> int \<Rightarrow> rat \<Rightarrow> int \<Rightarrow> (string \<times> bool) option" where
  "compactSmart content maxChars maxLines keepHeadRatio minPreserve =
     (let lines = split_lines content; n = int (length lines)
      in if n \<le> maxLines then compactSimple content maxChars maxLines keepHeadRatio minPreserve
         else (let preserveHead = max (int_of_float (of_int maxLines * keepHeadRatio)) minPreserve;
                   preserveTail = (if maxLines - preserveHead < minPreserve div 2 then minPreserve div 2
                                   else maxLines - preserveHead);
                   skipped = (if n - preserveHead - preserveTail < 0 then 0 else n - preserveHead - preserveTail)
               in do {
                 tl \<leftarrow> lines_from (n - preserveTail) lines;
                 Some (head_lines preserveHead lines @ ''... [truncated '' @ itoa skipped @ '' lines] ...'' @ newline @ tl,
                       True)
               }))"

text \<open>The search of the first lines: where the summary ends, or that a keyword was found.\<close>

definition summaryKeywords :: "string list" where
  "summaryKeywords = [''summary:'', ''result:'', ''output:'', ''conclusion:'']"

fun summary_end :: "int \<Rightarrow> int \<Rightarrow> int \<Rightarrow> string list \<Rightarrow> int option" where
  "summary_end searchLimit i acc [] = Some acc"
| "summary_end searchLimit i acc (line # lines) =
     (if i \<ge> searchLimit then Some acc
      else (let trimmed = TrimSpace line
            in if trimmed = [] then summary_end searchLimit (i + 1) acc lines
               else if list_ex (contains (ascii_lower trimmed)) summaryKeywords then None
               else summary_end searchLimit (i + 1) (i + 1) lines))"

definition compactSummary :: "string \<Rightarrow> int \<Rightarrow> int \<Rightarrow> rat \<Rightarrow> int \<Rightarrow> (string \<times> bool) option" where
  "compactSummary content maxChars maxLines keepHeadRatio minPreserve =
     (let lines = split_lines content; n = int (length lines);
          keepLines = min (max minPreserve (maxLines div 3)) n;
          summaryEnd = (case summary_end (min (keepLines div 2) n) 0 0 lines of
                          None \<Rightarrow> n
                        | Some e \<Rightarrow> if e = 0 then min (max keepLines 1) n else min (max e keepLines) n)
      in Some (head_lines summaryEnd lines @
               (if summaryEnd < n then ''... [summarized '' @ itoa (n - summaryEnd) @ '' lines] ...'' @ newline else []),
               True))"

definition compactContentWithCfg :: "string \<Rightarrow> int \<Rightarrow> int \<Rightarrow> rat \<Rightarrow> int \<Rightarrow> int \<Rightarrow> (string \<times> bool) option" where
  "compactContentWithCfg content maxChars maxLines keepHeadRatio minPreserve strategy =
     (if maxChars > 0 \<and> int (rune_count content) \<le> maxChars then Some (content, False)
      else if strategy = CompactSmart then compactSmart content maxChars maxLines keepHeadRatio minPreserve
      else if strategy = CompactSummary then compactSummary content maxChars maxLines keepHeadRatio minPreserve
      else compactSimple content maxChars maxLines keepHeadRatio minPreserve)"

definition CompactContent :: "'w guard \<Rightarrow> string \<Rightarrow> string option" where
  "CompactContent g content =
     (let c = gd_cfg g
      in map_option fst (compactContentWithCfg content (ToolTruncateLength c) (MaxLines c) (KeepHeadRatio c)
           (MinPreserve c) (Strategy c)))"

definition compactContent :: "'w guard \<Rightarrow> string \<Rightarrow> string option" where
  "compactContent g content =
     (let c = gd_cfg g; toolLen = ToolTruncateLength c
      in if toolLen \<le> 0 then Some content
         else if int (rune_count content) \<le> toolLen then Some content
         else map_option fst (compactContentWithCfg content toolLen (MaxLines c) (KeepHeadRatio c) (MinPreserve c)
                (Strategy c)))"

fun compactMessages :: "'w guard \<Rightarrow> messages \<Rightarrow> messages option" where
  "compactMessages g [] = Some []"
| "compactMessages g (None # ms) = map_option ((#) None) (compactMessages g ms)"
| "compactMessages g (Some m # ms) = do {
     content \<leftarrow> (if msg_role m = RoleTool \<and> int (rune_count (msg_content m)) > ToolTruncateLength (gd_cfg g)
                 then compactContent g (msg_content m) else Some (msg_content m));
     rest \<leftarrow> compactMessages g ms;
     Some (Some (m\<lparr>msg_content := content\<rparr>) # rest)
   }"

section \<open>Repairing the tool pairs\<close>

text \<open>The tool messages at the head of a list.\<close>

definition is_tool :: "message option \<Rightarrow> bool" where
  "is_tool m = (case m of None \<Rightarrow> False | Some x \<Rightarrow> msg_role x = RoleTool)"

definition responded :: "messages \<Rightarrow> string set" where
  "responded ms = (\<lambda>m. msg_toolCallID (the m)) ` set ms"

definition has_calls :: "message \<Rightarrow> bool" where
  "has_calls m \<longleftrightarrow> msg_role m = RoleAssistant \<and> msg_toolCalls m \<noteq> []"

definition group_complete :: "message \<Rightarrow> messages \<Rightarrow> bool" where
  "group_complete m grp \<longleftrightarrow> list_all (\<lambda>tc. tc_id tc \<noteq> [] \<and> tc_id tc \<in> responded grp) (msg_toolCalls m)"

function repairToolPairing :: "messages \<Rightarrow> messages" where
  "repairToolPairing [] = []"
| "repairToolPairing (None # ms) = repairToolPairing ms"
| "repairToolPairing (Some m # ms) =
     (if msg_role m = RoleTool then repairToolPairing ms
      else if \<not> has_calls m then Some m # repairToolPairing ms
      else (let grp = takeWhile is_tool ms
            in (if group_complete m grp then Some m # grp else []) @ repairToolPairing (dropWhile is_tool ms)))"
  by pat_completeness auto
termination
  by (relation "measure length") (auto simp: le_imp_less_Suc length_dropWhile_le)

section \<open>Trimming\<close>

text \<open>The loop of \<open>Trim\<close>: the number of messages kept halves until they fit or are two.\<close>

function trim_window :: "'w guard \<Rightarrow> int \<Rightarrow> message option \<Rightarrow> messages \<Rightarrow> nat \<Rightarrow> messages option" where
  "trim_window g budget systemMsg trimmed keepCount =
     (let window = systemMsg # drop (Suc (length trimmed) - keepCount) trimmed
      in case gd_Estimate g window of
           None \<Rightarrow> None
         | Some est \<Rightarrow>
             (if est \<le> budget \<or> keepCount \<le> 2 then Some window
              else trim_window g budget systemMsg trimmed ((keepCount + 1) div 2)))"
  by auto
termination by (relation "measure (\<lambda>(g, b, s, t, k). k)") auto

declare trim_window.simps [simp del]

definition window_size :: "nat \<Rightarrow> int \<Rightarrow> int \<Rightarrow> nat" where
  "window_size n budget est =
     (let k0 = nat (int_of_float (of_nat n * (of_int budget / of_int est)));
          k1 = (if k0 < 2 then 2 else k0)
      in if k1 > n then n else k1)"

definition Trim :: "'w guard \<Rightarrow> messages \<Rightarrow> int \<Rightarrow> (messages \<times> trim_report) option" where
  "Trim g msgs budget0 =
     (let budget = (if budget0 \<le> 0 then MinBudget (gd_cfg g) else budget0);
          report = blank_report (length msgs)
      in do {
        est \<leftarrow> gd_Estimate g msgs;
        if est \<le> budget then Some (msgs, report\<lparr>tr_finalSize := length msgs\<rparr>)
        else do {
          trimmed \<leftarrow> compactMessages g msgs;
          est2 \<leftarrow> gd_Estimate g trimmed;
          if est2 \<le> budget then
            Some (trimmed, report\<lparr>tr_truncated := True, tr_finalSize := length trimmed, tr_strategy := ''compact''\<rparr>)
          else (case trimmed of
             [] \<Rightarrow> None
           | systemMsg # _ \<Rightarrow>
              do {
                 window \<leftarrow> trim_window g budget systemMsg trimmed (window_size (length trimmed) budget est2);
                 let result = repairToolPairing window;
                 Some (result, report\<lparr>tr_truncated := True, tr_finalSize := length result, tr_strategy := ''window''\<rparr>)
               })
        }
      })"

subsection \<open>Summaries\<close>

abbreviation (input) summaryOpen :: string where "summaryOpen \<equiv> ''<compacted-summary>''"
abbreviation (input) summaryClose :: string where "summaryClose \<equiv> ''</compacted-summary>''"

text \<open>The loop removes the first opening tag up to the end of the first closing tag, wherever that
  one is.\<close>

partial_function (option) stripCompactedSummary :: "string \<Rightarrow> string option" where
  "stripCompactedSummary content =
     (case index_of summaryOpen content of
        None \<Rightarrow> Some content
      | Some start \<Rightarrow>
         (case index_of summaryClose content of
            None \<Rightarrow> Some content
          | Some close \<Rightarrow>
              stripCompactedSummary (TrimSpace (take start content @ drop (close + length summaryClose) content))))"

text \<open>How many messages of the reversed tail fit the budget.\<close>

fun keep_tail :: "'w guard \<Rightarrow> int \<Rightarrow> messages \<Rightarrow> nat option" where
  "keep_tail g tailBudget [] = Some 0"
| "keep_tail g tailBudget (m # ms) = do {
     est \<leftarrow> gd_Estimate g [m];
     if est > tailBudget then Some 0 else map_option Suc (keep_tail g (tailBudget - est) ms)
   }"

definition summaryTrim ::
  "(go_ctx \<Rightarrow> messages \<Rightarrow> 'w \<Rightarrow> (string \<times> go_error option) \<times> 'w) \<Rightarrow> 'w guard \<Rightarrow> go_ctx \<Rightarrow> messages \<Rightarrow> int \<Rightarrow> 'w \<Rightarrow>
   ((messages \<times> trim_report) \<times> 'w) option" where
  "summaryTrim summarizer g ctx msgs budget w =
     (if length msgs < 3 \<or> budget \<le> 0 then Some ((msgs, blank_report (length msgs)), w)
      else (let system = hd msgs; tail = tl msgs;
                s0 = int_of_float (of_int budget * (15 / 100));
                summaryBudget = (if s0 < 64 then 64 else s0);
                tailBudget = (if budget - summaryBudget < 1 then 1 else budget - summaryBudget)
            in do {
              keepCount \<leftarrow> keep_tail g tailBudget (rev tail);
              let head = take (length tail - keepCount) tail;
              if head = [] then map_option (\<lambda>r. (r, w)) (Trim g msgs budget)
              else (case summarizer ctx head w of ((summary, err), w1) \<Rightarrow>
                if err \<noteq> None \<or> TrimSpace summary = [] then map_option (\<lambda>r. (r, w1)) (Trim g msgs budget)
                else (case system of
                   None \<Rightarrow> None
                 | Some sys \<Rightarrow> do {
                     base \<leftarrow> stripCompactedSummary (msg_content sys);
                     let content = base @ newline @ newline @ summaryOpen @ newline @ summary @ newline @ summaryClose;
                     let result = repairToolPairing (Some (sys\<lparr>msg_content := content\<rparr>) # drop (length tail - keepCount) tail);
                     Some ((result, (blank_report (length msgs))\<lparr>tr_truncated := True, tr_finalSize := length result,
                             tr_strategy := ''summary''\<rparr>), w1)
                   }))
            }))"

section \<open>What was dropped\<close>

definition messageKey :: "message \<Rightarrow> string" where
  "messageKey m = msg_role m @ ''|'' @ msg_toolCallID m @ ''|'' @ msg_toolName m @ ''|'' @ msg_content m"

definition non_nil :: "messages \<Rightarrow> message list" where
  "non_nil ms = List.map_filter id ms"

fun count_keys :: "message list \<Rightarrow> (string \<Rightarrow> nat) \<Rightarrow> (string \<Rightarrow> nat)" where
  "count_keys [] afterCount = afterCount"
| "count_keys (m # ms) afterCount =
     count_keys ms (afterCount(messageKey m := Suc (afterCount (messageKey m))))"

fun drop_counted :: "message list \<Rightarrow> (string \<Rightarrow> nat) \<Rightarrow> message list" where
  "drop_counted [] afterCount = []"
| "drop_counted (m # ms) afterCount =
     (let k = messageKey m
      in if afterCount k > 0 then drop_counted ms (afterCount(k := afterCount k - 1))
         else m # drop_counted ms afterCount)"

definition droppedMessages :: "messages \<Rightarrow> messages \<Rightarrow> message list" where
  "droppedMessages before after = drop_counted (non_nil before) (count_keys (non_nil after) (\<lambda>_. 0))"

section \<open>The hooks\<close>

fun compact_long :: "'w guard \<Rightarrow> messages \<Rightarrow> messages option" where
  "compact_long g [] = Some []"
| "compact_long g (None # ms) = map_option ((#) None) (compact_long g ms)"
| "compact_long g (Some m # ms) = do {
     content \<leftarrow> (if msg_role m = RoleTool \<and> int (length (msg_content m)) > ToolTruncateLength (gd_cfg g)
                 then compactContent g (msg_content m) else Some (msg_content m));
     rest \<leftarrow> compact_long g ms;
     Some (Some (m\<lparr>msg_content := content\<rparr>) # rest)
   }"

definition onStepStart :: "'w guard \<Rightarrow> go_ctx \<Rightarrow> step_info \<Rightarrow> 'w \<Rightarrow> (step_info \<times> 'w) option" where
  "onStepStart g ctx info w =
     (let msgs = (case si_messages info of None \<Rightarrow> [] | Some ms \<Rightarrow> ms); c = gd_cfg g; budget = TokenBudget c
      in if msgs = [] \<or> budget \<le> 0 then Some (info, w)
         else do {
           est \<leftarrow> gd_Estimate g msgs;
           let threshold = int_of_float (of_int budget * CompactThreshold c);
           if est > budget then
             (case Summarizer c of
                Some summarizer \<Rightarrow> do {
                  ((trimmed, report), w1) \<leftarrow> summaryTrim summarizer g ctx msgs budget w;
                  Some (info\<lparr>si_messages := Some trimmed\<rparr>,
                        case OnTrim c of None \<Rightarrow> w1 | Some f \<Rightarrow> f (droppedMessages msgs trimmed) report w1)
                }
              | None \<Rightarrow> do {
                  (trimmed0, report) \<leftarrow> Trim g msgs budget;
                  trimmed \<leftarrow> compactMessages g trimmed0;
                  Some (info\<lparr>si_messages := Some trimmed\<rparr>,
                        case OnTrim c of None \<Rightarrow> w | Some f \<Rightarrow> f (droppedMessages msgs trimmed) report w)
                })
           else if est > threshold then
             map_option (\<lambda>ms. (info\<lparr>si_messages := Some ms\<rparr>, w)) (compact_long g msgs)
           else Some (info, w)
         })"

definition onModelResult :: "'w guard \<Rightarrow> model_call_info \<Rightarrow> 'w guard option" where
  "onModelResult g info =
     (case (mi_usage info, mi_messages info) of
        (Some u, Some ms) \<Rightarrow> if PromptTokens u > 0 \<and> ms \<noteq> [] then Calibrate (PromptTokens u) ms g else Some g
      | _ \<Rightarrow> Some g)"

end
