(* ===== verification/GuardProps.thy ===== *)
theory GuardProps
  imports Guard "HOL-Library.Sublist" "HOL-Library.Multiset"
begin

text \<open>
  What the context guard guarantees: the repair of tool pairs, the result of a trim and when it
  cannot fail, the size of a compacted tool result, the account of the dropped messages, the
  calibration, and the removal of old summaries.
\<close>

section \<open>Tool pairs\<close>

text \<open>A list the providers accept: no nil message, every message with tool calls is followed at once
  by tool messages that answer all its calls, and a tool message stands nowhere else.\<close>

function paired :: "messages \<Rightarrow> bool" where
  "paired [] = True"
| "paired (None # ms) = False"
| "paired (Some m # ms) =
     (msg_role m \<noteq> RoleTool \<and>
      (if has_calls m then group_complete m (takeWhile is_tool ms) \<and> paired (dropWhile is_tool ms) else paired ms))"
  by pat_completeness auto
termination
  by (relation "measure length") (auto simp: le_imp_less_Suc length_dropWhile_le)

lemma takeWhile_tool_append:
  assumes "\<forall>x \<in> set xs. is_tool x" and "ys = [] \<or> \<not> is_tool (hd ys)"
  shows "takeWhile is_tool (xs @ ys) = xs" and "dropWhile is_tool (xs @ ys) = ys"
  using assms by (induction xs) (auto simp: takeWhile_eq_Nil_iff dropWhile_eq_self_iff)

lemma repair_head: "repairToolPairing ms = [] \<or> \<not> is_tool (hd (repairToolPairing ms))"
proof (induction ms rule: repairToolPairing.induct)
  case (3 m ms)
  then show ?case by (auto simp: is_tool_def Let_def)
qed auto

lemma repair_paired: "paired (repairToolPairing ms)"
proof (induction ms rule: repairToolPairing.induct)
  case (3 m ms)
  let ?g = "takeWhile is_tool ms" and ?rest = "repairToolPairing (dropWhile is_tool ms)"
  have tools: "\<forall>x \<in> set ?g. is_tool x" by (auto dest: set_takeWhileD)
  note split = takeWhile_tool_append [OF tools repair_head [of "dropWhile is_tool ms"]]
  show ?case using 3 split by (auto simp: Let_def)
qed auto

lemma repair_id: "paired ms \<Longrightarrow> repairToolPairing ms = ms"
  by (induction ms rule: repairToolPairing.induct) (auto simp: Let_def)

lemma repair_subseq: "subseq (repairToolPairing ms) ms"
proof (induction ms rule: repairToolPairing.induct)
  case (3 m ms)
  have "subseq (takeWhile is_tool ms @ repairToolPairing (dropWhile is_tool ms)) ms"
    if "subseq (repairToolPairing (dropWhile is_tool ms)) (dropWhile is_tool ms)"
    using list_emb_append_mono [OF subseq_order.refl that, of "takeWhile is_tool ms"] by simp
  moreover have "subseq (repairToolPairing (dropWhile is_tool ms)) ms"
    if "subseq (repairToolPairing (dropWhile is_tool ms)) (dropWhile is_tool ms)"
    using subseq_order.trans [OF that suffix_imp_subseq [OF suffix_dropWhile]] .
  ultimately show ?case using 3 by (auto simp: Let_def)
qed auto

text \<open>
  C14. The repair of a trimmed history.  Its result is a subsequence of the history in which every
  tool call is answered right behind its message and every tool message answers such a call; a
  history that is paired already is not changed, so repairing twice is repairing once.
\<close>

theorem repair_tool_pairs:
  "paired (repairToolPairing ms) \<and> subseq (repairToolPairing ms) ms
   \<and> repairToolPairing (repairToolPairing ms) = repairToolPairing ms
   \<and> (repairToolPairing ms = ms \<longleftrightarrow> paired ms)"
  using repair_paired [of ms] repair_subseq [of ms] repair_id by metis

section \<open>Estimates of parts of a history\<close>

lemma weight_Cons: "messages_weight (m # ms) =
    (case m of None \<Rightarrow> messages_weight ms
     | Some x \<Rightarrow> (case message_weight x of None \<Rightarrow> None | Some a \<Rightarrow> map_option ((+) a) (messages_weight ms)))"
  by (cases m) auto

lemma weight_subseq:
  assumes "subseq xs ys" and "messages_weight ys = Some n"
  shows "\<exists>k \<le> n. messages_weight xs = Some k"
  using assms
proof (induction arbitrary: n)
  case (list_emb_Nil ys)
  then show ?case by simp
next
  case (list_emb_Cons xs ys y)
  from list_emb_Cons.prems obtain n' where "messages_weight ys = Some n'" "n' \<le> n"
    by (auto simp: weight_Cons split: option.splits)
  with list_emb_Cons.IH show ?case by (meson le_trans)
next
  case (list_emb_Cons2 x y xs ys)
  from list_emb_Cons2.prems obtain n' where n': "messages_weight ys = Some n'"
    by (auto simp: weight_Cons split: option.splits)
  with list_emb_Cons2.IH obtain k where "k \<le> n'" "messages_weight xs = Some k" by blast
  with n' list_emb_Cons2 show ?case by (auto simp: weight_Cons split: option.splits)
qed

lemma int_of_float_mono: "0 \<le> x \<Longrightarrow> x \<le> y \<Longrightarrow> int_of_float x \<le> int_of_float y"
  by (simp add: int_of_float_def floor_mono)

lemma int_of_float_nonneg: "0 \<le> x \<Longrightarrow> 0 \<le> int_of_float x"
  by (simp add: int_of_float_def)

lemma estimate_subseq:
  assumes "subseq xs ys" and "gd_Estimate g ys = Some n"
  shows "\<exists>k \<le> n. gd_Estimate g xs = Some k"
proof -
  obtain b where b: "messages_weight ys = Some b"
    and n: "n = (if b div 4 = 0 then 0 else if gd_calibrated g \<and> 0 < gd_ema g
                 then int_of_float (of_nat (b div 4) * gd_ema g) else int (b div 4))"
    using assms(2) by (auto simp: gd_Estimate_def EstimateTokens_def bind_eq_Some_conv)
  obtain a where a: "a \<le> b" "messages_weight xs = Some a" using weight_subseq [OF assms(1) b] by blast
  then have le: "a div 4 \<le> b div 4" by (simp add: div_le_mono)
  have "int_of_float (of_nat (a div 4) * gd_ema g) \<le> int_of_float (of_nat (b div 4) * gd_ema g)" if "0 < gd_ema g"
    using le that by (intro int_of_float_mono) (auto intro: mult_right_mono)
  moreover have "0 \<le> int_of_float (of_nat (b div 4) * gd_ema g)" if "0 < gd_ema g"
    using that by (intro int_of_float_nonneg) simp
  ultimately show ?thesis
    using a(2) n le by (auto simp: gd_Estimate_def EstimateTokens_def)
qed

section \<open>Compaction\<close>

text \<open>The configurations under which no compaction panics.\<close>

definition safe_config :: "'w guard_config \<Rightarrow> bool" where
  "safe_config c \<longleftrightarrow> 0 < ToolTruncateLength c \<and> 0 < MaxLines c \<and> 0 < MinPreserve c \<and>
     0 \<le> KeepHeadRatio c \<and> KeepHeadRatio c \<le> 1 \<and>
     (Strategy c = CompactSmart \<longrightarrow> MinPreserve c div 2 \<le> MaxLines c)"

lemma int_of_float_le:
  assumes "0 \<le> r" and "r \<le> 1" and "0 \<le> n"
  shows "int_of_float (of_int n * r) \<le> n"
proof -
  have "of_int n * r \<le> of_int n" using assms by (simp add: mult_left_le)
  then have "\<lfloor>of_int n * r\<rfloor> \<le> n" by (metis floor_mono floor_of_int)
  then show ?thesis using assms by (simp add: int_of_float_def)
qed

lemma int_of_float_ge: "0 \<le> r \<Longrightarrow> 0 \<le> n \<Longrightarrow> 0 \<le> int_of_float (of_int n * r)"
  by (simp add: int_of_float_nonneg)

lemma simple_lines_total:
  assumes "0 \<le> r" and "0 < mp"
  shows "simple_lines maxLines r mp content \<noteq> None"
proof (cases "maxLines > 0 \<and> int (length (split_lines content)) > maxLines")
  case True
  let ?keep = "max (int_of_float (of_int maxLines * r)) (min mp (maxLines div 2))"
  have "0 \<le> ?keep" using int_of_float_ge [OF assms(1), of maxLines] True by (simp add: max_def)
  then have "0 \<le> int (length (split_lines content)) - (if maxLines - ?keep < 1 then 1 else maxLines - ?keep)"
    using True by simp
  then show ?thesis using True by (simp add: simple_lines_def lines_from_def Let_def)
qed (auto simp: simple_lines_def Let_def)

definition cut_head :: "int \<Rightarrow> rat \<Rightarrow> int \<Rightarrow> int" where
  "cut_head maxChars r mp = max (int_of_float (of_int maxChars * r)) (min (mp * 20) (maxChars div 2))"

lemma cut_head_bounds:
  assumes "0 \<le> r" and "r \<le> 1" and "0 < mp" and "0 < maxChars"
  shows "0 \<le> cut_head maxChars r mp" and "cut_head maxChars r mp \<le> maxChars"
proof -
  have "maxChars div 2 \<le> maxChars" using assms(4) by linarith
  then have "min (mp * 20) (maxChars div 2) \<le> maxChars" by (simp add: min_le_iff_disj)
  moreover have "0 \<le> min (mp * 20) (maxChars div 2)" using assms(3,4) by simp
  ultimately show "0 \<le> cut_head maxChars r mp" and "cut_head maxChars r mp \<le> maxChars"
    using int_of_float_le [OF assms(1,2), of maxChars] assms(4) by (auto simp: cut_head_def)
qed

lemma simple_cut_eq:
  assumes "0 \<le> r" and "r \<le> 1" and "0 < mp" and "0 < maxChars" and "maxChars < n"
  shows "simple_cut maxChars r mp n = (cut_head maxChars r mp, max 1 (maxChars - cut_head maxChars r mp))"
proof -
  define H where "H = cut_head maxChars r mp"
  define B where "B = min (mp * 20) (200::int)"
  have H: "0 \<le> H" "H \<le> maxChars" using cut_head_bounds [OF assms(1-4)] by (simp_all add: H_def)
  have "simple_cut maxChars r mp n =
     (let t0 = maxChars - H; t1 = (if t0 < B then B else t0);
          t2 = (if t1 > maxChars - H then maxChars - H else t1);
          t3 = (if t2 < 1 then 1 else t2); t4 = (if H + t3 > n then n - H else t3) in (H, t4))"
    by (simp only: simple_cut_def H_def B_def cut_head_def Let_def)
  also have "\<dots> = (H, max 1 (maxChars - H))"
  proof -
    have "(if (if maxChars - H < B then B else maxChars - H) > maxChars - H then maxChars - H
           else if maxChars - H < B then B else maxChars - H) = maxChars - H" by simp
    then show ?thesis using H assms(5) by (simp add: Let_def max_def)
  qed
  finally show ?thesis by (simp add: H_def)
qed

lemma simple_chars_total:
  assumes "0 \<le> r" and "r \<le> 1" and "0 < mp"
  shows "simple_chars maxChars r mp content \<noteq> None"
proof (cases "maxChars > 0 \<and> int (length (runes content)) > maxChars")
  case True
  let ?n = "int (length (runes content))"
  have "0 < maxChars" "maxChars < ?n" using True by simp_all
  from simple_cut_eq [OF assms this] cut_head_bounds [OF assms this(1)] True
  show ?thesis by (auto simp: simple_chars_def Let_def max_def)
qed (auto simp: simple_chars_def Let_def)

lemma compactSimple_total:
  assumes "0 \<le> r" and "r \<le> 1" and "0 < mp"
  shows "compactSimple content maxChars maxLines r mp \<noteq> None"
proof -
  obtain c1 m1 where "simple_lines maxLines r mp content = Some (c1, m1)"
    using simple_lines_total [OF assms(1,3)] by fastforce
  moreover obtain c2 m2 where "simple_chars maxChars r mp c1 = Some (c2, m2)"
    using simple_chars_total [OF assms] by fastforce
  ultimately show ?thesis by (simp add: compactSimple_def)
qed

lemma compactContent_total: "safe_config (gd_cfg g) \<Longrightarrow> compactContent g content \<noteq> None"
proof -
  assume safe: "safe_config (gd_cfg g)"
  let ?c = "gd_cfg g"
  have simple: "compactSimple content m l (KeepHeadRatio ?c) (MinPreserve ?c) \<noteq> None" for m l
    using safe by (intro compactSimple_total) (auto simp: safe_config_def)
  moreover have "compactSmart content m (MaxLines ?c) (KeepHeadRatio ?c) (MinPreserve ?c) \<noteq> None"
    if "Strategy ?c = CompactSmart" for m
    using simple safe that int_of_float_ge [of "KeepHeadRatio ?c" "MaxLines ?c"]
    by (auto simp: compactSmart_def Let_def lines_from_def safe_config_def)
  moreover have "compactSummary content m (MaxLines ?c) (KeepHeadRatio ?c) (MinPreserve ?c) \<noteq> None" for m
    by (simp add: compactSummary_def Let_def)
  ultimately show ?thesis
    by (auto simp: compactContent_def compactContentWithCfg_def Let_def)
qed

lemma compactMessages_total:
  assumes "safe_config (gd_cfg g)"
  shows "\<exists>ms'. compactMessages g ms = Some ms' \<and> length ms' = length ms"
proof (induction ms)
  case (Cons m ms)
  then obtain ms' where ms': "compactMessages g ms = Some ms'" "length ms' = length ms" by blast
  show ?case
  proof (cases m)
    case (Some x)
    obtain c where "compactContent g (msg_content x) = Some c"
      using compactContent_total [OF assms] by blast
    then show ?thesis using ms' Some by simp
  qed (use ms' in simp)
qed simp

text \<open>Whether a weight is defined does not depend on the text content.\<close>

lemma message_weight_content:
  "message_weight m \<noteq> None \<Longrightarrow> message_weight (m\<lparr>msg_content := c\<rparr>) \<noteq> None"
  by (auto simp: message_weight_def split: option.splits list.splits)

lemma compactMessages_weight:
  assumes "compactMessages g ms = Some ms'" and "messages_weight ms \<noteq> None"
  shows "messages_weight ms' \<noteq> None"
  using assms
proof (induction ms arbitrary: ms')
  case (Cons m ms)
  show ?case
  proof (cases m)
    case None
    then show ?thesis using Cons by auto
  next
    case (Some x)
    then obtain c rest where "compactMessages g ms = Some rest" "ms' = Some (x\<lparr>msg_content := c\<rparr>) # rest"
      using Cons.prems(1) by (auto simp: bind_eq_Some_conv)
    then show ?thesis
      using Cons Some message_weight_content [of x c] by (auto split: option.splits)
  qed
qed simp

section \<open>The result of a trim\<close>

lemma estimate_total: "messages_weight ms \<noteq> None \<Longrightarrow> \<exists>n. gd_Estimate g ms = Some n"
  by (auto simp: gd_Estimate_def EstimateTokens_def)

lemma estimate_drop: "gd_Estimate g (x # xs) = Some n \<Longrightarrow> \<exists>k. gd_Estimate g (x # drop j xs) = Some k"
  using estimate_subseq [of "x # drop j xs" "x # xs" g n] by (auto intro: suffix_imp_subseq suffix_drop)

text \<open>The window fits the budget or has at most two messages.\<close>

lemma trim_window_spec:
  assumes "trimmed = x # xs" and "messages_weight trimmed \<noteq> None" and "1 \<le> k" and "k \<le> length trimmed"
  shows "\<exists>win est. trim_window g budget x trimmed k = Some win \<and> gd_Estimate g win = Some est
         \<and> (est \<le> budget \<or> length win \<le> 2) \<and> win \<noteq> [] \<and> hd win = x \<and> subseq win trimmed"
  using assms(3,4)
proof (induction k rule: less_induct)
  case (less k)
  let ?win = "x # drop (Suc (length trimmed) - k) trimmed"
  have win: "?win = x # drop (length trimmed - k) xs"
    using assms(1) less.prems by (simp add: Suc_diff_le)
  have "subseq (x # drop (length trimmed - k) xs) (x # xs)" by (auto intro: suffix_imp_subseq suffix_drop)
  then have sub: "subseq ?win trimmed" by (simp only: win) (simp only: assms(1))
  obtain n where "gd_Estimate g trimmed = Some n" using estimate_total assms(2) by blast
  then obtain est where est: "gd_Estimate g ?win = Some est" using estimate_subseq [OF sub] by blast
  have len: "length ?win = k" using less.prems by simp
  show ?case
  proof (cases "est \<le> budget \<or> k \<le> 2")
    case True
    then have "trim_window g budget x trimmed k = Some ?win"
      using est by (subst trim_window.simps) (simp add: Let_def)
    moreover have "est \<le> budget \<or> length ?win \<le> 2" using True len by auto
    ultimately show ?thesis using est sub by (intro exI [of _ ?win] exI [of _ est]) simp
  next
    case False
    then have "trim_window g budget x trimmed k = trim_window g budget x trimmed ((k + 1) div 2)"
      using est by (subst trim_window.simps) (simp add: Let_def)
    moreover have "(k + 1) div 2 < k" "1 \<le> (k + 1) div 2" "(k + 1) div 2 \<le> length trimmed"
      using False less.prems by linarith+
    ultimately show ?thesis using less.IH [of "(k + 1) div 2"] by simp
  qed
qed

text \<open>
  C13. Trimming a history to a budget.  With a configuration under which no compaction panics, \<open>Trim\<close>
  returns for every history whose images are present.  The result is estimated within the budget or
  has at most two messages; unless it is reported truncated it is the given history, and when the
  window had to be cut its tool calls and answers are paired.
\<close>

theorem trim_fits_budget:
  assumes "safe_config (gd_cfg g)" and "messages_weight msgs \<noteq> None" and "0 < budget"
  shows "\<exists>result report est. Trim g msgs budget = Some (result, report) \<and> gd_Estimate g result = Some est
       \<and> (est \<le> budget \<or> length result \<le> 2) \<and> tr_originalSize report = length msgs
       \<and> tr_finalSize report = length result \<and> length result \<le> length msgs
       \<and> (\<not> tr_truncated report \<longrightarrow> result = msgs)
       \<and> (tr_strategy report = ''window'' \<longrightarrow> paired result)"
proof -
  obtain est where est: "gd_Estimate g msgs = Some est" using estimate_total [OF assms(2)] ..
  obtain trimmed where comp: "compactMessages g msgs = Some trimmed" and len: "length trimmed = length msgs"
    using compactMessages_total [OF assms(1)] by blast
  have wt: "messages_weight trimmed \<noteq> None" by (rule compactMessages_weight [OF comp assms(2)])
  obtain est2 where est2: "gd_Estimate g trimmed = Some est2" using estimate_total [OF wt] ..
  consider "est \<le> budget" | "budget < est" "est2 \<le> budget" | "budget < est" "budget < est2" by linarith
  then show ?thesis
  proof cases
    case 1
    then show ?thesis using est assms(3) by (simp add: Trim_def Let_def blank_report_def)
  next
    case 2
    then show ?thesis using est assms(3) comp len est2 by (simp add: Trim_def Let_def blank_report_def)
  next
    case 3
    have "trimmed \<noteq> []" using est2 3(2) assms(3) by (auto simp: gd_Estimate_def EstimateTokens_def)
    then obtain x xs where x: "trimmed = x # xs" by (cases trimmed) auto
    let ?k = "window_size (length trimmed) budget est2"
    have "1 \<le> ?k" "?k \<le> length trimmed" using x by (auto simp: window_size_def Let_def)
    from trim_window_spec [OF x wt this, of g budget] obtain win we where
      win: "trim_window g budget x trimmed ?k = Some win" "gd_Estimate g win = Some we"
        "we \<le> budget \<or> length win \<le> 2" "subseq win trimmed" by blast
    define result where "result = repairToolPairing win"
    have sub: "subseq result win" by (simp add: result_def repair_subseq)
    obtain re where re: "gd_Estimate g result = Some re" "re \<le> we" using estimate_subseq [OF sub win(2)] by blast
    have "length result \<le> length win" "length win \<le> length trimmed"
      using sub win(4) by (auto dest: list_emb_length)
    then have fits: "re \<le> budget \<or> length result \<le> 2" and lenr: "length result \<le> length msgs"
      using re(2) win(3) len by linarith+
    have "Trim g msgs budget = Some (result, (blank_report (length msgs))\<lparr>tr_truncated := True,
        tr_finalSize := length result, tr_strategy := ''window''\<rparr>)"
      using est comp est2 3 assms(3) x win(1)
      by (simp add: Trim_def Let_def result_def)
    then show ?thesis
      using re(1) fits lenr repair_paired [of win]
      by (simp add: result_def [symmetric] blank_report_def)
  qed
qed

theorem trim_fits_budget_witness:
  "\<exists>result report. Trim (NewGuardModule :: unit guard) (replicate 9 (Some (NewUserMessage ''hello, guard''))) 20 = Some (result, report)
     \<and> length result \<le> 9"
proof -
  have safe: "safe_config (gd_cfg (NewGuardModule :: unit guard))"
    by (simp add: safe_config_def NewGuardModule_def defaultGuardConfig_def)
  have "message_weight (NewUserMessage ''hello, guard'') \<noteq> None"
    by (simp add: message_weight_def new_message_defs)
  then have "messages_weight (replicate n (Some (NewUserMessage ''hello, guard''))) \<noteq> None" for n
    by (induction n) (auto split: option.splits)
  from trim_fits_budget [OF safe this, of 20 9] show ?thesis by fastforce
qed

section \<open>What a compaction leaves\<close>

lemma rune_count_ascii: "\<forall>c \<in> set a. of_char c < (128::nat) \<Longrightarrow> rune_count (a @ s) = length a + rune_count s"
  by (simp add: rune_count_def runes_ascii)

lemma rune_count_runes: "\<forall>r \<in> set rs. scalar r \<Longrightarrow> rune_count (string_of_runes rs @ s) = length rs + rune_count s"
  by (simp add: rune_count_def runes_string_of_runes)

lemma itoa_ascii: "c \<in> set (itoa n) \<Longrightarrow> of_char c < (128::nat)"
  using decimal_digits [of "nat n"] decimal_digits [of "nat (- n)"]
  by (cases "n < 0") (fastforce simp: itoa_def)+

definition cut_marker :: "int \<Rightarrow> string" where
  "cut_marker n = newline @ ''... [truncated '' @ itoa n @ '' chars] ...'' @ newline"

lemma cut_marker_ascii: "\<forall>c \<in> set (cut_marker n). of_char c < (128::nat)"
  by (auto simp: cut_marker_def dest: itoa_ascii)

text \<open>
  The size of a compacted tool result.  When the character stage of the simple strategy shortens
  a content it keeps exactly \<open>maxChars\<close> runes of it, a prefix and a suffix, around the marker.  The
  result is therefore always longer than \<open>maxChars\<close>: the next pass compacts it again, and a content
  that exceeds the limit by less than the marker grows.
\<close>

theorem simple_cut_size:
  assumes "0 \<le> r" and "r \<le> 1" and "0 < mp" and "0 < maxChars"
    and "maxChars < int (rune_count content)" and "cut_head maxChars r mp < maxChars"
  shows "\<exists>out h t. simple_chars maxChars r mp content = Some (out, True)
       \<and> h + t = nat maxChars
       \<and> runes out = take h (runes content)
            @ map of_char (cut_marker (int (rune_count content) - maxChars))
            @ drop (rune_count content - t) (runes content)
       \<and> nat maxChars < rune_count out"
proof -
  let ?rs = "runes content" and ?n = "int (length (runes content))"
  let ?h = "cut_head maxChars r mp" and ?t = "maxChars - cut_head maxChars r mp"
  have n: "maxChars < ?n" using assms(5) by (simp add: rune_count_def)
  have b: "0 \<le> ?h" "?h \<le> maxChars" using cut_head_bounds [OF assms(1-4)] by simp_all
  have cut: "simple_cut maxChars r mp ?n = (?h, ?t)"
    using simple_cut_eq [OF assms(1-4) n] assms(6) by (simp add: max_def)
  define out where "out = string_of_runes (take (nat ?h) ?rs) @ cut_marker (?n - maxChars) @
      string_of_runes (drop (nat (?n - ?t)) ?rs) @ []"
  have d: "nat (?n - ?t) = rune_count content - nat ?t"
    using b n assms(6) by (simp add: rune_count_def nat_diff_distrib')
  have "simple_chars maxChars r mp content = Some (out, True)"
    using cut b n assms(4,6) by (simp add: simple_chars_def Let_def out_def cut_marker_def)
  moreover have rs: "runes out = take (nat ?h) ?rs @ map of_char (cut_marker (?n - maxChars)) @ drop (nat (?n - ?t)) ?rs"
    unfolding out_def
    by (subst runes_string_of_runes, force dest: in_set_takeD intro: runes_scalar)
      (subst runes_ascii [OF cut_marker_ascii], subst runes_string_of_runes,
        force dest: in_set_dropD intro: runes_scalar, simp)
  moreover have sum: "nat ?h + nat ?t = nat maxChars" using b by (simp flip: nat_add_distrib)
  moreover have "nat maxChars < rune_count out"
  proof -
    have "length (take (nat ?h) ?rs) = nat ?h" "length (drop (nat (?n - ?t)) ?rs) = nat ?t"
      using b n assms(6) by simp_all
    moreover have "0 < length (cut_marker (?n - maxChars))" by (simp add: cut_marker_def)
    ultimately show ?thesis using sum by (simp only: rune_count_def rs length_append length_map)
  qed
  ultimately have "simple_chars maxChars r mp content = Some (out, True) \<and> nat ?h + nat ?t = nat maxChars
      \<and> runes out = take (nat ?h) (runes content)
            @ map of_char (cut_marker (int (rune_count content) - maxChars))
            @ drop (rune_count content - nat ?t) (runes content)
      \<and> nat maxChars < rune_count out"
    by (simp only: d rune_count_def simp_thms)
  then show ?thesis by blast
qed

subsection \<open>Configurations that panic\<close>

text \<open>A line limit below half of the preserved lines makes the smart strategy read a negative index;
  a head ratio above one, which the constructor accepts, makes the simple strategy slice too far.\<close>

lemma smart_strategy_panics:
  assumes "length (split_lines content) = 4"
  shows "compactSmart content maxChars 3 (1 / 2) 10 = None"
  using assms by (simp add: compactSmart_def lines_from_def Let_def int_of_float_def)

lemma head_ratio_panics:
  assumes "rune_count content = 11"
  shows "simple_chars 10 2 10 content = None"
    and "KeepHeadRatio (gd_cfg (NewGuardModuleWith (defaultGuardConfig\<lparr>KeepHeadRatio := 2\<rparr>))) = 2"
  using assms
  by (simp_all add: simple_chars_def simple_cut_def rune_count_def int_of_float_def Let_def
      NewGuardModuleWith_def NewGuardModule_def defaultGuardConfig_def resolve_field_def)

text \<open>A negative value keeps the default, where the documentation says that it disables.\<close>

lemma negative_keeps_default:
  "MaxLines c < 0 \<Longrightarrow> MaxLines (gd_cfg (NewGuardModuleWith c)) = 50"
  "TokenBudget c < 0 \<Longrightarrow> TokenBudget (gd_cfg (NewGuardModuleWith c)) = 123904"
  by (simp_all add: NewGuardModuleWith_def NewGuardModule_def defaultGuardConfig_def resolve_field_def Let_def)

text \<open>Every configuration the constructor makes has positive limits.\<close>

lemma constructed_config_positive:
  "let c = gd_cfg (NewGuardModuleWith c0) in 0 < TokenBudget c \<and> 0 < CompactThreshold c \<and> CompactThreshold c \<le> 1 \<and>
     0 < MinBudget c \<and> 0 < ToolTruncateLength c \<and> 0 < MaxLines c \<and> 0 < KeepHeadRatio c \<and> 0 < MinPreserve c"
  by (simp add: NewGuardModuleWith_def NewGuardModule_def defaultGuardConfig_def resolve_field_def Let_def)

section \<open>What was dropped\<close>

lemma count_keys_add:
  "count_keys ms f k = f k + length (filter (\<lambda>m. messageKey m = k) ms)"
  by (induction ms arbitrary: f) auto

lemma drop_counted_count:
  "length (filter (\<lambda>m. messageKey m = k) (drop_counted ms f)) = length (filter (\<lambda>m. messageKey m = k) ms) - f k"
  by (induction ms arbitrary: f) (auto simp: Let_def)

lemma drop_counted_subseq: "subseq (drop_counted ms f) ms"
  by (induction ms arbitrary: f) (auto simp: Let_def)

text \<open>
  The account of dropped messages.  The messages reported as dropped are a subsequence of the
  history before the trim, and for every key (role, tool call, tool name, content) as many are
  reported as the trim removed.
\<close>

theorem dropped_messages_account:
  "subseq (droppedMessages before after) (non_nil before)
   \<and> length (filter (\<lambda>m. messageKey m = k) (droppedMessages before after))
       = length (filter (\<lambda>m. messageKey m = k) (non_nil before))
           - length (filter (\<lambda>m. messageKey m = k) (non_nil after))"
  by (simp add: droppedMessages_def drop_counted_subseq drop_counted_count count_keys_add)

section \<open>Calibration\<close>

text \<open>The ratio a calibration observes, if it observes one.\<close>

definition observed :: "int \<Rightarrow> messages \<Rightarrow> rat option" where
  "observed actual msgs = (if actual \<le> 0 \<or> msgs = [] then None
     else (case EstimateTokens msgs of None \<Rightarrow> None
           | Some est \<Rightarrow> if est = 0 then None else Some (of_int actual / of_nat est)))"

fun calibrate_all :: "(int \<times> messages) list \<Rightarrow> 'w guard \<Rightarrow> 'w guard option" where
  "calibrate_all [] g = Some g"
| "calibrate_all ((a, ms) # os) g = Option.bind (Calibrate a ms g) (calibrate_all os)"

lemma Calibrate_eq:
  assumes "Calibrate a ms g = Some g'"
  shows "g' = (case observed a ms of None \<Rightarrow> g
     | Some x \<Rightarrow> if gd_calibrated g then g\<lparr>gd_ema := 3 / 10 * x + 7 / 10 * gd_ema g\<rparr>
                 else g\<lparr>gd_ema := x, gd_calibrated := True\<rparr>)"
  using assms
  by (cases "EstimateTokens ms") (auto simp: Calibrate_def observed_def Let_def split: if_splits)

lemma Calibrate_bounds:
  assumes "Calibrate a ms g = Some g'" and "\<And>x. observed a ms = Some x \<Longrightarrow> lo \<le> x \<and> x \<le> hi"
    and "gd_calibrated g \<Longrightarrow> lo \<le> gd_ema g \<and> gd_ema g \<le> hi"
  shows "gd_calibrated g' \<Longrightarrow> lo \<le> gd_ema g' \<and> gd_ema g' \<le> hi"
proof -
  assume cal: "gd_calibrated g'"
  show "lo \<le> gd_ema g' \<and> gd_ema g' \<le> hi"
  proof (cases "observed a ms")
    case None
    then have "g' = g" using Calibrate_eq [OF assms(1)] by simp
    then show ?thesis using assms(3) cal by simp
  next
    case (Some x)
    then have x: "lo \<le> x" "x \<le> hi" using assms(2) by auto
    have g': "gd_ema g' = (if gd_calibrated g then 3 / 10 * x + 7 / 10 * gd_ema g else x)"
      using Calibrate_eq [OF assms(1)] Some by simp
    show ?thesis
    proof (cases "gd_calibrated g")
      case True
      then have "lo \<le> gd_ema g" "gd_ema g \<le> hi" using assms(3) by auto
      then show ?thesis using x g' True by simp
    qed (use x g' in simp)
  qed
qed

text \<open>
  The calibration factor stays within what was observed.  After any sequence of calibrations of a
  fresh guard, if every observed ratio of actual to estimated tokens lies between two bounds (that
  include 1), so does the factor.
\<close>

theorem calibration_within_observations:
  assumes "calibrate_all os NewGuardModule = Some g" and "lo \<le> 1" and "1 \<le> hi"
    and "\<And>a ms x. (a, ms) \<in> set os \<Longrightarrow> observed a ms = Some x \<Longrightarrow> lo \<le> x \<and> x \<le> hi"
  shows "lo \<le> CalibrationFactor g \<and> CalibrationFactor g \<le> hi"
proof -
  have "gd_calibrated g \<Longrightarrow> lo \<le> gd_ema g \<and> gd_ema g \<le> hi"
    if "calibrate_all os g0 = Some g" "\<And>a ms x. (a, ms) \<in> set os \<Longrightarrow> observed a ms = Some x \<Longrightarrow> lo \<le> x \<and> x \<le> hi"
      "gd_calibrated g0 \<Longrightarrow> lo \<le> gd_ema g0 \<and> gd_ema g0 \<le> hi" for g0
    using that
  proof (induction os g0 rule: calibrate_all.induct)
    case (2 a ms os g0)
    obtain g1 where g1: "Calibrate a ms g0 = Some g1" "calibrate_all os g1 = Some g"
      using "2.prems" by (auto simp: bind_eq_Some_conv)
    have "gd_calibrated g1 \<Longrightarrow> lo \<le> gd_ema g1 \<and> gd_ema g1 \<le> hi"
      by (rule Calibrate_bounds [OF g1(1)]) (use "2.prems" in auto)
    then show ?case using "2.IH" [OF g1(1) _ g1(2)] "2.prems" by auto
  qed simp
  from this [OF assms(1) assms(4)] show ?thesis
    using assms(2,3) by (auto simp: CalibrationFactor_def NewGuardModule_def)
qed

theorem simple_cut_size_witness:
  "\<exists>out. simple_chars 4 (1 / 2) 1 ''abcdef'' = Some (out, True) \<and> 4 < rune_count out"
proof -
  have n: "rune_count ''abcdef'' = 6"
    using rune_count_ascii [of "''abcdef''" "[]"] by (simp add: rune_count_def)
  have "cut_head 4 (1 / 2) 1 < 4" by (simp add: cut_head_def int_of_float_def)
  then show ?thesis
    using simple_cut_size [of "1 / 2" 1 4 "''abcdef''"] n by fastforce
qed

theorem calibration_within_observations_witness:
  "\<exists>g. calibrate_all [(8, [Some (NewUserMessage ''abcd'')])] (NewGuardModule :: unit guard) = Some g
     \<and> 1 \<le> CalibrationFactor g \<and> CalibrationFactor g \<le> 2"
proof -
  let ?os = "[(8, [Some (NewUserMessage ''abcd'')])]"
  have w: "weightedRuneCount ''abcd'' = 4"
    using runes_ascii [of "''abcd''" "[]"] by (simp add: weightedRuneCount_def is_cjk_def Let_def)
  have est: "EstimateTokens [Some (NewUserMessage ''abcd'')] = Some 4"
    using w by (simp add: EstimateTokens_def message_weight_def new_message_defs)
      (simp add: weightedRuneCount_def Let_def)
  obtain g where g: "calibrate_all ?os (NewGuardModule :: unit guard) = Some g"
    using est by (simp add: Calibrate_def NewGuardModule_def Let_def)
  have "lo \<le> x \<and> x \<le> hi" if "(a, ms) \<in> set ?os" "observed a ms = Some x" "lo = 1" "hi = 2" for a ms x lo hi
    using that est by (simp add: observed_def)
  from calibration_within_observations [OF g, of 1 2] this g show ?thesis by auto
qed

section \<open>Removing old summaries\<close>

lemma index_of_skip:
  "CHR ''<'' \<notin> set p \<Longrightarrow> sub \<noteq> [] \<Longrightarrow> hd sub = CHR ''<'' \<Longrightarrow>
     index_of sub (p @ s) = map_option ((+) (length p)) (index_of sub s)"
proof (induction p)
  case (Cons c p)
  have "\<not> has_prefix ((c # p) @ s) sub"
    using Cons.prems by (cases sub) (auto simp: has_prefix_def)
  then show ?case using Cons by (cases "index_of sub s") auto
qed (cases "index_of sub s"; simp)

lemma index_of_here: "sub \<noteq> [] \<Longrightarrow> index_of sub (sub @ s) = Some 0"
  by (cases sub) (auto simp: has_prefix_def)

text \<open>The opening tag is not found inside the closing tag.\<close>

lemma open_not_in_close:
  "CHR ''<'' \<notin> set y \<Longrightarrow> index_of summaryOpen (summaryClose @ y @ summaryOpen @ z) = Some (20 + length y)"
proof -
  assume y: "CHR ''<'' \<notin> set y"
  have "index_of summaryOpen (summaryClose @ y @ summaryOpen @ z)
      = map_option Suc (index_of summaryOpen ((tl summaryClose @ y) @ summaryOpen @ z))"
    by (simp add: has_prefix_def)
  also have "index_of summaryOpen ((tl summaryClose @ y) @ summaryOpen @ z) = Some (19 + length y)"
    by (subst index_of_skip) (use y in \<open>simp_all add: index_of_here [of summaryOpen z, simplified]\<close>)
  finally show ?thesis by simp
qed

definition tight :: "string \<Rightarrow> bool" where
  "tight s \<longleftrightarrow> s \<noteq> [] \<and> \<not> is_space (hd s) \<and> \<not> is_space (last s)"

lemma TrimSpace_tight: "tight s \<Longrightarrow> TrimSpace s = s"
  by (simp add: tight_def TrimSpace_def dropWhile_eq_self_iff [THEN iffD2] hd_rev)

text \<open>A prompt in which a closing tag stands before the first opening tag.\<close>

definition dangling :: "string \<Rightarrow> string \<Rightarrow> string \<Rightarrow> string" where
  "dangling p y z = p @ summaryClose @ y @ summaryOpen @ z"

lemma cut_middle:
  "length c = n \<Longrightarrow> take (length p + (n + length y)) (p @ c @ y @ r) = p @ c @ y"
  "length c = n \<Longrightarrow> drop (length p + n) (p @ c @ y @ r) = y @ r"
  by simp_all

lemma outer_ends:
  assumes "c \<noteq> []" and "d \<noteq> []"
  shows "hd (p @ c @ y @ d @ z) = hd (p @ c)" and "last (p @ c @ y @ d @ z) = last (d @ z)"
  using assms by (auto simp: hd_append last_append)

lemma dangling_round:
  assumes "CHR ''<'' \<notin> set p" and "CHR ''<'' \<notin> set y" and "tight (dangling p y z)"
  shows "index_of summaryOpen (dangling p y z) = Some (length p + (20 + length y))"
    and "index_of summaryClose (dangling p y z) = Some (length p)"
    and "TrimSpace (take (length p + (20 + length y)) (dangling p y z)
           @ drop (length p + length summaryClose) (dangling p y z)) = dangling p (y @ y) z"
    and "tight (dangling p (y @ y) z)"
proof -
  show "index_of summaryOpen (dangling p y z) = Some (length p + (20 + length y))"
    unfolding dangling_def
    by (subst index_of_skip [OF assms(1)], simp, simp, subst open_not_in_close [OF assms(2)], simp)
  show "index_of summaryClose (dangling p y z) = Some (length p)"
    unfolding dangling_def
    by (subst index_of_skip [OF assms(1)], simp, simp, subst index_of_here, simp, simp)
  have len: "length summaryClose = 20" by simp
  show tight': "tight (dangling p (y @ y) z)"
    using assms(3) outer_ends [of summaryClose summaryOpen p y z] outer_ends [of summaryClose summaryOpen p "y @ y" z]
    unfolding tight_def dangling_def append_assoc by simp
  have "take (length p + (20 + length y)) (dangling p y z) @ drop (length p + length summaryClose) (dangling p y z)
      = dangling p (y @ y) z"
    unfolding dangling_def len cut_middle [OF len] by (simp only: append_assoc)
  then show "TrimSpace (take (length p + (20 + length y)) (dangling p y z)
           @ drop (length p + length summaryClose) (dangling p y z)) = dangling p (y @ y) z"
    using TrimSpace_tight [OF tight'] by (simp only:)
qed

text \<open>
  A closing tag before the opening tag hangs the guard.  On a system prompt in which a closing
  summary tag stands before the first opening tag, the removal of old summaries never returns: every
  round of its loop copies the text between the tags.  A summary text that contains the closing tag
  leaves such a prompt behind.
\<close>

theorem strip_summary_diverges:
  assumes "CHR ''<'' \<notin> set p" and "CHR ''<'' \<notin> set y" and "tight (dangling p y z)"
  shows "stripCompactedSummary (dangling p y z) = None"
proof -
  have "\<forall>y. CHR ''<'' \<notin> set y \<longrightarrow> tight (dangling p y z) \<longrightarrow> c \<noteq> dangling p y z"
    if "stripCompactedSummary c = Some r" for c r
  proof (rule stripCompactedSummary.raw_induct [where P = "\<lambda>c r. \<forall>y. CHR ''<'' \<notin> set y \<longrightarrow>
      tight (dangling p y z) \<longrightarrow> c \<noteq> dangling p y z", OF _ that], intro allI impI notI)
    fix loop c r y
    assume IH: "\<And>c r. loop c = Some r \<Longrightarrow> \<forall>y. CHR ''<'' \<notin> set y \<longrightarrow> tight (dangling p y z) \<longrightarrow> c \<noteq> dangling p y z"
      and eq: "(case index_of summaryOpen c of
          None \<Rightarrow> Some c
        | Some start \<Rightarrow> (case index_of summaryClose c of
              None \<Rightarrow> Some c
            | Some close \<Rightarrow> loop (TrimSpace (take start c @ drop (close + length summaryClose) c)))) = Some r"
      and y: "CHR ''<'' \<notin> set y" and t: "tight (dangling p y z)" and c: "c = dangling p y z"
    note round = dangling_round [OF assms(1) y t]
    have "loop (dangling p (y @ y) z) = Some r"
      using eq unfolding c round(1,2) option.case round(3) .
    from IH [OF this] have "CHR ''<'' \<notin> set (y @ y) \<longrightarrow> tight (dangling p (y @ y) z) \<longrightarrow> False" by blast
    then show False using y round(4) by simp
  qed
  then show ?thesis using assms(2,3) by (cases "stripCompactedSummary (dangling p y z)") auto
qed

theorem strip_summary_diverges_witness:
  "stripCompactedSummary (''You are X.'' @ summaryClose @ newline @ summaryOpen @ ''old'' @ summaryClose) = None"
  using strip_summary_diverges [of "''You are X.''" newline "''old'' @ summaryClose"]
  by (simp add: dangling_def tight_def is_space_def)

text \<open>One removal leaves the dangling tag of a summary that contains the closing tag.\<close>

lemma summary_leaves_dangling_tag:
  "stripCompactedSummary (''P'' @ summaryOpen @ ''s'' @ summaryClose @ ''t'' @ summaryClose)
     = Some (''P'' @ ''t'' @ summaryClose)"
  by (subst stripCompactedSummary.simps, simp add: has_prefix_def TrimSpace_def is_space_def)
    (subst stripCompactedSummary.simps, simp add: has_prefix_def)

end
