(* ===== verification/EventHub.thy ===== *)
theory EventHub
  imports GoPrelude "HOL-Library.Sublist"
begin

text \<open>
  The stream event hub (core/hub/hub.go): a broadcast to subscribers with
  bounded queues and a bounded replay buffer per stream.

  A subscriber is its queue (the buffered channel) and the events it has read
  so far.  Publish holds the mutex, but a reader does not need it: a reader may
  empty its queue between any two of the three select statements of the
  delivery.  How many events it reads in front of each of them is the argument
  \<open>reads\<close> of Publish.  The event interface is a record of its two methods; the
  counter \<open>next\<close> is a natural number (2^64 subscriptions are out of reach).
\<close>

section \<open>Data\<close>

record 'e event_methods =
  StreamID :: "'e \<Rightarrow> string"
  Seq :: "'e \<Rightarrow> int"

record 'e subscriber =
  sub_id :: nat
  sub_queue :: "'e list"
  sub_read :: "'e list"

record 'e hub =
  hub_next :: nat
  hub_subs :: "'e subscriber list"
  hub_closed :: "'e subscriber list"
  hub_recent :: "string \<Rightarrow> 'e list option"
  hub_subBuffer :: nat
  hub_replayCap :: nat

record hub_options =
  opt_subBuffer :: int
  opt_replayCap :: int

definition WithSubscriberBuffer :: "int \<Rightarrow> hub_options \<Rightarrow> hub_options" where
  "WithSubscriberBuffer n o' = o'\<lparr>opt_subBuffer := n\<rparr>"

definition WithReplayCap :: "int \<Rightarrow> hub_options \<Rightarrow> hub_options" where
  "WithReplayCap n o' = o'\<lparr>opt_replayCap := n\<rparr>"

definition hub_defaults :: "hub_options \<Rightarrow> hub_options" where
  "hub_defaults o' =
    (let o1 = (if opt_subBuffer o' \<le> 0 then o'\<lparr>opt_subBuffer := 512\<rparr> else o')
     in if opt_replayCap o1 \<le> 0 then o1\<lparr>opt_replayCap := 512\<rparr> else o1)"

definition NewHub :: "(hub_options \<Rightarrow> hub_options) list \<Rightarrow> 'e hub" where
  "NewHub opts =
    (let o' = hub_defaults (fold (\<lambda>opt. opt) opts \<lparr>opt_subBuffer = 512, opt_replayCap = 512\<rparr>)
     in \<lparr>hub_next = 0, hub_subs = [], hub_closed = [], hub_recent = (\<lambda>_. None),
         hub_subBuffer = nat (opt_subBuffer o'), hub_replayCap = nat (opt_replayCap o')\<rparr>)"

section \<open>Channels\<close>

text \<open>A reader takes the oldest queued events, as many as there are.\<close>

definition read_some :: "nat \<Rightarrow> 'e subscriber \<Rightarrow> 'e subscriber" where
  "read_some n c = c\<lparr>sub_queue := drop n (sub_queue c), sub_read := sub_read c @ take n (sub_queue c)\<rparr>"

text \<open>A send with a default case: it happens when the queue has room.\<close>

definition try_send :: "nat \<Rightarrow> 'e \<Rightarrow> 'e subscriber \<Rightarrow> 'e subscriber option" where
  "try_send cap ev c =
    (if length (sub_queue c) < cap then Some (c\<lparr>sub_queue := sub_queue c @ [ev]\<rparr>) else None)"

definition deliver_to :: "nat \<Rightarrow> nat \<times> nat \<times> nat \<Rightarrow> 'e \<Rightarrow> 'e subscriber \<Rightarrow> 'e subscriber" where
  "deliver_to cap r ev c =
    (let c1 = read_some (fst r) c
     in case try_send cap ev c1 of
          Some c2 \<Rightarrow> c2
        | None \<Rightarrow>
           let c2 = read_some (fst (snd r)) c1;
               c3 = c2\<lparr>sub_queue := tl (sub_queue c2)\<rparr>;
               c4 = read_some (snd (snd r)) c3
           in case try_send cap ev c4 of Some c5 \<Rightarrow> c5 | None \<Rightarrow> c4)"

section \<open>Operations\<close>

definition retain :: "'e event_methods \<Rightarrow> nat \<Rightarrow> 'e \<Rightarrow> (string \<Rightarrow> 'e list option) \<Rightarrow> string \<Rightarrow> 'e list option" where
  "retain M cap ev recent =
    (let sid = StreamID M ev
     in if sid = [] then recent
        else let buf = (case recent sid of None \<Rightarrow> [] | Some b \<Rightarrow> b) @ [ev]
             in recent(sid \<mapsto> if length buf > cap then drop (length buf - cap) buf else buf))"

definition Publish :: "'e event_methods \<Rightarrow> (nat \<Rightarrow> nat \<times> nat \<times> nat) \<Rightarrow> 'e \<Rightarrow> 'e hub \<Rightarrow> 'e hub" where
  "Publish M reads ev h =
    h\<lparr>hub_recent := retain M (hub_replayCap h) ev (hub_recent h),
      hub_subs := map (\<lambda>c. deliver_to (hub_subBuffer h) (reads (sub_id c)) ev c) (hub_subs h)\<rparr>"

definition hub_Subscribe :: "'e hub \<Rightarrow> nat \<times> 'e hub" where
  "hub_Subscribe h =
    (let i = hub_next h + 1
     in (i, h\<lparr>hub_next := i, hub_subs := hub_subs h @ [\<lparr>sub_id = i, sub_queue = [], sub_read = []\<rparr>]\<rparr>))"

text \<open>
  The closure hub_Subscribe returns runs its body once: afterwards the id is gone
  from the active subscribers.  A closed channel keeps its queued events.
\<close>

definition Unsubscribe :: "nat \<Rightarrow> 'e hub \<Rightarrow> 'e hub" where
  "Unsubscribe i h =
    h\<lparr>hub_subs := filter (\<lambda>c. sub_id c \<noteq> i) (hub_subs h),
      hub_closed := hub_closed h @ filter (\<lambda>c. sub_id c = i) (hub_subs h)\<rparr>"

definition Replay :: "'e event_methods \<Rightarrow> string \<Rightarrow> int \<Rightarrow> 'e hub option \<Rightarrow> 'e list option" where
  "Replay M streamID afterSeq oh =
    (case oh of
       None \<Rightarrow> None
     | Some h \<Rightarrow>
        if streamID = [] then None
        else case hub_recent h streamID of
               None \<Rightarrow> None
             | Some buf \<Rightarrow> Some (filter (\<lambda>ev. Seq M ev > afterSeq) buf))"

definition Forget :: "string \<Rightarrow> 'e hub \<Rightarrow> 'e hub" where
  "Forget streamID h =
    (if streamID = [] then h else h\<lparr>hub_recent := (hub_recent h)(streamID := None)\<rparr>)"

definition hub_Len :: "'e hub \<Rightarrow> nat" where
  "hub_Len h = length (hub_subs h)"

text \<open>A reader of any channel, active or closed.\<close>

definition Receive :: "nat \<Rightarrow> nat \<Rightarrow> 'e hub \<Rightarrow> 'e hub" where
  "Receive i n h =
    h\<lparr>hub_subs := map (\<lambda>c. if sub_id c = i then read_some n c else c) (hub_subs h),
      hub_closed := map (\<lambda>c. if sub_id c = i then read_some n c else c) (hub_closed h)\<rparr>"

datatype 'e hub_event =
    OpPublish "nat \<Rightarrow> nat \<times> nat \<times> nat" 'e
  | OpSubscribe
  | OpUnsubscribe nat
  | OpForget string
  | OpReceive nat nat

fun hub_op :: "'e event_methods \<Rightarrow> 'e hub_event \<Rightarrow> 'e hub \<Rightarrow> 'e hub" where
  "hub_op M (OpPublish reads ev) h = Publish M reads ev h"
| "hub_op M OpSubscribe h = snd (hub_Subscribe h)"
| "hub_op M (OpUnsubscribe i) h = Unsubscribe i h"
| "hub_op M (OpForget s) h = Forget s h"
| "hub_op M (OpReceive i n) h = Receive i n h"

definition hub_run :: "'e event_methods \<Rightarrow> 'e hub_event list \<Rightarrow> 'e hub \<Rightarrow> 'e hub" where
  "hub_run M ops h = fold (hub_op M) ops h"

lemma hub_run_snoc [simp]: "hub_run M (ops @ [x]) h = hub_op M x (hub_run M ops h)"
  by (simp add: hub_run_def)

lemma hub_run_Nil [simp]: "hub_run M [] h = h"
  by (simp add: hub_run_def)

section \<open>What the hub promises\<close>

text \<open>
  The abstract hub keeps everything: the whole history of every stream since it
  was last forgotten, and for every subscriber everything published while it was
  subscribed.
\<close>

record 'e hub_spec =
  sp_next :: nat
  sp_active :: "(nat \<times> 'e list) list"
  sp_left :: "(nat \<times> 'e list) list"
  sp_logs :: "string \<Rightarrow> 'e list option"

definition spec_new :: "'e hub_spec" where
  "spec_new = \<lparr>sp_next = 0, sp_active = [], sp_left = [], sp_logs = (\<lambda>_. None)\<rparr>"

definition spec_log :: "'e event_methods \<Rightarrow> 'e \<Rightarrow> (string \<Rightarrow> 'e list option) \<Rightarrow> string \<Rightarrow> 'e list option" where
  "spec_log M ev logs =
    (if StreamID M ev = [] then logs
     else logs(StreamID M ev \<mapsto> (case logs (StreamID M ev) of None \<Rightarrow> [] | Some l \<Rightarrow> l) @ [ev]))"

fun spec_op :: "'e event_methods \<Rightarrow> 'e hub_event \<Rightarrow> 'e hub_spec \<Rightarrow> 'e hub_spec" where
  "spec_op M (OpPublish reads ev) s =
     s\<lparr>sp_active := map (\<lambda>p. (fst p, snd p @ [ev])) (sp_active s), sp_logs := spec_log M ev (sp_logs s)\<rparr>"
| "spec_op M OpSubscribe s = s\<lparr>sp_next := sp_next s + 1, sp_active := sp_active s @ [(sp_next s + 1, [])]\<rparr>"
| "spec_op M (OpUnsubscribe i) s =
     s\<lparr>sp_active := filter (\<lambda>p. fst p \<noteq> i) (sp_active s),
       sp_left := sp_left s @ filter (\<lambda>p. fst p = i) (sp_active s)\<rparr>"
| "spec_op M (OpForget n) s = (if n = [] then s else s\<lparr>sp_logs := (sp_logs s)(n := None)\<rparr>)"
| "spec_op M (OpReceive i n) s = s"

definition spec_run :: "'e event_methods \<Rightarrow> 'e hub_event list \<Rightarrow> 'e hub_spec" where
  "spec_run M ops = fold (spec_op M) ops spec_new"

lemma spec_run_snoc [simp]: "spec_run M (ops @ [x]) = spec_op M x (spec_run M ops)"
  by (simp add: spec_run_def)

definition last_n :: "nat \<Rightarrow> 'a list \<Rightarrow> 'a list" where
  "last_n n xs = drop (length xs - n) xs"

lemma last_n_snoc: "0 < n \<Longrightarrow> last_n n (last_n n xs @ [x]) = last_n n (xs @ [x])"
  by (cases "length xs \<le> n") (auto simp: last_n_def Suc_diff_le Suc_diff_Suc)

lemma length_last_n [simp]: "length (last_n n xs) = min n (length xs)"
  by (simp add: last_n_def)

lemma last_n_full: "length xs \<le> n \<Longrightarrow> last_n n xs = xs"
  by (simp add: last_n_def)

lemma last_n_snoc_full: "0 < n \<Longrightarrow> n \<le> length xs \<Longrightarrow> last_n n (xs @ [x]) = tl (last_n n xs) @ [x]"
  by (simp add: last_n_def Suc_diff_le drop_Suc tl_drop)

text \<open>
  What a subscriber has of its log: a subsequence that ends with the newest
  event, within the queue bound; all of it when the log fits the queue, and the
  newest events that fit when it has not read yet.
\<close>

definition receives :: "nat \<Rightarrow> 'e subscriber \<Rightarrow> nat \<times> 'e list \<Rightarrow> bool" where
  "receives cap c p =
    (sub_id c = fst p \<and> length (sub_queue c) \<le> cap \<and>
     subseq (sub_read c @ sub_queue c) (snd p) \<and>
     (snd p \<noteq> [] \<longrightarrow> sub_read c @ sub_queue c \<noteq> [] \<and> last (sub_read c @ sub_queue c) = last (snd p)) \<and>
     (length (snd p) \<le> cap \<longrightarrow> sub_read c @ sub_queue c = snd p) \<and>
     (sub_read c = [] \<longrightarrow> sub_queue c = last_n cap (snd p)))"

definition hub_implements :: "'e event_methods \<Rightarrow> 'e hub \<Rightarrow> 'e hub_spec \<Rightarrow> bool" where
  "hub_implements M h s =
    (hub_next h = sp_next s \<and>
     list_all2 (receives (hub_subBuffer h)) (hub_subs h) (sp_active s) \<and>
     list_all2 (receives (hub_subBuffer h)) (hub_closed h) (sp_left s) \<and>
     hub_recent h = map_option (last_n (hub_replayCap h)) \<circ> sp_logs s \<and>
     0 < hub_subBuffer h \<and> 0 < hub_replayCap h)"

lemma receives_read: "receives cap c p \<Longrightarrow> receives cap (read_some n c) p"
  by (auto simp: receives_def read_some_def)

lemma receives_try_send:
  assumes "try_send cap ev c = Some c'" and "receives cap c (i, l)"
  shows "receives cap c' (i, l @ [ev])"
proof -
  have c': "c' = c\<lparr>sub_queue := sub_queue c @ [ev]\<rparr>" and room: "length (sub_queue c) < cap"
    using assms(1) by (auto simp: try_send_def split: if_splits)
  have "last_n cap l @ [ev] = last_n cap (l @ [ev])" if "sub_queue c = last_n cap l"
    using room that by (simp add: last_n_full)
  then show ?thesis
    using assms(2) room
    by (auto simp: receives_def c' last_n_full subseq_append_le_same_iff simp flip: append_assoc intro: list_emb_append_mono)
qed

text \<open>A send to a full queue: whatever the reader does meanwhile, the event gets in.\<close>

lemma receives_forced:
  assumes full: "\<not> length (sub_queue c) < cap" and cap: "0 < cap" and r: "receives cap c (i, l)"
    and c1: "c1 = read_some b c" and c2: "c2 = read_some n (c1\<lparr>sub_queue := tl (sub_queue c1)\<rparr>)"
  shows "\<exists>c3. try_send cap ev c2 = Some c3 \<and> receives cap c3 (i, l @ [ev])"
proof -
  let ?q = "sub_queue c" and ?r = "sub_read c"
  let ?rest = "tl (drop b ?q)"
  have len: "length ?q = cap" using full r by (simp add: receives_def)
  have c2': "sub_read c2 = ?r @ take b ?q @ take n ?rest" "sub_queue c2 = drop n ?rest" "sub_id c2 = sub_id c"
    by (simp_all add: c1 c2 read_some_def)
  have room: "length (drop n ?rest) < cap" using len cap by simp
  let ?c3 = "c2\<lparr>sub_queue := drop n ?rest @ [ev]\<rparr>"
  have sent: "try_send cap ev c2 = Some ?c3" using room by (simp add: try_send_def c2')
  have sub: "subseq (?r @ ?q) l" using r by (simp add: receives_def)
  have "subseq ?rest (drop b ?q)" by (cases "drop b ?q") auto
  then have "subseq (?r @ take b ?q @ ?rest) (?r @ take b ?q @ drop b ?q)"
    by (intro list_emb_append_mono subseq_order.order_refl)
  then have seen: "subseq (?r @ take b ?q @ ?rest) l" using sub by (metis append_take_drop_id subseq_order.order_trans)
  have long: "cap \<le> length l" using list_emb_length [OF sub] len by simp
  have quiet: "drop n ?rest @ [ev] = last_n cap (l @ [ev])" if "?r = []" "take b ?q = []" "take n ?rest = []"
  proof -
    have "b = 0" using that(2) len cap by auto
    then have "drop n ?rest = tl ?q" using that(3) by (metis append_Nil append_take_drop_id drop0)
    moreover have "?q = last_n cap l" using r that(1) by (simp add: receives_def)
    ultimately show ?thesis using last_n_snoc_full [OF cap long] by simp
  qed
  have whole: "sub_read ?c3 @ sub_queue ?c3 = (?r @ take b ?q @ ?rest) @ [ev]"
    by (simp add: c2')
  have "subseq (sub_read ?c3 @ sub_queue ?c3) (l @ [ev])"
    unfolding whole by (intro list_emb_append_mono seen) simp
  moreover have "sub_id ?c3 = i" using r by (simp add: receives_def c2')
  moreover have "sub_read ?c3 = [] \<longrightarrow> sub_queue ?c3 = last_n cap (l @ [ev])"
    using quiet by (simp add: c2')
  moreover have "length (sub_queue ?c3) \<le> cap" using room by simp
  ultimately have "receives cap ?c3 (i, l @ [ev])"
    unfolding receives_def using whole long by simp
  with sent show ?thesis by blast
qed

lemma receives_deliver:
  assumes "0 < cap" and "receives cap c (i, l)"
  shows "receives cap (deliver_to cap rd ev c) (i, l @ [ev])"
proof (cases "try_send cap ev (read_some (fst rd) c)")
  case (Some c2)
  then show ?thesis
    using receives_try_send [OF Some receives_read [OF assms(2)]] by (simp add: deliver_to_def)
next
  case None
  then have "\<not> length (sub_queue (read_some (fst rd) c)) < cap" by (auto simp: try_send_def split: if_splits)
  from receives_forced [OF this assms(1) receives_read [OF assms(2)] refl refl, of ev "snd (snd rd)" "fst (snd rd)"]
  show ?thesis using None by (auto simp: deliver_to_def Let_def)
qed

lemma list_all2_mapI: "list_all2 P xs ys \<Longrightarrow> (\<And>x y. P x y \<Longrightarrow> Q (f x) (g y)) \<Longrightarrow> list_all2 Q (map f xs) (map g ys)"
  by (induction rule: list_all2_induct) auto

lemma list_all2_filterI:
  "list_all2 P xs ys \<Longrightarrow> (\<And>x y. P x y \<Longrightarrow> Q x = R y) \<Longrightarrow> list_all2 P (filter Q xs) (filter R ys)"
  by (induction rule: list_all2_induct) auto

lemma retain_log:
  assumes "0 < cap"
  shows "retain M cap ev (map_option (last_n cap) \<circ> logs) = map_option (last_n cap) \<circ> spec_log M ev logs"
proof -
  have "(if length b > cap then drop (length b - cap) b else b) = last_n cap b" for b :: "'a list"
    by (simp add: last_n_def)
  then show ?thesis
    using assms
    by (auto simp: retain_def spec_log_def fun_eq_iff Let_def last_n_snoc last_n_full split: option.splits)
qed

lemma implements_step:
  assumes "hub_implements M h s"
  shows "hub_implements M (hub_op M x h) (spec_op M x s)"
proof (cases x)
  case (OpPublish reads ev)
  then show ?thesis
    using assms
    by (auto simp: hub_implements_def Publish_def retain_log receives_deliver split_def intro!: list_all2_mapI)
next
  case OpSubscribe
  then show ?thesis
    using assms
    by (auto simp: hub_implements_def hub_Subscribe_def Let_def receives_def last_n_def intro!: list_all2_appendI)
next
  case (OpUnsubscribe i)
  then show ?thesis
    using assms
    by (auto simp: hub_implements_def Unsubscribe_def receives_def intro!: list_all2_appendI list_all2_filterI)
next
  case (OpForget n)
  then show ?thesis using assms by (auto simp: hub_implements_def Forget_def fun_eq_iff)
next
  case (OpReceive i n)
  have "list_all2 (receives (hub_subBuffer h)) (map (\<lambda>c. if sub_id c = i then read_some n c else c) xs) ys"
    if "list_all2 (receives (hub_subBuffer h)) xs ys" for xs ys
    using that by (induction rule: list_all2_induct) (auto simp: receives_read)
  then show ?thesis using assms OpReceive by (auto simp: hub_implements_def Receive_def)
qed

lemma implements_run: "hub_implements M (hub_run M ops (NewHub opts)) (spec_run M ops)"
proof (induction ops rule: rev_induct)
  case Nil
  then show ?case
    by (simp add: hub_implements_def NewHub_def spec_run_def spec_new_def Let_def hub_defaults_def fun_eq_iff)
next
  case (snoc x xs)
  then show ?case by (simp add: implements_step)
qed

text \<open>
  C22. Whatever the subscribers, publishers and readers do, every subscriber
  has received a subsequence of what was published to it that ends with the
  newest event, holds at most the buffer's bound, and lost nothing while
  everything fits the buffer; Replay returns the newest retained events of the
  stream behind the watermark, in publish order; Len counts the subscribers
  that have not left.
\<close>

theorem hub_delivery:
  "hub_implements M (hub_run M ops (NewHub opts)) (spec_run M ops) \<and>
   Replay M n after (Some (hub_run M ops (NewHub opts))) =
     (if n = [] then None
      else map_option (\<lambda>l. filter (\<lambda>ev. Seq M ev > after) (last_n (hub_replayCap (hub_run M ops (NewHub opts))) l))
             (sp_logs (spec_run M ops) n)) \<and>
   hub_Len (hub_run M ops (NewHub opts)) = length (sp_active (spec_run M ops))"
proof -
  have h: "hub_implements M (hub_run M ops (NewHub opts)) (spec_run M ops)" by (rule implements_run)
  then have "hub_Len (hub_run M ops (NewHub opts)) = length (sp_active (spec_run M ops))"
    by (auto simp: hub_Len_def hub_implements_def dest: list_all2_lengthD)
  with h show ?thesis
    by (auto simp: Replay_def hub_implements_def split: option.splits)
qed

end
