(* ===== verification/ScopedRegistry.thy ===== *)
theory ScopedRegistry
  imports GoPrelude "HOL-Library.List_Lexorder" "HOL-Library.Char_ord"
begin

text \<open>
  The scoped registry (core/registry/registry.go): registrations at one scope,
  observers whose events bubble up the chain of parents, and views that stack
  registries from the innermost scope outwards and publish the changes of what
  is visible through them.

  Registries live on a heap, a pointer is an address.  An observer is either a
  listener of the host, whose calls are recorded, or the callback that a view's
  change feed installs on one of its layers.  The items of a registry are an
  association list; only Names reads their order, and it sorts.  The observers of
  one registry are called in the order they subscribed (Go's map order is open).
\<close>

section \<open>Data\<close>

type_synonym scope = nat

definition ScopeGlobal :: scope where "ScopeGlobal = 0"
definition ScopeHost :: scope where "ScopeHost = 1"
definition ScopeSession :: scope where "ScopeSession = 2"

definition scope_String :: "scope \<Rightarrow> string" where
  "scope_String s =
    (if s = ScopeGlobal then ''global'' else if s = ScopeHost then ''host''
     else if s = ScopeSession then ''session'' else ''unknown'')"

datatype registry_error = NilParent | EmptyName | ErrNameTaken | ErrParentBound | ErrInvalidParent

record 'v reg_entry =
  en_scope :: scope
  en_name :: string
  en_value :: 'v

datatype observer = NilObserver | Listener nat | FeedLayer nat nat

record 'v reg =
  reg_scope :: scope
  reg_parent :: "nat option"
  reg_items :: "(string \<times> 'v) list"
  reg_watches :: "(nat \<times> observer) list"
  reg_removals :: "(nat \<times> observer) list"
  reg_nextID :: nat

record 'v change =
  ch_name :: string
  ch_value :: 'v
  ch_removed :: bool

datatype 'v reg_notice =
    HeardAdded nat "'v reg_entry"
  | HeardRemoved nat "'v reg_entry"
  | FeedChange nat "'v change"

text \<open>A change feed: the layers of its view and the winning layer of every visible name.\<close>

record feed =
  fd_layers :: "nat list"
  fd_visible :: "string \<Rightarrow> nat option"

record 'v reg_heap =
  rh_count :: nat
  rh_reg :: "nat \<Rightarrow> 'v reg"
  rh_feeds :: "feed list"
  rh_log :: "'v reg_notice list"

definition upd_reg :: "nat \<Rightarrow> ('v reg \<Rightarrow> 'v reg) \<Rightarrow> 'v reg_heap \<Rightarrow> 'v reg_heap" where
  "upd_reg r f h = h\<lparr>rh_reg := (rh_reg h)(r := f (rh_reg h r))\<rparr>"

definition reg_init :: "scope \<Rightarrow> 'v reg" where
  "reg_init s = \<lparr>reg_scope = s, reg_parent = None, reg_items = [], reg_watches = [], reg_removals = [], reg_nextID = 0\<rparr>"

definition NewScopedRegistry :: "scope \<Rightarrow> 'v reg_heap \<Rightarrow> nat \<times> 'v reg_heap" where
  "NewScopedRegistry s h =
    (rh_count h, h\<lparr>rh_count := Suc (rh_count h), rh_reg := (rh_reg h)(rh_count h := reg_init s)\<rparr>)"

definition reg_Get :: "'v reg_heap \<Rightarrow> nat \<Rightarrow> string \<Rightarrow> 'v option" where
  "reg_Get h r name = map_of (reg_items (rh_reg h r)) name"

definition reg_Names :: "'v reg_heap \<Rightarrow> nat \<Rightarrow> string list" where
  "reg_Names h r = sort (map fst (reg_items (rh_reg h r)))"

section \<open>The chain of parents\<close>

text \<open>
  The loop \<open>for p := parent; p != nil; p = p.parent\<close>.  Every parent has a
  smaller scope than its child, so the scope of the first registry bounds it.
\<close>

fun chain_from :: "nat \<Rightarrow> 'v reg_heap \<Rightarrow> nat option \<Rightarrow> nat list" where
  "chain_from _ h None = []"
| "chain_from 0 h (Some p) = []"
| "chain_from (Suc n) h (Some p) = p # chain_from n h (reg_parent (rh_reg h p))"

definition chain :: "'v reg_heap \<Rightarrow> nat option \<Rightarrow> nat list" where
  "chain h p = chain_from (case p of None \<Rightarrow> 0 | Some q \<Rightarrow> Suc (reg_scope (rh_reg h q))) h p"

definition LinkParent :: "nat \<Rightarrow> nat option \<Rightarrow> 'v reg_heap \<Rightarrow> registry_error option \<times> 'v reg_heap" where
  "LinkParent r parent h =
    (case parent of
       None \<Rightarrow> (Some NilParent, h)
     | Some p \<Rightarrow>
        if reg_parent (rh_reg h r) \<noteq> None then (Some ErrParentBound, h)
        else if reg_scope (rh_reg h p) \<ge> reg_scope (rh_reg h r) then (Some ErrInvalidParent, h)
        else if r \<in> set (chain h parent) then (Some ErrInvalidParent, h)
        else (None, upd_reg r (\<lambda>g. g\<lparr>reg_parent := parent\<rparr>) h))"

section \<open>Change feeds\<close>

definition upd_feed :: "nat \<Rightarrow> string \<Rightarrow> nat option \<Rightarrow> 'v reg_heap \<Rightarrow> 'v reg_heap" where
  "upd_feed f name w h =
    h\<lparr>rh_feeds := (rh_feeds h)[f := (rh_feeds h ! f)\<lparr>fd_visible := (fd_visible (rh_feeds h ! f))(name := w)\<rparr>]\<rparr>"

definition note_event :: "'v reg_notice \<Rightarrow> 'v reg_heap \<Rightarrow> 'v reg_heap" where
  "note_event e h = h\<lparr>rh_log := rh_log h @ [e]\<rparr>"

definition feed_added :: "nat \<Rightarrow> nat \<Rightarrow> 'v reg_entry \<Rightarrow> 'v reg_heap \<Rightarrow> 'v reg_heap" where
  "feed_added f idx e h =
    (let ch = FeedChange f \<lparr>ch_name = en_name e, ch_value = en_value e, ch_removed = False\<rparr>
     in case fd_visible (rh_feeds h ! f) (en_name e) of
          None \<Rightarrow> note_event ch (upd_feed f (en_name e) (Some idx) h)
        | Some cur \<Rightarrow>
            if idx < cur then note_event ch (upd_feed f (en_name e) (Some idx) h) else h)"

definition next_winner :: "'v reg_heap \<Rightarrow> nat list \<Rightarrow> nat \<Rightarrow> string \<Rightarrow> nat option" where
  "next_winner h layers idx name =
    find (\<lambda>j. reg_Get h (layers ! j) name \<noteq> None) [Suc idx..<length layers]"

definition feed_removed :: "nat \<Rightarrow> nat \<Rightarrow> 'v reg_entry \<Rightarrow> 'v reg_heap \<Rightarrow> 'v reg_heap" where
  "feed_removed f idx e h =
    (if fd_visible (rh_feeds h ! f) (en_name e) = Some idx then
       case next_winner h (fd_layers (rh_feeds h ! f)) idx (en_name e) of
         Some j \<Rightarrow> upd_feed f (en_name e) (Some j) h
       | None \<Rightarrow> note_event (FeedChange f \<lparr>ch_name = en_name e, ch_value = en_value e, ch_removed = True\<rparr>)
                  (upd_feed f (en_name e) None h)
     else h)"

section \<open>Notification\<close>

fun call_added :: "'v reg_entry \<Rightarrow> observer \<Rightarrow> 'v reg_heap \<Rightarrow> 'v reg_heap" where
  "call_added e NilObserver h = h"
| "call_added e (Listener i) h = note_event (HeardAdded i e) h"
| "call_added e (FeedLayer f idx) h = feed_added f idx e h"

fun call_removed :: "'v reg_entry \<Rightarrow> observer \<Rightarrow> 'v reg_heap \<Rightarrow> 'v reg_heap" where
  "call_removed e NilObserver h = h"
| "call_removed e (Listener i) h = note_event (HeardRemoved i e) h"
| "call_removed e (FeedLayer f idx) h = feed_removed f idx e h"

definition notify_added :: "'v reg_entry \<Rightarrow> nat \<Rightarrow> 'v reg_heap \<Rightarrow> 'v reg_heap" where
  "notify_added e r h = fold (\<lambda>w. call_added e (snd w)) (reg_watches (rh_reg h r)) h"

definition notifyRemoval :: "'v reg_entry \<Rightarrow> nat \<Rightarrow> 'v reg_heap \<Rightarrow> 'v reg_heap" where
  "notifyRemoval e r h = fold (\<lambda>w. call_removed e (snd w)) (reg_removals (rh_reg h r)) h"

definition bubbleUp :: "'v reg_entry \<Rightarrow> nat \<Rightarrow> 'v reg_heap \<Rightarrow> 'v reg_heap" where
  "bubbleUp e r h = fold (notify_added e) (chain h (reg_parent (rh_reg h r))) h"

definition bubbleUpRemoval :: "'v reg_entry \<Rightarrow> nat \<Rightarrow> 'v reg_heap \<Rightarrow> 'v reg_heap" where
  "bubbleUpRemoval e r h = fold (notifyRemoval e) (chain h (reg_parent (rh_reg h r))) h"

definition reg_Register :: "nat \<Rightarrow> string \<Rightarrow> 'v \<Rightarrow> 'v reg_heap \<Rightarrow> registry_error option \<times> 'v reg_heap" where
  "reg_Register r name v h =
    (if name = [] then (Some EmptyName, h)
     else if reg_Get h r name \<noteq> None then (Some ErrNameTaken, h)
     else let e = \<lparr>en_scope = reg_scope (rh_reg h r), en_name = name, en_value = v\<rparr>;
              h1 = upd_reg r (\<lambda>g. g\<lparr>reg_items := reg_items g @ [(name, v)]\<rparr>) h
          in (None, bubbleUp e r (notify_added e r h1)))"

definition reg_Unregister :: "nat \<Rightarrow> string \<Rightarrow> 'v reg_heap \<Rightarrow> bool \<times> 'v reg_heap" where
  "reg_Unregister r name h =
    (case reg_Get h r name of
       None \<Rightarrow> (False, h)
     | Some v \<Rightarrow>
         let e = \<lparr>en_scope = reg_scope (rh_reg h r), en_name = name, en_value = v\<rparr>;
             h1 = upd_reg r (\<lambda>g. g\<lparr>reg_items := filter (\<lambda>p. fst p \<noteq> name) (reg_items g)\<rparr>) h
         in (True, bubbleUpRemoval e r (notifyRemoval e r h1)))"

definition reg_Observe :: "nat \<Rightarrow> observer \<Rightarrow> 'v reg_heap \<Rightarrow> nat \<times> 'v reg_heap" where
  "reg_Observe r fn h =
    (let i = Suc (reg_nextID (rh_reg h r))
     in (i, upd_reg r (\<lambda>g. g\<lparr>reg_nextID := i, reg_watches := reg_watches g @ [(i, fn)]\<rparr>) h))"

definition reg_ObserveRemovals :: "nat \<Rightarrow> observer \<Rightarrow> 'v reg_heap \<Rightarrow> nat \<times> 'v reg_heap" where
  "reg_ObserveRemovals r fn h =
    (let i = Suc (reg_nextID (rh_reg h r))
     in (i, upd_reg r (\<lambda>g. g\<lparr>reg_nextID := i, reg_removals := reg_removals g @ [(i, fn)]\<rparr>) h))"

text \<open>The two cancel functions; a second call finds nothing to delete.\<close>

definition cancel_watch :: "nat \<Rightarrow> nat \<Rightarrow> 'v reg_heap \<Rightarrow> 'v reg_heap" where
  "cancel_watch r i = upd_reg r (\<lambda>g. g\<lparr>reg_watches := filter (\<lambda>w. fst w \<noteq> i) (reg_watches g)\<rparr>)"

definition cancel_removal :: "nat \<Rightarrow> nat \<Rightarrow> 'v reg_heap \<Rightarrow> 'v reg_heap" where
  "cancel_removal r i = upd_reg r (\<lambda>g. g\<lparr>reg_removals := filter (\<lambda>w. fst w \<noteq> i) (reg_removals g)\<rparr>)"

section \<open>Views\<close>

fun view_Resolve :: "'v reg_heap \<Rightarrow> nat list \<Rightarrow> string \<Rightarrow> 'v reg_entry option" where
  "view_Resolve h [] name = None"
| "view_Resolve h (l # ls) name =
    (case reg_Get h l name of
       Some v \<Rightarrow> Some \<lparr>en_scope = reg_scope (rh_reg h l), en_name = name, en_value = v\<rparr>
     | None \<Rightarrow> view_Resolve h ls name)"

definition see_name :: "'v reg_heap \<Rightarrow> nat \<Rightarrow> string \<Rightarrow> 'v reg_entry list \<Rightarrow> 'v reg_entry list" where
  "see_name h l name acc =
    (if name \<in> en_name ` set acc then acc
     else case reg_Get h l name of
            Some v \<Rightarrow> acc @ [\<lparr>en_scope = reg_scope (rh_reg h l), en_name = name, en_value = v\<rparr>]
          | None \<Rightarrow> acc)"

definition see_layer :: "'v reg_heap \<Rightarrow> nat \<Rightarrow> 'v reg_entry list \<Rightarrow> 'v reg_entry list" where
  "see_layer h l seen = fold (see_name h l) (reg_Names h l) seen"

definition view_List :: "'v reg_heap \<Rightarrow> nat list \<Rightarrow> 'v reg_entry list" where
  "view_List h layers = sort_key en_name (fold (see_layer h) layers [])"

definition view_Snapshot :: "'v reg_heap \<Rightarrow> nat list \<Rightarrow> string \<Rightarrow> 'v option" where
  "view_Snapshot h layers =
    fold (\<lambda>e m. m(en_name e \<mapsto> en_value e)) (view_List h layers) (\<lambda>_. None)"

definition feed_start :: "'v reg_heap \<Rightarrow> nat list \<Rightarrow> string \<Rightarrow> nat option" where
  "feed_start h layers =
    fold (\<lambda>i vis. fold (\<lambda>name vis. if vis name = None then vis(name \<mapsto> i) else vis) (reg_Names h (layers ! i)) vis)
      [0..<length layers] (\<lambda>_. None)"

definition feed_watch :: "nat \<Rightarrow> nat list \<Rightarrow> nat \<Rightarrow> 'v reg_heap \<Rightarrow> 'v reg_heap" where
  "feed_watch f layers i h =
    snd (reg_ObserveRemovals (layers ! i) (FeedLayer f i) (snd (reg_Observe (layers ! i) (FeedLayer f i) h)))"

text \<open>
  The snapshot of what is visible and the subscriptions that keep it up to date are one step here, and so are an
  update of a registry and the calls of its observers; the code takes the locks one after the other and calls the
  observers outside them, so concurrent updates can interleave there in ways this model has not.
\<close>

definition ObserveChanges :: "nat list \<Rightarrow> 'v reg_heap \<Rightarrow> nat \<times> 'v reg_heap" where
  "ObserveChanges layers h =
    (let f = length (rh_feeds h);
         h1 = h\<lparr>rh_feeds := rh_feeds h @ [\<lparr>fd_layers = layers, fd_visible = feed_start h layers\<rparr>]\<rparr>
     in (f, fold (feed_watch f layers) [0..<length layers] h1))"

text \<open>The cancel function of a feed runs the cancel functions of all its callbacks.\<close>

definition clear_layer :: "nat \<Rightarrow> nat list \<Rightarrow> nat \<Rightarrow> 'v reg_heap \<Rightarrow> 'v reg_heap" where
  "clear_layer f layers i =
    upd_reg (layers ! i) (\<lambda>g.
      g\<lparr>reg_watches := filter (\<lambda>w. snd w \<noteq> FeedLayer f i) (reg_watches g),
        reg_removals := filter (\<lambda>w. snd w \<noteq> FeedLayer f i) (reg_removals g)\<rparr>)"

definition feed_cancel :: "nat \<Rightarrow> nat list \<Rightarrow> 'v reg_heap \<Rightarrow> 'v reg_heap" where
  "feed_cancel f layers = fold (clear_layer f layers) [0..<length layers]"

section \<open>Runs\<close>

text \<open>The operations of the host; an address stands for a registry only when it was allocated.\<close>

datatype 'v reg_op =
    RNew scope
  | RLink nat "nat option"
  | RRegister nat string 'v
  | RUnregister nat string
  | RObserve nat nat
  | RObserveRemovals nat nat
  | RCancel nat nat
  | RCancelRemoval nat nat
  | RObserveChanges "nat list"
  | RCancelFeed nat

fun is_feed :: "observer \<Rightarrow> bool" where
  "is_feed (FeedLayer _ _) = True"
| "is_feed _ = False"

fun reg_exec :: "'v reg_op \<Rightarrow> 'v reg_heap \<Rightarrow> 'v reg_heap" where
  "reg_exec (RNew s) h = snd (NewScopedRegistry s h)"
| "reg_exec (RLink r p) h =
     (if r < rh_count h \<and> (case p of None \<Rightarrow> True | Some q \<Rightarrow> q < rh_count h) then snd (LinkParent r p h) else h)"
| "reg_exec (RRegister r n v) h = (if r < rh_count h then snd (reg_Register r n v h) else h)"
| "reg_exec (RUnregister r n) h = (if r < rh_count h then snd (reg_Unregister r n h) else h)"
| "reg_exec (RObserve r i) h = (if r < rh_count h then snd (reg_Observe r (Listener i) h) else h)"
| "reg_exec (RObserveRemovals r i) h = (if r < rh_count h then snd (reg_ObserveRemovals r (Listener i) h) else h)"
| "reg_exec (RCancel r i) h =
     (if r < rh_count h \<and> list_all (\<lambda>w. fst w = i \<longrightarrow> \<not> is_feed (snd w)) (reg_watches (rh_reg h r))
      then cancel_watch r i h else h)"
| "reg_exec (RCancelRemoval r i) h =
     (if r < rh_count h \<and> list_all (\<lambda>w. fst w = i \<longrightarrow> \<not> is_feed (snd w)) (reg_removals (rh_reg h r))
      then cancel_removal r i h else h)"
| "reg_exec (RObserveChanges layers) h =
     (if list_all (\<lambda>r. r < rh_count h) layers then snd (ObserveChanges layers h) else h)"
| "reg_exec (RCancelFeed f) h =
     (if f < length (rh_feeds h) then feed_cancel f (fd_layers (rh_feeds h ! f)) h else h)"

definition reg_run :: "'v reg_op list \<Rightarrow> 'v reg_heap \<Rightarrow> 'v reg_heap" where
  "reg_run ops h = fold reg_exec ops h"

definition empty_heap :: "'v reg_heap" where
  "empty_heap = \<lparr>rh_count = 0, rh_reg = (\<lambda>_. reg_init 0), rh_feeds = [], rh_log = []\<rparr>"

section \<open>Frames\<close>

text \<open>A notification changes feeds and the log only.\<close>

lemma upd_feed_frame [simp]:
  "rh_reg (upd_feed f n w h) = rh_reg h" "rh_count (upd_feed f n w h) = rh_count h"
  "length (rh_feeds (upd_feed f n w h)) = length (rh_feeds h)"
  "rh_log (upd_feed f n w h) = rh_log h"
  by (simp_all add: upd_feed_def)

lemma note_event_frame [simp]:
  "rh_reg (note_event e h) = rh_reg h" "rh_count (note_event e h) = rh_count h"
  "rh_feeds (note_event e h) = rh_feeds h" "rh_log (note_event e h) = rh_log h @ [e]"
  by (simp_all add: note_event_def)

lemma upd_reg_frame [simp]:
  "rh_count (upd_reg r f h) = rh_count h" "rh_feeds (upd_reg r f h) = rh_feeds h"
  "rh_log (upd_reg r f h) = rh_log h"
  "rh_reg (upd_reg r f h) q = (if q = r then f (rh_reg h r) else rh_reg h q)"
  by (simp_all add: upd_reg_def)

lemma upd_feed_layers [simp]: "map fd_layers (rh_feeds (upd_feed f n w h)) = map fd_layers (rh_feeds h)"
  by (cases "f < length (rh_feeds h)") (auto simp: upd_feed_def map_update list_update_beyond list_update_same_conv)

definition same_regs :: "'v reg_heap \<Rightarrow> 'v reg_heap \<Rightarrow> bool" where
  "same_regs h h' =
    (rh_reg h' = rh_reg h \<and> rh_count h' = rh_count h \<and>
     map fd_layers (rh_feeds h') = map fd_layers (rh_feeds h))"

lemma same_regs_refl [simp, intro]: "same_regs h h"
  by (simp add: same_regs_def)

lemma same_regs_trans: "same_regs h1 h2 \<Longrightarrow> same_regs h2 h3 \<Longrightarrow> same_regs h1 h3"
  by (simp add: same_regs_def)

lemma same_regs_fold: "(\<And>x h. same_regs h (f x h)) \<Longrightarrow> same_regs h (fold f xs h)"
  by (induction xs arbitrary: h) (auto intro: same_regs_trans)

lemma call_added_frame: "same_regs h (call_added e w h)"
  by (cases w) (auto simp: same_regs_def feed_added_def Let_def split: option.splits)

lemma call_removed_frame: "same_regs h (call_removed e w h)"
  by (cases w) (auto simp: same_regs_def feed_removed_def Let_def split: option.splits)

lemma notify_added_frame: "same_regs h (notify_added e r h)"
  unfolding notify_added_def by (rule same_regs_fold) (rule call_added_frame)

lemma notifyRemoval_frame: "same_regs h (notifyRemoval e r h)"
  unfolding notifyRemoval_def by (rule same_regs_fold) (rule call_removed_frame)

lemma bubbleUp_frame: "same_regs h (bubbleUp e r h)"
  unfolding bubbleUp_def by (rule same_regs_fold) (rule notify_added_frame)

lemma bubbleUpRemoval_frame: "same_regs h (bubbleUpRemoval e r h)"
  unfolding bubbleUpRemoval_def by (rule same_regs_fold) (rule notifyRemoval_frame)

section \<open>The heap of registries is well formed\<close>

definition heap_wf :: "'v reg_heap \<Rightarrow> bool" where
  "heap_wf h =
    ((\<forall>r. distinct (map fst (reg_items (rh_reg h r)))) \<and>
     (\<forall>r p. reg_parent (rh_reg h r) = Some p \<longrightarrow>
        p < rh_count h \<and> r < rh_count h \<and> reg_scope (rh_reg h p) < reg_scope (rh_reg h r)) \<and>
     (\<forall>r \<ge> rh_count h. reg_watches (rh_reg h r) = [] \<and> reg_removals (rh_reg h r) = []) \<and>
     (\<forall>L \<in> set (map fd_layers (rh_feeds h)). \<forall>r \<in> set L. r < rh_count h))"

lemma same_regs_wf: "same_regs h h' \<Longrightarrow> heap_wf h \<Longrightarrow> heap_wf h'"
  unfolding heap_wf_def same_regs_def by metis

lemma heap_wf_upd:
  assumes "heap_wf h" and "r < rh_count h"
    and "distinct (map fst (reg_items (f (rh_reg h r))))"
    and "reg_scope (f (rh_reg h r)) = reg_scope (rh_reg h r)"
    and "reg_parent (f (rh_reg h r)) = reg_parent (rh_reg h r)"
  shows "heap_wf (upd_reg r f h)"
  using assms by (auto simp: heap_wf_def)

lemma heap_wf_items: "heap_wf h \<Longrightarrow> distinct (map fst (reg_items (rh_reg h r)))"
  by (simp add: heap_wf_def)

lemma distinct_map_filter_fst: "distinct (map fst xs) \<Longrightarrow> distinct (map fst (filter P xs))"
  by (rule distinct_map_filter)

lemma heap_wf_Register:
  assumes "heap_wf h" and "r < rh_count h"
  shows "heap_wf (snd (reg_Register r n v h))"
proof -
  let ?h1 = "upd_reg r (\<lambda>g. g\<lparr>reg_items := reg_items g @ [(n, v)]\<rparr>) h"
  have "heap_wf ?h1" if "reg_Get h r n = None"
    using that assms by (intro heap_wf_upd) (auto simp: heap_wf_items reg_Get_def map_of_eq_None_iff)
  then show ?thesis
    using assms(1) by (auto simp: reg_Register_def Let_def intro: same_regs_wf notify_added_frame bubbleUp_frame)
qed

lemma heap_wf_Unregister:
  assumes "heap_wf h" and "r < rh_count h"
  shows "heap_wf (snd (reg_Unregister r n h))"
proof -
  have "heap_wf (upd_reg r (\<lambda>g. g\<lparr>reg_items := filter (\<lambda>p. fst p \<noteq> n) (reg_items g)\<rparr>) h)"
    using assms by (intro heap_wf_upd) (auto simp: heap_wf_items distinct_map_filter_fst)
  then show ?thesis
    using assms(1)
    by (auto simp: reg_Unregister_def Let_def intro: same_regs_wf notifyRemoval_frame bubbleUpRemoval_frame
        split: option.splits)
qed

lemma heap_wf_watch: "heap_wf h \<Longrightarrow> r < rh_count h \<Longrightarrow> heap_wf (snd (reg_Observe r w h))"
  "heap_wf h \<Longrightarrow> r < rh_count h \<Longrightarrow> heap_wf (snd (reg_ObserveRemovals r w h))"
  by (simp_all add: reg_Observe_def reg_ObserveRemovals_def heap_wf_upd heap_wf_items)

lemma watch_frame [simp]:
  "rh_count (snd (reg_Observe r w h)) = rh_count h" "rh_feeds (snd (reg_Observe r w h)) = rh_feeds h"
  "rh_log (snd (reg_Observe r w h)) = rh_log h"
  "rh_count (snd (reg_ObserveRemovals r w h)) = rh_count h"
  "rh_feeds (snd (reg_ObserveRemovals r w h)) = rh_feeds h"
  "rh_log (snd (reg_ObserveRemovals r w h)) = rh_log h"
  by (simp_all add: reg_Observe_def reg_ObserveRemovals_def)

lemma feed_watch_frame [simp]:
  "rh_count (feed_watch f layers i h) = rh_count h" "rh_feeds (feed_watch f layers i h) = rh_feeds h"
  "rh_log (feed_watch f layers i h) = rh_log h"
  by (simp_all add: feed_watch_def)

lemma feed_watches_frame [simp]:
  "rh_count (fold (feed_watch f layers) is h) = rh_count h"
  "rh_feeds (fold (feed_watch f layers) is h) = rh_feeds h"
  "rh_log (fold (feed_watch f layers) is h) = rh_log h"
  by (induction "is" arbitrary: h) simp_all

lemma heap_wf_feed_watches:
  assumes "heap_wf h" and "\<And>i. i \<in> set is \<Longrightarrow> layers ! i < rh_count h"
  shows "heap_wf (fold (feed_watch f layers) is h)"
  using assms by (induction "is" arbitrary: h) (simp_all add: feed_watch_def heap_wf_watch)

lemma heap_wf_ObserveChanges:
  assumes "heap_wf h" and "list_all (\<lambda>r. r < rh_count h) layers"
  shows "heap_wf (snd (ObserveChanges layers h))"
proof -
  have "heap_wf (h\<lparr>rh_feeds := rh_feeds h @ [\<lparr>fd_layers = layers, fd_visible = feed_start h layers\<rparr>]\<rparr>)"
    using assms by (auto simp: heap_wf_def list_all_iff)
  then show ?thesis
    using assms(2) by (auto simp: ObserveChanges_def Let_def list_all_iff intro!: heap_wf_feed_watches)
qed

lemma heap_wf_feed_cancel:
  assumes "heap_wf h" and "\<And>i. i \<in> set is \<Longrightarrow> layers ! i < rh_count h"
  shows "heap_wf (fold (clear_layer f layers) is h)"
  using assms by (induction "is" arbitrary: h) (simp_all add: heap_wf_upd heap_wf_items clear_layer_def)

lemma heap_wf_New: "heap_wf h \<Longrightarrow> heap_wf (snd (NewScopedRegistry s h))"
  by (force simp: heap_wf_def NewScopedRegistry_def reg_init_def)

lemma heap_wf_Link:
  assumes "heap_wf h" and "r < rh_count h" and "case p of None \<Rightarrow> True | Some q \<Rightarrow> q < rh_count h"
  shows "heap_wf (snd (LinkParent r p h))"
  using assms by (auto simp: heap_wf_def LinkParent_def split: option.splits)

lemma heap_wf_exec: "heap_wf h \<Longrightarrow> heap_wf (reg_exec x h)"
proof (cases x)
  case (RCancelFeed f)
  then show "heap_wf h \<Longrightarrow> ?thesis"
    by (auto simp: feed_cancel_def heap_wf_def [of h] intro!: heap_wf_feed_cancel dest!: nth_mem)
qed (auto simp: heap_wf_New heap_wf_Link heap_wf_Register heap_wf_Unregister heap_wf_watch heap_wf_ObserveChanges
       cancel_watch_def cancel_removal_def heap_wf_upd heap_wf_items)

lemma heap_wf_run: "heap_wf h \<Longrightarrow> heap_wf (reg_run ops h)"
  unfolding reg_run_def by (induction ops arbitrary: h) (auto simp: heap_wf_exec)

lemma heap_wf_empty: "heap_wf empty_heap"
  by (simp add: heap_wf_def empty_heap_def reg_init_def)

section \<open>Bubbling reaches every ancestor once\<close>

definition parent_rel :: "'v reg_heap \<Rightarrow> (nat \<times> nat) set" where
  "parent_rel h = {(r, p). reg_parent (rh_reg h r) = Some p}"

lemma rtrancl_first: "{q. (p, q) \<in> R\<^sup>*} = insert p {q. \<exists>p'. (p, p') \<in> R \<and> (p', q) \<in> R\<^sup>*}"
  by (auto elim: converse_rtranclE intro: converse_rtrancl_into_rtrancl)

lemma chain_from_complete:
  assumes "heap_wf h" and "reg_scope (rh_reg h p) < n"
  shows "set (chain_from n h (Some p)) = {q. (p, q) \<in> (parent_rel h)\<^sup>*} \<and>
    sorted_wrt (\<lambda>a b. reg_scope (rh_reg h b) < reg_scope (rh_reg h a)) (chain_from n h (Some p)) \<and>
    (\<forall>q \<in> set (chain_from n h (Some p)). reg_scope (rh_reg h q) \<le> reg_scope (rh_reg h p))"
  using assms(2)
proof (induction n arbitrary: p)
  case (Suc n)
  show ?case
  proof (cases "reg_parent (rh_reg h p)")
    case None
    then show ?thesis by (subst rtrancl_first) (auto simp: parent_rel_def)
  next
    case (Some p')
    then have lt: "reg_scope (rh_reg h p') < reg_scope (rh_reg h p)"
      using assms(1) by (simp add: heap_wf_def)
    then have "reg_scope (rh_reg h p') < n" using Suc.prems by simp
    note ih = Suc.IH [OF this]
    have "{q. \<exists>p''. (p, p'') \<in> parent_rel h \<and> (p'', q) \<in> (parent_rel h)\<^sup>*} = {q. (p', q) \<in> (parent_rel h)\<^sup>*}"
      using Some by (auto simp: parent_rel_def)
    then have "{q. (p, q) \<in> (parent_rel h)\<^sup>*} = insert p {q. (p', q) \<in> (parent_rel h)\<^sup>*}"
      using rtrancl_first [of p "parent_rel h"] by simp
    then show ?thesis using ih lt Some by fastforce
  qed
qed simp

lemma chain_ancestors:
  assumes wf: "heap_wf h"
  shows "set (chain h (reg_parent (rh_reg h r))) = {q. (r, q) \<in> (parent_rel h)\<^sup>+} \<and>
    distinct (r # chain h (reg_parent (rh_reg h r)))"
proof (cases "reg_parent (rh_reg h r)")
  case None
  then have "(r, q) \<notin> (parent_rel h)\<^sup>+" for q by (auto simp: parent_rel_def dest!: tranclD)
  then show ?thesis using None by (simp add: chain_def)
next
  case (Some p)
  let ?c = "chain_from (Suc (reg_scope (rh_reg h p))) h (Some p)"
  have lt: "reg_scope (rh_reg h p) < reg_scope (rh_reg h r)" using Some wf by (simp add: heap_wf_def)
  have c: "set ?c = {q. (p, q) \<in> (parent_rel h)\<^sup>*}"
    and sorted: "sorted_wrt (\<lambda>a b. reg_scope (rh_reg h b) < reg_scope (rh_reg h a)) ?c"
    and below: "\<forall>q \<in> set ?c. reg_scope (rh_reg h q) \<le> reg_scope (rh_reg h p)"
    using chain_from_complete [OF wf, of p "Suc (reg_scope (rh_reg h p))"] by blast+
  have "distinct xs" if "sorted_wrt (\<lambda>a b. reg_scope (rh_reg h b) < reg_scope (rh_reg h a)) xs" for xs
    using that by (induction xs) auto
  moreover have "(r, q) \<in> (parent_rel h)\<^sup>+ \<longleftrightarrow> (p, q) \<in> (parent_rel h)\<^sup>*" for q
    using Some by (auto simp: parent_rel_def trancl_unfold_left)
  ultimately show ?thesis using c sorted below lt Some by (auto simp: chain_def simp del: chain_from.simps)
qed

lemma chain_cycle_check_redundant:
  "heap_wf h \<Longrightarrow> reg_scope (rh_reg h p) < reg_scope (rh_reg h r) \<Longrightarrow> r \<notin> set (chain h (Some p))"
  using chain_from_complete [of h p "Suc (reg_scope (rh_reg h p))"] by (fastforce simp: chain_def)

section \<open>Views\<close>

definition winner :: "'v reg_heap \<Rightarrow> nat list \<Rightarrow> string \<Rightarrow> nat option" where
  "winner h layers name = find (\<lambda>j. reg_Get h (layers ! j) name \<noteq> None) [0..<length layers]"

lemma winner_Some:
  "winner h layers n = Some j \<longleftrightarrow>
     j < length layers \<and> reg_Get h (layers ! j) n \<noteq> None \<and> (\<forall>i < j. reg_Get h (layers ! i) n = None)"
  by (auto simp: winner_def find_Some_iff)

lemma winner_None: "winner h layers n = None \<longleftrightarrow> (\<forall>l \<in> set layers. reg_Get h l n = None)"
  by (auto simp: winner_def find_None_iff all_set_conv_all_nth)

lemma resolve_None: "view_Resolve h layers n = None \<longleftrightarrow> (\<forall>l \<in> set layers. reg_Get h l n = None)"
  by (induction layers) (auto split: option.splits)

lemma view_append: "view_Resolve h (xs @ ys) n =
    (case view_Resolve h xs n of None \<Rightarrow> view_Resolve h ys n | Some e \<Rightarrow> Some e)"
  by (induction xs) (auto split: option.splits)

lemma resolve_name: "view_Resolve h layers n = Some e \<Longrightarrow> en_name e = n"
  by (induction layers) (auto split: option.splits)

text \<open>List collects the resolved entry of every visible name.\<close>

definition lists_view :: "'v reg_heap \<Rightarrow> nat list \<Rightarrow> 'v reg_entry list \<Rightarrow> bool" where
  "lists_view h layers seen =
    (distinct (map en_name seen) \<and> (\<forall>e. e \<in> set seen \<longleftrightarrow> view_Resolve h layers (en_name e) = Some e))"

lemma lists_view_names: "lists_view h layers seen \<Longrightarrow> n \<in> en_name ` set seen \<longleftrightarrow> view_Resolve h layers n \<noteq> None"
  by (auto simp: lists_view_def image_iff dest: resolve_name)

text \<open>One layer: the names not seen yet are added with the entry of this layer.\<close>

definition layer_entry :: "'v reg_heap \<Rightarrow> nat \<Rightarrow> string \<Rightarrow> 'v reg_entry option" where
  "layer_entry h l n =
    map_option (\<lambda>v. \<lparr>en_scope = reg_scope (rh_reg h l), en_name = n, en_value = v\<rparr>) (reg_Get h l n)"

lemma resolve_snoc: "view_Resolve h (ls @ [l]) n =
    (case view_Resolve h ls n of None \<Rightarrow> layer_entry h l n | Some e \<Rightarrow> Some e)"
  by (auto simp: view_append layer_entry_def split: option.splits)

lemma see_names:
  assumes "distinct (map en_name acc)"
  shows "distinct (map en_name (fold (see_name h l) names acc)) \<and>
    (\<forall>e. e \<in> set (fold (see_name h l) names acc) \<longleftrightarrow> e \<in> set acc \<or>
        (en_name e \<in> set names \<and> en_name e \<notin> en_name ` set acc \<and> layer_entry h l (en_name e) = Some e))"
  using assms
proof (induction names arbitrary: acc)
  case (Cons m ms)
  show ?case
  proof (cases "m \<in> en_name ` set acc \<or> reg_Get h l m = None")
    case True
    then have "see_name h l m acc = acc" by (auto simp: see_name_def)
    moreover have "en_name e = m \<Longrightarrow> en_name e \<notin> en_name ` set acc \<Longrightarrow> layer_entry h l (en_name e) \<noteq> Some e" for e
      using True by (auto simp: layer_entry_def)
    ultimately show ?thesis using Cons.IH [OF Cons.prems] by auto
  next
    case False
    then obtain v where v: "reg_Get h l m = Some v" and new: "m \<notin> en_name ` set acc" by auto
    let ?e = "\<lparr>en_scope = reg_scope (rh_reg h l), en_name = m, en_value = v\<rparr>"
    have "distinct (map en_name (acc @ [?e]))" using Cons.prems new by auto
    note ih = Cons.IH [OF this]
    have "layer_entry h l (en_name e) = Some e \<longleftrightarrow> e = ?e" if "en_name e = m" for e
      using v that by (auto simp: layer_entry_def)
    then show ?thesis using ih v new by (auto simp: see_name_def)
  qed
qed simp

lemma see_layer_lists:
  assumes "lists_view h ls seen"
  shows "lists_view h (ls @ [l]) (see_layer h l seen)"
proof -
  have names: "layer_entry h l n \<noteq> None \<Longrightarrow> n \<in> set (reg_Names h l)" for n
    by (auto simp: layer_entry_def reg_Get_def reg_Names_def dest: map_of_SomeD intro: rev_image_eqI)
  have d: "distinct (map en_name seen)" using assms by (simp add: lists_view_def)
  note see = see_names [OF d, of h l "reg_Names h l", folded see_layer_def]
  have "e \<in> set (see_layer h l seen) \<longleftrightarrow> view_Resolve h (ls @ [l]) (en_name e) = Some e" for e
  proof (cases "view_Resolve h ls (en_name e)")
    case None
    then have "en_name e \<notin> en_name ` set seen" using lists_view_names [OF assms] by simp
    moreover have "e \<notin> set seen" using None assms by (simp add: lists_view_def)
    ultimately show ?thesis using see names [of "en_name e"] None by (auto simp: resolve_snoc)
  next
    case (Some e')
    then have "en_name e \<in> en_name ` set seen" using lists_view_names [OF assms] by simp
    then show ?thesis using see Some assms by (auto simp: resolve_snoc lists_view_def)
  qed
  then show ?thesis using see by (simp add: lists_view_def)
qed

lemma view_List_lists: "lists_view h layers (fold (see_layer h) layers [])"
proof (induction layers rule: rev_induct)
  case Nil
  then show ?case by (simp add: lists_view_def)
next
  case (snoc l ls)
  then show ?case by (simp add: see_layer_lists)
qed

lemma fold_upd_entries:
  "distinct (map en_name es) \<Longrightarrow>
   fold (\<lambda>e m. m(en_name e \<mapsto> en_value e)) es m n =
     (case find (\<lambda>e. en_name e = n) es of Some e \<Rightarrow> Some (en_value e) | None \<Rightarrow> m n)"
proof (induction es arbitrary: m)
  case (Cons e es)
  have "en_name e = n \<Longrightarrow> find (\<lambda>e. en_name e = n) es = None"
    using Cons.prems by (auto simp: find_None_iff intro: rev_image_eqI)
  then show ?case using Cons by auto
qed simp

text \<open>
  List holds the resolved entry of every visible name, sorted by name and
  without duplicates, and Snapshot maps every name to the value Resolve finds
  in the innermost layer that has it.
\<close>

theorem view_reads_agree:
  "set (view_List h layers) = {e. view_Resolve h layers (en_name e) = Some e} \<and>
   sorted (map en_name (view_List h layers)) \<and> distinct (map en_name (view_List h layers)) \<and>
   view_Snapshot h layers n = map_option en_value (view_Resolve h layers n) \<and>
   (view_Resolve h layers n = None \<longleftrightarrow> winner h layers n = None)"
proof -
  have l: "lists_view h layers (fold (see_layer h) layers [])" by (rule view_List_lists)
  have set: "set (view_List h layers) = {e. view_Resolve h layers (en_name e) = Some e}"
    using l by (auto simp: view_List_def lists_view_def)
  have d: "distinct (map en_name (view_List h layers))"
    using l by (simp add: view_List_def lists_view_def distinct_map)
  have "find (\<lambda>e. en_name e = n) (view_List h layers) = view_Resolve h layers n"
  proof (cases "find (\<lambda>e. en_name e = n) (view_List h layers)")
    case None
    then have "\<And>e. view_Resolve h layers (en_name e) = Some e \<Longrightarrow> en_name e \<noteq> n"
      using set by (auto simp: find_None_iff)
    then show ?thesis using None resolve_name [of h layers n] by (cases "view_Resolve h layers n") auto
  next
    case (Some e)
    then have "e \<in> set (view_List h layers)" "en_name e = n" by (auto simp: find_Some_iff)
    then show ?thesis using Some set by auto
  qed
  then have "view_Snapshot h layers n = map_option en_value (view_Resolve h layers n)"
    unfolding view_Snapshot_def using fold_upd_entries [OF d] by (auto split: option.splits)
  then show ?thesis
    using set d by (simp add: view_List_def resolve_None winner_None)
qed

section \<open>The change feed follows the view\<close>

abbreviation visible :: "nat \<Rightarrow> 'v reg_heap \<Rightarrow> string \<Rightarrow> nat option" where
  "visible f h \<equiv> fd_visible (rh_feeds h ! f)"

fun apply_change :: "nat \<Rightarrow> 'v reg_notice \<Rightarrow> string set \<Rightarrow> string set" where
  "apply_change f (FeedChange g c) S =
     (if g = f then if ch_removed c then S - {ch_name c} else insert (ch_name c) S else S)"
| "apply_change f _ S = S"

definition apply_changes :: "nat \<Rightarrow> 'v reg_notice list \<Rightarrow> string set \<Rightarrow> string set" where
  "apply_changes f es S = fold (apply_change f) es S"

text \<open>The names a feed shows are the ones its changes give.\<close>

definition published :: "nat \<Rightarrow> 'v reg_heap \<Rightarrow> 'v reg_heap \<Rightarrow> bool" where
  "published f h h' =
    (\<exists>es. rh_log h' = rh_log h @ es \<and> dom (visible f h') = apply_changes f es (dom (visible f h)))"

lemma published_refl: "rh_log h' = rh_log h \<Longrightarrow> rh_feeds h' = rh_feeds h \<Longrightarrow> published f h h'"
  by (simp add: published_def apply_changes_def)

lemma published_trans: "published f h1 h2 \<Longrightarrow> published f h2 h3 \<Longrightarrow> published f h1 h3"
  by (auto simp: published_def apply_changes_def)

lemma published_fold:
  assumes "\<And>x h. f < length (rh_feeds h) \<Longrightarrow> published f h (g x h) \<and> length (rh_feeds (g x h)) = length (rh_feeds h)"
  shows "f < length (rh_feeds h) \<Longrightarrow> published f h (fold g xs h)"
proof (induction xs arbitrary: h)
  case (Cons x xs)
  then show ?case using assms [OF Cons.prems, of x] by (auto intro: published_trans)
qed (simp add: published_refl)

lemma visible_upd [simp]:
  "f < length (rh_feeds h) \<Longrightarrow>
   visible f (upd_feed g n w h) = (if g = f then (visible f h)(n := w) else visible f h)"
  by (simp add: upd_feed_def)

lemma feeds_length_upd: "length (rh_feeds (upd_feed f n w h)) = length (rh_feeds h)"
  by (simp add: upd_feed_def)

lemma same_regs_length: "same_regs h h' \<Longrightarrow> length (rh_feeds h') = length (rh_feeds h)"
  unfolding same_regs_def by (metis length_map)

lemma published_added: "f < length (rh_feeds h) \<Longrightarrow> published f h (call_added e w h)"
  by (cases w) (auto simp: published_def apply_changes_def feed_added_def Let_def split: option.splits)

lemma published_removed: "f < length (rh_feeds h) \<Longrightarrow> published f h (call_removed e w h)"
  by (cases w) (auto simp: published_def apply_changes_def feed_removed_def Let_def split: option.splits)

lemma published_notify:
  assumes "f < length (rh_feeds h)"
  shows "published f h (notify_added e r h)" "published f h (notifyRemoval e r h)"
  unfolding notify_added_def notifyRemoval_def
  by (rule published_fold;
      simp add: assms published_added published_removed same_regs_length [OF call_added_frame]
        same_regs_length [OF call_removed_frame])+

lemma published_bubble:
  assumes "f < length (rh_feeds h)"
  shows "published f h (bubbleUp e r h)" "published f h (bubbleUpRemoval e r h)"
  unfolding bubbleUp_def bubbleUpRemoval_def
  by (rule published_fold;
      simp add: assms published_notify same_regs_length [OF notify_added_frame]
        same_regs_length [OF notifyRemoval_frame])+

lemma published_Register:
  assumes f: "f < length (rh_feeds h)"
  shows "published f h (snd (reg_Register r n v h))"
proof -
  have "published f h (bubbleUp e r (notify_added e r (upd_reg r g h)))" for e g
  proof -
    let ?h1 = "upd_reg r g h"
    have "published f h ?h1" by (rule published_refl) simp_all
    moreover have "published f ?h1 (notify_added e r ?h1)" using f by (simp add: published_notify)
    moreover have "published f (notify_added e r ?h1) (bubbleUp e r (notify_added e r ?h1))"
      using f by (intro published_bubble) (simp add: same_regs_length [OF notify_added_frame])
    ultimately show ?thesis by (blast intro: published_trans)
  qed
  then show ?thesis by (simp add: reg_Register_def Let_def published_refl)
qed

lemma published_Unregister:
  assumes f: "f < length (rh_feeds h)"
  shows "published f h (snd (reg_Unregister r n h))"
proof -
  have "published f h (bubbleUpRemoval e r (notifyRemoval e r (upd_reg r g h)))" for e g
  proof -
    let ?h1 = "upd_reg r g h"
    have "published f h ?h1" by (rule published_refl) simp_all
    moreover have "published f ?h1 (notifyRemoval e r ?h1)" using f by (simp add: published_notify)
    moreover have "published f (notifyRemoval e r ?h1) (bubbleUpRemoval e r (notifyRemoval e r ?h1))"
      using f by (intro published_bubble) (simp add: same_regs_length [OF notifyRemoval_frame])
    ultimately show ?thesis by (blast intro: published_trans)
  qed
  then show ?thesis by (simp add: reg_Unregister_def Let_def published_refl split: option.splits)
qed

lemma clear_layers_frame [simp]:
  "rh_log (fold (clear_layer f L) is h) = rh_log h"
  "rh_feeds (fold (clear_layer f L) is h) = rh_feeds h"
  "rh_count (fold (clear_layer f L) is h) = rh_count h"
  by (induction "is" arbitrary: h) (simp_all add: clear_layer_def)

lemma feed_cancel_frame [simp]:
  "rh_log (feed_cancel f layers h) = rh_log h" "rh_feeds (feed_cancel f layers h) = rh_feeds h"
  "rh_count (feed_cancel f layers h) = rh_count h"
  by (simp_all add: feed_cancel_def)

lemma published_exec:
  assumes f: "f < length (rh_feeds h)"
  shows "published f h (reg_exec x h)"
proof (cases x)
  case (RObserveChanges layers)
  have "visible f (snd (ObserveChanges layers h)) = visible f h"
    using f by (simp add: ObserveChanges_def Let_def nth_append)
  then show ?thesis
    using RObserveChanges by (auto simp: published_def apply_changes_def ObserveChanges_def Let_def)
qed (simp_all add: f published_Register published_Unregister published_refl NewScopedRegistry_def LinkParent_def
      cancel_watch_def cancel_removal_def split: option.splits)

text \<open>The callbacks of feed \<open>f\<close> on registry \<open>r\<close>, and the state the feed keeps of its view.\<close>

definition feed_idx :: "nat \<Rightarrow> (nat \<times> observer) list \<Rightarrow> nat set" where
  "feed_idx f ws = {i. FeedLayer f i \<in> snd ` set ws}"

lemma feed_idx_simps [simp]:
  "feed_idx f [] = {}"
  "feed_idx f (w # ws) = {i. snd w = FeedLayer f i} \<union> feed_idx f ws"
  "feed_idx f (ws @ ws') = feed_idx f ws \<union> feed_idx f ws'"
  by (auto simp: feed_idx_def)

lemma feed_idx_filter: "(\<And>w i. w \<in> set ws \<Longrightarrow> snd w = FeedLayer f i \<Longrightarrow> P w) \<Longrightarrow> feed_idx f (filter P ws) = feed_idx f ws"
  by (force simp: feed_idx_def)

definition watched :: "nat \<Rightarrow> nat list \<Rightarrow> 'v reg_heap \<Rightarrow> bool" where
  "watched f L h =
    (f < length (rh_feeds h) \<and> fd_layers (rh_feeds h ! f) = L \<and> distinct L \<and>
     (\<forall>r. feed_idx f (reg_watches (rh_reg h r)) = {i. i < length L \<and> L ! i = r}) \<and>
     (\<forall>r. feed_idx f (reg_removals (rh_reg h r)) = {i. i < length L \<and> L ! i = r}))"

definition feed_inv :: "nat \<Rightarrow> nat list \<Rightarrow> 'v reg_heap \<Rightarrow> bool" where
  "feed_inv f L h = (watched f L h \<and> (\<forall>n. visible f h n = winner h L n))"

lemma watched_D:
  assumes "watched f L h"
  shows "f < length (rh_feeds h)" "fd_layers (rh_feeds h ! f) = L" "distinct L"
    "feed_idx f (reg_watches (rh_reg h r)) = {i. i < length L \<and> L ! i = r}"
    "feed_idx f (reg_removals (rh_reg h r)) = {i. i < length L \<and> L ! i = r}"
  using assms by (simp_all add: watched_def)

lemma winner_cong: "(\<And>l. l \<in> set L \<Longrightarrow> reg_Get h' l n = reg_Get h l n) \<Longrightarrow> winner h' L n = winner h L n"
  by (auto simp: winner_def intro: find_cong)

lemma feed_inv_same:
  assumes "feed_inv f L h" and "f < length (rh_feeds h')" and "rh_feeds h' ! f = rh_feeds h ! f"
    and "\<And>r. feed_idx f (reg_watches (rh_reg h' r)) = feed_idx f (reg_watches (rh_reg h r))"
    and "\<And>r. feed_idx f (reg_removals (rh_reg h' r)) = feed_idx f (reg_removals (rh_reg h r))"
    and "\<And>r n. r \<in> set L \<Longrightarrow> reg_Get h' r n = reg_Get h r n"
  shows "feed_inv f L h'"
  using assms winner_cong [of L h' _ h] by (simp add: feed_inv_def watched_def)

fun lower :: "nat \<Rightarrow> nat option \<Rightarrow> nat" where
  "lower i None = i"
| "lower i (Some c) = min i c"

lemma lower_twice: "lower i (Some (lower i w)) = lower i w"
  by (cases w) auto

lemma visible_call_added:
  assumes "f < length (rh_feeds h)"
  shows "visible f (call_added e w h) =
    (case w of FeedLayer g i \<Rightarrow> if g = f then (visible f h)(en_name e \<mapsto> lower i (visible f h (en_name e))) else visible f h
     | _ \<Rightarrow> visible f h)"
  using assms
  by (cases w) (auto simp: feed_added_def Let_def fun_eq_iff min_def split: option.splits)

lemma visible_fold_added:
  assumes "f < length (rh_feeds h)" and "feed_idx f ws \<subseteq> {i}"
  shows "visible f (fold (\<lambda>w. call_added e (snd w)) ws h) =
    (if feed_idx f ws = {} then visible f h
     else (visible f h)(en_name e \<mapsto> lower i (visible f h (en_name e))))"
  using assms
proof (induction ws arbitrary: h)
  case (Cons w ws)
  let ?h = "call_added e (snd w) h"
  have len: "f < length (rh_feeds ?h)" using Cons.prems(1) by (simp add: same_regs_length [OF call_added_frame])
  have idx: "feed_idx f ws \<subseteq> {i}" using Cons.prems(2) by simp
  have here: "visible f ?h =
      (if {i. snd w = FeedLayer f i} = {} then visible f h
       else (visible f h)(en_name e \<mapsto> lower i (visible f h (en_name e))))"
    using Cons.prems by (auto simp: visible_call_added split: observer.splits)
  show ?case using Cons.IH [OF len idx] here lower_twice [of i "visible f h (en_name e)"] by auto
qed simp

lemma next_winner_after: "next_winner h L i n = Some j \<Longrightarrow> i < j"
  by (auto simp: next_winner_def find_Some_iff)

lemma next_winner_same: "rh_reg h' = rh_reg h \<Longrightarrow> next_winner h' L i n = next_winner h L i n"
  by (simp add: next_winner_def reg_Get_def)

definition leave :: "'v reg_heap \<Rightarrow> nat list \<Rightarrow> nat \<Rightarrow> string \<Rightarrow> nat option \<Rightarrow> nat option" where
  "leave h L i n w = (if w = Some i then next_winner h L i n else w)"

lemma leave_twice: "leave h L i n (leave h L i n w) = leave h L i n w"
  by (auto simp: leave_def dest: next_winner_after)

lemma leave_same: "rh_reg h' = rh_reg h \<Longrightarrow> leave h' L i n w = leave h L i n w"
  using next_winner_same [of h' h L i n] by (simp add: leave_def)

lemma visible_call_removed:
  assumes "f < length (rh_feeds h)"
  shows "visible f (call_removed e w h) =
    (case w of FeedLayer g i \<Rightarrow>
        if g = f then (visible f h)(en_name e := leave h (fd_layers (rh_feeds h ! f)) i (en_name e) (visible f h (en_name e)))
        else visible f h
     | _ \<Rightarrow> visible f h)"
  using assms
  by (cases w) (auto simp: feed_removed_def leave_def Let_def fun_eq_iff split: option.splits)

lemma same_regs_D:
  assumes "same_regs h h'"
  shows "rh_reg h' = rh_reg h" "length (rh_feeds h') = length (rh_feeds h)"
    "f < length (rh_feeds h) \<Longrightarrow> fd_layers (rh_feeds h' ! f) = fd_layers (rh_feeds h ! f)"
  using assms by (simp add: same_regs_def) (metis assms same_regs_length, metis assms same_regs_def nth_map same_regs_length)

lemma visible_fold_removed:
  assumes "f < length (rh_feeds h)" and "feed_idx f ws \<subseteq> {i}"
  shows "visible f (fold (\<lambda>w. call_removed e (snd w)) ws h) =
    (if feed_idx f ws = {} then visible f h
     else (visible f h)(en_name e := leave h (fd_layers (rh_feeds h ! f)) i (en_name e) (visible f h (en_name e))))"
  using assms
proof (induction ws arbitrary: h)
  case (Cons w ws)
  let ?h = "call_removed e (snd w) h"
  let ?L = "fd_layers (rh_feeds h ! f)"
  note frame = same_regs_D [OF call_removed_frame [of h e "snd w"]]
  have len: "f < length (rh_feeds ?h)" using Cons.prems(1) by (simp add: frame(2))
  have idx: "feed_idx f ws \<subseteq> {i}" using Cons.prems(2) by simp
  have here: "visible f ?h =
      (if {i. snd w = FeedLayer f i} = {} then visible f h
       else (visible f h)(en_name e := leave h ?L i (en_name e) (visible f h (en_name e))))"
    using Cons.prems by (auto simp: visible_call_removed split: observer.splits)
  have again: "leave ?h (fd_layers (rh_feeds ?h ! f)) i m u = leave h ?L i m u" for m u
    using frame(3) [OF Cons.prems(1)] leave_same [OF frame(1)] by simp
  show ?case using Cons.IH [OF len idx] here leave_twice [of h ?L i "en_name e"] by (auto simp: again)
qed simp

lemma fold_untouched:
  assumes "\<And>a h. same_regs h (g a h)"
    and "\<And>a h. a \<in> set as \<Longrightarrow> f < length (rh_feeds h) \<Longrightarrow> rh_reg h = R \<Longrightarrow> visible f (g a h) = visible f h"
    and "rh_reg h = R" and "f < length (rh_feeds h)"
  shows "visible f (fold g as h) = visible f h"
  using assms(2-)
proof (induction as arbitrary: h)
  case (Cons a as)
  have "rh_reg (g a h) = R" "f < length (rh_feeds (g a h))"
    using same_regs_D(1,2) [OF assms(1) [of h a]] Cons.prems(2,3) by simp_all
  then show ?case using Cons by simp
qed simp

lemma childless_chain:
  assumes "heap_wf h" and "\<forall>r p. reg_parent (rh_reg h r) = Some p \<longrightarrow> p \<notin> S" and "a \<in> set (chain h (reg_parent (rh_reg h r)))"
  shows "a \<notin> S"
proof -
  have "(r, a) \<in> (parent_rel h)\<^sup>+" using chain_ancestors [OF assms(1)] assms(3) by blast
  then show ?thesis using assms(2) by (auto simp: parent_rel_def dest!: tranclD2)
qed

lemma index_unique: "distinct L \<Longrightarrow> i < length L \<Longrightarrow> {j. j < length L \<and> L ! j = L ! i} = {i}"
  by (auto simp: nth_eq_iff_index_eq)

lemma layer_idx:
  assumes "distinct L"
  shows "(\<exists>i < length L. L ! i = r \<and> {j. j < length L \<and> L ! j = r} = {i}) \<or>
    (r \<notin> set L \<and> {j. j < length L \<and> L ! j = r} = {})"
proof (cases "r \<in> set L")
  case True
  then obtain i where i: "i < length L" "L ! i = r" by (auto simp: in_set_conv_nth)
  then show ?thesis using index_unique [OF assms, of i] by auto
next
  case False
  then show ?thesis by (auto simp: in_set_conv_nth)
qed

lemma winner_lower:
  assumes "distinct L" and "i < length L" and "reg_Get h (L ! i) n = None" and "reg_Get h' (L ! i) n \<noteq> None"
    and "\<And>l. l \<in> set L \<Longrightarrow> l \<noteq> L ! i \<Longrightarrow> reg_Get h' l n = reg_Get h l n"
  shows "winner h' L n = Some (lower i (winner h L n))"
proof -
  have other: "reg_Get h' (L ! j) n = reg_Get h (L ! j) n" if "j < length L" "j \<noteq> i" for j
    using that assms(1,2,5) by (simp add: nth_eq_iff_index_eq)
  show ?thesis
  proof (cases "winner h L n")
    case None
    then have "\<forall>j < length L. reg_Get h (L ! j) n = None" by (simp add: winner_None)
    then show ?thesis using None other assms(2,4) by (auto simp: winner_Some)
  next
    case (Some c)
    then have c: "c < length L" "reg_Get h (L ! c) n \<noteq> None" "\<forall>k < c. reg_Get h (L ! k) n = None"
      by (simp_all add: winner_Some)
    then have "c \<noteq> i" using assms(3) by auto
    have low: "lower i (winner h L n) = min i c" by (simp add: Some)
    have "winner h' L n = Some (min i c)"
    proof (cases "i < c")
      case True
      then show ?thesis using c other assms(2,4) by (simp add: winner_Some)
    next
      case False
      then have "c < i" using \<open>c \<noteq> i\<close> by simp
      then show ?thesis using c other assms(2) by (simp add: winner_Some)
    qed
    then show ?thesis unfolding low .
  qed
qed

lemma winner_leave:
  assumes "distinct L" and "i < length L" and "reg_Get h' (L ! i) n = None"
    and "\<And>l. l \<in> set L \<Longrightarrow> l \<noteq> L ! i \<Longrightarrow> reg_Get h' l n = reg_Get h l n"
  shows "winner h' L n = leave h' L i n (winner h L n)"
proof -
  have other: "reg_Get h' (L ! j) n = reg_Get h (L ! j) n" if "j < length L" "j \<noteq> i" for j
    using that assms(1,2,4) by (simp add: nth_eq_iff_index_eq)
  show ?thesis
  proof (cases "winner h L n = Some i")
    case True
    then have before: "\<forall>k \<le> i. reg_Get h' (L ! k) n = None"
      using other assms(2,3) by (auto simp: winner_Some le_less)
    have "[0..<length L] = [0..<Suc i] @ [Suc i..<length L]"
      using assms(2) upt_add_eq_append [of 0 "Suc i" "length L - Suc i"]
      by (simp only: le_add_diff_inverse Suc_le_eq zero_less_Suc less_imp_le)
    moreover have "find P (xs @ ys) = find P ys" if "\<forall>x \<in> set xs. \<not> P x" for P and xs ys :: "nat list"
      using that by (induction xs) auto
    ultimately have "winner h' L n = next_winner h' L i n"
      unfolding winner_def next_winner_def using before by (simp add: less_Suc_eq_le del: upt_Suc)
    then show ?thesis using True by (simp add: leave_def)
  next
    case False
    have "winner h' L n = winner h L n"
    proof (cases "winner h L n")
      case None
      then have "reg_Get h' l n = None" if "l \<in> set L" for l
        using that assms(3,4) by (cases "l = L ! i") (auto simp: winner_None)
      then have "winner h' L n = None" by (simp add: winner_None)
      then show ?thesis using None by simp
    next
      case (Some c)
      then have "c \<noteq> i" using False by simp
      have "reg_Get h' (L ! k) n = None" if "k < c" for k
        using that Some other [of k] assms(3) by (cases "k = i") (auto simp: winner_Some)
      then have "winner h' L n = Some c"
        using Some other [of c] \<open>c \<noteq> i\<close> by (simp add: winner_Some)
      then show ?thesis using Some by simp
    qed
    then show ?thesis using False by (simp add: leave_def)
  qed
qed

lemma visible_notify_other:
  assumes "watched f L h" and "a \<notin> set L"
  shows "visible f (notify_added e a h) = visible f h" "visible f (notifyRemoval e a h) = visible f h"
proof -
  have none: "{i. i < length L \<and> L ! i = a} = {}" using assms(2) by auto
  have "feed_idx f (reg_watches (rh_reg h a)) = {}" "feed_idx f (reg_removals (rh_reg h a)) = {}"
    using watched_D(4,5) [OF assms(1), of a] unfolding none .
  then show "visible f (notify_added e a h) = visible f h" "visible f (notifyRemoval e a h) = visible f h"
    using visible_fold_added [OF watched_D(1) [OF assms(1)], of "reg_watches (rh_reg h a)"]
      visible_fold_removed [OF watched_D(1) [OF assms(1)], of "reg_removals (rh_reg h a)"]
    by (simp_all add: notify_added_def notifyRemoval_def)
qed

lemma visible_notify_layer:
  assumes "watched f L h" and "i < length L"
  shows "visible f (notify_added e (L ! i) h) = (visible f h)(en_name e \<mapsto> lower i (visible f h (en_name e)))"
    "visible f (notifyRemoval e (L ! i) h) =
       (visible f h)(en_name e := leave h L i (en_name e) (visible f h (en_name e)))"
  using visible_fold_added [OF watched_D(1) [OF assms(1)], of "reg_watches (rh_reg h (L ! i))" i]
    visible_fold_removed [OF watched_D(1) [OF assms(1)], of "reg_removals (rh_reg h (L ! i))" i]
    watched_D(2) [OF assms(1)] watched_D(4,5) [OF assms(1), of "L ! i"] index_unique [OF watched_D(3) [OF assms(1)] assms(2)]
  by (simp_all add: notify_added_def notifyRemoval_def)

lemma watched_same: "same_regs h h' \<Longrightarrow> watched f L h \<Longrightarrow> watched f L h'"
  by (simp add: watched_def same_regs_D)

lemma chain_same:
  assumes "rh_reg h' = rh_reg h"
  shows "chain h' p = chain h p"
proof -
  have "chain_from n h' p = chain_from n h p" for n
    using assms by (induction n h p rule: chain_from.induct) simp_all
  then show ?thesis using assms by (simp add: chain_def split: option.splits)
qed

text \<open>Notifying the ancestors, none of which is a layer.\<close>

lemma visible_bubble:
  assumes w: "watched f L h" and up: "\<And>a. a \<in> set (chain h (reg_parent (rh_reg h r))) \<Longrightarrow> a \<notin> set L"
  shows "visible f (bubbleUp e r h) = visible f h" "visible f (bubbleUpRemoval e r h) = visible f h"
proof -
  have "visible f (fold g as h) = visible f h"
    if "\<And>a k. same_regs k (g a k)" "\<And>a k. watched f L k \<Longrightarrow> a \<notin> set L \<Longrightarrow> visible f (g a k) = visible f k"
      "watched f L h" "\<And>a. a \<in> set as \<Longrightarrow> a \<notin> set L" for g as and h :: "'a reg_heap"
    using that(3,4)
  proof (induction as arbitrary: h)
    case (Cons a as)
    then show ?case using that(2) [of h a] watched_same [OF that(1) [of h a]] by simp
  qed simp
  from this [OF notify_added_frame visible_notify_other(1) w up] this [OF notifyRemoval_frame visible_notify_other(2) w up]
  show "visible f (bubbleUp e r h) = visible f h" "visible f (bubbleUpRemoval e r h) = visible f h"
    by (simp_all add: bubbleUp_def bubbleUpRemoval_def)
qed

definition childless :: "nat list \<Rightarrow> 'v reg_heap \<Rightarrow> bool" where
  "childless L h = (\<forall>r p. reg_parent (rh_reg h r) = Some p \<longrightarrow> p \<notin> set L)"

lemma childless_ancestors:
  assumes "heap_wf h" and "childless L h" and "a \<in> set (chain h (reg_parent (rh_reg h r)))"
  shows "a \<notin> set L"
  using childless_chain [OF assms(1) _ assms(3), of "set L"] assms(2) by (simp add: childless_def)

lemma get_upd_items:
  "reg_Get (upd_reg r (\<lambda>g. g\<lparr>reg_items := k g\<rparr>) h) q n =
    (if q = r then map_of (k (rh_reg h r)) n else reg_Get h q n)"
  by (simp add: reg_Get_def)

lemma watched_upd_items: "watched f L h \<Longrightarrow> watched f L (upd_reg r (\<lambda>g. g\<lparr>reg_items := k g\<rparr>) h)"
  by (simp add: watched_def)

lemma heap_wf_upd_items:
  "heap_wf h \<Longrightarrow> r < rh_count h \<Longrightarrow> distinct (map fst (k (rh_reg h r))) \<Longrightarrow>
   heap_wf (upd_reg r (\<lambda>g. g\<lparr>reg_items := k g\<rparr>) h)"
  by (rule heap_wf_upd) simp_all

text \<open>Once the registry's own observers are called, the ancestors change nothing.\<close>

lemma feed_inv_bubble:
  assumes w: "watched f L h1" and wf: "heap_wf h1" and c: "childless L h1"
    and s2: "same_regs h1 h2" and vis: "\<And>m. visible f h2 m = winner h1 L m"
  shows "feed_inv f L (bubbleUp e r h2)" "feed_inv f L (bubbleUpRemoval e r h2)"
proof -
  note frame = same_regs_D [OF s2]
  have w2: "watched f L h2" by (rule watched_same [OF s2 w])
  have up: "a \<in> set (chain h2 (reg_parent (rh_reg h2 r))) \<Longrightarrow> a \<notin> set L" for a
    using childless_ancestors [OF wf c] by (simp add: frame chain_same [OF frame(1)])
  have "feed_inv f L k" if "visible f k = visible f h2" "same_regs h2 k" for k
  proof -
    have "same_regs h1 k" by (rule same_regs_trans [OF s2 that(2)])
    then have "watched f L k" and regs: "rh_reg k = rh_reg h1" using w watched_same same_regs_D(1) by blast+
    moreover have "winner k L m = winner h1 L m" for m by (rule winner_cong) (simp add: reg_Get_def regs)
    ultimately show ?thesis using vis that(1) by (simp add: feed_inv_def)
  qed
  then show "feed_inv f L (bubbleUp e r h2)" "feed_inv f L (bubbleUpRemoval e r h2)"
    using visible_bubble [OF w2 up] bubbleUp_frame bubbleUpRemoval_frame by blast+
qed

text \<open>Changing the items of one registry and notifying: the feed follows.\<close>

lemma feed_inv_Register:
  assumes inv: "feed_inv f L h" and wf: "heap_wf h" and c: "childless L h" and r: "r < rh_count h"
  shows "feed_inv f L (snd (reg_Register r n v h))"
proof (cases "n = [] \<or> reg_Get h r n \<noteq> None")
  case True
  then show ?thesis using inv by (auto simp: reg_Register_def)
next
  case False
  then have new: "reg_Get h r n = None" by simp
  let ?e = "\<lparr>en_scope = reg_scope (rh_reg h r), en_name = n, en_value = v\<rparr>"
  define h1 where "h1 = upd_reg r (\<lambda>g. g\<lparr>reg_items := reg_items g @ [(n, v)]\<rparr>) h"
  define h2 where "h2 = notify_added ?e r h1"
  have reg: "snd (reg_Register r n v h) = bubbleUp ?e r h2"
    using False by (simp add: reg_Register_def h1_def h2_def Let_def)
  have w: "watched f L h" using inv by (simp add: feed_inv_def)
  have w1: "watched f L h1" unfolding h1_def by (rule watched_upd_items [OF w])
  have get: "reg_Get h1 q m = (if q = r \<and> m = n then Some v else reg_Get h q m)" for q m
    using new by (auto simp: h1_def get_upd_items reg_Get_def map_add_def split: option.splits)
  have wf1: "heap_wf h1"
    unfolding h1_def using wf r new by (intro heap_wf_upd_items) (auto simp: heap_wf_items reg_Get_def map_of_eq_None_iff)
  have c1: "childless L h1" using c by (simp add: childless_def h1_def)
  have s2: "same_regs h1 h2" unfolding h2_def by (rule notify_added_frame)
  have "visible f h2 m = winner h1 L m" for m
  proof -
    have vis: "visible f h1 m = winner h L m" for m using inv by (simp add: feed_inv_def h1_def)
    consider (inside) i where "i < length L" "L ! i = r" | (outside) "r \<notin> set L"
      by (auto simp: in_set_conv_nth)
    then show ?thesis
    proof cases
      case inside
      have "visible f h2 m = (if m = n then Some (lower i (winner h L n)) else winner h L m)"
        using visible_notify_layer(1) [OF w1 inside(1), of ?e] inside(2) vis by (simp add: h2_def)
      moreover have "winner h1 L n = Some (lower i (winner h L n))"
        using inside new get watched_D(3) [OF w] by (intro winner_lower) auto
      moreover have "m \<noteq> n \<Longrightarrow> winner h1 L m = winner h L m" by (rule winner_cong) (simp add: get)
      ultimately show ?thesis by simp
    next
      case outside
      have "winner h1 L m = winner h L m" using outside by (intro winner_cong) (auto simp: get)
      then show ?thesis using visible_notify_other(1) [OF w1 outside, of ?e] vis by (simp add: h2_def)
    qed
  qed
  then show ?thesis unfolding reg by (rule feed_inv_bubble [OF w1 wf1 c1 s2])
qed

lemma feed_inv_Unregister:
  assumes inv: "feed_inv f L h" and wf: "heap_wf h" and c: "childless L h" and r: "r < rh_count h"
  shows "feed_inv f L (snd (reg_Unregister r n h))"
proof (cases "reg_Get h r n")
  case None
  then show ?thesis using inv by (simp add: reg_Unregister_def)
next
  case (Some v)
  let ?e = "\<lparr>en_scope = reg_scope (rh_reg h r), en_name = n, en_value = v\<rparr>"
  define h1 where "h1 = upd_reg r (\<lambda>g. g\<lparr>reg_items := filter (\<lambda>p. fst p \<noteq> n) (reg_items g)\<rparr>) h"
  define h2 where "h2 = notifyRemoval ?e r h1"
  have reg: "snd (reg_Unregister r n h) = bubbleUpRemoval ?e r h2"
    using Some by (simp add: reg_Unregister_def h1_def h2_def Let_def)
  have w: "watched f L h" using inv by (simp add: feed_inv_def)
  have w1: "watched f L h1" unfolding h1_def by (rule watched_upd_items [OF w])
  have gone: "map_of (filter (\<lambda>p. fst p \<noteq> n) xs) m = (if m = n then None else map_of xs m)" for xs :: "(string \<times> 'a) list" and m
    by (induction xs) auto
  have get: "reg_Get h1 q m = (if q = r \<and> m = n then None else reg_Get h q m)" for q m
    by (simp add: h1_def get_upd_items gone reg_Get_def)
  have wf1: "heap_wf h1"
    unfolding h1_def using wf r by (intro heap_wf_upd_items) (auto simp: heap_wf_items distinct_map_filter_fst)
  have c1: "childless L h1" using c by (simp add: childless_def h1_def)
  have s2: "same_regs h1 h2" unfolding h2_def by (rule notifyRemoval_frame)
  have "visible f h2 m = winner h1 L m" for m
  proof -
    have vis: "visible f h1 m = winner h L m" for m using inv by (simp add: feed_inv_def h1_def)
    consider (inside) i where "i < length L" "L ! i = r" | (outside) "r \<notin> set L"
      by (auto simp: in_set_conv_nth)
    then show ?thesis
    proof cases
      case inside
      have "visible f h2 m = (if m = n then leave h1 L i n (winner h L n) else winner h L m)"
        using visible_notify_layer(2) [OF w1 inside(1), of ?e] inside(2) vis by (simp add: h2_def)
      moreover have "winner h1 L n = leave h1 L i n (winner h L n)"
        using inside get watched_D(3) [OF w] by (intro winner_leave) auto
      moreover have "m \<noteq> n \<Longrightarrow> winner h1 L m = winner h L m" by (rule winner_cong) (simp add: get)
      ultimately show ?thesis by simp
    next
      case outside
      have "winner h1 L m = winner h L m" using outside by (intro winner_cong) (auto simp: get)
      then show ?thesis using visible_notify_other(2) [OF w1 outside, of ?e] vis by (simp add: h2_def)
    qed
  qed
  then show ?thesis unfolding reg by (rule feed_inv_bubble [OF w1 wf1 c1 s2])
qed

section \<open>Every operation keeps the feed in step\<close>

lemma feed_idx_other: "g \<noteq> f \<Longrightarrow> feed_idx f (ws @ [(j, FeedLayer g i)]) = feed_idx f ws"
  by simp

lemma watch_regs:
  "rh_reg (snd (reg_Observe r w h)) q =
    (if q = r then (rh_reg h r)\<lparr>reg_nextID := Suc (reg_nextID (rh_reg h r)),
       reg_watches := reg_watches (rh_reg h r) @ [(Suc (reg_nextID (rh_reg h r)), w)]\<rparr> else rh_reg h q)"
  "rh_reg (snd (reg_ObserveRemovals r w h)) q =
    (if q = r then (rh_reg h r)\<lparr>reg_nextID := Suc (reg_nextID (rh_reg h r)),
       reg_removals := reg_removals (rh_reg h r) @ [(Suc (reg_nextID (rh_reg h r)), w)]\<rparr> else rh_reg h q)"
  by (simp_all add: reg_Observe_def reg_ObserveRemovals_def Let_def)

text \<open>What the installation of a feed's callbacks does to the callbacks of any feed.\<close>

lemma feed_watch_idx:
  "feed_idx f (reg_watches (rh_reg (feed_watch g L i h) r)) =
     feed_idx f (reg_watches (rh_reg h r)) \<union> (if g = f \<and> L ! i = r then {i} else {})"
  "feed_idx f (reg_removals (rh_reg (feed_watch g L i h) r)) =
     feed_idx f (reg_removals (rh_reg h r)) \<union> (if g = f \<and> L ! i = r then {i} else {})"
  "reg_items (rh_reg (feed_watch g L i h) r) = reg_items (rh_reg h r)"
  "reg_parent (rh_reg (feed_watch g L i h) r) = reg_parent (rh_reg h r)"
  by (auto simp: feed_watch_def watch_regs)

lemma feed_watches_idx:
  "feed_idx f (reg_watches (rh_reg (fold (feed_watch g L) is h) r)) =
     feed_idx f (reg_watches (rh_reg h r)) \<union> (if g = f then {i \<in> set is. L ! i = r} else {})"
  "feed_idx f (reg_removals (rh_reg (fold (feed_watch g L) is h) r)) =
     feed_idx f (reg_removals (rh_reg h r)) \<union> (if g = f then {i \<in> set is. L ! i = r} else {})"
  "reg_items (rh_reg (fold (feed_watch g L) is h) r) = reg_items (rh_reg h r)"
  "reg_parent (rh_reg (fold (feed_watch g L) is h) r) = reg_parent (rh_reg h r)"
  by (induction "is" arbitrary: h) (auto simp: feed_watch_idx)

lemma clear_layer_reg:
  "rh_reg (clear_layer g L i h) r =
    (if r = L ! i then (rh_reg h r)\<lparr>reg_watches := filter (\<lambda>w. snd w \<noteq> FeedLayer g i) (reg_watches (rh_reg h r)),
        reg_removals := filter (\<lambda>w. snd w \<noteq> FeedLayer g i) (reg_removals (rh_reg h r))\<rparr> else rh_reg h r)"
  by (simp add: clear_layer_def)

lemma clear_layers_regs [simp]:
  "reg_items (rh_reg (fold (clear_layer g L) is h) r) = reg_items (rh_reg h r)"
  "reg_parent (rh_reg (fold (clear_layer g L) is h) r) = reg_parent (rh_reg h r)"
  by (induction "is" arbitrary: h) (simp_all add: clear_layer_def)

lemma clear_layers_idx:
  assumes "g \<noteq> f"
  shows "feed_idx f (reg_watches (rh_reg (fold (clear_layer g L) is h) r)) = feed_idx f (reg_watches (rh_reg h r)) \<and>
    feed_idx f (reg_removals (rh_reg (fold (clear_layer g L) is h) r)) = feed_idx f (reg_removals (rh_reg h r))"
proof (induction "is" arbitrary: h)
  case (Cons i "is")
  have "feed_idx f (filter (\<lambda>w. snd w \<noteq> FeedLayer g i) ws) = feed_idx f ws" for ws
    using assms by (intro feed_idx_filter) auto
  then show ?case
    using Cons.IH [of "clear_layer g L i h"] by (cases "r = L ! i") (simp_all add: clear_layer_reg)
qed simp

lemma feed_idx_cancel:
  assumes "list_all (\<lambda>w. fst w = i \<longrightarrow> \<not> is_feed (snd w)) ws"
  shows "feed_idx f (filter (\<lambda>w. fst w \<noteq> i) ws) = feed_idx f ws"
  using assms by (intro feed_idx_filter) (auto simp: list_all_iff)

lemma feed_inv_layers: "feed_inv f L h \<Longrightarrow> heap_wf h \<Longrightarrow> l \<in> set L \<Longrightarrow> l < rh_count h"
  by (auto simp: feed_inv_def watched_def heap_wf_def)

lemma feed_inv_exec:
  assumes inv: "feed_inv f L h" and wf: "heap_wf h" and c: "childless L h" and x: "x \<noteq> RCancelFeed f"
  shows "feed_inv f L (reg_exec x h)"
proof -
  have f: "f < length (rh_feeds h)" using inv by (simp add: feed_inv_def watched_def)
  show ?thesis
  proof (cases x)
    case (RNew s)
    have "\<not> rh_count h < rh_count h" by simp
    then have "rh_count h \<notin> set L" using feed_inv_layers [OF inv wf] by blast
    moreover have "reg_watches (rh_reg h (rh_count h)) = []" "reg_removals (rh_reg h (rh_count h)) = []"
      using wf by (simp_all add: heap_wf_def)
    ultimately have "feed_inv f L (snd (NewScopedRegistry s h))"
      by (intro feed_inv_same [OF inv]) (auto simp: f NewScopedRegistry_def reg_init_def reg_Get_def)
    then show ?thesis using RNew by simp
  next
    case (RLink r p)
    then show ?thesis
      by (auto intro!: feed_inv_same [OF inv] simp: LinkParent_def reg_Get_def f inv split: option.splits if_splits)
  next
    case (RRegister r n v)
    then show ?thesis using feed_inv_Register [OF inv wf c] inv by simp
  next
    case (RUnregister r n)
    then show ?thesis using feed_inv_Unregister [OF inv wf c] inv by simp
  next
    case (RObserve r i)
    then show ?thesis
      by (auto intro!: feed_inv_same [OF inv] simp: watch_regs reg_Get_def f inv split: if_splits)
  next
    case (RObserveRemovals r i)
    then show ?thesis
      by (auto intro!: feed_inv_same [OF inv] simp: watch_regs reg_Get_def f inv split: if_splits)
  next
    case (RCancel r i)
    then show ?thesis
      by (auto intro!: feed_inv_same [OF inv] simp: cancel_watch_def reg_Get_def feed_idx_cancel f inv split: if_splits)
  next
    case (RCancelRemoval r i)
    then show ?thesis
      by (auto intro!: feed_inv_same [OF inv] simp: cancel_removal_def reg_Get_def feed_idx_cancel f inv split: if_splits)
  next
    case (RObserveChanges layers)
    have "feed_inv f L (snd (ObserveChanges layers h))"
      by (rule feed_inv_same [OF inv])
        (use f in \<open>simp_all add: ObserveChanges_def Let_def nth_append feed_watches_idx reg_Get_def\<close>)
    then show ?thesis using RObserveChanges inv by simp
  next
    case (RCancelFeed g)
    then have "g \<noteq> f" using x by simp
    note idx = clear_layers_idx [OF this]
    have "feed_inv f L (feed_cancel g layers h)" for layers
      by (rule feed_inv_same [OF inv]) (use f idx [of layers "[0..<length layers]" h] in \<open>simp_all add: feed_cancel_def reg_Get_def\<close>)
    then show ?thesis using RCancelFeed inv by simp
  qed
qed

text \<open>Parents stay, and no callback belongs to a feed that does not exist yet.\<close>

definition feeds_known :: "'v reg_heap \<Rightarrow> bool" where
  "feeds_known h =
    (\<forall>g \<ge> length (rh_feeds h). \<forall>r.
       feed_idx g (reg_watches (rh_reg h r)) = {} \<and> feed_idx g (reg_removals (rh_reg h r)) = {})"

lemma feed_idx_filter_empty: "feed_idx g ws = {} \<Longrightarrow> feed_idx g (filter P ws) = {}"
  by (auto simp: feed_idx_def)

lemmas spread_regs =
  same_regs_D(1,2) [OF bubbleUp_frame] same_regs_D(1,2) [OF notify_added_frame]
  same_regs_D(1,2) [OF bubbleUpRemoval_frame] same_regs_D(1,2) [OF notifyRemoval_frame]

lemma Register_regs:
  "rh_reg (snd (reg_Register r n v h)) q =
     (if q = r \<and> n \<noteq> [] \<and> reg_Get h r n = None
      then (rh_reg h r)\<lparr>reg_items := reg_items (rh_reg h r) @ [(n, v)]\<rparr> else rh_reg h q)"
  "length (rh_feeds (snd (reg_Register r n v h))) = length (rh_feeds h)"
  by (simp_all add: reg_Register_def Let_def spread_regs)

lemma Unregister_regs:
  "rh_reg (snd (reg_Unregister r n h)) q =
     (if q = r \<and> reg_Get h r n \<noteq> None
      then (rh_reg h r)\<lparr>reg_items := filter (\<lambda>p. fst p \<noteq> n) (reg_items (rh_reg h r))\<rparr> else rh_reg h q)"
  "length (rh_feeds (snd (reg_Unregister r n h))) = length (rh_feeds h)"
  by (simp_all add: reg_Unregister_def Let_def spread_regs split: option.splits)

lemma feeds_known_exec:
  assumes "feeds_known h"
  shows "feeds_known (reg_exec x h)"
proof (cases x)
  case (RCancelFeed f)
  then show ?thesis
    using assms by (simp add: feeds_known_def feed_cancel_def clear_layers_idx)
next
  case (RObserveChanges L)
  then show ?thesis
    using assms by (auto simp: feeds_known_def ObserveChanges_def Let_def feed_watches_idx)
next
  case (RLink r p)
  then show ?thesis using assms by (auto simp: feeds_known_def LinkParent_def split: option.splits)
qed (use assms in \<open>auto simp: feeds_known_def NewScopedRegistry_def reg_init_def Register_regs Unregister_regs watch_regs
      cancel_watch_def cancel_removal_def feed_idx_filter_empty\<close>)

lemma parent_stays:
  assumes "heap_wf h" and "reg_parent (rh_reg h r) = Some p"
  shows "reg_parent (rh_reg (reg_exec x h) r) = Some p"
proof (cases x)
  case (RNew s)
  then show ?thesis using assms by (auto simp: NewScopedRegistry_def heap_wf_def)
next
  case (RCancelFeed f)
  then show ?thesis using assms by (simp add: feed_cancel_def)
qed (use assms in \<open>auto simp: LinkParent_def Register_regs Unregister_regs watch_regs cancel_watch_def
      cancel_removal_def ObserveChanges_def Let_def feed_watches_idx split: option.splits\<close>)

lemma childless_before: "heap_wf h \<Longrightarrow> childless L (reg_exec x h) \<Longrightarrow> childless L h"
  unfolding childless_def using parent_stays by blast

lemma feeds_grow: "length (rh_feeds h) \<le> length (rh_feeds (reg_exec x h))"
  by (cases x) (auto simp: NewScopedRegistry_def LinkParent_def Register_regs Unregister_regs ObserveChanges_def Let_def
      cancel_watch_def cancel_removal_def split: option.splits)

section \<open>A new feed\<close>

lemma start_names:
  "fold (\<lambda>name vis. if vis name = None then vis(name \<mapsto> i) else vis) names vis n =
    (if vis n = None \<and> n \<in> set names then Some i else vis n)"
  by (induction names arbitrary: vis) auto

lemma feed_start_winner: "feed_start h L n = winner h L n"
proof -
  have names: "n \<in> set (reg_Names h r) \<longleftrightarrow> reg_Get h r n \<noteq> None" for r
    by (simp add: reg_Names_def reg_Get_def map_of_eq_None_iff)
  have "fold (\<lambda>i vis. fold (\<lambda>name vis. if vis name = None then vis(name \<mapsto> i) else vis) (reg_Names h (L ! i)) vis)
      is (\<lambda>_. None) n = find (\<lambda>j. reg_Get h (L ! j) n \<noteq> None) is" for "is"
  proof (induction "is" rule: rev_induct)
    case (snoc i "is")
    have "find P (xs @ [i]) = (case find P xs of None \<Rightarrow> if P i then Some i else None | Some y \<Rightarrow> Some y)"
      for P and xs :: "nat list"
      by (induction xs) auto
    then show ?case using snoc by (auto simp: start_names names split: option.splits)
  qed simp
  then show ?thesis by (simp add: feed_start_def winner_def)
qed

lemma feed_inv_start:
  assumes "feeds_known h" and "distinct L"
  shows "feed_inv (length (rh_feeds h)) L (snd (ObserveChanges L h))"
proof -
  let ?h1 = "h\<lparr>rh_feeds := rh_feeds h @ [\<lparr>fd_layers = L, fd_visible = feed_start h L\<rparr>]\<rparr>"
  let ?h2 = "fold (feed_watch (length (rh_feeds h)) L) [0..<length L] ?h1"
  have "winner ?h2 L n = winner h L n" for n
    by (rule winner_cong) (simp add: reg_Get_def feed_watches_idx)
  then have "feed_inv (length (rh_feeds h)) L ?h2"
    using assms by (auto simp: feed_inv_def watched_def feeds_known_def feed_watches_idx feed_start_winner)
  then show ?thesis by (simp add: ObserveChanges_def Let_def)
qed

lemma run_feed_inv:
  assumes "heap_wf h" and "feed_inv f L h" and "childless L (reg_run ops h)" and "RCancelFeed f \<notin> set ops"
  shows "feed_inv f L (reg_run ops h) \<and> published f h (reg_run ops h) \<and> childless L h"
  using assms
proof (induction ops arbitrary: h)
  case Nil
  then show ?case by (simp add: reg_run_def published_refl)
next
  case (Cons x ops)
  have run: "reg_run (x # ops) h = reg_run ops (reg_exec x h)" for h :: "'a reg_heap" by (simp add: reg_run_def)
  let ?h = "reg_exec x h"
  have wf: "heap_wf ?h" by (rule heap_wf_exec [OF Cons.prems(1)])
  have "childless L (reg_run ops ?h) \<Longrightarrow> childless L ?h" for ops
    using wf
  proof (induction ops arbitrary: h x rule: rev_induct)
    case (snoc y ys)
    have "heap_wf (reg_run ys (reg_exec x h))" using snoc.prems(2) by (rule heap_wf_run)
    moreover have "reg_run (ys @ [y]) (reg_exec x h) = reg_exec y (reg_run ys (reg_exec x h))"
      by (simp add: reg_run_def)
    ultimately show ?case using snoc.IH [of x h] snoc.prems childless_before by metis
  qed (simp add: reg_run_def)
  then have c: "childless L ?h" using Cons.prems(3) run by metis
  then have c0: "childless L h" using childless_before [OF Cons.prems(1)] by blast
  have inv: "feed_inv f L ?h" using feed_inv_exec [OF Cons.prems(2,1) c0] Cons.prems(4) by auto
  have "f < length (rh_feeds h)" using Cons.prems(2) by (simp add: feed_inv_def watched_def)
  then have "published f h ?h" by (rule published_exec)
  then show ?case
    using Cons.IH [OF wf inv] Cons.prems(3,4) c0 by (auto simp: run intro: published_trans)
qed

lemma feeds_known_run: "feeds_known h \<Longrightarrow> feeds_known (reg_run ops h)"
  unfolding reg_run_def by (induction ops arbitrary: h) (auto simp: feeds_known_exec)

lemma feeds_known_empty: "feeds_known empty_heap"
  by (simp add: feeds_known_def empty_heap_def reg_init_def)

lemma resolved_names: "{n. view_Resolve h L n \<noteq> None} = dom (winner h L)"
  by (simp add: dom_def winner_None resolve_None del: not_None_eq)

text \<open>
  The change feed of a view whose layers have no registry linked under
  them reports exactly the names that come and go: the names visible at the
  start, changed by the reported events in order, are the names visible at any
  later point, whatever is registered, removed, linked or subscribed meanwhile.
\<close>

theorem feed_tracks_view:
  assumes h: "h = reg_run ops empty_heap" and L: "distinct L" "list_all (\<lambda>l. l < rh_count h) L"
    and start: "ObserveChanges L h = (f, h0)" and run: "h' = reg_run ops' h0"
    and "childless L h'" and "RCancelFeed f \<notin> set ops'"
  shows "{n. view_Resolve h' L n \<noteq> None} =
    apply_changes f (drop (length (rh_log h)) (rh_log h')) {n. view_Resolve h L n \<noteq> None}"
proof -
  have wf: "heap_wf h" and known: "feeds_known h"
    unfolding h by (rule heap_wf_run [OF heap_wf_empty], rule feeds_known_run [OF feeds_known_empty])
  have f: "f = length (rh_feeds h)" and h0: "h0 = snd (ObserveChanges L h)"
    using start by (auto simp: ObserveChanges_def Let_def)
  have wf0: "heap_wf h0" unfolding h0 by (rule heap_wf_ObserveChanges [OF wf L(2)])
  have inv: "feed_inv f L h0" unfolding f h0 by (rule feed_inv_start [OF known L(1)])
  have end': "feed_inv f L h'" and pub: "published f h0 h'"
    using run_feed_inv [OF wf0 inv _ assms(7)] assms(6) unfolding run by blast+
  have "rh_log h0 = rh_log h" by (simp add: h0 ObserveChanges_def Let_def)
  then have "dom (visible f h') = apply_changes f (drop (length (rh_log h)) (rh_log h')) (dom (visible f h0))"
    using pub by (auto simp: published_def)
  moreover have "visible f h' = winner h' L" "visible f h0 = winner h0 L"
    using end' inv by (auto simp: feed_inv_def)
  moreover have "winner h0 L = winner h L"
    by (rule ext, rule winner_cong) (simp add: h0 ObserveChanges_def Let_def reg_Get_def feed_watches_idx)
  ultimately show ?thesis unfolding resolved_names by simp
qed

section \<open>Concrete runs\<close>

lemmas registry_eval =
  reg_run_def NewScopedRegistry_def reg_init_def LinkParent_def reg_Register_def reg_Unregister_def
  reg_Observe_def reg_ObserveRemovals_def ObserveChanges_def feed_watch_def feed_start_def
  reg_Get_def reg_Names_def upd_reg_def empty_heap_def Let_def chain_def bubbleUp_def bubbleUpRemoval_def
  notify_added_def notifyRemoval_def feed_added_def feed_removed_def next_winner_def upd_feed_def
  note_event_def eval_nat_numeral

text \<open>
  A host wires the scopes with LinkParent and watches the view over them.  The
  removal of a session's entry that shadowed one of the host bubbles to the host,
  where the feed takes it for a removal of the host's own entry: it reports the
  name as gone although it is visible.
\<close>

definition linked_run :: "nat reg_op list" where
  "linked_run =
    [RNew 0, RNew 1, RNew 2, RLink 1 (Some 0), RLink 2 (Some 1), RRegister 1 ''x'' 7, RObserveChanges [2, 1, 0],
     RRegister 2 ''x'' 8, RUnregister 2 ''x'']"

lemma linked_feed_loses_name:
  "view_Resolve (reg_run linked_run empty_heap) [2, 1, 0] ''x'' = Some \<lparr>en_scope = 1, en_name = ''x'', en_value = 7\<rparr> \<and>
   visible 0 (reg_run linked_run empty_heap) ''x'' = None \<and>
   rh_log (reg_run linked_run empty_heap) =
     [FeedChange 0 \<lparr>ch_name = ''x'', ch_value = 8, ch_removed = False\<rparr>,
      FeedChange 0 \<lparr>ch_name = ''x'', ch_value = 8, ch_removed = True\<rparr>]"
  by (simp add: linked_run_def registry_eval)

text \<open>
  Without links the names are right and the values are not: shadowing a visible
  name is reported although no name appears, and the removal that reveals the
  outer entry again is not, so that a replica keeps the removed value.
\<close>

definition shadow_run :: "nat reg_op list" where
  "shadow_run =
    [RNew 1, RNew 2, RRegister 0 ''x'' 7, RObserveChanges [1, 0], RRegister 1 ''x'' 8, RUnregister 1 ''x'']"

lemma feed_value_stale:
  "view_Snapshot (reg_run shadow_run empty_heap) [1, 0] ''x'' = Some 7 \<and>
   rh_log (reg_run shadow_run empty_heap) = [FeedChange 0 \<lparr>ch_name = ''x'', ch_value = 8, ch_removed = False\<rparr>]"
proof -
  have "view_Resolve (reg_run shadow_run empty_heap) [1, 0] ''x'' = Some \<lparr>en_scope = 1, en_name = ''x'', en_value = 7\<rparr>"
    "rh_log (reg_run shadow_run empty_heap) = [FeedChange 0 \<lparr>ch_name = ''x'', ch_value = 8, ch_removed = False\<rparr>]"
    by (simp_all add: shadow_run_def registry_eval)
  then show ?thesis using view_reads_agree [of "reg_run shadow_run empty_heap" "[1, 0]" "''x''"] by simp
qed

definition two_layers :: "nat reg_heap" where
  "two_layers = reg_run [RNew 1, RNew 2, RRegister 0 ''x'' 7] empty_heap"

theorem feed_tracks_view_witness:
  "{n. view_Resolve (reg_run [RRegister 1 ''y'' 8, RUnregister 0 ''x''] (snd (ObserveChanges [1, 0] two_layers))) [1, 0] n \<noteq> None} =
    apply_changes 0 (drop (length (rh_log two_layers))
      (rh_log (reg_run [RRegister 1 ''y'' 8, RUnregister 0 ''x''] (snd (ObserveChanges [1, 0] two_layers)))))
      {n. view_Resolve two_layers [1, 0] n \<noteq> None}"
proof (rule feed_tracks_view [OF two_layers_def _ _ _ refl])
  show "ObserveChanges [1, 0] two_layers = (0, snd (ObserveChanges [1, 0] two_layers))"
    by (simp add: two_layers_def registry_eval)
  show "childless [1, 0] (reg_run [RRegister 1 ''y'' 8, RUnregister 0 ''x''] (snd (ObserveChanges [1, 0] two_layers)))"
    by (simp add: two_layers_def registry_eval childless_def)
qed (simp_all add: two_layers_def registry_eval)

end
