(* ===== verification/ModelRouter.thy ===== *)
theory ModelRouter
  imports Resilience GoStrings "HOL-Library.Multiset"
begin

text \<open>
  The model router (modelrouter/modelrouter.go): routes with their own
  breaker, limiter and timeout, and the strategies priority, round robin,
  weighted round robin and race, for calls and for streams.

  Breakers and limiters are shared by pointer: a route holds their addresses,
  the state holds their values, and a guard reads and writes the state before
  and after the call it protects.  The message type is \<open>'q\<close>, the result type \<open>'r\<close>
  (message and usage, or an opened stream) and the rest of the world \<open>'w\<close>, whose
  clock reads through \<open>clock\<close>.  Weights and the counter are machine words.
\<close>

section \<open>Data\<close>

datatype router_strategy = StrategyPriority | StrategyRoundRobin | StrategyWeightedRoundRobin | StrategyRaceAll

text \<open>What the router does to a \<open>context.Context\<close>: deadlines and cancellation.\<close>

record call_ctx =
  cx_deadline :: "int option"
  cx_canceled :: bool

definition WithTimeout :: "int \<Rightarrow> int \<Rightarrow> call_ctx \<Rightarrow> call_ctx" where
  "WithTimeout now d cx =
    cx\<lparr>cx_deadline := Some (case cx_deadline cx of None \<Rightarrow> now + d | Some t \<Rightarrow> min t (now + d))\<rparr>"

record 'w router_state =
  rs_counter :: "64 word"
  rs_breakers :: "nat \<Rightarrow> breaker"
  rs_limiters :: "nat \<Rightarrow> limiter"
  rs_world :: 'w

type_synonym ('q, 'r, 'w) route_handler = "(call_ctx \<times> 'q, 'r option, 'w router_state) handler"
type_synonym ('q, 'r, 'w) route_middleware = "(call_ctx \<times> 'q, 'r option, 'w router_state) func_middleware"

text \<open>
  \<open>mr_call\<close> is the route's Generate or Stream, absent when the model is not a
  chat model; \<open>mr_count\<close> its CountTokens, absent when the model is nil.
\<close>

record ('q, 'r, 'w) model_route =
  mr_type :: string
  mr_call :: "('q, 'r, 'w) route_handler option"
  mr_count :: "('q \<Rightarrow> int \<times> go_error option) option"
  mr_weight :: int64
  mr_timeout :: int
  mr_breaker :: "nat option"
  mr_limiter :: "nat option"

record ('q, 'r, 'w) model_router =
  ro_routes :: "('q, 'r, 'w) model_route list"
  ro_strategy :: router_strategy
  ro_middlewares :: "('q, 'r, 'w) route_middleware option list"

definition WithRouterStrategy :: "router_strategy \<Rightarrow> ('q, 'r, 'w) model_router \<Rightarrow> ('q, 'r, 'w) model_router" where
  "WithRouterStrategy st r = r\<lparr>ro_strategy := st\<rparr>"

definition WithRouterMiddleware ::
  "('q, 'r, 'w) route_middleware option list \<Rightarrow> ('q, 'r, 'w) model_router \<Rightarrow> ('q, 'r, 'w) model_router" where
  "WithRouterMiddleware mws r = r\<lparr>ro_middlewares := ro_middlewares r @ mws\<rparr>"

definition NewModelRouter ::
  "('q, 'r, 'w) model_route list \<Rightarrow> (('q, 'r, 'w) model_router \<Rightarrow> ('q, 'r, 'w) model_router) list \<Rightarrow> ('q, 'r, 'w) model_router" where
  "NewModelRouter routes opts =
    fold (\<lambda>opt. opt) opts \<lparr>ro_routes = routes, ro_strategy = StrategyPriority, ro_middlewares = []\<rparr>"

definition router_CountTokens :: "('q \<Rightarrow> int) \<Rightarrow> ('q, 'r, 'w) model_router \<Rightarrow> 'q \<Rightarrow> int \<times> go_error option" where
  "router_CountTokens default_count r q =
    (case ro_routes r of
       [] \<Rightarrow> (default_count q, None)
     | route # _ \<Rightarrow> (case mr_count route of None \<Rightarrow> (default_count q, None) | Some c \<Rightarrow> c q))"

section \<open>Protections of a route\<close>

definition timeout_guard :: "('w \<Rightarrow> int) \<Rightarrow> int \<Rightarrow> ('q, 'r, 'w) route_handler \<Rightarrow> ('q, 'r, 'w) route_handler" where
  "timeout_guard clock ms h m s = h (WithTimeout (clock (rs_world s)) (ms * 1000000) (fst m), snd m) s"

definition breaker_guard :: "('w \<Rightarrow> int) \<Rightarrow> nat \<Rightarrow> ('q, 'r, 'w) route_handler \<Rightarrow> ('q, 'r, 'w) route_handler" where
  "breaker_guard clock a h m s =
    (case Allow (clock (rs_world s)) (rs_breakers s a) of (ok, b) \<Rightarrow>
       let s1 = s\<lparr>rs_breakers := (rs_breakers s)(a := b)\<rparr>
       in if \<not> ok then ((None, Some (NewCircuitError (br_name b))), s1)
          else case h m s1 of ((resp, err), s2) \<Rightarrow>
            (case err of
               Some e \<Rightarrow> ((resp, Some e),
                 s2\<lparr>rs_breakers := (rs_breakers s2)(a := RecordFailure (clock (rs_world s2)) (rs_breakers s2 a))\<rparr>)
             | None \<Rightarrow> ((resp, None), s2\<lparr>rs_breakers := (rs_breakers s2)(a := RecordSuccess (rs_breakers s2 a))\<rparr>)))"

definition limiter_guard :: "('w \<Rightarrow> int) \<Rightarrow> nat \<Rightarrow> ('q, 'r, 'w) route_handler \<Rightarrow> ('q, 'r, 'w) route_handler" where
  "limiter_guard clock a h m s =
    (case LimiterAllow (clock (rs_world s)) (rs_limiters s a) of (ok, l) \<Rightarrow>
       let s1 = s\<lparr>rs_limiters := (rs_limiters s)(a := l)\<rparr>
       in if \<not> ok then ((None, Some (Sentinel ErrRateLimited)), s1) else h m s1)"

definition applyRouteProtection ::
  "('w \<Rightarrow> int) \<Rightarrow> ('q, 'r, 'w) model_route \<Rightarrow> ('q, 'r, 'w) route_handler \<Rightarrow>
   ('q, 'r, 'w) route_middleware option list \<Rightarrow> ('q, 'r, 'w) route_handler" where
  "applyRouteProtection clock route handler mws =
    (let h1 = (if mr_timeout route > 0 then timeout_guard clock (mr_timeout route) handler else handler);
         h2 = (case mr_breaker route of None \<Rightarrow> h1 | Some a \<Rightarrow> breaker_guard clock a h1);
         h3 = (case mr_limiter route of None \<Rightarrow> h2 | Some a \<Rightarrow> limiter_guard clock a h2)
     in if mws \<noteq> [] then Apply h3 mws else h3)"

definition not_chat_model :: "('q, 'r, 'w) model_route \<Rightarrow> go_error" where
  "not_chat_model route =
    Errorf (''model router: route model '' @ mr_type route @ '' does not implement kernel.ChatModel'')"

text \<open>
  The streaming counterparts.  An opened stream carries the wrappers the
  protections put around it: the context released on Close, and the breaker of
  the route with the failure flag of its reader.
\<close>

datatype 'st opened_stream =
    RawStream 'st
  | CancelOnClose call_ctx "'st opened_stream"
  | CircuitStream nat bool "'st opened_stream"

definition timeout_stream_guard ::
  "('w \<Rightarrow> int) \<Rightarrow> int \<Rightarrow> ('q, 'st opened_stream, 'w) route_handler \<Rightarrow> ('q, 'st opened_stream, 'w) route_handler" where
  "timeout_stream_guard clock ms h m s =
    (let tctx = WithTimeout (clock (rs_world s)) (ms * 1000000) (fst m)
     in case h (tctx, snd m) s of ((st, err), s') \<Rightarrow>
          (case err of Some e \<Rightarrow> ((None, Some e), s') | None \<Rightarrow> ((map_option (CancelOnClose tctx) st, None), s')))"

definition breaker_stream_guard ::
  "('w \<Rightarrow> int) \<Rightarrow> nat \<Rightarrow> ('q, 'st opened_stream, 'w) route_handler \<Rightarrow> ('q, 'st opened_stream, 'w) route_handler" where
  "breaker_stream_guard clock a h m s =
    (case Allow (clock (rs_world s)) (rs_breakers s a) of (ok, b) \<Rightarrow>
       let s1 = s\<lparr>rs_breakers := (rs_breakers s)(a := b)\<rparr>
       in if \<not> ok then ((None, Some (NewCircuitError (br_name b))), s1)
          else case h m s1 of ((st, err), s2) \<Rightarrow>
            (case err of
               Some e \<Rightarrow> ((st, Some e),
                 s2\<lparr>rs_breakers := (rs_breakers s2)(a := RecordFailure (clock (rs_world s2)) (rs_breakers s2 a))\<rparr>)
             | None \<Rightarrow> ((map_option (CircuitStream a False) st, None), s2)))"

definition applyRouteProtectionStream ::
  "('w \<Rightarrow> int) \<Rightarrow> ('q, 'st opened_stream, 'w) model_route \<Rightarrow> ('q, 'st opened_stream, 'w) route_handler \<Rightarrow>
   ('q, 'st opened_stream, 'w) route_middleware option list \<Rightarrow> ('q, 'st opened_stream, 'w) route_handler" where
  "applyRouteProtectionStream clock route handler mws =
    (let h1 = (if mr_timeout route > 0 then timeout_stream_guard clock (mr_timeout route) handler else handler);
         h2 = (case mr_breaker route of None \<Rightarrow> h1 | Some a \<Rightarrow> breaker_stream_guard clock a h1);
         h3 = (case mr_limiter route of None \<Rightarrow> h2 | Some a \<Rightarrow> limiter_guard clock a h2)
     in if mws \<noteq> [] then Apply h3 mws else h3)"

text \<open>Recv passes every error through the readers' flags; Close reports to the breakers.\<close>

fun stream_seen :: "go_error option \<Rightarrow> 'st opened_stream \<Rightarrow> 'st opened_stream" where
  "stream_seen err (RawStream st) = RawStream st"
| "stream_seen err (CancelOnClose cx st) = CancelOnClose cx (stream_seen err st)"
| "stream_seen err (CircuitStream a failed st) =
     CircuitStream a
       (failed \<or> (case err of None \<Rightarrow> False
                  | Some e \<Rightarrow> \<not> errors_is IoEOF e \<and> \<not> errors_is CtxCanceled e \<and> \<not> errors_is CtxDeadlineExceeded e))
       (stream_seen err st)"

fun stream_close :: "('w \<Rightarrow> int) \<Rightarrow> 'st opened_stream \<Rightarrow> 'w router_state \<Rightarrow> 'w router_state" where
  "stream_close clock (RawStream st) s = s"
| "stream_close clock (CancelOnClose cx st) s = stream_close clock st s"
| "stream_close clock (CircuitStream a failed st) s =
     (let s1 = stream_close clock st s
      in s1\<lparr>rs_breakers := (rs_breakers s1)(a :=
           if failed then RecordFailure (clock (rs_world s1)) (rs_breakers s1 a) else RecordSuccess (rs_breakers s1 a))\<rparr>)"

text \<open>
  The strategies are written once over the protection: \<open>applyRouteProtection
  clock\<close> for calls, \<open>applyRouteProtectionStream clock\<close> for streams.
\<close>

type_synonym ('q, 'r, 'w) protection =
  "('q, 'r, 'w) model_route \<Rightarrow> ('q, 'r, 'w) route_handler \<Rightarrow> ('q, 'r, 'w) route_middleware option list \<Rightarrow> ('q, 'r, 'w) route_handler"

text \<open>One protected call of a route; a model that is no chat model is an error.\<close>

definition route_call ::
  "('q, 'r, 'w) protection \<Rightarrow> ('q, 'r, 'w) model_router \<Rightarrow> ('q, 'r, 'w) model_route \<Rightarrow> ('q, 'r, 'w) route_handler" where
  "route_call p r route m s =
    (case mr_call route of
       None \<Rightarrow> ((None, Some (not_chat_model route)), s)
     | Some h \<Rightarrow> p route h (ro_middlewares r) m s)"

section \<open>Priority\<close>

definition model_label :: "nat \<Rightarrow> ('q, 'r, 'w) model_route \<Rightarrow> string" where
  "model_label i route = ''model['' @ decimal i @ '':'' @ mr_type route @ '']''"

text \<open>The error recorded for a failed route; a configuration error has no label.\<close>

definition route_error :: "nat \<Rightarrow> ('q, 'r, 'w) model_route \<Rightarrow> go_error \<Rightarrow> go_error" where
  "route_error i route e = (if mr_call route = None then e else WrapErr (model_label i route) e)"

fun priority_loop ::
  "('q, 'r, 'w) protection \<Rightarrow> ('q, 'r, 'w) model_router \<Rightarrow> nat \<Rightarrow> ('q, 'r, 'w) model_route list \<Rightarrow> go_error list \<Rightarrow>
   ('q, 'r, 'w) route_handler" where
  "priority_loop p r i [] errs m s =
     ((None, Some (WrapErr (''model router: all '' @ decimal (length (ro_routes r)) @ '' models failed'') (JoinErr errs))), s)"
| "priority_loop p r i (route # routes) errs m s =
     (case route_call p r route m s of ((resp, err), s') \<Rightarrow>
        (case err of
           None \<Rightarrow> ((resp, None), s')
         | Some e \<Rightarrow> priority_loop p r (Suc i) routes (errs @ [route_error i route e]) m s'))"

definition ErrNoRoutes :: go_error where
  "ErrNoRoutes = Errorf ''model router: no routes configured''"

definition router_priority :: "('q, 'r, 'w) protection \<Rightarrow> ('q, 'r, 'w) model_router \<Rightarrow> ('q, 'r, 'w) route_handler" where
  "router_priority p r m s =
    (if ro_routes r = [] then ((None, Some ErrNoRoutes), s) else priority_loop p r 0 (ro_routes r) [] m s)"

section \<open>Round robin and weights\<close>

definition count_up :: "'w router_state \<Rightarrow> 'w router_state" where
  "count_up s = s\<lparr>rs_counter := rs_counter s + 1\<rparr>"

definition pickRoundRobin :: "('q, 'r, 'w) model_route list \<Rightarrow> 'w router_state \<Rightarrow> nat" where
  "pickRoundRobin routes s = unat (rs_counter (count_up s) mod of_nat (length routes))"

definition router_roundrobin :: "('q, 'r, 'w) protection \<Rightarrow> ('q, 'r, 'w) model_router \<Rightarrow> ('q, 'r, 'w) route_handler" where
  "router_roundrobin p r m s =
    (if ro_routes r = [] then ((None, Some ErrNoRoutes), s)
     else route_call p r (ro_routes r ! pickRoundRobin (ro_routes r) s) m (count_up s))"

definition route_weight :: "('q, 'r, 'w) model_route \<Rightarrow> int64" where
  "route_weight route = (if sint (mr_weight route) \<le> 0 then 1 else mr_weight route)"

fun weight_bucket :: "int64 \<Rightarrow> ('q, 'r, 'w) model_route list \<Rightarrow> nat \<Rightarrow> nat" where
  "weight_bucket n [] i = 0"
| "weight_bucket n (route # routes) i =
     (if sint n < sint (route_weight route) then i else weight_bucket (n - route_weight route) routes (Suc i))"

text \<open>The index of the picked route; None is the panic of a division by zero.\<close>

definition total_weight :: "('q, 'r, 'w) model_route list \<Rightarrow> int64" where
  "total_weight routes = fold (\<lambda>route t. t + route_weight route) routes 0"

definition pickWeighted :: "('q, 'r, 'w) model_route list \<Rightarrow> 'w router_state \<Rightarrow> nat option" where
  "pickWeighted routes s =
    (if total_weight routes = 0 then None
     else Some (weight_bucket (rs_counter (count_up s) mod total_weight routes) routes 0))"

definition router_weighted ::
  "('q, 'r, 'w) protection \<Rightarrow> ('q, 'r, 'w) model_router \<Rightarrow> call_ctx \<times> 'q \<Rightarrow> 'w router_state \<Rightarrow>
   (('r option \<times> go_error option) \<times> 'w router_state) option" where
  "router_weighted p r m s =
    (if ro_routes r = [] then Some ((None, Some ErrNoRoutes), s)
     else case pickWeighted (ro_routes r) s of
            None \<Rightarrow> None
          | Some i \<Rightarrow> Some (route_call p r (ro_routes r ! i) m (count_up s)))"

section \<open>Race\<close>

text \<open>
  The race starts every route at once.  Its argument \<open>arrivals\<close> is the order in
  which the routes' calls finish and reach the channel; a route that finishes
  after the winner runs under the cancelled context.  \<open>abort\<close> is the number of
  results after which the collecting select takes the done channel of the
  caller's context.
\<close>

definition race_lost ::
  "('q, 'r, 'w) protection \<Rightarrow> ('q, 'r, 'w) model_router \<Rightarrow> nat list \<Rightarrow> call_ctx \<times> 'q \<Rightarrow> 'w router_state \<Rightarrow> 'w router_state" where
  "race_lost p r losers m s =
    fold (\<lambda>i s. snd (route_call p r (ro_routes r ! i) ((fst m)\<lparr>cx_canceled := True\<rparr>, snd m) s)) losers s"

fun race_collect ::
  "('q, 'r, 'w) protection \<Rightarrow> ('q, 'r, 'w) model_router \<Rightarrow> nat list \<Rightarrow> (nat \<times> go_error) option \<Rightarrow> go_error option \<Rightarrow>
   ('q, 'r, 'w) route_handler" where
  "race_collect p r [] abort firstErr m s =
     (case abort of
        Some (0, e) \<Rightarrow> ((None, Some e), s)
      | _ \<Rightarrow> ((None, Some (case firstErr of
                 None \<Rightarrow> Errorf ''model router: race failed''
               | Some e \<Rightarrow> WrapErr (''model router: race all '' @ decimal (length (ro_routes r)) @ '' models failed'') e)), s))"
| "race_collect p r (i # arrivals) abort firstErr m s =
     (case abort of
        Some (0, e) \<Rightarrow> ((None, Some e), race_lost p r (i # arrivals) m s)
      | _ \<Rightarrow>
        (case route_call p r (ro_routes r ! i) m s of ((resp, err), s') \<Rightarrow>
           (case err of
              None \<Rightarrow> ((resp, None), race_lost p r arrivals m s')
            | Some e \<Rightarrow> race_collect p r arrivals
                (case abort of Some (Suc k, a) \<Rightarrow> Some (k, a) | _ \<Rightarrow> abort)
                (case firstErr of None \<Rightarrow> Some e | Some f \<Rightarrow> Some f) m s')))"

definition router_race ::
  "('q, 'r, 'w) protection \<Rightarrow> nat list \<Rightarrow> (nat \<times> go_error) option \<Rightarrow> ('q, 'r, 'w) model_router \<Rightarrow> ('q, 'r, 'w) route_handler" where
  "router_race p arrivals abort r m s =
    (if ro_routes r = [] then ((None, Some ErrNoRoutes), s) else race_collect p r arrivals abort None m s)"

text \<open>
  The streams' race gives every route a context of its own and wraps the
  winner once more, so that the context of the winner lives until Close.
\<close>

definition streamRaceAll ::
  "('q, 'st opened_stream, 'w) protection \<Rightarrow> nat list \<Rightarrow> (nat \<times> go_error) option \<Rightarrow>
   ('q, 'st opened_stream, 'w) model_router \<Rightarrow> ('q, 'st opened_stream, 'w) route_handler" where
  "streamRaceAll p arrivals abort r m s =
    (case router_race p arrivals abort r m s of ((st, err), s') \<Rightarrow>
       (((case err of None \<Rightarrow> map_option (CancelOnClose (fst m)) st | Some _ \<Rightarrow> st), err), s'))"

definition router_Generate ::
  "('w \<Rightarrow> int) \<Rightarrow> nat list \<Rightarrow> (nat \<times> go_error) option \<Rightarrow> ('q, 'r, 'w) model_router \<Rightarrow> call_ctx \<times> 'q \<Rightarrow>
   'w router_state \<Rightarrow> (('r option \<times> go_error option) \<times> 'w router_state) option" where
  "router_Generate clock arrivals abort r m s =
    (let p = applyRouteProtection clock
     in case ro_strategy r of
          StrategyRoundRobin \<Rightarrow> Some (router_roundrobin p r m s)
        | StrategyWeightedRoundRobin \<Rightarrow> router_weighted p r m s
        | StrategyRaceAll \<Rightarrow> Some (router_race p arrivals abort r m s)
        | StrategyPriority \<Rightarrow> Some (router_priority p r m s))"

definition router_Stream ::
  "('w \<Rightarrow> int) \<Rightarrow> nat list \<Rightarrow> (nat \<times> go_error) option \<Rightarrow> ('q, 'st opened_stream, 'w) model_router \<Rightarrow> call_ctx \<times> 'q \<Rightarrow>
   'w router_state \<Rightarrow> (('st opened_stream option \<times> go_error option) \<times> 'w router_state) option" where
  "router_Stream clock arrivals abort r m s =
    (let p = applyRouteProtectionStream clock
     in case ro_strategy r of
          StrategyRoundRobin \<Rightarrow> Some (router_roundrobin p r m s)
        | StrategyWeightedRoundRobin \<Rightarrow> router_weighted p r m s
        | StrategyRaceAll \<Rightarrow> Some (streamRaceAll p arrivals abort r m s)
        | StrategyPriority \<Rightarrow> Some (router_priority p r m s))"

section \<open>Failover\<close>

text \<open>The state in front of attempt \<open>k\<close>, when all attempts before it failed, and its outcome.\<close>

fun attempt_state ::
  "('q, 'r, 'w) protection \<Rightarrow> ('q, 'r, 'w) model_router \<Rightarrow> ('q, 'r, 'w) model_route list \<Rightarrow> call_ctx \<times> 'q \<Rightarrow>
   'w router_state \<Rightarrow> nat \<Rightarrow> 'w router_state" where
  "attempt_state p r routes m s 0 = s"
| "attempt_state p r routes m s (Suc k) = snd (route_call p r (routes ! k) m (attempt_state p r routes m s k))"

definition attempt ::
  "('q, 'r, 'w) protection \<Rightarrow> ('q, 'r, 'w) model_router \<Rightarrow> ('q, 'r, 'w) model_route list \<Rightarrow> call_ctx \<times> 'q \<Rightarrow>
   'w router_state \<Rightarrow> nat \<Rightarrow> 'r option \<times> go_error option" where
  "attempt p r routes m s k = fst (route_call p r (routes ! k) m (attempt_state p r routes m s k))"

lemma attempt_state_Cons:
  "attempt_state p r (x # xs) m s (Suc k) = attempt_state p r xs m (snd (route_call p r x m s)) k"
  by (induction k) simp_all

lemma attempt_Cons:
  "attempt p r (x # xs) m s (Suc k) = attempt p r xs m (snd (route_call p r x m s)) k"
  by (simp add: attempt_def attempt_state_Cons del: attempt_state.simps(2))

lemma attempt_zero: "attempt p r (x # xs) m s 0 = fst (route_call p r x m s)"
  by (simp add: attempt_def)

lemma priority_success:
  assumes "k < length routes" and "\<And>j. j < k \<Longrightarrow> snd (attempt p r routes m s j) \<noteq> None"
    and "snd (attempt p r routes m s k) = None"
  shows "priority_loop p r i routes errs m s = (attempt p r routes m s k, attempt_state p r routes m s (Suc k))"
  using assms
proof (induction routes arbitrary: k i errs s)
  case (Cons x xs)
  obtain resp err s' where call: "route_call p r x m s = ((resp, err), s')" by (metis surj_pair)
  show ?case
  proof (cases k)
    case 0
    then show ?thesis using Cons.prems(3) call by (simp add: attempt_zero)
  next
    case (Suc k')
    have "err \<noteq> None" using Cons.prems(2) [of 0] Suc call by (simp add: attempt_zero)
    then obtain e where e: "err = Some e" by blast
    have "priority_loop p r (Suc i) xs (errs @ [route_error i x e]) m s' =
        (attempt p r xs m s' k', attempt_state p r xs m s' (Suc k'))"
    proof (rule Cons.IH)
      show "k' < length xs" using Cons.prems(1) Suc by simp
      show "j < k' \<Longrightarrow> snd (attempt p r xs m s' j) \<noteq> None" for j
        using Cons.prems(2) [of "Suc j"] Suc call by (simp add: attempt_Cons)
      show "snd (attempt p r xs m s' k') = None" using Cons.prems(3) Suc call by (simp add: attempt_Cons)
    qed
    then show ?thesis using Suc call e by (simp add: attempt_Cons attempt_state_Cons del: attempt_state.simps(2))
  qed
qed simp

lemma join_chain: "x \<in> set (err_chain e) \<Longrightarrow> e \<in> set es \<Longrightarrow> x \<in> set (err_chain (WrapErr t (JoinErr es)))"
  by (subst err_chain_unfold, simp, subst err_chain_unfold) auto

lemma wrap_chain: "x \<in> set (err_chain e) \<Longrightarrow> x \<in> set (err_chain (WrapErr t e))"
  by (subst err_chain_unfold) simp

lemma priority_all_fail:
  assumes "\<And>k. k < length routes \<Longrightarrow> snd (attempt p r routes m s k) \<noteq> None"
  shows "\<exists>es. priority_loop p r i routes errs m s =
      ((None, Some (WrapErr (''model router: all '' @ decimal (length (ro_routes r)) @ '' models failed'') (JoinErr (errs @ es)))),
       attempt_state p r routes m s (length routes)) \<and>
    (\<forall>k < length routes. \<exists>e \<in> set es. set (err_chain (the (snd (attempt p r routes m s k)))) \<subseteq> set (err_chain e))"
  using assms
proof (induction routes arbitrary: i errs s)
  case (Cons x xs)
  obtain resp err s' where call: "route_call p r x m s = ((resp, err), s')" by (metis surj_pair)
  have "err \<noteq> None" using Cons.prems [of 0] call by (simp add: attempt_zero)
  then obtain e where e: "err = Some e" by blast
  have "snd (attempt p r xs m s' k) \<noteq> None" if "k < length xs" for k
    using Cons.prems [of "Suc k"] that call by (simp add: attempt_Cons)
  from Cons.IH [OF this, of "Suc i" "errs @ [route_error i x e]"] obtain es where
    loop: "priority_loop p r (Suc i) xs (errs @ [route_error i x e]) m s' =
      ((None, Some (WrapErr (''model router: all '' @ decimal (length (ro_routes r)) @ '' models failed'')
          (JoinErr ((errs @ [route_error i x e]) @ es)))), attempt_state p r xs m s' (length xs))"
    and rest: "\<forall>k < length xs. \<exists>e \<in> set es. set (err_chain (the (snd (attempt p r xs m s' k)))) \<subseteq> set (err_chain e)"
    by blast
  have "set (err_chain e) \<subseteq> set (err_chain (route_error i x e))"
    by (auto simp: route_error_def intro: wrap_chain)
  then have first: "set (err_chain (the (snd (attempt p r (x # xs) m s 0)))) \<subseteq> set (err_chain (route_error i x e))"
    using call e by (simp add: attempt_zero)
  have "\<exists>e' \<in> set (route_error i x e # es). set (err_chain (the (snd (attempt p r (x # xs) m s k)))) \<subseteq> set (err_chain e')"
    if "k < length (x # xs)" for k
  proof (cases k)
    case 0
    then show ?thesis using first by auto
  next
    case (Suc k')
    then show ?thesis using rest that call by (auto simp: attempt_Cons)
  qed
  moreover have "priority_loop p r i (x # xs) errs m s =
      ((None, Some (WrapErr (''model router: all '' @ decimal (length (ro_routes r)) @ '' models failed'')
          (JoinErr (errs @ route_error i x e # es)))), attempt_state p r (x # xs) m s (length (x # xs)))"
    using loop call e by (simp add: attempt_state_Cons del: attempt_state.simps(2))
  ultimately show ?case by blast
qed simp

text \<open>
  C20. The priority strategy returns the outcome and the state of the first
  route that succeeds, after every route in front of it failed and without
  touching the ones behind it; when all fail it fails with an error in whose
  chain every route's error is found.
\<close>

theorem priority_failover:
  assumes "ro_routes r \<noteq> []"
  shows "(\<exists>k < length (ro_routes r).
        (\<forall>j < k. snd (attempt p r (ro_routes r) m s j) \<noteq> None) \<and>
        snd (attempt p r (ro_routes r) m s k) = None \<and>
        router_priority p r m s = (attempt p r (ro_routes r) m s k, attempt_state p r (ro_routes r) m s (Suc k))) \<or>
    (\<exists>e. router_priority p r m s = ((None, Some e), attempt_state p r (ro_routes r) m s (length (ro_routes r))) \<and>
        (\<forall>k < length (ro_routes r). \<exists>f. snd (attempt p r (ro_routes r) m s k) = Some f \<and>
            set (err_chain f) \<subseteq> set (err_chain e)))"
proof (cases "\<exists>k < length (ro_routes r). snd (attempt p r (ro_routes r) m s k) = None")
  case True
  define k where "k = (LEAST k. k < length (ro_routes r) \<and> snd (attempt p r (ro_routes r) m s k) = None)"
  have k: "k < length (ro_routes r) \<and> snd (attempt p r (ro_routes r) m s k) = None"
    unfolding k_def by (rule LeastI_ex) (use True in blast)
  moreover have "snd (attempt p r (ro_routes r) m s j) \<noteq> None" if "j < k" for j
    using not_less_Least [of j "\<lambda>k. k < length (ro_routes r) \<and> snd (attempt p r (ro_routes r) m s k) = None"] that k
    unfolding k_def by auto
  ultimately show ?thesis
    using priority_success [of k "ro_routes r" p r m s 0 "[]"] assms by (auto simp: router_priority_def)
next
  case False
  then have all: "\<And>k. k < length (ro_routes r) \<Longrightarrow> snd (attempt p r (ro_routes r) m s k) \<noteq> None" by auto
  from priority_all_fail [OF this, where i = 0 and errs = "[]"] obtain es where
    loop: "priority_loop p r 0 (ro_routes r) [] m s =
      ((None, Some (WrapErr (''model router: all '' @ decimal (length (ro_routes r)) @ '' models failed'') (JoinErr es))),
       attempt_state p r (ro_routes r) m s (length (ro_routes r)))"
    and es: "\<forall>k < length (ro_routes r). \<exists>e \<in> set es.
        set (err_chain (the (snd (attempt p r (ro_routes r) m s k)))) \<subseteq> set (err_chain e)"
    by auto
  have "\<exists>f. snd (attempt p r (ro_routes r) m s k) = Some f \<and>
      set (err_chain f) \<subseteq> set (err_chain (WrapErr t (JoinErr es)))" if k: "k < length (ro_routes r)" for k t
  proof -
    obtain f where f: "snd (attempt p r (ro_routes r) m s k) = Some f" using all [OF k] by auto
    moreover obtain e where "e \<in> set es" "set (err_chain f) \<subseteq> set (err_chain e)" using es k f by force
    ultimately show ?thesis using join_chain [of _ e es t] by blast
  qed
  then show ?thesis using loop assms by (auto simp: router_priority_def)
qed

section \<open>Fairness\<close>

text \<open>The weighted choice on natural numbers.\<close>

fun nat_bucket :: "nat list \<Rightarrow> nat \<Rightarrow> nat" where
  "nat_bucket [] n = 0"
| "nat_bucket (w # ws) n = (if n < w then 0 else Suc (nat_bucket ws (n - w)))"

lemma upt_shift: "[a..<a + n] = map ((+) a) [0..<n]"
  by (induction n) simp_all

lemma bucket_share:
  "i < length ws \<Longrightarrow> length (filter (\<lambda>n. nat_bucket ws n = i) [0..<sum_list ws]) = ws ! i"
proof (induction ws arbitrary: i)
  case (Cons w ws)
  have split: "[0..<sum_list (w # ws)] = [0..<w] @ map ((+) w) [0..<sum_list ws]"
    using upt_add_eq_append [of 0 w "sum_list ws"] by (simp add: upt_shift)
  have low: "filter (\<lambda>n. nat_bucket (w # ws) n = i) [0..<w] = (if i = 0 then [0..<w] else [])"
    by (auto simp: filter_empty_conv intro: filter_True)
  have high: "length (filter (\<lambda>n. nat_bucket (w # ws) n = i) (map ((+) w) [0..<sum_list ws])) =
      (if i = 0 then 0 else ws ! (i - 1))"
  proof (cases i)
    case 0
    then show ?thesis by (simp add: filter_map comp_def)
  next
    case (Suc j)
    then show ?thesis using Cons.IH [of j] Cons.prems by (simp add: filter_map comp_def)
  qed
  show ?case unfolding split filter_append length_append low high by (cases i) simp_all
qed simp

text \<open>A window of \<open>T\<close> consecutive counts meets every residue once.\<close>

lemma window_residues:
  assumes "0 < T"
  shows "mset (map (\<lambda>k. (c + k) mod T) [0..<T]) = mset [0..<T :: nat]"
proof -
  have inj: "inj_on (\<lambda>k. (c + k) mod T) {0..<T}"
  proof (rule linorder_inj_onI')
    fix x y assume x: "x \<in> {0..<T}" and y: "y \<in> {0..<T}" and less: "x < y"
    show "(c + x) mod T \<noteq> (c + y) mod T"
    proof
      assume "(c + x) mod T = (c + y) mod T"
      then have "T dvd (c + y) - (c + x)" using less by (subst mod_eq_dvd_iff_nat [symmetric]) simp_all
      then have "T dvd y - x" by simp
      then have "T \<le> y - x" using less by (intro dvd_imp_le) simp_all
      then show False using y by simp
    qed
  qed
  then have d: "distinct (map (\<lambda>k. (c + k) mod T) [0..<T])" by (simp add: distinct_map)
  have "set (map (\<lambda>k. (c + k) mod T) [0..<T]) \<subseteq> set [0..<T]" using assms by auto
  then have "set (map (\<lambda>k. (c + k) mod T) [0..<T]) = set [0..<T]"
    using d by (intro card_subset_eq) (simp_all add: distinct_card [OF d, simplified])
  then show ?thesis by (rule set_eq_iff_mset_eq_distinct [OF d distinct_upt, THEN iffD1])
qed

text \<open>The same on machine words, when the total weight stays below the sign bit.\<close>

lemma sint_small:
  assumes "unat (w :: int64) < 2 ^ 63"
  shows "sint w = int (unat w)"
proof -
  have "int (unat w) < int (2 ^ 63)" using assms by (simp only: of_nat_less_iff)
  then have "uint w < 2 ^ 63" by simp
  then have "sint (word_of_int (uint w) :: int64) = uint w"
  proof (intro sint64_of_int)
    show "- (2 ^ 63) \<le> uint w" by (rule order_trans [of _ 0]) simp_all
  qed
  then show ?thesis by simp
qed

abbreviation weights :: "('q, 'r, 'w) model_route list \<Rightarrow> nat list" where
  "weights routes \<equiv> map (\<lambda>route. unat (route_weight route)) routes"

lemma route_weight_pos: "0 < unat (route_weight route)"
proof (cases "sint (mr_weight route) \<le> 0")
  case False
  then have "mr_weight route \<noteq> 0" by auto
  then show ?thesis using False by (simp add: route_weight_def unat_gt_0)
qed (simp add: route_weight_def)

lemma weight_bucket_nat:
  "sum_list (weights routes) < 2 ^ 63 \<Longrightarrow> unat n < sum_list (weights routes) \<Longrightarrow>
   weight_bucket n routes i = i + nat_bucket (weights routes) (unat n)"
proof (induction routes arbitrary: n i)
  case (Cons x xs)
  let ?w = "route_weight x"
  have small: "unat ?w < 2 ^ 63" "unat n < 2 ^ 63" using Cons.prems by simp_all
  then have cmp: "sint n < sint ?w \<longleftrightarrow> unat n < unat ?w" by (simp only: sint_small of_nat_less_iff)
  show ?case
  proof (cases "unat n < unat ?w")
    case True
    then show ?thesis using cmp by simp
  next
    case False
    then have sub: "unat (n - ?w) = unat n - unat ?w" by (simp add: unat_sub word_le_nat_alt)
    then show ?thesis using Cons.IH [of "n - ?w" "Suc i"] Cons.prems False cmp by simp
  qed
qed simp

lemma total_weight_nat:
  "sum_list (weights routes) < 2 ^ 63 \<Longrightarrow> unat (total_weight routes) = sum_list (weights routes)"
proof -
  have fold: "fold (\<lambda>route t. t + route_weight route) routes t = t + of_nat (sum_list (weights routes))" for t
    by (induction routes arbitrary: t) (simp_all add: algebra_simps)
  assume "sum_list (weights routes) < 2 ^ 63"
  then have "unat (of_nat (sum_list (weights routes)) :: int64) = sum_list (weights routes)"
    by (simp add: unat_of_nat)
  then show ?thesis by (simp add: total_weight_def fold)
qed

lemma pick_nat:
  assumes "sum_list (weights routes) < 2 ^ 63" and "routes \<noteq> []" and "unat (rs_counter s) + 1 < 2 ^ 64"
  shows "pickWeighted routes s =
    Some (nat_bucket (weights routes) ((unat (rs_counter s) + 1) mod sum_list (weights routes)))"
proof -
  let ?T = "sum_list (weights routes)"
  obtain x xs where "routes = x # xs" using assms(2) by (cases routes) auto
  then have pos: "0 < ?T" using route_weight_pos [of x] by simp
  have total: "unat (total_weight routes) = ?T" by (rule total_weight_nat [OF assms(1)])
  have "unat (rs_counter s + 1) = unat (rs_counter s) + 1"
    using assms(3) by (subst unat_add_lem [THEN iffD1]) simp_all
  then have n: "unat (rs_counter (count_up s) mod total_weight routes) = (unat (rs_counter s) + 1) mod ?T"
    by (simp add: count_up_def unat_mod total)
  have "total_weight routes \<noteq> 0" using total pos by (metis unat_0 less_irrefl)
  then show ?thesis
    using weight_bucket_nat [OF assms(1), of "rs_counter (count_up s) mod total_weight routes" 0] n pos
    by (simp add: pickWeighted_def)
qed

text \<open>
  C19. Over any window of as many calls as the weights sum to, the weighted
  strategy picks every route exactly as often as its weight says (at least once,
  a weight that is not positive counting as one), from whatever count the
  window starts, as long as the sum stays below 2^63 and the counter does not
  wrap inside the window.
\<close>

theorem weighted_share:
  assumes sum: "sum_list (map (\<lambda>route. unat (route_weight route)) routes) < 2 ^ 63"
    and wrap: "unat (rs_counter s) + sum_list (map (\<lambda>route. unat (route_weight route)) routes) < 2 ^ 64"
    and i: "i < length routes"
  shows "length (filter (\<lambda>k. pickWeighted routes (s\<lparr>rs_counter := rs_counter s + of_nat k\<rparr>) = Some i)
      [0..<sum_list (map (\<lambda>route. unat (route_weight route)) routes)]) = unat (route_weight (routes ! i))"
proof -
  let ?T = "sum_list (weights routes)"
  let ?c = "unat (rs_counter s) + 1"
  have ne: "routes \<noteq> []" using i by auto
  then obtain x xs where "routes = x # xs" by (cases routes) auto
  then have pos: "0 < ?T" using route_weight_pos [of x] by simp
  have pick: "pickWeighted routes (s\<lparr>rs_counter := rs_counter s + of_nat k\<rparr>) = Some (nat_bucket (weights routes) ((?c + k) mod ?T))"
    if "k < ?T" for k
  proof -
    have "unat (of_nat k :: int64) = k" using that sum by (simp add: unat_of_nat)
    then have "unat (rs_counter s + of_nat k) = unat (rs_counter s) + k"
      using that wrap by (subst unat_add_lem [THEN iffD1]) simp_all
    then show ?thesis using pick_nat [OF sum ne, of "s\<lparr>rs_counter := rs_counter s + of_nat k\<rparr>"] that wrap
      by (simp add: add.assoc add.commute)
  qed
  have "filter (\<lambda>k. pickWeighted routes (s\<lparr>rs_counter := rs_counter s + of_nat k\<rparr>) = Some i) [0..<?T] =
      filter (\<lambda>k. nat_bucket (weights routes) ((?c + k) mod ?T) = i) [0..<?T]"
    by (rule filter_cong) (auto simp: pick)
  moreover have "length (filter (\<lambda>k. nat_bucket (weights routes) ((?c + k) mod ?T) = i) [0..<?T]) =
      size (filter_mset (\<lambda>n. nat_bucket (weights routes) n = i) (mset (map (\<lambda>k. (?c + k) mod ?T) [0..<?T])))"
    unfolding mset_filter [symmetric] size_mset by (simp add: filter_map comp_def)
  moreover have "\<dots> = length (filter (\<lambda>n. nat_bucket (weights routes) n = i) [0..<?T])"
    unfolding window_residues [OF pos] mset_filter [symmetric] size_mset ..
  ultimately show ?thesis using bucket_share [of i "weights routes"] i by simp
qed

section \<open>The race\<close>

text \<open>
  A race that is not aborted returns the outcome of the first arrival that
  succeeds; only when every route failed does it fail, with the first error.
\<close>

lemma race_first_success:
  assumes "k < length arrivals"
    and "\<And>j. j < k \<Longrightarrow> snd (attempt p r (map ((!) (ro_routes r)) arrivals) m s j) \<noteq> None"
    and "snd (attempt p r (map ((!) (ro_routes r)) arrivals) m s k) = None"
  shows "race_collect p r arrivals None firstErr m s =
    (attempt p r (map ((!) (ro_routes r)) arrivals) m s k,
     race_lost p r (drop (Suc k) arrivals) m (attempt_state p r (map ((!) (ro_routes r)) arrivals) m s (Suc k)))"
  using assms
proof (induction arrivals arbitrary: k s firstErr)
  case (Cons x xs)
  let ?r = "map ((!) (ro_routes r))"
  obtain resp err s' where call: "route_call p r (ro_routes r ! x) m s = ((resp, err), s')" by (metis surj_pair)
  show ?case
  proof (cases k)
    case 0
    then show ?thesis using Cons.prems(3) call by (simp add: attempt_zero)
  next
    case (Suc k')
    have "err \<noteq> None" using Cons.prems(2) [of 0] Suc call by (simp add: attempt_zero)
    then obtain e where e: "err = Some e" by blast
    have "race_collect p r xs None f m s' =
        (attempt p r (?r xs) m s' k', race_lost p r (drop (Suc k') xs) m (attempt_state p r (?r xs) m s' (Suc k')))" for f
    proof (rule Cons.IH)
      show "k' < length xs" using Cons.prems(1) Suc by simp
      show "j < k' \<Longrightarrow> snd (attempt p r (?r xs) m s' j) \<noteq> None" for j
        using Cons.prems(2) [of "Suc j"] Suc call by (simp add: attempt_Cons)
      show "snd (attempt p r (?r xs) m s' k') = None" using Cons.prems(3) Suc call by (simp add: attempt_Cons)
    qed
    then show ?thesis using Suc call e by (simp add: attempt_Cons attempt_state_Cons del: attempt_state.simps(2))
  qed
qed simp

text \<open>
  The losers run on under the cancelled context, and a call that stops with
  \<open>context.Canceled\<close> counts as a failure of its route: a healthy route that is
  merely slower is out after as many lost races as its breaker tolerates.
\<close>

definition fast_route :: "(unit, unit, int) model_route" where
  "fast_route = \<lparr>mr_type = ''fast'', mr_call = Some (\<lambda>m s. ((Some (), None), s)), mr_count = None, mr_weight = 1,
     mr_timeout = 0, mr_breaker = None, mr_limiter = None\<rparr>"

definition slow_route :: "(unit, unit, int) model_route" where
  "slow_route = \<lparr>mr_type = ''slow'',
     mr_call = Some (\<lambda>m s. if cx_canceled (fst m) then ((None, Some (Sentinel CtxCanceled)), s) else ((Some (), None), s)),
     mr_count = None, mr_weight = 1, mr_timeout = 0, mr_breaker = Some 0, mr_limiter = None\<rparr>"

definition race_router :: "(unit, unit, int) model_router" where
  "race_router = NewModelRouter [fast_route, slow_route] [WithRouterStrategy StrategyRaceAll]"

definition router_start :: "int router_state" where
  "router_start = \<lparr>rs_counter = 0, rs_breakers = (\<lambda>_. NewBreaker ''slow'' (Some \<lparr>MaxFailures = 2, ResetTimeout = 1000, HalfOpenMaxCalls = 1\<rparr>)),
     rs_limiters = (\<lambda>_. NewLimiter 1 1 0), rs_world = 0\<rparr>"

definition one_race :: "int router_state \<Rightarrow> int router_state" where
  "one_race s = snd (the (router_Generate (\<lambda>w. w) [0, 1] None race_router (\<lparr>cx_deadline = None, cx_canceled = False\<rparr>, ()) s))"

lemmas router_eval =
  race_router_def NewModelRouter_def WithRouterStrategy_def fast_route_def slow_route_def router_start_def
  one_race_def router_Generate_def router_race_def race_lost_def route_call_def applyRouteProtection_def
  breaker_guard_def Let_def NewBreaker_def DefaultConfig_def Allow_def RecordFailure_def RecordSuccess_def

lemma race_trips_losers:
  "br_state (rs_breakers (one_race (one_race router_start)) 0) = CircuitOpen"
  by (simp add: router_eval)

section \<open>Concrete runs\<close>

definition two_models :: "(unit, unit, int) model_router" where
  "two_models = NewModelRouter [slow_route\<lparr>mr_call := None\<rparr>, fast_route\<lparr>mr_weight := 3\<rparr>] []"

theorem priority_failover_witness:
  "fst (router_priority (applyRouteProtection (\<lambda>w. w)) two_models (\<lparr>cx_deadline = None, cx_canceled = False\<rparr>, ()) router_start)
    = (Some (), None)"
proof -
  let ?p = "applyRouteProtection (\<lambda>w :: int. w)" and ?m = "(\<lparr>cx_deadline = None, cx_canceled = False\<rparr>, ())"
  have "ro_routes two_models \<noteq> []" by (simp add: two_models_def NewModelRouter_def)
  note claim = priority_failover [OF this, of ?p ?m router_start]
  let ?a = "attempt ?p two_models (ro_routes two_models) ?m router_start"
  have one: "?a 1 = (Some (), None)" and zero: "snd (?a 0) \<noteq> None" and len: "length (ro_routes two_models) = 2"
    by (simp_all add: attempt_def two_models_def router_eval)
  from claim show ?thesis
  proof (elim disjE exE conjE)
    fix k assume k: "k < length (ro_routes two_models)" "snd (?a k) = None"
      and run: "router_priority ?p two_models ?m router_start =
        (?a k, attempt_state ?p two_models (ro_routes two_models) ?m router_start (Suc k))"
    have "k \<noteq> 0" using k(2) zero by (metis (no_types))
    then have "k = 1" using k(1) len by simp
    then show ?thesis using run one by simp
  next
    fix e assume "\<forall>k < length (ro_routes two_models). \<exists>f. snd (?a k) = Some f \<and> set (err_chain f) \<subseteq> set (err_chain e)"
    moreover have "1 < length (ro_routes two_models)" using len by simp
    ultimately obtain f where "snd (?a 1) = Some f" by blast
    then show ?thesis using one by simp
  qed
qed

theorem weighted_share_witness:
  "length (filter (\<lambda>k. pickWeighted (ro_routes two_models) (router_start\<lparr>rs_counter := rs_counter router_start + of_nat k\<rparr>) = Some 1)
    [0..<4]) = 3"
proof -
  have w: "map (\<lambda>route. unat (route_weight route)) (ro_routes two_models) = [1, 3]"
    by (simp add: two_models_def router_eval route_weight_def)
  have "unat (route_weight (ro_routes two_models ! 1)) = 3"
    by (simp add: two_models_def router_eval route_weight_def)
  moreover have "1 < length (ro_routes two_models)" by (simp add: two_models_def NewModelRouter_def)
  ultimately show ?thesis
    using weighted_share [of "ro_routes two_models" router_start 1] by (simp add: w router_start_def)
qed

end
