(* ===== verification/Subagents.thy ===== *)
theory Subagents
  imports GoErrors GoStrings "HOL-Library.Sublist"
begin

text \<open>
  Child agent sessions (core/orchestrate/subagent.go): the registry of live
  sessions, and one session as a state machine of its loop goroutine and of the
  concurrent calls Continue, Interrupt and Dispose.

  A step is one critical section of the code (or one channel operation).  The
  one call that blocks while it holds \<open>settleMu\<close> is Continue on a full queue:
  \<open>se_blocked\<close> is its message, and while it is there no other section under that
  mutex can run.  \<open>se_turns\<close> and \<open>se_accepted\<close> record the inputs of the turns begun
  and of those asked for; the approval policy a child inherits is passed on
  unchanged and left out.  What the agent returns from a turn is an input of the step, and it can always return:
  that a turn ends (whether or not it notices that it was canceled) is taken for granted, not shown.
\<close>

section \<open>Data\<close>

datatype sub_status = StatusRunning | StatusIdle | StatusCompleted | StatusFailed | StatusDisposed

record sub_result =
  sr_err :: "go_error option"
  sr_content :: string

text \<open>Where the loop goroutine is; the constructors carry its local variables.\<close>

datatype loop_pc =
    AtTop "string list"
  | Ready "string list"
  | InTurn
  | Returned sub_result bool
  | TurnDone
  | Waiting
  | Leaving sub_status "go_error option"
  | Closing
  | Ended

record sub_entry =
  se_id :: string
  se_label :: string
  se_parent :: string
  se_oneShot :: bool
  se_sender :: bool
  se_status :: sub_status
  se_result :: "sub_result option"
  se_disposed :: bool
  se_queue :: "string list"
  se_closed :: bool
  se_cancel :: bool
  se_canceled :: bool
  se_interrupt :: bool
  se_done :: bool
  se_blocked :: "string option"
  se_disposing :: nat
  se_waiting :: nat
  se_panic :: bool
  se_pc :: loop_pc
  se_notices :: "(sub_status \<times> go_error option) list"
  se_turns :: "string list list"
  se_accepted :: "string list list"

definition queue_cap :: nat where "queue_cap = 8"

definition new_entry :: "string \<Rightarrow> string \<Rightarrow> string \<Rightarrow> bool \<Rightarrow> bool \<Rightarrow> string list \<Rightarrow> sub_entry" where
  "new_entry i label parent oneShot sender first =
    \<lparr>se_id = i, se_label = label, se_parent = parent, se_oneShot = oneShot, se_sender = sender,
     se_status = StatusRunning, se_result = None, se_disposed = False, se_queue = [], se_closed = False,
     se_cancel = False, se_canceled = False, se_interrupt = False, se_done = False, se_blocked = None,
     se_disposing = 0, se_waiting = 0, se_panic = False, se_pc = AtTop first, se_notices = [], se_turns = [], se_accepted = [first]\<rparr>"

section \<open>The loop goroutine\<close>

definition loop_top :: "string list \<Rightarrow> sub_entry \<Rightarrow> sub_entry" where
  "loop_top inp e =
    e\<lparr>se_status := StatusRunning, se_pc := (if se_disposed e then Leaving StatusDisposed None else Ready inp)\<rparr>"

definition turn_begin :: "string list \<Rightarrow> sub_entry \<Rightarrow> sub_entry" where
  "turn_begin inp e = e\<lparr>se_cancel := True, se_canceled := False, se_turns := se_turns e @ [inp], se_pc := InTurn\<rparr>"

definition turn_end :: "sub_result \<Rightarrow> sub_entry \<Rightarrow> sub_entry" where
  "turn_end res e = e\<lparr>se_cancel := False, se_interrupt := False, se_pc := Returned res (se_interrupt e)\<rparr>"

definition turn_settle :: "sub_result \<Rightarrow> bool \<Rightarrow> sub_entry \<Rightarrow> sub_entry" where
  "turn_settle res interrupted e =
    (if sr_err res \<noteq> None \<and> \<not> interrupted then
       if se_disposed e then e\<lparr>se_pc := Leaving StatusDisposed None\<rparr>
       else e\<lparr>se_status := StatusFailed, se_result := Some res, se_pc := Leaving StatusFailed (sr_err res)\<rparr>
     else e\<lparr>se_status := StatusIdle, se_result := Some res, se_pc := (if se_oneShot e then TurnDone else Waiting)\<rparr>)"

definition oneshot_settle :: "sub_entry \<Rightarrow> sub_entry" where
  "oneshot_settle e =
    (if se_disposed e then e\<lparr>se_pc := Leaving StatusDisposed None\<rparr>
     else e\<lparr>se_disposed := True, se_status := StatusCompleted, se_pc := Leaving StatusCompleted None\<rparr>)"

definition next_message :: "sub_entry \<Rightarrow> sub_entry" where
  "next_message e =
    (case se_queue e of
       msg # rest \<Rightarrow> e\<lparr>se_queue := rest, se_pc := AtTop [msg]\<rparr>
     | [] \<Rightarrow> e\<lparr>se_pc := Leaving StatusDisposed None\<rparr>)"

definition notify :: "sub_status \<Rightarrow> go_error option \<Rightarrow> sub_entry \<Rightarrow> sub_entry" where
  "notify st err e = (if se_sender e then e\<lparr>se_notices := se_notices e @ [(st, err)]\<rparr> else e)"

section \<open>The calls\<close>

datatype sub_answer = SubOk | SubEmptyMessage | ErrSubagentNotFound | ErrSubagentNotContinuable

text \<open>None: the call blocks and keeps the mutex.\<close>

definition sub_Continue :: "string \<Rightarrow> sub_entry \<Rightarrow> sub_answer option \<times> sub_entry" where
  "sub_Continue message e =
    (if message = [] then (Some SubEmptyMessage, e)
     else if se_disposed e \<or> se_status e = StatusFailed then (Some ErrSubagentNotContinuable, e)
     else if length (se_queue e) < queue_cap
          then (Some SubOk, e\<lparr>se_queue := se_queue e @ [message], se_accepted := se_accepted e @ [[message]]\<rparr>)
     else if se_done e then (Some ErrSubagentNotContinuable, e)
     else (None, e\<lparr>se_blocked := Some message\<rparr>))"

definition sub_Interrupt :: "sub_entry \<Rightarrow> sub_entry" where
  "sub_Interrupt e = e\<lparr>se_interrupt := True, se_canceled := (se_cancel e \<or> se_canceled e)\<rparr>"

text \<open>Dispose: close the queue (closing it twice panics), cancel the turn, wait for the loop.\<close>

definition dispose_close :: "sub_entry \<Rightarrow> sub_entry" where
  "dispose_close e =
    (if se_closed e then e\<lparr>se_disposed := True, se_panic := True\<rparr>
     else e\<lparr>se_disposed := True, se_closed := True, se_disposing := Suc (se_disposing e)\<rparr>)"

definition dispose_cancel :: "sub_entry \<Rightarrow> sub_entry" where
  "dispose_cancel e =
    e\<lparr>se_disposing := se_disposing e - 1, se_waiting := Suc (se_waiting e), se_canceled := (se_cancel e \<or> se_canceled e)\<rparr>"

datatype sub_action =
    Loop
  | TurnResult sub_result
  | CallContinue string
  | Unblock
  | CallInterrupt
  | CallDispose
  | DisposeCancel

inductive sub_step :: "sub_action \<Rightarrow> sub_entry \<Rightarrow> sub_entry \<Rightarrow> bool" where
  top: "\<not> se_panic e \<Longrightarrow> se_pc e = AtTop inp \<Longrightarrow> se_blocked e = None \<Longrightarrow> sub_step Loop e (loop_top inp e)"
| begin_turn: "\<not> se_panic e \<Longrightarrow> se_pc e = Ready inp \<Longrightarrow> sub_step Loop e (turn_begin inp e)"
| end_turn: "\<not> se_panic e \<Longrightarrow> se_pc e = InTurn \<Longrightarrow> sub_step (TurnResult res) e (turn_end res e)"
| settle: "\<not> se_panic e \<Longrightarrow> se_pc e = Returned res i \<Longrightarrow> se_blocked e = None \<Longrightarrow> sub_step Loop e (turn_settle res i e)"
| one_shot: "\<not> se_panic e \<Longrightarrow> se_pc e = TurnDone \<Longrightarrow> se_blocked e = None \<Longrightarrow> sub_step Loop e (oneshot_settle e)"
| receive: "\<not> se_panic e \<Longrightarrow> se_pc e = Waiting \<Longrightarrow> se_queue e \<noteq> [] \<or> se_closed e \<Longrightarrow> sub_step Loop e (next_message e)"
| leave: "\<not> se_panic e \<Longrightarrow> se_pc e = Leaving st err \<Longrightarrow> sub_step Loop e ((notify st err e)\<lparr>se_pc := Closing\<rparr>)"
| close_done: "\<not> se_panic e \<Longrightarrow> se_pc e = Closing \<Longrightarrow> sub_step Loop e (e\<lparr>se_done := True, se_pc := Ended\<rparr>)"
| continue: "\<not> se_panic e \<Longrightarrow> se_blocked e = None \<Longrightarrow> sub_step (CallContinue msg) e (snd (sub_Continue msg e))"
| unblock_sent: "\<not> se_panic e \<Longrightarrow> se_blocked e = Some msg \<Longrightarrow> length (se_queue e) < queue_cap \<Longrightarrow>
    sub_step Unblock e (e\<lparr>se_blocked := None, se_queue := se_queue e @ [msg], se_accepted := se_accepted e @ [[msg]]\<rparr>)"
| unblock_done: "\<not> se_panic e \<Longrightarrow> se_blocked e = Some msg \<Longrightarrow> se_done e \<Longrightarrow> sub_step Unblock e (e\<lparr>se_blocked := None\<rparr>)"
| interrupt: "\<not> se_panic e \<Longrightarrow> sub_step CallInterrupt e (sub_Interrupt e)"
| dispose: "\<not> se_panic e \<Longrightarrow> se_blocked e = None \<Longrightarrow> sub_step CallDispose e (dispose_close e)"
| dispose_cancels: "\<not> se_panic e \<Longrightarrow> 0 < se_disposing e \<Longrightarrow> sub_step DisposeCancel e (dispose_cancel e)"

inductive_simps sub_step_simps:
  "sub_step Loop e e'" "sub_step (TurnResult res) e e'" "sub_step (CallContinue msg) e e'" "sub_step Unblock e e'"
  "sub_step CallInterrupt e e'" "sub_step CallDispose e e'" "sub_step DisposeCancel e e'"

inductive sub_reach :: "sub_entry \<Rightarrow> sub_action list \<Rightarrow> sub_entry \<Rightarrow> bool" where
  refl: "sub_reach e [] e"
| step: "sub_reach e as e1 \<Longrightarrow> sub_step a e1 e2 \<Longrightarrow> sub_reach e (as @ [a]) e2"

section \<open>The registry\<close>

record sub_registry =
  su_seq :: nat
  su_items :: "(string \<times> sub_entry) list"

definition NewSubRegistry :: sub_registry where
  "NewSubRegistry = \<lparr>su_seq = 0, su_items = []\<rparr>"

definition nextID :: "sub_registry \<Rightarrow> string \<times> sub_registry" where
  "nextID r = (''sub-'' @ decimal (Suc (su_seq r)), r\<lparr>su_seq := Suc (su_seq r)\<rparr>)"

definition sub_lookup :: "sub_registry \<Rightarrow> string \<Rightarrow> sub_entry option" where
  "sub_lookup r i = map_of (su_items r) i"

text \<open>
  The shared creation path.  The arguments are what it reads from the context:
  whether there is an agent and a runtime, and whether the parent can be told.
\<close>

definition spawn ::
  "bool \<Rightarrow> bool \<Rightarrow> bool \<Rightarrow> string \<Rightarrow> string \<Rightarrow> string list \<Rightarrow> bool \<Rightarrow> sub_registry \<Rightarrow> (string + string) \<times> sub_registry" where
  "spawn has_agent has_rt sender parent label messages oneShot r =
    (if \<not> has_agent then (Inl ''orchestrate: nil subagent'', r)
     else if \<not> has_rt then (Inl ''orchestrate: no runtime in context'', r)
     else case nextID r of (i, r1) \<Rightarrow>
       let first = (if messages = [] then [''work''] else messages)
       in (Inr i, r1\<lparr>su_items := su_items r1 @ [(i, new_entry i label parent oneShot sender first)]\<rparr>))"

definition sub_remove :: "string \<Rightarrow> sub_registry \<Rightarrow> sub_registry" where
  "sub_remove i r = r\<lparr>su_items := filter (\<lambda>p. fst p \<noteq> i) (su_items r)\<rparr>"

text \<open>The last part of Dispose and of Run: the session is done, the entry goes.\<close>

definition dispose_end :: "string \<Rightarrow> sub_registry \<Rightarrow> sub_registry option" where
  "dispose_end i r =
    (case sub_lookup r i of
       None \<Rightarrow> None
     | Some e \<Rightarrow> if se_done e \<and> 0 < se_waiting e then Some (sub_remove i r) else None)"

definition run_end :: "string \<Rightarrow> sub_registry \<Rightarrow> (sub_result option \<times> sub_registry) option" where
  "run_end i r =
    (case sub_lookup r i of
       None \<Rightarrow> None
     | Some e \<Rightarrow> if se_done e then Some (se_result e, sub_remove i r) else None)"

definition sub_List :: "sub_registry \<Rightarrow> (string \<times> string \<times> sub_status) list" where
  "sub_List r =
    map (\<lambda>p. (se_id (snd p), se_parent (snd p), se_status (snd p)))
      (filter (\<lambda>p. se_status (snd p) \<noteq> StatusFailed \<and> se_status (snd p) \<noteq> StatusDisposed \<and>
                  se_status (snd p) \<noteq> StatusCompleted) (su_items r))"

definition Descendants :: "string \<Rightarrow> sub_registry \<Rightarrow> (string \<times> string \<times> sub_status) list" where
  "Descendants parentID r = filter (\<lambda>s. fst (snd s) = parentID) (sub_List r)"

definition sub_Wait :: "string \<Rightarrow> sub_registry \<Rightarrow> (sub_answer + sub_result option) option" where
  "sub_Wait i r =
    (case sub_lookup r i of
       None \<Rightarrow> Some (Inl ErrSubagentNotFound)
     | Some e \<Rightarrow> if se_done e then Some (Inr (se_result e)) else None)"

section \<open>The session invariant\<close>

fun terminal :: "loop_pc \<Rightarrow> bool" where
  "terminal (Leaving _ _) = True"
| "terminal Closing = True"
| "terminal Ended = True"
| "terminal _ = False"

fun pending :: "loop_pc \<Rightarrow> string list list" where
  "pending (AtTop inp) = [inp]"
| "pending (Ready inp) = [inp]"
| "pending _ = []"

text \<open>The turns begun are the inputs asked for, in order; what is left is pending or queued.\<close>

definition in_order :: "sub_entry \<Rightarrow> bool" where
  "in_order e =
    (if terminal (se_pc e) then prefix (se_turns e) (se_accepted e)
     else se_accepted e = se_turns e @ pending (se_pc e) @ map (\<lambda>m. [m]) (se_queue e))"

definition settles :: "sub_entry \<Rightarrow> bool" where
  "settles e =
    ((se_done e \<longleftrightarrow> se_pc e = Ended) \<and>
     (if se_pc e = Closing \<or> se_pc e = Ended then length (se_notices e) = (if se_sender e then 1 else 0)
      else se_notices e = []) \<and>
     (terminal (se_pc e) \<longrightarrow> se_disposed e \<or> se_status e = StatusFailed) \<and>
     (se_status e = StatusFailed \<or> se_status e = StatusCompleted \<longrightarrow> terminal (se_pc e)) \<and>
     (\<forall>st err. se_pc e = Leaving st err \<longrightarrow> st \<noteq> StatusRunning \<and> st \<noteq> StatusIdle) \<and>
     (\<forall>(st, err) \<in> set (se_notices e). st \<noteq> StatusRunning \<and> st \<noteq> StatusIdle))"

definition mutexes :: "sub_entry \<Rightarrow> bool" where
  "mutexes e =
    ((se_cancel e \<longleftrightarrow> se_pc e = InTurn) \<and>
     (se_closed e \<longrightarrow> se_disposed e) \<and>
     (se_disposed e \<longrightarrow> se_blocked e = None) \<and>
     (se_status e = StatusFailed \<longrightarrow> se_blocked e = None) \<and>
     (se_disposed e \<and> \<not> terminal (se_pc e) \<longrightarrow> se_closed e) \<and>
     length (se_queue e) \<le> queue_cap)"

definition sub_inv :: "sub_entry \<Rightarrow> bool" where
  "sub_inv e = (in_order e \<and> settles e \<and> mutexes e)"

lemmas sub_ops = loop_top_def turn_begin_def turn_end_def turn_settle_def oneshot_settle_def next_message_def
  notify_def sub_Continue_def sub_Interrupt_def dispose_close_def dispose_cancel_def

lemma mutexes_step: "sub_step a e e' \<Longrightarrow> mutexes e \<Longrightarrow> settles e \<Longrightarrow> mutexes e'"
  by (induction rule: sub_step.induct)
    (auto simp: mutexes_def settles_def sub_ops queue_cap_def split: list.splits)

lemma settles_step: "sub_step a e e' \<Longrightarrow> mutexes e \<Longrightarrow> settles e \<Longrightarrow> settles e'"
  by (induction rule: sub_step.induct)
    (auto simp: mutexes_def settles_def sub_ops split: list.splits)

lemma in_order_step: "sub_step a e e' \<Longrightarrow> in_order e \<Longrightarrow> mutexes e \<Longrightarrow> in_order e'"
  by (induction rule: sub_step.induct)
    (auto simp: mutexes_def in_order_def sub_ops prefix_def split: list.splits)

lemma sub_inv_new: "sub_inv (new_entry i label parent oneShot sender first)"
  by (simp add: sub_inv_def new_entry_def in_order_def settles_def mutexes_def)

lemma sub_inv_reach: "sub_reach e0 as e \<Longrightarrow> sub_inv e0 \<Longrightarrow> sub_inv e"
  by (induction rule: sub_reach.induct)
    (auto simp: sub_inv_def intro: mutexes_step settles_step in_order_step)

lemma reach_new: "sub_reach (new_entry i label parent oneShot sender first) as e \<Longrightarrow> sub_inv e"
  using sub_inv_reach sub_inv_new by blast

lemma sender_fixed: "sub_step a e e' \<Longrightarrow> se_sender e' = se_sender e \<and> se_oneShot e' = se_oneShot e"
  by (induction rule: sub_step.induct) (auto simp: sub_ops split: list.splits)

lemma reach_sender: "sub_reach e0 as e \<Longrightarrow> se_sender e = se_sender e0 \<and> se_oneShot e = se_oneShot e0"
  by (induction rule: sub_reach.induct) (auto dest: sender_fixed)

text \<open>
  C15. Under any interleaving of the loop with Continue, Interrupt and Dispose,
  the turns a session begins are the initial input and the accepted messages,
  in the order they were accepted, each once; until the session leaves its loop
  the ones not begun are exactly the input at hand and the queue.
\<close>

theorem subagent_turns_in_order:
  assumes "sub_reach (new_entry i label parent oneShot sender first) as e"
  shows "prefix (se_turns e) (se_accepted e) \<and>
    (if terminal (se_pc e) then True
     else se_accepted e = se_turns e @ pending (se_pc e) @ map (\<lambda>m. [m]) (se_queue e))"
  using reach_new [OF assms] by (auto simp: sub_inv_def in_order_def split: if_splits)

text \<open>
  C16. A session settles once: when its loop has ended, the parent was told
  exactly one final status (if it can be told), before that none or one, and from
  the moment the loop decides to leave every further message is refused.
\<close>

theorem subagent_settles_once:
  assumes "sub_reach (new_entry i label parent oneShot sender first) as e"
  shows "length (se_notices e) \<le> 1 \<and> (se_done e \<longleftrightarrow> se_pc e = Ended) \<and>
    (se_done e \<longrightarrow> length (se_notices e) = (if sender then 1 else 0)) \<and>
    (terminal (se_pc e) \<longrightarrow> (\<forall>msg. fst (sub_Continue msg e) \<in> {Some SubEmptyMessage, Some ErrSubagentNotContinuable}) \<and>
      se_blocked e = None)"
proof -
  have inv: "settles e" "mutexes e" using reach_new [OF assms] by (simp_all add: sub_inv_def)
  have "se_sender e = sender" using reach_sender [OF assms] by (simp add: new_entry_def)
  then show ?thesis
    using inv by (auto simp: settles_def mutexes_def sub_Continue_def split: if_splits)
qed

section \<open>Dispose ends the loop\<close>

fun loop_rank :: "loop_pc \<Rightarrow> nat" where
  "loop_rank (Ready _) = 8"
| "loop_rank InTurn = 7"
| "loop_rank (Returned _ _) = 6"
| "loop_rank TurnDone = 5"
| "loop_rank Waiting = 4"
| "loop_rank (AtTop _) = 3"
| "loop_rank (Leaving _ _) = 2"
| "loop_rank Closing = 1"
| "loop_rank Ended = 0"

fun is_loop :: "sub_action \<Rightarrow> bool" where
  "is_loop Loop = True"
| "is_loop (TurnResult _) = True"
| "is_loop _ = False"

lemma disposed_step:
  assumes "sub_step a e e'" and "se_disposed e" and "mutexes e"
  shows "se_disposed e' \<and> loop_rank (se_pc e') + (if is_loop a then 1 else 0) \<le> loop_rank (se_pc e)"
  using assms
  by (induction rule: sub_step.induct) (auto simp: mutexes_def sub_ops split: list.splits)

lemma loop_enabled:
  assumes "\<not> se_panic e" and "se_pc e \<noteq> Ended" and "se_disposed e" and "mutexes e"
  shows "\<exists>a e'. is_loop a \<and> sub_step a e e'"
proof (cases "se_pc e = InTurn")
  case True
  from sub_step.end_turn [OF assms(1) this] show ?thesis using is_loop.simps(2) by blast
next
  case False
  have "\<exists>e'. sub_step Loop e e'"
    using assms False by (cases "se_pc e") (simp_all add: sub_step_simps mutexes_def)
  then show ?thesis using is_loop.simps(1) by blast
qed

lemma disposed_run:
  assumes "sub_reach e as e'" and "se_disposed e" and "sub_inv e"
  shows "se_disposed e' \<and> sub_inv e' \<and> length (filter is_loop as) + loop_rank (se_pc e') \<le> loop_rank (se_pc e)"
  using assms
proof (induction rule: sub_reach.induct)
  case (step e as e1 a e2)
  then have ih: "se_disposed e1" "sub_inv e1" "length (filter is_loop as) + loop_rank (se_pc e1) \<le> loop_rank (se_pc e)"
    by auto
  have "sub_inv e2" using sub_inv_reach [OF sub_reach.step [OF step(1,2)] step(5)] .
  then show ?case using disposed_step [OF step(2) ih(1)] ih by (auto simp: sub_inv_def)
qed simp

text \<open>
  C17. Once a session is disposed its loop ends, given that a turn of the agent that is under way returns: after at most
  eight more steps of its own, whatever else is called meanwhile, and until then one of its steps
  can always be taken (unless a second Dispose has crashed the process).
\<close>

theorem subagent_dispose_ends:
  assumes "sub_reach (new_entry i label parent oneShot sender first) as e" and "se_disposed e"
    and "sub_reach e bs e'" and "\<not> se_panic e'"
  shows "length (filter is_loop bs) \<le> 8 \<and>
    (se_done e' \<or> (\<exists>a e''. is_loop a \<and> sub_step a e' e''))"
proof -
  have inv: "sub_inv e" by (rule reach_new [OF assms(1)])
  have run: "se_disposed e'" "sub_inv e'" "length (filter is_loop bs) + loop_rank (se_pc e') \<le> loop_rank (se_pc e)"
    using disposed_run [OF assms(3,2) inv] by blast+
  have "loop_rank pc \<le> 8" for pc by (cases pc) auto
  then have "length (filter is_loop bs) \<le> 8" using run(3) by (meson le_add1 le_trans)
  moreover have "se_done e' \<or> (\<exists>a e''. is_loop a \<and> sub_step a e' e'')"
  proof (cases "se_pc e' = Ended")
    case True
    then show ?thesis using run(2) by (simp add: sub_inv_def settles_def)
  next
    case False
    from loop_enabled [OF assms(4) False run(1)] show ?thesis using run(2) by (simp add: sub_inv_def)
  qed
  ultimately show ?thesis by blast
qed

section \<open>A full queue\<close>

text \<open>
  Continue sends to the queue of eight while it holds the mutex that the loop
  needs after its turn.
\<close>

definition stuck :: "string \<Rightarrow> string list list \<Rightarrow> sub_entry \<Rightarrow> bool" where
  "stuck msg turns e =
    (se_blocked e = Some msg \<and> length (se_queue e) = queue_cap \<and> \<not> se_done e \<and> se_turns e = turns \<and>
     (se_pc e = InTurn \<or> (\<exists>res i. se_pc e = Returned res i)))"

lemma stuck_step: "sub_step a e e' \<Longrightarrow> stuck msg turns e \<Longrightarrow> stuck msg turns e'"
  by (induction rule: sub_step.induct) (auto simp: stuck_def sub_ops)

lemma stuck_reach: "sub_reach e as e' \<Longrightarrow> stuck msg turns e \<Longrightarrow> stuck msg turns e'"
  by (induction rule: sub_reach.induct) (auto intro: stuck_step)

text \<open>
  A message sent to a session whose queue of eight is full while a turn is
  running blocks the session for ever: the call never returns, no further turn
  begins, the loop never ends and the session cannot be disposed.
\<close>

theorem subagent_full_queue_deadlock:
  assumes "sub_reach (new_entry i label parent oneShot sender first) as e"
    and "se_pc e = InTurn" "se_blocked e = None" "\<not> se_disposed e" "length (se_queue e) = queue_cap" "msg \<noteq> []"
    and "sub_reach (snd (sub_Continue msg e)) bs e'"
  shows "fst (sub_Continue msg e) = None \<and> se_blocked e' = Some msg \<and> \<not> se_done e' \<and> se_turns e' = se_turns e \<and>
    \<not> (\<exists>e''. sub_step Unblock e' e'') \<and> \<not> (\<exists>e''. sub_step CallDispose e' e'') \<and>
    \<not> (\<exists>e''. sub_step (CallContinue m) e' e'')"
proof -
  have inv: "settles e" using reach_new [OF assms(1)] by (simp add: sub_inv_def)
  then have alive: "se_status e \<noteq> StatusFailed" "\<not> se_done e" using assms(2) by (auto simp: settles_def)
  have blocks: "sub_Continue msg e = (None, e\<lparr>se_blocked := Some msg\<rparr>)"
    using assms(4-6) alive by (simp add: sub_Continue_def)
  then have "stuck msg (se_turns e) (snd (sub_Continue msg e))"
    using assms(2,5) alive by (simp add: stuck_def)
  from stuck_reach [OF assms(7) this] blocks show ?thesis
    by (auto simp: stuck_def sub_step_simps)
qed

section \<open>Concrete sessions\<close>

lemma reach_trans: "sub_reach e1 bs e2 \<Longrightarrow> sub_reach e0 as e1 \<Longrightarrow> sub_reach e0 (as @ bs) e2"
proof (induction rule: sub_reach.induct)
  case (step e bs e1 b e2)
  then show ?case using sub_reach.step [of e0 "as @ bs" e1 b e2] by simp
qed simp

lemma reach_one: "sub_step a e e' \<Longrightarrow> sub_reach e [a] e'"
  using sub_reach.step [OF sub_reach.refl, of a e e'] by simp

definition accept_all :: "string list \<Rightarrow> sub_entry \<Rightarrow> sub_entry" where
  "accept_all msgs e =
    e\<lparr>se_queue := se_queue e @ msgs, se_accepted := se_accepted e @ map (\<lambda>m. [m]) msgs\<rparr>"

lemma reach_accept_all:
  "\<not> se_panic e \<Longrightarrow> se_blocked e = None \<Longrightarrow> \<not> se_disposed e \<Longrightarrow> se_status e \<noteq> StatusFailed \<Longrightarrow>
   length (se_queue e) + length msgs \<le> queue_cap \<Longrightarrow> [] \<notin> set msgs \<Longrightarrow>
   sub_reach e (map CallContinue msgs) (accept_all msgs e)"
proof (induction msgs rule: rev_induct)
  case (snoc m ms)
  let ?e = "accept_all ms e"
  have "sub_step (CallContinue m) ?e (snd (sub_Continue m ?e))"
    using snoc.prems by (intro sub_step.continue) (simp_all add: accept_all_def)
  moreover have "m \<noteq> []" using snoc.prems(6) by auto
  then have "snd (sub_Continue m ?e) = accept_all (ms @ [m]) e"
    using snoc.prems by (simp add: sub_Continue_def accept_all_def)
  ultimately show ?case using sub_reach.step [OF snoc.IH] snoc.prems by simp
qed (simp add: accept_all_def sub_reach.refl)

definition first_turn :: "bool \<Rightarrow> sub_entry" where
  "first_turn oneShot = turn_begin [''go''] (loop_top [''go''] (new_entry ''sub-1'' ''w'' ''p'' oneShot True [''go'']))"

lemma reach_first_turn:
  "sub_reach (new_entry ''sub-1'' ''w'' ''p'' oneShot True [''go'']) [Loop, Loop] (first_turn oneShot)"
proof -
  let ?e = "new_entry ''sub-1'' ''w'' ''p'' oneShot True [''go'']"
  have "sub_step Loop ?e (loop_top [''go''] ?e)" by (rule sub_step.top) (simp_all add: new_entry_def)
  moreover have "sub_step Loop (loop_top [''go''] ?e) (first_turn oneShot)"
    unfolding first_turn_def by (rule sub_step.begin_turn) (simp_all add: new_entry_def loop_top_def)
  ultimately show ?thesis using reach_trans [OF reach_one reach_one] by fastforce
qed

lemmas sub_eval = first_turn_def new_entry_def accept_all_def sub_ops queue_cap_def

theorem subagent_turns_in_order_witness:
  "prefix (se_turns (accept_all [''a'', ''b''] (first_turn False))) (se_accepted (accept_all [''a'', ''b''] (first_turn False)))"
proof -
  have "sub_reach (first_turn False) (map CallContinue [''a'', ''b'']) (accept_all [''a'', ''b''] (first_turn False))"
    by (rule reach_accept_all) (simp_all add: sub_eval)
  from subagent_turns_in_order [OF reach_trans [OF this reach_first_turn]] show ?thesis by blast
qed

definition settled_session :: sub_entry where
  "settled_session =
    ((notify StatusFailed (Some (Errorf ''x'')) (turn_settle \<lparr>sr_err = Some (Errorf ''x''), sr_content = []\<rparr> False
       (turn_end \<lparr>sr_err = Some (Errorf ''x''), sr_content = []\<rparr> (first_turn False))))\<lparr>se_pc := Closing\<rparr>)\<lparr>se_done := True, se_pc := Ended\<rparr>"

lemma reach_settled:
  "sub_reach (new_entry ''sub-1'' ''w'' ''p'' False True [''go''])
    ([Loop, Loop] @ [TurnResult \<lparr>sr_err = Some (Errorf ''x''), sr_content = []\<rparr>, Loop, Loop, Loop]) settled_session"
proof -
  let ?res = "\<lparr>sr_err = Some (Errorf ''x''), sr_content = []\<rparr>"
  let ?e1 = "turn_end ?res (first_turn False)"
  let ?e2 = "turn_settle ?res False ?e1"
  let ?e3 = "(notify StatusFailed (Some (Errorf ''x'')) ?e2)\<lparr>se_pc := Closing\<rparr>"
  have 1: "sub_step (TurnResult ?res) (first_turn False) ?e1" by (rule sub_step.end_turn) (simp_all add: sub_eval)
  have 2: "sub_step Loop ?e1 ?e2" by (rule sub_step.settle) (simp_all add: sub_eval)
  have 3: "sub_step Loop ?e2 ?e3" by (rule sub_step.leave) (simp_all add: sub_eval)
  have 4: "sub_step Loop ?e3 settled_session"
    unfolding settled_session_def by (rule sub_step.close_done) (simp_all add: sub_eval)
  have "sub_reach (first_turn False) [TurnResult ?res, Loop, Loop, Loop] settled_session"
    using sub_reach.step [OF sub_reach.step [OF sub_reach.step [OF reach_one [OF 1] 2] 3] 4] by simp
  from reach_trans [OF this reach_first_turn] show ?thesis .
qed

theorem subagent_settles_once_witness:
  "se_notices settled_session = [(StatusFailed, Some (Errorf ''x''))] \<and> length (se_notices settled_session) \<le> 1"
  using subagent_settles_once [OF reach_settled] by (simp add: settled_session_def sub_eval)

theorem subagent_dispose_ends_witness:
  "\<exists>a e''. is_loop a \<and> sub_step a (dispose_close (first_turn False)) e''"
proof -
  let ?e = "dispose_close (first_turn False)"
  have "sub_step CallDispose (first_turn False) ?e" by (rule sub_step.dispose) (simp_all add: sub_eval)
  from reach_trans [OF reach_one [OF this] reach_first_turn]
  have "sub_reach (new_entry ''sub-1'' ''w'' ''p'' False True [''go'']) ([Loop, Loop] @ [CallDispose]) ?e" .
  moreover have "se_disposed ?e" "\<not> se_panic ?e" "\<not> se_done ?e" by (simp_all add: sub_eval)
  ultimately show ?thesis using subagent_dispose_ends [OF _ _ sub_reach.refl] by blast
qed

theorem subagent_full_queue_deadlock_witness:
  "fst (sub_Continue ''m'' (accept_all (replicate 8 ''m'') (first_turn False))) = None"
proof -
  let ?e = "accept_all (replicate 8 ''m'') (first_turn False)"
  have "sub_reach (first_turn False) (map CallContinue (replicate 8 ''m'')) ?e"
    by (rule reach_accept_all) (simp_all add: sub_eval)
  note r = reach_trans [OF this reach_first_turn]
  have "se_pc ?e = InTurn" "se_blocked ?e = None" "\<not> se_disposed ?e" "length (se_queue ?e) = queue_cap" "''m'' \<noteq> []"
    by (simp_all add: sub_eval)
  from subagent_full_queue_deadlock [OF r this sub_reach.refl] show ?thesis by blast
qed

text \<open>A second Dispose closes the closed queue.\<close>

lemma dispose_twice_panics:
  "sub_reach (new_entry ''sub-1'' ''w'' ''p'' False True [''go'']) ([Loop, Loop] @ [CallDispose] @ [CallDispose])
     (dispose_close (dispose_close (first_turn False))) \<and>
   se_panic (dispose_close (dispose_close (first_turn False)))"
proof -
  let ?e = "dispose_close (first_turn False)"
  have "sub_step CallDispose (first_turn False) ?e" by (rule sub_step.dispose) (simp_all add: sub_eval)
  moreover have "sub_step CallDispose ?e (dispose_close ?e)" by (rule sub_step.dispose) (simp_all add: sub_eval)
  ultimately show ?thesis
    using reach_trans [OF reach_trans [OF reach_one reach_one] reach_first_turn]
    by (simp add: sub_eval)
qed

text \<open>
  An Interrupt between two turns stays set: the failure of the next turn is
  taken for the interruption and the session goes on as if nothing failed.
\<close>

lemma stale_interrupt_hides_failure:
  assumes "se_pc e = InTurn" and "se_interrupt e" and "sr_err res = Some err"
  shows "se_status (turn_settle res True (turn_end res e)) = StatusIdle \<and>
    se_pc (turn_end res e) = Returned res True"
  using assms by (simp add: turn_end_def turn_settle_def)

lemma interrupt_survives_turn_begin:
  "se_interrupt (turn_begin inp (loop_top inp (sub_Interrupt e)))"
  by (simp add: turn_begin_def loop_top_def sub_Interrupt_def)

section \<open>The registry's ids\<close>

definition ids_ok :: "sub_registry \<Rightarrow> bool" where
  "ids_ok r =
    (distinct (map fst (su_items r)) \<and>
     (\<forall>p \<in> set (su_items r). se_id (snd p) = fst p \<and> (\<exists>k \<le> su_seq r. fst p = ''sub-'' @ decimal k)))"

lemma ids_ok_new: "ids_ok NewSubRegistry"
  by (simp add: ids_ok_def NewSubRegistry_def)

lemma ids_ok_spawn:
  assumes "ids_ok r"
  shows "ids_ok (snd (spawn has_agent has_rt sender parent label messages oneShot r))"
proof -
  let ?i = "''sub-'' @ decimal (Suc (su_seq r))"
  have "?i \<notin> fst ` set (su_items r)"
  proof
    assume "?i \<in> fst ` set (su_items r)"
    then obtain k where "k \<le> su_seq r" "?i = ''sub-'' @ decimal k" using assms by (auto simp: ids_ok_def)
    then show False using decimal_inj [of "Suc (su_seq r)" k] by simp
  qed
  moreover have "\<exists>k \<le> Suc (su_seq r). i = ''sub-'' @ decimal k" if "\<exists>k \<le> su_seq r. i = ''sub-'' @ decimal k" for i
    using that le_Suc_eq by blast
  ultimately show ?thesis
    using assms by (auto simp: ids_ok_def spawn_def nextID_def Let_def new_entry_def)
qed

lemma ids_ok_remove: "ids_ok r \<Longrightarrow> ids_ok (sub_remove i r)"
  by (auto simp: ids_ok_def sub_remove_def distinct_map_filter)

text \<open>A removed session is not found again: an id is never given twice.\<close>

lemma removed_is_gone: "sub_lookup (sub_remove i r) i = None"
  by (auto simp: sub_lookup_def sub_remove_def map_of_eq_None_iff)

lemma List_shows_live:
  "s \<in> set (sub_List r) \<Longrightarrow> snd (snd s) \<in> {StatusRunning, StatusIdle}"
  by (cases "snd (snd s)") (auto simp: sub_List_def)

end
