(* ===== verification/MemoryTiers.thy ===== *)
theory MemoryTiers
  imports Messages GoStrings "HOL-Library.Sublist"
begin

text \<open>
  The tiers of the memory module: the hierarchical summary store
  (module/memory/memory_store.go), the budget that divides the prompt among the
  tiers (budget.go), the decay of archived sessions (decay.go) and the archive
  (archive_memory.go).

  Ratios of the budget are exact rationals.  Importance is a real number, since
  its decay is a power of one half.  A time is its nanoseconds, 0 the zero time.
  encoding/json is a pair of functions of the archive's operations.
\<close>

section \<open>The summary store\<close>

datatype summary_node =
  SummaryNode (sn_summary: string) (sn_level: int) (sn_children: "summary_node list") (sn_start: int) (sn_end: int)

record memory_store =
  mt_roots :: "summary_node list"
  mt_groupSize :: nat

definition mt_New :: "int \<Rightarrow> memory_store" where
  "mt_New groupSize = \<lparr>mt_roots = [], mt_groupSize = (if groupSize \<le> 1 then 5 else nat groupSize)\<rparr>"

definition leaf :: "string \<Rightarrow> int \<Rightarrow> summary_node" where
  "leaf summary index = SummaryNode summary 0 [] index (index + 1)"

text \<open>The roots without the first \<open>k\<close> nodes of level 0, which the code finds by their pointers.\<close>

fun drop_leaves :: "nat \<Rightarrow> summary_node list \<Rightarrow> summary_node list" where
  "drop_leaves k [] = []"
| "drop_leaves 0 (n # ns) = n # ns"
| "drop_leaves (Suc k) (n # ns) = (if sn_level n = 0 then drop_leaves k ns else n # drop_leaves (Suc k) ns)"

definition group_nodes :: "summary_node list \<Rightarrow> summary_node" where
  "group_nodes chunk =
    SummaryNode (join_strings ''; '' (map sn_summary chunk)) 1 chunk (sn_start (hd chunk)) (sn_end (last chunk))"

definition rebuildLocked :: "memory_store \<Rightarrow> memory_store" where
  "rebuildLocked ms =
    (let ungrouped = filter (\<lambda>r. sn_level r = 0) (mt_roots ms)
     in if length ungrouped < mt_groupSize ms then ms
        else ms\<lparr>mt_roots := drop_leaves (mt_groupSize ms) (mt_roots ms) @ [group_nodes (take (mt_groupSize ms) ungrouped)]\<rparr>)"

definition mt_Insert :: "string \<Rightarrow> int \<Rightarrow> memory_store \<Rightarrow> memory_store" where
  "mt_Insert summary index ms = rebuildLocked (ms\<lparr>mt_roots := mt_roots ms @ [leaf summary index]\<rparr>)"

definition InsertBatch :: "string list \<Rightarrow> int \<Rightarrow> memory_store \<Rightarrow> memory_store" where
  "InsertBatch summaries startIndex ms =
    rebuildLocked (ms\<lparr>mt_roots := mt_roots ms @
      map (\<lambda>i. leaf (summaries ! i) (startIndex + int i)) [0..<length summaries]\<rparr>)"

definition mt_Clear :: "memory_store \<Rightarrow> memory_store" where
  "mt_Clear ms = ms\<lparr>mt_roots := []\<rparr>"

fun collectLeaves :: "summary_node \<Rightarrow> summary_node list" where
  "collectLeaves (SummaryNode s l cs a b) =
     (if cs = [] then [SummaryNode s l cs a b] else concat (map collectLeaves cs))"

fun countLeaves :: "summary_node \<Rightarrow> nat" where
  "countLeaves (SummaryNode s l cs a b) = (if cs = [] then 1 else sum_list (map countLeaves cs))"

definition mt_Len :: "memory_store \<Rightarrow> nat" where
  "mt_Len ms = sum_list (map countLeaves (mt_roots ms))"

definition collectLeavesLocked :: "memory_store \<Rightarrow> summary_node list" where
  "collectLeavesLocked ms = concat (map collectLeaves (mt_roots ms))"

fun nodeLevel :: "summary_node \<Rightarrow> int" where
  "nodeLevel (SummaryNode s l cs a b) = foldl max l (map nodeLevel cs)"

definition maxLevelInternal :: "summary_node list \<Rightarrow> int" where
  "maxLevelInternal ns = foldl max 0 (map nodeLevel ns)"

fun write_node :: "int \<Rightarrow> nat \<Rightarrow> summary_node \<Rightarrow> string" where
  "write_node maxLevel indent (SummaryNode s l cs a b) =
     (if l \<le> maxLevel \<or> cs = [] then
        if s = [] then [] else concat (replicate indent ''  '') @ ''- '' @ s @ [CHR 0x0A]
      else concat (map (write_node maxLevel (Suc indent)) cs))"

definition mt_BuildContext :: "int \<Rightarrow> memory_store \<Rightarrow> string" where
  "mt_BuildContext maxLevel ms =
    (if mt_roots ms = [] then []
     else let ml = (if maxLevel < 0 then maxLevelInternal (mt_roots ms) else maxLevel)
          in ''[Conversation History]'' @ [CHR 0x0A] @ concat (map (write_node ml 0) (mt_roots ms)))"

section \<open>The budget\<close>

record budget_config =
  WorkingRatio :: rat
  SummaryRatio :: rat
  ArchiveRatio :: rat
  MinReserve :: int

definition DefaultBudgetConfig :: budget_config where
  "DefaultBudgetConfig = \<lparr>WorkingRatio = 40 / 100, SummaryRatio = 35 / 100, ArchiveRatio = 25 / 100, MinReserve = 200\<rparr>"

definition NewTokenBudget :: "budget_config \<Rightarrow> budget_config" where
  "NewTokenBudget cfg =
    (let cfg1 = (if WorkingRatio cfg + SummaryRatio cfg + ArchiveRatio cfg \<le> 0 then DefaultBudgetConfig else cfg)
     in if MinReserve cfg1 \<le> 0 then cfg1\<lparr>MinReserve := 200\<rparr> else cfg1)"

definition raw_share :: "int \<Rightarrow> rat \<Rightarrow> rat \<Rightarrow> int" where
  "raw_share totalBudget ratio ratios = int_of_float (of_int totalBudget * ratio / ratios)"

definition scale_down :: "rat \<Rightarrow> int \<Rightarrow> int" where
  "scale_down ratio b = int_of_float (of_int b * ratio)"

text \<open>Cap every tier to its need; what the archive leaves goes to the summaries, what they leave to working memory.\<close>

definition redistribute :: "int \<Rightarrow> int \<Rightarrow> int \<Rightarrow> int \<Rightarrow> int \<Rightarrow> int \<Rightarrow> int \<times> int \<times> int" where
  "redistribute rawWorking rawSummary rawArchive actualWorking actualSummary actualArchive =
    (let w = min rawWorking actualWorking;
         s = min rawSummary actualSummary;
         a = min rawArchive actualArchive;
         archiveUnused = rawArchive - a;
         s1 = (if archiveUnused > 0 then min (s + archiveUnused) actualSummary else s);
         summaryRemaining = rawSummary + archiveUnused - s1;
         w1 = (if summaryRemaining > 0 then min (w + summaryRemaining) actualWorking else w)
     in (w1, s1, a))"

definition Allocate :: "budget_config \<Rightarrow> int \<Rightarrow> int \<Rightarrow> int \<Rightarrow> int \<Rightarrow> int \<times> int \<times> int" where
  "Allocate cfg totalBudget actualWorking actualSummary actualArchive =
    (if totalBudget \<le> 0 then (0, 0, 0)
     else if MinReserve cfg * 3 > totalBudget then
       let each = totalBudget div 3 in (min each actualWorking, min each actualSummary, min each actualArchive)
     else
       let ratios = WorkingRatio cfg + SummaryRatio cfg + ArchiveRatio cfg
       in case redistribute (raw_share totalBudget (WorkingRatio cfg) ratios) (raw_share totalBudget (SummaryRatio cfg) ratios)
                 (raw_share totalBudget (ArchiveRatio cfg) ratios) actualWorking actualSummary actualArchive of
            (w, s, a) \<Rightarrow>
              let totalUsed = w + s + a
              in if totalUsed > totalBudget then
                   let ratio = of_int totalBudget / of_int totalUsed
                   in (scale_down ratio w, scale_down ratio s, scale_down ratio a)
                 else (w, s, a))"

section \<open>Decay\<close>

record archived_session =
  as_id :: string
  as_summary :: string
  as_createdAt :: int
  as_interactionCount :: int
  as_keyTopics :: "string list"
  as_importance :: real
  as_accessCount :: int
  as_lastAccessedAt :: int

record decay_config =
  dc_enabled :: bool
  HalfLifeHours :: real
  AccessBoost :: real
  MinImportance :: real
  CheckInterval :: int
  MaxForgetPerSweep :: int

definition NewMemoryDecay :: "decay_config \<Rightarrow> decay_config" where
  "NewMemoryDecay cfg =
    cfg\<lparr>HalfLifeHours := (if HalfLifeHours cfg \<le> 0 then 24 else HalfLifeHours cfg),
       AccessBoost := (if AccessBoost cfg \<le> 0 then 3 / 10 else AccessBoost cfg),
       MinImportance := (if MinImportance cfg \<le> 0 then 2 / 10 else MinImportance cfg),
       CheckInterval := (if CheckInterval cfg \<le> 0 then 5 else CheckInterval cfg),
       MaxForgetPerSweep := (if MaxForgetPerSweep cfg \<le> 0 then 3 else MaxForgetPerSweep cfg)\<rparr>"

text \<open>A decay engine is its configuration; \<open>SetConfig\<close> replaces it without the defaults.\<close>

definition decay_SetConfig :: "decay_config \<Rightarrow> decay_config \<Rightarrow> decay_config" where
  "decay_SetConfig cfg d = cfg"

definition decayFactor :: "real \<Rightarrow> real \<Rightarrow> real" where
  "decayFactor elapsedHours halfLifeHours =
    (if halfLifeHours \<le> 0 then 1 else (1 / 2) powr (elapsedHours / halfLifeHours))"

definition hours :: "int \<Rightarrow> real" where
  "hours d = of_int d / 3600000000000"

text \<open>The importance of one session after a sweep, before the clamp and with it.\<close>

definition decayed :: "decay_config \<Rightarrow> int \<Rightarrow> archived_session \<Rightarrow> real" where
  "decayed cfg now s =
    (let lastAccess = (if as_lastAccessedAt s = 0 then as_createdAt s else as_lastAccessedAt s);
         imp = as_importance s * decayFactor (hours (now - lastAccess)) (HalfLifeHours cfg)
     in if as_accessCount s > 0 then imp + of_int (as_accessCount s) * AccessBoost cfg else imp)"

definition clamp_importance :: "real \<Rightarrow> real" where
  "clamp_importance x = (if x < 0 then 0 else if x > 2 then 2 else x)"

fun sweep_loop :: "decay_config \<Rightarrow> int \<Rightarrow> int \<Rightarrow> archived_session list \<Rightarrow> archived_session list" where
  "sweep_loop cfg now forgetCount [] = []"
| "sweep_loop cfg now forgetCount (s # rest) =
     (let imp = clamp_importance (decayed cfg now s)
      in if imp < MinImportance cfg \<and> (MaxForgetPerSweep cfg \<le> 0 \<or> forgetCount < MaxForgetPerSweep cfg)
         then sweep_loop cfg now (forgetCount + 1) rest
         else s\<lparr>as_importance := imp, as_accessCount := 0\<rparr> # sweep_loop cfg now forgetCount rest)"

definition Sweep :: "decay_config \<Rightarrow> int \<Rightarrow> archived_session list \<Rightarrow> archived_session list" where
  "Sweep cfg now sessions =
    (if \<not> dc_enabled cfg \<or> sessions = [] then sessions else sweep_loop cfg now 0 sessions)"

definition ShouldSweep :: "decay_config \<Rightarrow> int \<Rightarrow> bool" where
  "ShouldSweep cfg interactionCount =
    (dc_enabled cfg \<and> 0 < CheckInterval cfg \<and> 0 < interactionCount \<and> interactionCount mod CheckInterval cfg = 0)"

section \<open>The archive\<close>

record archive =
  ar_sessions :: "archived_session list"
  ar_filePath :: string
  ar_maxSessions :: nat
  ar_ready :: bool

definition NewArchiveMemory :: "string \<Rightarrow> int \<Rightarrow> archive" where
  "NewArchiveMemory filePath maxSessions =
    \<lparr>ar_sessions = [], ar_filePath = filePath, ar_maxSessions = (if maxSessions \<le> 0 then 5 else nat maxSessions), ar_ready = False\<rparr>"

datatype read_outcome = NoSuchFile | ReadFailed string | ReadOk string

definition archive_Load ::
  "(string \<Rightarrow> archived_session list option) \<Rightarrow> read_outcome \<Rightarrow> archive \<Rightarrow> string option \<times> archive" where
  "archive_Load decode contents a =
    (if ar_filePath a = [] then (None, a\<lparr>ar_ready := True\<rparr>)
     else case contents of
            NoSuchFile \<Rightarrow> (None, a\<lparr>ar_sessions := [], ar_ready := True\<rparr>)
          | ReadFailed e \<Rightarrow> (Some (''archive load: '' @ e), a)
          | ReadOk data \<Rightarrow>
              (case decode data of
                 None \<Rightarrow> (Some ''archive decode'', a)
               | Some ss \<Rightarrow> (None, a\<lparr>ar_sessions := ss, ar_ready := True\<rparr>)))"

text \<open>The bytes Save writes, when it writes.\<close>

definition archive_Save :: "(archived_session list \<Rightarrow> string) \<Rightarrow> archive \<Rightarrow> string option" where
  "archive_Save encode a =
    (if ar_filePath a = [] \<or> ar_sessions a = [] then None else Some (encode (ar_sessions a)))"

definition AddSession :: "string \<Rightarrow> int \<Rightarrow> string \<Rightarrow> int \<Rightarrow> string list \<Rightarrow> archive \<Rightarrow> archive" where
  "AddSession sid now summary count topics a =
    (if summary = [] then a
     else let ss = ar_sessions a @ [\<lparr>as_id = sid, as_summary = summary, as_createdAt = now, as_interactionCount = count,
                as_keyTopics = topics, as_importance = 1, as_accessCount = 0, as_lastAccessedAt = now\<rparr>]
          in a\<lparr>ar_sessions := (if length ss > ar_maxSessions a then drop (length ss - ar_maxSessions a) ss else ss)\<rparr>)"

definition touch_session :: "int \<Rightarrow> archived_session \<Rightarrow> archived_session" where
  "touch_session now s = s\<lparr>as_accessCount := as_accessCount s + 1, as_lastAccessedAt := now\<rparr>"

definition GetRecentSessions :: "int \<Rightarrow> int \<Rightarrow> archive \<Rightarrow> archived_session list \<times> archive" where
  "GetRecentSessions now n a =
    (if n \<le> 0 then ([], a)
     else let k = min (nat n) (length (ar_sessions a));
              old = take (length (ar_sessions a) - k) (ar_sessions a);
              recent = map (touch_session now) (drop (length (ar_sessions a) - k) (ar_sessions a))
          in (recent, a\<lparr>ar_sessions := old @ recent\<rparr>))"

definition session_line :: "nat \<Rightarrow> archived_session \<Rightarrow> string" where
  "session_line i s =
    ''  [Session '' @ decimal (Suc i) @ ''] '' @ as_summary s @ '' (turns: '' @ decimal (nat (as_interactionCount s)) @ '')'' @ [CHR 0x0A]"

fun archive_lines :: "int \<Rightarrow> nat \<Rightarrow> archived_session list \<Rightarrow> string \<Rightarrow> string" where
  "archive_lines maxChars i [] sb = sb"
| "archive_lines maxChars i (s # rest) sb =
     (if as_summary s = [] then archive_lines maxChars (Suc i) rest sb
      else if int (length sb + length (session_line i s)) > maxChars then sb
      else archive_lines maxChars (Suc i) rest (sb @ session_line i s))"

definition archive_BuildContext :: "int \<Rightarrow> int \<Rightarrow> int \<Rightarrow> archive \<Rightarrow> string \<times> archive" where
  "archive_BuildContext now maxSessions maxChars a =
    (if maxChars \<le> 0 then ([], a)
     else case GetRecentSessions now maxSessions a of (ss, a') \<Rightarrow>
       (if ss = [] then [] else archive_lines maxChars 0 ss (''[Cross-session memory]'' @ [CHR 0x0A]), a'))"

definition archive_Clear :: "archive \<Rightarrow> archive" where
  "archive_Clear a = a\<lparr>ar_sessions := []\<rparr>"

definition archive_Decay :: "decay_config option \<Rightarrow> int \<Rightarrow> archive \<Rightarrow> int \<times> archive" where
  "archive_Decay d now a =
    (case d of
       None \<Rightarrow> (0, a)
     | Some cfg \<Rightarrow>
        if \<not> ar_ready a then (0, a)
        else let ss = Sweep cfg now (ar_sessions a)
             in (int (length (ar_sessions a)) - int (length ss), a\<lparr>ar_sessions := ss\<rparr>))"

section \<open>Key topics\<close>

fun pick_topics :: "nat \<Rightarrow> string list \<Rightarrow> string list \<Rightarrow> string list" where
  "pick_topics maxTopics topics [] = topics"
| "pick_topics maxTopics topics (p # ps) =
     (let t = TrimSpace p
      in if t = [] \<or> t \<in> set topics then pick_topics maxTopics topics ps
         else if 3 \<le> rune_count t \<and> rune_count t \<le> 60 then
           if length topics + 1 \<ge> maxTopics then topics @ [t] else pick_topics maxTopics (topics @ [t]) ps
         else pick_topics maxTopics topics ps)"

definition extractKeyTopics :: "string \<Rightarrow> int \<Rightarrow> string list" where
  "extractKeyTopics summary maxTopics =
    (if summary = [] \<or> maxTopics \<le> 0 then []
     else pick_topics (nat maxTopics) [] (split_on (\<lambda>c. c = CHR '','' \<or> c = CHR '';'') summary))"

section \<open>The store keeps the order\<close>

definition is_leaf :: "summary_node \<Rightarrow> bool" where
  "is_leaf n = (sn_level n = 0 \<and> sn_children n = [])"

definition is_group :: "nat \<Rightarrow> summary_node \<Rightarrow> bool" where
  "is_group g n =
    (sn_level n = 1 \<and> length (sn_children n) = g \<and> list_all is_leaf (sn_children n) \<and>
     sn_summary n = join_strings ''; '' (map sn_summary (sn_children n)))"

definition store_shape :: "memory_store \<Rightarrow> bool" where
  "store_shape ms =
    (1 < mt_groupSize ms \<and>
     (\<exists>ps ls. mt_roots ms = ps @ ls \<and> list_all (is_group (mt_groupSize ms)) ps \<and> list_all is_leaf ls \<and>
        length ls < mt_groupSize ms))"

lemma collect_leaf: "is_leaf n \<Longrightarrow> collectLeaves n = [n]"
  by (cases n) (simp add: is_leaf_def)

lemma collect_leaves: "list_all is_leaf ls \<Longrightarrow> concat (map collectLeaves ls) = ls"
  by (induction ls) (simp_all add: collect_leaf)

lemma collect_group: "chunk \<noteq> [] \<Longrightarrow> list_all is_leaf chunk \<Longrightarrow> collectLeaves (group_nodes chunk) = chunk"
  by (simp add: group_nodes_def collect_leaves)

lemma count_collect: "countLeaves n = length (collectLeaves n)"
proof (induction n)
  case (SummaryNode s l cs a b)
  then have "map countLeaves cs = map (\<lambda>c. length (collectLeaves c)) cs" by simp
  then show ?case by (simp add: length_concat comp_def del: map_eq_conv)
qed

lemma drop_leaves_groups:
  "list_all (is_group g) ps \<Longrightarrow> list_all is_leaf ls \<Longrightarrow> drop_leaves (length ls) (ps @ ls) = ps"
proof (induction ps)
  case Nil
  then show ?case
    by (induction ls) (simp_all add: is_leaf_def)
next
  case (Cons p ps)
  then show ?case by (cases "length ls") (auto simp: is_group_def)
qed

lemma filter_groups: "list_all (is_group g) ps \<Longrightarrow> filter (\<lambda>r. sn_level r = 0) ps = []"
  by (induction ps) (simp_all add: is_group_def)

lemma filter_leaves: "list_all is_leaf ls \<Longrightarrow> filter (\<lambda>r. sn_level r = 0) ls = ls"
  by (induction ls) (simp_all add: is_leaf_def)

lemma insert_shape:
  assumes "store_shape ms"
  shows "store_shape (mt_Insert s i ms) \<and>
    collectLeavesLocked (mt_Insert s i ms) = collectLeavesLocked ms @ [leaf s i] \<and>
    mt_groupSize (mt_Insert s i ms) = mt_groupSize ms"
proof -
  let ?g = "mt_groupSize ms"
  obtain ps ls where roots: "mt_roots ms = ps @ ls" and ps: "list_all (is_group ?g) ps"
    and ls: "list_all is_leaf ls" "length ls < ?g" and g: "1 < ?g"
    using assms by (auto simp: store_shape_def)
  let ?ls = "ls @ [leaf s i]"
  have leaf: "is_leaf (leaf s i)" by (simp add: is_leaf_def leaf_def)
  then have all: "list_all is_leaf ?ls" using ls by simp
  have new: "collectLeavesLocked (ms\<lparr>mt_roots := ps @ ?ls\<rparr>) = collectLeavesLocked ms @ [leaf s i]"
    using leaf by (simp add: collectLeavesLocked_def roots collect_leaf)
  have ungrouped: "filter (\<lambda>r. sn_level r = 0) (ps @ ?ls) = ?ls"
    using filter_groups [OF ps] filter_leaves [OF all] by (simp del: filter.simps)
  show ?thesis
  proof (cases "length ?ls < ?g")
    case True
    then have "mt_Insert s i ms = ms\<lparr>mt_roots := ps @ ?ls\<rparr>"
      using ungrouped by (simp add: mt_Insert_def rebuildLocked_def roots Let_def del: filter_append)
    moreover have "store_shape (ms\<lparr>mt_roots := ps @ ?ls\<rparr>)"
      unfolding store_shape_def using ps all True g
      by (intro conjI exI [of _ ps] exI [of _ ?ls]) (simp_all del: length_append)
    ultimately show ?thesis using new by simp
  next
    case False
    then have full: "length ?ls = ?g" using ls(2) by simp
    then have "drop_leaves ?g (ps @ ?ls) = ps" using drop_leaves_groups [OF ps all] by simp
    then have ins: "mt_Insert s i ms = ms\<lparr>mt_roots := ps @ [group_nodes ?ls]\<rparr>"
      using ungrouped full by (simp add: mt_Insert_def rebuildLocked_def roots Let_def del: filter_append)
    have "is_group ?g (group_nodes ?ls)" using full all by (simp add: is_group_def group_nodes_def)
    then have "store_shape (ms\<lparr>mt_roots := ps @ [group_nodes ?ls]\<rparr>)"
      unfolding store_shape_def using ps g
      by (intro conjI exI [of _ "ps @ [group_nodes ?ls]"] exI [of _ "[]"]) simp_all
    moreover have "collectLeaves (group_nodes ?ls) = ?ls" using all by (intro collect_group) simp_all
    ultimately show ?thesis
      using ins by (simp add: collectLeavesLocked_def roots collect_leaves ls(1))
  qed
qed

definition inserted :: "int \<Rightarrow> (string \<times> int) list \<Rightarrow> memory_store" where
  "inserted groupSize xs = fold (\<lambda>p. mt_Insert (fst p) (snd p)) xs (mt_New groupSize)"

lemma inserted_snoc: "inserted g (xs @ [p]) = mt_Insert (fst p) (snd p) (inserted g xs)"
  by (simp add: inserted_def)

lemma inserted_shape:
  "store_shape (inserted g xs) \<and> collectLeavesLocked (inserted g xs) = map (\<lambda>p. leaf (fst p) (snd p)) xs"
proof (induction xs rule: rev_induct)
  case Nil
  have "store_shape (mt_New g)" by (auto simp: store_shape_def mt_New_def)
  then show ?case by (simp add: inserted_def collectLeavesLocked_def mt_New_def)
next
  case (snoc p xs)
  then show ?case using insert_shape [of "inserted g xs" "fst p" "snd p"] by (simp add: inserted_snoc)
qed

text \<open>
  Inserted one by one, the summaries stay in their order and none is lost,
  whatever the grouping: the leaves of the store are the insertions, Len counts
  them, every root is a leaf or a group of exactly the group size that carries
  its children's summaries joined, the groups come first, and fewer leaves than
  the group size are left ungrouped.
\<close>

theorem memory_store_order:
  "collectLeavesLocked (inserted g xs) = map (\<lambda>p. leaf (fst p) (snd p)) xs \<and>
   mt_Len (inserted g xs) = length xs \<and>
   (\<exists>ps ls. mt_roots (inserted g xs) = ps @ ls \<and> list_all (is_group (mt_groupSize (inserted g xs))) ps \<and>
      list_all is_leaf ls \<and> length ls < mt_groupSize (inserted g xs))"
proof -
  have "map countLeaves ns = map (\<lambda>n. length (collectLeaves n)) ns" for ns
    by (simp add: count_collect)
  then have "mt_Len (inserted g xs) = length (collectLeavesLocked (inserted g xs))"
    by (simp add: mt_Len_def collectLeavesLocked_def length_concat comp_def del: map_eq_conv)
  then show ?thesis using inserted_shape [of g xs] by (auto simp: store_shape_def)
qed

text \<open>A batch larger than one group puts the group behind the leaves that follow it.\<close>

lemma batch_breaks_order:
  "map sn_summary (collectLeavesLocked (InsertBatch [''a'', ''b'', ''c''] 0 (mt_New 2))) = [''c'', ''a'', ''b'']"
  by (simp add: InsertBatch_def mt_New_def rebuildLocked_def collectLeavesLocked_def leaf_def group_nodes_def
      Let_def eval_nat_numeral)

section \<open>The budget is never exceeded\<close>

lemma int_of_float_bounds: "0 \<le> v \<Longrightarrow> 0 \<le> int_of_float v \<and> of_int (int_of_float v) \<le> v"
  by (simp add: int_of_float_def)

lemma raw_share_bounds:
  assumes "0 \<le> t" and "0 \<le> r" and "0 < ratios"
  shows "0 \<le> raw_share t r ratios \<and> of_int (raw_share t r ratios) \<le> of_int t * r / ratios"
  unfolding raw_share_def using assms by (intro int_of_float_bounds) simp

lemma raw_shares_sum:
  assumes "0 \<le> t" and "0 \<le> a" "0 \<le> b" "0 \<le> c" and "0 < a + b + c"
  shows "raw_share t a (a + b + c) + raw_share t b (a + b + c) + raw_share t c (a + b + c) \<le> t"
proof -
  let ?s = "a + b + c"
  have "of_int (raw_share t a ?s + raw_share t b ?s + raw_share t c ?s)
      \<le> of_int t * a / ?s + of_int t * b / ?s + (of_int t * c / ?s :: rat)"
    using raw_share_bounds [OF assms(1,2,5)] raw_share_bounds [OF assms(1,3,5)] raw_share_bounds [OF assms(1,4,5)]
    by simp
  also have "\<dots> = of_int t * ?s / ?s" by (simp add: add_divide_distrib ring_distribs)
  also have "\<dots> = of_int t" using assms(5) by simp
  finally show ?thesis by (simp only: of_int_le_iff)
qed

lemma redistribute_bounds:
  assumes nonneg: "0 \<le> rw" "0 \<le> rs" "0 \<le> ra" "0 \<le> aw" "0 \<le> as" "0 \<le> aa"
    and "redistribute rw rs ra aw as aa = (w, s, a)"
  shows "0 \<le> w \<and> w \<le> aw \<and> 0 \<le> s \<and> s \<le> as \<and> 0 \<le> a \<and> a \<le> aa \<and> w + s + a \<le> rw + rs + ra"
proof -
  note parts = assms(7) [unfolded redistribute_def Let_def prod.inject]
  have a: "a = min ra aa" by (rule parts [THEN conjunct2, THEN conjunct2, symmetric])
  have s: "s = (if ra - a > 0 then min (min rs as + (ra - a)) as else min rs as)"
    unfolding a by (rule parts [THEN conjunct2, THEN conjunct1, symmetric])
  have w: "w = (if rs + (ra - a) - s > 0 then min (min rw aw + (rs + (ra - a) - s)) aw else min rw aw)"
    unfolding s a by (rule parts [THEN conjunct1, symmetric])
  have ma: "0 \<le> a" "a \<le> ra" "a \<le> aa" using nonneg a by simp_all
  have ms: "0 \<le> min rs as" "min rs as \<le> rs" "min rs as \<le> as" using nonneg by simp_all
  have mw: "0 \<le> min rw aw" "min rw aw \<le> rw" "min rw aw \<le> aw" using nonneg by simp_all
  have s_le: "s \<le> min rs as + (ra - a)" using s ma by (simp split: if_splits)
  have s_bounds: "0 \<le> s" "s \<le> as" using s ma ms nonneg by (simp_all split: if_splits)
  have w_le: "w \<le> min rw aw + (rs + (ra - a) - s)" using w s_le ms by (simp split: if_splits)
  have "0 \<le> w" "w \<le> aw" using w mw nonneg by (simp_all split: if_splits)
  moreover have "w + s + a \<le> rw + rs + ra" using w_le mw(2) by linarith
  ultimately show ?thesis using ma s_bounds by simp
qed

text \<open>
  With ratios that are not negative and actual sizes that are not negative,
  no tier gets more than it needs and the three together never get more than the
  total budget; a total that is not positive gives nothing.
\<close>

theorem budget_fits:
  assumes "0 \<le> WorkingRatio cfg" "0 \<le> SummaryRatio cfg" "0 \<le> ArchiveRatio cfg"
    and "0 < WorkingRatio cfg + SummaryRatio cfg + ArchiveRatio cfg"
    and "0 \<le> aw" "0 \<le> as" "0 \<le> aa"
    and "Allocate cfg t aw as aa = (w, s, a)"
  shows "0 \<le> w \<and> w \<le> aw \<and> 0 \<le> s \<and> s \<le> as \<and> 0 \<le> a \<and> a \<le> aa \<and> w + s + a \<le> max 0 t"
proof (cases "t \<le> 0 \<or> MinReserve cfg * 3 > t")
  case True
  show ?thesis
  proof (cases "t \<le> 0")
    case True
    then have "w = 0" "s = 0" "a = 0" using assms(8) by (simp_all add: Allocate_def)
    then show ?thesis using assms(5-7) by simp
  next
    case False
    then have parts: "w = min (t div 3) aw" "s = min (t div 3) as" "a = min (t div 3) aa"
      using True assms(8) by (simp_all add: Allocate_def Let_def)
    have third: "0 \<le> t div 3" "t div 3 + t div 3 + t div 3 \<le> t" using False by linarith+
    have "w \<le> t div 3" "s \<le> t div 3" "a \<le> t div 3" unfolding parts by simp_all
    moreover have "0 \<le> w" "0 \<le> s" "0 \<le> a" "w \<le> aw" "s \<le> as" "a \<le> aa"
      unfolding parts using third(1) assms(5-7) by simp_all
    ultimately show ?thesis using third(2) by linarith
  qed
next
  case False
  let ?r = "WorkingRatio cfg + SummaryRatio cfg + ArchiveRatio cfg"
  let ?w = "raw_share t (WorkingRatio cfg) ?r" and ?s = "raw_share t (SummaryRatio cfg) ?r"
    and ?a = "raw_share t (ArchiveRatio cfg) ?r"
  have t: "0 \<le> t" using False by simp
  obtain w1 s1 a1 where r: "redistribute ?w ?s ?a aw as aa = (w1, s1, a1)" by (metis prod_cases3)
  have "0 \<le> ?w" "0 \<le> ?s" "0 \<le> ?a" using raw_share_bounds [OF t] assms(1-4) by blast+
  note bounds = redistribute_bounds [OF this assms(5-7) r]
  moreover have "?w + ?s + ?a \<le> t" by (rule raw_shares_sum [OF t assms(1-4)])
  ultimately have fits: "w1 + s1 + a1 \<le> t" by linarith
  then have "Allocate cfg t aw as aa = (w1, s1, a1)" using False r by (simp add: Allocate_def Let_def)
  then have "w = w1" "s = s1" "a = a1" using assms(8) by simp_all
  then show ?thesis using bounds fits t by simp
qed

theorem budget_fits_witness:
  "Allocate DefaultBudgetConfig 1000 900 100 0 = (900, 100, 0) \<and> (900 :: int) + 100 + 0 \<le> max 0 1000"
proof -
  have "Allocate DefaultBudgetConfig 1000 900 100 0 = (900, 100, 0)"
    by (simp add: Allocate_def DefaultBudgetConfig_def redistribute_def raw_share_def int_of_float_def)
  then show ?thesis using budget_fits [of DefaultBudgetConfig 900 100 0 1000 900 100 0] by (simp add: DefaultBudgetConfig_def)
qed

text \<open>The reserve of a tier is only a test of the total: a tier with a small ratio gets nothing of it.\<close>

lemma reserve_not_guaranteed:
  "Allocate \<lparr>WorkingRatio = 9 / 10, SummaryRatio = 1 / 10, ArchiveRatio = 0, MinReserve = 200\<rparr> 1000 900 500 500 = (900, 100, 0)"
  by (simp add: Allocate_def redistribute_def raw_share_def int_of_float_def)

text \<open>Zero, documented as no limit, is replaced by the default.\<close>

lemma no_limit_is_limited: "MaxForgetPerSweep cfg = 0 \<Longrightarrow> MaxForgetPerSweep (NewMemoryDecay cfg) = 3"
  by (simp add: NewMemoryDecay_def)

section \<open>Sweeps\<close>

lemma clamp_bounds: "0 \<le> clamp_importance x \<and> clamp_importance x \<le> 2"
  by (simp add: clamp_importance_def)

lemma sweep_loop_spec:
  "subseq (map as_id (sweep_loop cfg now k ss)) (map as_id ss) \<and>
   (\<forall>s \<in> set (sweep_loop cfg now k ss). 0 \<le> as_importance s \<and> as_importance s \<le> 2 \<and> as_accessCount s = 0) \<and>
   length (filter (\<lambda>s. clamp_importance (decayed cfg now s) \<ge> MinImportance cfg) ss) \<le> length (sweep_loop cfg now k ss) \<and>
   (0 < MaxForgetPerSweep cfg \<longrightarrow> int (length ss) \<le> int (length (sweep_loop cfg now k ss)) + max 0 (MaxForgetPerSweep cfg - k))"
proof (induction ss arbitrary: k)
  case (Cons s ss)
  show ?case
  proof (cases "clamp_importance (decayed cfg now s) < MinImportance cfg \<and> (MaxForgetPerSweep cfg \<le> 0 \<or> k < MaxForgetPerSweep cfg)")
    case True
    then show ?thesis using Cons.IH [of "k + 1"] by auto
  next
    case False
    then show ?thesis using Cons.IH [of k] clamp_bounds by auto
  qed
qed simp

lemma sweep_keeps:
  assumes "s \<in> set ss" and "MinImportance cfg \<le> clamp_importance (decayed cfg now s)"
  shows "as_id s \<in> as_id ` set (sweep_loop cfg now k ss)"
  using assms by (induction ss arbitrary: k) (auto simp: not_le Let_def)

text \<open>
  An enabled sweep forgets at most the configured number of sessions, only
  sessions whose decayed importance is below the threshold, and keeps the others
  in their order with an importance between 0 and 2 and a cleared access count.
\<close>

theorem sweep_forgets_bounded:
  assumes "dc_enabled cfg" and "0 < MaxForgetPerSweep cfg"
  shows "subseq (map as_id (Sweep cfg now ss)) (map as_id ss) \<and>
    int (length ss) - int (length (Sweep cfg now ss)) \<le> MaxForgetPerSweep cfg \<and>
    (\<forall>s \<in> set ss. MinImportance cfg \<le> clamp_importance (decayed cfg now s) \<longrightarrow> as_id s \<in> as_id ` set (Sweep cfg now ss)) \<and>
    (\<forall>s \<in> set (Sweep cfg now ss). 0 \<le> as_importance s \<and> as_importance s \<le> 2 \<and> as_accessCount s = 0)"
proof (cases "ss = []")
  case False
  then have "Sweep cfg now ss = sweep_loop cfg now 0 ss" using assms(1) by (simp add: Sweep_def)
  then show ?thesis using sweep_loop_spec [of cfg now 0 ss] assms(2) sweep_keeps by auto
qed (use assms(2) in \<open>simp add: Sweep_def\<close>)

text \<open>
  A sweep decays by the whole time since the last access, not since the last
  sweep: with a half life of a day, a session swept after one and after two days
  is down to an eighth, while one sweep after two days leaves a quarter.
\<close>

definition day_decay :: decay_config where
  "day_decay = \<lparr>dc_enabled = True, HalfLifeHours = 24, AccessBoost = 3 / 10, MinImportance = 1 / 100, CheckInterval = 1, MaxForgetPerSweep = 3\<rparr>"

lemma day_decay_fields [simp]:
  "dc_enabled day_decay" "HalfLifeHours day_decay = 24" "MinImportance day_decay = 1 / 100" "MaxForgetPerSweep day_decay = 3"
  by (simp_all add: day_decay_def)

definition fresh_session :: archived_session where
  "fresh_session = \<lparr>as_id = ''s'', as_summary = ''x'', as_createdAt = 1, as_interactionCount = 1, as_keyTopics = [],
     as_importance = 1, as_accessCount = 0, as_lastAccessedAt = 1\<rparr>"

definition day :: int where "day = 24 * 3600000000000"

lemma day_hours: "hours day = 24" "hours (2 * day) = 48"
  by (simp_all add: hours_def day_def)

lemma decay_compounds:
  "map as_importance (Sweep day_decay (1 + 2 * day) (Sweep day_decay (1 + day) [fresh_session])) = [1 / 8] \<and>
   map as_importance (Sweep day_decay (1 + 2 * day) [fresh_session]) = [1 / 4]"
proof -
  have half: "decayed day_decay (1 + day) fresh_session = 1 / 2"
    by (simp add: decayed_def fresh_session_def decayFactor_def day_hours)
  have quarter: "decayed day_decay (1 + 2 * day) (fresh_session\<lparr>as_importance := i, as_accessCount := 0\<rparr>) = i / 4" for i
    by (simp add: decayed_def fresh_session_def decayFactor_def day_hours power2_eq_square)
  have quarter1: "decayed day_decay (1 + 2 * day) fresh_session = 1 / 4"
    using quarter [of 1] by (simp add: fresh_session_def)
  have one: "Sweep day_decay (1 + day) [fresh_session] = [fresh_session\<lparr>as_importance := 1 / 2, as_accessCount := 0\<rparr>]"
    by (simp add: Sweep_def half clamp_importance_def)
  have "Sweep day_decay (1 + 2 * day) [fresh_session\<lparr>as_importance := 1 / 2, as_accessCount := 0\<rparr>] =
      [fresh_session\<lparr>as_importance := 1 / 8, as_accessCount := 0\<rparr>]"
    by (simp add: Sweep_def quarter clamp_importance_def)
  moreover have "Sweep day_decay (1 + 2 * day) [fresh_session] = [fresh_session\<lparr>as_importance := 1 / 4, as_accessCount := 0\<rparr>]"
    by (simp add: Sweep_def quarter1 clamp_importance_def)
  ultimately show ?thesis unfolding one by simp
qed

theorem sweep_forgets_bounded_witness:
  "int (length [fresh_session]) - int (length (Sweep day_decay 5 [fresh_session])) \<le> 3"
  using sweep_forgets_bounded [of day_decay 5 "[fresh_session]"] by simp

section \<open>The archive\<close>

definition archive_ok :: "archive \<Rightarrow> bool" where
  "archive_ok a = (0 < ar_maxSessions a \<and> length (ar_sessions a) \<le> ar_maxSessions a)"

lemma archive_ok_new: "archive_ok (NewArchiveMemory path n)"
  by (simp add: archive_ok_def NewArchiveMemory_def)

lemma archive_ok_add: "archive_ok a \<Longrightarrow> archive_ok (AddSession sid now summary count topics a)"
  by (simp add: archive_ok_def AddSession_def Let_def)

lemma archive_ok_recent: "archive_ok a \<Longrightarrow> archive_ok (snd (GetRecentSessions now n a))"
  by (simp add: archive_ok_def GetRecentSessions_def Let_def)

lemma archive_ok_decay: "archive_ok a \<Longrightarrow> archive_ok (snd (archive_Decay d now a))"
proof -
  have "length (sweep_loop cfg now k ss) \<le> length ss" for cfg k ss
    by (induction ss arbitrary: k) (auto simp: Let_def intro: le_SucI)
  then show "archive_ok a \<Longrightarrow> ?thesis"
    by (auto simp: archive_ok_def archive_Decay_def Sweep_def Let_def split: option.splits intro: order_trans)
qed

text \<open>A file of more sessions than the archive keeps is loaded whole.\<close>

lemma load_ignores_capacity:
  "ar_filePath a \<noteq> [] \<Longrightarrow> decode data = Some ss \<Longrightarrow> ar_sessions (snd (archive_Load decode (ReadOk data) a)) = ss"
  by (simp add: archive_Load_def)

text \<open>What is saved is loaded again, when the codec inverts itself.\<close>

lemma archive_save_load:
  assumes "archive_Save encode a = Some data" and "decode (encode (ar_sessions a)) = Some (ar_sessions a)"
    and "ar_filePath b = ar_filePath a"
  shows "ar_sessions (snd (archive_Load decode (ReadOk data) b)) = ar_sessions a"
  using assms by (simp add: archive_Save_def archive_Load_def split: if_splits)

text \<open>An archive without sessions is not written: clearing it leaves the old file.\<close>

lemma clear_keeps_file: "archive_Save encode (archive_Clear a) = None"
  by (simp add: archive_Save_def archive_Clear_def)

lemma archive_lines_bound:
  "int (length sb) \<le> m \<Longrightarrow> int (length (archive_lines m i ss sb)) \<le> m"
  by (induction m i ss sb rule: archive_lines.induct) simp_all

lemma archive_context_bound:
  "24 \<le> maxChars \<Longrightarrow> int (length (fst (archive_BuildContext now maxSessions maxChars a))) \<le> maxChars"
  using archive_lines_bound
  by (auto simp: archive_BuildContext_def split: prod.splits)

section \<open>Topics\<close>

definition topics_ok :: "nat \<Rightarrow> string list \<Rightarrow> bool" where
  "topics_ok m ts \<longleftrightarrow> distinct ts \<and> length ts \<le> m \<and> (\<forall>t \<in> set ts. 3 \<le> rune_count t \<and> rune_count t \<le> 60)"

lemma topics_ok_snoc:
  "topics_ok m ts \<Longrightarrow> length ts < m \<Longrightarrow> t \<notin> set ts \<Longrightarrow> 3 \<le> rune_count t \<Longrightarrow> rune_count t \<le> 60 \<Longrightarrow> topics_ok m (ts @ [t])"
  by (auto simp: topics_ok_def)

lemma pick_topics_spec: "topics_ok m topics \<Longrightarrow> length topics < m \<Longrightarrow> topics_ok m (pick_topics m topics ps)"
proof (induction ps arbitrary: topics)
  case (Cons p ps)
  define t where "t = TrimSpace p"
  have step: "pick_topics m topics (p # ps) =
      (if t = [] \<or> t \<in> set topics \<or> rune_count t < 3 \<or> 60 < rune_count t then pick_topics m topics ps
       else if m \<le> length topics + 1 then topics @ [t] else pick_topics m (topics @ [t]) ps)"
    unfolding t_def pick_topics.simps Let_def by (simp only: not_le [symmetric] de_Morgan_disj split: if_split) blast
  show ?case
  proof (cases "t = [] \<or> t \<in> set topics \<or> rune_count t < 3 \<or> 60 < rune_count t")
    case True
    then show ?thesis unfolding step using Cons.IH [OF Cons.prems] by (simp only: if_True)
  next
    case False
    then have snoc: "topics_ok m (topics @ [t])"
      by (intro topics_ok_snoc Cons.prems) simp_all
    show ?thesis
      unfolding step if_not_P [OF False]
      by (cases "m \<le> length topics + 1") (use snoc Cons.IH [OF snoc] in simp_all)
  qed
qed simp

lemma key_topics:
  "distinct (extractKeyTopics s m) \<and> int (length (extractKeyTopics s m)) \<le> max 0 m \<and>
   (\<forall>t \<in> set (extractKeyTopics s m). 3 \<le> rune_count t \<and> rune_count t \<le> 60)"
proof (cases "s = [] \<or> m \<le> 0")
  case False
  then have "topics_ok (nat m) (extractKeyTopics s m)"
    unfolding extractKeyTopics_def if_not_P [OF False] by (intro pick_topics_spec) (simp_all add: topics_ok_def)
  then show ?thesis using False by (simp add: topics_ok_def le_nat_iff)
qed (simp add: extractKeyTopics_def)

end
