(* ===== verification/MemoryModule.thy ===== *)
theory MemoryModule
  imports MemoryTiers "HOL-Library.Multiset"
begin

text \<open>
  The memory module (\<open>module/memory/memory.go\<close>, \<open>memory_config.go\<close>,
  \<open>summarizer.go\<close>, \<open>scorer.go\<close>) over the tiers of \<open>MemoryTiers\<close>: its construction,
  what it saves at the end of a run, what it evicts, archives and forgets, and
  the prompt it builds.  A summarizer and a scorer are the values of the
  module's interface fields; the clock and the session identifier are
  arguments.  \<open>sort.Slice\<close> is not stable: the sorted permutation it leaves is an
  argument too.
\<close>

section \<open>Summarizers\<close>

text \<open>An error or a summary.\<close>

type_synonym summarizer = "messages \<Rightarrow> string + string"

definition NoopSummarizer :: summarizer where
  "NoopSummarizer msgs = Inr []"

text \<open>The model answers with an error, with no message or with one.\<close>

definition llm_Summarize :: "(messages \<Rightarrow> string + message option) option \<Rightarrow> string \<Rightarrow> summarizer" where
  "llm_Summarize model sysPrompt msgs =
    (case model of
       None \<Rightarrow> Inl ''LLMSummarizer: model is nil''
     | Some generate \<Rightarrow>
         if msgs = [] then Inr []
         else case generate (Some (NewSystemMessage sysPrompt) # msgs) of
                Inl e \<Rightarrow> Inl (''LLMSummarizer: generate failed: '' @ e)
              | Inr None \<Rightarrow> Inr []
              | Inr (Some m) \<Rightarrow> Inr (TrimSpace (msg_content m)))"

record recursive_summarizer =
  rs_inner :: summarizer
  rs_batchSize :: nat

definition NewRecursiveSummarizer :: "summarizer \<Rightarrow> int \<Rightarrow> recursive_summarizer" where
  "NewRecursiveSummarizer inner batchSize =
    \<lparr>rs_inner = inner, rs_batchSize = (if batchSize \<le> 1 then 5 else nat batchSize)\<rparr>"

function batches :: "nat \<Rightarrow> 'a list \<Rightarrow> 'a list list" where
  "batches n msgs = (if msgs = [] \<or> n = 0 then [] else take n msgs # batches n (drop n msgs))"
  by auto
termination by (relation "measure (\<lambda>(n, msgs). length msgs)") auto

declare batches.simps [simp del]

fun summarize_batches :: "summarizer \<Rightarrow> nat \<Rightarrow> messages list \<Rightarrow> string + string list" where
  "summarize_batches inner k [] = Inr []"
| "summarize_batches inner k (b # bs) =
     (case inner b of
        Inl e \<Rightarrow> Inl (''RecursiveSummarizer: batch '' @ decimal k @ '' failed: '' @ e)
      | Inr s \<Rightarrow>
          (case summarize_batches inner (Suc k) bs of
             Inl e \<Rightarrow> Inl e
           | Inr ss \<Rightarrow> Inr (if s \<noteq> [] then s # ss else ss)))"

definition part_message :: "nat \<Rightarrow> string \<Rightarrow> message option" where
  "part_message i s = Some (NewUserMessage (''Part '' @ decimal (Suc i) @ '' summary:'' @ [CHR 0x0A] @ s))"

definition recursive_Summarize :: "recursive_summarizer \<Rightarrow> summarizer" where
  "recursive_Summarize r msgs =
    (if length msgs \<le> 20 then rs_inner r msgs
     else case summarize_batches (rs_inner r) 0 (batches (rs_batchSize r) msgs) of
            Inl e \<Rightarrow> Inl e
          | Inr [] \<Rightarrow> Inr []
          | Inr [s] \<Rightarrow> Inr s
          | Inr ss \<Rightarrow> rs_inner r
              (Some (NewSystemMessage ''Below are summaries of different parts of a conversation. Combine them into a single coherent summary.'')
               # map (\<lambda>i. part_message i (ss ! i)) [0..<length ss]))"

section \<open>The scorer\<close>

record score_info =
  InteractionIndex :: int
  InteractionCount :: int
  RecencyRatio :: real

type_synonym scorer = "messages \<Rightarrow> score_info option \<Rightarrow> real"

record default_scorer =
  RoleWeights :: "string \<rightharpoonup> real"
  RecencyStrength :: real

definition NewDefaultScorer :: default_scorer where
  "NewDefaultScorer =
    \<lparr>RoleWeights = [RoleSystem \<mapsto> 1, RoleUser \<mapsto> 8 / 10, RoleAssistant \<mapsto> 6 / 10, RoleTool \<mapsto> 5 / 10],
     RecencyStrength = 7 / 10\<rparr>"

definition max_role_weight :: "(string \<rightharpoonup> real) \<Rightarrow> messages \<Rightarrow> real" where
  "max_role_weight weights msgs =
    foldl (\<lambda>w m. case m of None \<Rightarrow> w
                 | Some m \<Rightarrow> (case weights (msg_role m) of Some v \<Rightarrow> if v > w then v else w | None \<Rightarrow> w)) 0 msgs"

definition total_runes :: "messages \<Rightarrow> nat" where
  "total_runes msgs = sum_list (map (\<lambda>m. case m of None \<Rightarrow> 0 | Some m \<Rightarrow> rune_count (msg_content m)) msgs)"

definition token_efficiency :: "nat \<Rightarrow> real" where
  "token_efficiency n = (if n > 100 then 1 / (1 + exp ((real n - 500) / 200)) else 1)"

definition tool_bonus :: "messages \<Rightarrow> real" where
  "tool_bonus msgs =
    (let hasToolCall = list_ex (\<lambda>m. case m of None \<Rightarrow> False | Some m \<Rightarrow> msg_toolCalls m \<noteq> []) msgs;
         hasToolResult = list_ex (\<lambda>m. case m of None \<Rightarrow> False | Some m \<Rightarrow> msg_role m = RoleTool) msgs
     in if hasToolCall \<and> hasToolResult then 1 else if hasToolCall \<or> hasToolResult then 3 / 10 else 0)"

definition default_Score :: "default_scorer \<Rightarrow> scorer" where
  "default_Score s msgs info =
    (if msgs = [] then 0
     else let recency = (case info of Some i \<Rightarrow> if InteractionCount i > 1 then RecencyRatio i * RecencyStrength s else 0
                         | None \<Rightarrow> 0);
              score = max_role_weight (RoleWeights s) msgs * (40 / 100) + recency * (30 / 100)
                      + token_efficiency (total_runes msgs) * (20 / 100) + tool_bonus msgs * (10 / 100)
          in if score > 1 then 1 else if score < 0 then 0 else score)"

definition WithRoleWeight :: "string \<Rightarrow> real \<Rightarrow> default_scorer \<Rightarrow> default_scorer" where
  "WithRoleWeight role weight s = s\<lparr>RoleWeights := (RoleWeights s)(role \<mapsto> weight)\<rparr>"

definition WithRecencyStrength :: "real \<Rightarrow> default_scorer \<Rightarrow> default_scorer" where
  "WithRecencyStrength strength s = s\<lparr>RecencyStrength := strength\<rparr>"

section \<open>Configuration and construction\<close>

record memory_config =
  MaxInteractions :: int
  TruncateMessageLen :: int
  MaxTotalChars :: int
  EnableSummarization :: bool
  EnableImportanceScoring :: bool
  StoreGroupSize :: int
  cfg_Budget :: budget_config
  ArchivePath :: string
  MaxArchiveSessions :: int
  ArchiveSaveInterval :: int
  cfg_Decay :: decay_config

definition no_decay :: decay_config where
  "no_decay = \<lparr>dc_enabled = False, HalfLifeHours = 0, AccessBoost = 0, MinImportance = 0, CheckInterval = 0, MaxForgetPerSweep = 0\<rparr>"

definition DefaultMemoryConfig :: memory_config where
  "DefaultMemoryConfig =
    \<lparr>MaxInteractions = 10, TruncateMessageLen = 200, MaxTotalChars = 4096, EnableSummarization = False,
     EnableImportanceScoring = False, StoreGroupSize = 5, cfg_Budget = DefaultBudgetConfig, ArchivePath = [],
     MaxArchiveSessions = 5, ArchiveSaveInterval = 10, cfg_Decay = no_decay\<rparr>"

record interaction =
  in_userMsg :: string
  in_summary :: string
  in_importance :: real

record memory =
  mem_cfg :: memory_config
  mem_summarizer :: "summarizer option"
  mem_scorer :: "scorer option"
  mem_store :: "memory_store option"
  mem_archive :: "archive option"
  mem_budget :: budget_config
  mem_decay :: "decay_config option"
  mem_count :: int
  mem_interactions :: "interaction list"
  mem_lastSaved :: nat

definition NewMemoryModule :: memory where
  "NewMemoryModule =
    \<lparr>mem_cfg = DefaultMemoryConfig, mem_summarizer = None, mem_scorer = None, mem_store = None, mem_archive = None,
     mem_budget = NewTokenBudget DefaultBudgetConfig, mem_decay = None, mem_count = 0, mem_interactions = [], mem_lastSaved = 0\<rparr>"

definition or_default :: "int \<Rightarrow> int \<Rightarrow> int \<Rightarrow> int" where
  "or_default least d n = (if n > least then n else d)"

definition NewMemoryModuleWith :: "memory_config \<Rightarrow> memory" where
  "NewMemoryModuleWith cfg =
    (let d = mem_cfg NewMemoryModule;
         mc = d\<lparr>MaxInteractions := or_default 0 (MaxInteractions d) (MaxInteractions cfg),
            TruncateMessageLen := or_default 0 (TruncateMessageLen d) (TruncateMessageLen cfg),
            MaxTotalChars := or_default 0 (MaxTotalChars d) (MaxTotalChars cfg),
            StoreGroupSize := or_default 1 (StoreGroupSize d) (StoreGroupSize cfg),
            MaxArchiveSessions := or_default 0 (MaxArchiveSessions d) (MaxArchiveSessions cfg),
            ArchiveSaveInterval := or_default 0 (ArchiveSaveInterval d) (ArchiveSaveInterval cfg),
            EnableSummarization := EnableSummarization cfg,
            EnableImportanceScoring := EnableImportanceScoring cfg,
            ArchivePath := ArchivePath cfg\<rparr>
     in NewMemoryModule\<lparr>mem_cfg := mc,
          mem_archive := (if ArchivePath cfg \<noteq> [] then Some (NewArchiveMemory (ArchivePath cfg) (MaxArchiveSessions cfg)) else None),
          mem_budget := NewTokenBudget ((cfg_Budget cfg)\<lparr>MinReserve := max (MinReserve (cfg_Budget cfg)) 200\<rparr>),
          mem_decay := (if dc_enabled (cfg_Decay cfg) then Some (NewMemoryDecay (cfg_Decay cfg)) else None)\<rparr>)"

definition WithSummarizer :: "summarizer \<Rightarrow> memory \<Rightarrow> memory" where
  "WithSummarizer s m =
    m\<lparr>mem_summarizer := Some s,
      mem_store := (if mem_store m = None \<and> EnableSummarization (mem_cfg m) then Some (mt_New (StoreGroupSize (mem_cfg m))) else mem_store m)\<rparr>"

definition WithScorer :: "scorer \<Rightarrow> memory \<Rightarrow> memory" where
  "WithScorer s m = m\<lparr>mem_scorer := Some s\<rparr>"

definition WithArchive :: "string \<Rightarrow> memory \<Rightarrow> memory" where
  "WithArchive path m =
    m\<lparr>mem_cfg := (mem_cfg m)\<lparr>ArchivePath := path\<rparr>, mem_archive := Some (NewArchiveMemory path (MaxArchiveSessions (mem_cfg m)))\<rparr>"

definition WithBudget :: "budget_config \<Rightarrow> memory \<Rightarrow> memory" where
  "WithBudget cfg m =
    (let cfg1 = (if MinReserve cfg \<le> 0 then cfg\<lparr>MinReserve := 200\<rparr> else cfg)
     in m\<lparr>mem_cfg := (mem_cfg m)\<lparr>cfg_Budget := cfg1\<rparr>, mem_budget := NewTokenBudget cfg1\<rparr>)"

definition WithDecay :: "decay_config \<Rightarrow> memory \<Rightarrow> memory" where
  "WithDecay cfg m = m\<lparr>mem_cfg := (mem_cfg m)\<lparr>cfg_Decay := cfg\<rparr>, mem_decay := Some (NewMemoryDecay cfg)\<rparr>"

text \<open>Registration loads the archive; a failure is ignored.\<close>

definition mem_Register :: "(string \<Rightarrow> archived_session list option) \<Rightarrow> read_outcome \<Rightarrow> memory \<Rightarrow> memory" where
  "mem_Register decode contents m = m\<lparr>mem_archive := map_option (\<lambda>a. snd (archive_Load decode contents a)) (mem_archive m)\<rparr>"

section \<open>Saving an interaction\<close>

definition lastUserMessage :: "messages \<Rightarrow> string" where
  "lastUserMessage msgs =
    (case find (\<lambda>m. case m of None \<Rightarrow> False | Some m \<Rightarrow> msg_role m = RoleUser) (rev msgs) of
       Some (Some m) \<Rightarrow> msg_content m
     | _ \<Rightarrow> [])"

type_synonym slice_sort = "(nat \<times> interaction) list \<Rightarrow> (nat \<times> interaction) list"

definition evictLowestImportance :: "slice_sort \<Rightarrow> nat \<Rightarrow> interaction list \<Rightarrow> interaction list" where
  "evictLowestImportance by_importance k xs =
    (if k = 0 \<or> length xs \<le> k then []
     else map snd (sort_key fst (drop k (by_importance (zip [0..<length xs] xs)))))"

definition score_position :: "nat \<Rightarrow> score_info" where
  "score_position n = \<lparr>InteractionIndex = int n, InteractionCount = int n + 1, RecencyRatio = real n / real (max n 1)\<rparr>"

definition saveInteraction :: "slice_sort \<Rightarrow> messages \<Rightarrow> string \<Rightarrow> memory \<Rightarrow> memory" where
  "saveInteraction by_importance msgs summary m =
    (let n = length (mem_interactions m);
         importance = (case mem_scorer m of None \<Rightarrow> 0 | Some score \<Rightarrow> score msgs (Some (score_position n)));
         xs = mem_interactions m @ [\<lparr>in_userMsg = lastUserMessage msgs, in_summary = summary, in_importance = importance\<rparr>];
         excess = nat (int (length xs) - MaxInteractions (mem_cfg m));
         kept = (if int (length xs) > MaxInteractions (mem_cfg m) then
                   if EnableImportanceScoring (mem_cfg m) \<and> mem_scorer m \<noteq> None then evictLowestImportance by_importance excess xs
                   else drop excess xs
                 else xs);
         store = (case mem_store m of
                    Some st \<Rightarrow> Some (if EnableSummarization (mem_cfg m) \<and> summary \<noteq> [] then mt_Insert summary (int (length kept) - 1) st else st)
                  | None \<Rightarrow> None)
     in m\<lparr>mem_interactions := kept, mem_store := store\<rparr>)"

text \<open>The archives handed to Save come first, in the order of the calls.\<close>

definition doArchiveAndDecay :: "string \<Rightarrow> int \<Rightarrow> int \<Rightarrow> string \<Rightarrow> memory \<Rightarrow> archive list \<times> memory" where
  "doArchiveAndDecay sid now interactionCount summary m =
    (case mem_archive m of
       None \<Rightarrow> ([], m)
     | Some a \<Rightarrow>
        let interval = ArchiveSaveInterval (mem_cfg m);
            due = (interval > 0 \<and> interactionCount mod interval = 0 \<and> summary \<noteq> []);
            a1 = (if due then AddSession sid now summary interval (extractKeyTopics summary 3) a else a);
            saved1 = (if due then [a1] else [])
        in case mem_decay m of
             None \<Rightarrow> (saved1, m\<lparr>mem_archive := Some a1\<rparr>)
           | Some d \<Rightarrow>
              if ShouldSweep d interactionCount then
                case archive_Decay (Some d) now a1 of (forgotten, a2) \<Rightarrow>
                  (saved1 @ (if forgotten > 0 then [a2] else []), m\<lparr>mem_archive := Some a2\<rparr>)
              else (saved1, m\<lparr>mem_archive := Some a1\<rparr>))"

text \<open>
  The end of a run; the error of the summarizer is logged.  The code gives up its lock between raising the counter,
  keeping the interaction and storing it: the model covers modules whose runs and resets do not overlap, one step each.
\<close>

definition mem_onAgentEnd :: "slice_sort \<Rightarrow> string \<Rightarrow> int \<Rightarrow> messages \<Rightarrow> memory \<Rightarrow> archive list \<times> memory" where
  "mem_onAgentEnd by_importance sid now allMsgs m =
    (if mem_lastSaved m = 0 \<or> length allMsgs \<le> mem_lastSaved m then ([], m)
     else let newMsgs = drop (mem_lastSaved m) allMsgs;
              summary = (case mem_summarizer m of
                           None \<Rightarrow> []
                         | Some summarize \<Rightarrow> (case summarize newMsgs of Inr s \<Rightarrow> s | Inl e \<Rightarrow> []));
              m1 = m\<lparr>mem_count := mem_count m + 1\<rparr>
          in doArchiveAndDecay sid now (mem_count m1) summary (saveInteraction by_importance allMsgs summary m1))"

definition SaveInteraction :: "slice_sort \<Rightarrow> string \<Rightarrow> int \<Rightarrow> messages \<Rightarrow> memory \<Rightarrow> archive list \<times> memory" where
  "SaveInteraction by_importance sid now msgs m =
    (let m1 = saveInteraction by_importance msgs [] m;
         summary = (if mem_interactions m1 = [] then [] else in_summary (last (mem_interactions m1)))
     in doArchiveAndDecay sid now (mem_count m1) summary m1)"

definition mem_Reset :: "string \<Rightarrow> int \<Rightarrow> memory \<Rightarrow> archive list \<times> memory" where
  "mem_Reset sid now m =
    (let tail = drop (length (mem_interactions m) - min 3 (length (mem_interactions m))) (mem_interactions m);
         parts = filter (\<lambda>s. s \<noteq> []) (map in_summary tail);
         sessionSummary = (if mem_archive m \<noteq> None \<and> mem_count m > 0 \<and> mem_summarizer m \<noteq> None then join_strings ''; '' parts else []);
         m1 = m\<lparr>mem_interactions := [], mem_count := 0, mem_store := map_option mt_Clear (mem_store m)\<rparr>
     in case mem_archive m of
          Some a \<Rightarrow>
            if sessionSummary \<noteq> [] then
              let a1 = AddSession sid now sessionSummary (mem_count m) (extractKeyTopics sessionSummary 3) a
              in ([a1], m1\<lparr>mem_archive := Some a1\<rparr>)
            else ([], m1)
        | None \<Rightarrow> ([], m1))"

section \<open>The prompt\<close>

definition truncateString :: "string \<Rightarrow> int \<Rightarrow> string" where
  "truncateString s maxLen =
    (if int (rune_count s) \<le> maxLen then s else string_of_runes (take (nat maxLen) (runes s)) @ ''...'')"

definition truncateByRunes :: "string \<Rightarrow> int \<Rightarrow> string" where
  "truncateByRunes s maxLen =
    (if maxLen \<le> 0 then [] else if int (rune_count s) \<le> maxLen then s else string_of_runes (take (nat maxLen) (runes s)))"

definition interaction_lines :: "memory_config \<Rightarrow> nat \<Rightarrow> interaction \<Rightarrow> string" where
  "interaction_lines cfg i itn =
    (if EnableImportanceScoring cfg \<and> in_importance itn < 2 / 10 then []
     else ''  ['' @ decimal (Suc i) @ ''] user: '' @ truncateString (in_userMsg itn) (TruncateMessageLen cfg) @ [CHR 0x0A]
          @ (if in_summary itn \<noteq> [] then ''  ['' @ decimal (Suc i) @ ''] assistant: '' @ in_summary itn @ [CHR 0x0A] else []))"

definition summary_tier :: "memory \<Rightarrow> memory_store option" where
  "summary_tier m = (if mem_summarizer m \<noteq> None \<and> EnableSummarization (mem_cfg m) then mem_store m else None)"

definition buildWorkingMemory :: "memory \<Rightarrow> string" where
  "buildWorkingMemory m =
    (let uncovered = (case summary_tier m of
                        Some st \<Rightarrow> drop (mt_Len st) (mem_interactions m)
                      | None \<Rightarrow> mem_interactions m)
     in if uncovered = [] then []
        else ''[Recent conversation]'' @ [CHR 0x0A]
             @ concat (map (\<lambda>i. interaction_lines (mem_cfg m) i (uncovered ! i)) [0..<length uncovered]))"

definition budget_marker :: string where
  "budget_marker = [CHR 0x0A] @ ''[...memory truncated: exceeded total budget]'' @ [CHR 0x0A]"

definition section_text :: "string \<Rightarrow> string" where
  "section_text t = (if t = [] then [] else t @ [CHR 0x0A, CHR 0x0A])"

definition buildSystemPrompt :: "int \<Rightarrow> memory \<Rightarrow> string \<times> memory" where
  "buildSystemPrompt now m =
    (if mem_interactions m = [] \<and> (case mem_archive m of None \<Rightarrow> True | Some a \<Rightarrow> ar_sessions a = []) then ([], m)
     else let t1 = buildWorkingMemory m;
              t2 = (case summary_tier m of Some st \<Rightarrow> mt_BuildContext (- 1) st | None \<Rightarrow> []);
              (t3, m1) = (case mem_archive m of
                 Some a \<Rightarrow>
                   (case archive_BuildContext now (MaxArchiveSessions (mem_cfg m)) (MaxTotalChars (mem_cfg m)) a of
                      (t, a1) \<Rightarrow> (t, m\<lparr>mem_archive := Some a1\<rparr>))
               | None \<Rightarrow> ([], m));
              maxChars = MaxTotalChars (mem_cfg m);
              (w, s, a) = Allocate (mem_budget m) maxChars (int (rune_count t1)) (int (rune_count t2)) (int (rune_count t3));
              result = section_text (truncateByRunes t3 a) @ section_text (truncateByRunes t2 s) @ truncateByRunes t1 w
          in (if int (rune_count result) > maxChars then string_of_runes (take (nat maxChars) (runes result)) @ budget_marker
              else result, m1))"

definition mem_onMessagesBuilt :: "int \<Rightarrow> messages \<Rightarrow> memory \<Rightarrow> messages \<times> memory" where
  "mem_onMessagesBuilt now msgs m =
    (if msgs = [] then (msgs, m)
     else case buildSystemPrompt now m of (t, m1) \<Rightarrow>
       if t = [] then (msgs, m1\<lparr>mem_lastSaved := length msgs\<rparr>)
       else let injected = msgs @ [Some (NewSystemMessage t)] in (injected, m1\<lparr>mem_lastSaved := length injected\<rparr>))"

section \<open>Eviction keeps what matters\<close>

text \<open>What \<open>sort.Slice\<close> documents: a permutation in the given order, ties in any order.\<close>

definition sorts_by_importance :: "slice_sort \<Rightarrow> bool" where
  "sorts_by_importance srt \<longleftrightarrow> (\<forall>xs. mset (srt xs) = mset xs \<and> sorted (map (\<lambda>p. in_importance (snd p)) (srt xs)))"

lemma sorted_take_drop_le:
  "sorted (map f ys) \<Longrightarrow> p \<in> set (take k ys) \<Longrightarrow> q \<in> set (drop k ys) \<Longrightarrow> f p \<le> f q"
  using sorted_append [of "map f (take k ys)" "map f (drop k ys)"]
  by (auto simp flip: map_append)

lemma sort_by_index:
  assumes "distinct (map fst ps)" and "\<And>i x. (i, x) \<in> set ps \<Longrightarrow> x = xs ! i"
  shows "map snd (sort_key fst ps) = map ((!) xs) (sorted_list_of_set (fst ` set ps))"
proof -
  have "map fst (sort_key fst ps) = sort (map fst ps)"
    by (rule properties_for_sort [symmetric]) (simp_all add: mset_map)
  also have "\<dots> = sorted_list_of_set (fst ` set ps)"
    using assms(1) by (simp add: sorted_list_of_set_sort_remdups distinct_remdups_id flip: set_map)
  finally have keys: "map fst (sort_key fst ps) = sorted_list_of_set (fst ` set ps)" .
  have "map snd (sort_key fst ps) = map ((!) xs) (map fst (sort_key fst ps))"
    using assms(2) by (auto simp: comp_def)
  then show ?thesis using keys by simp
qed

text \<open>
  The eviction by importance keeps the given number of interactions in their
  order of recency, and whatever ties the sort leaves, no evicted interaction
  scores higher than a kept one.
\<close>

theorem eviction_keeps_important:
  assumes "sorts_by_importance srt" and "0 < k" and "k < length xs"
  shows "\<exists>K \<subseteq> {..<length xs}. card K = length xs - k \<and>
    evictLowestImportance srt k xs = map ((!) xs) (sorted_list_of_set K) \<and>
    (\<forall>i \<in> K. \<forall>j < length xs. j \<notin> K \<longrightarrow> in_importance (xs ! j) \<le> in_importance (xs ! i))"
proof -
  let ?zs = "zip [0..<length xs] xs"
  define ys where "ys = srt ?zs"
  have perm: "mset ys = mset ?zs" and ord: "sorted (map (\<lambda>p. in_importance (snd p)) ys)"
    using assms(1) by (simp_all add: sorts_by_importance_def ys_def)
  have same: "set ys = set ?zs" using perm by (rule mset_eq_setD)
  have val: "x = xs ! i \<and> i < length xs" if "(i, x) \<in> set ys" for i x
    using that unfolding same by (auto simp: set_zip)
  have keys: "map fst ?zs = [0..<length xs]" by simp
  have "mset (map fst ys) = mset (map fst ?zs)" using perm by (simp only: mset_map)
  then have dist: "distinct (map fst ys)" unfolding keys using distinct_upt mset_eq_imp_distinct_iff by blast
  have len: "length ys = length xs" using perm by (metis length_zip length_upt min.idem minus_nat.diff_0 size_mset)
  let ?D = "drop k ys"
  let ?K = "fst ` set ?D"
  have distD: "distinct (map fst ?D)" using dist by (simp add: drop_map [symmetric])
  have "?K \<subseteq> {..<length xs}" using val by (auto dest: in_set_dropD)
  moreover have "card ?K = length xs - k"
    using distinct_card [OF distD] len by simp
  moreover have "evictLowestImportance srt k xs = map ((!) xs) (sorted_list_of_set ?K)"
    using assms(2,3) sort_by_index [OF distD] val
    by (auto simp: evictLowestImportance_def ys_def [symmetric] dest: in_set_dropD)
  moreover have "in_importance (xs ! j) \<le> in_importance (xs ! i)"
    if i: "i \<in> ?K" and j: "j < length xs" "j \<notin> ?K" for i j
  proof -
    have "(j, xs ! j) \<in> set ys" unfolding same using j(1) by (auto simp: set_zip intro!: exI [of _ j])
    moreover have "(j, xs ! j) \<notin> set ?D" using j(2) by force
    ultimately have "(j, xs ! j) \<in> set (take k ys)" by (metis Un_iff append_take_drop_id set_append)
    moreover obtain x where "(i, x) \<in> set ?D" using i by auto
    ultimately show ?thesis
      using sorted_take_drop_le [OF ord, of "(j, xs ! j)" k "(i, x)"] val by (auto dest: in_set_dropD)
  qed
  ultimately show ?thesis by (intro exI [of _ ?K] conjI ballI allI impI)
qed

text \<open>A stable sort is one such sort; the two low scores go, whatever their age.\<close>

definition stable_sort :: slice_sort where
  "stable_sort = sort_key (\<lambda>p. in_importance (snd p))"

lemma stable_sorts: "sorts_by_importance stable_sort"
  by (simp add: sorts_by_importance_def stable_sort_def)

definition scored :: "string \<Rightarrow> real \<Rightarrow> interaction" where
  "scored u x = \<lparr>in_userMsg = u, in_summary = [], in_importance = x\<rparr>"

theorem eviction_keeps_important_witness:
  "\<exists>K \<subseteq> {..<3}. card K = 2 \<and>
    evictLowestImportance stable_sort 1 [scored ''a'' 1, scored ''b'' 0, scored ''c'' (1 / 2)]
      = map ((!) [scored ''a'' 1, scored ''b'' 0, scored ''c'' (1 / 2)]) (sorted_list_of_set K)"
  using eviction_keeps_important [OF stable_sorts, of 1 "[scored ''a'' 1, scored ''b'' 0, scored ''c'' (1 / 2)]"]
  by (simp add: numeral_3_eq_3 numeral_2_eq_2) blast

section \<open>The state of the module\<close>

text \<open>
  The window is never over its limit, and the store never holds more summaries
  than runs were counted.
\<close>

definition memory_ok :: "memory \<Rightarrow> bool" where
  "memory_ok m \<longleftrightarrow>
    0 < MaxInteractions (mem_cfg m) \<and> int (length (mem_interactions m)) \<le> MaxInteractions (mem_cfg m) \<and>
    1 < StoreGroupSize (mem_cfg m) \<and> 0 \<le> mem_count m \<and>
    (case mem_store m of Some st \<Rightarrow> store_shape st \<and> int (mt_Len st) \<le> mem_count m | None \<Rightarrow> True)"

lemma mt_Len_leaves: "mt_Len st = length (collectLeavesLocked st)"
proof -
  have "map countLeaves ns = map (\<lambda>n. length (collectLeaves n)) ns" for ns by (simp add: count_collect)
  then show ?thesis by (simp add: mt_Len_def collectLeavesLocked_def length_concat comp_def del: map_eq_conv)
qed

lemma mt_Len_insert: "store_shape st \<Longrightarrow> mt_Len (mt_Insert s i st) = Suc (mt_Len st)"
  using insert_shape [of st s i] by (simp add: mt_Len_leaves)

lemma evict_length:
  assumes "sorts_by_importance srt" and "k \<le> length xs"
  shows "length (evictLowestImportance srt k xs) \<le> length xs - k"
proof -
  have "mset (srt (zip [0..<length xs] xs)) = mset (zip [0..<length xs] xs)"
    using assms(1) by (simp add: sorts_by_importance_def)
  then have "length (srt (zip [0..<length xs] xs)) = length xs"
    by (metis length_zip length_upt min.idem minus_nat.diff_0 size_mset)
  then show ?thesis by (simp add: evictLowestImportance_def)
qed

lemma saveInteraction_interactions:
  assumes "sorts_by_importance srt" and "0 < MaxInteractions (mem_cfg m)"
  shows "int (length (mem_interactions (saveInteraction srt msgs s m))) \<le> MaxInteractions (mem_cfg m)"
proof -
  let ?xs = "mem_interactions m @ [\<lparr>in_userMsg = lastUserMessage msgs, in_summary = s, in_importance =
    (case mem_scorer m of None \<Rightarrow> 0 | Some score \<Rightarrow> score msgs (Some (score_position (length (mem_interactions m)))))\<rparr>]"
  let ?k = "nat (int (length ?xs) - MaxInteractions (mem_cfg m))"
  have "length (evictLowestImportance srt ?k ?xs) \<le> length ?xs - ?k"
    using assms(2) by (intro evict_length [OF assms(1)]) simp
  then show ?thesis using assms(2) by (auto simp: saveInteraction_def Let_def)
qed

lemma saveInteraction_keeps [simp]:
  "mem_cfg (saveInteraction srt msgs s m) = mem_cfg m" "mem_count (saveInteraction srt msgs s m) = mem_count m"
  "mem_archive (saveInteraction srt msgs s m) = mem_archive m" "mem_summarizer (saveInteraction srt msgs s m) = mem_summarizer m"
  "mem_decay (saveInteraction srt msgs s m) = mem_decay m"
  by (simp_all add: saveInteraction_def Let_def)

lemma saveInteraction_store:
  "mem_store (saveInteraction srt msgs s m) = mem_store m \<or>
   (\<exists>st i. s \<noteq> [] \<and> mem_store m = Some st \<and> mem_store (saveInteraction srt msgs s m) = Some (mt_Insert s i st))"
  by (auto simp: saveInteraction_def Let_def split: option.splits)

lemma doArchive_keeps [simp]:
  "mem_interactions (snd (doArchiveAndDecay sid now n s m)) = mem_interactions m"
  "mem_cfg (snd (doArchiveAndDecay sid now n s m)) = mem_cfg m"
  "mem_count (snd (doArchiveAndDecay sid now n s m)) = mem_count m"
  "mem_store (snd (doArchiveAndDecay sid now n s m)) = mem_store m"
  by (simp_all add: doArchiveAndDecay_def Let_def split: option.splits prod.splits)

lemma buildPrompt_keeps [simp]:
  "mem_interactions (snd (buildSystemPrompt now m)) = mem_interactions m"
  "mem_cfg (snd (buildSystemPrompt now m)) = mem_cfg m"
  "mem_count (snd (buildSystemPrompt now m)) = mem_count m"
  "mem_store (snd (buildSystemPrompt now m)) = mem_store m"
  by (simp_all add: buildSystemPrompt_def Let_def split: option.splits prod.splits)

lemma onMessagesBuilt_keeps:
  "mem_interactions (snd (mem_onMessagesBuilt now msgs m)) = mem_interactions m"
  "mem_cfg (snd (mem_onMessagesBuilt now msgs m)) = mem_cfg m"
  "mem_count (snd (mem_onMessagesBuilt now msgs m)) = mem_count m"
  "mem_store (snd (mem_onMessagesBuilt now msgs m)) = mem_store m"
  using buildPrompt_keeps [of now m]
  by (cases "buildSystemPrompt now m", simp add: mem_onMessagesBuilt_def Let_def)+

datatype mem_op =
    RunStarts int messages
  | RunEnds string int messages
  | UserSaves string int messages
  | UserResets string int
  | SetSummarizer summarizer
  | SetScorer scorer

fun mem_step :: "slice_sort \<Rightarrow> mem_op \<Rightarrow> memory \<Rightarrow> memory" where
  "mem_step srt (RunStarts now msgs) m = snd (mem_onMessagesBuilt now msgs m)"
| "mem_step srt (RunEnds sid now msgs) m = snd (mem_onAgentEnd srt sid now msgs m)"
| "mem_step srt (UserSaves sid now msgs) m = snd (SaveInteraction srt sid now msgs m)"
| "mem_step srt (UserResets sid now) m = snd (mem_Reset sid now m)"
| "mem_step srt (SetSummarizer s) m = WithSummarizer s m"
| "mem_step srt (SetScorer s) m = WithScorer s m"

lemma memory_ok_save:
  assumes "sorts_by_importance srt" and "memory_ok m"
  shows "memory_ok (saveInteraction srt msgs s (m\<lparr>mem_count := mem_count m + 1\<rparr>))" and "memory_ok (saveInteraction srt msgs [] m)"
proof -
  let ?m = "m\<lparr>mem_count := mem_count m + 1\<rparr>"
  show "memory_ok (saveInteraction srt msgs s ?m)"
    using saveInteraction_interactions [OF assms(1), of ?m msgs s] saveInteraction_store [of srt msgs s ?m] assms(2)
    by (auto simp: memory_ok_def mt_Len_insert insert_shape split: option.splits)
  show "memory_ok (saveInteraction srt msgs [] m)"
    using saveInteraction_interactions [OF assms(1), of m msgs "[]"] saveInteraction_store [of srt msgs "[]" m] assms(2)
    by (auto simp: memory_ok_def split: option.splits)
qed

lemma memory_ok_cong:
  "mem_interactions m' = mem_interactions m \<Longrightarrow> mem_cfg m' = mem_cfg m \<Longrightarrow> mem_count m' = mem_count m \<Longrightarrow>
   mem_store m' = mem_store m \<Longrightarrow> memory_ok m \<Longrightarrow> memory_ok m'"
  by (simp add: memory_ok_def cong: option.case_cong)

lemma memory_ok_archive: "memory_ok (snd (doArchiveAndDecay sid now n s m)) = memory_ok m"
  by (simp add: memory_ok_def cong: option.case_cong)

lemma mt_Clear_ok: "store_shape st \<Longrightarrow> store_shape (mt_Clear st) \<and> mt_Len (mt_Clear st) = 0"
  by (auto simp: store_shape_def mt_Clear_def mt_Len_def)

lemma memory_ok_step:
  assumes "sorts_by_importance srt" and "memory_ok m"
  shows "memory_ok (mem_step srt p m)"
proof (cases p)
  case (RunStarts now msgs)
  then show ?thesis
    using memory_ok_cong [OF onMessagesBuilt_keeps assms(2)] by simp
next
  case (RunEnds sid now msgs)
  then show ?thesis
    using assms memory_ok_save(1) [OF assms] by (simp add: mem_onAgentEnd_def Let_def memory_ok_archive)
next
  case (UserSaves sid now msgs)
  then show ?thesis using memory_ok_save(2) [OF assms] by (simp add: SaveInteraction_def Let_def memory_ok_archive)
next
  case (UserResets sid now)
  then show ?thesis
    using assms(2) mt_Clear_ok by (auto simp: mem_Reset_def Let_def memory_ok_def split: option.splits)
next
  case (SetSummarizer s)
  have "store_shape (mt_New g) \<and> mt_Len (mt_New g) = 0" for g
    by (auto simp: store_shape_def mt_New_def mt_Len_def)
  then show ?thesis
    using SetSummarizer assms(2) by (cases "mem_store m") (auto simp: memory_ok_def WithSummarizer_def cong: option.case_cong)
qed (use assms(2) in \<open>simp add: memory_ok_def WithScorer_def cong: option.case_cong\<close>)

lemma memory_ok_new: "memory_ok (NewMemoryModuleWith cfg)"
  by (simp add: memory_ok_def NewMemoryModuleWith_def NewMemoryModule_def DefaultMemoryConfig_def or_default_def Let_def)

lemma runes_cut: "runes (string_of_runes (take n (runes s)) @ t) = take n (runes s) @ runes t"
  by (rule runes_string_of_runes) (auto dest: in_set_takeD runes_scalar)

lemmas runes_cut_end = runes_cut [where t = "[]", simplified]

lemma truncate_runes: "int (rune_count (truncateByRunes s n)) \<le> max 0 n"
  by (auto simp: truncateByRunes_def rune_count_def runes_cut_end)

lemma marker_runes: "runes budget_marker = map of_char budget_marker"
  using runes_ascii [of budget_marker "[]"] by (simp add: budget_marker_def)

lemma prompt_bounded:
  assumes "0 < MaxTotalChars (mem_cfg m)"
  shows "int (rune_count (fst (buildSystemPrompt now m))) \<le> MaxTotalChars (mem_cfg m) + 46"
proof -
  let ?n = "MaxTotalChars (mem_cfg m)"
  have cut: "int (rune_count (if int (rune_count r) > ?n then string_of_runes (take (nat ?n) (runes r)) @ budget_marker else r)) \<le> ?n + 46" for r
  proof -
    have "rune_count (string_of_runes (take (nat ?n) (runes r)) @ budget_marker) = length (take (nat ?n) (runes r)) + length budget_marker"
      by (simp add: rune_count_def runes_cut marker_runes)
    moreover have "length budget_marker = 46" by (simp add: budget_marker_def)
    ultimately show ?thesis using assms by (auto simp: min_def rune_count_def)
  qed
  show ?thesis
    using cut assms unfolding buildSystemPrompt_def Let_def by (simp split: prod.splits option.splits add: rune_count_def)
qed

text \<open>
  C39. Whatever the runs, saves, resets and scores, the window never holds more
  interactions than its limit, the store never holds more summaries than runs
  were counted, and the injected prompt is at most the configured number of
  characters and the truncation marker long.
\<close>

theorem memory_invariant:
  assumes "sorts_by_importance srt" and "m = fold (mem_step srt) ops (NewMemoryModuleWith cfg)"
  shows "memory_ok m \<and> MaxInteractions (mem_cfg m) = or_default 0 10 (MaxInteractions cfg) \<and>
    int (rune_count (fst (buildSystemPrompt now m))) \<le> or_default 0 4096 (MaxTotalChars cfg) + 46"
proof -
  let ?m0 = "NewMemoryModuleWith cfg"
  have cfg_step: "mem_cfg (mem_step srt p m) = mem_cfg m" for p m
    by (cases p) (simp_all add: onMessagesBuilt_keeps mem_onAgentEnd_def SaveInteraction_def mem_Reset_def WithSummarizer_def
      WithScorer_def Let_def split: option.splits)
  have "memory_ok m \<and> mem_cfg m = mem_cfg ?m0"
    unfolding assms(2)
  proof (induction ops rule: rev_induct)
    case (snoc p ops)
    then show ?case using memory_ok_step [OF assms(1)] cfg_step by simp
  qed (simp add: memory_ok_new)
  moreover have "MaxInteractions (mem_cfg ?m0) = or_default 0 10 (MaxInteractions cfg)"
    "MaxTotalChars (mem_cfg ?m0) = or_default 0 4096 (MaxTotalChars cfg)" "0 < MaxTotalChars (mem_cfg ?m0)"
    by (simp_all add: NewMemoryModuleWith_def NewMemoryModule_def DefaultMemoryConfig_def or_default_def Let_def)
  ultimately show ?thesis using prompt_bounded [of m now] by simp
qed

theorem memory_invariant_witness:
  "memory_ok (fold (mem_step stable_sort) [UserSaves ''s'' 0 [], UserResets ''s'' 1] (NewMemoryModuleWith DefaultMemoryConfig))"
  using memory_invariant [OF stable_sorts refl] by blast

section \<open>What the tiers miss\<close>

text \<open>
  The working tier counts summaries against interactions: once the store holds
  as many summaries as the window holds interactions, no interaction is shown
  raw, also one whose summary failed and that no tier carries.
\<close>

lemma covered_by_count:
  "summary_tier m = Some st \<Longrightarrow> length (mem_interactions m) \<le> mt_Len st \<Longrightarrow> buildWorkingMemory m = []"
  by (simp add: buildWorkingMemory_def)

text \<open>The recency a scorer sees is the same for every interaction but the first.\<close>

lemma recency_constant: "0 < n \<Longrightarrow> RecencyRatio (score_position n) = 1"
  by (simp add: score_position_def max_def)

text \<open>Saving by hand archives nothing: it saves no summary, and the run counter stays.\<close>

lemma SaveInteraction_archives_nothing:
  assumes "mem_scorer m = None" and "0 < MaxInteractions (mem_cfg m)"
  shows "\<forall>a'. mem_archive (snd (SaveInteraction srt sid now msgs m)) = Some a' \<longrightarrow>
    (\<exists>a. mem_archive m = Some a \<and> (a' = a \<or> (\<exists>d. a' = snd (archive_Decay (Some d) now a))))"
proof -
  let ?m1 = "saveInteraction srt msgs [] m"
  have "mem_interactions ?m1 \<noteq> [] \<and> in_summary (last (mem_interactions ?m1)) = []"
    using assms by (auto simp: saveInteraction_def Let_def)
  then show ?thesis
    by (auto simp: SaveInteraction_def Let_def doArchiveAndDecay_def split: option.splits prod.splits if_splits
        dest!: arg_cong [where f = snd])
qed

text \<open>
  The delta of a run is counted from the list before its system messages are
  collapsed into one: when the input already has a system message, the first
  message of the run is missing from what is summarized.
\<close>

lemma delta_loses_first:
  assumes "length (filter is_system msgs) = 1" and "Some x \<in> set msgs" and "msg_role x = RoleSystem" and "msg_content x \<noteq> []"
    and "fst (buildSystemPrompt now m) \<noteq> []"
  shows "drop (mem_lastSaved (snd (mem_onMessagesBuilt now msgs m)))
           (collapseSystem (fst (mem_onMessagesBuilt now msgs m)) @ new) = tl new"
proof -
  obtain t m1 where p: "buildSystemPrompt now m = (t, m1)" by fastforce
  let ?inj = "msgs @ [Some (NewSystemMessage t)]"
  have ne: "msgs \<noteq> []" using assms(2) by auto
  have built: "mem_onMessagesBuilt now msgs m = (?inj, m1\<lparr>mem_lastSaved := Suc (length msgs)\<rparr>)"
    using assms(5) ne by (simp add: mem_onMessagesBuilt_def p Let_def)
  have "length (filter (\<lambda>y. \<not> is_system y) ?inj) = length msgs - 1"
    using sum_length_filter_compl [of is_system msgs] assms(1) by (simp add: NewSystemMessage_def blank_message_def)
  moreover have "collapseSystem ?inj =
      Some (NewSystemMessage (join_strings [CHR 0x0A, CHR 0x0A] (system_sections ?inj))) # filter (\<lambda>y. \<not> is_system y) ?inj"
    using assms(2-4) by (intro conjunct1 [OF collapse_single_system [of x]]) simp_all
  ultimately have "length (collapseSystem ?inj) = length msgs" using ne by simp
  then show ?thesis unfolding built by (simp add: drop_Suc)
qed

section \<open>Recursive summaries\<close>

lemma batches_cover: "0 < n \<Longrightarrow> concat (batches n msgs) = msgs \<and> (\<forall>b \<in> set (batches n msgs). b \<noteq> [] \<and> length b \<le> n)"
proof (induction n msgs rule: batches.induct)
  case (1 n msgs)
  then show ?case by (subst (1 2) batches.simps) (auto simp: batches.simps [of n "[]"])
qed

lemma default_score_range: "0 \<le> default_Score s msgs info \<and> default_Score s msgs info \<le> 1"
  by (simp add: default_Score_def Let_def)

end
