(* ===== verification/SpillFilters.thy ===== *)
theory SpillFilters
  imports GoStrings "HOL-Library.Sublist"
begin

text \<open>
  The storage of oversized texts (\<open>core/spill/spill.go\<close>) and the filter of tool
  results that uses it (\<open>module/contextfilters\<close>).  A random locator is an
  argument.  A path is the list of its segments; the directory of a file store
  is absolute and clean, the disk a map from paths to contents, and whether
  \<open>MkdirAll\<close> and \<open>WriteFile\<close> succeed is an argument.
\<close>

section \<open>Paths\<close>

definition path_segments :: "string \<Rightarrow> string list" where
  "path_segments s = split_on (\<lambda>c. c = CHR ''/'') s"

text \<open>\<open>filepath.Join\<close> onto an absolute clean path, and the clean form of a relative one.\<close>

fun walk :: "string list \<Rightarrow> string list \<Rightarrow> string list" where
  "walk acc [] = acc"
| "walk acc (seg # rest) =
     (if seg = [] \<or> seg = ''.'' then walk acc rest
      else if seg = ''..'' then walk (butlast acc) rest
      else walk (acc @ [seg]) rest)"

fun clean_rel :: "string list \<Rightarrow> string list \<Rightarrow> string list" where
  "clean_rel acc [] = acc"
| "clean_rel acc (seg # rest) =
     (if seg = [] \<or> seg = ''.'' then clean_rel acc rest
      else if seg = ''..'' \<and> acc \<noteq> [] \<and> last acc \<noteq> ''..'' then clean_rel (butlast acc) rest
      else clean_rel (acc @ [seg]) rest)"

fun common :: "string list \<Rightarrow> string list \<Rightarrow> nat" where
  "common (a # as) (b # bs) = (if a = b then Suc (common as bs) else 0)"
| "common _ _ = 0"

definition Rel :: "string list \<Rightarrow> string list \<Rightarrow> string list" where
  "Rel base targ = replicate (length base - common base targ) ''..'' @ drop (common base targ) targ"

section \<open>The stores\<close>

record spill_ref =
  ref_Locator :: string
  ref_Bytes :: nat
  ref_Hint :: string

datatype spill_error = InvalidOwner string | MkdirFailed | WriteFailed | SpillNotFound

type_synonym memory_spills = "string \<rightharpoonup> string"

definition owner_key :: "string \<Rightarrow> string \<Rightarrow> string" where
  "owner_key owner loc = owner @ [CHR 0x00] @ loc"

definition memory_SaveText :: "string \<Rightarrow> string \<Rightarrow> string \<Rightarrow> memory_spills \<Rightarrow> (spill_error + spill_ref) \<times> memory_spills" where
  "memory_SaveText loc owner t items =
    (Inr \<lparr>ref_Locator = loc, ref_Bytes = length t, ref_Hint = ''memory:'' @ owner @ '':'' @ loc\<rparr>,
     items(owner_key owner loc \<mapsto> t))"

definition memory_Retrieve :: "string \<Rightarrow> string \<Rightarrow> memory_spills \<Rightarrow> spill_error + string" where
  "memory_Retrieve owner loc items =
    (case items (owner_key owner loc) of None \<Rightarrow> Inl SpillNotFound | Some t \<Rightarrow> Inr t)"

definition validateOwner :: "string \<Rightarrow> spill_error option" where
  "validateOwner owner =
    (if owner = [] then Some (InvalidOwner ''empty owner'')
     else if CHR ''/'' \<in> set owner \<or> CHR 0x5C \<in> set owner then Some (InvalidOwner ''must be a single path segment'')
     else if ''..'' \<in> set (split_on (\<lambda>c. c = CHR ''.'') owner) then Some (InvalidOwner ''must not contain ..'')
     else None)"

type_synonym disk = "string list \<rightharpoonup> string"

record file_store =
  fs_dir :: "string list"
  fs_disk :: disk

definition file_name :: "string \<Rightarrow> string" where
  "file_name loc = loc @ ''.txt''"

definition file_SaveText ::
  "bool \<Rightarrow> bool \<Rightarrow> string \<Rightarrow> string \<Rightarrow> string \<Rightarrow> file_store \<Rightarrow> (spill_error + spill_ref) \<times> file_store" where
  "file_SaveText mkdir_ok write_ok loc owner t s =
    (case validateOwner owner of
       Some e \<Rightarrow> (Inl e, s)
     | None \<Rightarrow>
        let rel = clean_rel [] [owner, file_name loc];
            path = walk (fs_dir s) rel
        in if \<not> mkdir_ok then (Inl MkdirFailed, s)
           else if \<not> write_ok then (Inl WriteFailed, s)
           else (Inr \<lparr>ref_Locator = join_strings ''/'' rel, ref_Bytes = length t,
                      ref_Hint = ''file:/'' @ join_strings ''/'' path\<rparr>,
                 s\<lparr>fs_disk := (fs_disk s)(path \<mapsto> t)\<rparr>))"

definition file_Retrieve :: "string \<Rightarrow> string \<Rightarrow> file_store \<Rightarrow> spill_error + string" where
  "file_Retrieve owner loc s =
    (let rel = Rel (fs_dir s) (walk (fs_dir s) (path_segments loc))
     in if rel = [''..''] \<or> rel = [] then Inl SpillNotFound
        else let wantOwner = join_strings ''/'' (butlast rel)
             in if wantOwner = [] \<or> wantOwner \<noteq> owner then Inl SpillNotFound
                else case fs_disk s (walk (fs_dir s) rel) of
                       None \<Rightarrow> Inl SpillNotFound
                     | Some t \<Rightarrow> Inr t)"

section \<open>The filter\<close>

definition PruneMarker :: string where
  "PruneMarker = ''[... middle pruned ...]''"

record filter_config =
  MaxInlineBytes :: int
  PruneThresholdChars :: int
  PruneHeadChars :: int
  PruneTailChars :: int
  SkipTools :: "string list"
  HasStore :: bool

definition DefaultFilterConfig :: filter_config where
  "DefaultFilterConfig = \<lparr>MaxInlineBytes = 0, PruneThresholdChars = 8192, PruneHeadChars = 4096, PruneTailChars = 1024,
     SkipTools = [''read''], HasStore = False\<rparr>"

definition unless_zero :: "int \<Rightarrow> int \<Rightarrow> int" where
  "unless_zero n d = (if n = 0 then d else n)"

definition NewFilter :: "filter_config \<Rightarrow> filter_config option" where
  "NewFilter cfg =
    (let th = unless_zero (PruneThresholdChars cfg) (PruneThresholdChars DefaultFilterConfig);
         hd = unless_zero (PruneHeadChars cfg) (PruneHeadChars DefaultFilterConfig);
         tl = unless_zero (PruneTailChars cfg) (PruneTailChars DefaultFilterConfig)
     in if hd + int (rune_count PruneMarker) + tl > th then None
        else Some (cfg\<lparr>PruneThresholdChars := th, PruneHeadChars := hd, PruneTailChars := tl,
                      SkipTools := (if SkipTools cfg = [] then SkipTools DefaultFilterConfig else SkipTools cfg)\<rparr>))"

definition cutRunes :: "string \<Rightarrow> int \<Rightarrow> string" where
  "cutRunes s n = (if n \<le> 0 then [] else cut_runes (nat n) s)"

definition cutRunesRight :: "string \<Rightarrow> int \<Rightarrow> string" where
  "cutRunesRight s n =
    (if n \<le> 0 then [] else if int (rune_count s) \<le> n then s else string_of_runes (drop (rune_count s - nat n) (runes s)))"

definition prune :: "filter_config \<Rightarrow> string \<Rightarrow> string" where
  "prune cfg s =
    (if PruneThresholdChars cfg \<le> 0 \<or> int (rune_count s) \<le> PruneThresholdChars cfg then s
     else cutRunes s (PruneHeadChars cfg) @ PruneMarker @ cutRunesRight s (PruneTailChars cfg))"

definition RuneStart :: "char \<Rightarrow> bool" where
  "RuneStart c = (\<not> cont_byte 0x80 0xBF c)"

fun back_to_start :: "string \<Rightarrow> nat \<Rightarrow> nat" where
  "back_to_start s 0 = 0"
| "back_to_start s (Suc n) = (if RuneStart (s ! Suc n) then Suc n else back_to_start s n)"

definition headBytes :: "string \<Rightarrow> int \<Rightarrow> string" where
  "headBytes s n = (if n \<le> 0 then [] else if int (length s) \<le> n then s else take (back_to_start s (nat n)) s)"

definition tailBytes :: "string \<Rightarrow> int \<Rightarrow> string" where
  "tailBytes s n =
    (if n \<le> 0 then [] else if int (length s) \<le> n then s
     else dropWhile (\<lambda>c. \<not> RuneStart c) (drop (length s - nat n) s))"

definition spill_notice :: "spill_ref \<Rightarrow> string" where
  "spill_notice r = [CHR 0x0A] @ ''(Omitted '' @ decimal (ref_Bytes r) @ '' bytes. Full result at: '' @ ref_Locator r @ ''. '' @ ref_Hint r @ '')''"

definition spill_mid :: string where
  "spill_mid = [CHR 0x0A] @ ''[...]'' @ [CHR 0x0A]"

text \<open>What replaces the text once the store has answered.\<close>

definition spill_preview :: "filter_config \<Rightarrow> string \<Rightarrow> string \<Rightarrow> spill_error + spill_ref \<Rightarrow> string" where
  "spill_preview cfg owner s answer =
    (case answer of
       Inl e \<Rightarrow> s
     | Inr r \<Rightarrow>
        if owner = [] then s
        else let notice = spill_notice r;
                 budget = MaxInlineBytes cfg - int (length notice) - int (length spill_mid)
             in if budget < 256 then s
                else headBytes s (budget div 2) @ spill_mid @ tailBytes s (budget - budget div 2) @ notice)"

definition spill_result ::
  "(string \<Rightarrow> string \<Rightarrow> 'st \<Rightarrow> (spill_error + spill_ref) \<times> 'st) \<Rightarrow> filter_config \<Rightarrow> string \<Rightarrow> string \<Rightarrow> string \<Rightarrow> 'st \<Rightarrow> string \<times> 'st" where
  "spill_result save cfg owner toolName s st =
    (if \<not> HasStore cfg \<or> MaxInlineBytes cfg \<le> 0 \<or> int (length s) \<le> MaxInlineBytes cfg \<or> toolName \<in> set (SkipTools cfg) then (s, st)
     else case save owner s st of (answer, st1) \<Rightarrow> (spill_preview cfg owner s answer, st1))"

text \<open>The hook on a tool result: spill first, then prune what is shown.\<close>

definition filter_OnToolResult ::
  "(string \<Rightarrow> string \<Rightarrow> 'st \<Rightarrow> (spill_error + spill_ref) \<times> 'st) \<Rightarrow> filter_config \<Rightarrow> string \<Rightarrow> string \<Rightarrow> string \<Rightarrow> 'st \<Rightarrow> string \<times> 'st" where
  "filter_OnToolResult save cfg owner toolName result st =
    (if result = [] then (result, st)
     else case spill_result save cfg owner toolName result st of (r, st1) \<Rightarrow> (prune cfg r, st1))"

section \<open>Pruning converges\<close>

lemma marker_ascii: "\<forall>c \<in> set PruneMarker. of_char c < (128::nat)" "rune_count PruneMarker = 23"
proof -
  show a: "\<forall>c \<in> set PruneMarker. of_char c < (128::nat)" by (simp add: PruneMarker_def)
  show "rune_count PruneMarker = 23"
    using runes_ascii [OF a, of "[]"] by (simp add: rune_count_def) (simp add: PruneMarker_def)
qed

lemma runes_prune:
  assumes "0 < PruneThresholdChars cfg" "0 < PruneHeadChars cfg" "0 < PruneTailChars cfg"
    and "PruneThresholdChars cfg < int (rune_count s)" and "PruneTailChars cfg \<le> PruneThresholdChars cfg"
  shows "runes (prune cfg s) = take (nat (PruneHeadChars cfg)) (runes s) @ runes PruneMarker
    @ drop (rune_count s - nat (PruneTailChars cfg)) (runes s)"
proof -
  let ?tl = "string_of_runes (drop (rune_count s - nat (PruneTailChars cfg)) (runes s))"
  have p: "prune cfg s = cut_runes (nat (PruneHeadChars cfg)) s @ PruneMarker @ ?tl"
    using assms by (simp add: prune_def cutRunes_def cutRunesRight_def)
  obtain c m where m: "PruneMarker = c # m" by (simp add: PruneMarker_def)
  have c: "of_char c < (128::nat)" using marker_ascii(1) by (simp add: m)
  have "runes (prune cfg s) = take (nat (PruneHeadChars cfg)) (runes s) @ runes (PruneMarker @ ?tl)"
    unfolding p m append_Cons by (rule runes_cut_runes [OF c])
  also have "runes (PruneMarker @ ?tl) = runes PruneMarker @ runes ?tl"
    using runes_ascii [OF marker_ascii(1), of ?tl] runes_ascii [OF marker_ascii(1), of "[]"] by simp
  also have "runes ?tl = drop (rune_count s - nat (PruneTailChars cfg)) (runes s)"
    using runes_string_of_runes [of _ "[]"] by (metis append_Nil2 in_set_dropD runes_Nil runes_scalar)
  finally show ?thesis .
qed

text \<open>
  A filter that its constructor accepts, with no negative size, shortens
  every result to its threshold at most: a longer one keeps exactly its first and
  last characters around the marker, a shorter one is unchanged, and pruning
  again changes nothing.
\<close>

theorem prune_converges:
  assumes "NewFilter cfg = Some m" and "0 \<le> PruneThresholdChars cfg" "0 \<le> PruneHeadChars cfg" "0 \<le> PruneTailChars cfg"
  shows "int (rune_count (prune m s)) \<le> PruneThresholdChars m \<and> prune m (prune m s) = prune m s \<and>
    (if int (rune_count s) \<le> PruneThresholdChars m then prune m s = s
     else runes (prune m s) = take (nat (PruneHeadChars m)) (runes s) @ runes PruneMarker
            @ drop (rune_count s - nat (PruneTailChars m)) (runes s))"
proof -
  have pos: "0 < PruneThresholdChars m" "0 < PruneHeadChars m" "0 < PruneTailChars m"
    and fit: "PruneHeadChars m + 23 + PruneTailChars m \<le> PruneThresholdChars m"
    using assms by (auto simp: NewFilter_def DefaultFilterConfig_def unless_zero_def Let_def marker_ascii(2) split: if_splits)
  have bound: "int (rune_count (prune m s)) \<le> PruneThresholdChars m"
  proof (cases "int (rune_count s) \<le> PruneThresholdChars m")
    case True
    then show ?thesis by (simp add: prune_def)
  next
    case False
    have "rune_count (prune m s) \<le> nat (PruneHeadChars m) + 23 + nat (PruneTailChars m)"
      using runes_prune [of m s] pos fit False marker_ascii(2) by (simp add: rune_count_def)
    then show ?thesis using pos fit by linarith
  qed
  moreover have "prune m (prune m s) = prune m s" using bound by (subst prune_def) simp
  moreover have "prune m s = s" if "int (rune_count s) \<le> PruneThresholdChars m" using that by (simp add: prune_def)
  ultimately show ?thesis using runes_prune [of m s] pos fit by (simp add: not_le)
qed

definition small_filter :: filter_config where
  "small_filter = DefaultFilterConfig\<lparr>PruneThresholdChars := 30, PruneHeadChars := 4, PruneTailChars := 3\<rparr>"

theorem prune_converges_witness:
  "int (rune_count (prune small_filter (replicate 40 (CHR ''x'')))) \<le> 30"
proof -
  have "NewFilter small_filter = Some small_filter"
    by (simp add: NewFilter_def small_filter_def DefaultFilterConfig_def unless_zero_def marker_ascii(2) Let_def)
  from prune_converges [OF this, of "replicate 40 (CHR ''x'')"] show ?thesis
    by (simp add: small_filter_def DefaultFilterConfig_def)
qed

text \<open>A negative size passes the check of the constructor and lets the pruned text exceed the threshold.\<close>

lemma negative_head_enlarges:
  "NewFilter (DefaultFilterConfig\<lparr>PruneThresholdChars := 10, PruneHeadChars := -100, PruneTailChars := 20\<rparr>) \<noteq> None"
  by (simp add: NewFilter_def DefaultFilterConfig_def unless_zero_def marker_ascii(2) Let_def)

section \<open>Spilling never enlarges\<close>

lemma back_to_start_le: "back_to_start s n \<le> n"
  by (induction n) (simp_all add: le_SucI)

lemma headBytes_prefix: "prefix (headBytes s n) s \<and> int (length (headBytes s n)) \<le> max 0 n"
  using back_to_start_le [of s "nat n"] by (auto simp: headBytes_def take_is_prefix)

lemma tailBytes_suffix: "suffix (tailBytes s n) s \<and> int (length (tailBytes s n)) \<le> max 0 n"
proof (cases "n \<le> 0 \<or> int (length s) \<le> n")
  case False
  let ?d = "drop (length s - nat n) s"
  have "suffix (dropWhile (\<lambda>c. \<not> RuneStart c) ?d) s"
    using suffix_dropWhile suffix_drop suffix_order.trans by blast
  moreover have "length (dropWhile (\<lambda>c. \<not> RuneStart c) ?d) \<le> length ?d" by (rule length_dropWhile_le)
  ultimately show ?thesis using False unfolding tailBytes_def by (simp del: length_dropWhile_le) linarith
qed (auto simp: tailBytes_def)

lemma spill_preview_cases:
  "spill_preview cfg owner s answer = s \<or>
   (\<exists>r a b. answer = Inr r \<and> owner \<noteq> [] \<and> spill_preview cfg owner s answer = a @ spill_mid @ b @ spill_notice r \<and>
      prefix a s \<and> suffix b s \<and> int (length (spill_preview cfg owner s answer)) \<le> MaxInlineBytes cfg)"
proof (cases answer)
  case (Inr r)
  let ?b = "MaxInlineBytes cfg - int (length (spill_notice r)) - int (length spill_mid)"
  show ?thesis
  proof (cases "owner = [] \<or> ?b < 256")
    case False
    let ?h = "headBytes s (?b div 2)" and ?t = "tailBytes s (?b - ?b div 2)"
    have "spill_preview cfg owner s answer = ?h @ spill_mid @ ?t @ spill_notice r"
      using False by (simp add: spill_preview_def Inr Let_def)
    moreover have "int (length ?h) + int (length ?t) \<le> ?b"
      using headBytes_prefix [of s "?b div 2"] tailBytes_suffix [of s "?b - ?b div 2"] False by linarith
    ultimately show ?thesis using False Inr headBytes_prefix tailBytes_suffix by fastforce
  qed (auto simp: spill_preview_def Inr Let_def)
qed (simp add: spill_preview_def)

section \<open>What a store promises\<close>

text \<open>
  Under owners and locators it accepts a store gives back what was saved and
  keeps the texts of the other owners.
\<close>

locale spill_store =
  fixes save :: "string \<Rightarrow> string \<Rightarrow> string \<Rightarrow> 'st \<Rightarrow> (spill_error + spill_ref) \<times> 'st"
    and retrieve :: "string \<Rightarrow> string \<Rightarrow> 'st \<Rightarrow> spill_error + string"
    and good_owner good_loc :: "string \<Rightarrow> bool"
    and good :: "'st \<Rightarrow> bool"
  assumes saved: "good st \<Longrightarrow> good_owner owner \<Longrightarrow> good_loc loc \<Longrightarrow> save loc owner t st = (Inr r, st') \<Longrightarrow>
      good st' \<and> retrieve owner (ref_Locator r) st' = Inr t"
    and others_kept: "good st \<Longrightarrow> good_owner owner \<Longrightarrow> good_owner other \<Longrightarrow> other \<noteq> owner \<Longrightarrow> good_loc loc \<Longrightarrow>
      retrieve other l (snd (save loc owner t st)) = retrieve other l st"
begin

lemma full_text_kept:
  assumes "good st" "good_owner owner" "good_loc loc"
    and "spill_result (save loc) cfg owner toolName s st = (shown, st')" and "shown \<noteq> s"
  shows "\<exists>r a b. shown = a @ spill_mid @ b @ spill_notice r \<and> prefix a s \<and> suffix b s \<and>
    int (length shown) \<le> MaxInlineBytes cfg \<and> retrieve owner (ref_Locator r) st' = Inr s \<and>
    (\<forall>other l. good_owner other \<longrightarrow> other \<noteq> owner \<longrightarrow> retrieve other l st' = retrieve other l st)"
proof -
  obtain answer where ans: "save loc owner s st = (answer, st')" and shown: "shown = spill_preview cfg owner s answer"
    using assms(4,5) by (auto simp: spill_result_def split: if_splits prod.splits)
  from spill_preview_cases [of cfg owner s answer] assms(5) obtain r a b where r: "answer = Inr r"
    and parts: "shown = a @ spill_mid @ b @ spill_notice r" "prefix a s" "suffix b s" "int (length shown) \<le> MaxInlineBytes cfg"
    unfolding shown by blast
  have "retrieve owner (ref_Locator r) st' = Inr s" using saved assms(1-3) ans r by blast
  moreover have "retrieve other l st' = retrieve other l st" if "good_owner other" "other \<noteq> owner" for other l
    using others_kept [OF assms(1,2) that assms(3), of l s] ans by simp
  ultimately show ?thesis using parts by blast
qed

end

definition no_nul :: "string \<Rightarrow> bool" where
  "no_nul s \<longleftrightarrow> CHR 0x00 \<notin> set s"

lemma owner_key_inj: "no_nul o1 \<Longrightarrow> no_nul o2 \<Longrightarrow> owner_key o1 l1 = owner_key o2 l2 \<Longrightarrow> o1 = o2 \<and> l1 = l2"
proof (induction o1 arbitrary: o2)
  case Nil
  then show ?case by (cases o2) (auto simp: owner_key_def no_nul_def)
next
  case (Cons c o1)
  then show ?case by (cases o2) (auto simp: owner_key_def no_nul_def)
qed

interpretation memory_spill: spill_store memory_SaveText memory_Retrieve no_nul "\<lambda>_. True" "\<lambda>_. True"
proof unfold_locales
  fix items :: memory_spills and owner other loc l t
  assume "no_nul owner" "no_nul other" "other \<noteq> owner"
  then have "owner_key other l \<noteq> owner_key owner loc" using owner_key_inj by blast
  then show "memory_Retrieve other l (snd (memory_SaveText loc owner t items)) = memory_Retrieve other l items"
    by (simp add: memory_SaveText_def memory_Retrieve_def)
qed (auto simp: memory_SaveText_def memory_Retrieve_def)

section \<open>Files stay below the directory\<close>

lemma split_on_plain: "\<forall>c \<in> set w. \<not> p c \<Longrightarrow> split_on p w = [w]"
  by (induction w) auto

lemma split_on_sep: "\<forall>c \<in> set w. \<not> p c \<Longrightarrow> p c \<Longrightarrow> split_on p (w @ c # rest) = w # split_on p rest"
  by (induction w) auto

lemma split_on_pieces: "\<forall>w \<in> set (split_on p s). \<forall>c \<in> set w. \<not> p c"
proof (induction s)
  case (Cons a s)
  then show ?case by (cases "split_on p s") simp_all
qed simp

definition plain_segment :: "string \<Rightarrow> bool" where
  "plain_segment seg \<longleftrightarrow> seg \<noteq> [] \<and> seg \<noteq> ''.'' \<and> seg \<noteq> ''..''  \<and> CHR ''/'' \<notin> set seg"

definition clean_path :: "string list \<Rightarrow> bool" where
  "clean_path = list_all plain_segment"

lemma walk_plain: "clean_path segs \<Longrightarrow> walk at0 segs = at0 @ segs"
  by (induction segs arbitrary: at0) (simp_all add: clean_path_def plain_segment_def)

lemma clean_rel_plain: "clean_path segs \<Longrightarrow> clean_rel at0 segs = at0 @ segs"
  by (induction segs arbitrary: at0) (simp_all add: clean_path_def plain_segment_def)

lemma clean_path_walk: "clean_path at0 \<Longrightarrow> \<forall>w \<in> set segs. CHR ''/'' \<notin> set w \<Longrightarrow> clean_path (walk at0 segs)"
proof (induction segs arbitrary: at0)
  case (Cons w segs)
  have "clean_path (butlast at0)" using Cons.prems(1) by (auto simp: clean_path_def list_all_iff dest: in_set_butlastD)
  moreover have "clean_path (at0 @ [w])" if "w \<noteq> []" "w \<noteq> ''.''" "w \<noteq> ''..''"
    using Cons.prems that by (simp add: clean_path_def plain_segment_def)
  ultimately show ?case using Cons by simp
qed simp

lemma clean_path_segments: "clean_path at0 \<Longrightarrow> clean_path (walk at0 (path_segments s))"
  using split_on_pieces [of "\<lambda>c. c = CHR ''/''" s] by (intro clean_path_walk) (auto simp: path_segments_def)

declare walk.simps [simp del] clean_rel.simps [simp del]

lemma common_append [simp]: "common base (base @ xs) = length base"
  by (induction base) (cases xs, simp_all)

lemma common_take: "take (common as bs) as = take (common as bs) bs"
  by (induction as bs rule: common.induct) simp_all

lemma common_le: "common as bs \<le> length as"
  by (induction as bs rule: common.induct) simp_all

lemma Rel_append [simp]: "Rel base (base @ xs) = xs"
  by (simp add: Rel_def)

lemma Rel_below:
  assumes "Rel base targ = o1 # rest" and "o1 \<noteq> ''..''"
  shows "targ = base @ o1 # rest"
proof -
  have "length base - common base targ = 0"
    using assms by (cases "length base - common base targ") (auto simp: Rel_def)
  then have "common base targ = length base" using common_le [of base targ] by simp
  then show ?thesis using assms(1) common_take [of base targ] append_take_drop_id [of "length base" targ]
    by (simp add: Rel_def)
qed

lemma join_no_slash:
  "CHR ''/'' \<notin> set (join_strings ''/'' segs) \<Longrightarrow> join_strings ''/'' segs \<noteq> [] \<Longrightarrow> segs = [join_strings ''/'' segs]"
  by (induction "''/''" segs rule: join_strings.induct) simp_all

text \<open>Where a retrieval reads, if it reads at all: right below the directory of its owner.\<close>

lemma file_Retrieve_reads:
  assumes "clean_path (fs_dir s)" and "plain_segment owner"
  shows "(\<forall>d. file_Retrieve owner loc (s\<lparr>fs_disk := d\<rparr>) = Inl SpillNotFound) \<or>
    (\<exists>f. plain_segment f \<and> (\<forall>d. file_Retrieve owner loc (s\<lparr>fs_disk := d\<rparr>) =
       (case d (fs_dir s @ [owner, f]) of None \<Rightarrow> Inl SpillNotFound | Some t \<Rightarrow> Inr t)))"
proof -
  let ?targ = "walk (fs_dir s) (path_segments loc)"
  let ?rel = "Rel (fs_dir s) ?targ"
  show ?thesis
  proof (cases "?rel = [''..''] \<or> ?rel = [] \<or> join_strings ''/'' (butlast ?rel) \<noteq> owner")
    case True
    then show ?thesis by (auto simp: file_Retrieve_def Let_def)
  next
    case False
    then have "butlast ?rel = [owner]"
      using join_no_slash [of "butlast ?rel"] assms(2) by (simp add: plain_segment_def)
    then obtain f where rel: "?rel = [owner, f]" using False by (metis append_butlast_last_id append_Cons append_Nil)
    then have targ: "?targ = fs_dir s @ [owner, f]" using Rel_below assms(2) by (simp add: plain_segment_def)
    then have "clean_path [owner, f]" using clean_path_segments [OF assms(1), of loc] by (simp add: clean_path_def)
    then have "plain_segment f" and "walk (fs_dir s) ?rel = fs_dir s @ [owner, f]"
      unfolding rel by (simp_all add: walk_plain clean_path_def)
    then show ?thesis
      using False rel assms(2) by (intro disjI2 exI [of _ f]) (simp add: file_Retrieve_def Let_def plain_segment_def)
  qed
qed

definition file_owner :: "string \<Rightarrow> bool" where
  "file_owner owner \<longleftrightarrow> validateOwner owner = None \<and> plain_segment owner"

definition file_locator :: "string \<Rightarrow> bool" where
  "file_locator loc \<longleftrightarrow> CHR ''/'' \<notin> set loc"

definition file_store_ok :: "file_store \<Rightarrow> bool" where
  "file_store_ok s \<longleftrightarrow> clean_path (fs_dir s)"

lemma file_name_plain: "file_locator loc \<Longrightarrow> plain_segment (file_name loc)"
  by (auto simp: file_locator_def file_name_def plain_segment_def append_eq_Cons_conv)

lemma file_save_path:
  assumes "file_owner owner" and "file_locator loc"
  shows "file_SaveText True True loc owner t s =
    (Inr \<lparr>ref_Locator = owner @ ''/'' @ file_name loc, ref_Bytes = length t,
          ref_Hint = ''file:/'' @ join_strings ''/'' (fs_dir s @ [owner, file_name loc])\<rparr>,
     s\<lparr>fs_disk := (fs_disk s)(fs_dir s @ [owner, file_name loc] \<mapsto> t)\<rparr>)"
proof -
  have c: "clean_path [owner, file_name loc]"
    using assms file_name_plain by (simp add: clean_path_def file_owner_def)
  have v: "validateOwner owner = None" using assms(1) by (simp add: file_owner_def)
  show ?thesis
    unfolding file_SaveText_def v option.case Let_def clean_rel_plain [OF c] walk_plain [OF c] append_Nil by simp
qed

lemma file_save_fails: "\<not> (mk \<and> wr) \<Longrightarrow> \<exists>e. file_SaveText mk wr loc owner t s = (Inl e, s)"
  by (auto simp: file_SaveText_def Let_def split: option.splits)

lemma file_retrieve_saved:
  assumes "clean_path (fs_dir s)" and "file_owner owner" and "file_locator loc"
  shows "file_Retrieve owner (owner @ ''/'' @ file_name loc) (s\<lparr>fs_disk := (fs_disk s)(fs_dir s @ [owner, file_name loc] \<mapsto> t)\<rparr>) = Inr t"
proof -
  have plain: "plain_segment owner" "plain_segment (file_name loc)"
    using assms file_name_plain by (simp_all add: file_owner_def)
  have one: "\<forall>c \<in> set owner. \<not> c = CHR ''/''" "\<forall>c \<in> set (file_name loc). \<not> c = CHR ''/''"
    using plain by (auto simp: plain_segment_def)
  have "path_segments (owner @ ''/'' @ file_name loc) = [owner, file_name loc]"
    using split_on_sep [OF one(1), of "CHR ''/''" "file_name loc"] split_on_plain [OF one(2)] by (simp add: path_segments_def)
  moreover have "walk (fs_dir s) [owner, file_name loc] = fs_dir s @ [owner, file_name loc]"
    using plain by (intro walk_plain) (simp add: clean_path_def)
  ultimately show ?thesis using plain by (simp add: file_Retrieve_def Let_def plain_segment_def)
qed

interpretation file_spill: spill_store "file_SaveText mk wr" file_Retrieve file_owner file_locator file_store_ok
  for mk wr
proof unfold_locales
  fix s s' :: file_store and owner loc t :: string and r
  assume ok: "file_store_ok s" "file_owner owner" "file_locator loc" and save: "file_SaveText mk wr loc owner t s = (Inr r, s')"
  have "mk \<and> wr" using file_save_fails [of mk wr loc owner t s] save by auto
  then show "file_store_ok s' \<and> file_Retrieve owner (ref_Locator r) s' = Inr t"
    using save file_save_path [OF ok(2,3)] file_retrieve_saved [OF _ ok(2,3)] ok(1) by (auto simp: file_store_ok_def)
next
  fix s :: file_store and owner other loc l t :: string
  assume ok: "file_store_ok s" "file_owner owner" "file_owner other" "other \<noteq> owner" "file_locator loc"
  show "file_Retrieve other l (snd (file_SaveText mk wr loc owner t s)) = file_Retrieve other l s"
  proof (cases "mk \<and> wr")
    case True
    have keep: "s = s\<lparr>fs_disk := fs_disk s\<rparr>" by simp
    have "plain_segment other" and "clean_path (fs_dir s)" using ok by (simp_all add: file_owner_def file_store_ok_def)
    have other: "file_Retrieve other l (s\<lparr>fs_disk := d\<rparr>) = file_Retrieve other l s"
      if "\<And>f. d (fs_dir s @ [other, f]) = fs_disk s (fs_dir s @ [other, f])" for d
      using file_Retrieve_reads [OF \<open>clean_path (fs_dir s)\<close> \<open>plain_segment other\<close>, of l]
    proof (elim disjE exE conjE)
      assume "\<forall>d. file_Retrieve other l (s\<lparr>fs_disk := d\<rparr>) = Inl SpillNotFound"
      then show ?thesis using keep by metis
    next
      fix f assume "\<forall>d. file_Retrieve other l (s\<lparr>fs_disk := d\<rparr>) =
        (case d (fs_dir s @ [other, f]) of None \<Rightarrow> Inl SpillNotFound | Some t \<Rightarrow> Inr t)"
      from this [rule_format, of d] this [rule_format, of "fs_disk s"] show ?thesis using that [of f] keep by simp
    qed
    have "snd (file_SaveText mk wr loc owner t s) = s\<lparr>fs_disk := (fs_disk s)(fs_dir s @ [owner, file_name loc] \<mapsto> t)\<rparr>"
      using True file_save_path [OF ok(2,5), of t s] by simp
    then show ?thesis using other ok(4) by simp
  qed (use file_save_fails [of mk wr loc owner t s] in auto)
qed

text \<open>
  C37. Take a file store in a clean directory, a session owner that is one plain path segment (not empty, not \<open>.\<close> or
  \<open>..\<close>, without a separator) and a locator the store draws.  A result that is shown shortened fits the inline limit,
  consists of a head and a tail of the original around the notice, and the
  locator in the notice retrieves the whole original for its owner; what other such
  owners retrieve is unchanged.  A result whose full text could not be saved is not shortened.

  Plain owners are the ones \<open>SaveText\<close> is documented to accept; for \<open>.\<close> and \<open>..\<close>, which it lets through,
  this fails (\<open>dot_is_lost\<close>, \<open>dotdot_escapes\<close>).
\<close>

theorem spill_keeps_full_text:
  assumes "file_store_ok s" and "file_owner owner" and "file_locator loc"
    and "spill_result (file_SaveText mk wr loc) cfg owner toolName result s = (shown, s')" and "shown \<noteq> result"
  shows "\<exists>r a b. shown = a @ spill_mid @ b @ spill_notice r \<and> prefix a result \<and> suffix b result \<and>
    int (length shown) \<le> MaxInlineBytes cfg \<and> file_Retrieve owner (ref_Locator r) s' = Inr result \<and>
    (\<forall>other l. file_owner other \<longrightarrow> other \<noteq> owner \<longrightarrow> file_Retrieve other l s' = file_Retrieve other l s)"
  by (rule file_spill.full_text_kept [OF assms])

definition spill_cfg :: filter_config where
  "spill_cfg = DefaultFilterConfig\<lparr>HasStore := True, MaxInlineBytes := 400\<rparr>"

definition tmp_store :: file_store where
  "tmp_store = \<lparr>fs_dir = [''tmp''], fs_disk = Map.empty\<rparr>"

lemma tmp_spill:
  "file_owner ''s''" "file_store_ok tmp_store" "file_locator ''a''"
  "fst (spill_result (file_SaveText True True ''a'') spill_cfg ''s'' ''grep'' (replicate 401 (CHR ''x'')) tmp_store) \<noteq> replicate 401 (CHR ''x'')"
proof -
  show o: "file_owner ''s''" by (simp add: file_owner_def validateOwner_def plain_segment_def)
  show "file_store_ok tmp_store" by (simp add: file_store_ok_def tmp_store_def clean_path_def plain_segment_def)
  show l: "file_locator ''a''" by (simp add: file_locator_def)
  define x where "x = replicate 401 (CHR ''x'')"
  have len: "length x = 401" and chars: "CHR ''['' \<notin> set x" by (simp_all add: x_def)
  obtain r st where save: "file_SaveText True True ''a'' ''s'' x tmp_store = (Inr r, st)" and r: "length (spill_notice r) \<le> 100"
    unfolding file_save_path [OF o l] len
    by (simp add: spill_notice_def tmp_store_def file_name_def decimal.simps [of 401] decimal.simps [of 40] decimal.simps [of 4])
  have cfg: "HasStore spill_cfg" "MaxInlineBytes spill_cfg = 400" "SkipTools spill_cfg = [''read'']"
    by (simp_all add: spill_cfg_def DefaultFilterConfig_def)
  have "fst (spill_result (file_SaveText True True ''a'') spill_cfg ''s'' ''grep'' x tmp_store) = spill_preview spill_cfg ''s'' x (Inr r)"
    by (simp add: spill_result_def save cfg len)
  moreover have "CHR ''['' \<in> set (spill_preview spill_cfg ''s'' x (Inr r))"
    using r by (simp add: spill_preview_def Let_def cfg spill_mid_def)
  ultimately show "fst (spill_result (file_SaveText True True ''a'') spill_cfg ''s'' ''grep'' (replicate 401 (CHR ''x'')) tmp_store) \<noteq> replicate 401 (CHR ''x'')"
    using chars unfolding x_def [symmetric] by metis
qed

theorem spill_keeps_full_text_witness:
  "let text = replicate 401 (CHR ''x''); (shown, s) = spill_result (file_SaveText True True ''a'') spill_cfg ''s'' ''grep'' text tmp_store
   in \<exists>r a b. shown \<noteq> text \<and> shown = a @ spill_mid @ b @ spill_notice r \<and> length shown \<le> 400 \<and> file_Retrieve ''s'' (ref_Locator r) s = Inr text"
proof -
  have "MaxInlineBytes spill_cfg = 400" by (simp add: spill_cfg_def)
  then show ?thesis
    using spill_keeps_full_text [OF tmp_spill(2,1,3) surjective_pairing tmp_spill(4)] tmp_spill(4)
    by (simp add: Let_def split_beta) blast
qed

text \<open>
  Whatever the locator says, a retrieval for an owner that is one plain
  path segment reads a file right inside the directory of that owner, or finds
  nothing.
\<close>

theorem retrieve_stays_below:
  assumes "clean_path (fs_dir s)" and "plain_segment owner" and "file_Retrieve owner loc s = Inr t"
  shows "\<exists>f. plain_segment f \<and> fs_disk s (fs_dir s @ [owner, f]) = Some t"
proof -
  have keep: "s = s\<lparr>fs_disk := fs_disk s\<rparr>" by simp
  from file_Retrieve_reads [OF assms(1,2), of loc] show ?thesis
  proof (elim disjE exE conjE)
    assume "\<forall>d. file_Retrieve owner loc (s\<lparr>fs_disk := d\<rparr>) = Inl SpillNotFound"
    then show ?thesis using assms(3) keep by (metis sum.distinct(1))
  next
    fix f assume f: "plain_segment f" and eq: "\<forall>d. file_Retrieve owner loc (s\<lparr>fs_disk := d\<rparr>) =
      (case d (fs_dir s @ [owner, f]) of None \<Rightarrow> Inl SpillNotFound | Some t \<Rightarrow> Inr t)"
    from eq [rule_format, of "fs_disk s"] show ?thesis using assms(3) f keep by (auto split: option.splits)
  qed
qed

theorem retrieve_stays_below_witness:
  "\<exists>f. plain_segment f \<and> (tmp_store\<lparr>fs_disk := [[''tmp'', ''s'', ''a.txt''] \<mapsto> ''x'']\<rparr>) \<noteq> tmp_store \<and>
     fs_disk (tmp_store\<lparr>fs_disk := [[''tmp'', ''s'', ''a.txt''] \<mapsto> ''x'']\<rparr>) ([''tmp''] @ [''s'', f]) = Some ''x''"
proof -
  let ?s = "tmp_store\<lparr>fs_disk := [[''tmp'', ''s'', ''a.txt''] \<mapsto> ''x'']\<rparr>"
  have "file_Retrieve ''s'' ''s/a.txt'' ?s = Inr ''x''"
    using file_retrieve_saved [of tmp_store "''s''" "''a''" "''x''"] tmp_spill(1-3)
    by (simp add: tmp_store_def file_name_def file_store_ok_def)
  from retrieve_stays_below [OF _ _ this] show ?thesis
    by (simp add: tmp_store_def clean_path_def plain_segment_def)
qed

text \<open>
  The check for dots splits at the dots, so no piece is ever two of them: the
  owner \<open>..\<close> is accepted and its text is written beside the store's directory.
\<close>

lemma dotdot_escapes:
  assumes "CHR ''/'' \<notin> set loc" and "clean_path (fs_dir s)"
  shows "validateOwner ''..'' = None" and
    "fs_disk (snd (file_SaveText True True loc ''..'' t s)) (butlast (fs_dir s) @ [file_name loc]) = Some t"
proof -
  show v: "validateOwner ''..'' = None" by (simp add: validateOwner_def)
  have f: "plain_segment (file_name loc)" using assms(1) file_name_plain by (simp add: file_locator_def)
  then have "clean_rel [] [''..'', file_name loc] = [''..'', file_name loc]"
    "walk (fs_dir s) [''..'', file_name loc] = butlast (fs_dir s) @ [file_name loc]"
    by (simp_all add: clean_rel.simps walk.simps plain_segment_def)
  then show "fs_disk (snd (file_SaveText True True loc ''..'' t s)) (butlast (fs_dir s) @ [file_name loc]) = Some t"
    by (simp add: file_SaveText_def v Let_def)
qed

text \<open>The owner \<open>.\<close> is accepted too, and what it saves is never found again.\<close>

lemma dot_is_lost:
  assumes "CHR ''/'' \<notin> set loc" and "clean_path (fs_dir s)"
  shows "\<exists>r s'. file_SaveText True True loc ''.'' t s = (Inr r, s') \<and> file_Retrieve ''.'' (ref_Locator r) s' = Inl SpillNotFound"
proof -
  have f: "plain_segment (file_name loc)" using assms(1) file_name_plain by (simp add: file_locator_def)
  have v: "validateOwner ''.'' = None" by (simp add: validateOwner_def)
  have r: "clean_rel [] [''.'', file_name loc] = [file_name loc]" and w: "walk (fs_dir s) [file_name loc] = fs_dir s @ [file_name loc]"
    using f by (simp_all add: clean_rel.simps walk.simps plain_segment_def)
  have "path_segments (file_name loc) = [file_name loc]"
    using f by (auto simp: path_segments_def plain_segment_def intro!: split_on_plain)
  then show ?thesis
    by (simp add: file_SaveText_def v Let_def r w file_Retrieve_def)
qed

end
