(* ===== verification/GoJson.thy ===== *)
theory GoJson
  imports GoStrings "HOL-Library.List_Lexorder" "HOL-Library.Char_ord" "HOL-Library.Multiset"
begin

text \<open>
  Decoded JSON values.  An object lists its members in the order a map happens to
  be iterated, numbers are rationals, and \<open>canonical\<close> sorts the members at every
  depth: two values that are one value up to the order of members have one
  normal form, which is what comparing marshalled values compares.
\<close>

datatype json = JNull | JBool bool | JNumber rat | JString string | JArray "json list" | JObject "(string \<times> json) list"

fun canonical :: "json \<Rightarrow> json" where
  "canonical (JObject kvs) = JObject (sort_key fst (map (\<lambda>(k, v). (k, canonical v)) kvs))"
| "canonical (JArray vs) = JArray (map canonical vs)"
| "canonical v = v"

section \<open>Equal values have one normal form\<close>

text \<open>The same value with its members in another order, at every depth.\<close>

inductive same_value :: "json \<Rightarrow> json \<Rightarrow> bool" where
  same: "same_value v v"
| arr: "list_all2 same_value vs ws \<Longrightarrow> same_value (JArray vs) (JArray ws)"
| obj: "distinct (map fst ls) \<Longrightarrow> mset kvs = mset ks \<Longrightarrow>
    list_all2 (\<lambda>p q. fst p = fst q \<and> same_value (snd p) (snd q)) ks ls \<Longrightarrow> same_value (JObject kvs) (JObject ls)"

lemma member_canonical: "map fst (map (\<lambda>(k, v). (k, canonical v)) kvs) = map fst kvs"
  by (induction kvs) auto

theorem same_value_same_form: "same_value v w \<Longrightarrow> canonical v = canonical w"
proof (induction rule: same_value.induct)
  case (arr vs ws)
  then have "map canonical vs = map canonical ws" by (induction rule: list_all2_induct) auto
  then show ?case by simp
next
  case (obj ls kvs ks)
  let ?c = "map (\<lambda>(k, v). (k, canonical v))"
  have keys: "map fst ks = map fst ls" using obj(3) by (induction rule: list_all2_induct) auto
  have members: "?c ks = ?c ls" using obj(3) by (induction rule: list_all2_induct) auto
  have "mset (?c kvs) = mset (?c ks)" using obj(2) by simp
  moreover have "inj_on fst (set (?c ks))"
    using obj(1) keys by (metis distinct_map member_canonical)
  ultimately have "sort_key fst (?c ks) = sort_key fst (?c kvs)"
    by (intro sort_key_inj_key_eq) (simp_all only: mset_sort sorted_sort_key)
  then show ?case using members by simp
qed simp

lemma canonical_idem: "canonical (canonical v) = canonical v"
proof (induction v rule: canonical.induct)
  case (1 kvs)
  let ?s = "sort_key fst (map (\<lambda>(k, v). (k, canonical v)) kvs)"
  have "map (\<lambda>(k, v). (k, canonical v)) ?s = ?s"
    using 1 by (intro map_idI) force
  then show ?case by (simp add: sort_key_id_if_sorted)
qed simp_all

end
