(* ===== verification/RepeatTool.thy ===== *)
theory RepeatTool
  imports Messages GoJson
begin

text \<open>
  The guard against repeated tool calls (\<open>module/repeattool\<close>): the chain of
  equal calls of every agent, the reminders at the thresholds, their rendering
  and their injection.  A JSON value is a tree whose objects list their members
  in the order the map happens to be iterated; the codec is a parameter.
\<close>

section \<open>Normal forms of arguments\<close>

definition normalizeArgs :: "(string \<Rightarrow> json option) \<Rightarrow> (json \<Rightarrow> string option) \<Rightarrow> string \<Rightarrow> string" where
  "normalizeArgs unmarshal marshal args =
    (case unmarshal args of
       None \<Rightarrow> args
     | Some v \<Rightarrow> (case marshal (canonical v) of None \<Rightarrow> args | Some b \<Rightarrow> b))"

section \<open>Chains\<close>

record call_chain =
  ch_key :: string
  ch_name :: string
  ch_args :: string
  ch_count :: int
  ch_reminded :: int

record repeat_module =
  rp_chains :: "string \<rightharpoonup> call_chain"
  rp_thresholds :: "int list"
  rp_previewLen :: int
  rp_pending :: "string \<rightharpoonup> string"

definition NewRepeat :: repeat_module where
  "NewRepeat = \<lparr>rp_chains = Map.empty, rp_thresholds = [3, 5, 8], rp_previewLen = 200, rp_pending = Map.empty\<rparr>"

definition WithThresholds :: "int list \<Rightarrow> repeat_module \<Rightarrow> repeat_module" where
  "WithThresholds ths m = m\<lparr>rp_thresholds := ths\<rparr>"

definition WithArgumentsPreviewLen :: "int \<Rightarrow> repeat_module \<Rightarrow> repeat_module" where
  "WithArgumentsPreviewLen n m = m\<lparr>rp_previewLen := n\<rparr>"

definition truncate_args :: "string \<Rightarrow> int \<Rightarrow> string" where
  "truncate_args s n =
    (if n \<le> 0 \<or> int (length s) \<le> n \<or> int (rune_count s) \<le> n then s
     else string_of_runes (take (nat n) (runes s)) @ encode_rune 0x2026)"

text \<open>The verb \<open>%q\<close> on the name of a tool is the parameter \<open>quote\<close>.\<close>

definition render :: "(string \<Rightarrow> string) \<Rightarrow> int \<Rightarrow> call_chain \<Rightarrow> int \<Rightarrow> string" where
  "render quote previewLen c threshold =
    (let preview = truncate_args (ch_args c) previewLen
     in ''Note: tool '' @ quote (ch_name c) @ '' has been called '' @ decimal (nat threshold) @ '' times in a row with the same arguments''
        @ (if preview \<noteq> [] then '' ('' @ preview @ '')'' else [])
        @ ''. Check whether the previous result actually failed or whether a different approach is needed before calling it again.'')"

definition call_key :: "(string \<Rightarrow> string) \<Rightarrow> string \<Rightarrow> string \<Rightarrow> string" where
  "call_key nf name args = name @ [CHR 0x00] @ nf args"

definition fresh_chain :: "string \<Rightarrow> string \<Rightarrow> string \<Rightarrow> int \<Rightarrow> call_chain" where
  "fresh_chain key name args n = \<lparr>ch_key = key, ch_name = name, ch_args = args, ch_count = n, ch_reminded = 0\<rparr>"

definition observe ::
  "(string \<Rightarrow> string) \<Rightarrow> (string \<Rightarrow> string) \<Rightarrow> string \<Rightarrow> string \<Rightarrow> string \<Rightarrow> repeat_module \<Rightarrow> string \<times> repeat_module" where
  "observe nf quote agent name args m =
    (let key = call_key nf name args;
         c = (case rp_chains m agent of None \<Rightarrow> fresh_chain key name args 0 | Some c \<Rightarrow> c)
     in if ch_key c \<noteq> key then ([], m\<lparr>rp_chains := (rp_chains m)(agent \<mapsto> fresh_chain key name args 1)\<rparr>)
        else let c1 = c\<lparr>ch_count := ch_count c + 1\<rparr>
             in case find (\<lambda>th. ch_count c1 = th) (rp_thresholds m) of
                  None \<Rightarrow> ([], m\<lparr>rp_chains := (rp_chains m)(agent \<mapsto> c1)\<rparr>)
                | Some th \<Rightarrow>
                    let c2 = c1\<lparr>ch_reminded := th\<rparr>
                    in (render quote (rp_previewLen m) c2 th, m\<lparr>rp_chains := (rp_chains m)(agent \<mapsto> c2)\<rparr>))"

section \<open>The hooks\<close>

definition repeat_OnToolResult ::
  "(string \<Rightarrow> string) \<Rightarrow> (string \<Rightarrow> string) \<Rightarrow> string \<Rightarrow> (string \<times> string) option \<Rightarrow> repeat_module \<Rightarrow> repeat_module" where
  "repeat_OnToolResult nf quote agent info m =
    (case info of
       None \<Rightarrow> m
     | Some (name, args) \<Rightarrow>
        if name = [] then m
        else case observe nf quote agent name args m of
               (reminder, m1) \<Rightarrow> if reminder \<noteq> [] then m1\<lparr>rp_pending := (rp_pending m1)(agent \<mapsto> reminder)\<rparr> else m1)"

definition repeat_OnMessagesBuilt :: "string \<Rightarrow> messages \<Rightarrow> repeat_module \<Rightarrow> messages \<times> repeat_module" where
  "repeat_OnMessagesBuilt agent msgs m =
    (case rp_pending m agent of
       None \<Rightarrow> (msgs, m)
     | Some reminder \<Rightarrow>
         (msgs @ [Some (NewSystemMessage reminder)], m\<lparr>rp_pending := (rp_pending m)(agent := None)\<rparr>))"

text \<open>Two argument texts that parse to the same value up to the order of members are one call.\<close>

lemma same_arguments:
  "unmarshal a = Some v \<Longrightarrow> unmarshal b = Some w \<Longrightarrow> same_value v w \<Longrightarrow> marshal (canonical v) = Some t \<Longrightarrow>
   normalizeArgs unmarshal marshal a = normalizeArgs unmarshal marshal b"
  using same_value_same_form [of v w] by (simp add: normalizeArgs_def)

section \<open>Reminders come exactly at the thresholds\<close>

type_synonym tool_use = "string \<times> string \<times> string"  \<comment> \<open>agent, tool, arguments\<close>

definition observe_all :: "(string \<Rightarrow> string) \<Rightarrow> (string \<Rightarrow> string) \<Rightarrow> tool_use list \<Rightarrow> repeat_module \<Rightarrow> repeat_module" where
  "observe_all nf quote cs m = fold (\<lambda>(agent, name, args) m. snd (observe nf quote agent name args m)) cs m"

definition uses_of :: "string \<Rightarrow> tool_use list \<Rightarrow> (string \<times> string) list" where
  "uses_of agent cs = map snd (filter (\<lambda>c. fst c = agent) cs)"

text \<open>The trailing run of calls with the key of the last one.\<close>

definition streak :: "(string \<Rightarrow> string) \<Rightarrow> (string \<times> string) list \<Rightarrow> (string \<times> string) list" where
  "streak nf us = (if us = [] then []
     else rev (takeWhile (\<lambda>u. call_key nf (fst u) (snd u) = call_key nf (fst (last us)) (snd (last us))) (rev us)))"

lemma streak_snoc:
  "streak nf (us @ [u]) =
    (if us \<noteq> [] \<and> call_key nf (fst (last us)) (snd (last us)) = call_key nf (fst u) (snd u) then streak nf us @ [u] else [u])"
  by (cases us rule: rev_cases) (auto simp: streak_def)

definition chain_ok :: "(string \<Rightarrow> string) \<Rightarrow> (string \<times> string) list \<Rightarrow> call_chain option \<Rightarrow> bool" where
  "chain_ok nf us co \<longleftrightarrow>
    (case co of
       None \<Rightarrow> us = []
     | Some c \<Rightarrow> us \<noteq> [] \<and> ch_key c = call_key nf (fst (last us)) (snd (last us)) \<and> ch_count c = int (length (streak nf us)) \<and>
         (ch_name c, ch_args c) = hd (streak nf us))"

lemma streak_not_Nil: "us \<noteq> [] \<Longrightarrow> streak nf us \<noteq> []"
  by (cases us rule: rev_cases) (auto simp: streak_snoc)

lemma observe_chain:
  assumes "chain_ok nf us (rp_chains m agent)"
  shows "chain_ok nf (us @ [(name, args)]) (rp_chains (snd (observe nf quote agent name args m)) agent)"
proof (cases "rp_chains m agent")
  case None
  then show ?thesis using assms
    by (auto simp: chain_ok_def observe_def Let_def fresh_chain_def streak_def split: option.splits)
next
  case (Some c)
  then show ?thesis using assms streak_not_Nil [of us nf]
    by (auto simp: chain_ok_def observe_def Let_def fresh_chain_def streak_snoc split: option.splits)
qed

lemma observe_other: "a \<noteq> agent \<Longrightarrow> rp_chains (snd (observe nf quote agent name args m)) a = rp_chains m a"
  by (auto simp: observe_def Let_def split: option.splits)

lemma observe_thresholds [simp]:
  "rp_thresholds (snd (observe nf quote agent name args m)) = rp_thresholds m"
  "rp_previewLen (snd (observe nf quote agent name args m)) = rp_previewLen m"
  by (auto simp: observe_def Let_def split: option.splits)

lemma observe_all_snoc:
  "observe_all nf quote (cs @ [(agent, name, args)]) m = snd (observe nf quote agent name args (observe_all nf quote cs m))"
  by (simp add: observe_all_def)

lemma uses_snoc: "uses_of a (cs @ [(agent, u)]) = (if a = agent then uses_of a cs @ [u] else uses_of a cs)"
  by (simp add: uses_of_def)

lemma observe_all_ok:
  assumes "rp_chains m = Map.empty"
  shows "chain_ok nf (uses_of a cs) (rp_chains (observe_all nf quote cs m) a) \<and>
    rp_thresholds (observe_all nf quote cs m) = rp_thresholds m \<and> rp_previewLen (observe_all nf quote cs m) = rp_previewLen m"
proof (induction cs rule: rev_induct)
  case Nil
  show ?case by (simp add: observe_all_def uses_of_def chain_ok_def assms)
next
  case (snoc c cs)
  obtain agent name args where c: "c = (agent, name, args)" by (cases c)
  show ?case
    using snoc observe_chain [of nf "uses_of a cs" "observe_all nf quote cs m" agent name args quote]
    by (cases "a = agent") (simp_all add: c observe_all_snoc uses_snoc observe_other)
qed

lemma render_not_Nil: "render quote n c th \<noteq> []"
  by (simp add: render_def Let_def)

text \<open>
  Whatever calls were observed before, a call is answered with a reminder
  exactly when the run of equal calls of its agent that it ends has a length
  that is a threshold; a run of one only counts as the agent's very first call.
  The reminder names the tool and the arguments of the first call of the run.
\<close>

theorem reminders_at_thresholds:
  assumes "rp_chains m0 = Map.empty"
    and "m = observe_all nf quote cs m0" and "us = uses_of agent cs @ [(name, args)]"
  shows "fst (observe nf quote agent name args m) =
    (if int (length (streak nf us)) \<in> set (rp_thresholds m0) \<and> (length (streak nf us) = 1 \<longrightarrow> length us = 1)
     then render quote (rp_previewLen m0)
            \<lparr>ch_key = call_key nf name args, ch_name = fst (hd (streak nf us)), ch_args = snd (hd (streak nf us)),
             ch_count = int (length (streak nf us)), ch_reminded = int (length (streak nf us))\<rparr> (int (length (streak nf us)))
     else [])"
proof -
  have ok: "chain_ok nf (uses_of agent cs) (rp_chains m agent)" and cfg: "rp_thresholds m = rp_thresholds m0" "rp_previewLen m = rp_previewLen m0"
    using observe_all_ok [OF assms(1), of nf agent cs quote] assms(2) by simp_all
  have fnd: "find (\<lambda>th. n = th) ths = (if n \<in> set ths then Some n else None)" for n :: int and ths
    by (induction ths) auto
  show ?thesis
  proof (cases "rp_chains m agent")
    case None
    then have "uses_of agent cs = []" using ok by (simp add: chain_ok_def)
    then show ?thesis using None unfolding assms(3)
      by (simp add: observe_def Let_def fresh_chain_def fnd cfg streak_def)
  next
    case (Some c)
    let ?us = "uses_of agent cs"
    have c: "?us \<noteq> []" "ch_key c = call_key nf (fst (last ?us)) (snd (last ?us))" "ch_count c = int (length (streak nf ?us))"
      "ch_name c = fst (hd (streak nf ?us))" "ch_args c = snd (hd (streak nf ?us))"
      using ok Some by (simp_all add: chain_ok_def) (metis fst_conv snd_conv)+
    have ne: "streak nf ?us \<noteq> []" using streak_not_Nil c(1) by blast
    show ?thesis
    proof (cases "ch_key c = call_key nf name args")
      case True
      then have "streak nf us = streak nf ?us @ [(name, args)]" using c(1,2) by (simp add: assms(3) streak_snoc)
      then have hd: "hd (streak nf us) = hd (streak nf ?us)" and n: "int (length (streak nf us)) = ch_count c + 1"
        and one: "length (streak nf us) \<noteq> 1"
        using c(3) ne by simp_all
      show ?thesis
        using True Some c(4,5) one unfolding n hd by (cases c) (simp add: observe_def Let_def fnd cfg)
    next
      case False
      then have "streak nf us = [(name, args)]" using c(1,2) by (simp add: assms(3) streak_snoc)
      then show ?thesis using False Some c(1) by (simp add: observe_def Let_def assms(3))
    qed
  qed
qed

theorem reminders_at_thresholds_witness:
  "fst (observe id id ''a'' ''t'' ''{}'' (observe_all id id [(''a'', ''t'', ''{}''), (''b'', ''u'', ''{}''), (''a'', ''t'', ''{}'')] NewRepeat)) \<noteq> []"
  using reminders_at_thresholds [OF _ refl refl, where ?m0.0 = NewRepeat and nf = id and quote = id and agent = "''a''" and name = "''t''"
      and args = "''{}''" and cs = "[(''a'', ''t'', ''{}''), (''b'', ''u'', ''{}''), (''a'', ''t'', ''{}'')]"] render_not_Nil
  by (simp add: NewRepeat_def uses_of_def streak_def)

text \<open>A threshold of one is met by the very first call of an agent and by no later first call of a run.\<close>

lemma threshold_one_skipped:
  "fst (observe id id ''a'' ''u'' ''{}'' (observe_all id id [(''a'', ''t'', ''{}'')] (WithThresholds [1] NewRepeat))) = [] \<and>
   fst (observe id id ''a'' ''t'' ''{}'' (WithThresholds [1] NewRepeat)) \<noteq> []"
  using render_not_Nil
  by (simp add: observe_all_def observe_def Let_def NewRepeat_def WithThresholds_def fresh_chain_def call_key_def)

text \<open>
  A reminder waits for the next list of messages of its agent, joins it once and
  leaves the messages and the other agents alone.
\<close>

lemma reminder_injected_once:
  "rp_pending m agent = Some r \<Longrightarrow> repeat_OnMessagesBuilt agent msgs m = (msgs', m') \<Longrightarrow>
   msgs' = msgs @ [Some (NewSystemMessage r)] \<and> repeat_OnMessagesBuilt agent msgs'' m' = (msgs'', m') \<and>
   (a \<noteq> agent \<longrightarrow> rp_pending m' a = rp_pending m a)"
  by (auto simp: repeat_OnMessagesBuilt_def)

lemma newest_reminder_wins:
  "rp_pending (repeat_OnToolResult nf quote agent (Some (name, args)) m) agent =
    (if name \<noteq> [] \<and> fst (observe nf quote agent name args m) \<noteq> []
     then Some (fst (observe nf quote agent name args m)) else rp_pending m agent)"
proof -
  have "rp_pending (snd (observe nf quote agent name args m)) = rp_pending m"
    by (auto simp: observe_def Let_def split: option.splits)
  then show ?thesis by (auto simp: repeat_OnToolResult_def split: prod.splits)
qed

end
