(* ===== verification/JsonRepair.thy ===== *)
theory JsonRepair
  imports GoStrings
begin

text \<open>
  Fault-tolerant JSON (\<open>jsonx/jsonx.go\<close>): the scanner of string states, the one
  pass that repairs a text, and the extraction of a value from prose.  A text is
  the list of its runes with what was read before it; the strict parser of the
  standard library is the parameter \<open>valid\<close> (does it parse) or \<open>decode\<close>.
\<close>

section \<open>Runes\<close>

abbreviation dquote :: nat where "dquote \<equiv> 0x22"
abbreviation squote :: nat where "squote \<equiv> 0x27"
abbreviation backslash :: nat where "backslash \<equiv> 0x5C"
abbreviation left_fw :: nat where "left_fw \<equiv> 0x201C"
abbreviation right_fw :: nat where "right_fw \<equiv> 0x201D"
abbreviation left_sq :: nat where "left_sq \<equiv> 0x2018"
abbreviation right_sq :: nat where "right_sq \<equiv> 0x2019"
abbreviation fw_colon :: nat where "fw_colon \<equiv> 0xFF1A"
abbreviation fw_comma :: nat where "fw_comma \<equiv> 0xFF0C"

definition isSpaceByte :: "nat \<Rightarrow> bool" where
  "isSpaceByte r \<longleftrightarrow> r = 32 \<or> r = 9 \<or> r = 10 \<or> r = 13"

definition isWord :: "nat \<Rightarrow> bool" where
  "isWord r \<longleftrightarrow> r = 0x5F \<or> r = 0x24 \<or> (0x61 \<le> r \<and> r \<le> 0x7A) \<or> (0x41 \<le> r \<and> r \<le> 0x5A) \<or> (0x30 \<le> r \<and> r \<le> 0x39)"

text \<open>Whether the first rune that is no space satisfies a predicate.\<close>

definition next_is :: "(nat \<Rightarrow> bool) \<Rightarrow> nat list \<Rightarrow> bool" where
  "next_is P rs = (case dropWhile isSpaceByte rs of [] \<Rightarrow> False | r # _ \<Rightarrow> P r)"

text \<open>\<open>before\<close> is what precedes, last rune first; \<open>after\<close> is what follows.\<close>

definition apostrophe :: "nat list \<Rightarrow> bool" where
  "apostrophe before = next_is isWord before"

definition sqCloses :: "nat list \<Rightarrow> bool" where
  "sqCloses after = (\<not> next_is isWord after)"

definition trailingComma :: "nat list \<Rightarrow> bool" where
  "trailingComma after = next_is (\<lambda>r. r = 0x7D \<or> r = 0x5D) after"

definition keyPosition :: "nat \<Rightarrow> bool" where
  "keyPosition prev \<longleftrightarrow> prev = 0x7B \<or> prev = 0x2C"

definition bareKeyColon :: "nat list \<Rightarrow> bool" where
  "bareKeyColon rs = next_is (\<lambda>r. r = 0x3A \<or> r = fw_colon) (dropWhile isWord rs)"

section \<open>The scanner\<close>

record scan =
  inDQ :: bool
  esc :: bool
  fw :: nat
  sq :: nat

definition scan0 :: scan where
  "scan0 = \<lparr>inDQ = False, esc = False, fw = 0, sq = 0\<rparr>"

definition inside :: "scan \<Rightarrow> bool" where
  "inside sc \<longleftrightarrow> inDQ sc \<or> fw sc > 0 \<or> sq sc > 0"

definition step :: "nat list \<Rightarrow> nat \<Rightarrow> nat list \<Rightarrow> scan \<Rightarrow> scan" where
  "step before r after sc =
    (if inDQ sc then
       if esc sc then sc\<lparr>esc := False\<rparr>
       else if r = backslash then sc\<lparr>esc := True\<rparr>
       else if r = dquote then sc\<lparr>inDQ := False\<rparr> else sc
     else if fw sc > 0 then
       if r = right_fw then sc\<lparr>fw := fw sc - 1\<rparr>
       else if r = left_fw then sc\<lparr>fw := fw sc + 1\<rparr> else sc
     else if sq sc > 0 then
       if r = squote \<and> \<not> sqCloses after then sc
       else if r = squote then sc\<lparr>sq := sq sc - 1\<rparr>
       else if r = right_sq then sc\<lparr>sq := sq sc - 1\<rparr>
       else if r = left_sq then sc\<lparr>sq := sq sc + 1\<rparr> else sc
     else
       if r = dquote then sc\<lparr>inDQ := True\<rparr>
       else if r = left_fw then sc\<lparr>fw := 1\<rparr>
       else if r = left_sq then sc\<lparr>sq := 1\<rparr>
       else if r = squote \<and> \<not> apostrophe before then sc\<lparr>sq := 1\<rparr> else sc)"

fun scan_starts :: "nat list \<Rightarrow> scan \<Rightarrow> nat \<Rightarrow> nat list \<Rightarrow> nat list" where
  "scan_starts before sc i [] = []"
| "scan_starts before sc i (r # after) =
     (let later = scan_starts (r # before) (step before r after sc) (Suc i) after
      in if \<not> inside sc \<and> (r = 0x7B \<or> r = 0x5B) then i # later else later)"

definition valueStarts :: "nat list \<Rightarrow> nat list" where
  "valueStarts rs = take 32 (scan_starts [] scan0 0 rs)"

text \<open>The end of the value that starts at the head of the text; the context before the start still counts.\<close>

fun scan_end :: "nat list \<Rightarrow> scan \<Rightarrow> int \<Rightarrow> nat \<Rightarrow> nat list \<Rightarrow> nat option" where
  "scan_end before sc depth i [] = None"
| "scan_end before sc depth i (r # after) =
     (if \<not> inside sc \<and> (r = 0x7D \<or> r = 0x5D) \<and> depth - 1 = 0 then Some i
      else scan_end (r # before) (step before r after sc)
             (if inside sc then depth
              else if r = 0x7B \<or> r = 0x5B then depth + 1
              else if r = 0x7D \<or> r = 0x5D then depth - 1 else depth)
             (Suc i) after)"

definition valueEnd :: "nat list \<Rightarrow> nat \<Rightarrow> nat option" where
  "valueEnd rs start = scan_end (rev (take start rs)) scan0 0 start (drop start rs)"

section \<open>The repair\<close>

definition hex_rune :: "nat \<Rightarrow> nat" where
  "hex_rune n = (if n < 10 then 0x30 + n else 0x57 + n)"

definition control_escape :: "nat \<Rightarrow> nat list" where
  "control_escape r = [backslash, 0x75, 0x30, 0x30, hex_rune (r div 16), hex_rune (r mod 16)]"

definition repairInDQ :: "scan \<Rightarrow> nat \<Rightarrow> nat list \<times> scan" where
  "repairInDQ sc r =
    (if esc sc then ([r], sc\<lparr>esc := False\<rparr>)
     else if r = backslash then ([r], sc\<lparr>esc := True\<rparr>)
     else if r = dquote then ([r], sc\<lparr>inDQ := False\<rparr>)
     else if r = 10 then ([backslash, 0x6E], sc)
     else if r = 13 then ([backslash, 0x72], sc)
     else if r = 9 then ([backslash, 0x74], sc)
     else if r < 0x20 then (control_escape r, sc)
     else ([r], sc))"

definition repairInFW :: "scan \<Rightarrow> nat \<Rightarrow> nat list \<times> scan" where
  "repairInFW sc r =
    (if r = right_fw then (if fw sc - 1 = 0 then [dquote] else [right_fw], sc\<lparr>fw := fw sc - 1\<rparr>)
     else if r = left_fw then ([left_fw], sc\<lparr>fw := fw sc + 1\<rparr>)
     else if r = 10 then ([backslash, 0x6E], sc)
     else if r = 13 then ([backslash, 0x72], sc)
     else if r = 9 then ([backslash, 0x74], sc)
     else ([r], sc))"

definition repairInSQ :: "scan \<Rightarrow> nat list \<Rightarrow> nat \<Rightarrow> nat list \<times> scan" where
  "repairInSQ sc after r =
    (if r = squote \<and> \<not> sqCloses after then ([squote], sc)
     else if r = squote then ([dquote], sc\<lparr>sq := sq sc - 1\<rparr>)
     else if r = right_sq then (if sq sc - 1 = 0 then [dquote] else [right_sq], sc\<lparr>sq := sq sc - 1\<rparr>)
     else if r = left_sq then ([left_sq], sc\<lparr>sq := sq sc + 1\<rparr>)
     else if r = 10 then ([backslash, 0x6E], sc)
     else if r = 13 then ([backslash, 0x72], sc)
     else if r = 9 then ([backslash, 0x74], sc)
     else ([r], sc))"

text \<open>A rune at a structural position that starts no bare key.\<close>

definition repairStruct :: "nat list \<Rightarrow> scan \<Rightarrow> nat \<Rightarrow> nat list \<Rightarrow> nat list \<times> scan" where
  "repairStruct before sc r after =
    (if r = dquote then ([r], sc\<lparr>inDQ := True\<rparr>)
     else if r = left_fw then ([dquote], sc\<lparr>fw := 1\<rparr>)
     else if r = left_sq then ([dquote], sc\<lparr>sq := 1\<rparr>)
     else if r = right_fw \<or> r = right_sq then ([], sc)
     else if r = squote \<and> \<not> apostrophe before then ([dquote], sc\<lparr>sq := 1\<rparr>)
     else if r = fw_colon then ([0x3A], sc)
     else if r = 0x2C \<or> r = fw_comma then (if trailingComma after then [] else [0x2C], sc)
     else ([r], sc))"

definition bare_key :: "nat \<Rightarrow> nat list \<Rightarrow> bool" where
  "bare_key prev rs = (case rs of [] \<Rightarrow> False | r # _ \<Rightarrow> isWord r \<and> keyPosition prev \<and> bareKeyColon rs)"

function repair_from :: "nat list \<Rightarrow> scan \<Rightarrow> nat \<Rightarrow> nat list \<Rightarrow> nat list" where
  "repair_from before sc prev [] = []"
| "repair_from before sc prev (r # after) =
     (if inDQ sc then
        fst (repairInDQ sc r) @ repair_from (r # before) (snd (repairInDQ sc r)) prev after
      else if fw sc > 0 then
        fst (repairInFW sc r) @ repair_from (r # before) (snd (repairInFW sc r)) prev after
      else if sq sc > 0 then
        fst (repairInSQ sc after r) @ repair_from (r # before) (snd (repairInSQ sc after r)) prev after
      else if bare_key prev (r # after) then
        [dquote] @ takeWhile isWord (r # after) @ [dquote]
        @ repair_from (rev (takeWhile isWord (r # after)) @ before) sc prev (dropWhile isWord after)
      else
        fst (repairStruct before sc r after)
        @ repair_from (r # before) (snd (repairStruct before sc r after)) (if isSpaceByte r then prev else r) after)"
  by pat_completeness auto
termination
  by (relation "measure (\<lambda>(before, sc, prev, rs). length rs)")
    (auto simp: less_Suc_eq_le length_dropWhile_le)

definition repair :: "string \<Rightarrow> string" where
  "repair s = string_of_runes (repair_from [] scan0 0 (runes s))"

section \<open>Entry points\<close>

definition repairValid :: "(string \<Rightarrow> bool) \<Rightarrow> string \<Rightarrow> string option" where
  "repairValid valid s = (let r = repair s in if valid r then Some r else None)"

definition isJSON :: "(string \<Rightarrow> bool) \<Rightarrow> string \<Rightarrow> bool" where
  "isJSON valid s = valid (repair s)"

text \<open>The bytes of the runes from one position to another.\<close>

definition rune_slice :: "string \<Rightarrow> nat \<Rightarrow> nat \<Rightarrow> string" where
  "rune_slice s i j = drop (length (cut_runes i s)) (cut_runes j s)"

fun first_candidate :: "(string \<Rightarrow> bool) \<Rightarrow> string \<Rightarrow> nat list \<Rightarrow> string option" where
  "first_candidate valid s [] = None"
| "first_candidate valid s (start # starts) =
     (case valueEnd (runes s) start of
        None \<Rightarrow> first_candidate valid s starts
      | Some e \<Rightarrow>
          let cand = rune_slice s start (Suc e)
          in if isJSON valid cand then Some cand else first_candidate valid s starts)"

definition extractValue :: "(string \<Rightarrow> bool) \<Rightarrow> string \<Rightarrow> string option" where
  "extractValue valid content =
    (let s = TrimSpace content
     in if s = [] then None
        else if isJSON valid s then Some s
        else first_candidate valid s (valueStarts (runes s)))"

definition unmarshalRepaired :: "(string \<Rightarrow> bool) \<Rightarrow> (string \<Rightarrow> 'v option) \<Rightarrow> string \<Rightarrow> 'v option" where
  "unmarshalRepaired valid decode data =
    (case repairValid valid data of None \<Rightarrow> None | Some r \<Rightarrow> decode r)"

definition json_Parse :: "(string \<Rightarrow> bool) \<Rightarrow> (string \<Rightarrow> 'v option) \<Rightarrow> string \<Rightarrow> 'v option" where
  "json_Parse valid decode content =
    (case extractValue valid content of None \<Rightarrow> None | Some v \<Rightarrow> unmarshalRepaired valid decode v)"

definition LenientBool :: "string \<Rightarrow> bool option" where
  "LenientBool data =
    (let raw = TrimSpace data;
         raw1 = (if 2 \<le> length raw \<and> hd raw = CHR 0x22 \<and> last raw = CHR 0x22 then butlast (tl raw) else raw);
         s = ascii_lower (TrimSpace raw1)
     in if s = ''true'' \<or> s = ''1'' then Some True
        else if s = ''false'' \<or> s = ''0'' \<or> s = [] then Some False else None)"

section \<open>One rule for strings\<close>

text \<open>The repair and the scanner move through the states of a string in step.\<close>

lemma repair_steps:
  "inDQ sc \<Longrightarrow> snd (repairInDQ sc r) = step before r after sc"
  "\<not> inDQ sc \<Longrightarrow> fw sc > 0 \<Longrightarrow> snd (repairInFW sc r) = step before r after sc"
  "\<not> inDQ sc \<Longrightarrow> fw sc = 0 \<Longrightarrow> sq sc > 0 \<Longrightarrow> snd (repairInSQ sc after r) = step before r after sc"
  "\<not> inside sc \<Longrightarrow> snd (repairStruct before sc r after) = step before r after sc"
  "\<not> inside sc \<Longrightarrow> isWord w \<Longrightarrow> step before w after sc = sc"
  by (auto simp: repairInDQ_def repairInFW_def repairInSQ_def repairStruct_def step_def inside_def isWord_def)

section \<open>Texts with defects\<close>

text \<open>
  \<open>defect_value s t\<close>: the text \<open>s\<close> is the JSON text \<open>t\<close> with some of the defects the
  repair is for: strings in full-width or single quotes, bare line breaks and
  control characters inside strings, full-width colons and commas, trailing
  commas, bare keys.  With no defect \<open>s\<close> and \<open>t\<close> are the same text.
\<close>

definition spaces :: "nat list \<Rightarrow> bool" where
  "spaces ws \<longleftrightarrow> (\<forall>r \<in> set ws. isSpaceByte r)"

inductive defect_chars :: "nat list \<Rightarrow> nat list \<Rightarrow> bool" where
  no_chars: "defect_chars [] []"
| plain: "defect_chars s t \<Longrightarrow> 0x20 \<le> r \<Longrightarrow> r \<notin> {dquote, backslash, squote, left_fw, right_fw, left_sq, right_sq} \<Longrightarrow>
    defect_chars (r # s) (r # t)"
| newline: "defect_chars s t \<Longrightarrow> defect_chars (10 # s) (backslash # 0x6E # t)"
| return: "defect_chars s t \<Longrightarrow> defect_chars (13 # s) (backslash # 0x72 # t)"
| tab: "defect_chars s t \<Longrightarrow> defect_chars (9 # s) (backslash # 0x74 # t)"

inductive quoted_chars :: "nat list \<Rightarrow> nat list \<Rightarrow> bool" where
  no_quoted: "quoted_chars [] []"
| quoted_plain: "quoted_chars s t \<Longrightarrow> 0x20 \<le> r \<Longrightarrow> r \<noteq> dquote \<Longrightarrow> r \<noteq> backslash \<Longrightarrow> quoted_chars (r # s) (r # t)"
| quoted_escape: "quoted_chars s t \<Longrightarrow> quoted_chars (backslash # r # s) (backslash # r # t)"
| quoted_newline: "quoted_chars s t \<Longrightarrow> quoted_chars (10 # s) (backslash # 0x6E # t)"
| quoted_return: "quoted_chars s t \<Longrightarrow> quoted_chars (13 # s) (backslash # 0x72 # t)"
| quoted_tab: "quoted_chars s t \<Longrightarrow> quoted_chars (9 # s) (backslash # 0x74 # t)"
| quoted_control: "quoted_chars s t \<Longrightarrow> r < 0x20 \<Longrightarrow> r \<notin> {9, 10, 13} \<Longrightarrow> quoted_chars (r # s) (control_escape r @ t)"

inductive defect_string :: "nat list \<Rightarrow> nat list \<Rightarrow> bool" where
  double: "quoted_chars s t \<Longrightarrow> defect_string ([dquote] @ s @ [dquote]) ([dquote] @ t @ [dquote])"
| full_width: "defect_chars s t \<Longrightarrow> defect_string ([left_fw] @ s @ [right_fw]) ([dquote] @ t @ [dquote])"
| single: "defect_chars s t \<Longrightarrow> defect_string ([squote] @ s @ [squote]) ([dquote] @ t @ [dquote])"
| curly: "defect_chars s t \<Longrightarrow> defect_string ([left_sq] @ s @ [right_sq]) ([dquote] @ t @ [dquote])"

definition is_comma :: "nat \<Rightarrow> bool" where "is_comma c \<longleftrightarrow> c = 0x2C \<or> c = fw_comma"
definition is_colon :: "nat \<Rightarrow> bool" where "is_colon c \<longleftrightarrow> c = 0x3A \<or> c = fw_colon"

text \<open>Numbers and the three names.\<close>

definition atom :: "nat list \<Rightarrow> bool" where
  "atom a \<longleftrightarrow> a \<noteq> [] \<and> (\<forall>r \<in> set a. isWord r \<or> r \<in> {0x2B, 0x2D, 0x2E})"

definition open_bracket :: "bool \<Rightarrow> nat" where "open_bracket obj = (if obj then 0x7B else 0x5B)"
definition close_bracket :: "bool \<Rightarrow> nat" where "close_bracket obj = (if obj then 0x7D else 0x5D)"

text \<open>The first flag says object or array, the second that the member has a bare key.\<close>

inductive defect_value :: "nat list \<Rightarrow> nat list \<Rightarrow> bool"
  and defect_item :: "bool \<Rightarrow> bool \<Rightarrow> nat list \<Rightarrow> nat list \<Rightarrow> bool"
  and defect_items :: "bool \<Rightarrow> nat list \<Rightarrow> nat list \<Rightarrow> bool"
where
  atom_value: "atom a \<Longrightarrow> defect_value a a"
| string_value: "defect_string s t \<Longrightarrow> defect_value s t"
| no_items: "spaces w \<Longrightarrow> defect_value ([open_bracket obj] @ w @ [close_bracket obj]) ([open_bracket obj] @ w @ [close_bracket obj])"
| with_items: "defect_items obj s t \<Longrightarrow> spaces w \<Longrightarrow>
    defect_value ([open_bracket obj] @ s @ w @ [close_bracket obj]) ([open_bracket obj] @ t @ w @ [close_bracket obj])"
| trailing: "defect_items obj s t \<Longrightarrow> spaces w \<Longrightarrow> is_comma c \<Longrightarrow> spaces w' \<Longrightarrow>
    defect_value ([open_bracket obj] @ s @ w @ [c] @ w' @ [close_bracket obj]) ([open_bracket obj] @ t @ w @ w' @ [close_bracket obj])"
| element: "defect_value s t \<Longrightarrow> defect_item False False s t"
| member: "defect_string k k' \<Longrightarrow> spaces w \<Longrightarrow> is_colon c \<Longrightarrow> spaces w' \<Longrightarrow> defect_value s t \<Longrightarrow>
    defect_item True False (k @ w @ [c] @ w' @ s) (k' @ w @ [0x3A] @ w' @ t)"
| bare_member: "k \<noteq> [] \<Longrightarrow> \<forall>r \<in> set k. isWord r \<Longrightarrow> spaces w \<Longrightarrow> is_colon c \<Longrightarrow> spaces w' \<Longrightarrow> defect_value s t \<Longrightarrow>
    defect_item True True (k @ w @ [c] @ w' @ s) ([dquote] @ k @ [dquote] @ w @ [0x3A] @ w' @ t)"
| first_item: "spaces w \<Longrightarrow> defect_item obj bare s t \<Longrightarrow> defect_items obj (w @ s) (w @ t)"
| more_items: "defect_items obj s t \<Longrightarrow> spaces w \<Longrightarrow> is_comma c \<Longrightarrow> bare \<longrightarrow> c = 0x2C \<Longrightarrow> spaces w' \<Longrightarrow> defect_item obj bare s' t' \<Longrightarrow>
    defect_items obj (s @ w @ [c] @ w' @ s') (t @ w @ [0x2C] @ w' @ t')"

lemma same_open: "quoted_chars s t \<Longrightarrow> quoted_chars t t"
proof (induction rule: quoted_chars.induct)
  case (quoted_control s t r)
  have "0x20 \<le> hex_rune n \<and> hex_rune n \<noteq> dquote \<and> hex_rune n \<noteq> backslash" if "n < 16" for n
    using that by (auto simp: hex_rune_def)
  then have "quoted_chars (0x30 # 0x30 # hex_rune (r div 16) # hex_rune (r mod 16) # t) (0x30 # 0x30 # hex_rune (r div 16) # hex_rune (r mod 16) # t)"
    using quoted_control by (intro quoted_plain) auto
  then show ?case by (simp add: control_escape_def quoted_escape)
qed (auto intro: quoted_chars.intros)

lemma chars_quoted: "defect_chars s t \<Longrightarrow> quoted_chars t t"
  by (induction rule: defect_chars.induct) (auto intro: quoted_chars.intros)

lemma same_string: "defect_string s t \<Longrightarrow> defect_string t t"
  by (erule defect_string.cases) (auto intro!: double [simplified] dest: same_open chars_quoted)

text \<open>The text without defects is one of these texts itself.\<close>

lemma same_text:
  "defect_value s t \<Longrightarrow> defect_value t t"
  "defect_item obj bare s t \<Longrightarrow> \<exists>bare'. defect_item obj bare' t t \<and> \<not> bare'"
  "defect_items obj s t \<Longrightarrow> defect_items obj t t"
proof (induction rule: defect_value_defect_item_defect_items.inducts)
  case (trailing obj s t w c w')
  then have "spaces (w @ w')" by (auto simp: spaces_def)
  then show ?case using with_items [OF trailing.IH, of "w @ w'"] by simp
next
  case (bare_member k w c w' s t)
  have "quoted_chars k k" using bare_member(2)
  proof (induction k)
    case (Cons r k)
    then show ?case by (auto simp: isWord_def intro!: quoted_plain)
  qed (rule no_quoted)
  then have "defect_string ([dquote] @ k @ [dquote]) ([dquote] @ k @ [dquote])" by (rule double)
  then have "defect_item True False (([dquote] @ k @ [dquote]) @ w @ [0x3A] @ w' @ t) (([dquote] @ k @ [dquote]) @ w @ [0x3A] @ w' @ t)"
    using bare_member by (intro member) (simp_all add: is_colon_def)
  then show ?case by (intro exI [of _ False]) simp
next
  case (member k k' w c w' s t)
  then have "defect_item True False (k' @ w @ [0x3A] @ w' @ t) (k' @ w @ [0x3A] @ w' @ t)"
    by (intro defect_value_defect_item_defect_items.member same_string) (simp_all add: is_colon_def)
  then show ?case by blast
next
  case (more_items obj s t w c bare w' s' t')
  then obtain bare' where "defect_item obj bare' t' t'" by blast
  with more_items show ?case
    by (intro defect_value_defect_item_defect_items.more_items) (simp_all add: is_comma_def)
qed (blast intro: defect_value_defect_item_defect_items.intros same_string)+

section \<open>The repair removes the defects\<close>

abbreviation in_dq :: scan where "in_dq \<equiv> scan0\<lparr>inDQ := True\<rparr>"
abbreviation in_fw :: scan where "in_fw \<equiv> scan0\<lparr>fw := 1\<rparr>"
abbreviation in_sq :: scan where "in_sq \<equiv> scan0\<lparr>sq := 1\<rparr>"

declare repair_from.simps [simp del]
lemmas repair_step = repair_from.simps(2)

lemma scan_simps [simp]:
  "inDQ scan0 = False" "esc scan0 = False" "fw scan0 = 0" "sq scan0 = 0"
  by (simp_all add: scan0_def)

lemma scan_back [simp]:
  "scan0\<lparr>inDQ := False\<rparr> = scan0" "scan0\<lparr>fw := 0\<rparr> = scan0" "scan0\<lparr>sq := 0\<rparr> = scan0" "in_dq\<lparr>esc := False\<rparr> = in_dq"
  by (simp_all add: scan0_def)

lemma in_double:
  "quoted_chars s t \<Longrightarrow> repair_from b in_dq p (s @ dquote # rest) = t @ dquote # repair_from (dquote # rev s @ b) scan0 p rest"
proof (induction arbitrary: b rule: quoted_chars.induct)
  case (quoted_escape s t r)
  have "in_dq\<lparr>esc := True\<rparr>\<lparr>esc := False\<rparr> = in_dq" by (simp add: scan0_def)
  then show ?case using quoted_escape.IH [of "r # backslash # b"]
    by (simp add: repair_step [where r = backslash] repair_step [where r = r] repairInDQ_def)
qed (simp_all add: repair_step repairInDQ_def)

lemma in_full_width:
  "defect_chars s t \<Longrightarrow> repair_from b in_fw p (s @ right_fw # rest) = t @ dquote # repair_from (right_fw # rev s @ b) scan0 p rest"
  by (induction arbitrary: b rule: defect_chars.induct) (simp_all add: repair_step repairInFW_def)

lemma in_single:
  "defect_chars s t \<Longrightarrow> sqCloses rest \<Longrightarrow> repair_from b in_sq p (s @ squote # rest) = t @ dquote # repair_from (squote # rev s @ b) scan0 p rest"
  by (induction arbitrary: b rule: defect_chars.induct) (simp_all add: repair_step repairInSQ_def)

lemma in_curly:
  "defect_chars s t \<Longrightarrow> repair_from b in_sq p (s @ right_sq # rest) = t @ dquote # repair_from (right_sq # rev s @ b) scan0 p rest"
  by (induction arbitrary: b rule: defect_chars.induct) (simp_all add: repair_step repairInSQ_def)

lemma next_is_Cons: "next_is P (r # rs) = (if isSpaceByte r then next_is P rs else P r)"
  by (simp add: next_is_def)

lemma next_is_mono: "(\<And>r. P r \<Longrightarrow> Q r) \<Longrightarrow> next_is P rs \<Longrightarrow> next_is Q rs"
  by (auto simp: next_is_def simp del: dropWhile_eq_Nil_conv split: list.splits)

lemma next_is_spaces: "spaces w \<Longrightarrow> next_is P (w @ rs) = next_is P rs" "spaces w \<Longrightarrow> next_is P (rev w @ rs) = next_is P rs"
proof -
  have *: "next_is P (v @ rs) = next_is P rs" if "spaces v" for v
    using that by (simp add: next_is_def spaces_def dropWhile_append2)
  show "spaces w \<Longrightarrow> next_is P (w @ rs) = next_is P rs" by (rule *)
  show "spaces w \<Longrightarrow> next_is P (rev w @ rs) = next_is P rs" by (rule *) (simp add: spaces_def)
qed

definition no_word_before :: "nat list \<Rightarrow> bool" where
  "no_word_before b \<longleftrightarrow> \<not> next_is isWord b"

definition value_follow :: "nat list \<Rightarrow> bool" where
  "value_follow rest \<longleftrightarrow> \<not> next_is (\<lambda>r. isWord r \<or> is_colon r) rest"

lemma no_bare_start: "\<not> isWord r \<Longrightarrow> bare_key p (r # rs) = False"
  by (simp add: bare_key_def)

lemma repair_string:
  assumes "defect_string s t" and "no_word_before b" and "sqCloses rest"
  shows "\<exists>p'. repair_from b scan0 p (s @ rest) = t @ repair_from (rev s @ b) scan0 p' rest"
  using assms(1)
proof cases
  case (double s' t')
  then show ?thesis using in_double [of s' t' "dquote # b" dquote rest]
    by (simp add: repair_step [where r = dquote] no_bare_start isWord_def repairStruct_def isSpaceByte_def) blast
next
  case (full_width s' t')
  then show ?thesis using in_full_width [of s' t' "left_fw # b" left_fw rest]
    by (simp add: repair_step [where r = left_fw] no_bare_start isWord_def repairStruct_def isSpaceByte_def) blast
next
  case (single s' t')
  then show ?thesis using in_single [of s' t' rest "squote # b" squote] assms(2,3)
    by (simp add: repair_step [where r = squote] no_bare_start isWord_def repairStruct_def isSpaceByte_def apostrophe_def no_word_before_def) blast
next
  case (curly s' t')
  then show ?thesis using in_curly [of s' t' "left_sq # b" left_sq rest]
    by (simp add: repair_step [where r = left_sq] no_bare_start isWord_def repairStruct_def isSpaceByte_def) blast
qed

lemma repair_spaces: "spaces w \<Longrightarrow> repair_from b scan0 p (w @ rest) = w @ repair_from (rev w @ b) scan0 p rest"
proof (induction w arbitrary: b)
  case (Cons r w)
  then have "isSpaceByte r" "spaces w" by (simp_all add: spaces_def)
  then show ?case using Cons.IH [of "r # b"]
    by (auto simp: repair_step no_bare_start isWord_def repairStruct_def isSpaceByte_def)
qed simp

lemma repair_bracket:
  "repair_from b scan0 p (open_bracket obj # rest) = open_bracket obj # repair_from (open_bracket obj # b) scan0 (open_bracket obj) rest"
  "repair_from b scan0 p (close_bracket obj # rest) = close_bracket obj # repair_from (close_bracket obj # b) scan0 (close_bracket obj) rest"
  by (simp_all add: repair_step no_bare_start isWord_def repairStruct_def isSpaceByte_def open_bracket_def close_bracket_def)

lemma repair_comma:
  "is_comma c \<Longrightarrow> repair_from b scan0 p (c # rest) = (if trailingComma rest then [] else [0x2C]) @ repair_from (c # b) scan0 c rest"
  by (auto simp: repair_step no_bare_start isWord_def repairStruct_def isSpaceByte_def is_comma_def)

lemma repair_colon: "is_colon c \<Longrightarrow> repair_from b scan0 p (c # rest) = 0x3A # repair_from (c # b) scan0 c rest"
  by (auto simp: repair_step no_bare_start isWord_def repairStruct_def isSpaceByte_def is_colon_def)

lemma not_word: "isSpaceByte r \<Longrightarrow> \<not> isWord r" "is_colon r \<Longrightarrow> \<not> isWord r" "is_comma r \<Longrightarrow> \<not> isWord r"
  "is_colon r \<Longrightarrow> \<not> isSpaceByte r" "is_comma r \<Longrightarrow> \<not> isSpaceByte r" "isWord r \<Longrightarrow> \<not> isSpaceByte r"
  "\<not> isWord (open_bracket obj)" "\<not> isSpaceByte (open_bracket obj)" "\<not> isWord (close_bracket obj)" "\<not> isSpaceByte (close_bracket obj)"
  "is_comma r \<Longrightarrow> \<not> is_colon r" "\<not> is_colon (close_bracket obj)"
  by (auto simp: isWord_def isSpaceByte_def is_colon_def is_comma_def open_bracket_def close_bracket_def)

lemma atom_no_key:
  "\<forall>r \<in> set a. isWord r \<or> r \<in> {0x2B, 0x2D, 0x2E} \<Longrightarrow> value_follow rest \<Longrightarrow> \<not> bareKeyColon (a @ rest)"
proof (induction a)
  case Nil
  then have follow: "\<not> next_is (\<lambda>r. isWord r \<or> is_colon r) rest" by (simp add: value_follow_def)
  then have "dropWhile isWord rest = rest"
    by (cases rest) (auto simp: next_is_Cons not_word)
  moreover have "\<not> next_is (\<lambda>r. r = 0x3A \<or> r = fw_colon) rest"
    using follow next_is_mono [of "\<lambda>r. r = 0x3A \<or> r = fw_colon" "\<lambda>r. isWord r \<or> is_colon r" rest] by (auto simp: is_colon_def)
  ultimately show ?case by (simp add: bareKeyColon_def)
next
  case (Cons r a)
  then show ?case by (cases "isWord r") (auto simp: bareKeyColon_def next_is_Cons isSpaceByte_def)
qed

lemma repair_atom:
  "\<forall>r \<in> set a. isWord r \<or> r \<in> {0x2B, 0x2D, 0x2E} \<Longrightarrow> value_follow rest \<Longrightarrow>
   \<exists>p'. repair_from b scan0 p (a @ rest) = a @ repair_from (rev a @ b) scan0 p' rest"
proof (induction a arbitrary: b p)
  case (Cons r a)
  have "\<not> bareKeyColon (r # a @ rest)" using atom_no_key [of "r # a" rest] Cons.prems by simp
  moreover have "repairStruct b scan0 r (a @ rest) = ([r], scan0)"
    using Cons.prems by (auto simp: repairStruct_def isWord_def)
  ultimately show ?case using Cons.IH [of "r # b"] Cons.prems by (simp add: repair_step bare_key_def)
qed auto

lemma repair_bare:
  assumes "k \<noteq> []" "\<forall>r \<in> set k. isWord r" "spaces w" "is_colon c" "keyPosition p"
  shows "repair_from b scan0 p (k @ w @ c # rest) = [dquote] @ k @ [dquote] @ repair_from (rev k @ b) scan0 p (w @ c # rest)"
proof -
  obtain r k' where k: "k = r # k'" using assms(1) by (cases k) simp_all
  let ?rest = "w @ c # rest"
  have stop: "takeWhile isWord ?rest = []" "dropWhile isWord ?rest = ?rest"
    using assms(3,4) not_word by (cases w; force simp: spaces_def)+
  have "next_is (\<lambda>r. r = 0x3A \<or> r = fw_colon) ?rest"
    using assms(4) not_word(4) by (simp add: next_is_spaces(1) [OF assms(3)] next_is_Cons is_colon_def)
  moreover have "takeWhile isWord (k @ ?rest) = k" "dropWhile isWord (k @ ?rest) = ?rest"
    using assms(2) stop by simp_all
  ultimately show ?thesis
    using assms(2,5) unfolding k by (simp add: repair_step bare_key_def bareKeyColon_def del: takeWhile_append2 dropWhile_append2)
qed

lemma after_context [simp]:
  "no_word_before []" "no_word_before (open_bracket obj # b)" "is_comma c \<Longrightarrow> no_word_before (c # b)" "is_colon c \<Longrightarrow> no_word_before (c # b)"
  "spaces w \<Longrightarrow> no_word_before (rev w @ b) = no_word_before b"
  by (simp_all add: no_word_before_def next_is_Cons not_word next_is_spaces) (simp add: next_is_def)

lemma follow_context [simp]:
  "value_follow []" "value_follow (close_bracket obj # r)" "is_comma c \<Longrightarrow> value_follow (c # r)"
  "spaces w \<Longrightarrow> value_follow (w @ r) = value_follow r"
  by (simp_all add: value_follow_def next_is_Cons not_word next_is_spaces) (simp add: next_is_def)

lemma follow_closes: "value_follow r \<Longrightarrow> sqCloses r"
  using next_is_mono [of isWord "\<lambda>r. isWord r \<or> is_colon r" r] by (auto simp: value_follow_def sqCloses_def)

lemma closes_context [simp]: "spaces w \<Longrightarrow> is_colon c \<Longrightarrow> sqCloses (w @ c # r)"
  by (simp add: sqCloses_def next_is_spaces next_is_Cons not_word)

text \<open>The first rune of a value or an item closes no bracket.\<close>

definition opens :: "nat list \<Rightarrow> bool" where
  "opens s \<longleftrightarrow> s \<noteq> [] \<and> \<not> isSpaceByte (hd s) \<and> hd s \<noteq> 0x7D \<and> hd s \<noteq> 0x5D"

lemma opens_not_trailing: "opens s \<Longrightarrow> \<not> trailingComma (s @ r)"
  by (cases s) (auto simp: opens_def trailingComma_def next_is_Cons)

lemma string_opens: "defect_string s t \<Longrightarrow> opens (s @ r)"
  by (erule defect_string.cases) (auto simp: opens_def isSpaceByte_def)

lemma word_opens: "isWord r \<or> r \<in> {0x2B, 0x2D, 0x2E} \<Longrightarrow> opens (r # rs)"
  by (auto simp: opens_def isWord_def isSpaceByte_def)

lemma value_opens: "defect_value s t \<Longrightarrow> opens s"
proof (erule defect_value.cases)
  fix a assume "s = a" "t = a" "atom a"
  then show "opens s" by (cases a) (auto simp: atom_def intro: word_opens)
next
  fix s' t' assume "s = s'" "t = t'" "defect_string s' t'"
  then show "opens s" using string_opens [of s' t' "[]"] by simp
qed (auto simp: opens_def open_bracket_def isSpaceByte_def)

lemma item_opens: "defect_item obj bare s t \<Longrightarrow> opens s"
proof (erule defect_item.cases)
  fix k k' w c w' s' t'
  assume "s = k @ w @ [c] @ w' @ s'" "defect_string k k'"
  then show "opens s" using string_opens by simp
next
  fix k w c w' s' t'
  assume "s = k @ w @ [c] @ w' @ s'" "k \<noteq> []" "\<forall>r \<in> set k. isWord r"
  then show "opens s" by (cases k) (auto intro: word_opens)
qed (auto dest: value_opens)

lemma bare_is_member: "defect_item obj bare s t \<Longrightarrow> bare \<Longrightarrow> obj"
  by (erule defect_item.cases) auto

lemma closing_trails: "spaces w \<Longrightarrow> trailingComma (w @ close_bracket obj # r)"
  by (simp add: trailingComma_def next_is_spaces next_is_Cons not_word) (simp add: close_bracket_def)

lemma repair_texts:
  "defect_value s t \<Longrightarrow> no_word_before b \<Longrightarrow> value_follow rest \<Longrightarrow>
    \<exists>p'. repair_from b scan0 p (s @ rest) = t @ repair_from (rev s @ b) scan0 p' rest"
  "defect_item obj bare s t \<Longrightarrow> no_word_before b \<Longrightarrow> value_follow rest \<Longrightarrow> (bare \<longrightarrow> keyPosition p) \<Longrightarrow>
    \<exists>p'. repair_from b scan0 p (s @ rest) = t @ repair_from (rev s @ b) scan0 p' rest"
  "defect_items obj s t \<Longrightarrow> no_word_before b \<Longrightarrow> value_follow rest \<Longrightarrow> (obj \<longrightarrow> keyPosition p) \<Longrightarrow>
    \<exists>p'. repair_from b scan0 p (s @ rest) = t @ repair_from (rev s @ b) scan0 p' rest"
proof (induction arbitrary: b rest p and b rest p and b rest p rule: defect_value_defect_item_defect_items.inducts)
  case (atom_value a)
  then show ?case using repair_atom [of a rest b p] by (simp add: atom_def)
next
  case (string_value s t)
  then show ?case using repair_string [of s t b rest p] follow_closes by blast
next
  case (no_items w obj)
  then show ?case by (simp add: repair_bracket repair_spaces) blast
next
  case (with_items obj s t w)
  have "obj \<longrightarrow> keyPosition (open_bracket obj)" by (simp add: keyPosition_def open_bracket_def)
  with with_items.IH [of "open_bracket obj # b" "w @ close_bracket obj # rest" "open_bracket obj"] with_items.hyps
  obtain p' where "repair_from (open_bracket obj # b) scan0 (open_bracket obj) (s @ w @ close_bracket obj # rest)
      = t @ repair_from (rev s @ open_bracket obj # b) scan0 p' (w @ close_bracket obj # rest)" by auto
  then show ?case using with_items.hyps by (simp add: repair_bracket repair_spaces) blast
next
  case (trailing obj s t w c w')
  have "obj \<longrightarrow> keyPosition (open_bracket obj)" by (simp add: keyPosition_def open_bracket_def)
  with trailing.IH [of "open_bracket obj # b" "w @ c # w' @ close_bracket obj # rest" "open_bracket obj"] trailing.hyps
  obtain p' where "repair_from (open_bracket obj # b) scan0 (open_bracket obj) (s @ w @ c # w' @ close_bracket obj # rest)
      = t @ repair_from (rev s @ open_bracket obj # b) scan0 p' (w @ c # w' @ close_bracket obj # rest)" by auto
  then show ?case using trailing.hyps by (simp add: repair_bracket repair_spaces repair_comma closing_trails) blast
next
  case (element s t)
  then show ?case by blast
next
  case (member k k' w c w' s t)
  obtain p1 where k: "repair_from b scan0 p (k @ w @ c # w' @ s @ rest) = k' @ repair_from (rev k @ b) scan0 p1 (w @ c # w' @ s @ rest)"
    using repair_string [OF member.hyps(1) member.prems(1), of "w @ c # w' @ s @ rest" p] member.hyps by auto
  from member.IH [of "rev w' @ c # rev w @ rev k @ b" rest c] member.prems member.hyps
  obtain p2 where "repair_from (rev w' @ c # rev w @ rev k @ b) scan0 c (s @ rest)
      = t @ repair_from (rev s @ rev w' @ c # rev w @ rev k @ b) scan0 p2 rest" by auto
  then show ?case using k member.hyps by (simp add: repair_spaces repair_colon) blast
next
  case (bare_member k w c w' s t)
  from bare_member.IH [of "rev w' @ c # rev w @ rev k @ b" rest c] bare_member.prems bare_member.hyps
  obtain p2 where "repair_from (rev w' @ c # rev w @ rev k @ b) scan0 c (s @ rest)
      = t @ repair_from (rev s @ rev w' @ c # rev w @ rev k @ b) scan0 p2 rest" by auto
  then show ?case using repair_bare [OF bare_member.hyps(1-4), of p b "w' @ s @ rest"] bare_member.hyps bare_member.prems
    by (simp add: repair_spaces repair_colon) blast
next
  case (first_item w obj bare s t)
  then have "bare \<longrightarrow> keyPosition p" using bare_is_member by blast
  with first_item.IH [of "rev w @ b" rest p] first_item.prems first_item.hyps show ?case by (auto simp: repair_spaces)
next
  case (more_items obj s t w c bare w' s' t')
  obtain p1 where s: "repair_from b scan0 p (s @ w @ c # w' @ s' @ rest) = t @ repair_from (rev s @ b) scan0 p1 (w @ c # w' @ s' @ rest)"
    using more_items.IH(1) [of b "w @ c # w' @ s' @ rest" p] more_items.prems more_items.hyps by auto
  have "bare \<longrightarrow> keyPosition c" using more_items.hyps by (simp add: keyPosition_def)
  with more_items.IH(2) [of "rev w' @ c # rev w @ rev s @ b" rest c] more_items.prems more_items.hyps
  obtain p2 where s': "repair_from (rev w' @ c # rev w @ rev s @ b) scan0 c (s' @ rest)
      = t' @ repair_from (rev s' @ rev w' @ c # rev w @ rev s @ b) scan0 p2 rest" by auto
  have "\<not> trailingComma (w' @ s' @ rest)"
    using opens_not_trailing [OF item_opens] more_items.hyps by (simp add: trailingComma_def next_is_spaces)
  then show ?case using s s' more_items.hyps by (simp add: repair_spaces repair_comma) blast
qed

text \<open>
  C30. A text with any of the defects, anywhere and at any depth, is repaired to
  the JSON text it stands for, white space kept, and a JSON text without defects
  is left exactly as it is.
\<close>

theorem repair_fixes:
  assumes "defect_value s t" and "spaces w" "spaces w'" and "\<forall>r \<in> set (s @ t). scalar r"
  shows "repair (string_of_runes (w @ s @ w')) = string_of_runes (w @ t @ w') \<and>
    repair (string_of_runes (w @ t @ w')) = string_of_runes (w @ t @ w')"
proof -
  have sp: "\<forall>r \<in> set w \<union> set w'. scalar r" using assms(2,3) by (auto simp: spaces_def isSpaceByte_def scalar_def)
  have "repair (string_of_runes (w @ x @ w')) = string_of_runes (w @ t @ w')" if x: "defect_value x t" "\<forall>r \<in> set x. scalar r" for x
  proof -
    have "runes (string_of_runes (w @ x @ w')) = w @ x @ w'"
      using runes_string_of_runes [of "w @ x @ w'" "[]"] sp x(2) by auto
    moreover obtain p' where "repair_from (rev w) scan0 0 (x @ w') = t @ repair_from (rev x @ rev w) scan0 p' w'"
      using repair_texts(1) [OF x(1), of "rev w" w' 0] after_context(5) [OF assms(2), of "[]"] follow_context(4) [OF assms(3), of "[]"]
      by auto
    ultimately show ?thesis
      using repair_spaces [OF assms(2), of "[]" 0 "x @ w'"] repair_spaces [OF assms(3), of "rev x @ rev w" p' "[]"]
      by (simp add: repair_def repair_from.simps(1))
  qed
  then show ?thesis using assms(1,4) same_text(1) [OF assms(1)] by simp
qed

text \<open>A bare key, a single-quoted string, a full-width colon and a trailing comma.\<close>

theorem repair_fixes_witness:
  "repair (string_of_runes ([0x7B, 0x61, 0xFF1A, 0x27, 0x78, 0x27, 0x2C, 0x7D])) =
   string_of_runes [0x7B, 0x22, 0x61, 0x22, 0x3A, 0x22, 0x78, 0x22, 0x7D]"
proof -
  have "defect_value ([squote] @ [0x78] @ [squote]) ([dquote] @ [0x78] @ [dquote])"
    by (intro string_value single plain no_chars) simp_all
  then have "defect_item True True ([0x61] @ [] @ [fw_colon] @ [] @ [squote] @ [0x78] @ [squote])
      ([dquote] @ [0x61] @ [dquote] @ [] @ [0x3A] @ [] @ [dquote] @ [0x78] @ [dquote])"
    by (intro bare_member) (simp_all add: isWord_def spaces_def is_colon_def)
  then have "defect_items True ([] @ [0x61] @ [] @ [fw_colon] @ [] @ [squote] @ [0x78] @ [squote])
      ([] @ [dquote] @ [0x61] @ [dquote] @ [] @ [0x3A] @ [] @ [dquote] @ [0x78] @ [dquote])"
    by (intro first_item) (simp_all add: spaces_def)
  then have "defect_value ([open_bracket True] @ ([] @ [0x61] @ [] @ [fw_colon] @ [] @ [squote] @ [0x78] @ [squote]) @ [] @ [0x2C] @ [] @ [close_bracket True])
      ([open_bracket True] @ ([] @ [dquote] @ [0x61] @ [dquote] @ [] @ [0x3A] @ [] @ [dquote] @ [0x78] @ [dquote]) @ [] @ [] @ [close_bracket True])"
    by (rule trailing) (simp_all add: spaces_def is_comma_def)
  from repair_fixes [OF this, of "[]" "[]"] show ?thesis
    by (simp add: open_bracket_def close_bracket_def spaces_def scalar_def)
qed

section \<open>What the repair misses\<close>

text \<open>A double quote inside a single-quoted string is copied as it is and ends the repaired string.\<close>

lemma inner_quote_not_escaped:
  "repair_from [] scan0 0 [squote, dquote, squote] = [dquote, dquote, dquote]"
  by (simp add: repair_from.simps bare_key_def isWord_def repairStruct_def apostrophe_def next_is_def repairInSQ_def sqCloses_def isSpaceByte_def)

text \<open>A control character is escaped inside double quotes only.\<close>

lemma control_kept_in_full_width:
  "repair_from [] scan0 0 [left_fw, 1, right_fw] = [dquote, 1, dquote]"
  by (simp add: repair_from.simps bare_key_def isWord_def repairStruct_def repairInFW_def isSpaceByte_def)

text \<open>A bare key is quoted after an ASCII comma, not after a full-width one.\<close>

lemma bare_key_after_full_width_comma:
  "repair_from [] scan0 0 [0x7B, 0x61, 0x3A, 0x31, fw_comma, 0x62, 0x3A, 0x32, 0x7D] =
   [0x7B, dquote, 0x61, dquote, 0x3A, 0x31, 0x2C, 0x62, 0x3A, 0x32, 0x7D]"
  by (simp add: repair_from.simps bare_key_def isWord_def repairStruct_def isSpaceByte_def keyPosition_def bareKeyColon_def
      next_is_def trailingComma_def)

section \<open>Extraction\<close>

lemma rune_slice_sub: "\<exists>a b. s = a @ rune_slice s i j @ b"
proof -
  obtain u where "s = cut_runes j s @ u" using cut_runes_prefix by blast
  then have "s = take (length (cut_runes i s)) (cut_runes j s) @ rune_slice s i j @ u"
    by (metis append.assoc append_take_drop_id rune_slice_def)
  then show ?thesis by blast
qed

lemma first_candidate_sound:
  "first_candidate valid s starts = Some v \<Longrightarrow> isJSON valid v \<and> (\<exists>a b. s = a @ v @ b)"
  by (induction starts) (auto simp: Let_def rune_slice_sub split: option.splits if_splits)

text \<open>
  What is extracted is a piece of the content that the strict parser accepts
  once repaired, so decoding it fails only in the caller's type; content that is
  JSON as a whole is taken whole.
\<close>

theorem extract_sound:
  assumes "extractValue valid content = Some v"
  shows "(\<exists>a b. TrimSpace content = a @ v @ b) \<and> repairValid valid v = Some (repair v) \<and>
    unmarshalRepaired valid decode v = decode (repair v) \<and> json_Parse valid decode content = decode (repair v) \<and>
    (isJSON valid (TrimSpace content) \<longrightarrow> v = TrimSpace content)"
proof -
  have "isJSON valid v \<and> (\<exists>a b. TrimSpace content = a @ v @ b) \<and> (isJSON valid (TrimSpace content) \<longrightarrow> v = TrimSpace content)"
  proof (cases "isJSON valid (TrimSpace content)")
    case True
    then have "v = TrimSpace content" using assms by (simp add: extractValue_def Let_def split: if_splits)
    then show ?thesis using True by (auto intro: exI [of _ "[]"])
  next
    case False
    then show ?thesis using assms first_candidate_sound by (auto simp: extractValue_def Let_def split: if_splits)
  qed
  then show ?thesis
    using assms by (auto simp: isJSON_def repairValid_def unmarshalRepaired_def json_Parse_def Let_def)
qed

end
