(* ===== verification/StreamTransforms.thy ===== *)
theory StreamTransforms
  imports GoErrors "HOL-Library.Sublist" "HOL-Library.Multiset"
begin

text \<open>
  The asynchronous iterator (\<open>core/kernel/iterator.go\<close>) and the transforms over it
  (\<open>core/stream/transforms.go\<close>).  An operation that would block has no result.
  For the transforms a source is the list of what it yields and the error it
  ends with.  The consumer of an output may close it: \<open>cap\<close> is the number of
  \<open>Send\<close>s that succeed before that, if any fails.  A source that is left before
  its end may already have been closed: this is the flag \<open>early\<close>.  A timer that
  is polled has fired or not, and a ticker of period \<open>d\<close> ticks at its multiples.
\<close>

section \<open>The iterator\<close>

record 'a iterator =
  itr_buffer :: "'a list"
  itr_cap :: nat
  itr_closed :: bool
  itr_err :: "go_error option"

definition NewAsyncIterator :: "int \<Rightarrow> 'a iterator" where
  "NewAsyncIterator bufferSize =
    \<lparr>itr_buffer = [], itr_cap = (if bufferSize \<le> 0 then 100 else nat bufferSize), itr_closed = False, itr_err = None\<rparr>"

definition itr_Send :: "'a \<Rightarrow> 'a iterator \<Rightarrow> (bool \<times> 'a iterator) option" where
  "itr_Send v it =
    (if itr_closed it then Some (False, it)
     else if length (itr_buffer it) < itr_cap it then Some (True, it\<lparr>itr_buffer := itr_buffer it @ [v]\<rparr>)
     else None)"

definition itr_Next :: "'a iterator \<Rightarrow> ('a option \<times> 'a iterator) option" where
  "itr_Next it =
    (case itr_buffer it of
       v # vs \<Rightarrow> Some (Some v, it\<lparr>itr_buffer := vs\<rparr>)
     | [] \<Rightarrow> if itr_closed it then Some (None, it) else None)"

definition itr_Close :: "'a iterator \<Rightarrow> 'a iterator" where
  "itr_Close it = it\<lparr>itr_closed := True\<rparr>"

definition CloseWithError :: "go_error \<Rightarrow> 'a iterator \<Rightarrow> 'a iterator" where
  "CloseWithError e it = it\<lparr>itr_err := Some e, itr_closed := True\<rparr>"

text \<open>The context of the iterator ends.\<close>

definition watchContext :: "go_error \<Rightarrow> 'a iterator \<Rightarrow> 'a iterator" where
  "watchContext e it = (if itr_closed it then it else it\<lparr>itr_closed := True, itr_err := Some e\<rparr>)"

definition itr_Collect :: "'a iterator \<Rightarrow> 'a list \<times> 'a iterator" where
  "itr_Collect it = (itr_buffer it, it\<lparr>itr_buffer := []\<rparr>)"

datatype 'a itr_op = DoSend 'a | DoNext | DoClose | DoCloseErr go_error | DoCtxEnd go_error

text \<open>A blocked operation leaves no trace; the other result is what was accepted and what was received.\<close>

fun itr_exec :: "'a itr_op \<Rightarrow> 'a iterator \<times> 'a list \<times> 'a list \<Rightarrow> 'a iterator \<times> 'a list \<times> 'a list" where
  "itr_exec (DoSend v) (it, acc, got) =
     (case itr_Send v it of Some (True, it1) \<Rightarrow> (it1, acc @ [v], got) | _ \<Rightarrow> (it, acc, got))"
| "itr_exec DoNext (it, acc, got) =
     (case itr_Next it of Some (Some v, it1) \<Rightarrow> (it1, acc, got @ [v]) | _ \<Rightarrow> (it, acc, got))"
| "itr_exec DoClose (it, acc, got) = (itr_Close it, acc, got)"
| "itr_exec (DoCloseErr e) (it, acc, got) = (CloseWithError e it, acc, got)"
| "itr_exec (DoCtxEnd e) (it, acc, got) = (watchContext e it, acc, got)"

section \<open>Sources and outputs\<close>

record 'a source =
  src_items :: "'a list"
  src_err :: "go_error option"

record 'a stream_out =
  out_items :: "'a list"
  out_err :: "go_error option"

definition accepts :: "nat option \<Rightarrow> nat \<Rightarrow> bool" where
  "accepts cap n = (case cap of None \<Rightarrow> True | Some k \<Rightarrow> n < k)"

section \<open>Map, MapErr, Filter, Reduce\<close>

text \<open>The deferred close: the error the source shows when the loop has ended.\<close>

definition shown_err :: "bool \<Rightarrow> bool \<Rightarrow> 'a source \<Rightarrow> go_error option" where
  "shown_err early finished src = (if finished \<or> early then src_err src else None)"

definition close_like :: "bool \<Rightarrow> 'a source \<Rightarrow> 'b list \<times> bool \<Rightarrow> 'b stream_out" where
  "close_like early src r = \<lparr>out_items = fst r, out_err = shown_err early (snd r) src\<rparr>"

fun map_loop :: "nat option \<Rightarrow> ('a \<Rightarrow> 'b) \<Rightarrow> 'a list \<Rightarrow> 'b list \<Rightarrow> 'b list \<times> bool" where
  "map_loop cap f [] sent = (sent, True)"
| "map_loop cap f (v # vs) sent = (if accepts cap (length sent) then map_loop cap f vs (sent @ [f v]) else (sent, False))"

definition stream_Map :: "bool \<Rightarrow> nat option \<Rightarrow> ('a \<Rightarrow> 'b) \<Rightarrow> 'a source \<Rightarrow> 'b stream_out" where
  "stream_Map early cap f src = close_like early src (map_loop cap f (src_items src) [])"

fun maperr_loop :: "nat option \<Rightarrow> ('a \<Rightarrow> go_error + 'b) \<Rightarrow> 'a list \<Rightarrow> 'b list \<Rightarrow> ('b list \<times> bool) \<times> go_error option" where
  "maperr_loop cap f [] sent = ((sent, True), None)"
| "maperr_loop cap f (v # vs) sent =
     (case f v of
        Inl e \<Rightarrow> ((sent, False), Some e)
      | Inr u \<Rightarrow> if accepts cap (length sent) then maperr_loop cap f vs (sent @ [u]) else ((sent, False), None))"

text \<open>The second \<open>CloseWithError\<close> overwrites the error of the first.\<close>

definition stream_MapErr :: "bool \<Rightarrow> nat option \<Rightarrow> ('a \<Rightarrow> go_error + 'b) \<Rightarrow> 'a source \<Rightarrow> 'b stream_out" where
  "stream_MapErr early cap f src =
    (case maperr_loop cap f (src_items src) [] of
       (r, None) \<Rightarrow> close_like early src r
     | (r, Some e) \<Rightarrow>
         \<lparr>out_items = fst r, out_err = (case shown_err early (snd r) src of Some e1 \<Rightarrow> Some e1 | None \<Rightarrow> Some e)\<rparr>)"

fun filter_loop :: "nat option \<Rightarrow> ('a \<Rightarrow> bool) \<Rightarrow> 'a list \<Rightarrow> 'a list \<Rightarrow> 'a list \<times> bool" where
  "filter_loop cap p [] sent = (sent, True)"
| "filter_loop cap p (v # vs) sent =
     (if p v then if accepts cap (length sent) then filter_loop cap p vs (sent @ [v]) else (sent, False)
      else filter_loop cap p vs sent)"

definition stream_Filter :: "bool \<Rightarrow> nat option \<Rightarrow> ('a \<Rightarrow> bool) \<Rightarrow> 'a source \<Rightarrow> 'a stream_out" where
  "stream_Filter early cap p src = close_like early src (filter_loop cap p (src_items src) [])"

definition stream_Reduce :: "'r \<Rightarrow> ('r \<Rightarrow> 'a \<Rightarrow> 'r) \<Rightarrow> 'a source \<Rightarrow> 'r" where
  "stream_Reduce init f src = foldl f init (src_items src)"

section \<open>Concat and Merge\<close>

text \<open>The flags say which sources were read to their end.\<close>

fun concat_loop :: "nat option \<Rightarrow> 'a source list \<Rightarrow> 'a list \<Rightarrow> 'a list \<times> bool list" where
  "concat_loop cap [] sent = (sent, [])"
| "concat_loop cap (src # srcs) sent =
     (case map_loop cap id (src_items src) sent of
        (sent1, True) \<Rightarrow> (case concat_loop cap srcs sent1 of (sent2, fs) \<Rightarrow> (sent2, True # fs))
      | (sent1, False) \<Rightarrow> (sent1, False # map (\<lambda>_. False) srcs))"

fun first_error :: "go_error option list \<Rightarrow> go_error option" where
  "first_error [] = None"
| "first_error (Some e # es) = Some e"
| "first_error (None # es) = first_error es"

definition stream_Concat :: "bool \<Rightarrow> nat option \<Rightarrow> 'a source list \<Rightarrow> 'a stream_out" where
  "stream_Concat early cap srcs =
    (case concat_loop cap srcs [] of
       (sent, fs) \<Rightarrow> \<lparr>out_items = sent, out_err = first_error (map2 (shown_err early) fs srcs)\<rparr>)"

text \<open>
  Every source of a merge has a goroutine of its own: it reads and sends, and
  ends at the end of its source, after a failed send or when it sees the context
  cancelled before it reads.  When all have ended the output is closed, without
  an error.
\<close>

record 'a merge =
  mg_pending :: "'a list list"
  mg_running :: "bool list"
  mg_sent :: "'a list"
  mg_cancelled :: bool

definition merge_start :: "'a source list \<Rightarrow> 'a merge" where
  "merge_start srcs = \<lparr>mg_pending = map src_items srcs, mg_running = map (\<lambda>_. True) srcs, mg_sent = [], mg_cancelled = False\<rparr>"

inductive merge_step :: "nat option \<Rightarrow> 'a merge \<Rightarrow> 'a merge \<Rightarrow> bool" for cap where
  merge_send: "i < length (mg_running m) \<Longrightarrow> mg_running m ! i \<Longrightarrow> mg_pending m ! i = v # vs \<Longrightarrow> accepts cap (length (mg_sent m)) \<Longrightarrow>
    merge_step cap m (m\<lparr>mg_pending := (mg_pending m)[i := vs], mg_sent := mg_sent m @ [v]\<rparr>)"
| merge_refused: "i < length (mg_running m) \<Longrightarrow> mg_running m ! i \<Longrightarrow> mg_pending m ! i = v # vs \<Longrightarrow> \<not> accepts cap (length (mg_sent m)) \<Longrightarrow>
    merge_step cap m (m\<lparr>mg_running := (mg_running m)[i := False]\<rparr>)"
| merge_end: "i < length (mg_running m) \<Longrightarrow> mg_running m ! i \<Longrightarrow> mg_pending m ! i = [] \<Longrightarrow>
    merge_step cap m (m\<lparr>mg_running := (mg_running m)[i := False]\<rparr>)"
| merge_cancel: "merge_step cap m (m\<lparr>mg_cancelled := True\<rparr>)"
| merge_ctx: "i < length (mg_running m) \<Longrightarrow> mg_running m ! i \<Longrightarrow> mg_cancelled m \<Longrightarrow>
    merge_step cap m (m\<lparr>mg_running := (mg_running m)[i := False]\<rparr>)"

definition merge_closed :: "'a merge \<Rightarrow> 'a stream_out option" where
  "merge_closed m = (if list_ex id (mg_running m) then None else Some \<lparr>out_items = mg_sent m, out_err = None\<rparr>)"

section \<open>Buffer\<close>

text \<open>Batches go out without a look at the result of \<open>Send\<close>.\<close>

fun buffer_loop :: "nat \<Rightarrow> 'a list \<Rightarrow> 'a list \<Rightarrow> 'a list list" where
  "buffer_loop n batch [] = (if batch = [] then [] else [batch])"
| "buffer_loop n batch (v # vs) =
     (if n \<le> length (batch @ [v]) then (batch @ [v]) # buffer_loop n [] vs else buffer_loop n (batch @ [v]) vs)"

definition stream_Buffer :: "bool \<Rightarrow> int \<Rightarrow> nat option \<Rightarrow> 'a source \<Rightarrow> 'a list stream_out" where
  "stream_Buffer early n cap src =
    (if n \<le> 1 then stream_Map early cap (\<lambda>v. [v]) src
     else let out = buffer_loop (nat n) [] (src_items src)
          in \<lparr>out_items = (case cap of None \<Rightarrow> out | Some k \<Rightarrow> take k out), out_err = None\<rparr>)"

section \<open>Debounce and Throttle\<close>

text \<open>Every element comes with whether the timer, set just before, has fired when it is polled.\<close>

fun debounce_loop :: "('a \<times> bool) list \<Rightarrow> 'a option \<Rightarrow> 'a list" where
  "debounce_loop [] pending = (case pending of None \<Rightarrow> [] | Some v \<Rightarrow> [v])"
| "debounce_loop ((v, fired) # vs) pending =
     (if fired then v # debounce_loop vs None else debounce_loop vs (Some v))"

definition stream_Debounce :: "('a \<times> bool) source \<Rightarrow> 'a stream_out" where
  "stream_Debounce src = \<lparr>out_items = debounce_loop (src_items src) None, out_err = None\<rparr>"

text \<open>
  Every element comes with its arrival.  The ticker keeps one tick: there is one
  at a poll exactly when it ticked after the last poll that took one.
\<close>

definition ticked :: "int \<Rightarrow> int \<Rightarrow> int \<Rightarrow> bool" where
  "ticked d taken t \<longleftrightarrow> taken div d < t div d"

fun throttle_loop :: "int \<Rightarrow> bool \<Rightarrow> int \<Rightarrow> (int \<times> 'a) list \<Rightarrow> (int \<times> 'a) list" where
  "throttle_loop d ready taken [] = []"
| "throttle_loop d ready taken ((t, v) # vs) =
     (if ready then (t, v) # throttle_loop d False taken vs
      else if ticked d taken t then (t, v) # throttle_loop d True t vs
      else throttle_loop d False taken vs)"

definition stream_Throttle :: "int \<Rightarrow> (int \<times> 'a) source \<Rightarrow> (int \<times> 'a) stream_out" where
  "stream_Throttle d src = \<lparr>out_items = throttle_loop d True 0 (src_items src), out_err = None\<rparr>"

section \<open>The iterator is a queue\<close>

lemma itr_exec_fifo:
  "acc = got @ itr_buffer it \<Longrightarrow> itr_exec p (it, acc, got) = (it', acc', got') \<Longrightarrow> acc' = got' @ itr_buffer it'"
  by (cases p) (auto simp: itr_Send_def itr_Next_def itr_Close_def CloseWithError_def watchContext_def split: if_splits list.splits)

lemma itr_exec_cap:
  "length (itr_buffer it) \<le> itr_cap it \<Longrightarrow> itr_exec p (it, acc, got) = (it', acc', got') \<Longrightarrow>
   length (itr_buffer it') \<le> itr_cap it' \<and> itr_cap it' = itr_cap it \<and> (itr_closed it \<longrightarrow> itr_closed it' \<and> acc' = acc)"
  by (cases p) (auto simp: itr_Send_def itr_Next_def itr_Close_def CloseWithError_def watchContext_def split: if_splits list.splits)

text \<open>
  Over every sequence of sends, receives and closes, what was received is a
  prefix of what was accepted and the rest is in the buffer, in order and within
  its capacity.
\<close>

theorem iterator_fifo:
  "case fold itr_exec ops (NewAsyncIterator n, [], []) of (it, acc, got) \<Rightarrow>
     acc = got @ itr_buffer it \<and> length (itr_buffer it) \<le> (if n \<le> 0 then 100 else nat n)"
proof -
  have "case fold itr_exec ops (NewAsyncIterator n, [], []) of (it, acc, got) \<Rightarrow>
      acc = got @ itr_buffer it \<and> length (itr_buffer it) \<le> itr_cap it \<and> itr_cap it = (if n \<le> 0 then 100 else nat n)"
  proof (induction ops rule: rev_induct)
    case Nil
    show ?case by (simp add: NewAsyncIterator_def)
  next
    case (snoc p ops)
    obtain it acc got where st: "fold itr_exec ops (NewAsyncIterator n, [], []) = (it, acc, got)" by (metis prod_cases3)
    obtain it' acc' got' where st': "itr_exec p (it, acc, got) = (it', acc', got')" by (metis prod_cases3)
    have "fold itr_exec (ops @ [p]) (NewAsyncIterator n, [], []) = (it', acc', got')" using st st' by simp
    moreover have "acc = got @ itr_buffer it" "length (itr_buffer it) \<le> itr_cap it" "itr_cap it = (if n \<le> 0 then 100 else nat n)"
      using snoc by (simp_all add: st)
    ultimately show ?case using itr_exec_fifo [OF _ st'] itr_exec_cap [OF _ st'] by simp
  qed
  then show ?thesis by (auto split: prod.splits)
qed

text \<open>An error recorded after the close replaces what the consumer may already have read.\<close>

lemma late_error_overwrites: "itr_err (CloseWithError e2 (CloseWithError e1 it)) = Some e2"
  by (simp add: CloseWithError_def)

section \<open>What the transforms yield\<close>

definition room :: "nat option \<Rightarrow> nat \<Rightarrow> nat \<Rightarrow> nat" where
  "room cap used n = (case cap of None \<Rightarrow> n | Some k \<Rightarrow> min n (k - used))"

lemma map_loop_spec: "map_loop cap f vs sent = (sent @ map f (take (room cap (length sent) (length vs)) vs), room cap (length sent) (length vs) = length vs)"
proof (induction vs arbitrary: sent)
  case (Cons v vs)
  show ?case
  proof (cases cap)
    case None
    then show ?thesis using Cons.IH [of "sent @ [f v]"] by (simp add: accepts_def room_def)
  next
    case (Some k)
    show ?thesis
    proof (cases "length sent < k")
      case True
      then have "k - length sent = Suc (k - Suc (length sent))" by simp
      then show ?thesis using True Cons.IH [of "sent @ [f v]"] by (simp add: Some accepts_def room_def)
    qed (simp add: Some accepts_def room_def)
  qed
qed (simp add: room_def split: option.splits)

lemma map_all: "stream_Map early None f src = \<lparr>out_items = map f (src_items src), out_err = src_err src\<rparr>"
  by (simp add: stream_Map_def map_loop_spec room_def close_like_def shown_err_def)

lemma filter_all: "stream_Filter early None p src = \<lparr>out_items = filter p (src_items src), out_err = src_err src\<rparr>"
proof -
  have "filter_loop None p vs sent = (sent @ filter p vs, True)" for vs sent
    by (induction vs arbitrary: sent) (auto simp: accepts_def)
  then show ?thesis by (simp add: stream_Filter_def close_like_def shown_err_def)
qed

text \<open>Up to the first error of the function nothing is lost; the error is shown unless the source has one of its own.\<close>

lemma maperr_loop_spec:
  "maperr_loop None f (map v us @ ws) sent =
     (case ws of [] \<Rightarrow> ((sent @ us, True), None) | w # _ \<Rightarrow> ((sent @ us, False), Some e))"
  if "\<And>u. u \<in> set us \<Longrightarrow> f (v u) = Inr u" and "ws \<noteq> [] \<Longrightarrow> f (hd ws) = Inl e"
  using that by (induction us arbitrary: sent) (auto simp: accepts_def split: list.splits)

lemma maperr_first_error:
  assumes "src_items src = map v us @ w # ws" and "\<And>u. u \<in> set us \<Longrightarrow> f (v u) = Inr u" and "f w = Inl e"
  shows "stream_MapErr early None f src =
    \<lparr>out_items = us, out_err = (if early \<and> src_err src \<noteq> None then src_err src else Some e)\<rparr>"
  using assms maperr_loop_spec [of us f v "w # ws" e "[]"]
  by (auto simp: stream_MapErr_def shown_err_def split: option.splits)

lemma concat_all: "stream_Concat early None srcs = \<lparr>out_items = concat (map src_items srcs), out_err = first_error (map src_err srcs)\<rparr>"
proof -
  have "concat_loop None srcs sent = (sent @ concat (map src_items srcs), map (\<lambda>_. True) srcs)" for srcs :: "'a source list" and sent
    by (induction srcs arbitrary: sent) (simp_all add: map_loop_spec room_def)
  moreover have "map2 (shown_err early) (map (\<lambda>_. True) xs) xs = map src_err xs" for xs :: "'a source list"
    by (induction xs) (simp_all add: shown_err_def)
  ultimately show ?thesis by (simp add: stream_Concat_def)
qed

lemma buffer_loop_spec:
  "0 < n \<Longrightarrow> length batch < n \<Longrightarrow>
   concat (buffer_loop n batch vs) = batch @ vs \<and> (\<forall>b \<in> set (buffer_loop n batch vs). b \<noteq> [] \<and> length b \<le> n) \<and>
   (\<forall>b \<in> set (butlast (buffer_loop n batch vs)). length b = n)"
proof (induction n batch vs rule: buffer_loop.induct)
  case (2 n batch v vs)
  show ?case
  proof (cases "n \<le> length (batch @ [v])")
    case True
    then have full: "length (batch @ [v]) = n" using 2(4) by simp
    have "concat (buffer_loop n [] vs) = vs" "\<forall>b \<in> set (buffer_loop n [] vs). b \<noteq> [] \<and> length b \<le> n"
      "\<forall>b \<in> set (butlast (buffer_loop n [] vs)). length b = n"
      using 2(1) [OF True 2(3)] 2(3) by simp_all
    then show ?thesis using True full by (simp del: length_append)
  next
    case False
    then show ?thesis using 2(2) [OF False 2(3)] by (simp del: length_append)
  qed
qed simp

lemma buffer_batches:
  assumes "1 < n"
  shows "concat (out_items (stream_Buffer early n None src)) = src_items src \<and>
    (\<forall>b \<in> set (out_items (stream_Buffer early n None src)). b \<noteq> [] \<and> int (length b) \<le> n) \<and>
    (\<forall>b \<in> set (butlast (out_items (stream_Buffer early n None src))). int (length b) = n)"
  using assms buffer_loop_spec [of "nat n" "[]" "src_items src"] by (auto simp: stream_Buffer_def Let_def)

text \<open>A source error ends in a clean end of the batches, of the debounced and of the throttled stream.\<close>

lemma errors_swallowed:
  "1 < n \<Longrightarrow> out_err (stream_Buffer early n cap src) = None" "out_err (stream_Debounce s2) = None" "out_err (stream_Throttle d s3) = None"
  by (simp_all add: stream_Buffer_def stream_Debounce_def stream_Throttle_def Let_def)

text \<open>Unless a timer fires in the instant after it is set, a debounce yields the last element only.\<close>

lemma debounce_last_only:
  "\<forall>p \<in> set (src_items src). \<not> snd p \<Longrightarrow> src_items src \<noteq> [] \<Longrightarrow> out_items (stream_Debounce src) = [fst (last (src_items src))]"
proof -
  have "\<forall>p \<in> set vs. \<not> snd p \<Longrightarrow> debounce_loop vs pending = (if vs = [] then (case pending of None \<Rightarrow> [] | Some v \<Rightarrow> [v]) else [fst (last vs)])"
    for vs :: "('a \<times> bool) list" and pending
    by (induction vs pending rule: debounce_loop.induct) auto
  then show "\<forall>p \<in> set (src_items src). \<not> snd p \<Longrightarrow> src_items src \<noteq> [] \<Longrightarrow> ?thesis" by (simp add: stream_Debounce_def)
qed

text \<open>A taken tick lets two elements through, however close they are.\<close>

lemma throttle_two_per_tick:
  "out_items (stream_Throttle 10 \<lparr>src_items = [(0, a), (11, b), (12, c)], src_err = None\<rparr>) = [(0, a), (11, b), (12, c)]"
  by (simp add: stream_Throttle_def ticked_def)

section \<open>A merge interleaves\<close>

definition merge_ok :: "'a source list \<Rightarrow> nat option \<Rightarrow> 'a merge \<Rightarrow> 'a list list \<Rightarrow> bool" where
  "merge_ok srcs cap m cs \<longleftrightarrow>
    length cs = length srcs \<and> length (mg_pending m) = length srcs \<and> length (mg_running m) = length srcs \<and>
    (\<forall>i < length srcs. src_items (srcs ! i) = cs ! i @ mg_pending m ! i \<and> subseq (cs ! i) (mg_sent m)) \<and>
    mset (mg_sent m) = (\<Sum>c \<leftarrow> cs. mset c) \<and>
    (cap = None \<longrightarrow> \<not> mg_cancelled m \<longrightarrow> (\<forall>i < length srcs. \<not> mg_running m ! i \<longrightarrow> mg_pending m ! i = []))"

lemma sum_list_update_mset:
  "i < length cs \<Longrightarrow> (\<Sum>c \<leftarrow> cs[i := cs ! i @ [v]]. mset c) = (\<Sum>c \<leftarrow> cs. mset c) + {#v#}"
  by (induction cs arbitrary: i) (auto split: nat.splits simp: nth_Cons')

lemma merge_ok_step: "merge_step cap m m' \<Longrightarrow> merge_ok srcs cap m cs \<Longrightarrow> \<exists>cs'. merge_ok srcs cap m' cs'"
proof (induction rule: merge_step.induct)
  case (merge_send i m v vs)
  then have i: "i < length srcs" "i < length cs" by (simp_all add: merge_ok_def)
  have "merge_ok srcs cap (m\<lparr>mg_pending := (mg_pending m)[i := vs], mg_sent := mg_sent m @ [v]\<rparr>) (cs[i := cs ! i @ [v]])"
    using merge_send i unfolding merge_ok_def
    by (auto simp: nth_list_update sum_list_update_mset intro: subseq_order.trans [OF _ subseq_rev_drop_many] list_emb_append2)
  then show ?case by blast
qed (auto simp: merge_ok_def nth_list_update accepts_def intro!: exI [of _ cs])

text \<open>
  Whatever the scheduling, a merge sends from every source a prefix of it,
  in its order, and nothing else; when it closes without a cancelled context and
  the consumer took everything, it has sent all of them.
\<close>

theorem merge_interleaves:
  assumes "(merge_step cap)\<^sup>*\<^sup>* (merge_start srcs) m"
  shows "(\<exists>cs. length cs = length srcs \<and> mset (mg_sent m) = (\<Sum>c \<leftarrow> cs. mset c) \<and>
      (\<forall>i < length srcs. prefix (cs ! i) (src_items (srcs ! i)) \<and> subseq (cs ! i) (mg_sent m))) \<and>
    (merge_closed m = Some out \<longrightarrow> cap = None \<longrightarrow> \<not> mg_cancelled m \<longrightarrow>
      (\<forall>i < length srcs. subseq (src_items (srcs ! i)) (out_items out)) \<and> mset (out_items out) = (\<Sum>s \<leftarrow> srcs. mset (src_items s)))"
proof -
  have "\<exists>cs. merge_ok srcs cap m cs" using assms
  proof (induction rule: rtranclp_induct)
    case base
    show ?case by (rule exI [of _ "map (\<lambda>_. []) srcs"]) (auto simp: merge_ok_def merge_start_def sum_list_triv comp_def)
  qed (blast intro: merge_ok_step)
  then obtain cs where ok: "merge_ok srcs cap m cs" by blast
  have "(\<forall>i < length srcs. subseq (src_items (srcs ! i)) (out_items out)) \<and> mset (out_items out) = (\<Sum>s \<leftarrow> srcs. mset (src_items s))"
    if "merge_closed m = Some out" "cap = None" "\<not> mg_cancelled m"
  proof -
    have out: "out_items out = mg_sent m" and stopped: "\<not> list_ex id (mg_running m)"
      using that(1) by (auto simp: merge_closed_def split: if_splits)
    have len: "length cs = length srcs" using ok by (simp add: merge_ok_def)
    have all: "cs ! i = src_items (srcs ! i)" if "i < length srcs" for i
      using ok stopped that \<open>cap = None\<close> \<open>\<not> mg_cancelled m\<close> by (auto simp: merge_ok_def list_ex_length)
    then have "cs = map src_items srcs" using len by (intro nth_equalityI) simp_all
    then have "(\<Sum>c \<leftarrow> cs. mset c) = (\<Sum>s \<leftarrow> srcs. mset (src_items s))" by (simp add: comp_def)
    then show ?thesis using ok all by (auto simp: merge_ok_def out)
  qed
  then show ?thesis using ok by (auto simp: merge_ok_def prefix_def intro!: exI [of _ cs])
qed

definition two_sources :: "nat source list" where
  "two_sources = [\<lparr>src_items = [1], src_err = None\<rparr>, \<lparr>src_items = [2], src_err = None\<rparr>]"

theorem merge_interleaves_witness:
  "\<exists>cs. length cs = length two_sources \<and> mset (mg_sent (merge_start two_sources)) = (\<Sum>c \<leftarrow> cs. mset c)"
  using conjunct1 [OF merge_interleaves [OF rtranclp.rtrancl_refl [of "merge_step None" "merge_start two_sources"]]] by blast

end
