(* ===== verification/GraphInterrupt.thy ===== *)
theory GraphInterrupt
  imports GraphRun Messages "HOL-Library.Multiset"
begin

text \<open>
  Interrupt nodes (\<open>graph/interrupt.go\<close>): the handle through which a signal is
  injected, the checkpoint and the event of an interrupt, the wait for the
  signal, and the transform function of the node.  Every execution of the node
  waits on the handle's channel through a relay goroutine of its own; the steps
  of handle, relays and waits interleave freely.  What a state value holds as
  messages is the parameter \<open>msgs_of\<close>, the clock and the outcome of \<open>Save\<close>
  are arguments.
\<close>

section \<open>Handle and waits\<close>

datatype relay = Reading | Holding string | RelayClosed | RelayDone

datatype wait_result = Resumed string | CancelledByUser | HandleClosed | WaitTimeout | WaitCtxDone

record wait =
  wt_relay :: relay
  wt_timed :: bool
  wt_result :: "wait_result option"

text \<open>The channel holds one signal; \<open>it_accepted\<close> lists what \<open>InjectInput\<close> took, for the statements only.\<close>

record interrupt =
  it_queue :: "string option"
  it_closed :: bool
  it_checkID :: string
  it_waits :: "wait list"
  it_accepted :: "string list"

definition new_handle :: interrupt where
  "new_handle = \<lparr>it_queue = None, it_closed = False, it_checkID = [], it_waits = [], it_accepted = []\<rparr>"

datatype inject_error = HandleIsClosed | BufferFull

definition InjectInput :: "string \<Rightarrow> interrupt \<Rightarrow> inject_error option \<times> interrupt" where
  "InjectInput input h =
    (if it_closed h then (Some HandleIsClosed, h)
     else if it_queue h \<noteq> None then (Some BufferFull, h)
     else (None, h\<lparr>it_queue := Some input, it_accepted := it_accepted h @ [input]\<rparr>))"

definition handle_Close :: "interrupt \<Rightarrow> interrupt" where
  "handle_Close h = h\<lparr>it_closed := True\<rparr>"

definition begin_wait :: "int \<Rightarrow> interrupt \<Rightarrow> interrupt" where
  "begin_wait timeout h = h\<lparr>it_waits := it_waits h @ [\<lparr>wt_relay = Reading, wt_timed = (timeout > 0), wt_result = None\<rparr>]\<rparr>"

text \<open>What a wait makes of a signal.\<close>

definition handle_input :: "string \<Rightarrow> wait_result" where
  "handle_input input = (if input = ''stop'' \<or> input = ''cancel'' then CancelledByUser else Resumed input)"

definition set_wait :: "nat \<Rightarrow> wait \<Rightarrow> interrupt \<Rightarrow> interrupt" where
  "set_wait i w h = h\<lparr>it_waits := (it_waits h)[i := w]\<rparr>"

inductive int_step :: "interrupt \<Rightarrow> interrupt \<Rightarrow> bool" where
  inject: "int_step h (snd (InjectInput input h))"
| close: "int_step h (handle_Close h)"
| start: "int_step h (begin_wait timeout h)"
| relay_read: "i < length (it_waits h) \<Longrightarrow> wt_relay (it_waits h ! i) = Reading \<Longrightarrow> it_queue h = Some input \<Longrightarrow>
    int_step h ((set_wait i ((it_waits h ! i)\<lparr>wt_relay := Holding input\<rparr>) h)\<lparr>it_queue := None\<rparr>)"
| relay_closed: "i < length (it_waits h) \<Longrightarrow> wt_relay (it_waits h ! i) = Reading \<Longrightarrow> it_queue h = None \<Longrightarrow> it_closed h \<Longrightarrow>
    int_step h (set_wait i ((it_waits h ! i)\<lparr>wt_relay := RelayClosed\<rparr>) h)"
| take_input: "i < length (it_waits h) \<Longrightarrow> wt_result (it_waits h ! i) = None \<Longrightarrow> wt_relay (it_waits h ! i) = Holding input \<Longrightarrow>
    int_step h (set_wait i ((it_waits h ! i)\<lparr>wt_relay := RelayDone, wt_result := Some (handle_input input)\<rparr>) h)"
| take_closed: "i < length (it_waits h) \<Longrightarrow> wt_result (it_waits h ! i) = None \<Longrightarrow> wt_relay (it_waits h ! i) = RelayClosed \<Longrightarrow>
    int_step h (set_wait i ((it_waits h ! i)\<lparr>wt_relay := RelayDone, wt_result := Some HandleClosed\<rparr>) h)"
| timed_out: "i < length (it_waits h) \<Longrightarrow> wt_result (it_waits h ! i) = None \<Longrightarrow> wt_timed (it_waits h ! i) \<Longrightarrow>
    int_step h (set_wait i ((it_waits h ! i)\<lparr>wt_result := Some WaitTimeout\<rparr>) h)"
| ctx_done: "i < length (it_waits h) \<Longrightarrow> wt_result (it_waits h ! i) = None \<Longrightarrow>
    int_step h (set_wait i ((it_waits h ! i)\<lparr>wt_result := Some WaitCtxDone\<rparr>) h)"

section \<open>The node\<close>

record int_checkpoint =
  ck_ID :: string
  ck_AgentName :: string
  ck_Messages :: messages
  ck_StepIndex :: int
  ck_node :: string

definition interrupt_node_id :: "graph_state \<Rightarrow> string" where
  "interrupt_node_id s = (case gs_Get ''__node_id'' s of Some (AnyStr nid) \<Rightarrow> nid | _ \<Rightarrow> ''interrupt'')"

definition checkpoint_of :: "(go_any \<Rightarrow> messages option) \<Rightarrow> nat \<Rightarrow> graph_state \<Rightarrow> string \<Rightarrow> int_checkpoint" where
  "checkpoint_of msgs_of now s nodeID =
    \<lparr>ck_ID = ''int_'' @ nodeID @ ''_'' @ decimal now, ck_AgentName = nodeID,
     ck_Messages = (case gs_Get ''messages'' s of Some v \<Rightarrow> (case msgs_of v of Some ms \<Rightarrow> ms | None \<Rightarrow> []) | None \<Rightarrow> []),
     ck_StepIndex = - 1, ck_node = nodeID\<rparr>"

text \<open>The store, when there is one, answers whether it saved.\<close>

definition saveCheckpoint ::
  "(go_any \<Rightarrow> messages option) \<Rightarrow> nat \<Rightarrow> (int_checkpoint \<Rightarrow> bool) option \<Rightarrow> graph_state \<Rightarrow> string \<Rightarrow> interrupt \<Rightarrow> interrupt" where
  "saveCheckpoint msgs_of now store s nodeID h =
    (case store of
       None \<Rightarrow> h
     | Some save \<Rightarrow>
        let cp = checkpoint_of msgs_of now s nodeID
        in if save cp then h\<lparr>it_checkID := ck_ID cp\<rparr> else h)"

definition wait_error :: "string \<Rightarrow> wait_result \<Rightarrow> go_error option" where
  "wait_error nodeID r =
    (case r of
       Resumed _ \<Rightarrow> None
     | CancelledByUser \<Rightarrow> Some (Errorf (''interrupt '' @ nodeID @ '': cancelled by user''))
     | HandleClosed \<Rightarrow> Some (Errorf (''interrupt '' @ nodeID @ '': handle closed''))
     | WaitTimeout \<Rightarrow> Some (Errorf (''interrupt '' @ nodeID @ '': timeout''))
     | WaitCtxDone \<Rightarrow> Some (Errorf ''context done''))"

text \<open>
  The transform function with the result of its wait: nested interrupts are
  skipped, the signal becomes the branch of the node.
\<close>

definition interrupt_fn :: "bool \<Rightarrow> wait_result \<Rightarrow> graph_state \<Rightarrow> go_error option \<times> graph_state" where
  "interrupt_fn in_progress r s =
    (if in_progress then (None, s)
     else let nodeID = interrupt_node_id s
          in case r of
               Resumed input \<Rightarrow>
                 (None, if input \<noteq> [] then fst (SetWithSource ''branch'' (AnyStr input) nodeID s) else s)
             | _ \<Rightarrow> (wait_error nodeID r, s))"

section \<open>No signal is lost or used twice\<close>

definition held_signal :: "wait \<Rightarrow> string multiset" where
  "held_signal w = (case wt_relay w of Holding s \<Rightarrow> {#s#} | _ \<Rightarrow> {#})"

text \<open>The signal a wait has consumed: its label, or that it was a stop.\<close>

definition used_by :: "wait \<Rightarrow> wait_result multiset" where
  "used_by w = (case wt_result w of Some (Resumed s) \<Rightarrow> {#Resumed s#} | Some CancelledByUser \<Rightarrow> {#CancelledByUser#} | _ \<Rightarrow> {#})"

definition signals_balanced :: "interrupt \<Rightarrow> bool" where
  "signals_balanced h \<longleftrightarrow>
    image_mset handle_input (mset (it_accepted h)) =
      \<Sum>\<^sub># (image_mset used_by (mset (it_waits h)))
      + image_mset handle_input (\<Sum>\<^sub># (image_mset held_signal (mset (it_waits h)))
                                 + (case it_queue h of None \<Rightarrow> {#} | Some s \<Rightarrow> {#s#}))"

lemma waits_update:
  assumes "i < length ws"
  shows "\<Sum>\<^sub># (image_mset f (mset (ws[i := w]))) + f (ws ! i) = \<Sum>\<^sub># (image_mset f (mset ws)) + f w"
proof -
  have "mset ws = add_mset (ws ! i) (mset ws - {#ws ! i#})" using assms by simp
  then have "\<Sum>\<^sub># (image_mset f (mset ws)) = f (ws ! i) + \<Sum>\<^sub># (image_mset f (mset ws - {#ws ! i#}))"
    by (metis image_mset_add_mset sum_mset.insert)
  then show ?thesis using assms by (simp add: mset_update ac_simps)
qed

lemma balanced_set_wait:
  assumes "signals_balanced h" and "i < length (it_waits h)"
    and "used_by w + image_mset handle_input (held_signal w) = used_by (it_waits h ! i) + image_mset handle_input (held_signal (it_waits h ! i))"
  shows "signals_balanced (set_wait i w h)"
proof -
  let ?U = "\<lambda>ws. \<Sum>\<^sub># (image_mset used_by (mset ws))" and ?H = "\<lambda>ws. \<Sum>\<^sub># (image_mset held_signal (mset ws))"
  let ?ws = "it_waits h" and ?o = "it_waits h ! i"
  let ?f = "image_mset handle_input"
  have u: "?U (?ws[i := w]) + used_by ?o = ?U ?ws + used_by w" and l: "?H (?ws[i := w]) + held_signal ?o = ?H ?ws + held_signal w"
    using waits_update [OF assms(2)] by blast+
  have l': "?f (?H (?ws[i := w])) + ?f (held_signal ?o) = ?f (?H ?ws) + ?f (held_signal w)"
    using arg_cong [OF l, of ?f] by simp
  have "(?U (?ws[i := w]) + used_by ?o) + (?f (?H (?ws[i := w])) + ?f (held_signal ?o))
      = (?U ?ws + used_by w) + (?f (?H ?ws) + ?f (held_signal w))" by (simp only: u l')
  then have "(?U (?ws[i := w]) + ?f (?H (?ws[i := w]))) + (used_by ?o + ?f (held_signal ?o))
      = (?U ?ws + ?f (?H ?ws)) + (used_by w + ?f (held_signal w))"
    by (simp only: ac_simps)
  then have "?U (?ws[i := w]) + ?f (?H (?ws[i := w])) = ?U ?ws + ?f (?H ?ws)"
    using assms(3) by simp
  then show ?thesis using assms(1) by (simp add: signals_balanced_def set_wait_def add.assoc [symmetric])
qed

lemma balanced_read:
  assumes "signals_balanced h" and "i < length (it_waits h)" and "wt_relay (it_waits h ! i) = Reading" and "it_queue h = Some input"
  shows "signals_balanced ((set_wait i ((it_waits h ! i)\<lparr>wt_relay := Holding input\<rparr>) h)\<lparr>it_queue := None\<rparr>)"
proof -
  let ?w = "(it_waits h ! i)\<lparr>wt_relay := Holding input\<rparr>"
  have "\<Sum>\<^sub># (image_mset used_by (mset ((it_waits h)[i := ?w]))) = \<Sum>\<^sub># (image_mset used_by (mset (it_waits h)))"
    using waits_update [OF assms(2), of used_by ?w] by (simp add: used_by_def)
  moreover have "\<Sum>\<^sub># (image_mset held_signal (mset ((it_waits h)[i := ?w]))) = \<Sum>\<^sub># (image_mset held_signal (mset (it_waits h))) + {#input#}"
    using waits_update [OF assms(2), of held_signal ?w] assms(3) by (simp add: held_signal_def)
  ultimately show ?thesis using assms(1,4) by (simp add: signals_balanced_def set_wait_def)
qed

lemma balanced_step: "int_step h h' \<Longrightarrow> signals_balanced h \<Longrightarrow> signals_balanced h'"
proof (induction rule: int_step.induct)
  case (inject h input)
  then show ?case by (auto simp: InjectInput_def signals_balanced_def)
next
  case (close h)
  then show ?case by (simp add: signals_balanced_def handle_Close_def)
next
  case (start h timeout)
  then show ?case by (simp add: begin_wait_def signals_balanced_def used_by_def held_signal_def)
next
  case (relay_read i h input)
  then show ?case by (intro balanced_read)
next
  case (take_input i h input)
  then show ?case by (intro balanced_set_wait) (auto simp: used_by_def held_signal_def handle_input_def)
qed (rule balanced_set_wait; simp add: used_by_def held_signal_def)+

lemma balanced_reachable: "int_step\<^sup>*\<^sup>* new_handle h \<Longrightarrow> signals_balanced h"
proof (induction rule: rtranclp_induct)
  case base
  show ?case by (simp add: signals_balanced_def new_handle_def)
qed (rule balanced_step)

text \<open>
  C40. Whatever the interleaving of injections, closing, waits, timeouts and
  relays, every accepted signal is in exactly one place: consumed by one wait,
  held by a relay, or still in the channel.  So a wait resumes with a label only
  if that label was injected and is neither stop nor cancel, and at most as many
  waits end by a signal as signals were accepted.
\<close>

theorem signals_used_once:
  assumes "int_step\<^sup>*\<^sup>* new_handle h"
  shows "signals_balanced h \<and>
    (\<forall>w \<in> set (it_waits h). \<forall>s. wt_result w = Some (Resumed s) \<longrightarrow> s \<in> set (it_accepted h) \<and> s \<noteq> ''stop'' \<and> s \<noteq> ''cancel'') \<and>
    size (\<Sum>\<^sub># (image_mset used_by (mset (it_waits h)))) \<le> length (it_accepted h)"
proof -
  let ?U = "\<Sum>\<^sub># (image_mset used_by (mset (it_waits h)))"
  have bal: "signals_balanced h" using assms by (rule balanced_reachable)
  then obtain M where M: "image_mset handle_input (mset (it_accepted h)) = ?U + M"
    by (auto simp: signals_balanced_def)
  have "size ?U \<le> size (image_mset handle_input (mset (it_accepted h)))" by (simp only: M size_union)
  then have size: "size ?U \<le> length (it_accepted h)" by simp
  have "s \<in> set (it_accepted h) \<and> s \<noteq> ''stop'' \<and> s \<noteq> ''cancel''" if w: "w \<in> set (it_waits h)" "wt_result w = Some (Resumed s)" for w s
  proof -
    have "Resumed s \<in># ?U" using w by (force simp: used_by_def)
    then have "Resumed s \<in># image_mset handle_input (mset (it_accepted h))" unfolding M by simp
    then show ?thesis by (auto simp: handle_input_def split: if_splits)
  qed
  then show ?thesis using bal size by blast
qed

section \<open>A signal can be lost to a wait that is over\<close>

lemma lost_stays_lost:
  "int_step h h' \<Longrightarrow> i < length (it_waits h) \<Longrightarrow> wt_relay (it_waits h ! i) = Holding s \<Longrightarrow> wt_result (it_waits h ! i) \<noteq> None \<Longrightarrow>
   i < length (it_waits h') \<and> wt_relay (it_waits h' ! i) = Holding s \<and> wt_result (it_waits h' ! i) \<noteq> None"
  by (induction rule: int_step.induct)
    (auto simp: InjectInput_def handle_Close_def begin_wait_def set_wait_def nth_append nth_list_update)

text \<open>
  The relay of a wait that ended by a timeout or a cancelled context stays
  at the channel, and it may take the next signal before the relay of the wait
  that is now pending: the signal is then accepted and never resumes anything,
  in no continuation.
\<close>

theorem signal_lost_to_stale_wait:
  "\<exists>h. int_step\<^sup>*\<^sup>* new_handle h \<and> it_accepted h = [''approve''] \<and> it_queue h = None \<and>
     wt_result (it_waits h ! 0) = Some WaitTimeout \<and> wt_relay (it_waits h ! 0) = Holding ''approve'' \<and>
     length (it_waits h) = 2 \<and> wt_result (it_waits h ! 1) = None \<and> wt_relay (it_waits h ! 1) = Reading \<and>
     (\<forall>h'. int_step\<^sup>*\<^sup>* h h' \<longrightarrow> wt_relay (it_waits h' ! 0) = Holding ''approve'' \<and> wt_result (it_waits h' ! 0) \<noteq> None)"
proof -
  let ?w = "\<lparr>wt_relay = Reading, wt_timed = True, wt_result = None\<rparr>"
  let ?t = "?w\<lparr>wt_result := Some WaitTimeout\<rparr>"
  let ?l = "?t\<lparr>wt_relay := Holding ''approve''\<rparr>"
  define h where "h = new_handle\<lparr>it_waits := [?l, ?w], it_accepted := [''approve'']\<rparr>"
  have s1: "int_step new_handle (new_handle\<lparr>it_waits := [?w]\<rparr>)"
    using int_step.start [of new_handle 1] by (simp add: begin_wait_def new_handle_def)
  have s2: "int_step (new_handle\<lparr>it_waits := [?w]\<rparr>) (new_handle\<lparr>it_waits := [?t]\<rparr>)"
    using int_step.timed_out [of 0 "new_handle\<lparr>it_waits := [?w]\<rparr>"] by (simp add: set_wait_def)
  have s3: "int_step (new_handle\<lparr>it_waits := [?t]\<rparr>) (new_handle\<lparr>it_waits := [?t, ?w]\<rparr>)"
    using int_step.start [of "new_handle\<lparr>it_waits := [?t]\<rparr>" 1] by (simp add: begin_wait_def)
  let ?q = "new_handle\<lparr>it_waits := [?t, ?w], it_queue := Some ''approve'', it_accepted := [''approve'']\<rparr>"
  have s4: "int_step (new_handle\<lparr>it_waits := [?t, ?w]\<rparr>) ?q"
    using int_step.inject [of "new_handle\<lparr>it_waits := [?t, ?w]\<rparr>" "''approve''"] by (simp add: InjectInput_def new_handle_def)
  have s5: "int_step ?q h"
    using int_step.relay_read [of 0 ?q "''approve''"] by (simp add: h_def set_wait_def new_handle_def)
  have "int_step\<^sup>*\<^sup>* new_handle h"
    using s1 s2 s3 s4 s5 by (meson converse_rtranclp_into_rtranclp rtranclp.rtrancl_refl)
  moreover have "0 < length (it_waits h') \<and> wt_relay (it_waits h' ! 0) = Holding ''approve'' \<and> wt_result (it_waits h' ! 0) \<noteq> None"
    if "int_step\<^sup>*\<^sup>* h h'" for h'
    using that
  proof (induction rule: rtranclp_induct)
    case base
    show ?case by (simp add: h_def)
  next
    case (step y z)
    then show ?case using lost_stays_lost [of y z 0 "''approve''"] by blast
  qed
  ultimately show ?thesis by (intro exI [of _ h]) (simp add: h_def new_handle_def)
qed

theorem signals_used_once_witness:
  "\<exists>h. int_step\<^sup>*\<^sup>* new_handle h \<and> it_accepted h = [''go''] \<and> size (\<Sum>\<^sub># (image_mset used_by (mset (it_waits h)))) \<le> 1"
proof -
  have "int_step new_handle (snd (InjectInput ''go'' new_handle))" by (rule inject)
  then have r: "int_step\<^sup>*\<^sup>* new_handle (snd (InjectInput ''go'' new_handle))" by blast
  show ?thesis
    using signals_used_once [OF r] r by (intro exI [of _ "snd (InjectInput ''go'' new_handle)"]) (simp add: InjectInput_def new_handle_def)
qed

section \<open>The node in the graph\<close>

text \<open>A resumed node routes by the injected label; every other end of the wait is an error and leaves the state alone.\<close>

lemma interrupt_routes:
  "interrupt_fn False (Resumed l) s = (e, s') \<Longrightarrow> l \<noteq> [] \<Longrightarrow> e = None \<and> branch_of (Some s') = l"
  "\<forall>l. r \<noteq> Resumed l \<Longrightarrow> fst (interrupt_fn False r s) \<noteq> None \<and> snd (interrupt_fn False r s) = s"
  by (auto simp: interrupt_fn_def wait_error_def branch_of_def SetWithSource_def gs_Get_def Let_def split: wait_result.splits)

text \<open>No code sets \<open>__node_id\<close>: without it every interrupt node saves its checkpoints under the same name.\<close>

lemma interrupt_unnamed: "gs_Get ''__node_id'' s = None \<Longrightarrow> ck_AgentName (checkpoint_of msgs_of now s (interrupt_node_id s)) = ''interrupt''"
  by (simp add: checkpoint_of_def interrupt_node_id_def)

end
