(* ===== verification/WorkflowEngine.thy ===== *)
theory WorkflowEngine
  imports GoJson "HOL-Library.Sublist"
begin

text \<open>
  The declarative workflow engine (\<open>agents/workflow\<close>): the schema subset and its
  validation, the parsing of a spec, the first-in first-out semaphore, the stage
  item and the run.  The JSON codecs are parameters; what the registry and the
  child of a stage item answer is an argument, and so is the stage before which
  an item notices that the run was cancelled.
\<close>

section \<open>Schemas\<close>

datatype schema = Schema (sm_type: string) (sm_properties: "(string \<times> schema) list") (sm_required: "string list")
  (sm_additional: "bool option") (sm_items: "schema option") (sm_enum: "json list option") (sm_const: "json option")
  (sm_oneOf: "schema list")

definition schemaKeywords :: "string list" where
  "schemaKeywords = [''type'', ''properties'', ''required'', ''additionalProperties'', ''items'', ''enum'', ''const'', ''oneOf'']"

text \<open>A document that is null decodes into an empty map.  A schema that is nil accepts everything, as the empty one does.\<close>

fun checkSchemaKeywords :: "json \<Rightarrow> bool" where
  "checkSchemaKeywords (JObject kvs) =
     list_all (\<lambda>(k, v). k \<in> set schemaKeywords \<and>
       (if k = ''properties'' then (case v of JObject ps \<Rightarrow> list_all (\<lambda>(n, s). checkSchemaKeywords s) ps | JNull \<Rightarrow> True | _ \<Rightarrow> False)
        else if k = ''items'' then checkSchemaKeywords v
        else if k = ''oneOf'' then (case v of JArray as \<Rightarrow> list_all checkSchemaKeywords as | JNull \<Rightarrow> True | _ \<Rightarrow> False)
        else True)) kvs"
| "checkSchemaKeywords JNull = True"
| "checkSchemaKeywords v = False"

text \<open>An integer is a number that a conversion to 64 bits and back leaves as it is.\<close>

definition typeMatches :: "string \<Rightarrow> json \<Rightarrow> bool" where
  "typeMatches t v =
    (if t = ''object'' then (case v of JObject _ \<Rightarrow> True | _ \<Rightarrow> False)
     else if t = ''array'' then (case v of JArray _ \<Rightarrow> True | _ \<Rightarrow> False)
     else if t = ''string'' then (case v of JString _ \<Rightarrow> True | _ \<Rightarrow> False)
     else if t = ''number'' then (case v of JNumber _ \<Rightarrow> True | _ \<Rightarrow> False)
     else if t = ''integer'' then (case v of JNumber n \<Rightarrow> n = of_int \<lfloor>n\<rfloor> \<and> - (2 ^ 63) \<le> n \<and> n < 2 ^ 63 | _ \<Rightarrow> False)
     else if t = ''boolean'' then (case v of JBool _ \<Rightarrow> True | _ \<Rightarrow> False)
     else if t = ''null'' then v = JNull
     else False)"

definition jsonEqual :: "json \<Rightarrow> json \<Rightarrow> bool" where
  "jsonEqual a b = (canonical a = canonical b)"

definition enumContains :: "json list \<Rightarrow> json \<Rightarrow> bool" where
  "enumContains enum v = list_ex (\<lambda>e. jsonEqual e v) enum"

fun schema_validate :: "schema \<Rightarrow> json \<Rightarrow> bool" where
  "schema_validate (Schema ty props req addl its en co one) v =
     ((ty \<noteq> [] \<longrightarrow> typeMatches ty v) \<and>
      (case en of None \<Rightarrow> True | Some es \<Rightarrow> enumContains es v) \<and>
      (case co of None \<Rightarrow> True | Some c \<Rightarrow> jsonEqual c v) \<and>
      (one \<noteq> [] \<longrightarrow> list_ex (\<lambda>alt. schema_validate alt v) one) \<and>
      (case v of
         JObject kvs \<Rightarrow>
           list_all (\<lambda>(n, sub). case map_of kvs n of None \<Rightarrow> True | Some val \<Rightarrow> schema_validate sub val) props \<and>
           list_all (\<lambda>n. map_of kvs n \<noteq> None) req \<and>
           (addl = Some False \<longrightarrow> list_all (\<lambda>(k, _). k \<in> fst ` set props) kvs)
       | JArray vs \<Rightarrow> (case its of None \<Rightarrow> True | Some s \<Rightarrow> list_all (schema_validate s) vs)
       | _ \<Rightarrow> True))"

section \<open>Specs\<close>

datatype wf_code = CodeInvalidSpec | CodeUnsupportedSchema | CodeAgentCap | CodeItemCap | CodeAgentStart | CodeCanceled

record wf_config =
  MaxConcurrent :: int
  MaxTotalAgents :: int
  MaxItemsPerCall :: int

definition wf_New :: "wf_config \<Rightarrow> wf_config" where
  "wf_New cfg = \<lparr>MaxConcurrent = (if MaxConcurrent cfg = 0 then 16 else MaxConcurrent cfg),
     MaxTotalAgents = (if MaxTotalAgents cfg = 0 then 1000 else MaxTotalAgents cfg),
     MaxItemsPerCall = (if MaxItemsPerCall cfg = 0 then 4096 else MaxItemsPerCall cfg)\<rparr>"

record raw_stage =
  rst_title :: string
  rst_prompt :: string
  rst_schema :: "json option"

record raw_spec =
  rsp_name :: string
  rsp_description :: string
  rsp_items :: "json list"
  rsp_stages :: "raw_stage list"

record stage =
  st_title :: string
  st_prompt :: string
  st_schema :: "schema option"

record spec =
  spec_name :: string
  spec_description :: string
  spec_items :: "json list"
  spec_stages :: "stage list"

definition parse_stage :: "(json \<Rightarrow> schema option) \<Rightarrow> raw_stage \<Rightarrow> wf_code + stage" where
  "parse_stage decode st =
    (if rst_prompt st = [] then Inl CodeInvalidSpec
     else case rst_schema st of
            None \<Rightarrow> Inr \<lparr>st_title = rst_title st, st_prompt = rst_prompt st, st_schema = None\<rparr>
          | Some raw \<Rightarrow>
              if \<not> checkSchemaKeywords raw then Inl CodeUnsupportedSchema
              else case decode raw of
                     None \<Rightarrow> Inl CodeInvalidSpec
                   | Some s \<Rightarrow> Inr \<lparr>st_title = rst_title st, st_prompt = rst_prompt st, st_schema = Some s\<rparr>)"

fun parse_stages :: "(json \<Rightarrow> schema option) \<Rightarrow> raw_stage list \<Rightarrow> wf_code + stage list" where
  "parse_stages decode [] = Inr []"
| "parse_stages decode (st # sts) =
     (case parse_stage decode st of
        Inl e \<Rightarrow> Inl e
      | Inr s \<Rightarrow> (case parse_stages decode sts of Inl e \<Rightarrow> Inl e | Inr ss \<Rightarrow> Inr (s # ss)))"

definition ParseSpec :: "(string \<Rightarrow> raw_spec option) \<Rightarrow> (json \<Rightarrow> schema option) \<Rightarrow> wf_config \<Rightarrow> string \<Rightarrow> wf_code + spec" where
  "ParseSpec unmarshal decode cfg raw =
    (case unmarshal raw of
       None \<Rightarrow> Inl CodeInvalidSpec
     | Some doc \<Rightarrow>
        if rsp_name doc = [] \<or> rsp_description doc = [] then Inl CodeInvalidSpec
        else if rsp_stages doc = [] then Inl CodeInvalidSpec
        else if int (length (rsp_items doc)) > MaxItemsPerCall cfg then Inl CodeItemCap
        else if int (length (rsp_items doc) * length (rsp_stages doc)) > MaxTotalAgents cfg then Inl CodeAgentCap
        else case parse_stages decode (rsp_stages doc) of
               Inl e \<Rightarrow> Inl e
             | Inr sts \<Rightarrow> Inr \<lparr>spec_name = rsp_name doc, spec_description = rsp_description doc,
                              spec_items = rsp_items doc, spec_stages = sts\<rparr>)"

section \<open>Slots\<close>

text \<open>Waiters are numbered; the last two fields record who came and who got a slot, for the statements.\<close>

record slots =
  sl_free :: nat
  sl_waiters :: "nat list"
  sl_holders :: "nat list"
  sl_arrived :: "nat list"
  sl_granted :: "nat list"

definition newSlotQueue :: "int \<Rightarrow> slots" where
  "newSlotQueue n = \<lparr>sl_free = (if n \<le> 0 then 1 else nat n), sl_waiters = [], sl_holders = [], sl_arrived = [], sl_granted = []\<rparr>"

definition slot_arrive :: "nat \<Rightarrow> slots \<Rightarrow> slots" where
  "slot_arrive w q =
    (if sl_free q > 0 then q\<lparr>sl_free := sl_free q - 1, sl_holders := w # sl_holders q,
        sl_arrived := sl_arrived q @ [w], sl_granted := sl_granted q @ [w]\<rparr>
     else q\<lparr>sl_waiters := sl_waiters q @ [w], sl_arrived := sl_arrived q @ [w]\<rparr>)"

text \<open>The context of a waiter ends: it leaves the queue, or keeps the slot that was handed to it.\<close>

definition slot_cancel :: "nat \<Rightarrow> slots \<Rightarrow> bool \<times> slots" where
  "slot_cancel w q = (if w \<in> set (sl_waiters q) then (False, q\<lparr>sl_waiters := remove1 w (sl_waiters q)\<rparr>) else (True, q))"

definition slot_release :: "nat \<Rightarrow> slots \<Rightarrow> slots" where
  "slot_release w q =
    (case sl_waiters q of
       x # xs \<Rightarrow> q\<lparr>sl_waiters := xs, sl_holders := x # remove1 w (sl_holders q), sl_granted := sl_granted q @ [x]\<rparr>
     | [] \<Rightarrow> q\<lparr>sl_free := sl_free q + 1, sl_holders := remove1 w (sl_holders q)\<rparr>)"

inductive slot_step :: "slots \<Rightarrow> slots \<Rightarrow> bool" where
  arrive: "w \<notin> set (sl_arrived q) \<Longrightarrow> slot_step q (slot_arrive w q)"
| cancel: "slot_step q (snd (slot_cancel w q))"
| release: "w \<in> set (sl_holders q) \<Longrightarrow> slot_step q (slot_release w q)"

section \<open>A stage of an item\<close>

text \<open>What the factory, the registry and the child answer.\<close>

datatype child_answer = NoAgent | RunFailed bool | NoResult | ChildFailed | ChildText string

datatype stage_outcome = StageFatal wf_code | StageNull | StageValue json

definition renderPrompt :: "(json \<Rightarrow> string option) \<Rightarrow> string \<Rightarrow> nat \<Rightarrow> json \<Rightarrow> string option" where
  "renderPrompt marshal tpl index item =
    (case marshal item of
       None \<Rightarrow> None
     | Some itemJSON \<Rightarrow> Some (ReplaceAll (ReplaceAll tpl ''{{item}}'' itemJSON) ''{{index}}'' (decimal index)))"

text \<open>The answer to the prompt; \<open>RunFailed\<close> says whether the context of the run had ended.  The second result: a child was started.\<close>

definition runStageItem ::
  "(json \<Rightarrow> string option) \<Rightarrow> (string \<Rightarrow> json option) \<Rightarrow> (string \<Rightarrow> child_answer) \<Rightarrow> nat \<Rightarrow> json \<Rightarrow> stage \<Rightarrow> stage_outcome \<times> bool" where
  "runStageItem marshal unmarshal child itemIdx item st =
    (case renderPrompt marshal (st_prompt st) itemIdx item of
       None \<Rightarrow> (StageFatal CodeInvalidSpec, False)
     | Some prompt \<Rightarrow>
        (case child prompt of
           NoAgent \<Rightarrow> (StageFatal CodeAgentStart, False)
         | RunFailed ctxDone \<Rightarrow> (if ctxDone then StageNull else StageFatal CodeAgentStart, False)
         | NoResult \<Rightarrow> (StageFatal CodeAgentStart, True)
         | ChildFailed \<Rightarrow> (StageNull, True)
         | ChildText t \<Rightarrow>
            (case st_schema st of
               None \<Rightarrow> (StageValue (JString t), True)
             | Some s \<Rightarrow>
                (case unmarshal t of
                   None \<Rightarrow> (StageNull, True)
                 | Some v \<Rightarrow> (if schema_validate s v then StageValue v else StageNull, True)))))"

section \<open>The run\<close>

record item_trace =
  tr_values :: "json option list"
  tr_fatal :: "wf_code option"
  tr_started :: nat
  tr_sawCancel :: bool

definition stop_item :: "nat \<Rightarrow> wf_code option \<Rightarrow> nat \<Rightarrow> bool \<Rightarrow> item_trace" where
  "stop_item n fatal started saw = \<lparr>tr_values = replicate n None, tr_fatal = fatal, tr_started = started, tr_sawCancel = saw\<rparr>"

text \<open>\<open>seenAt\<close>: the stage before which the item sees the context of the run cancelled.\<close>

fun run_item :: "nat option \<Rightarrow> (nat \<Rightarrow> stage \<Rightarrow> stage_outcome \<times> bool) \<Rightarrow> nat \<Rightarrow> stage list \<Rightarrow> item_trace" where
  "run_item seenAt run si [] = stop_item 0 None 0 False"
| "run_item seenAt run si (st # sts) =
     (if seenAt = Some si then stop_item (Suc (length sts)) None 0 True
      else case run si st of
             (StageFatal c, started) \<Rightarrow> stop_item (Suc (length sts)) (Some c) (of_bool started) False
           | (StageNull, started) \<Rightarrow> stop_item (Suc (length sts)) None (of_bool started) (\<not> started)
           | (StageValue v, started) \<Rightarrow>
               let rest = run_item seenAt run (Suc si) sts
               in rest\<lparr>tr_values := Some v # tr_values rest, tr_started := of_bool started + tr_started rest\<rparr>)"

text \<open>\<open>arrival\<close> is the order in which the items end; the first fatal error to arrive is kept.\<close>

definition wf_Run ::
  "nat list \<Rightarrow> bool \<Rightarrow> (nat \<Rightarrow> nat option) \<Rightarrow> (nat \<Rightarrow> json \<Rightarrow> nat \<Rightarrow> stage \<Rightarrow> stage_outcome \<times> bool) \<Rightarrow> spec
   \<Rightarrow> wf_code + (nat \<times> json option list list)" where
  "wf_Run arrival ctxDone cuts run sp =
    (let traces = map (\<lambda>i. run_item (cuts i) (run i (spec_items sp ! i)) 0 (spec_stages sp)) [0..<length (spec_items sp)];
         fatals = [c. i \<leftarrow> arrival, i < length traces, c \<leftarrow> (case tr_fatal (traces ! i) of None \<Rightarrow> [] | Some c \<Rightarrow> [c])]
     in case fatals of
          c # _ \<Rightarrow> Inl c
        | [] \<Rightarrow> if ctxDone then Inl CodeCanceled
                else Inr (sum_list (map tr_started traces), map tr_values traces))"

section \<open>Slots are given in order\<close>

definition slots_ok :: "nat \<Rightarrow> slots \<Rightarrow> bool" where
  "slots_ok n q \<longleftrightarrow> sl_free q + length (sl_holders q) = n \<and> (sl_waiters q \<noteq> [] \<longrightarrow> sl_free q = 0) \<and>
    subseq (sl_granted q @ sl_waiters q) (sl_arrived q)"

lemma slots_ok_step: "slot_step q q' \<Longrightarrow> slots_ok n q \<Longrightarrow> slots_ok n q'"
proof (induction rule: slot_step.induct)
  case (arrive w q)
  then have "subseq ((sl_granted q @ sl_waiters q) @ [w]) (sl_arrived q @ [w])"
    by (intro list_emb_append_mono) (simp_all add: slots_ok_def)
  then show ?case using arrive by (auto simp: slots_ok_def slot_arrive_def)
next
  case (cancel q w)
  have "subseq (remove1 w xs) xs" for xs :: "nat list" by (induction xs) auto
  then have "subseq (sl_granted q @ remove1 w (sl_waiters q)) (sl_granted q @ sl_waiters q)"
    by (intro list_emb_append_mono) simp_all
  then show ?case using cancel subseq_order.order_trans by (auto simp: slots_ok_def slot_cancel_def)
next
  case (release w q)
  then have "length (remove1 w (sl_holders q)) = length (sl_holders q) - 1" "0 < length (sl_holders q)"
    by (auto simp: length_remove1 intro: length_pos_if_in_set)
  then show ?case using release by (cases "sl_waiters q") (auto simp: slots_ok_def slot_release_def)
qed

text \<open>
  The semaphore never has more holders than slots, no one waits while a slot
  is free, and slots are granted strictly in the order of arrival: whoever got
  or still waits for one stands in that order.
\<close>

theorem slots_fifo:
  assumes "slot_step\<^sup>*\<^sup>* (newSlotQueue n) q"
  shows "sl_free q + length (sl_holders q) = (if n \<le> 0 then 1 else nat n) \<and> (sl_waiters q \<noteq> [] \<longrightarrow> sl_free q = 0) \<and>
    subseq (sl_granted q @ sl_waiters q) (sl_arrived q)"
proof -
  have "slots_ok (if n \<le> 0 then 1 else nat n) q" using assms
  proof (induction rule: rtranclp_induct)
    case base
    show ?case by (simp add: slots_ok_def newSlotQueue_def)
  qed (rule slots_ok_step)
  then show ?thesis by (simp add: slots_ok_def)
qed

theorem slots_fifo_witness:
  "\<exists>q :: slots. sl_granted q = [7] \<and> sl_waiters q = [8] \<and> sl_free q + length (sl_holders q) = 1"
proof -
  let ?q = "slot_arrive 8 (slot_arrive 7 (newSlotQueue 1))"
  have "slot_step (newSlotQueue 1) (slot_arrive 7 (newSlotQueue 1))" by (rule arrive) (simp add: newSlotQueue_def)
  moreover have "slot_step (slot_arrive 7 (newSlotQueue 1)) ?q" by (rule arrive) (simp add: newSlotQueue_def slot_arrive_def)
  ultimately have r: "slot_step\<^sup>*\<^sup>* (newSlotQueue 1) ?q" by (meson converse_rtranclp_into_rtranclp rtranclp.rtrancl_refl)
  have "sl_free ?q + length (sl_holders ?q) = 1" using slots_fifo [OF r] by simp
  moreover have "sl_granted ?q = [7]" "sl_waiters ?q = [8]" by (simp_all add: newSlotQueue_def slot_arrive_def)
  ultimately show ?thesis by blast
qed

section \<open>An item is on its own\<close>

lemma run_item_length: "length (tr_values (run_item seenAt run si sts)) = length sts"
  by (induction sts arbitrary: si) (auto simp: stop_item_def Let_def split: prod.splits stage_outcome.splits)

lemma run_item_started: "tr_started (run_item seenAt run si sts) \<le> length sts"
  by (induction sts arbitrary: si) (auto simp: stop_item_def Let_def intro: le_SucI split: prod.splits stage_outcome.splits)

text \<open>Undisturbed, the values are those of the stages up to the first that gives none.\<close>

lemma run_item_values:
  assumes "tr_fatal (run_item seenAt run si sts) = None" and "\<not> tr_sawCancel (run_item seenAt run si sts)"
  shows "\<exists>k \<le> length sts. (\<forall>j < k. \<exists>v. fst (run (si + j) (sts ! j)) = StageValue v \<and> tr_values (run_item seenAt run si sts) ! j = Some v) \<and>
    (\<forall>j < length sts. k \<le> j \<longrightarrow> tr_values (run_item seenAt run si sts) ! j = None) \<and>
    (k < length sts \<longrightarrow> fst (run (si + k) (sts ! k)) = StageNull)"
  using assms
proof (induction sts arbitrary: si)
  case (Cons st sts)
  obtain out started where run: "run si st = (out, started)" by (cases "run si st")
  have cut: "seenAt \<noteq> Some si" using Cons.prems by (auto simp: stop_item_def)
  show ?case
  proof (cases out)
    case (StageFatal c)
    then show ?thesis using Cons.prems run cut by (simp add: stop_item_def)
  next
    case StageNull
    then show ?thesis using run cut
      by (intro exI [of _ 0]) (auto simp: stop_item_def nth_Cons split: nat.splits)
  next
    case (StageValue v)
    then have run_it: "run_item seenAt run si (st # sts) = (run_item seenAt run (Suc si) sts)\<lparr>tr_values := Some v # tr_values (run_item seenAt run (Suc si) sts),
        tr_started := of_bool started + tr_started (run_item seenAt run (Suc si) sts)\<rparr>"
      using run cut by (simp add: Let_def)
    obtain k where k: "k \<le> length sts"
      "\<forall>j < k. \<exists>v. fst (run (Suc si + j) (sts ! j)) = StageValue v \<and> tr_values (run_item seenAt run (Suc si) sts) ! j = Some v"
      "\<forall>j < length sts. k \<le> j \<longrightarrow> tr_values (run_item seenAt run (Suc si) sts) ! j = None"
      "k < length sts \<longrightarrow> fst (run (Suc si + k) (sts ! k)) = StageNull"
      using Cons.IH [of "Suc si"] Cons.prems unfolding run_it by auto
    show ?thesis unfolding run_it
      using k run StageValue by (intro exI [of _ "Suc k"]) (auto simp: less_Suc_eq_0_disj nth_Cons split: nat.splits)
  qed
qed simp

lemma stage_value_valid:
  "runStageItem marshal unmarshal child i item st = (StageValue v, b) \<Longrightarrow> st_schema st = Some s \<Longrightarrow> schema_validate s v"
  by (auto simp: runStageItem_def split: option.splits child_answer.splits if_splits)

definition stage_of ::
  "(json \<Rightarrow> string option) \<Rightarrow> (string \<Rightarrow> json option) \<Rightarrow> (nat \<Rightarrow> nat \<Rightarrow> string \<Rightarrow> child_answer) \<Rightarrow> nat \<Rightarrow> json \<Rightarrow> nat \<Rightarrow> stage \<Rightarrow> stage_outcome \<times> bool" where
  "stage_of marshal unmarshal child i item si st = runStageItem marshal unmarshal (child i si) i item st"

lemma concat_none: "concat (map f xs) = [] \<longleftrightarrow> (\<forall>x \<in> set xs. f x = [])"
  by simp

text \<open>
  C36. A run of a parsed spec that succeeds has a trace for every item, and the trace of an item is
  decided by its own children alone: the values of its stages in order, every
  value of a stage with a schema valid for it, up to the first stage that gives
  none, and null from there on.  No more children are started than there are
  stage items, which a parsed spec keeps within the configured maximum.

  Two things of the Go run time come in as inputs: the order \<open>arrival\<close> in which the items end, taken to be an order of
  all items (\<open>WaitGroup\<close> waits for each), and at which stage, if any, an item sees the run's context done (\<open>cuts\<close>).
  That context ends only by the caller's cancellation or by the cancel that follows a fatal error (hypothesis \<open>seen\<close>).
\<close>

theorem workflow_items:
  assumes run: "wf_Run arrival ctxDone cuts (stage_of marshal unmarshal child) sp = Inr (started, values)"
    and arrival: "set arrival = {..<length (spec_items sp)}"
    and seen: "\<forall>i < length (spec_items sp). tr_sawCancel (run_item (cuts i) (stage_of marshal unmarshal child i (spec_items sp ! i)) 0 (spec_stages sp))
        \<longrightarrow> ctxDone \<or> (\<exists>j < length (spec_items sp). tr_fatal (run_item (cuts j) (stage_of marshal unmarshal child j (spec_items sp ! j)) 0 (spec_stages sp)) \<noteq> None)"
    and parsed: "ParseSpec decode_spec decode cfg raw = Inr sp"
  shows "length values = length (spec_items sp) \<and> int started \<le> MaxTotalAgents cfg \<and>
    (\<forall>i < length (spec_items sp). length (values ! i) = length (spec_stages sp) \<and>
      (\<exists>k \<le> length (spec_stages sp).
        (\<forall>j < k. \<exists>v. fst (runStageItem marshal unmarshal (child i j) i (spec_items sp ! i) (spec_stages sp ! j)) = StageValue v \<and>
           values ! i ! j = Some v \<and> (\<forall>s. st_schema (spec_stages sp ! j) = Some s \<longrightarrow> schema_validate s v)) \<and>
        (\<forall>j < length (spec_stages sp). k \<le> j \<longrightarrow> values ! i ! j = None) \<and>
        (k < length (spec_stages sp) \<longrightarrow>
           fst (runStageItem marshal unmarshal (child i k) i (spec_items sp ! i) (spec_stages sp ! k)) = StageNull)))"
proof -
  let ?items = "spec_items sp" and ?sts = "spec_stages sp"
  define tr where "tr = (\<lambda>i. run_item (cuts i) (stage_of marshal unmarshal child i (?items ! i)) 0 ?sts)"
  have out: "[c. i \<leftarrow> arrival, i < length ?items, c \<leftarrow> (case tr_fatal (map tr [0..<length ?items] ! i) of None \<Rightarrow> [] | Some c \<Rightarrow> [c])] = []"
    "\<not> ctxDone" "started = sum_list (map tr_started (map tr [0..<length ?items]))" "values = map tr_values (map tr [0..<length ?items])"
    using run unfolding wf_Run_def Let_def tr_def [symmetric] by (auto split: list.splits if_splits)
  have no_fatal: "tr_fatal (tr i) = None" if "i < length ?items" for i
    using out(1) arrival that by (auto simp: split: option.splits if_splits)
  have item: "length (values ! i) = length ?sts \<and>
      (\<exists>k \<le> length ?sts. (\<forall>j < k. \<exists>v. fst (runStageItem marshal unmarshal (child i j) i (?items ! i) (?sts ! j)) = StageValue v \<and>
           values ! i ! j = Some v \<and> (\<forall>s. st_schema (?sts ! j) = Some s \<longrightarrow> schema_validate s v)) \<and>
        (\<forall>j < length ?sts. k \<le> j \<longrightarrow> values ! i ! j = None) \<and>
        (k < length ?sts \<longrightarrow> fst (runStageItem marshal unmarshal (child i k) i (?items ! i) (?sts ! k)) = StageNull))"
    if i: "i < length ?items" for i
  proof -
    have vals: "values ! i = tr_values (tr i)" using i out(4) by simp
    have "\<not> tr_sawCancel (tr i)" using seen i out(2) no_fatal by (auto simp: tr_def)
    from run_item_values [OF no_fatal [OF i, unfolded tr_def] this [unfolded tr_def]]
    obtain k where k: "k \<le> length ?sts"
      "\<forall>j < k. \<exists>v. fst (runStageItem marshal unmarshal (child i j) i (?items ! i) (?sts ! j)) = StageValue v \<and> values ! i ! j = Some v"
      "\<forall>j < length ?sts. k \<le> j \<longrightarrow> values ! i ! j = None"
      "k < length ?sts \<longrightarrow> fst (runStageItem marshal unmarshal (child i k) i (?items ! i) (?sts ! k)) = StageNull"
      unfolding vals by (auto simp: tr_def stage_of_def)
    have "\<exists>v. fst (runStageItem marshal unmarshal (child i j) i (?items ! i) (?sts ! j)) = StageValue v \<and>
           values ! i ! j = Some v \<and> (\<forall>s. st_schema (?sts ! j) = Some s \<longrightarrow> schema_validate s v)" if "j < k" for j
      using k(2) that stage_value_valid by (metis prod.collapse)
    then show ?thesis using k(1,3,4) run_item_length [of "cuts i" _ 0 ?sts] by (auto simp: vals tr_def)
  qed
  have "sum_list (map tr_started (map tr [0..<length ?items])) \<le> length ?items * length ?sts"
    using sum_list_mono [of "[0..<length ?items]" "\<lambda>i. tr_started (tr i)" "\<lambda>_. length ?sts"] run_item_started
    by (simp add: tr_def comp_def sum_list_triv)
  moreover have "int (length ?items * length ?sts) \<le> MaxTotalAgents cfg"
  proof -
    have "length ss = length sts" if "parse_stages decode sts = Inr ss" for sts ss
      using that by (induction sts arbitrary: ss) (auto split: sum.splits)
    then show ?thesis using parsed by (auto simp: ParseSpec_def split: option.splits if_splits sum.splits)
  qed
  ultimately have "int started \<le> MaxTotalAgents cfg" using out(3) by linarith
  then show ?thesis using item out(4) by simp
qed


text \<open>Two items, the second answered off schema at the first stage.\<close>

definition wf_example :: raw_spec where
  "wf_example = \<lparr>rsp_name = ''n'', rsp_description = ''d'', rsp_items = [JNull, JNull],
     rsp_stages = [\<lparr>rst_title = [], rst_prompt = ''p'', rst_schema = Some (JObject [(''type'', JString ''null'')])\<rparr>,
                   \<lparr>rst_title = [], rst_prompt = ''q'', rst_schema = None\<rparr>]\<rparr>"

definition wf_example_spec :: spec where
  "wf_example_spec = \<lparr>spec_name = ''n'', spec_description = ''d'', spec_items = [JNull, JNull],
     spec_stages = [\<lparr>st_title = [], st_prompt = ''p'', st_schema = Some (Schema ''null'' [] [] None None None None [])\<rparr>,
                    \<lparr>st_title = [], st_prompt = ''q'', st_schema = None\<rparr>]\<rparr>"

definition wf_example_child :: "nat \<Rightarrow> nat \<Rightarrow> string \<Rightarrow> child_answer" where
  "wf_example_child i si p = (if i = 0 then ChildText ''null'' else ChildText ''x'')"

definition wf_example_decode :: "string \<Rightarrow> json option" where
  "wf_example_decode t = (if t = ''null'' then Some JNull else None)"

theorem workflow_items_witness:
  "let cfg = wf_New \<lparr>MaxConcurrent = 0, MaxTotalAgents = 0, MaxItemsPerCall = 0\<rparr>;
       run = stage_of (\<lambda>_. Some ''null'') wf_example_decode wf_example_child;
       values = [[Some JNull, Some (JString ''null'')], [None, None]]
   in ParseSpec (\<lambda>_. Some wf_example) (\<lambda>_. Some (Schema ''null'' [] [] None None None None [])) cfg [] = Inr wf_example_spec \<and>
      wf_Run [0, 1] False (\<lambda>_. None) run wf_example_spec = Inr (3, values) \<and>
      length values = length (spec_items wf_example_spec) \<and> int 3 \<le> MaxTotalAgents cfg \<and>
      (\<exists>k \<le> 2. (\<forall>j < 2. k \<le> j \<longrightarrow> values ! 1 ! j = None) \<and>
        (k < 2 \<longrightarrow> fst (runStageItem (\<lambda>_. Some ''null'') wf_example_decode (wf_example_child 1 k) 1 JNull (spec_stages wf_example_spec ! k)) = StageNull))"
proof -
  let ?cfg = "wf_New \<lparr>MaxConcurrent = 0, MaxTotalAgents = 0, MaxItemsPerCall = 0\<rparr>"
  let ?dec = "\<lambda>_. Some (Schema ''null'' [] [] None None None None [])"
  let ?run = "stage_of (\<lambda>_. Some ''null'') wf_example_decode wf_example_child"
  have parsed: "ParseSpec (\<lambda>_. Some wf_example) ?dec ?cfg [] = Inr wf_example_spec"
    by (simp add: ParseSpec_def wf_example_def wf_example_spec_def wf_New_def parse_stage_def schemaKeywords_def)
  have items: "spec_items wf_example_spec = [JNull, JNull]" by (simp add: wf_example_spec_def)
  have one: "?run i JNull si st = (if i = 0 then
      (StageValue (if st_schema st = None then JString ''null'' else JNull), True) else (if st_schema st = None then StageValue (JString ''x'') else StageNull, True))"
    if "st \<in> set (spec_stages wf_example_spec)" for i si st
    using that by (auto simp: stage_of_def runStageItem_def renderPrompt_def wf_example_decode_def wf_example_child_def
        wf_example_spec_def typeMatches_def)
  have tr0: "run_item None (?run 0 JNull) 0 (spec_stages wf_example_spec) =
      \<lparr>tr_values = [Some JNull, Some (JString ''null'')], tr_fatal = None, tr_started = 2, tr_sawCancel = False\<rparr>"
    using one [of _ 0] by (simp add: wf_example_spec_def stop_item_def Let_def)
  have tr1: "run_item None (?run 1 JNull) 0 (spec_stages wf_example_spec) =
      \<lparr>tr_values = [None, None], tr_fatal = None, tr_started = 1, tr_sawCancel = False\<rparr>"
    using one [of _ 1] by (simp add: wf_example_spec_def stop_item_def Let_def numeral_2_eq_2)
  have run: "wf_Run [0, 1] False (\<lambda>_. None) ?run wf_example_spec = Inr (3, [[Some JNull, Some (JString ''null'')], [None, None]])"
    using tr0 tr1 by (simp add: wf_Run_def items Let_def upt_rec)
  have arrival: "set [0, 1] = {..<length (spec_items wf_example_spec)}" by (auto simp: items)
  have seen: "\<not> tr_sawCancel (run_item None (?run i (spec_items wf_example_spec ! i)) 0 (spec_stages wf_example_spec))"
    if "i < length (spec_items wf_example_spec)" for i
    using that tr0 tr1 by (auto simp: items less_Suc_eq)
  note all = workflow_items [OF run arrival _ parsed]
  have size: "length (spec_items wf_example_spec) = 2" "length (spec_stages wf_example_spec) = 2" "spec_items wf_example_spec ! 1 = JNull"
    by (simp_all add: wf_example_spec_def)
  have "\<forall>i < 2. \<not> tr_sawCancel (run_item None (?run i (spec_items wf_example_spec ! i)) 0 (spec_stages wf_example_spec))"
    using seen size by simp
  with all have res: "int 3 \<le> MaxTotalAgents ?cfg" and item: "\<forall>i < 2. \<exists>k \<le> 2.
      (\<forall>j < 2. k \<le> j \<longrightarrow> [[Some JNull, Some (JString ''null'')], [None, None]] ! i ! j = None) \<and>
      (k < 2 \<longrightarrow> fst (runStageItem (\<lambda>_. Some ''null'') wf_example_decode (wf_example_child i k) i (spec_items wf_example_spec ! i)
        (spec_stages wf_example_spec ! k)) = StageNull)"
    unfolding size by blast+
  from item [rule_format, of 1] show ?thesis using parsed run res size by (simp add: Let_def)
qed

section \<open>What the engine does otherwise than documented\<close>

text \<open>The item is put in first, so an index mark inside the item is replaced too.\<close>

lemma item_rewritten: "renderPrompt (\<lambda>_. Some ''{{index}}'') ''{{item}}'' 7 item = Some ''7''"
  by (simp add: renderPrompt_def ReplaceAll_def replace_all.simps has_prefix_def decimal.simps char_of_def bit_0)

text \<open>A value that matches two alternatives of a oneOf passes.\<close>

lemma oneOf_is_anyOf:
  "schema_validate (Schema [] [] [] None None None None [Schema ''number'' [] [] None None None None [], Schema ''integer'' [] [] None None None None []]) (JNumber 1)"
  by (simp add: typeMatches_def)

end
