(* ===== verification/ToolFiles.thy ===== *)
theory ToolFiles
  imports GoStrings
begin

text \<open>
  What the file tools share: \<open>internal/toolutil/toolutil.go\<close> (skipped
  directories, binary files, glob matching over path segments, version
  fingerprints) and the part of \<open>path/filepath\<close> they use, on Unix.

  A disk maps a clean path to a file or a directory, and any other spelling of
  the path names the same node.  A file is its bytes, its time of
  modification in nanoseconds and its permission bits.
\<close>

section \<open>Paths\<close>

definition sep :: char where
  "sep = CHR ''/''"

definition slash_segments :: "string \<Rightarrow> string list" where
  "slash_segments p = split_on (\<lambda>c. c = sep) p"

definition trim_suffix :: "string \<Rightarrow> string \<Rightarrow> string" where
  "trim_suffix s suf = (if has_suffix s suf then take (length s - length suf) s else s)"

definition trim_prefix :: "string \<Rightarrow> string \<Rightarrow> string" where
  "trim_prefix s pre = (if has_prefix s pre then drop (length pre) s else s)"

text \<open>The file name extension: the last segment from its last dot on.\<close>

definition path_Ext :: "string \<Rightarrow> string" where
  "path_Ext p = (let l = last (slash_segments p) in
     if CHR ''.'' \<in> set l then CHR ''.'' # rev (takeWhile (\<lambda>c. c \<noteq> CHR ''.'') (rev l)) else [])"

definition path_Base :: "string \<Rightarrow> string" where
  "path_Base p = (if p = [] then ''.''
     else let q = rev (dropWhile (\<lambda>c. c = sep) (rev p))
          in if q = [] then ''/'' else last (slash_segments q))"

text \<open>\<open>filepath.Clean\<close>: no empty and no dot segments, and a double dot only at the front of a relative path.\<close>

fun clean_segments :: "bool \<Rightarrow> string list \<Rightarrow> string list \<Rightarrow> string list" where
  "clean_segments rooted acc [] = rev acc"
| "clean_segments rooted acc (x # xs) =
     (if x = [] \<or> x = ''.'' then clean_segments rooted acc xs
      else if x = ''..'' then
        (case acc of
           a # as \<Rightarrow> if a = ''..'' then clean_segments rooted (x # acc) xs else clean_segments rooted as xs
         | [] \<Rightarrow> if rooted then clean_segments rooted [] xs else clean_segments rooted [x] xs)
      else clean_segments rooted (x # acc) xs)"

definition path_Clean :: "string \<Rightarrow> string" where
  "path_Clean p =
    (let rooted = has_prefix p ''/''; q = join_strings ''/'' (clean_segments rooted [] (slash_segments p))
     in if rooted then ''/'' @ q else if q = [] then ''.'' else q)"

definition path_Dir :: "string \<Rightarrow> string" where
  "path_Dir p = path_Clean (rev (dropWhile (\<lambda>c. c \<noteq> sep) (rev p)))"

definition path_Join :: "string \<Rightarrow> string \<Rightarrow> string" where
  "path_Join a b = (let ps = filter (\<lambda>x. x \<noteq> []) [a, b] in if ps = [] then [] else path_Clean (join_strings ''/'' ps))"

section \<open>Patterns of one segment\<close>

text \<open>
  \<open>filepath.Match\<close>; a bad pattern is read as no match, which is what every
  caller does.  A chunk is the part of a pattern between two stars, a match of a
  chunk leaves the rest of the name.
\<close>

text \<open>One character of a class, escaped or not; something has to follow it.\<close>

definition getEsc :: "string \<Rightarrow> (nat \<times> string) option" where
  "getEsc chunk =
    (case chunk of
       [] \<Rightarrow> None
     | c # cs \<Rightarrow>
        if c = CHR ''-'' \<or> c = CHR '']'' then None
        else let body = (if c = CHR 0x5C then cs else chunk)
             in if body = [] then None
                else let (r, w) = decode_rune body; rest = drop w body
                     in if (r = 0xFFFD \<and> w = 1) \<or> rest = [] then None else Some (r, rest))"

lemma getEsc_shorter: "getEsc chunk = Some (r, rest) \<Longrightarrow> length rest < length chunk"
proof (cases chunk)
  case (Cons c cs)
  assume g: "getEsc chunk = Some (r, rest)"
  define body where "body = (if c = CHR 0x5C then cs else chunk)"
  have "body \<noteq> []" "rest = drop (snd (decode_rune body)) body"
    using g Cons by (auto simp: getEsc_def body_def Let_def split: if_splits prod.splits simp del: decode_rune.simps)
  then have "length rest < length body" using decode_rune_width [of body] by auto
  then show ?thesis using Cons by (auto simp: body_def split: if_splits)
qed (simp add: getEsc_def)

text \<open>The ranges of a class: whether the rune is in one, and the pattern behind the bracket.\<close>

function class_ranges :: "nat \<Rightarrow> bool \<Rightarrow> bool \<Rightarrow> string \<Rightarrow> (bool \<times> string) option" where
  "class_ranges r seen hit chunk =
    (if chunk \<noteq> [] \<and> hd chunk = CHR '']'' \<and> seen then Some (hit, tl chunk)
     else case getEsc chunk of
            None \<Rightarrow> None
          | Some (lo, c1) \<Rightarrow>
              if hd c1 = CHR ''-'' then
                (case getEsc (tl c1) of
                   None \<Rightarrow> None
                 | Some (hi, c2) \<Rightarrow> class_ranges r True (hit \<or> (lo \<le> r \<and> r \<le> hi)) c2)
              else class_ranges r True (hit \<or> r = lo) c1)"
  by auto
termination
  by (relation "measure (\<lambda>(r, seen, hit, chunk). length chunk)") (auto dest!: getEsc_shorter)

lemma class_ranges_shorter: "class_ranges r seen hit chunk = Some (b, rest) \<Longrightarrow> length rest < length chunk"
proof (induction r seen hit chunk rule: class_ranges.induct)
  case (1 r seen hit chunk)
  show ?case
  proof (cases "chunk \<noteq> [] \<and> hd chunk = CHR '']'' \<and> seen")
    case True
    then have "rest = tl chunk" using 1(3) by (simp add: class_ranges.simps [of r seen hit chunk])
    then show ?thesis using True by (cases chunk) auto
  next
    case False
    then obtain lo c1 where esc: "getEsc chunk = Some (lo, c1)"
      using 1(3) by (auto simp: class_ranges.simps [of r seen hit chunk] split: option.splits)
    show ?thesis
    proof (cases "hd c1 = CHR ''-''")
      case True
      then obtain hi c2 where esc2: "getEsc (tl c1) = Some (hi, c2)"
        using 1(3) False esc by (auto simp: class_ranges.simps [of r seen hit chunk] split: option.splits)
      have "length rest < length c2" using 1(1) [OF False esc refl True esc2 refl] 1(3) False esc True esc2
        by (simp add: class_ranges.simps [of r seen hit chunk])
      then show ?thesis using getEsc_shorter [OF esc] getEsc_shorter [OF esc2] by simp
    next
      case nodash: False
      have "length rest < length c1" using 1(2) [OF False esc refl nodash] 1(3) False esc nodash
        by (simp add: class_ranges.simps [of r seen hit chunk])
      then show ?thesis using getEsc_shorter [OF esc] by simp
    qed
  qed
qed

declare class_ranges.simps [simp del]

text \<open>A chunk against the front of a name.  A failed match reads the chunk on for its syntax only.\<close>

function matchChunk :: "bool \<Rightarrow> string \<Rightarrow> string \<Rightarrow> string option" where
  "matchChunk failed0 chunk s =
    (case chunk of
       [] \<Rightarrow> if failed0 then None else Some s
     | c # cs \<Rightarrow>
        let failed = (failed0 \<or> s = [])
        in if c = CHR ''['' then
             (let (r, w) = (if failed then (0, 0) else decode_rune s);
                  neg = (cs \<noteq> [] \<and> hd cs = CHR 0x5E); body = (if neg then tl cs else cs)
              in case class_ranges r False False body of
                   None \<Rightarrow> None
                 | Some (hit, rest) \<Rightarrow> matchChunk (failed \<or> hit = neg) rest (drop w s))
           else if c = CHR ''?'' then
             matchChunk (failed \<or> hd s = sep) cs (if failed then s else drop (snd (decode_rune s)) s)
           else if c = CHR 0x5C then
             (case cs of
                [] \<Rightarrow> None
              | d # ds \<Rightarrow> matchChunk (failed \<or> hd s \<noteq> d) ds (if failed then s else tl s))
           else matchChunk (failed \<or> hd s \<noteq> c) cs (if failed then s else tl s))"
  by pat_completeness auto
termination
  by (relation "measure (\<lambda>(failed, chunk, s). length chunk)") (auto dest!: class_ranges_shorter split: if_splits)

declare matchChunk.simps [simp del]

text \<open>The end of a chunk: the first star outside a class.\<close>

fun chunk_length :: "bool \<Rightarrow> string \<Rightarrow> nat" where
  "chunk_length inrange [] = 0"
| "chunk_length inrange [c] = (if c = CHR ''*'' \<and> \<not> inrange then 0 else 1)"
| "chunk_length inrange (c # d # s) =
     (if c = CHR 0x5C then Suc (Suc (chunk_length inrange s))
      else if c = CHR ''['' then Suc (chunk_length True (d # s))
      else if c = CHR '']'' then Suc (chunk_length False (d # s))
      else if c = CHR ''*'' \<and> \<not> inrange then 0
      else Suc (chunk_length inrange (d # s)))"

definition scanChunk :: "string \<Rightarrow> bool \<times> string \<times> string" where
  "scanChunk pattern =
    (let p = dropWhile (\<lambda>c. c = CHR ''*'') pattern; n = chunk_length False p
     in (p \<noteq> pattern, take n p, drop n p))"

text \<open>The chunk at the current position or, behind a star, the first later one that no separator precedes.\<close>

fun star_match :: "bool \<Rightarrow> bool \<Rightarrow> string \<Rightarrow> string \<Rightarrow> string option" where
  "star_match star final chunk [] =
     (case matchChunk False chunk [] of Some t \<Rightarrow> if t = [] \<or> \<not> final then Some t else None | None \<Rightarrow> None)"
| "star_match star final chunk (c # s) =
     (case matchChunk False chunk (c # s) of
        Some t \<Rightarrow> if t = [] \<or> \<not> final then Some t else if star \<and> c \<noteq> sep then star_match star final chunk s else None
      | None \<Rightarrow> if star \<and> c \<noteq> sep then star_match star final chunk s else None)"

lemma chunk_length_pos: "p \<noteq> [] \<Longrightarrow> hd p \<noteq> CHR ''*'' \<Longrightarrow> 0 < chunk_length inrange p"
  by (induction inrange p rule: chunk_length.induct) auto

lemma scanChunk_shorter:
  assumes "p \<noteq> []"
  shows "length (snd (snd (scanChunk p))) < length p"
proof (cases "hd p = CHR ''*''")
  case True
  then have "length (dropWhile (\<lambda>c. c = CHR ''*'') p) < length p"
    using assms by (cases p) (auto simp: le_imp_less_Suc length_dropWhile_le)
  then show ?thesis by (simp add: scanChunk_def Let_def)
next
  case False
  then have "dropWhile (\<lambda>c. c = CHR ''*'') p = p" using assms by (cases p) simp_all
  then show ?thesis using chunk_length_pos [OF assms False, of False] assms by (simp add: scanChunk_def Let_def)
qed

function path_Match :: "string \<Rightarrow> string \<Rightarrow> bool" where
  "path_Match pattern name =
    (if pattern = [] then name = []
     else let star = fst (scanChunk pattern); chunk = fst (snd (scanChunk pattern)); rest = snd (snd (scanChunk pattern))
          in if star \<and> chunk = [] then sep \<notin> set name
             else case star_match star (rest = []) chunk name of
                    None \<Rightarrow> False
                  | Some t \<Rightarrow> path_Match rest t)"
  by auto
termination
  by (relation "measure (\<lambda>(pattern, name). length pattern)") (auto simp: scanChunk_shorter)

declare path_Match.simps [simp del]

section \<open>Globs\<close>

text \<open>The memo of the code: what is known of a pair of positions.\<close>

type_synonym memo = "(nat \<times> nat) \<Rightarrow> bool option"

function matchSegments :: "string list \<Rightarrow> string list \<Rightarrow> nat \<Rightarrow> nat \<Rightarrow> memo \<Rightarrow> bool \<times> memo" where
  "matchSegments pat path k si memo =
    (let res = (\<lambda>(v, m). (v, m((k, si) \<mapsto> v)))
     in case memo (k, si) of
          Some v \<Rightarrow> (v, memo)
        | None \<Rightarrow>
           if k \<ge> length pat then res (si = length path, memo)
           else if pat ! k = ''**'' then
             (let first = matchSegments pat path (Suc k) si memo
              in if fst first then res (True, snd first)
                 else if si < length path then res (matchSegments pat path k (Suc si) (snd first))
                 else res (False, snd first))
           else if si \<ge> length path then res (False, memo)
           else if \<not> path_Match (pat ! k) (path ! si) then res (False, memo)
           else res (matchSegments pat path (Suc k) (Suc si) memo))"
  by auto
termination
  by (relation "measure (\<lambda>(pat, path, k, si, memo). (length pat - k) + (length path - si))") auto

declare matchSegments.simps [simp del]

definition GlobMatch :: "string \<Rightarrow> string \<Rightarrow> bool" where
  "GlobMatch pattern path =
    (let p = trim_suffix pattern ''/''; q = trim_suffix path ''/''
     in if p = [] then q = []
        else fst (matchSegments (slash_segments p) (slash_segments q) 0 0 Map.empty))"

text \<open>
  The reference: the segments of the path fall into blocks, one for each segment
  of the pattern; a double star takes any block, every other one a single
  segment that it matches.
\<close>

definition takes_block :: "string \<Rightarrow> string list \<Rightarrow> bool" where
  "takes_block p b \<longleftrightarrow> p = ''**'' \<or> (\<exists>s. b = [s] \<and> path_Match p s)"

definition glob_spec :: "string list \<Rightarrow> string list \<Rightarrow> bool" where
  "glob_spec ps ss \<longleftrightarrow> (\<exists>bs. list_all2 takes_block ps bs \<and> concat bs = ss)"

lemma glob_spec_Nil [simp]: "glob_spec [] ss \<longleftrightarrow> ss = []"
  by (auto simp: glob_spec_def)

lemma glob_spec_star: "glob_spec (''**'' # ps) ss \<longleftrightarrow> glob_spec ps ss \<or> (ss \<noteq> [] \<and> glob_spec (''**'' # ps) (tl ss))"
proof
  assume "glob_spec (''**'' # ps) ss"
  then obtain b bs where b: "list_all2 takes_block ps bs" "b @ concat bs = ss"
    by (auto simp: glob_spec_def list_all2_Cons1)
  show "glob_spec ps ss \<or> (ss \<noteq> [] \<and> glob_spec (''**'' # ps) (tl ss))"
  proof (cases b)
    case Nil
    then show ?thesis using b by (auto simp: glob_spec_def)
  next
    case (Cons x xs)
    then have "list_all2 takes_block (''**'' # ps) (xs # bs)" "concat (xs # bs) = tl ss" "ss \<noteq> []"
      using b by (auto simp: takes_block_def)
    then show ?thesis unfolding glob_spec_def by blast
  qed
next
  assume r: "glob_spec ps ss \<or> (ss \<noteq> [] \<and> glob_spec (''**'' # ps) (tl ss))"
  show "glob_spec (''**'' # ps) ss"
  proof (cases "glob_spec ps ss")
    case True
    then obtain bs where "list_all2 takes_block ps bs" "concat bs = ss" by (auto simp: glob_spec_def)
    then have "list_all2 takes_block (''**'' # ps) ([] # bs)" "concat ([] # bs) = ss" by (auto simp: takes_block_def)
    then show ?thesis unfolding glob_spec_def by blast
  next
    case False
    then obtain b bs where b: "ss \<noteq> []" "list_all2 takes_block ps bs" "b @ concat bs = tl ss"
      using r by (auto simp: glob_spec_def list_all2_Cons1)
    then have "list_all2 takes_block (''**'' # ps) ((hd ss # b) # bs)" "concat ((hd ss # b) # bs) = ss"
      by (auto simp: takes_block_def)
    then show ?thesis unfolding glob_spec_def by blast
  qed
qed

lemma glob_spec_segment:
  assumes "p \<noteq> ''**''"
  shows "glob_spec (p # ps) ss \<longleftrightarrow> ss \<noteq> [] \<and> path_Match p (hd ss) \<and> glob_spec ps (tl ss)"
proof
  assume "glob_spec (p # ps) ss"
  then show "ss \<noteq> [] \<and> path_Match p (hd ss) \<and> glob_spec ps (tl ss)"
    using assms by (auto simp: glob_spec_def list_all2_Cons1 takes_block_def)
next
  assume r: "ss \<noteq> [] \<and> path_Match p (hd ss) \<and> glob_spec ps (tl ss)"
  then obtain bs where "list_all2 takes_block ps bs" "concat bs = tl ss" by (auto simp: glob_spec_def)
  then have "list_all2 takes_block (p # ps) ([hd ss] # bs)" "concat ([hd ss] # bs) = ss"
    using r by (simp_all add: takes_block_def)
  then show "glob_spec (p # ps) ss" unfolding glob_spec_def by blast
qed

text \<open>Every entry of the memo is what the reference says.\<close>

definition memo_ok :: "string list \<Rightarrow> string list \<Rightarrow> memo \<Rightarrow> bool" where
  "memo_ok pat path memo \<longleftrightarrow>
    (\<forall>k si v. memo (k, si) = Some v \<longrightarrow> k \<le> length pat \<longrightarrow> si \<le> length path \<longrightarrow> v = glob_spec (drop k pat) (drop si path))"

lemma memo_ok_upd:
  "memo_ok pat path m \<Longrightarrow> v = glob_spec (drop k pat) (drop si path) \<Longrightarrow> memo_ok pat path (m((k, si) \<mapsto> v))"
  by (auto simp: memo_ok_def)

lemma matchSegments_spec:
  "memo_ok pat path memo \<Longrightarrow> k \<le> length pat \<Longrightarrow> si \<le> length path \<Longrightarrow>
     fst (matchSegments pat path k si memo) = glob_spec (drop k pat) (drop si path) \<and>
     memo_ok pat path (snd (matchSegments pat path k si memo))"
proof (induction pat path k si memo rule: matchSegments.induct)
  case (1 pat path k si memo)
  note unfold1 = matchSegments.simps [of pat path k si memo]
  let ?spec = "glob_spec (drop k pat) (drop si path)"
  have fin: "fst r = ?spec \<and> memo_ok pat path (snd r)"
    if "r = (v, m((k, si) \<mapsto> v))" "v = ?spec" "memo_ok pat path m" for r v m
    using memo_ok_upd [OF that(3,2)] that(1,2) by simp
  show ?case
  proof (cases "memo (k, si)")
    case (Some v)
    then show ?thesis using 1(4-6) by (auto simp: unfold1 memo_ok_def)
  next
    case None
    show ?thesis
    proof (cases "k \<ge> length pat")
      case True
      then have "?spec = (si = length path)" using 1(6) by auto
      then show ?thesis using None True 1(4) by (intro fin [OF _ _ 1(4)]) (simp_all add: unfold1)
    next
      case False
      then have pat: "drop k pat = pat ! k # drop (Suc k) pat" by (simp add: Cons_nth_drop_Suc)
      show ?thesis
      proof (cases "pat ! k = ''**''")
        case star: True
        let ?first = "matchSegments pat path (Suc k) si memo"
        have f: "fst ?first = glob_spec (drop (Suc k) pat) (drop si path)" "memo_ok pat path (snd ?first)"
          using 1(1) [OF refl None False star 1(4)] False 1(6) by auto
        have spec: "?spec = (fst ?first \<or> (si < length path \<and> glob_spec (drop k pat) (drop (Suc si) path)))"
          using f(1) unfolding pat star glob_spec_star [of "drop (Suc k) pat" "drop si path"] by (auto simp: drop_Suc tl_drop)
        show ?thesis
        proof (cases "fst ?first \<or> \<not> si < length path")
          case True
          then show ?thesis using None False star spec
            by (intro fin [OF _ _ f(2), of _ "fst ?first"]) (auto simp: unfold1)
        next
          case more: False
          let ?next = "matchSegments pat path k (Suc si) (snd ?first)"
          have n: "fst ?next = glob_spec (drop k pat) (drop (Suc si) path)" "memo_ok pat path (snd ?next)"
            using 1(2) [OF refl None False star refl _ _ f(2)] more 1(5) by auto
          show ?thesis using None False star spec n(1) more
            by (intro fin [OF _ _ n(2), of _ "fst ?next"]) (auto simp: unfold1 split_beta)
        qed
      next
        case seg: False
        show ?thesis
        proof (cases "si < length path \<and> path_Match (pat ! k) (path ! si)")
          case False
          then have "\<not> ?spec" unfolding pat glob_spec_segment [OF seg] by (auto simp: hd_drop_conv_nth)
          then show ?thesis using None \<open>\<not> k \<ge> length pat\<close> seg False
            by (intro fin [OF _ _ 1(4), of _ False]) (auto simp: unfold1 Let_def)
        next
          case True
          let ?next = "matchSegments pat path (Suc k) (Suc si) memo"
          have n: "fst ?next = glob_spec (drop (Suc k) pat) (drop (Suc si) path)" "memo_ok pat path (snd ?next)"
            using 1(3) [OF refl None False seg _ _ 1(4)] True False by auto
          have "?spec = fst ?next" using n(1) True unfolding pat glob_spec_segment [OF seg]
            by (auto simp: hd_drop_conv_nth drop_Suc tl_drop)
          then show ?thesis using None False seg True
            by (intro fin [OF _ _ n(2), of _ "fst ?next"]) (auto simp: unfold1 split_beta)
        qed
      qed
    qed
  qed
qed

text \<open>
  C33. The memoised matcher decides the reference: a path matches a glob if and
  only if its segments split into one block for each segment of the pattern,
  where a double star takes any number of segments and every other segment of
  the pattern takes exactly one that it matches on its own.
\<close>

theorem glob_match_spec:
  "GlobMatch pattern path =
    (if trim_suffix pattern ''/'' = [] then trim_suffix path ''/'' = []
     else glob_spec (slash_segments (trim_suffix pattern ''/'')) (slash_segments (trim_suffix path ''/'')))"
  using matchSegments_spec [of "slash_segments (trim_suffix pattern ''/'')" "slash_segments (trim_suffix path ''/'')" Map.empty 0 0]
  by (simp add: GlobMatch_def Let_def memo_ok_def)

section \<open>Files\<close>

record file_node =
  fn_data :: string
  fn_mtime :: int
  fn_perm :: nat

datatype node = RegularFile file_node | Directory int

type_synonym disk = "string \<Rightarrow> node option"

definition node_at :: "disk \<Rightarrow> string \<Rightarrow> node option" where
  "node_at d p = d (path_Clean p)"

definition read_file :: "disk \<Rightarrow> string \<Rightarrow> string option" where
  "read_file d p = (case node_at d p of Some (RegularFile f) \<Rightarrow> Some (fn_data f) | _ \<Rightarrow> None)"

definition DefaultPerm :: nat where
  "DefaultPerm = 420"

text \<open>\<open>os.WriteFile\<close>: the bits of a file that exists stay.\<close>

definition write_file :: "int \<Rightarrow> string \<Rightarrow> string \<Rightarrow> disk \<Rightarrow> disk" where
  "write_file now p text d = d(path_Clean p \<mapsto> RegularFile \<lparr>fn_data = text, fn_mtime = now,
     fn_perm = (case node_at d p of Some (RegularFile f) \<Rightarrow> fn_perm f | _ \<Rightarrow> DefaultPerm)\<rparr>)"

text \<open>What a write of the disk does: it succeeds, or fails and leaves something or the file as it was.\<close>

datatype write_outcome = WriteOk | WriteFailed "string option"

definition skipped_dirs :: "string list" where
  "skipped_dirs = [''.git'', ''node_modules'', ''vendor'', ''__pycache__'', ''.tox'', ''target'', ''build'', ''dist'']"

definition IsSkippedDir :: "string \<Rightarrow> bool" where
  "IsSkippedDir name = (name \<in> set skipped_dirs)"

definition binary_exts :: "string list" where
  "binary_exts = [''.exe'', ''.dll'', ''.so'', ''.o'', ''.a'', ''.obj'', ''.class'', ''.png'', ''.jpg'', ''.jpeg'', ''.gif'',
     ''.mp3'', ''.mp4'', ''.zip'', ''.tar'', ''.gz'', ''.pdf'', ''.ttf'']"

definition IsTextFile :: "string \<Rightarrow> bool" where
  "IsTextFile path = (ascii_lower (path_Ext path) \<notin> set binary_exts)"

definition IsBinaryFile :: "disk \<Rightarrow> string \<Rightarrow> bool" where
  "IsBinaryFile d path =
    (\<not> IsTextFile path \<or> (case read_file d path of None \<Rightarrow> False | Some s \<Rightarrow> CHR 0x00 \<in> set (take 8192 s)))"

section \<open>Versions\<close>

definition hex_digit :: "nat \<Rightarrow> char" where
  "hex_digit n = (if n < 10 then char_of (48 + n) else char_of (87 + n))"

fun hex :: "nat \<Rightarrow> string" where
  "hex n = (if n < 16 then [hex_digit n] else hex (n div 16) @ [hex_digit (n mod 16)])"

declare hex.simps [simp del]

definition hex_int :: "int \<Rightarrow> string" where
  "hex_int i = (if i < 0 then CHR ''-'' # hex (nat (- i)) else hex (nat i))"

text \<open>What \<open>os.Stat\<close> says of a path; a directory is given the size the system reports for one.\<close>

definition stat_of :: "nat \<Rightarrow> disk \<Rightarrow> string \<Rightarrow> (nat \<times> int \<times> nat) option" where
  "stat_of dirSize d p =
    (case node_at d p of
       None \<Rightarrow> None
     | Some (RegularFile f) \<Rightarrow> Some (length (fn_data f), fn_mtime f, fn_perm f)
     | Some (Directory t) \<Rightarrow> Some (dirSize, t, 493))"

definition FileVersion :: "nat \<Rightarrow> disk \<Rightarrow> string \<Rightarrow> string option" where
  "FileVersion dirSize d p =
    (case stat_of dirSize d p of
       None \<Rightarrow> None
     | Some (len, mtime, perm) \<Rightarrow> Some (hex len @ '':'' @ hex_int mtime @ '':'' @ hex perm))"

datatype version_error = StatFailed | StaleVersion

definition CheckVersion :: "nat \<Rightarrow> disk \<Rightarrow> string \<Rightarrow> string \<Rightarrow> version_error option" where
  "CheckVersion dirSize d path expected =
    (if expected = [] then None
     else case FileVersion dirSize d path of
            None \<Rightarrow> Some StatFailed
          | Some cur \<Rightarrow> if cur \<noteq> expected then Some StaleVersion else None)"

fun unhex_digit :: "char \<Rightarrow> nat" where
  "unhex_digit c = (if of_char c < (58 :: nat) then of_char c - 48 else of_char c - 87)"

lemma unhex_hex_digit: "n < 16 \<Longrightarrow> unhex_digit (hex_digit n) = n"
  by (simp add: hex_digit_def)

lemma hex_digit_range:
  "n < 16 \<Longrightarrow> ((48 :: nat) \<le> of_char (hex_digit n) \<and> of_char (hex_digit n) \<le> (57 :: nat)) \<or>
     ((97 :: nat) \<le> of_char (hex_digit n) \<and> of_char (hex_digit n) \<le> (102 :: nat))"
  by (auto simp: hex_digit_def)

lemma hex_chars: "c \<in> set (hex n) \<Longrightarrow> ((48 :: nat) \<le> of_char c \<and> of_char c \<le> (57 :: nat)) \<or> ((97 :: nat) \<le> of_char c \<and> of_char c \<le> (102 :: nat))"
proof (induction n rule: hex.induct)
  case (1 n)
  then show ?case using hex_digit_range [of n] hex_digit_range [of "n mod 16"]
    by (cases "n < 16") (auto simp: hex.simps [of n])
qed

lemma hex_inj: "hex m = hex n \<Longrightarrow> m = n"
proof -
  have "foldl (\<lambda>acc c. acc * 16 + unhex_digit c) 0 (hex n) = n" for n
  proof (induction n rule: hex.induct)
    case (1 n)
    then show ?case by (subst hex.simps) (simp add: unhex_hex_digit del: unhex_digit.simps)
  qed
  then show "hex m = hex n \<Longrightarrow> m = n" by metis
qed

lemma hex_no_mark: "CHR '':'' \<notin> set (hex n)" "CHR ''-'' \<notin> set (hex n)" "hex n \<noteq> []"
proof -
  show "CHR '':'' \<notin> set (hex n)" using hex_chars [of "CHR '':''" n] by auto
  show "CHR ''-'' \<notin> set (hex n)" using hex_chars [of "CHR ''-''" n] by auto
  show "hex n \<noteq> []" by (simp add: hex.simps [of n])
qed

lemma hex_int_inj:
  assumes "hex_int i = hex_int j"
  shows "i = j"
proof -
  have "CHR ''-'' # hex a \<noteq> hex b" for a b using hex_no_mark(2) [of b] by (metis list.set_intros(1))
  then show ?thesis using assms hex_inj [of "nat (- i)" "nat (- j)"] hex_inj [of "nat i" "nat j"]
    by (auto simp: hex_int_def split: if_splits) (metis)+
qed

lemma mark_split: "xs @ c # ys = us @ c # vs \<Longrightarrow> c \<notin> set xs \<Longrightarrow> c \<notin> set us \<Longrightarrow> xs = us \<and> ys = vs"
proof -
  assume a: "xs @ c # ys = us @ c # vs" "c \<notin> set xs" "c \<notin> set us"
  have "takeWhile (\<lambda>x. x \<noteq> c) (zs @ c # ws) = zs" if "c \<notin> set zs" for zs ws
    using that by (induction zs) auto
  then have "xs = us" using a by metis
  then show ?thesis using a(1) by simp
qed

text \<open>
  A version check with an expectation read from a file passes exactly as long
  as the file has the size, the modification time and the permissions it had
  then: fingerprints are equal only for equal metadata.
\<close>

theorem version_detects:
  assumes "FileVersion dirSize d p = Some v"
  shows "CheckVersion dirSize d' p v = None \<longleftrightarrow> stat_of dirSize d' p = stat_of dirSize d p"
proof -
  obtain n t m where old: "stat_of dirSize d p = Some (n, t, m)" "v = hex n @ '':'' @ hex_int t @ '':'' @ hex m"
    using assms by (auto simp: FileVersion_def split: option.splits)
  have ne: "v \<noteq> []" by (simp add: old)
  have colon: "CHR '':'' \<notin> set (hex_int i)" for i using hex_no_mark(1) by (auto simp: hex_int_def)
  have same: "hex n' @ '':'' @ hex_int t' @ '':'' @ hex m' = v \<longleftrightarrow> (n', t', m') = (n, t, m)" for n' t' m'
  proof
    assume "hex n' @ '':'' @ hex_int t' @ '':'' @ hex m' = v"
    then have "hex n' @ CHR '':'' # (hex_int t' @ CHR '':'' # hex m') = hex n @ CHR '':'' # (hex_int t @ CHR '':'' # hex m)"
      by (simp add: old)
    from mark_split [OF this] have a: "hex n' = hex n" "hex_int t' @ CHR '':'' # hex m' = hex_int t @ CHR '':'' # hex m"
      using hex_no_mark(1) by auto
    from mark_split [OF a(2)] have "hex_int t' = hex_int t" "hex m' = hex m" using colon by auto
    then show "(n', t', m') = (n, t, m)" using a(1) hex_inj hex_int_inj by blast
  qed (simp add: old)
  show ?thesis
  proof (cases "stat_of dirSize d' p")
    case None
    then show ?thesis using ne by (simp add: CheckVersion_def FileVersion_def old)
  next
    case (Some s)
    obtain n' t' m' where "s = (n', t', m')" by (cases s) auto
    then show ?thesis using ne same [of n' t' m'] Some by (simp add: CheckVersion_def FileVersion_def old(1))
  qed
qed

theorem version_detects_witness:
  "CheckVersion 0 (\<lambda>_. None) ''a'' ''2:1:1a4'' \<noteq> None"
proof -
  let ?d = "\<lambda>_. Some (RegularFile \<lparr>fn_data = ''hi'', fn_mtime = 1, fn_perm = 420\<rparr>)"
  have v: "FileVersion 0 ?d ''a'' = Some ''2:1:1a4''"
    by (simp add: FileVersion_def stat_of_def node_at_def hex_int_def hex.simps hex_digit_def char_of_def bit_0)
  show ?thesis using version_detects [OF v, of "\<lambda>_. None"] by (auto simp: stat_of_def node_at_def)
qed

end
