(* ===== verification/MultiEdit.thy ===== *)
theory MultiEdit
  imports ToolFiles
begin

text \<open>
  The edit tool (\<open>tools/multiedit/multiedit.go\<close>): edits of single files and
  replacements over all files that match a pattern.  Regular expressions are a
  parameter.  A goroutine works on its own path and only reads the disk, all
  writes come after the last has ended, so the model computes the results in the
  order of the files.  Two spellings of one path are two files to the tool and
  one to the disk.
\<close>

section \<open>Data\<close>

record editOp =
  eo_path :: string
  eo_old :: string
  eo_new :: string
  eo_replaceAll :: bool
  eo_expectVersion :: string

record edit_args =
  ma_edits :: "editOp list"
  ma_pattern :: string
  ma_old :: string
  ma_new :: string
  ma_regex :: bool
  ma_replaceAll :: bool
  ma_dryRun :: bool
  ma_preview :: bool
  ma_include :: string
  ma_exclude :: string

text \<open>A compiled expression: does it match, the first place, and the replacement of all places.\<close>

record rx =
  rx_match :: "string \<Rightarrow> bool"
  rx_find :: "string \<Rightarrow> (nat \<times> nat) option"
  rx_all :: "string \<Rightarrow> string \<Rightarrow> string"

datatype edit_error = BinaryFile | VersionError version_error | ReadError | InvalidRegex string | PatternNotFound string
  | OldNotFound string | NotUnique string nat | WriteError

datatype file_status = FileOk "string option" | FileFailed edit_error

record fileResult =
  fr_path :: string
  fr_status :: file_status

definition succeeded :: "fileResult \<Rightarrow> bool" where
  "succeeded r = (case fr_status r of FileOk _ \<Rightarrow> True | FileFailed _ \<Rightarrow> False)"

datatype edit_msg = Processed nat nat nat | NoneModified | Edited nat nat nat | NoneMatched

record edit_report =
  er_msg :: edit_msg
  er_results :: "fileResult list"
  er_total :: nat
  er_success :: nat
  er_failed :: nat

datatype edit_run_error = EditCanceled | NothingToDo | OldRequired | BadRegex

section \<open>The preview\<close>

fun common_prefix :: "string list \<Rightarrow> string list \<Rightarrow> nat" where
  "common_prefix (x # xs) (y # ys) = (if x = y then Suc (common_prefix xs ys) else 0)"
| "common_prefix _ _ = 0"

text \<open>The lines in front of \<open>n\<close> and \<open>m\<close> are what is left of the changed ranges.\<close>

fun trim_back :: "string list \<Rightarrow> string list \<Rightarrow> nat \<Rightarrow> nat \<Rightarrow> nat \<Rightarrow> nat \<times> nat" where
  "trim_back xs ys first (Suc n) (Suc m) =
     (if first < Suc n \<and> first < Suc m \<and> xs ! n = ys ! m then trim_back xs ys first n m else (Suc n, Suc m))"
| "trim_back xs ys first n m = (n, m)"

datatype preview_line = CtxLine string | DelLine string | AddLine string

definition trim_last :: "string list \<Rightarrow> string list" where
  "trim_last ls = (if ls \<noteq> [] \<and> last ls = [] then butlast ls else ls)"

definition preview_lines :: "string \<Rightarrow> string \<Rightarrow> preview_line list option" where
  "preview_lines orig new =
    (if orig = new then None
     else let xs = trim_last (split_lines orig); ys = trim_last (split_lines new); first = common_prefix xs ys
          in if first = length xs \<and> first = length ys then None
             else let (n, m) = trim_back xs ys first (length xs) (length ys)
                  in Some (map CtxLine (drop (first - 2) (take first xs)) @
                           map DelLine (drop first (take n xs)) @
                           map AddLine (drop first (take m ys)) @
                           map CtxLine (drop n (take (n + 2) xs))))"

fun render_line :: "preview_line \<Rightarrow> string" where
  "render_line (CtxLine l) = '' '' @ l @ [CHR 0x0A]"
| "render_line (DelLine l) = ''-'' @ l @ [CHR 0x0A]"
| "render_line (AddLine l) = ''+'' @ l @ [CHR 0x0A]"

definition generatePreview :: "string \<Rightarrow> string \<Rightarrow> string \<Rightarrow> string" where
  "generatePreview orig new path =
    (case preview_lines orig new of
       None \<Rightarrow> ''(no changes)''
     | Some ls \<Rightarrow> ''--- '' @ path @ [CHR 0x0A] @ ''+++ '' @ path @ [CHR 0x0A] @ concat (map render_line ls))"

section \<open>Edits of one file\<close>

definition splice :: "string \<Rightarrow> nat \<times> nat \<Rightarrow> string \<Rightarrow> string" where
  "splice s loc new = take (fst loc) s @ new @ drop (snd loc) s"

definition apply_edit :: "(string \<Rightarrow> rx option) \<Rightarrow> bool \<Rightarrow> bool \<Rightarrow> editOp \<Rightarrow> string \<Rightarrow> edit_error + string" where
  "apply_edit compile regex allFiles e content =
    (let every = allFiles \<or> eo_replaceAll e
     in if regex then
          (case compile (eo_old e) of
             None \<Rightarrow> Inl (InvalidRegex (eo_old e))
           | Some r \<Rightarrow>
               if \<not> rx_match r content then Inl (PatternNotFound (eo_old e))
               else if every then Inr (rx_all r content (eo_new e))
               else case rx_find r content of
                      None \<Rightarrow> Inl (PatternNotFound (eo_old e))
                    | Some loc \<Rightarrow> Inr (splice content loc (eo_new e)))
        else let n = strings_Count content (eo_old e)
             in if n = 0 then Inl (OldNotFound (eo_old e))
                else if \<not> every \<and> 1 < n then Inl (NotUnique (eo_old e) n)
                else if every then Inr (ReplaceAll content (eo_old e) (eo_new e))
                else Inr (replace_first content (eo_old e) (eo_new e)))"

fun apply_edits :: "(string \<Rightarrow> rx option) \<Rightarrow> bool \<Rightarrow> bool \<Rightarrow> editOp list \<Rightarrow> bool \<Rightarrow> string \<Rightarrow> edit_error + (string \<times> bool)" where
  "apply_edits compile regex allFiles [] changed content = Inr (content, changed)"
| "apply_edits compile regex allFiles (e # es) changed content =
     (case apply_edit compile regex allFiles e content of
        Inl err \<Rightarrow> Inl err
      | Inr content' \<Rightarrow> apply_edits compile regex allFiles es (changed \<or> content' \<noteq> content) content')"

text \<open>The first expectation of the edits of a file is the one that is checked.\<close>

definition check_expectation :: "nat \<Rightarrow> disk \<Rightarrow> string \<Rightarrow> editOp list \<Rightarrow> version_error option" where
  "check_expectation dirSize d p es =
    (case filter (\<lambda>e. eo_expectVersion e \<noteq> []) es of
       [] \<Rightarrow> None
     | e # _ \<Rightarrow> CheckVersion dirSize d p (eo_expectVersion e))"

record edit_outcome =
  eo_result :: fileResult
  eo_content :: string
  eo_changed :: bool

definition failed_edit :: "string \<Rightarrow> edit_error \<Rightarrow> edit_outcome" where
  "failed_edit p err = \<lparr>eo_result = \<lparr>fr_path = p, fr_status = FileFailed err\<rparr>, eo_content = [], eo_changed = False\<rparr>"

definition edit_file ::
  "nat \<Rightarrow> (string \<Rightarrow> rx option) \<Rightarrow> edit_args \<Rightarrow> disk \<Rightarrow> string \<Rightarrow> editOp list \<Rightarrow> edit_outcome" where
  "edit_file dirSize compile args d p es =
    (if IsBinaryFile d p then failed_edit p BinaryFile
     else case check_expectation dirSize d p es of
            Some v \<Rightarrow> failed_edit p (VersionError v)
          | None \<Rightarrow>
              (case read_file d p of
                 None \<Rightarrow> failed_edit p ReadError
               | Some text \<Rightarrow>
                   (case apply_edits compile (ma_regex args) (ma_replaceAll args) es False text of
                      Inl err \<Rightarrow> failed_edit p err
                    | Inr (content, changed) \<Rightarrow>
                        \<lparr>eo_result = \<lparr>fr_path = p, fr_status = FileOk
                            (if ma_preview args \<and> changed then Some (generatePreview text content p) else None)\<rparr>,
                          eo_content = content, eo_changed = changed\<rparr>)))"

text \<open>The paths in the order they are first named, and the edits of each.\<close>

fun edit_order :: "editOp list \<Rightarrow> string list" where
  "edit_order [] = []"
| "edit_order (e # es) = eo_path e # filter (\<lambda>p. p \<noteq> eo_path e) (edit_order es)"

definition edits_of :: "editOp list \<Rightarrow> string \<Rightarrow> editOp list" where
  "edits_of es p = filter (\<lambda>e. eo_path e = p) es"

text \<open>The writes in the order of the files, numbered.\<close>

fun write_changed :: "int \<Rightarrow> (nat \<Rightarrow> write_outcome) \<Rightarrow> nat \<Rightarrow> edit_outcome list \<Rightarrow> disk \<Rightarrow> fileResult list \<times> disk" where
  "write_changed now wr i [] d = ([], d)"
| "write_changed now wr i (o1 # os) d =
     (if \<not> succeeded (eo_result o1) \<or> \<not> eo_changed o1
      then (let (rs, d') = write_changed now wr (Suc i) os d in (eo_result o1 # rs, d'))
      else case wr i of
             WriteOk \<Rightarrow>
               (let (rs, d') = write_changed now wr (Suc i) os (write_file now (fr_path (eo_result o1)) (eo_content o1) d)
                in (eo_result o1 # rs, d'))
           | WriteFailed left \<Rightarrow>
               (let d1 = (case left of None \<Rightarrow> d | Some t \<Rightarrow> write_file now (fr_path (eo_result o1)) t d);
                    (rs, d') = write_changed now wr (Suc i) os d1
                in (\<lparr>fr_path = fr_path (eo_result o1), fr_status = FileFailed WriteError\<rparr> # rs, d')))"

definition report_of :: "(nat \<Rightarrow> nat \<Rightarrow> nat \<Rightarrow> edit_msg) \<Rightarrow> fileResult list \<Rightarrow> edit_report" where
  "report_of msg rs =
    (let n = length rs; s = length (filter succeeded rs)
     in \<lparr>er_msg = msg n s (n - s), er_results = rs, er_total = n, er_success = s, er_failed = n - s\<rparr>)"

text \<open>What both modes do once the files are edited in memory.\<close>

definition finalize :: "int \<Rightarrow> (nat \<Rightarrow> write_outcome) \<Rightarrow> edit_args \<Rightarrow> edit_outcome list \<Rightarrow> disk \<Rightarrow> edit_report \<times> disk" where
  "finalize now wr args os d =
    (if ma_dryRun args \<or> ma_preview args then (report_of Processed (map eo_result os), d)
     else let (rs, d') = write_changed now wr 0 os d
          in (report_of (\<lambda>n s f. if s = 0 then NoneModified else Edited n s f) rs, d'))"

text \<open>\<open>cancelled\<close>: the context has ended when the work on the file of that number would begin.\<close>

definition runPerFile ::
  "nat \<Rightarrow> (string \<Rightarrow> rx option) \<Rightarrow> int \<Rightarrow> (nat \<Rightarrow> bool) \<Rightarrow> (nat \<Rightarrow> write_outcome) \<Rightarrow> edit_args \<Rightarrow> disk
   \<Rightarrow> (edit_run_error + edit_report) \<times> disk" where
  "runPerFile dirSize compile now cancelled wr args d =
    (let order = edit_order (ma_edits args)
     in if list_ex cancelled [0..<length order] then (Inl EditCanceled, d)
        else let (rep, d') = finalize now wr args
                   (map (\<lambda>p. edit_file dirSize compile args d p (edits_of (ma_edits args) p)) order) d
             in (Inr rep, d'))"

section \<open>Replacements across files\<close>

definition cross_skipped :: "string list" where
  "cross_skipped = [''.git'', ''node_modules'', ''vendor'', ''__pycache__'', ''target'']"

text \<open>Which of the files found under the working directory are edited.\<close>

definition file_selected :: "edit_args \<Rightarrow> string \<Rightarrow> bool" where
  "file_selected args path =
    (list_all (\<lambda>dir. dir \<notin> set cross_skipped) (butlast (slash_segments path)) \<and>
     (ma_include args \<noteq> [] \<longrightarrow> path_Match (ma_include args) path \<or> path_Match (ma_include args) (path_Base path)
        \<or> contains path (ma_include args)) \<and>
     (ma_exclude args \<noteq> [] \<longrightarrow> \<not> path_Match (ma_exclude args) path \<and> \<not> path_Match (ma_exclude args) (path_Base path)) \<and>
     (path_Match (ma_pattern args) path \<or> path_Match (ma_pattern args) (path_Base path)))"

definition collectMatchingFiles :: "edit_args \<Rightarrow> string list \<Rightarrow> string list" where
  "collectMatchingFiles args walked = filter (file_selected args) walked"

definition replaceContent :: "edit_args \<Rightarrow> rx option \<Rightarrow> string \<Rightarrow> string option" where
  "replaceContent args re content =
    (case re of
       Some r \<Rightarrow>
         if \<not> rx_match r content then None
         else if ma_replaceAll args then Some (rx_all r content (ma_new args))
         else map_option (\<lambda>loc. splice content loc (ma_new args)) (rx_find r content)
     | None \<Rightarrow>
         if \<not> contains content (ma_old args) then None
         else if ma_replaceAll args then Some (ReplaceAll content (ma_old args) (ma_new args))
         else Some (replace_first content (ma_old args) (ma_new args)))"

definition cross_edit_file :: "edit_args \<Rightarrow> rx option \<Rightarrow> disk \<Rightarrow> string \<Rightarrow> edit_outcome" where
  "cross_edit_file args re d p =
    (if IsBinaryFile d p then failed_edit p BinaryFile
     else case read_file d p of
            None \<Rightarrow> failed_edit p ReadError
          | Some text \<Rightarrow>
              (case replaceContent args re text of
                 None \<Rightarrow> \<lparr>eo_result = \<lparr>fr_path = p, fr_status = FileOk None\<rparr>, eo_content = [], eo_changed = False\<rparr>
               | Some content \<Rightarrow>
                   \<lparr>eo_result = \<lparr>fr_path = p, fr_status = FileOk
                       (if ma_preview args then Some (generatePreview text content p) else None)\<rparr>,
                     eo_content = content, eo_changed = True\<rparr>))"

definition runCrossFile ::
  "(string \<Rightarrow> rx option) \<Rightarrow> int \<Rightarrow> (nat \<Rightarrow> bool) \<Rightarrow> (nat \<Rightarrow> write_outcome) \<Rightarrow> string list \<Rightarrow> edit_args \<Rightarrow> disk
   \<Rightarrow> (edit_run_error + edit_report) \<times> disk" where
  "runCrossFile compile now cancelled wr walked args d =
    (if ma_old args = [] then (Inl OldRequired, d)
     else if ma_regex args \<and> compile (ma_old args) = None then (Inl BadRegex, d)
     else let re = (if ma_regex args then compile (ma_old args) else None); files = collectMatchingFiles args walked
          in if files = [] then (Inr \<lparr>er_msg = NoneMatched, er_results = [], er_total = 0, er_success = 0, er_failed = 0\<rparr>, d)
             else if list_ex cancelled [0..<length files] then (Inl EditCanceled, d)
             else let (rep, d') = finalize now wr args (map (cross_edit_file args re d) files) d
                  in (Inr rep, d'))"

definition multi_edit ::
  "nat \<Rightarrow> (string \<Rightarrow> rx option) \<Rightarrow> int \<Rightarrow> bool \<Rightarrow> (nat \<Rightarrow> bool) \<Rightarrow> (nat \<Rightarrow> write_outcome) \<Rightarrow> string list \<Rightarrow> edit_args \<Rightarrow> disk
   \<Rightarrow> (edit_run_error + edit_report) \<times> disk" where
  "multi_edit dirSize compile now ctxDone cancelled wr walked args d =
    (if ctxDone then (Inl EditCanceled, d)
     else if ma_pattern args \<noteq> [] then runCrossFile compile now cancelled wr walked args d
     else if ma_edits args = [] then (Inl NothingToDo, d)
     else runPerFile dirSize compile now cancelled wr args d)"

section \<open>The preview is a patch\<close>

definition old_side :: "preview_line list \<Rightarrow> string list" where
  "old_side hs = concat (map (\<lambda>h. case h of CtxLine l \<Rightarrow> [l] | DelLine l \<Rightarrow> [l] | AddLine l \<Rightarrow> []) hs)"

definition new_side :: "preview_line list \<Rightarrow> string list" where
  "new_side hs = concat (map (\<lambda>h. case h of CtxLine l \<Rightarrow> [l] | DelLine l \<Rightarrow> [] | AddLine l \<Rightarrow> [l]) hs)"

lemma sides_append: "old_side (a @ b) = old_side a @ old_side b" "new_side (a @ b) = new_side a @ new_side b"
  by (simp_all add: old_side_def new_side_def)

lemma sides_map:
  "old_side (map CtxLine ls) = ls" "new_side (map CtxLine ls) = ls" "old_side (map DelLine ls) = ls"
  "new_side (map DelLine ls) = []" "old_side (map AddLine ls) = []" "new_side (map AddLine ls) = ls"
  by (induction ls) (simp_all add: old_side_def new_side_def)

lemma common_prefix_take:
  "common_prefix xs ys \<le> length xs \<and> common_prefix xs ys \<le> length ys \<and>
   take (common_prefix xs ys) xs = take (common_prefix xs ys) ys"
  by (induction xs ys rule: common_prefix.induct) auto

lemma trim_back_suffix:
  assumes "n \<le> length xs" and "m \<le> length ys" and "drop n xs = drop m ys" and "first \<le> n" and "first \<le> m"
    and "trim_back xs ys first n m = (n', m')"
  shows "n' \<le> length xs \<and> m' \<le> length ys \<and> first \<le> n' \<and> first \<le> m' \<and> drop n' xs = drop m' ys"
  using assms
proof (induction xs ys first n m rule: trim_back.induct)
  case (1 xs ys first n m)
  show ?case
  proof (cases "first < Suc n \<and> first < Suc m \<and> xs ! n = ys ! m")
    case True
    have "drop n xs = drop m ys" using 1(2-4) True
      by (metis Cons_nth_drop_Suc Suc_le_lessD)
    then show ?thesis using 1 True by simp
  next
    case False
    then have "n' = Suc n" "m' = Suc m" using 1(7) by auto
    then show ?thesis using 1 by simp
  qed
qed auto

text \<open>
  C32. The preview of an edit is a patch of it: the context and deleted lines are
  a stretch of the old file, the context and added lines the stretch of the new
  file in its place, and around that stretch both files are the same.
\<close>

theorem preview_patch:
  assumes "preview_lines orig new = Some hs"
  shows "\<exists>p s. trim_last (split_lines orig) = p @ old_side hs @ s \<and> trim_last (split_lines new) = p @ new_side hs @ s"
proof -
  define xs ys where "xs = trim_last (split_lines orig)" and "ys = trim_last (split_lines new)"
  define first where "first = common_prefix xs ys"
  obtain n m where nm: "trim_back xs ys first (length xs) (length ys) = (n, m)" by fastforce
  have hs: "hs = map CtxLine (drop (first - 2) (take first xs)) @ map DelLine (drop first (take n xs)) @
      map AddLine (drop first (take m ys)) @ map CtxLine (drop n (take (n + 2) xs))"
    using assms nm unfolding preview_lines_def Let_def xs_def [symmetric] ys_def [symmetric] first_def [symmetric]
    by (auto split: if_splits)
  have f: "first \<le> length xs" "first \<le> length ys" "take first xs = take first ys"
    using common_prefix_take [of xs ys] by (auto simp: first_def)
  have t: "n \<le> length xs" "m \<le> length ys" "first \<le> n" "first \<le> m" "drop n xs = drop m ys"
    using trim_back_suffix [OF _ _ _ _ _ nm] f by auto
  have parts: "zs = take (first - 2) zs @ drop (first - 2) (take first zs) @ drop first (take k zs) @ drop k (take (k + 2) zs) @ drop (k + 2) zs"
    if "first \<le> k" for k and zs :: "string list"
  proof -
    have a: "take (first - 2) zs @ drop (first - 2) (take first zs) = take first zs"
      by (metis append_take_drop_id diff_le_self min.absorb1 take_take)
    have b: "take first zs @ drop first (take k zs) = take k zs"
      by (metis append_take_drop_id min.absorb1 take_take that)
    have c: "take k zs @ drop k (take (k + 2) zs) = take (k + 2) zs"
      by (metis append_take_drop_id le_add1 min.absorb1 take_take)
    show ?thesis using a b c append_take_drop_id [of "k + 2" zs] by (metis append_assoc)
  qed
  have tail: "drop m (take (m + 2) ys) = drop n (take (n + 2) xs)" "drop (m + 2) ys = drop (n + 2) xs"
    using arg_cong [OF t(5), of "take 2"] arg_cong [OF t(5), of "drop 2"] by (simp_all add: take_drop add.commute)
  have head: "take (first - 2) ys = take (first - 2) xs" "drop (first - 2) (take first ys) = drop (first - 2) (take first xs)"
    using f(3) by (metis diff_le_self min.absorb1 take_take, simp)
  have "xs = take (first - 2) xs @ old_side hs @ drop (n + 2) xs"
    using parts [OF t(3), of xs] by (simp add: hs sides_append sides_map)
  moreover have "ys = take (first - 2) xs @ new_side hs @ drop (n + 2) xs"
    using parts [OF t(4), of ys] by (simp add: hs sides_append sides_map tail [simplified] head)
  ultimately show ?thesis unfolding xs_def ys_def by blast
qed

theorem preview_patch_witness:
  "\<exists>p s. trim_last (split_lines [CHR ''a'', CHR 0x0A, CHR ''b'']) = p @ [''a'', ''b''] @ s \<and>
     trim_last (split_lines [CHR ''a'', CHR 0x0A, CHR ''c'']) = p @ [''a'', ''c''] @ s"
proof -
  have "preview_lines [CHR ''a'', CHR 0x0A, CHR ''b''] [CHR ''a'', CHR 0x0A, CHR ''c''] =
      Some [CtxLine ''a'', DelLine ''b'', AddLine ''c'']"
    by (simp add: preview_lines_def trim_last_def numeral_2_eq_2)
  from preview_patch [OF this] show ?thesis by (simp add: old_side_def new_side_def)
qed

section \<open>Whole files or nothing\<close>



















definition one_edit :: "string \<Rightarrow> string \<Rightarrow> string \<Rightarrow> editOp" where
  "one_edit p old new = \<lparr>eo_path = p, eo_old = old, eo_new = new, eo_replaceAll = False, eo_expectVersion = []\<rparr>"

definition edits_only :: "editOp list \<Rightarrow> edit_args" where
  "edits_only es = \<lparr>ma_edits = es, ma_pattern = [], ma_old = [], ma_new = [], ma_regex = False, ma_replaceAll = False,
     ma_dryRun = False, ma_preview = False, ma_include = [], ma_exclude = []\<rparr>"

definition one_file_disk :: disk where
  "one_file_disk = [''a'' \<mapsto> RegularFile \<lparr>fn_data = ''xy'', fn_mtime = 0, fn_perm = 420\<rparr>,
     ''b'' \<mapsto> RegularFile \<lparr>fn_data = ''xy'', fn_mtime = 0, fn_perm = 420\<rparr>]"

lemmas edit_eval = runPerFile_def edits_only_def one_edit_def edits_of_def edit_file_def IsBinaryFile_def IsTextFile_def
  path_Ext_def slash_segments_def sep_def binary_exts_def ascii_lower_def read_file_def node_at_def one_file_disk_def
  path_Clean_def has_prefix_def check_expectation_def apply_edit_def strings_Count_def count_sub.simps replace_first_def
  finalize_def succeeded_def write_file_def report_of_def failed_edit_def


text \<open>A literal edit of one place replaces the only place where the text stands.\<close>

lemma unique_edit:
  assumes "apply_edit compile False False e content = Inr content'" and "\<not> eo_replaceAll e" and "eo_old e \<noteq> []"
  shows "count_sub (eo_old e) content = 1 \<and> (\<exists>a b. content = a @ eo_old e @ b \<and> content' = a @ eo_new e @ b)"
proof -
  have one: "count_sub (eo_old e) content = 1" and c: "content' = replace_first content (eo_old e) (eo_new e)"
    using assms by (auto simp: apply_edit_def strings_Count_def Let_def split: if_splits)
  obtain i where i: "index_of (eo_old e) content = Some i"
    using index_of_None [of "eo_old e" content] one by (cases "index_of (eo_old e) content") auto
  show ?thesis using one index_of_split [OF i] c i by (auto simp: replace_first_def)
qed

section \<open>What the tool does otherwise than described\<close>

text \<open>Two spellings of a path are edited apart and the later write wins: the first edit is lost.\<close>

lemma alias_edit_lost:
  "read_file (snd (runPerFile 0 (\<lambda>_. None) 5 (\<lambda>_. False) (\<lambda>_. WriteOk)
     (edits_only [one_edit ''a'' ''x'' ''z'', one_edit ''./a'' ''y'' ''w'']) one_file_disk)) ''a'' = Some ''xw''"
  by (simp add: edit_eval)

text \<open>The description promises globs over directories; the matcher of the tool takes a double star for one segment.\<close>

lemma glob_not_recursive:
  "\<not> path_Match ''s/**/*.t'' ''s/a.t''" "\<not> path_Match ''s/**/*.t'' ''s/x/y/a.t''" "GlobMatch ''s/**/*.t'' ''s/x/y/a.t''"
  by (simp_all add: path_Match.simps scanChunk_def matchChunk.simps sep_def GlobMatch_def trim_suffix_def has_suffix_def
      slash_segments_def matchSegments.simps)

text \<open>A file that a replacement does not touch counts as edited.\<close>

lemma untouched_counts_as_edited:
  "fst (runCrossFile (\<lambda>_. None) 5 (\<lambda>_. False) (\<lambda>_. WriteOk) [''a'']
     ((edits_only [])\<lparr>ma_pattern := ''a'', ma_old := ''q'', ma_new := ''r''\<rparr>) one_file_disk) =
   Inr \<lparr>er_msg = Edited 1 1 0, er_results = [\<lparr>fr_path = ''a'', fr_status = FileOk None\<rparr>], er_total = 1, er_success = 1, er_failed = 0\<rparr>"
  by (simp add: runCrossFile_def collectMatchingFiles_def file_selected_def cross_edit_file_def replaceContent_def contains_def
      edit_eval cross_skipped_def path_Match.simps scanChunk_def matchChunk.simps)

end
