(* ===== verification/SearchTools.thy ===== *)
theory SearchTools
  imports ToolFiles "HOL-Library.List_Lexorder" "HOL-Library.Char_ord" "HOL-Library.Multiset"
begin

text \<open>
  The search tools: \<open>tools/grep\<close> (grep.go, grep_session.go) and \<open>tools/glob\<close>
  (glob.go).  A compiled expression is the predicate it decides, a directory walk
  is the list of the files below a directory, relative to it.  The workers of a
  search merge their files in any order.
\<close>

section \<open>Options of grep\<close>

record grep_args =
  ga_pattern :: string
  ga_context :: int
  ga_before :: int
  ga_after :: int
  ga_maxResult :: int
  ga_literal :: bool
  ga_ignoreCase :: bool
  ga_include :: string
  ga_exclude :: string
  ga_type :: string
  ga_noIgnore :: bool
  ga_hidden :: bool
  ga_maxDepth :: int

record grep_options =
  go_args :: grep_args
  go_re :: "string \<Rightarrow> bool"
  go_before :: nat
  go_after :: nat
  go_max :: nat

definition compilePattern :: "(string \<Rightarrow> (string \<Rightarrow> bool) option) \<Rightarrow> (string \<Rightarrow> string) \<Rightarrow> string \<Rightarrow> bool \<Rightarrow> bool \<Rightarrow> (string \<Rightarrow> bool) option" where
  "compilePattern compile quoteMeta pattern literal ignoreCase =
    (let again = (\<lambda>p. compile (if ignoreCase then ''(?i)'' @ p else p))
     in case compile pattern of
          None \<Rightarrow> if literal then again (quoteMeta pattern) else None
        | Some re \<Rightarrow> if \<not> ignoreCase then Some re else again pattern)"

definition parseGrepArgs :: "(string \<Rightarrow> (string \<Rightarrow> bool) option) \<Rightarrow> (string \<Rightarrow> string) \<Rightarrow> grep_args \<Rightarrow> grep_options option" where
  "parseGrepArgs compile quoteMeta args =
    (if ga_pattern args = [] then None
     else let smartCase = (ga_pattern args = ascii_lower (ga_pattern args))
          in case compilePattern compile quoteMeta (ga_pattern args) (ga_literal args) (ga_ignoreCase args \<or> smartCase) of
               None \<Rightarrow> None
             | Some re \<Rightarrow> Some \<lparr>go_args = args, go_re = re,
                 go_before = nat (if ga_context args > 0 \<and> ga_before args = 0 then ga_context args else ga_before args),
                 go_after = nat (if ga_context args > 0 \<and> ga_after args = 0 then ga_context args else ga_after args),
                 go_max = (if ga_maxResult args \<le> 0 then 50 else nat (ga_maxResult args))\<rparr>)"

definition type_table :: "(string \<times> string list) list" where
  "type_table = [(''go'', [''.go'']), (''rust'', [''.rs'']), (''rs'', [''.rs'']), (''python'', [''.py'', ''.pyi'']), (''py'', [''.py'', ''.pyi'']),
     (''js'', [''.js'', ''.mjs'']), (''ts'', [''.ts'', ''.tsx'']), (''java'', [''.java'']), (''c'', [''.c'', ''.h'']), (''ruby'', [''.rb'']),
     (''shell'', [''.sh'', ''.bash'']), (''yaml'', [''.yaml'', ''.yml'']), (''json'', [''.json'']), (''markdown'', [''.md'']), (''md'', [''.md'']),
     (''html'', [''.html'']), (''css'', [''.css'', ''.scss''])]"

definition TypeExts :: "string \<Rightarrow> string list" where
  "TypeExts typeName = (case map_of type_table (ascii_lower typeName) of Some exts \<Rightarrow> exts | None \<Rightarrow> [CHR ''.'' # ascii_lower typeName])"

section \<open>One file\<close>

text \<open>The lines of a scanner, without carriage returns; it gives up on a line that fills its buffer.\<close>

definition drop_cr :: "string \<Rightarrow> string" where
  "drop_cr l = (if l \<noteq> [] \<and> last l = CHR 0x0D then butlast l else l)"

definition scan_lines :: "string \<Rightarrow> string list option" where
  "scan_lines s =
    (let raw = split_lines s; ls = (if last raw = [] then butlast raw else raw)
     in if list_ex (\<lambda>l. length l \<ge> 1048576) ls then None else Some (map drop_cr ls))"

datatype line_kind = KMatch | KBefore | KAfter | KSeparator

record lineMatch =
  lm_num :: nat
  lm_line :: string
  lm_kind :: line_kind

record fileMatches =
  fm_path :: string
  fm_matches :: "lineMatch list"
  fm_count :: nat

definition line_at :: "string list \<Rightarrow> line_kind \<Rightarrow> nat \<Rightarrow> lineMatch" where
  "line_at ls k j = \<lparr>lm_num = Suc j, lm_line = ls ! j, lm_kind = k\<rparr>"

definition separator :: lineMatch where
  "separator = \<lparr>lm_num = 0, lm_line = [], lm_kind = KSeparator\<rparr>"

text \<open>What is collected at line \<open>i\<close>; \<open>prev\<close> is the line of the match before.\<close>

definition match_block :: "string list \<Rightarrow> nat \<Rightarrow> nat \<Rightarrow> int \<Rightarrow> nat \<Rightarrow> lineMatch list" where
  "match_block ls before after prev i =
    (if int i - prev > int before + int after + 1 then [separator] else []) @
    map (line_at ls KBefore) [i - before..<i] @ [line_at ls KMatch i] @
    map (line_at ls KAfter) [Suc i..<min (Suc (i + after)) (length ls)]"

fun search_loop :: "(string \<Rightarrow> bool) \<Rightarrow> string list \<Rightarrow> nat \<Rightarrow> nat \<Rightarrow> nat \<Rightarrow> nat \<Rightarrow> int \<Rightarrow> nat list \<Rightarrow> lineMatch list \<times> nat" where
  "search_loop re ls before after maxR cnt prev [] = ([], cnt)"
| "search_loop re ls before after maxR cnt prev (i # is) =
     (if \<not> re (ls ! i) then search_loop re ls before after maxR cnt prev is
      else if maxR > 0 \<and> cnt \<ge> maxR then ([], cnt)
      else let (ms, c) = search_loop re ls before after maxR (Suc cnt) (int i) is
           in (match_block ls before after prev i @ ms, c))"

text \<open>Entries of one line and kind are listed once.\<close>

fun dedup :: "(nat \<times> line_kind) set \<Rightarrow> lineMatch list \<Rightarrow> lineMatch list" where
  "dedup seen [] = []"
| "dedup seen (m # ms) =
     (if (lm_num m, lm_kind m) \<in> seen then dedup seen ms
      else m # dedup (insert (lm_num m, lm_kind m) seen) ms)"

definition searchFile :: "disk \<Rightarrow> string \<Rightarrow> (string \<Rightarrow> bool) \<Rightarrow> nat \<Rightarrow> nat \<Rightarrow> nat \<Rightarrow> fileMatches option" where
  "searchFile d path re before after maxR =
    (case read_file d path of
       None \<Rightarrow> None
     | Some text \<Rightarrow>
        (case scan_lines text of
           None \<Rightarrow> None
         | Some ls \<Rightarrow>
             (let (ms, c) = search_loop re ls before after maxR 0 (- int before - 2) [0..<length ls]
              in Some \<lparr>fm_path = path, fm_matches = dedup {} ms, fm_count = c\<rparr>)))"

fun format_line :: "lineMatch \<Rightarrow> string" where
  "format_line m =
    (case lm_kind m of
       KSeparator \<Rightarrow> ''--'' @ [CHR 0x0A]
     | KMatch \<Rightarrow> decimal (lm_num m) @ '': '' @ lm_line m @ [CHR 0x0A]
     | KBefore \<Rightarrow> decimal (lm_num m) @ ''- '' @ lm_line m @ [CHR 0x0A]
     | KAfter \<Rightarrow> decimal (lm_num m) @ ''> '' @ lm_line m @ [CHR 0x0A])"

definition format_file :: "fileMatches \<Rightarrow> string" where
  "format_file fm = fm_path fm @ '':'' @ [CHR 0x0A] @ concat (map format_line (fm_matches fm))"

definition formatText :: "fileMatches list \<Rightarrow> string" where
  "formatText fs = join_strings [CHR 0x0A] (map format_file fs)"

record grep_report =
  gr_matches :: nat
  gr_files :: nat
  gr_output :: string

definition grepSingleFile :: "disk \<Rightarrow> grep_options \<Rightarrow> string \<Rightarrow> grep_report option" where
  "grepSingleFile d opts path =
    (case searchFile d path (go_re opts) (go_before opts) (go_after opts) (go_max opts) of
       None \<Rightarrow> None
     | Some fm \<Rightarrow> Some (if fm_count fm = 0 then \<lparr>gr_matches = 0, gr_files = 0, gr_output = []\<rparr>
                        else \<lparr>gr_matches = fm_count fm, gr_files = 1, gr_output = formatText [fm]\<rparr>))"

section \<open>A directory\<close>

text \<open>The directories above a file of the walk, from the searched one down: name and path relative to it.\<close>

definition walk_dirs :: "string \<Rightarrow> string \<Rightarrow> (string \<times> string) list" where
  "walk_dirs base rel =
    (path_Base base, ''.'') #
    map (\<lambda>n. (slash_segments rel ! n, join_strings ''/'' (take (Suc n) (slash_segments rel)))) [0..<length (slash_segments rel) - 1]"

definition gitignore_patterns :: "string \<Rightarrow> string list" where
  "gitignore_patterns text = filter (\<lambda>l. l \<noteq> [] \<and> \<not> has_prefix l ''#'') (map TrimSpace (split_lines text))"

definition loadGitignore :: "disk \<Rightarrow> string \<Rightarrow> string list" where
  "loadGitignore d base = (case read_file d (path_Join base ''.gitignore'') of None \<Rightarrow> [] | Some text \<Rightarrow> gitignore_patterns text)"

definition isIgnored :: "string \<Rightarrow> string \<Rightarrow> string list \<Rightarrow> bool" where
  "isIgnored name rel patterns =
    list_ex (\<lambda>p0. let p = trim_suffix (trim_prefix p0 ''/'') ''/''
       in path_Match p name \<or> path_Match p rel \<or> has_prefix rel (p @ ''/'') \<or> rel = p) patterns"

definition glob_match_file :: "string \<Rightarrow> string \<Rightarrow> bool" where
  "glob_match_file pattern path = (GlobMatch pattern path \<or> GlobMatch pattern (path_Base path))"

definition dir_walked :: "bool \<Rightarrow> bool \<Rightarrow> string list \<Rightarrow> string \<times> string \<Rightarrow> bool" where
  "dir_walked hidden noIgnore patterns dir =
    (let (name, rel) = dir
     in (hidden \<or> \<not> has_prefix name ''.'' \<or> name = ''.'' \<or> name = ''..'') \<and> \<not> IsSkippedDir name \<and>
        (noIgnore \<or> \<not> isIgnored name rel patterns))"

definition grep_selected :: "grep_options \<Rightarrow> string list \<Rightarrow> string \<Rightarrow> string \<Rightarrow> bool" where
  "grep_selected opts patterns base rel =
    (let args = go_args opts; path = path_Join base rel
     in list_all (dir_walked (ga_hidden args) (ga_noIgnore args) patterns) (walk_dirs base rel) \<and>
        (ga_hidden args \<or> \<not> has_prefix (path_Base path) ''.'') \<and>
        IsTextFile path \<and>
        (ga_include args \<noteq> [] \<longrightarrow> glob_match_file (ga_include args) path) \<and>
        (ga_exclude args \<noteq> [] \<longrightarrow> \<not> glob_match_file (ga_exclude args) path) \<and>
        (ga_type args \<noteq> [] \<longrightarrow> ascii_lower (path_Ext path) \<in> set (TypeExts (ga_type args))) \<and>
        \<not> (ga_maxDepth args > 0 \<and> int (length (slash_segments rel)) > ga_maxDepth args))"

record grep_session =
  gs_results :: "fileMatches list"
  gs_count :: nat
  gs_truncated :: bool

text \<open>A worker merges the matches of a file, in one critical section.\<close>

definition merge_file :: "nat \<Rightarrow> fileMatches \<Rightarrow> grep_session \<Rightarrow> grep_session" where
  "merge_file maxR fm s =
    (if fm_count fm = 0 then s
     else if maxR > 0 \<and> gs_count s \<ge> maxR then s
     else let total = gs_count s + fm_count fm
          in if maxR > 0 \<and> total > maxR then
               (let c = fm_count fm - (total - maxR)
                in s\<lparr>gs_results := gs_results s @ [fm\<lparr>fm_count := c, fm_matches := take c (fm_matches fm)\<rparr>],
                     gs_count := maxR, gs_truncated := True\<rparr>)
             else s\<lparr>gs_results := gs_results s @ [fm], gs_count := total\<rparr>)"

definition newGrepSession :: grep_session where
  "newGrepSession = \<lparr>gs_results = [], gs_count = 0, gs_truncated = False\<rparr>"

text \<open>\<open>arrived\<close>: the files whose matches reach a worker, in the order of the merges.\<close>

definition run_merges :: "nat \<Rightarrow> fileMatches list \<Rightarrow> grep_session" where
  "run_merges maxR arrived = fold (merge_file maxR) arrived newGrepSession"

definition grep_format :: "nat \<Rightarrow> grep_session \<Rightarrow> grep_report" where
  "grep_format maxR s =
    (if gs_results s = [] then \<lparr>gr_matches = 0, gr_files = 0, gr_output = []\<rparr>
     else \<lparr>gr_matches = gs_count s, gr_files = length (gs_results s),
       gr_output = formatText (sort_key fm_path (gs_results s)) @
         (if gs_truncated s then [CHR 0x0A] @ ''... truncated at '' @ decimal maxR @ '' matches (use max_results to increase limit)'' @ [CHR 0x0A] else [])\<rparr>)"

section \<open>The glob tool\<close>

record glob_args =
  gl_pattern :: string
  gl_path :: string
  gl_extension :: string
  gl_maxDepth :: int
  gl_noIgnore :: bool
  gl_followSymlinks :: bool
  gl_maxResults :: int

definition glob_base :: "glob_args \<Rightarrow> string" where
  "glob_base args = (if gl_path args = [] then ''.'' else gl_path args)"

definition glob_max :: "glob_args \<Rightarrow> int" where
  "glob_max args = (if gl_maxResults args < 0 then 100 else gl_maxResults args)"

definition glob_walks :: "glob_args \<Rightarrow> bool" where
  "glob_walks args \<longleftrightarrow> contains (gl_pattern args) ''**'' \<or> gl_extension args \<noteq> [] \<or> gl_maxDepth args > 0 \<or> gl_followSymlinks args"

definition glob_selected :: "glob_args \<Rightarrow> string list \<Rightarrow> string \<Rightarrow> bool" where
  "glob_selected args patterns rel =
    (let path = path_Join (glob_base args) rel
     in list_all (dir_walked False (gl_noIgnore args) patterns) (walk_dirs (glob_base args) rel) \<and>
        \<not> has_prefix (path_Base path) ''.'' \<and>
        GlobMatch (trim_prefix (gl_pattern args) ''./'') rel \<and>
        \<not> (gl_maxDepth args > 0 \<and> int (length (slash_segments rel)) > gl_maxDepth args) \<and>
        (gl_extension args \<noteq> [] \<longrightarrow>
           ascii_lower (trim_prefix (path_Ext path) ''.'') = ascii_lower (trim_prefix (gl_extension args) ''.'')))"

text \<open>The files that reached a worker, in any order, sorted and cut.\<close>

definition glob_finish :: "int \<Rightarrow> string list \<Rightarrow> string list" where
  "glob_finish maxR files = (let fs = sort files in if maxR > 0 then take (nat maxR) fs else fs)"

text \<open>\<open>globbed\<close> answers \<open>filepath.Glob\<close>, \<open>arrived\<close> is what the workers took of the walk.\<close>

definition glob_run :: "(string \<Rightarrow> string list option) \<Rightarrow> string list \<Rightarrow> glob_args \<Rightarrow> string list option" where
  "glob_run globbed arrived args =
    (if gl_pattern args = [] then None
     else if glob_walks args then Some (glob_finish (glob_max args) arrived)
     else map_option (glob_finish (glob_max args))
       (globbed (if has_prefix (gl_pattern args) (glob_base args) then gl_pattern args else path_Join (glob_base args) (gl_pattern args))))"

lemma glob_order_irrelevant: "mset arrived = mset arrived' \<Longrightarrow> glob_finish maxR arrived = glob_finish maxR arrived'"
  using properties_for_sort [of "sort arrived" arrived'] by (simp add: glob_finish_def)

text \<open>The documented default of a hundred results is never used: an absent number is zero and means no limit.\<close>

lemma glob_default_unlimited: "gl_maxResults args = 0 \<Longrightarrow> glob_finish (glob_max args) files = sort files"
  by (simp add: glob_finish_def glob_max_def)

section \<open>What a search of a file lists\<close>

text \<open>The reported matches: all of them, or the first up to the maximum.\<close>

definition hits :: "(string \<Rightarrow> bool) \<Rightarrow> string list \<Rightarrow> nat \<Rightarrow> nat list" where
  "hits re ls maxR = (let hs = filter (\<lambda>i. re (ls ! i)) [0..<length ls] in if maxR > 0 then take maxR hs else hs)"

definition capped :: "nat \<Rightarrow> nat \<Rightarrow> nat list \<Rightarrow> nat list" where
  "capped maxR cnt xs = (if maxR > 0 then take (maxR - cnt) xs else xs)"

lemma capped_step: "\<not> (maxR > 0 \<and> cnt \<ge> maxR) \<Longrightarrow> capped maxR cnt (x # xs) = x # capped maxR (Suc cnt) xs"
  by (auto simp: capped_def Suc_diff_le [symmetric] take_Cons split: nat.splits)
    (metis Suc_diff_Suc nat.inject not_less)+

lemma capped_stop: "maxR > 0 \<and> cnt \<ge> maxR \<Longrightarrow> capped maxR cnt xs = []"
  by (simp add: capped_def)

definition context_of :: "string list \<Rightarrow> nat \<Rightarrow> nat \<Rightarrow> nat \<Rightarrow> lineMatch set" where
  "context_of ls before after i =
    insert (line_at ls KMatch i) (line_at ls KBefore ` {i - before..<i} \<union> line_at ls KAfter ` {Suc i..<min (Suc (i + after)) (length ls)})"

lemma match_block_set: "set (match_block ls before after prev i) - {separator} = context_of ls before after i"
  by (auto simp: match_block_def context_of_def separator_def line_at_def)

lemma match_block_matches: "filter (\<lambda>m. lm_kind m = KMatch) (match_block ls before after prev i) = [line_at ls KMatch i]"
  by (auto simp: match_block_def separator_def line_at_def filter_empty_conv)

lemma search_loop_spec:
  "filter (\<lambda>m. lm_kind m = KMatch) (fst (search_loop re ls before after maxR cnt prev is)) =
     map (line_at ls KMatch) (capped maxR cnt (filter (\<lambda>i. re (ls ! i)) is)) \<and>
   snd (search_loop re ls before after maxR cnt prev is) = cnt + length (capped maxR cnt (filter (\<lambda>i. re (ls ! i)) is)) \<and>
   set (fst (search_loop re ls before after maxR cnt prev is)) - {separator} =
     (\<Union>i \<in> set (capped maxR cnt (filter (\<lambda>i. re (ls ! i)) is)). context_of ls before after i)"
proof (induction "is" arbitrary: cnt prev)
  case Nil
  show ?case by (simp add: capped_def)
next
  case (Cons i "is")
  show ?case
  proof (cases "re (ls ! i)")
    case False
    then show ?thesis using Cons.IH [of cnt prev] by simp
  next
    case True
    show ?thesis
    proof (cases "maxR > 0 \<and> cnt \<ge> maxR")
      case stop: True
      then show ?thesis using True by (simp add: capped_stop [OF stop])
    next
      case False
      show ?thesis using Cons.IH [of "Suc cnt" "int i"] True match_block_set [of ls before after prev i]
        by (auto simp: capped_step [OF False] split_beta match_block_matches Un_Diff if_not_P [OF False])
    qed
  qed
qed

lemma dedup_keep:
  assumes "distinct (map key (filter P ms))" and "\<forall>m \<in> set (filter P ms). key m \<notin> seen" and key: "key = (\<lambda>m. (lm_num m, lm_kind m))"
    and kind: "\<And>m m'. lm_kind m = lm_kind m' \<Longrightarrow> P m = P m'"
  shows "filter P (dedup seen ms) = filter P ms"
  using assms(1,2)
proof (induction ms arbitrary: seen)
  case (Cons m ms)
  show ?case
  proof (cases "key m \<in> seen")
    case True
    then have "\<not> P m" using Cons.prems(2) by auto
    then show ?thesis using Cons True by (simp add: key)
  next
    case False
    have "\<forall>m' \<in> set (filter P ms). key m' \<notin> insert (key m) seen"
    proof
      fix m' assume m': "m' \<in> set (filter P ms)"
      have "key m' \<noteq> key m"
      proof
        assume same: "key m' = key m"
        then have "P m" using m' kind [of m m'] by (auto simp: key)
        then have "key m \<notin> key ` set (filter P ms)" using Cons.prems(1) by simp
        then show False using m' same by (metis image_eqI)
      qed
      then show "key m' \<notin> insert (key m) seen" using m' Cons.prems(2) by auto
    qed
    moreover have "distinct (map key (filter P ms))" using Cons.prems(1) by (auto split: if_splits)
    ultimately have "filter P (dedup (insert (key m) seen) ms) = filter P ms" using Cons.IH by blast
    then show ?thesis using False by (simp add: key)
  qed
qed simp

lemma dedup_same: "\<forall>m \<in> set ms. \<forall>m' \<in> set ms. lm_num m = lm_num m' \<and> lm_kind m = lm_kind m' \<longrightarrow> m = m' \<Longrightarrow>
  set (dedup seen ms) = {m \<in> set ms. (lm_num m, lm_kind m) \<notin> seen}"
  by (induction ms arbitrary: seen) auto

lemma line_unique:
  "m \<in> insert separator (\<Union>k. range (line_at ls k)) \<Longrightarrow> m' \<in> insert separator (\<Union>k. range (line_at ls k)) \<Longrightarrow>
     lm_num m = lm_num m' \<and> lm_kind m = lm_kind m' \<Longrightarrow> m = m'"
  by (auto simp: line_at_def separator_def)

lemma dedup_distinct: "distinct (map (\<lambda>m. (lm_num m, lm_kind m)) (dedup seen ms)) \<and>
  (\<forall>m \<in> set (dedup seen ms). (lm_num m, lm_kind m) \<notin> seen)"
proof (induction ms arbitrary: seen)
  case (Cons m ms)
  have "distinct (map (\<lambda>m. (lm_num m, lm_kind m)) (dedup (insert (lm_num m, lm_kind m) seen) ms)) \<and>
      (\<forall>m' \<in> set (dedup (insert (lm_num m, lm_kind m) seen) ms). (lm_num m', lm_kind m') \<notin> insert (lm_num m, lm_kind m) seen)"
    by (rule Cons.IH)
  then show ?case using Cons.IH [of seen] by (auto simp: image_iff)
qed simp

text \<open>The entries of a search, kind by kind.\<close>

lemma grep_file_entries:
  assumes read: "read_file d path = Some text" and scan: "scan_lines text = Some ls"
  shows "\<exists>fm. searchFile d path re before after maxR = Some fm \<and>
    filter (\<lambda>m. lm_kind m = KMatch) (fm_matches fm) = map (line_at ls KMatch) (hits re ls maxR) \<and>
    fm_count fm = length (hits re ls maxR) \<and>
    set (fm_matches fm) - {separator} =
      line_at ls KMatch ` set (hits re ls maxR) \<union>
      line_at ls KBefore ` {j. \<exists>i \<in> set (hits re ls maxR). i - before \<le> j \<and> j < i} \<union>
      line_at ls KAfter ` {j. \<exists>i \<in> set (hits re ls maxR). i < j \<and> j \<le> i + after \<and> j < length ls} \<and>
    distinct (map (\<lambda>m. (lm_num m, lm_kind m)) (fm_matches fm))"
proof -
  let ?loop = "search_loop re ls before after maxR 0 (- int before - 2) [0..<length ls]"
  have hits: "capped maxR 0 (filter (\<lambda>i. re (ls ! i)) [0..<length ls]) = hits re ls maxR"
    by (simp add: capped_def hits_def)
  note spec = search_loop_spec [of re ls before after maxR 0 "- int before - 2" "[0..<length ls]", unfolded hits]
  let ?key = "\<lambda>m. (lm_num m, lm_kind m)"
  have "distinct (hits re ls maxR)" by (simp add: hits_def Let_def)
  then have dist: "distinct (map ?key (filter (\<lambda>m. lm_kind m = KMatch) (fst ?loop)))"
    using spec by (simp add: distinct_map inj_on_def line_at_def)
  have "set (fst ?loop) \<subseteq> insert separator (\<Union>k. range (line_at ls k))"
  proof
    fix x assume x: "x \<in> set (fst ?loop)"
    show "x \<in> insert separator (\<Union>k. range (line_at ls k))"
    proof (cases "x = separator")
      case False
      then obtain i where "x \<in> context_of ls before after i" using x spec by blast
      then show ?thesis by (auto simp: context_of_def)
    qed simp
  qed
  then have same: "\<forall>m \<in> set (fst ?loop). \<forall>m' \<in> set (fst ?loop). lm_num m = lm_num m' \<and> lm_kind m = lm_kind m' \<longrightarrow> m = m'"
    using line_unique by (meson subsetD)
  have keep: "filter (\<lambda>m. lm_kind m = KMatch) (dedup {} (fst ?loop)) = filter (\<lambda>m. lm_kind m = KMatch) (fst ?loop)"
    by (rule dedup_keep [OF dist]) auto
  have ctx: "(\<Union>i \<in> H. context_of ls before after i) = line_at ls KMatch ` H \<union>
      line_at ls KBefore ` {j. \<exists>i \<in> H. i - before \<le> j \<and> j < i} \<union> line_at ls KAfter ` {j. \<exists>i \<in> H. i < j \<and> j \<le> i + after \<and> j < length ls}"
    for H :: "nat set"
  proof -
    have "{j. \<exists>i \<in> H. i - before \<le> j \<and> j < i} = (\<Union>i \<in> H. {i - before..<i})"
      "{j. \<exists>i \<in> H. i < j \<and> j \<le> i + after \<and> j < length ls} = (\<Union>i \<in> H. {Suc i..<min (Suc (i + after)) (length ls)})"
      by (auto simp: Suc_le_eq less_Suc_eq_le)
    then show ?thesis by (simp only: context_of_def) blast
  qed
  show ?thesis using spec
    by (auto simp: searchFile_def read scan split_beta keep dedup_same [OF same] ctx dedup_distinct)
qed

text \<open>The lines before and after a set of matches, and the windows they make up.\<close>

definition leading :: "nat \<Rightarrow> nat set \<Rightarrow> nat set" where
  "leading before H = {j. \<exists>i \<in> H. i - before \<le> j \<and> j < i}"

definition trailing :: "nat \<Rightarrow> nat \<Rightarrow> nat set \<Rightarrow> nat set" where
  "trailing after n H = {j. \<exists>i \<in> H. i < j \<and> j \<le> i + after \<and> j < n}"

lemma window_lines:
  assumes "\<forall>i \<in> H. i < n"
  shows "{j. j < n \<and> (\<exists>i \<in> H. i - before \<le> j \<and> j \<le> i + after)} = H \<union> leading before H \<union> trailing after n H"
proof -
  have "j \<in> H \<union> leading before H \<union> trailing after n H" if "i \<in> H" "i - before \<le> j" "j \<le> i + after" "j < n" for i j
    using that by (cases j i rule: linorder_cases) (auto simp: leading_def trailing_def)
  moreover have "j < n \<and> (\<exists>i \<in> H. i - before \<le> j \<and> j \<le> i + after)" if "j \<in> H" for j
    using that assms by (auto intro!: bexI [of _ j])
  moreover have "j < n \<and> (\<exists>i \<in> H. i - before \<le> j \<and> j \<le> i + after)" if "j \<in> leading before H" for j
    using that assms by (auto simp: leading_def intro!: bexI)
  moreover have "j < n \<and> (\<exists>i \<in> H. i - before \<le> j \<and> j \<le> i + after)" if "j \<in> trailing after n H" for j
    using that by (auto simp: trailing_def intro!: bexI)
  ultimately show ?thesis by blast
qed

lemma apart_numbers:
  assumes "\<forall>i \<in> H. \<forall>k \<in> H. i < k \<longrightarrow> i + after + before < k"
  shows "inj_on lm_num (line_at ls KMatch ` H \<union> line_at ls KBefore ` leading before H \<union> line_at ls KAfter ` trailing after n H)"
proof -
  have far: "i + after + before < k" if "i \<in> H" "k \<in> H" "i < k" for i k using assms that by blast
  have "H \<inter> leading before H = {}" "H \<inter> trailing after n H = {}" "leading before H \<inter> trailing after n H = {}"
    unfolding leading_def trailing_def using far by fastforce+
  then show ?thesis by (auto simp: inj_on_def line_at_def disjoint_iff)
qed

text \<open>
  C34. What a search of a file lists.  The matching lines are reported in order, each once: all of them, or the first
  up to the maximum; the count is their number.  The lines listed are those of the windows of \<open>before\<close> and
  \<open>after\<close> lines around the reported matches, no others, each with its own text under its own number.  No line
  is listed twice under one kind, and none at all where the windows of neighbouring matches are apart.  (Where they
  overlap a line can be listed as context of two kinds, or as context and match: \<open>context_line_twice\<close>.)
\<close>

theorem grep_file_lists:
  assumes "read_file d path = Some text" and "scan_lines text = Some ls"
  shows "\<exists>fm. searchFile d path re before after maxR = Some fm \<and>
    filter (\<lambda>m. lm_kind m = KMatch) (fm_matches fm) = map (line_at ls KMatch) (hits re ls maxR) \<and>
    fm_count fm = length (hits re ls maxR) \<and>
    (\<lambda>m. (lm_num m, lm_line m)) ` (set (fm_matches fm) - {separator}) =
      (\<lambda>j. (Suc j, ls ! j)) ` {j. j < length ls \<and> (\<exists>i \<in> set (hits re ls maxR). i - before \<le> j \<and> j \<le> i + after)} \<and>
    distinct (map (\<lambda>m. (lm_num m, lm_kind m)) (fm_matches fm)) \<and>
    ((\<forall>i \<in> set (hits re ls maxR). \<forall>k \<in> set (hits re ls maxR). i < k \<longrightarrow> i + after + before < k) \<longrightarrow>
       distinct (map lm_num (filter (\<lambda>m. m \<noteq> separator) (fm_matches fm))))"
proof -
  let ?H = "set (hits re ls maxR)"
  have "\<forall>i \<in> ?H. i < length ls"
    by (auto simp: hits_def Let_def dest: in_set_takeD split: if_splits)
  note lines = window_lines [OF this, of before after]
  obtain fm where fm: "searchFile d path re before after maxR = Some fm"
    "filter (\<lambda>m. lm_kind m = KMatch) (fm_matches fm) = map (line_at ls KMatch) (hits re ls maxR)"
    "fm_count fm = length (hits re ls maxR)"
    and entries: "set (fm_matches fm) - {separator} = line_at ls KMatch ` ?H \<union>
      line_at ls KBefore ` leading before ?H \<union> line_at ls KAfter ` trailing after (length ls) ?H"
    and dist: "distinct (map (\<lambda>m. (lm_num m, lm_kind m)) (fm_matches fm))"
    using grep_file_entries [OF assms, of re before after maxR] unfolding leading_def [symmetric] trailing_def [symmetric] by (elim exE conjE) (rule that)
  have shown: "(\<lambda>m. (lm_num m, lm_line m)) ` (set (fm_matches fm) - {separator}) =
      (\<lambda>j. (Suc j, ls ! j)) ` {j. j < length ls \<and> (\<exists>i \<in> ?H. i - before \<le> j \<and> j \<le> i + after)}"
    unfolding entries lines by (simp add: image_Un image_image line_at_def)
  have once: "distinct (map lm_num (filter (\<lambda>m. m \<noteq> separator) (fm_matches fm)))"
    if "\<forall>i \<in> ?H. \<forall>k \<in> ?H. i < k \<longrightarrow> i + after + before < k"
  proof -
    have "set (filter (\<lambda>m. m \<noteq> separator) (fm_matches fm)) = set (fm_matches fm) - {separator}" by auto
    then have "inj_on lm_num (set (filter (\<lambda>m. m \<noteq> separator) (fm_matches fm)))"
      using apart_numbers [OF that, of ls "length ls"] entries by simp
    moreover have "distinct (fm_matches fm)" using dist by (simp add: distinct_map)
    ultimately show ?thesis by (simp add: distinct_map)
  qed
  show ?thesis using fm dist shown once by (intro exI [of _ fm] conjI impI) assumption+
qed

theorem grep_file_lists_witness:
  "\<exists>fm. searchFile [''f'' \<mapsto> RegularFile \<lparr>fn_data = ''a'' @ [CHR 0x0A] @ ''b'' @ [CHR 0x0A] @ ''c'', fn_mtime = 0, fn_perm = 420\<rparr>] ''f'' (\<lambda>l. l = ''b'') 1 0 5 = Some fm \<and>
     fm_count fm = 1 \<and> (\<lambda>m. (lm_num m, lm_line m)) ` (set (fm_matches fm) - {separator}) = {(1, ''a''), (2, ''b'')} \<and>
     distinct (map lm_num (filter (\<lambda>m. m \<noteq> separator) (fm_matches fm)))"
proof -
  let ?text = "''a'' @ [CHR 0x0A] @ ''b'' @ [CHR 0x0A] @ ''c''"
  let ?d = "[''f'' \<mapsto> RegularFile \<lparr>fn_data = ?text, fn_mtime = 0, fn_perm = 420\<rparr>]"
  have r: "read_file ?d ''f'' = Some ?text"
    by (simp add: read_file_def node_at_def path_Clean_def has_prefix_def slash_segments_def sep_def)
  have s: "scan_lines ?text = Some [''a'', ''b'', ''c'']"
    by (simp add: scan_lines_def drop_cr_def)
  have h: "hits (\<lambda>l. l = ''b'') [''a'', ''b'', ''c''] 5 = [1]" by (simp add: hits_def upt_rec)
  have w: "{j. j < length [''a'', ''b'', ''c''] \<and> (\<exists>i \<in> set [1]. i - 1 \<le> j \<and> j \<le> i + 0)} = {0, 1 :: nat}" by auto
  have "(\<lambda>j. (Suc j, [''a'', ''b'', ''c''] ! j)) ` {0, 1} = {(1, ''a''), (2, ''b'')}" by (simp add: numeral_2_eq_2)
  then show ?thesis
    using grep_file_lists [OF r s, of "\<lambda>l. l = ''b''" 1 0 5, unfolded h w] by auto
qed

text \<open>A line between two matches is listed as trailing context of the first and again as leading context of the second.\<close>

lemma context_line_twice:
  "map lm_num (dedup {} (fst (search_loop (\<lambda>l. l = ''x'') [''x'', ''y'', ''x''] 1 1 5 0 (- 3) [0..<3]))) = [1, 2, 2, 3]"
  by (simp add: upt_rec match_block_def line_at_def)

section \<open>What a search of a directory counts\<close>

lemma merge_count:
  "maxR > 0 \<Longrightarrow> gs_count s \<le> maxR \<Longrightarrow> gs_count s = sum_list (map fm_count (gs_results s)) \<Longrightarrow>
     gs_count (merge_file maxR fm s) = min maxR (gs_count s + fm_count fm) \<and>
     gs_count (merge_file maxR fm s) = sum_list (map fm_count (gs_results (merge_file maxR fm s)))"
  by (auto simp: merge_file_def Let_def)

text \<open>
  However the workers interleave, a directory search counts the matches that
  reached it up to the maximum, and the counts of the listed files add up to it.
\<close>

theorem grep_count_capped:
  assumes "maxR > 0"
  shows "gs_count (run_merges maxR arrived) = min maxR (sum_list (map fm_count arrived)) \<and>
    sum_list (map fm_count (gs_results (run_merges maxR arrived))) = gs_count (run_merges maxR arrived)"
proof -
  have "gs_count (fold (merge_file maxR) arrived s) = min maxR (gs_count s + sum_list (map fm_count arrived)) \<and>
      sum_list (map fm_count (gs_results (fold (merge_file maxR) arrived s))) = gs_count (fold (merge_file maxR) arrived s)"
    if "gs_count s \<le> maxR" "gs_count s = sum_list (map fm_count (gs_results s))" for s
    using that
  proof (induction arrived arbitrary: s)
    case (Cons fm fms)
    note m = merge_count [OF assms Cons.prems, of fm]
    have "gs_count (merge_file maxR fm s) \<le> maxR" using m by simp
    from Cons.IH [OF this conjunct2 [OF m]] m show ?case by auto
  qed simp
  from this [of newGrepSession] show ?thesis by (simp add: run_merges_def newGrepSession_def)
qed

theorem grep_count_capped_witness:
  "gs_count (run_merges 3 [\<lparr>fm_path = ''a'', fm_matches = [], fm_count = 2\<rparr>, \<lparr>fm_path = ''b'', fm_matches = [], fm_count = 2\<rparr>]) = 3"
  using grep_count_capped [of 3 "[\<lparr>fm_path = ''a'', fm_matches = [], fm_count = 2\<rparr>, \<lparr>fm_path = ''b'', fm_matches = [], fm_count = 2\<rparr>]"] by simp

section \<open>What grep does otherwise than described\<close>

text \<open>A literal pattern that is also an expression is searched for as the expression.\<close>

lemma literal_is_regex: "compile pattern = Some re \<Longrightarrow> compilePattern compile quoteMeta pattern True False = Some re"
  by (simp add: compilePattern_def)

text \<open>The cut to the maximum counts separators and context as matches: here the second file shows none of its matches.\<close>

lemma cut_hides_matches:
  "map (map lm_kind \<circ> fm_matches) (gs_results (run_merges 2 [\<lparr>fm_path = ''a'', fm_matches = [line_at [''x''] KMatch 0], fm_count = 1\<rparr>,
     \<lparr>fm_path = ''b'', fm_matches = [separator, line_at [''y'', ''x''] KMatch 1], fm_count = 2\<rparr>])) = [[KMatch], [KSeparator]]"
  by (simp add: run_merges_def merge_file_def newGrepSession_def line_at_def separator_def)

text \<open>Matches dropped because the maximum is reached exactly are not noted.\<close>

lemma truncation_unnoted:
  "\<not> gs_truncated (run_merges 1 [\<lparr>fm_path = ''a'', fm_matches = [], fm_count = 1\<rparr>, \<lparr>fm_path = ''b'', fm_matches = [], fm_count = 1\<rparr>])"
  by (simp add: run_merges_def merge_file_def newGrepSession_def)

end
