(* ===== verification/Schedule.thy ===== *)
theory Schedule
  imports SessionLog
begin

text \<open>
  Reminders (\<open>module/schedule/schedule.go\<close>): a list of reminders that lives in the
  log of a session and is replaced by every change, the tools that create, list
  and delete them, and the scheduler that fires the due ones.

  Times are nanoseconds, durations are 64-bit.  The codec of the list in an event
  is a parameter; the fold of the log takes the last list that decodes.  The
  composite operations run under one mutex and are one step each.
\<close>

section \<open>Reminders\<close>

datatype ReminderKind = KindAfter | KindAt | KindEvery | KindOther string

record reminder =
  rm_id :: string
  rm_prompt :: string
  rm_kind :: ReminderKind
  rm_after :: int
  rm_at :: int
  rm_every :: int
  rm_created :: int
  rm_lastFired :: int
  rm_done :: bool

definition second :: int where
  "second = 1000000000"

definition wrap64 :: "int \<Rightarrow> int" where
  "wrap64 i = sint (word_of_int i :: int64)"

definition dur_seconds :: "int \<Rightarrow> int" where
  "dur_seconds n = wrap64 (n * second)"

text \<open>\<open>time.Time.Sub\<close> saturates.\<close>

definition time_sub :: "int \<Rightarrow> int \<Rightarrow> int" where
  "time_sub a b = max (- (2 ^ 63)) (min (2 ^ 63 - 1) (a - b))"

text \<open>The zero time of Go is far before every time that occurs.\<close>

definition due :: "int \<Rightarrow> int \<Rightarrow> reminder \<Rightarrow> bool" where
  "due zeroTime now r =
    (if rm_done r then False
     else case rm_kind r of
            KindAfter \<Rightarrow> rm_created r + dur_seconds (rm_after r) \<le> now
          | KindAt \<Rightarrow> rm_at r \<le> now
          | KindEvery \<Rightarrow> rm_at r \<noteq> zeroTime \<and> rm_at r \<le> now
          | KindOther _ \<Rightarrow> False)"

text \<open>The next target of a repeating reminder; None is the division by zero.\<close>

definition rearm :: "int \<Rightarrow> reminder \<Rightarrow> int option" where
  "rearm now r =
    (let next = rm_at r + dur_seconds (rm_every r)
     in if next > now then Some next
        else if dur_seconds (rm_every r) = 0 then None
        else let missed = time_sub now next; q = dur_seconds (rm_every r);
                 steps = wrap64 (sgn q * (missed div \<bar>q\<bar>) + 1)
             in Some (next + wrap64 (wrap64 (steps * rm_every r) * second)))"

definition fired :: "int \<Rightarrow> reminder \<Rightarrow> reminder option" where
  "fired now r =
    (if rm_kind r = KindEvery then map_option (\<lambda>next. r\<lparr>rm_lastFired := now, rm_at := next\<rparr>) (rearm now r)
     else Some (r\<lparr>rm_lastFired := now, rm_done := True\<rparr>))"

section \<open>The list in the log\<close>

type_synonym codec = "(reminder list \<Rightarrow> go_any) \<times> (go_any \<Rightarrow> reminder list option)"

definition sched_fold :: "codec \<Rightarrow> session_log \<Rightarrow> reminder list" where
  "sched_fold c l =
    fold (\<lambda>ev rs. if se_kind ev \<noteq> ''schedule/change'' then rs
                  else case map_of (se_meta ev) ''reminders'' of
                         None \<Rightarrow> rs
                       | Some raw \<Rightarrow> (case snd c raw of None \<Rightarrow> rs | Some parsed \<Rightarrow> parsed)) (sl_events l) []"

text \<open>Whether the log took the event, and the log.\<close>

definition replaceAll :: "codec \<Rightarrow> int \<Rightarrow> reminder list \<Rightarrow> session_log \<Rightarrow> bool \<times> session_log" where
  "replaceAll c now rs l =
    (case Append (NewLogOnlyEvent ''schedule/change'' [(''reminders'', fst c rs)] now) l of
       ((Inl _, _), l') \<Rightarrow> (False, l')
     | ((Inr _, _), l') \<Rightarrow> (True, l'))"

section \<open>The module\<close>

text \<open>\<open>sd_sent\<close>: the deliveries so far.\<close>

record sched_state =
  sd_log :: session_log
  sd_delivered :: "string set"
  sd_sent :: "reminder list"

definition sched_trim :: "string \<Rightarrow> string" where
  "sched_trim s = (let sp = (\<lambda>c. c \<in> {CHR '' '', CHR 0x09, CHR 0x0A}) in rev (dropWhile sp (rev (dropWhile sp s))))"

datatype sched_error = PromptRequired | SelectorCount | InvalidAt | AtInPast | LogFailed

record create_args =
  ca_prompt :: string
  ca_after :: int
  ca_at :: string
  ca_every :: int

definition new_reminder :: "(string \<Rightarrow> int option) \<Rightarrow> int \<Rightarrow> int \<Rightarrow> string \<Rightarrow> create_args \<Rightarrow> sched_error + reminder" where
  "new_reminder parseTime zeroTime now newID args =
    (let base = \<lparr>rm_id = newID, rm_prompt = ca_prompt args, rm_kind = KindOther [], rm_after = 0, rm_at = zeroTime,
                 rm_every = 0, rm_created = now, rm_lastFired = zeroTime, rm_done = False\<rparr>
     in if sched_trim (ca_prompt args) = [] then Inl PromptRequired
        else if of_bool (ca_after args > 0) + of_bool (sched_trim (ca_at args) \<noteq> []) + of_bool (ca_every args \<ge> 300) \<noteq> (1 :: nat)
        then Inl SelectorCount
        else if ca_after args > 0 then Inr (base\<lparr>rm_kind := KindAfter, rm_after := ca_after args\<rparr>)
        else if sched_trim (ca_at args) \<noteq> [] then
          (case parseTime (ca_at args) of
             None \<Rightarrow> Inl InvalidAt
           | Some t \<Rightarrow> if t > now then Inr (base\<lparr>rm_kind := KindAt, rm_at := t\<rparr>) else Inl AtInPast)
        else Inr (base\<lparr>rm_kind := KindEvery, rm_every := ca_every args, rm_at := now + dur_seconds (ca_every args)\<rparr>))"

definition sched_create ::
  "codec \<Rightarrow> (string \<Rightarrow> int option) \<Rightarrow> int \<Rightarrow> int \<Rightarrow> string \<Rightarrow> create_args \<Rightarrow> sched_state \<Rightarrow> (sched_error + string) \<times> sched_state" where
  "sched_create c parseTime zeroTime now newID args s =
    (case new_reminder parseTime zeroTime now newID args of
       Inl e \<Rightarrow> (Inl e, s)
     | Inr r \<Rightarrow>
         (let (ok, l) = replaceAll c now (sched_fold c (sd_log s) @ [r]) (sd_log s)
          in (if ok then Inr (rm_id r) else Inl LogFailed, s\<lparr>sd_log := l\<rparr>)))"

definition sched_list :: "codec \<Rightarrow> sched_state \<Rightarrow> reminder list" where
  "sched_list c s = sched_fold c (sd_log s)"

text \<open>Whether a reminder was deleted.\<close>

definition sched_delete :: "codec \<Rightarrow> int \<Rightarrow> string \<Rightarrow> sched_state \<Rightarrow> (sched_error + bool) \<times> sched_state" where
  "sched_delete c now i s =
    (let rs = sched_fold c (sd_log s); kept = filter (\<lambda>r. rm_id r \<noteq> i) rs
     in if i \<notin> rm_id ` set rs then (Inr False, s)
        else let (ok, l) = replaceAll c now kept (sd_log s)
             in (if ok then Inr True else Inl LogFailed, s\<lparr>sd_log := l\<rparr>))"

text \<open>One pass over the reminders: the new list, the delivered ids and what fires.\<close>

fun fire_pass :: "int \<Rightarrow> int \<Rightarrow> string set \<Rightarrow> reminder list \<Rightarrow> (reminder list \<times> string set \<times> reminder list) option" where
  "fire_pass zeroTime now dl [] = Some ([], dl, [])"
| "fire_pass zeroTime now dl (r # rs) =
     (if \<not> due zeroTime now r \<or> rm_id r \<in> dl
      then map_option (\<lambda>(rs', dl', fs). (r # rs', dl', fs)) (fire_pass zeroTime now dl rs)
      else case fired now r of
             None \<Rightarrow> None
           | Some r' \<Rightarrow> map_option (\<lambda>(rs', dl', fs). (r' # rs', dl', r # fs)) (fire_pass zeroTime now (insert (rm_id r) dl) rs))"

text \<open>
  A tick of the scheduler; None when it panics.  \<open>sd_sent\<close> lists what the tick hands to the deliver callback, which it
  calls after the unlock: the callback's failure or panic changes nothing of this state, so that a reminder whose
  delivery failed counts as delivered too.
\<close>

definition fireDue :: "codec \<Rightarrow> int \<Rightarrow> int \<Rightarrow> sched_state \<Rightarrow> sched_state option" where
  "fireDue c zeroTime now s =
    (case fire_pass zeroTime now (sd_delivered s) (sched_fold c (sd_log s)) of
       None \<Rightarrow> None
     | Some (rs, dl, fs) \<Rightarrow>
         Some (s\<lparr>sd_log := (if fs \<noteq> [] then snd (replaceAll c now rs (sd_log s)) else sd_log s),
                 sd_delivered := dl, sd_sent := sd_sent s @ fs\<rparr>))"

text \<open>What the module does in one process, from a log it was given.\<close>

inductive sched_step :: "codec \<Rightarrow> int \<Rightarrow> sched_state \<Rightarrow> sched_state \<Rightarrow> bool" for c zeroTime where
  create: "sched_step c zeroTime s (snd (sched_create c parseTime zeroTime now newID args s))"
| delete: "sched_step c zeroTime s (snd (sched_delete c now i s))"
| tick: "fireDue c zeroTime now s = Some s' \<Longrightarrow> sched_step c zeroTime s s'"
| other: "sched_step c zeroTime s (s\<lparr>sd_log := l\<rparr>)"

definition sched_start :: "session_log \<Rightarrow> sched_state" where
  "sched_start l = \<lparr>sd_log = l, sd_delivered = {}, sd_sent = []\<rparr>"

section \<open>A tick\<close>

definition fires :: "int \<Rightarrow> int \<Rightarrow> string set \<Rightarrow> reminder \<Rightarrow> bool" where
  "fires zeroTime now dl r \<longleftrightarrow> due zeroTime now r \<and> rm_id r \<notin> dl"

lemma fire_pass_spec:
  assumes "fire_pass zeroTime now dl rs = Some (rs', dl', fs)" and "distinct (map rm_id rs)"
  shows "fs = filter (fires zeroTime now dl) rs \<and>
    rs' = map (\<lambda>r. if fires zeroTime now dl r then the (fired now r) else r) rs \<and>
    dl' = dl \<union> rm_id ` {r \<in> set rs. fires zeroTime now dl r}"
  using assms
proof (induction rs arbitrary: dl rs' dl' fs)
  case (Cons r rs)
  show ?case
  proof (cases "fires zeroTime now dl r")
    case False
    then obtain rs1 where "fire_pass zeroTime now dl rs = Some (rs1, dl', fs)" "rs' = r # rs1"
      using Cons.prems(1) by (auto simp: fires_def)
    then show ?thesis using Cons.IH [of dl rs1 dl' fs] Cons.prems(2) False by auto
  next
    case True
    then obtain r' rs1 fs1 where p: "fired now r = Some r'" "fire_pass zeroTime now (insert (rm_id r) dl) rs = Some (rs1, dl', fs1)"
      "rs' = r' # rs1" "fs = r # fs1"
      using Cons.prems(1) by (auto simp: fires_def split: option.splits)
    have same: "fires zeroTime now (insert (rm_id r) dl) x = fires zeroTime now dl x" if "x \<in> set rs" for x
    proof -
      have "rm_id x \<noteq> rm_id r" using that Cons.prems(2) by (metis distinct.simps(2) image_eqI list.simps(9) set_map)
      then show ?thesis by (simp add: fires_def)
    qed
    then have "filter (fires zeroTime now (insert (rm_id r) dl)) rs = filter (fires zeroTime now dl) rs" by (simp cong: filter_cong)
    then show ?thesis using Cons.IH [OF p(2)] Cons.prems(2) True p same by auto
  qed
qed simp

text \<open>What \<open>encoding/json\<close> promises for a list of reminders.\<close>

definition codec_ok :: "codec \<Rightarrow> bool" where
  "codec_ok c \<longleftrightarrow> (\<forall>rs. snd c (fst c rs) = Some rs)"

lemma replaceAll_fold:
  assumes "codec_ok c" and "\<not> sl_closed l"
  shows "fst (replaceAll c now rs l) \<and> sched_fold c (snd (replaceAll c now rs l)) = rs"
  using assms by (simp add: replaceAll_def Append_def NewLogOnlyEvent_def Let_def sched_fold_def codec_ok_def)

text \<open>
  A tick over an open log delivers, in the order of the list, exactly the due
  reminders that this process has not delivered yet, and records it: a one-shot
  reminder is done, a repeating one has its next target, every other one is as it
  was.
\<close>

theorem schedule_tick:
  assumes "fireDue c zeroTime now s = Some s'" and "codec_ok c" and "\<not> sl_closed (sd_log s)"
    and "distinct (map rm_id (sched_fold c (sd_log s)))"
  shows "sd_sent s' = sd_sent s @ filter (fires zeroTime now (sd_delivered s)) (sched_fold c (sd_log s)) \<and>
    sched_fold c (sd_log s') =
      map (\<lambda>r. if fires zeroTime now (sd_delivered s) r then the (fired now r) else r) (sched_fold c (sd_log s))"
proof -
  obtain rs dl fs where p: "fire_pass zeroTime now (sd_delivered s) (sched_fold c (sd_log s)) = Some (rs, dl, fs)"
    "s' = s\<lparr>sd_log := (if fs \<noteq> [] then snd (replaceAll c now rs (sd_log s)) else sd_log s), sd_delivered := dl, sd_sent := sd_sent s @ fs\<rparr>"
    using assms(1) by (auto simp: fireDue_def split: option.splits)
  note spec = fire_pass_spec [OF p(1) assms(4)]
  show ?thesis
  proof (cases "fs = []")
    case True
    then have "rs = sched_fold c (sd_log s)" using spec by (auto simp: filter_empty_conv intro!: map_idI)
    then show ?thesis using True spec p(2) by simp
  next
    case False
    then show ?thesis using spec p(2) replaceAll_fold [OF assms(2,3)] by simp
  qed
qed

definition reminder_at :: "string \<Rightarrow> int \<Rightarrow> reminder" where
  "reminder_at i t = \<lparr>rm_id = i, rm_prompt = ''p'', rm_kind = KindAt, rm_after = 0, rm_at = t, rm_every = 0, rm_created = 0,
     rm_lastFired = 0, rm_done = False\<rparr>"

text \<open>A codec with the round trip: the fields of every reminder under their names.\<close>

fun encode_kind :: "ReminderKind \<Rightarrow> go_any" where
  "encode_kind KindAfter = AnyStr ''after''"
| "encode_kind KindAt = AnyStr ''at''"
| "encode_kind KindEvery = AnyStr ''every''"
| "encode_kind (KindOther s) = AnyList [AnyStr s]"

fun decode_kind :: "go_any \<Rightarrow> ReminderKind" where
  "decode_kind (AnyStr s) = (if s = ''after'' then KindAfter else if s = ''at'' then KindAt else KindEvery)"
| "decode_kind (AnyList [AnyStr s]) = KindOther s"
| "decode_kind _ = KindOther []"

definition encode_reminder :: "reminder \<Rightarrow> go_any" where
  "encode_reminder r = AnyMap [(''id'', AnyStr (rm_id r)), (''prompt'', AnyStr (rm_prompt r)), (''kind'', encode_kind (rm_kind r)),
     (''after_seconds'', AnyInt (rm_after r)), (''at'', AnyInt (rm_at r)), (''every_seconds'', AnyInt (rm_every r)),
     (''created_at'', AnyInt (rm_created r)), (''last_fired_at'', AnyInt (rm_lastFired r)), (''done'', AnyBool (rm_done r))]"

definition str_field :: "(string \<times> go_any) list \<Rightarrow> string \<Rightarrow> string" where
  "str_field m k = (case map_of m k of Some (AnyStr s) \<Rightarrow> s | _ \<Rightarrow> [])"

definition int_field :: "(string \<times> go_any) list \<Rightarrow> string \<Rightarrow> int" where
  "int_field m k = (case map_of m k of Some (AnyInt i) \<Rightarrow> i | _ \<Rightarrow> 0)"

definition decode_reminder :: "go_any \<Rightarrow> reminder option" where
  "decode_reminder v =
    (case v of
       AnyMap m \<Rightarrow> Some \<lparr>rm_id = str_field m ''id'', rm_prompt = str_field m ''prompt'',
         rm_kind = (case map_of m ''kind'' of Some k \<Rightarrow> decode_kind k | None \<Rightarrow> KindOther []), rm_after = int_field m ''after_seconds'',
         rm_at = int_field m ''at'', rm_every = int_field m ''every_seconds'', rm_created = int_field m ''created_at'',
         rm_lastFired = int_field m ''last_fired_at'', rm_done = (map_of m ''done'' = Some (AnyBool True))\<rparr>
     | _ \<Rightarrow> None)"

definition list_codec :: codec where
  "list_codec = (\<lambda>rs. AnyList (map encode_reminder rs),
     \<lambda>v. case v of AnyList vs \<Rightarrow> those (map decode_reminder vs) | _ \<Rightarrow> None)"

lemma list_codec_ok: "codec_ok list_codec"
proof -
  have k: "decode_kind (encode_kind k) = k" for k by (cases k) simp_all
  have r: "decode_reminder (encode_reminder r) = Some r" for r by (simp add: encode_reminder_def decode_reminder_def str_field_def int_field_def k)
  have "those (map decode_reminder (map encode_reminder rs)) = Some rs" for rs by (induction rs) (simp_all add: r)
  then show ?thesis by (simp add: codec_ok_def list_codec_def)
qed

theorem schedule_tick_witness:
  "\<exists>s'. fireDue list_codec (- 1) 7 (sched_start (snd (replaceAll list_codec 0 [reminder_at ''a'' 5, reminder_at ''b'' 9] (NewLog ''l'')))) = Some s' \<and>
     map rm_id (sd_sent s') = [''a'']"
proof -
  let ?rs = "[reminder_at ''a'' 5, reminder_at ''b'' 9]"
  let ?s = "sched_start (snd (replaceAll list_codec 0 ?rs (NewLog ''l'')))"
  have f: "sched_fold list_codec (sd_log ?s) = ?rs"
    using replaceAll_fold [OF list_codec_ok, of "NewLog ''l''" 0 ?rs] by (simp add: sched_start_def NewLog_def)
  have d: "sd_delivered ?s = {}" by (simp add: sched_start_def)
  have "fire_pass (- 1) 7 {} ?rs \<noteq> None" by (simp add: reminder_at_def due_def fired_def)
  then obtain p where "fire_pass (- 1) 7 {} ?rs = Some p" by blast
  moreover obtain rs dl fs where "p = (rs, dl, fs)" by (cases p)
  ultimately have pass: "fire_pass (- 1) 7 {} ?rs = Some (rs, dl, fs)" by simp
  obtain s' where s': "fireDue list_codec (- 1) 7 ?s = Some s'"
    unfolding fireDue_def f d pass option.case prod.case by blast
  have open_log: "\<not> sl_closed (sd_log ?s)" by (simp add: sched_start_def replaceAll_def NewLog_def Append_def NewLogOnlyEvent_def Let_def)
  have "distinct (map rm_id (sched_fold list_codec (sd_log ?s)))" unfolding f by (simp add: reminder_at_def)
  from schedule_tick [OF s' list_codec_ok open_log this] have sent: "sd_sent s' = sd_sent ?s @ filter (fires (- 1) 7 {}) ?rs"
    unfolding f d by (rule conjunct1)
  have none: "sd_sent ?s = []" by (simp add: sched_start_def)
  have a: "fires (- 1) 7 {} (reminder_at ''a'' 5)" and b: "\<not> fires (- 1) 7 {} (reminder_at ''b'' 9)"
    by (simp_all add: fires_def due_def reminder_at_def)
  have "filter (fires (- 1) 7 {}) ?rs = [reminder_at ''a'' 5]" using a b by simp
  then have "sd_sent s' = [reminder_at ''a'' 5]" unfolding sent none by simp
  then have ids: "map rm_id (sd_sent s') = [''a'']" by (simp add: reminder_at_def)
  show ?thesis by (rule exI, rule conjI, rule s', rule ids)
qed

section \<open>At most once\<close>

definition sent_ok :: "sched_state \<Rightarrow> bool" where
  "sent_ok s \<longleftrightarrow> distinct (map rm_id (sd_sent s)) \<and> rm_id ` set (sd_sent s) \<subseteq> sd_delivered s"

lemma fire_pass_sent:
  "fire_pass zeroTime now dl rs = Some (rs', dl', fs) \<Longrightarrow>
     distinct (map rm_id fs) \<and> rm_id ` set fs \<inter> dl = {} \<and> dl' = dl \<union> rm_id ` set fs"
proof (induction rs arbitrary: dl rs' dl' fs)
  case (Cons r rs)
  show ?case
  proof (cases "\<not> due zeroTime now r \<or> rm_id r \<in> dl")
    case True
    then obtain rs1 where "fire_pass zeroTime now dl rs = Some (rs1, dl', fs)" using Cons.prems by auto
    then show ?thesis using Cons.IH by blast
  next
    case False
    then obtain r' rs1 fs1 where p: "fire_pass zeroTime now (insert (rm_id r) dl) rs = Some (rs1, dl', fs1)" "fs = r # fs1"
      using Cons.prems by (auto split: option.splits)
    show ?thesis using Cons.IH [OF p(1)] p(2) False by auto
  qed
qed simp

lemma sched_step_sent: "sched_step c zeroTime s s' \<Longrightarrow> sent_ok s \<Longrightarrow> sent_ok s'"
proof (induction rule: sched_step.induct)
  case (create s parseTime now newID args)
  then show ?case by (simp add: sched_create_def sent_ok_def split_beta split: sum.splits)
next
  case (delete s now i)
  then show ?case by (simp add: sched_delete_def sent_ok_def split_beta Let_def)
next
  case (tick now s s')
  obtain rs dl fs where p: "fire_pass zeroTime now (sd_delivered s) (sched_fold c (sd_log s)) = Some (rs, dl, fs)"
    "sd_delivered s' = dl" "sd_sent s' = sd_sent s @ fs"
    using tick(1) by (auto simp: fireDue_def split: option.splits)
  show ?case using fire_pass_sent [OF p(1)] tick(2) p(2,3) by (auto simp: sent_ok_def)
next
  case (other s l)
  then show ?case by (simp add: sent_ok_def)
qed

text \<open>
  Within one process no reminder is delivered twice, whatever is created,
  deleted or lost by the log in between.  This holds for repeating reminders as
  well: they fire once and never again.
\<close>

theorem schedule_at_most_once:
  assumes "(sched_step c zeroTime)\<^sup>*\<^sup>* (sched_start l) s"
  shows "distinct (map rm_id (sd_sent s))"
proof -
  have "sent_ok s" using assms
  proof (induction rule: rtranclp_induct)
    case base
    show ?case by (simp add: sent_ok_def sched_start_def)
  qed (rule sched_step_sent)
  then show ?thesis by (simp add: sent_ok_def)
qed

theorem schedule_at_most_once_witness:
  "distinct (map rm_id (sd_sent (snd (sched_delete list_codec 3 ''x'' (sched_start (NewLog ''l''))))))"
  by (rule schedule_at_most_once [of list_codec 0 "NewLog ''l''"]) (rule r_into_rtranclp, rule delete)

section \<open>Targets of repeating reminders\<close>

lemma wrap64_id: "- (2 ^ 63) \<le> i \<Longrightarrow> i < 2 ^ 63 \<Longrightarrow> wrap64 i = i"
  by (simp add: wrap64_def sint64_of_int)

text \<open>
  As long as its durations fit 64 bits, a repeating reminder that is due gets
  the first target after now among those a whole number of cadences after its
  last one, so late ticks do not shift it and missed occurrences are skipped.
\<close>

theorem rearm_aligned:
  assumes every: "300 \<le> rm_every r" "rm_every r \<le> 4000000000" and late: "rm_at r \<le> now" "now - rm_at r < 2 ^ 62"
  shows "\<exists>k \<ge> 1. rearm now r = Some (rm_at r + k * (rm_every r * second)) \<and>
    rm_at r + k * (rm_every r * second) > now \<and> rm_at r + (k - 1) * (rm_every r * second) \<le> now"
proof -
  define q where "q = rm_every r * second"
  have q: "dur_seconds (rm_every r) = q" "0 < q" "q < 2 ^ 62" "rm_every r \<le> q"
    using every by (simp_all add: dur_seconds_def q_def second_def wrap64_id)
  show ?thesis
  proof (cases "rm_at r + q > now")
    case True
    then show ?thesis using q late unfolding q_def [symmetric] by (intro exI [of _ 1]) (simp add: rearm_def)
  next
    case False
    define missed where "missed = now - (rm_at r + q)"
    define st where "st = missed div q + 1"
    have m: "0 \<le> missed" "missed < 2 ^ 62" using False late q by (simp_all add: missed_def)
    have sub: "time_sub now (rm_at r + q) = missed" using m by (simp add: time_sub_def missed_def)
    have st: "1 \<le> st" "missed < st * q" "(st - 1) * q \<le> missed"
    proof -
      show "1 \<le> st" using m q by (simp add: st_def pos_imp_zdiv_nonneg_iff)
      have e: "missed = missed div q * q + missed mod q" "0 \<le> missed mod q" "missed mod q < q" using q by simp_all
      have "st * q = missed div q * q + q" "(st - 1) * q = missed div q * q" by (simp_all add: st_def distrib_right)
      then show "missed < st * q" "(st - 1) * q \<le> missed" using e by linarith+
    qed
    have stq: "st * q < 2 ^ 63"
    proof -
      have "st * q = (st - 1) * q + q" by (simp add: algebra_simps)
      then show ?thesis using st(3) m q by simp
    qed
    have st_small: "st * rm_every r \<le> st * q" "st \<le> st * rm_every r" using st(1) q(4) every by simp_all
    have "wrap64 st = st" using st(1) st_small stq by (intro wrap64_id) linarith+
    then have steps: "wrap64 (sgn q * (missed div \<bar>q\<bar>) + 1) = st"
      using q(2) by (simp add: st_def)
    have "wrap64 (st * rm_every r) = st * rm_every r" by (rule wrap64_id; use st(1) st_small stq in linarith)
    moreover have "0 \<le> st * q" using st(1) q(2) by simp
    then have "wrap64 (st * q) = st * q" using stq by (intro wrap64_id) linarith+
    ultimately have "wrap64 (wrap64 (st * rm_every r) * second) = st * q" by (simp add: q_def mult.assoc)
    then have "rearm now r = Some (rm_at r + q + st * q)"
      using False q(2) steps unfolding rearm_def Let_def q(1) sub by simp
    then have "rearm now r = Some (rm_at r + (st + 1) * q)" by (simp add: algebra_simps)
    then show ?thesis using st unfolding q_def [symmetric] missed_def
      by (intro exI [of _ "st + 1"]) (simp add: algebra_simps)
  qed
qed

theorem rearm_aligned_witness:
  "\<exists>k \<ge> 1. rearm 1000000000000 ((reminder_at ''a'' 0)\<lparr>rm_kind := KindEvery, rm_every := 300\<rparr>) = Some (k * (300 * second))"
  using rearm_aligned [of "(reminder_at ''a'' 0)\<lparr>rm_kind := KindEvery, rm_every := 300\<rparr>" 1000000000000]
  by (auto simp: reminder_at_def)

text \<open>A cadence whose duration wraps to zero is accepted, and its first tick divides by zero.\<close>

lemma zero_cadence_panics:
  "\<exists>r. new_reminder (\<lambda>_. None) (- 1) 7 ''a'' \<lparr>ca_prompt = ''p'', ca_after = 0, ca_at = [], ca_every = 2 ^ 55\<rparr> = Inr r \<and> due (- 1) 7 r \<and> fired 7 r = None"
proof -
  have z: "dur_seconds 36028797018963968 = 0" by (simp add: dur_seconds_def second_def wrap64_def)
  show ?thesis
    by (simp add: new_reminder_def sched_trim_def Let_def z due_def fired_def rearm_def)
qed

section \<open>The life of the scheduler\<close>

record sched_life =
  lf_started :: bool
  lf_stopClosed :: bool
  lf_running :: bool
  lf_stopping :: nat
  lf_panicked :: bool

definition sched_Start :: "sched_life \<Rightarrow> sched_life" where
  "sched_Start f = (if lf_started f then f else f\<lparr>lf_started := True, lf_stopClosed := False, lf_running := True\<rparr>)"

text \<open>A Stop closes the channel, waits for the goroutine and then allows a new Start.\<close>

definition stop_begin :: "sched_life \<Rightarrow> sched_life" where
  "stop_begin f =
    (if \<not> lf_started f then f
     else if lf_stopClosed f then f\<lparr>lf_panicked := True\<rparr>
     else f\<lparr>lf_stopClosed := True, lf_stopping := lf_stopping f + 1\<rparr>)"

definition run_ends :: "sched_life \<Rightarrow> sched_life" where
  "run_ends f = f\<lparr>lf_running := False\<rparr>"

definition stop_end :: "sched_life \<Rightarrow> sched_life" where
  "stop_end f =
    (if lf_stopping f > 0 \<and> \<not> lf_running f
     then f\<lparr>lf_started := False, lf_stopClosed := False, lf_stopping := lf_stopping f - 1\<rparr> else f)"

definition life_new :: sched_life where
  "life_new = \<lparr>lf_started = False, lf_stopClosed = False, lf_running = False, lf_stopping = 0, lf_panicked = False\<rparr>"

text \<open>Two calls of Stop at once close the channel twice.\<close>

lemma double_stop_panics: "lf_panicked (stop_begin (stop_begin (sched_Start life_new)))"
  by (simp add: life_new_def sched_Start_def stop_begin_def)

text \<open>Once the context of the scheduler has ended, a new Start does nothing until someone calls Stop.\<close>

lemma no_restart_after_context_end: "\<not> lf_running (sched_Start (run_ends (sched_Start life_new)))"
  by (simp add: life_new_def sched_Start_def run_ends_def)

text \<open>Stopped and waited for, it starts again.\<close>

lemma restart_after_stop: "lf_running (sched_Start (stop_end (run_ends (stop_begin (sched_Start life_new)))))"
  by (simp add: life_new_def sched_Start_def run_ends_def stop_begin_def stop_end_def)

end
