(* ===== verification/PlanMode.thy ===== *)
theory PlanMode
  imports Permission SessionLog
begin

text \<open>
  Plan mode (\<open>module/planmode/planmode.go\<close>): while a session is in plan mode the
  hook blocks every tool call that can change something, and the only way out is
  the tool that submits a plan for approval.  The mode is what the callback of the
  host says or, without one, the fold of the session log.  Asking the host changes
  the world; \<open>ps_approved\<close> are the plans handed to the host's \<open>OnApproved\<close> callback.
\<close>

section \<open>State\<close>

datatype session_mode = SessionModeNormal | SessionModePlan | SessionModeOther int

record 'w plan_state =
  ps_log :: "session_log option"
  ps_world :: 'w
  ps_approved :: "string list"

record 'w plan_config =
  pc_mode :: "('w \<Rightarrow> session_mode) option"
  pc_ask :: "approval_request \<Rightarrow> 'w \<Rightarrow> (ApprovalDecision \<times> asker_error option) \<times> 'w"
  pc_toolName :: string

definition DefaultToolName :: string where
  "DefaultToolName = ''exit_plan_mode''"

text \<open>The asker and the approval callback are there; None: neither a callback nor a log says the mode.\<close>

definition plan_New :: "bool \<Rightarrow> 'w plan_config \<Rightarrow> 'w plan_config option" where
  "plan_New hasLog cfg =
    (if pc_mode cfg = None \<and> \<not> hasLog then None
     else Some (if pc_toolName cfg = [] then cfg\<lparr>pc_toolName := DefaultToolName\<rparr> else cfg))"

definition plan_active :: "session_event list \<Rightarrow> bool" where
  "plan_active evs =
    fold (\<lambda>ev active. if se_kind ev = ''plan/mode'' then
                        (case map_of (se_meta ev) ''active'' of Some (AnyBool v) \<Rightarrow> v | _ \<Rightarrow> active)
                      else active) evs False"

definition plan_Mode :: "'w plan_config \<Rightarrow> 'w plan_state \<Rightarrow> session_mode" where
  "plan_Mode cfg s =
    (case pc_mode cfg of
       Some f \<Rightarrow> f (ps_world s)
     | None \<Rightarrow> (case ps_log s of
                 None \<Rightarrow> SessionModeNormal
               | Some l \<Rightarrow> if plan_active (sl_events l) then SessionModePlan else SessionModeNormal))"

text \<open>An error of the log is ignored.\<close>

definition log_plan :: "int \<Rightarrow> bool \<Rightarrow> 'w plan_state \<Rightarrow> 'w plan_state" where
  "log_plan now active s =
    s\<lparr>ps_log := map_option (\<lambda>l. snd (Append (NewLogOnlyEvent ''plan/mode'' [(''active'', AnyBool active)] now) l)) (ps_log s)\<rparr>"

definition plan_Enter :: "int \<Rightarrow> 'w plan_state \<Rightarrow> 'w plan_state" where
  "plan_Enter now s = log_plan now True s"

section \<open>The gate\<close>

definition hasEffect :: "tool_effect list \<Rightarrow> tool_effect \<Rightarrow> bool" where
  "hasEffect effects target = list_ex (\<lambda>e. e = target) effects"

text \<open>Whether the hook denies the call.\<close>

definition plan_gate :: "'w plan_config \<Rightarrow> 'w plan_state \<Rightarrow> tool_call_info option \<Rightarrow> bool" where
  "plan_gate cfg s info =
    (case info of
       None \<Rightarrow> False
     | Some i \<Rightarrow>
        if plan_Mode cfg s \<noteq> SessionModePlan then False
        else if ti_name i = pc_toolName cfg then False
        else let effects = (if ti_effects i = [] then [EffectWrite, EffectExec] else ti_effects i)
             in hasEffect effects EffectWrite \<or> hasEffect effects EffectExec \<or> hasEffect effects EffectUserData)"

section \<open>The way out\<close>

datatype plan_result = PlanEmpty | NotInPlanMode | PlanDenied string | ApprovalUnavailable asker_error | LeftPending | PlanApproved

definition plan_exit :: "'w plan_config \<Rightarrow> int \<Rightarrow> string \<Rightarrow> string \<Rightarrow> 'w plan_state \<Rightarrow> plan_result \<times> 'w plan_state" where
  "plan_exit cfg now plan summary s =
    (if is_blank plan then (PlanEmpty, s)
     else if plan_Mode cfg s \<noteq> SessionModePlan then (NotInPlanMode, s)
     else let ((dec, err), w) = pc_ask cfg \<lparr>apr_tool = pc_toolName cfg, apr_effects = [], apr_args = plan, apr_reason = summary\<rparr> (ps_world s);
              s1 = s\<lparr>ps_world := w\<rparr>
          in case (err, dec) of
               (Some (DeniedError fb), ApprovalDeny) \<Rightarrow> (PlanDenied fb, s1)
             | (Some e, _) \<Rightarrow> (ApprovalUnavailable e, s1)
             | (None, _) \<Rightarrow>
                 if dec = ApprovalAuto \<or> dec = ApprovalAllowedOnce then
                   (let s2 = log_plan now False s1 in (PlanApproved, s2\<lparr>ps_approved := ps_approved s2 @ [plan]\<rparr>))
                 else if dec = ApprovalDeny then (PlanDenied ''plan rejected'', s1)
                 else (LeftPending, s1))"

inductive plan_step :: "'w plan_config \<Rightarrow> 'w plan_state \<Rightarrow> 'w plan_state \<Rightarrow> bool" for cfg where
  plan_enter: "plan_step cfg s (plan_Enter now s)"
| plan_submit: "plan_step cfg s (snd (plan_exit cfg now plan summary s))"
| plan_other: "se_kind ev \<noteq> ''plan/mode'' \<Longrightarrow>
    plan_step cfg s (s\<lparr>ps_log := map_option (\<lambda>l. snd (Append ev l)) (ps_log s)\<rparr>)"
| plan_world: "plan_step cfg s (s\<lparr>ps_world := w\<rparr>)"

section \<open>What plan mode guarantees\<close>

lemma Append_events:
  "\<exists>e. sl_events (snd (Append ev l)) \<in> {sl_events l, sl_events l @ [e]} \<and> se_kind e = se_kind ev \<and> se_meta e = se_meta ev"
  by (auto simp: Append_def Let_def split: surface_op.splits sum.splits intro!: exI [of _ "ev\<lparr>se_seq := sl_seq l + 1\<rparr>"])

lemma plan_active_snoc:
  "plan_active (evs @ [e]) = (if se_kind e = ''plan/mode'' then
     (case map_of (se_meta e) ''active'' of Some (AnyBool v) \<Rightarrow> v | _ \<Rightarrow> plan_active evs) else plan_active evs)"
  unfolding plan_active_def fold_append fold_simps comp_apply id_apply by (rule refl)

lemma other_keeps_mode:
  assumes "se_kind ev \<noteq> ''plan/mode''"
  shows "plan_active (sl_events (snd (Append ev l))) = plan_active (sl_events l)"
  using Append_events [of ev l] assms by (auto simp: plan_active_snoc)

lemma enter_keeps_plan:
  "plan_active (sl_events l) \<Longrightarrow>
     plan_active (sl_events (snd (Append (NewLogOnlyEvent ''plan/mode'' [(''active'', AnyBool True)] now) l)))"
  using Append_events [of "NewLogOnlyEvent ''plan/mode'' [(''active'', AnyBool True)] now" l]
  by (auto simp: plan_active_snoc NewLogOnlyEvent_def)

lemma plan_exit_cases:
  assumes "plan_exit cfg now plan summary s = (r, s')"
  shows "r = PlanApproved \<and> (\<exists>w. s' = (log_plan now False (s\<lparr>ps_world := w\<rparr>))\<lparr>ps_approved := ps_approved s @ [plan]\<rparr>)
    \<or> r \<noteq> PlanApproved \<and> (\<exists>w. s' = s\<lparr>ps_world := w\<rparr>)"
proof (cases "is_blank plan \<or> plan_Mode cfg s \<noteq> SessionModePlan")
  case True
  then have "s' = s" "r \<noteq> PlanApproved" using assms by (auto simp: plan_exit_def split: if_splits)
  then have "s' = s\<lparr>ps_world := ps_world s\<rparr>" by simp
  then show ?thesis using \<open>r \<noteq> PlanApproved\<close> by blast
next
  case False
  obtain dec err w where a: "pc_ask cfg \<lparr>apr_tool = pc_toolName cfg, apr_effects = [], apr_args = plan, apr_reason = summary\<rparr> (ps_world s) = ((dec, err), w)"
    by (metis surj_pair)
  show ?thesis
  proof (cases err)
    case None
    then show ?thesis using assms False a by (auto simp: plan_exit_def Let_def log_plan_def split: if_splits)
  next
    case (Some e)
    then show ?thesis using assms False a
      by (cases e; cases dec) (auto simp: plan_exit_def)
  qed
qed

text \<open>What the tool puts to the host, and the decisions that let the session out.\<close>

definition plan_request :: "'w plan_config \<Rightarrow> string \<Rightarrow> string \<Rightarrow> approval_request" where
  "plan_request cfg plan summary = \<lparr>apr_tool = pc_toolName cfg, apr_effects = [], apr_args = plan, apr_reason = summary\<rparr>"

definition host_approves :: "'w plan_config \<Rightarrow> string \<Rightarrow> string \<Rightarrow> 'w \<Rightarrow> bool" where
  "host_approves cfg plan summary w \<longleftrightarrow>
     fst (pc_ask cfg (plan_request cfg plan summary) w) \<in> {(ApprovalAuto, None), (ApprovalAllowedOnce, None)}"

lemma approved_by_host:
  assumes "plan_exit cfg now plan summary s = (PlanApproved, s')"
  shows "\<not> is_blank plan \<and> plan_Mode cfg s = SessionModePlan \<and> host_approves cfg plan summary (ps_world s)"
proof -
  obtain dec err w where a: "pc_ask cfg (plan_request cfg plan summary) (ps_world s) = ((dec, err), w)"
    by (metis surj_pair)
  have "\<not> is_blank plan" "plan_Mode cfg s = SessionModePlan" using assms by (auto simp: plan_exit_def split: if_splits)
  moreover have "err = None \<and> (dec = ApprovalAuto \<or> dec = ApprovalAllowedOnce)"
  proof (cases err)
    case None
    then show ?thesis using assms a calculation by (auto simp: plan_exit_def plan_request_def Let_def split: if_splits)
  next
    case (Some e)
    then show ?thesis using assms a calculation by (cases e; cases dec) (auto simp: plan_exit_def plan_request_def)
  qed
  ultimately show ?thesis by (auto simp: host_approves_def a)
qed

text \<open>The only step out of plan mode.\<close>

lemma plan_left_by_exit:
  assumes "plan_step cfg s s'" and "pc_mode cfg = None"
    and "plan_Mode cfg s = SessionModePlan" and "plan_Mode cfg s' \<noteq> SessionModePlan"
  shows "\<exists>now plan summary. plan_exit cfg now plan summary s = (PlanApproved, s')"
  using assms
proof (cases rule: plan_step.cases)
  case (plan_enter now)
  then show ?thesis using assms enter_keeps_plan
    by (auto simp: plan_Mode_def plan_Enter_def log_plan_def split: option.splits if_splits)
next
  case (plan_submit now plan summary)
  obtain r where r: "plan_exit cfg now plan summary s = (r, s')" using plan_submit by (metis prod.collapse)
  have "r = PlanApproved"
  proof (rule ccontr)
    assume "r \<noteq> PlanApproved"
    then obtain w where "s' = s\<lparr>ps_world := w\<rparr>" using plan_exit_cases [OF r] by auto
    then show False using assms(2-4) by (simp add: plan_Mode_def split: option.splits)
  qed
  then show ?thesis using r by blast
next
  case (plan_other ev)
  then show ?thesis using assms other_keeps_mode
    by (auto simp: plan_Mode_def split: option.splits if_splits)
next
  case (plan_world w)
  then show ?thesis using assms by (simp add: plan_Mode_def split: option.splits)
qed

text \<open>In plan mode every call is blocked that may write, run something or touch data of the user, or that does not say what it does.\<close>

lemma gate_blocks_mutation:
  assumes "plan_Mode cfg s = SessionModePlan" and "ti_name i \<noteq> pc_toolName cfg"
  shows "plan_gate cfg s (Some i) \<longleftrightarrow> ti_effects i = [] \<or> set (ti_effects i) \<inter> {EffectWrite, EffectExec, EffectUserData} \<noteq> {}"
  using assms by (auto simp: plan_gate_def hasEffect_def list_ex_iff)

lemma plan_path_approval:
  assumes "(plan_step cfg)\<^sup>*\<^sup>* s s'" and "pc_mode cfg = None"
    and "plan_Mode cfg s = SessionModePlan" and "plan_Mode cfg s' \<noteq> SessionModePlan"
  shows "\<exists>t now plan summary. (plan_step cfg)\<^sup>*\<^sup>* s t \<and> plan_Mode cfg t = SessionModePlan \<and> \<not> is_blank plan \<and>
    host_approves cfg plan summary (ps_world t) \<and> fst (plan_exit cfg now plan summary t) = PlanApproved \<and>
    (plan_step cfg)\<^sup>*\<^sup>* (snd (plan_exit cfg now plan summary t)) s'"
  using assms(1,4)
proof (induction rule: rtranclp_induct)
  case base
  then show ?case using assms(3) by simp
next
  case (step t s')
  show ?case
  proof (cases "plan_Mode cfg t = SessionModePlan")
    case True
    then obtain now plan summary where e: "plan_exit cfg now plan summary t = (PlanApproved, s')"
      using plan_left_by_exit [OF step.hyps(2) assms(2)] step.prems by blast
    then show ?thesis using approved_by_host [OF e] step.hyps(1)
      by (intro exI [of _ t] exI [of _ now] exI [of _ plan] exI [of _ summary]) simp
  next
    case False
    then show ?thesis using step.IH step.hyps(2) by (meson rtranclp.rtrancl_into_rtrancl)
  qed
qed

text \<open>
  C18. Plan mode holds until the host approves a plan.  The session log being the authority for the mode (no
  callback of the host gives it), a session that is in plan mode runs no tool but its own exit tool that may write, execute or touch
  data of the user, or that does not say what it does, whatever is entered, submitted, logged or done by the host,
  before the host has been asked about a plan that is not blank and has answered with an approval and no
  error; the exit of that very submission is what ends the mode.
\<close>

theorem plan_left_by_approval:
  assumes "(plan_step cfg)\<^sup>*\<^sup>* s s'" and "pc_mode cfg = None" and "plan_Mode cfg s = SessionModePlan"
    and "\<not> plan_gate cfg s' (Some i)" and "ti_name i \<noteq> pc_toolName cfg"
    and "ti_effects i = [] \<or> set (ti_effects i) \<inter> {EffectWrite, EffectExec, EffectUserData} \<noteq> {}"
  shows "\<exists>t now plan summary. (plan_step cfg)\<^sup>*\<^sup>* s t \<and> plan_Mode cfg t = SessionModePlan \<and> \<not> is_blank plan \<and>
    host_approves cfg plan summary (ps_world t) \<and> fst (plan_exit cfg now plan summary t) = PlanApproved \<and>
    (plan_step cfg)\<^sup>*\<^sup>* (snd (plan_exit cfg now plan summary t)) s'"
  using plan_path_approval [OF assms(1-3)] gate_blocks_mutation [of cfg s' i] assms(4-6) by blast

text \<open>A host that approves the plan ''p'' and denies every other.\<close>

definition picky :: "unit plan_config" where
  "picky = \<lparr>pc_mode = None, pc_ask = \<lambda>req w. ((if apr_args req = ''p'' then ApprovalAllowedOnce else ApprovalDeny, None), w),
     pc_toolName = DefaultToolName\<rparr>"

definition in_plan :: "unit plan_state" where
  "in_plan = plan_Enter 0 \<lparr>ps_log = Some (NewLog ''s''), ps_world = (), ps_approved = []\<rparr>"

definition writes_file :: tool_call_info where
  "writes_file = \<lparr>ti_invocationID = ''i'', ti_agentName = ''a'', ti_stepIndex = 0, ti_name = ''write'', ti_args = [], ti_effects = [EffectWrite],
     ti_result = [], ti_parts = None, ti_error = None\<rparr>"

lemmas plan_eval = picky_def in_plan_def plan_Enter_def log_plan_def plan_Mode_def plan_active_def NewLog_def Append_def
  NewLogOnlyEvent_def Let_def plan_exit_def is_blank_def is_space_def

theorem plan_left_by_approval_witness:
  "let after = (\<lambda>plan. snd (plan_exit picky 1 plan ''s'' in_plan)) in
   plan_gate picky (after ''q'') (Some writes_file) \<and> \<not> plan_gate picky (after ''p'') (Some writes_file) \<and>
   (\<exists>t plan summary. (plan_step picky)\<^sup>*\<^sup>* in_plan t \<and> host_approves picky plan summary (ps_world t))"
proof -
  let ?s = "snd (plan_exit picky 1 ''p'' ''s'' in_plan)"
  have g: "\<not> plan_gate picky ?s (Some writes_file)" "plan_gate picky (snd (plan_exit picky 1 ''q'' ''s'' in_plan)) (Some writes_file)"
    by (simp_all add: plan_eval plan_gate_def writes_file_def hasEffect_def DefaultToolName_def)
  have run: "(plan_step picky)\<^sup>*\<^sup>* in_plan ?s" by (intro r_into_rtranclp plan_submit)
  have m: "pc_mode picky = None" "plan_Mode picky in_plan = SessionModePlan" by (simp_all add: plan_eval)
  show ?thesis
    using plan_left_by_approval [OF run m g(1)] g by (auto simp: Let_def writes_file_def picky_def DefaultToolName_def)
qed

section \<open>What the module does otherwise than documented\<close>

text \<open>When the log is closed, the exit is reported and the host is told, and the session stays in plan mode.\<close>

lemma approved_but_still_plan:
  "let s = in_plan\<lparr>ps_log := map_option (\<lambda>l. l\<lparr>sl_closed := True\<rparr>) (ps_log in_plan)\<rparr>
   in fst (plan_exit picky 1 ''p'' ''s'' s) = PlanApproved \<and> plan_Mode picky (snd (plan_exit picky 1 ''p'' ''s'' s)) = SessionModePlan"
  by (simp add: plan_eval)

text \<open>With a callback for the mode, entering plan mode is logged and changes nothing.\<close>

lemma enter_without_effect: "pc_mode cfg = Some f \<Longrightarrow> plan_Mode cfg (plan_Enter now s) = plan_Mode cfg s"
  by (simp add: plan_Mode_def plan_Enter_def log_plan_def)

end
