(* ===== verification/FileTools.thy ===== *)
theory FileTools
  imports ToolFiles
begin

text \<open>
  The tools that write, rename and trash files: \<open>tools/write/write.go\<close>,
  \<open>tools/rename/rename.go\<close> and \<open>tools/trash/trash.go\<close>.  System calls may fail for
  reasons of their own, which are arguments.
\<close>

section \<open>System calls\<close>

definition os_write :: "write_outcome \<Rightarrow> int \<Rightarrow> string \<Rightarrow> string \<Rightarrow> disk \<Rightarrow> bool \<times> disk" where
  "os_write wr now p text d =
    (case node_at d p of
       Some (Directory _) \<Rightarrow> (False, d)
     | _ \<Rightarrow> (case wr of
               WriteOk \<Rightarrow> (True, write_file now p text d)
             | WriteFailed None \<Rightarrow> (False, d)
             | WriteFailed (Some t) \<Rightarrow> (False, write_file now p t d)))"

text \<open>The directories on the way to a path and the path itself.\<close>

definition dir_chain :: "string \<Rightarrow> string list" where
  "dir_chain p =
    (let q = path_Clean p; root = (if has_prefix q ''/'' then ''/'' else []);
         segs = filter (\<lambda>x. x \<noteq> [] \<and> x \<noteq> ''.'') (slash_segments q)
     in map (\<lambda>n. root @ join_strings ''/'' (take (Suc n) segs)) [0..<length segs])"

fun mkdirs :: "int \<Rightarrow> string list \<Rightarrow> disk \<Rightarrow> bool \<times> disk" where
  "mkdirs now [] d = (True, d)"
| "mkdirs now (p # ps) d =
     (case d p of
        None \<Rightarrow> mkdirs now ps (d(p \<mapsto> Directory now))
      | Some (Directory _) \<Rightarrow> mkdirs now ps d
      | Some (RegularFile _) \<Rightarrow> (False, d))"

definition MkdirAll :: "int \<Rightarrow> string \<Rightarrow> disk \<Rightarrow> bool \<times> disk" where
  "MkdirAll now p d = mkdirs now (dir_chain p) d"

text \<open>\<open>os.Rename\<close>: a file replaces a file, an existing directory is no destination.\<close>

definition os_rename :: "string \<Rightarrow> string \<Rightarrow> disk \<Rightarrow> disk option" where
  "os_rename old new d =
    (let a = path_Clean old; b = path_Clean new
     in case d a of
          None \<Rightarrow> None
        | Some n \<Rightarrow>
            if a = b then Some d
            else case (n, d b) of
                   (_, Some (Directory _)) \<Rightarrow> None
                 | (RegularFile f, _) \<Rightarrow> Some (d(a := None, b := Some n))
                 | (Directory t, Some (RegularFile _)) \<Rightarrow> None
                 | (Directory t, None) \<Rightarrow>
                     if has_prefix b (a @ ''/'') then None
                     else Some (\<lambda>q. if q = b then d a
                                    else if has_prefix q (b @ ''/'') then d (a @ drop (length b) q)
                                    else if q = a \<or> has_prefix q (a @ ''/'') then None
                                    else d q))"

lemma os_rename_file:
  "d (path_Clean old) = Some (RegularFile f) \<Longrightarrow> d (path_Clean new) = None \<Longrightarrow>
     os_rename old new d = Some (d(path_Clean old := None, path_Clean new := Some (RegularFile f)))"
  by (auto simp: os_rename_def Let_def)

text \<open>A file renamed to a free place and back leaves the disk as it was.\<close>

lemma rename_back:
  assumes "d (path_Clean old) = Some (RegularFile f)" and "d (path_Clean new) = None"
  shows "os_rename new old (d(path_Clean old := None, path_Clean new := Some (RegularFile f))) = Some d"
proof -
  let ?d = "d(path_Clean old := None, path_Clean new := Some (RegularFile f))"
  have ne: "path_Clean old \<noteq> path_Clean new" using assms by auto
  then have "?d (path_Clean new) = Some (RegularFile f)" "?d (path_Clean old) = None" by simp_all
  from os_rename_file [OF this] have "os_rename new old ?d = Some (?d(path_Clean new := None, path_Clean old := Some (RegularFile f)))" .
  moreover have "?d(path_Clean new := None, path_Clean old := Some (RegularFile f)) = d"
    using assms ne by (intro ext) auto
  ultimately show ?thesis by simp
qed

section \<open>Write\<close>

record write_args =
  wa_path :: string
  wa_content :: string
  wa_backup :: bool
  wa_expect :: string
  wa_ifAbsent :: bool

datatype write_error = WriteCanceled | WriteVersion version_error | AlreadyExists | BackupFailed | DirFailed | WriteFileFailed

record write_result =
  wr_size :: nat
  wr_backup :: "string option"
  wr_version :: "string option"

definition copyFile :: "write_outcome \<Rightarrow> int \<Rightarrow> string \<Rightarrow> string \<Rightarrow> disk \<Rightarrow> bool \<times> disk" where
  "copyFile wr now src dst d = (case read_file d src of None \<Rightarrow> (False, d) | Some text \<Rightarrow> os_write wr now dst text d)"

definition backup_path :: "write_args \<Rightarrow> disk \<Rightarrow> string option" where
  "backup_path args d = (if wa_backup args \<and> node_at d (wa_path args) \<noteq> None then Some (wa_path args @ ''.bak'') else None)"

definition write_run ::
  "nat \<Rightarrow> int \<Rightarrow> bool \<Rightarrow> write_outcome \<Rightarrow> write_outcome \<Rightarrow> write_args \<Rightarrow> disk \<Rightarrow> (write_error + write_result) \<times> disk" where
  "write_run dirSize now ctxDone bakWr wr args d =
    (let p = wa_path args
     in if ctxDone then (Inl WriteCanceled, d)
        else case (if wa_expect args \<noteq> [] then CheckVersion dirSize d p (wa_expect args) else None) of
               Some v \<Rightarrow> (Inl (WriteVersion v), d)
             | None \<Rightarrow>
                 if wa_ifAbsent args \<and> node_at d p \<noteq> None then (Inl AlreadyExists, d)
                 else let (bakOk, d1) = (case backup_path args d of None \<Rightarrow> (True, d) | Some b \<Rightarrow> copyFile bakWr now p b d)
                      in if \<not> bakOk then (Inl BackupFailed, d1)
                         else let (dirOk, d2) = MkdirAll now (path_Dir p) d1
                              in if \<not> dirOk then (Inl DirFailed, d2)
                                 else let (ok, d3) = os_write wr now p (wa_content args) d2
                                      in if \<not> ok then (Inl WriteFileFailed, d3)
                                         else (Inr \<lparr>wr_size = length (wa_content args), wr_backup = backup_path args d,
                                                    wr_version = FileVersion dirSize d3 p\<rparr>, d3))"

text \<open>A refused write touches nothing, and an accepted one leaves the content under the path and the version in the answer.\<close>

lemma write_refused:
  "write_run dirSize now ctxDone bakWr wr args d = (Inl e, d') \<Longrightarrow> e \<in> {WriteCanceled, AlreadyExists} \<union> range WriteVersion \<Longrightarrow> d' = d"
  by (auto simp: write_run_def Let_def split: if_splits option.splits prod.splits)

lemma write_done:
  assumes "write_run dirSize now ctxDone bakWr wr args d = (Inr r, d')"
  shows "read_file d' (wa_path args) = Some (wa_content args) \<and> wr_version r = FileVersion dirSize d' (wa_path args) \<and>
    (\<forall>v. wr_version r = Some v \<longrightarrow> CheckVersion dirSize d' (wa_path args) v = None)"
proof -
  obtain d2 where "os_write wr now (wa_path args) (wa_content args) d2 = (True, d')" "wr_version r = FileVersion dirSize d' (wa_path args)"
    using assms by (auto simp: write_run_def Let_def split: if_splits option.splits prod.splits)
  moreover from this(1) have "d' = write_file now (wa_path args) (wa_content args) d2"
    by (auto simp: os_write_def split: option.splits node.splits write_outcome.splits)
  ultimately show ?thesis by (auto simp: read_file_def node_at_def write_file_def CheckVersion_def)
qed

section \<open>Rename\<close>

record rename_args =
  rn_old :: string
  rn_new :: string
  rn_pattern :: string
  rn_oldStr :: string
  rn_newStr :: string
  rn_dryRun :: bool
  rn_force :: bool

datatype rename_error = RenameCanceled | NothingNamed | SourceNotFound | DestinationExists string | RenameMkdir | RenameFailed string

datatype rename_report = WouldRename "(string \<times> string) list" | Renamed "(string \<times> string) list" | NoFiles

definition dest_blocked :: "disk \<Rightarrow> string \<Rightarrow> bool" where
  "dest_blocked d p = (case node_at d p of Some (RegularFile _) \<Rightarrow> True | _ \<Rightarrow> False)"

definition singleRename :: "int \<Rightarrow> bool \<Rightarrow> rename_args \<Rightarrow> disk \<Rightarrow> (rename_error + rename_report) \<times> disk" where
  "singleRename now fails args d =
    (let op1 = (rn_old args, rn_new args)
     in if rn_dryRun args then (Inr (WouldRename [op1]), d)
        else if node_at d (rn_old args) = None then (Inl SourceNotFound, d)
        else if \<not> rn_force args \<and> dest_blocked d (rn_new args) then (Inl (DestinationExists (rn_new args)), d)
        else let (dirOk, d1) = MkdirAll now (path_Dir (rn_new args)) d
             in if \<not> dirOk then (Inl RenameMkdir, d1)
                else case (if fails then None else os_rename (rn_old args) (rn_new args) d1) of
                       None \<Rightarrow> (Inl (RenameFailed (rn_old args)), d1)
                     | Some d2 \<Rightarrow> (Inr (Renamed [op1]), d2))"

definition rename_ops :: "rename_args \<Rightarrow> string list \<Rightarrow> (string \<times> string) list" where
  "rename_ops args files =
    map (\<lambda>m. (m, path_Join (path_Dir m) (ReplaceAll (path_Base m) (rn_oldStr args) (rn_newStr args))))
      (filter (\<lambda>m. contains (path_Base m) (rn_oldStr args)) files)"

text \<open>
  The renaming back, best effort: an error of a call is ignored.  \<open>undoFails i\<close> says that the system refuses to
  rename the \<open>i\<close>th file back.
\<close>

definition rollback :: "(nat \<Rightarrow> bool) \<Rightarrow> (string \<times> string) list \<Rightarrow> disk \<Rightarrow> disk" where
  "rollback undoFails ops d =
    fold (\<lambda>(i, old, new) d. case (if undoFails i then None else os_rename new old d) of None \<Rightarrow> d | Some d' \<Rightarrow> d')
      (rev (enumerate 0 ops)) d"

text \<open>The execution: \<open>ops\<close> are to come, \<open>past\<close> have been renamed.\<close>

fun exec_ops ::
  "int \<Rightarrow> (nat \<Rightarrow> bool) \<Rightarrow> (nat \<Rightarrow> bool) \<Rightarrow> (nat \<Rightarrow> bool) \<Rightarrow> (string \<times> string) list \<Rightarrow> (string \<times> string) list \<Rightarrow> disk \<Rightarrow>
   (rename_error + unit) \<times> disk" where
  "exec_ops now cancelled fails undoFails past [] d = (Inr (), d)"
| "exec_ops now cancelled fails undoFails past ((old, new) # ops) d =
     (if cancelled (length past) then (Inl RenameCanceled, rollback undoFails past d)
      else let (dirOk, d1) = MkdirAll now (path_Dir new) d
           in if \<not> dirOk then (Inl RenameMkdir, rollback undoFails past d1)
              else case (if fails (length past) then None else os_rename old new d1) of
                     None \<Rightarrow> (Inl (RenameFailed old), rollback undoFails past d1)
                   | Some d2 \<Rightarrow> exec_ops now cancelled fails undoFails (past @ [(old, new)]) ops d2)"

definition batchRename ::
  "int \<Rightarrow> (nat \<Rightarrow> bool) \<Rightarrow> (nat \<Rightarrow> bool) \<Rightarrow> (nat \<Rightarrow> bool) \<Rightarrow> string list \<Rightarrow> rename_args \<Rightarrow> disk \<Rightarrow>
   (rename_error + rename_report) \<times> disk" where
  "batchRename now cancelled fails undoFails files args d =
    (let ops = rename_ops args files
     in if ops = [] then (Inr NoFiles, d)
        else if rn_dryRun args then (Inr (WouldRename ops), d)
        else case filter (\<lambda>(_, new). \<not> rn_force args \<and> dest_blocked d new) ops of
               (_, new) # _ \<Rightarrow> (Inl (DestinationExists new), d)
             | [] \<Rightarrow> (case exec_ops now cancelled fails undoFails [] ops d of
                       (Inl e, d') \<Rightarrow> (Inl e, d')
                     | (Inr _, d') \<Rightarrow> (Inr (Renamed ops), d')))"

definition rename_run ::
  "int \<Rightarrow> bool \<Rightarrow> (nat \<Rightarrow> bool) \<Rightarrow> (nat \<Rightarrow> bool) \<Rightarrow> (nat \<Rightarrow> bool) \<Rightarrow> string list \<Rightarrow> rename_args \<Rightarrow> disk \<Rightarrow>
   (rename_error + rename_report) \<times> disk" where
  "rename_run now ctxDone cancelled fails undoFails files args d =
    (if ctxDone then (Inl RenameCanceled, d)
     else if rn_old args \<noteq> [] \<and> rn_new args \<noteq> [] then singleRename now (fails 0) args d
     else if rn_pattern args \<noteq> [] \<and> rn_oldStr args \<noteq> [] then batchRename now cancelled fails undoFails files args d
     else (Inl NothingNamed, d))"

section \<open>A batch renames all or nothing\<close>

definition moved :: "(string \<times> string) list \<Rightarrow> disk \<Rightarrow> disk" where
  "moved ops d = fold (\<lambda>(old, new) d. d(path_Clean old := None, path_Clean new := d (path_Clean old))) ops d"

lemma moved_snoc: "moved (ops @ [(old, new)]) d = (moved ops d)(path_Clean old := None, path_Clean new := moved ops d (path_Clean old))"
  by (simp add: moved_def)

text \<open>The operations of a batch over files of their own, to free places of their own.\<close>

definition ops_apart :: "(string \<times> string) list \<Rightarrow> disk \<Rightarrow> bool" where
  "ops_apart ops d \<longleftrightarrow> distinct (map (path_Clean \<circ> fst) ops) \<and> distinct (map (path_Clean \<circ> snd) ops) \<and>
    (\<forall>(old, new) \<in> set ops. (\<exists>f. d (path_Clean old) = Some (RegularFile f)) \<and> d (path_Clean new) = None)"

lemma moved_other:
  "q \<notin> (path_Clean \<circ> fst) ` set ops \<Longrightarrow> q \<notin> (path_Clean \<circ> snd) ` set ops \<Longrightarrow> moved ops d q = d q"
  by (induction ops arbitrary: d) (auto simp: moved_def)

lemma ops_apart_last:
  assumes "ops_apart (ops @ [(old, new)]) d"
  shows "ops_apart ops d \<and> moved ops d (path_Clean old) = d (path_Clean old) \<and> moved ops d (path_Clean new) = None"
proof -
  have apart: "ops_apart ops d" using assms by (auto simp: ops_apart_def)
  have src: "\<exists>f. d (path_Clean a) = Some (RegularFile f)" and dst: "d (path_Clean b) = None" if "(a, b) \<in> set (ops @ [(old, new)])" for a b
    using assms that unfolding ops_apart_def by blast+
  have ol: "\<exists>f. d (path_Clean old) = Some (RegularFile f)" and nw: "d (path_Clean new) = None" using src dst by auto
  have "path_Clean old \<notin> (path_Clean \<circ> fst) ` set ops" "path_Clean new \<notin> (path_Clean \<circ> snd) ` set ops"
    using assms by (auto simp: ops_apart_def)
  moreover have "path_Clean old \<notin> (path_Clean \<circ> snd) ` set ops" using ol dst by force
  moreover have "path_Clean new \<notin> (path_Clean \<circ> fst) ` set ops" using nw src by force
  ultimately show ?thesis using apart nw by (simp add: moved_other)
qed

text \<open>Where the renames leave a file, its old place and everything else.\<close>

lemma moved_places:
  "ops_apart ops d \<Longrightarrow> (old, new) \<in> set ops \<Longrightarrow>
   moved ops d (path_Clean new) = d (path_Clean old) \<and> moved ops d (path_Clean old) = None"
proof (induction ops rule: rev_induct)
  case (snoc op1 ops)
  obtain a b where o: "op1 = (a, b)" by (cases op1)
  note l = ops_apart_last [OF snoc.prems(1) [unfolded o]]
  have src: "\<exists>f. d (path_Clean x) = Some (RegularFile f)" and dst: "d (path_Clean y) = None"
    if "(x, y) \<in> set (ops @ [(a, b)])" for x y
    using snoc.prems(1) that unfolding ops_apart_def o by blast+
  have ne: "path_Clean a \<noteq> path_Clean b" using src [of a b] dst [of a b] by auto
  show ?case
  proof (cases "(old, new) = (a, b)")
    case True
    then show ?thesis using l ne by (simp add: o moved_snoc)
  next
    case False
    then have in_ops: "(old, new) \<in> set ops" using snoc.prems(2) by (auto simp: o)
    have "path_Clean old \<noteq> path_Clean a" "path_Clean new \<noteq> path_Clean b"
      using snoc.prems(1) in_ops by (force simp: ops_apart_def o)+
    moreover have "path_Clean old \<noteq> path_Clean b" using src [of old new] dst [of a b] in_ops by auto
    moreover have "path_Clean new \<noteq> path_Clean a" using src [of a b] dst [of old new] in_ops by auto
    ultimately show ?thesis using snoc.IH l in_ops by (simp add: o moved_snoc)
  qed
qed simp

text \<open>Any one of the renames can be taken back.\<close>

lemma undo_one:
  assumes "ops_apart (xs @ (old, new) # st) d"
  shows "os_rename new old (moved (xs @ (old, new) # st) d) = Some (moved (xs @ st) d)" and "ops_apart (xs @ st) d"
proof -
  let ?D = "moved (xs @ (old, new) # st) d" and ?E = "moved (xs @ st) d"
  have src: "\<exists>f. d (path_Clean x) = Some (RegularFile f)" and dst: "d (path_Clean y) = None"
    if "(x, y) \<in> set (xs @ (old, new) # st)" for x y
    using assms that unfolding ops_apart_def by blast+
  show apart: "ops_apart (xs @ st) d" using assms by (auto simp: ops_apart_def)
  obtain f where f: "d (path_Clean old) = Some (RegularFile f)" using src [of old new] by auto
  have D: "?D (path_Clean new) = Some (RegularFile f)" "?D (path_Clean old) = None"
    using moved_places [OF assms, of old new] f by auto
  have "path_Clean old \<notin> (path_Clean \<circ> fst) ` set (xs @ st)" "path_Clean new \<notin> (path_Clean \<circ> snd) ` set (xs @ st)"
    using assms by (auto simp: ops_apart_def)
  moreover have "path_Clean old \<notin> (path_Clean \<circ> snd) ` set (xs @ st)"
  proof
    assume "path_Clean old \<in> (path_Clean \<circ> snd) ` set (xs @ st)"
    then obtain p where "path_Clean old = (path_Clean \<circ> snd) p" "p \<in> set (xs @ st)" by (rule imageE)
    then show False using dst [of "fst p" "snd p"] f by auto
  qed
  moreover have "path_Clean new \<notin> (path_Clean \<circ> fst) ` set (xs @ st)"
  proof
    assume "path_Clean new \<in> (path_Clean \<circ> fst) ` set (xs @ st)"
    then obtain p where "path_Clean new = (path_Clean \<circ> fst) p" "p \<in> set (xs @ st)" by (rule imageE)
    then show False using src [of "fst p" "snd p"] dst [of old new] by auto
  qed
  ultimately have E: "?E (path_Clean old) = Some (RegularFile f)" "?E (path_Clean new) = None"
    using f dst [of old new] by (simp_all add: moved_other)
  have "?D q = ?E q" if q: "q \<noteq> path_Clean old" "q \<noteq> path_Clean new" for q
  proof -
    have at: "?D q = ?E q" if "p \<in> set (xs @ st)" "q = path_Clean (fst p) \<or> q = path_Clean (snd p)" for p
      using that moved_places [OF assms, of "fst p" "snd p"] moved_places [OF apart, of "fst p" "snd p"] by auto
    consider "q \<in> (path_Clean \<circ> fst) ` set (xs @ st)" | "q \<in> (path_Clean \<circ> snd) ` set (xs @ st)"
      | "q \<notin> (path_Clean \<circ> fst) ` set (xs @ st)" "q \<notin> (path_Clean \<circ> snd) ` set (xs @ st)" by blast
    then show ?thesis
    proof cases
      case 1
      then show ?thesis by (rule imageE) (use at in simp)
    next
      case 2
      then show ?thesis by (rule imageE) (use at in simp)
    next
      case 3
      then show ?thesis using q by (simp add: moved_other)
    qed
  qed
  then have "?D(path_Clean new := None, path_Clean old := Some (RegularFile f)) = ?E"
    using E by (intro ext) auto
  then show "os_rename new old ?D = Some ?E" using os_rename_file [OF D] by simp
qed

text \<open>The files the system refuses to rename back stay under their new names.\<close>

definition stuck :: "(nat \<Rightarrow> bool) \<Rightarrow> (string \<times> string) list \<Rightarrow> (string \<times> string) list" where
  "stuck undoFails ops = map snd (filter (\<lambda>(i, _). undoFails i) (enumerate 0 ops))"

lemma rollback_stuck:
  "ops_apart (ops @ st) d \<Longrightarrow> rollback undoFails ops (moved (ops @ st) d) = moved (stuck undoFails ops @ st) d"
proof (induction ops arbitrary: st rule: rev_induct)
  case Nil
  show ?case by (simp add: rollback_def stuck_def)
next
  case (snoc op1 ops)
  obtain old new where o: "op1 = (old, new)" by (cases op1)
  have apart: "ops_apart (ops @ (old, new) # st) d" using snoc.prems by (simp add: o)
  have enum: "enumerate 0 (ops @ [(old, new)]) = enumerate 0 ops @ [(length ops, old, new)]" by (simp add: enumerate_append_eq)
  show ?case
  proof (cases "undoFails (length ops)")
    case True
    then show ?thesis
      using snoc.IH [of "op1 # st"] snoc.prems by (simp add: rollback_def stuck_def enum o)
  next
    case False
    then show ?thesis
      using snoc.IH [OF undo_one(2) [OF apart]] undo_one(1) [OF apart] by (simp add: rollback_def stuck_def enum o)
  qed
qed

lemma mkdirs_present: "\<forall>p \<in> set ps. \<exists>t. d p = Some (Directory t) \<Longrightarrow> mkdirs now ps d = (True, d)"
  by (induction ps) auto

lemma mkdirs_keep: "d p = Some n \<Longrightarrow> snd (mkdirs now ps d) p = Some n"
proof (induction now ps d rule: mkdirs.induct)
  case (2 now a ps d)
  then have "(d(a \<mapsto> Directory now)) p = Some n" if "d a = None" using that by auto
  then show ?case using 2 by (auto split: option.splits node.splits simp del: fun_upd_apply)
qed simp

definition dirs_present :: "(string \<times> string) list \<Rightarrow> disk \<Rightarrow> bool" where
  "dirs_present ops d \<longleftrightarrow> (\<forall>(old, new) \<in> set ops. \<forall>p \<in> set (dir_chain (path_Dir new)). \<exists>t. d p = Some (Directory t))"

lemma moved_dirs:
  assumes "ops_apart ops d" and "d p = Some (Directory t)"
  shows "moved ops d p = Some (Directory t)"
proof -
  have "p \<notin> (path_Clean \<circ> fst) ` set ops" "p \<notin> (path_Clean \<circ> snd) ` set ops"
    using assms by (force simp: ops_apart_def)+
  then show ?thesis using assms(2) by (simp add: moved_other)
qed

lemma exec_ops_spec:
  assumes "ops_apart (past @ ops) d" and "dirs_present (past @ ops) d"
  shows "case exec_ops now cancelled fails undoFails past ops (moved past d) of
    (Inl e, d') \<Rightarrow> \<exists>k \<le> length (past @ ops). d' = moved (stuck undoFails (take k (past @ ops))) d
  | (Inr _, d') \<Rightarrow> d' = moved (past @ ops) d"
  using assms
proof (induction ops arbitrary: past)
  case (Cons op1 ops)
  obtain old new where o: "op1 = (old, new)" by (cases op1)
  have pa: "ops_apart (past @ [(old, new)]) d" using Cons.prems(1) by (auto simp: ops_apart_def o)
  note l = ops_apart_last [OF pa]
  have rb: "rollback undoFails past (moved past d) = moved (stuck undoFails past) d"
    using rollback_stuck [of past "[]"] l by simp
  then have fail: "\<exists>k \<le> length (past @ op1 # ops). rollback undoFails past (moved past d) = moved (stuck undoFails (take k (past @ op1 # ops))) d"
    by (intro exI [of _ "length past"]) simp
  have mk: "MkdirAll now (path_Dir new) (moved past d) = (True, moved past d)"
    unfolding MkdirAll_def
  proof (rule mkdirs_present, rule ballI)
    fix p assume "p \<in> set (dir_chain (path_Dir new))"
    then obtain t where "d p = Some (Directory t)" using Cons.prems(2) by (auto simp: dirs_present_def o)
    then show "\<exists>t. moved past d p = Some (Directory t)" using moved_dirs l by blast
  qed
  obtain f where "moved past d (path_Clean old) = Some (RegularFile f)" using pa l by (auto simp: ops_apart_def)
  then have ren: "os_rename old new (moved past d) = Some (moved (past @ [(old, new)]) d)"
    using os_rename_file l by (simp add: moved_snoc)
  note IH = Cons.IH [of "past @ [(old, new)]", unfolded append_assoc append_Cons append_Nil, OF Cons.prems [unfolded o]]
  show ?case unfolding o
  proof (cases "cancelled (length past) \<or> fails (length past)")
    case True
    then show "case exec_ops now cancelled fails undoFails past ((old, new) # ops) (moved past d) of
      (Inl e, d') \<Rightarrow> \<exists>k \<le> length (past @ (old, new) # ops). d' = moved (stuck undoFails (take k (past @ (old, new) # ops))) d
    | (Inr _, d') \<Rightarrow> d' = moved (past @ (old, new) # ops) d"
      using fail by (auto simp: o mk)
  next
    case False
    then have "exec_ops now cancelled fails undoFails past ((old, new) # ops) (moved past d) =
        exec_ops now cancelled fails undoFails (past @ [(old, new)]) ops (moved (past @ [(old, new)]) d)"
      by (simp add: mk ren)
    then show "case exec_ops now cancelled fails undoFails past ((old, new) # ops) (moved past d) of
      (Inl e, d') \<Rightarrow> \<exists>k \<le> length (past @ (old, new) # ops). d' = moved (stuck undoFails (take k (past @ (old, new) # ops))) d
    | (Inr _, d') \<Rightarrow> d' = moved (past @ (old, new) # ops) d"
      using IH by (simp only:)
  qed
qed simp

lemma exec_ops_fails:
  "length past \<le> i \<Longrightarrow> i < length past + length ops \<Longrightarrow> fails i \<Longrightarrow> \<exists>e. fst (exec_ops now cancelled fails undoFails past ops d) = Inl e"
proof (induction ops arbitrary: past d)
  case (Cons op1 ops)
  obtain old new where o: "op1 = (old, new)" by (cases op1)
  show ?case
  proof (cases "length past = i")
    case True
    then show ?thesis using Cons.prems by (auto simp: o split: prod.splits)
  next
    case False
    then have "\<exists>e. fst (exec_ops now cancelled fails undoFails (past @ [(old, new)]) ops d2) = Inl e" for d2
      using Cons.IH [of "past @ [(old, new)]" d2] Cons.prems by simp
    then show ?thesis by (auto simp: o split: prod.splits option.splits)
  qed
qed simp

lemma stuck_apart: "ops_apart (ops @ st) d \<Longrightarrow> ops_apart (stuck undoFails ops @ st) d"
proof (induction ops arbitrary: st rule: rev_induct)
  case (snoc op1 ops)
  obtain old new where o: "op1 = (old, new)" by (cases op1)
  have "stuck undoFails (ops @ [op1]) = stuck undoFails ops @ (if undoFails (length ops) then [op1] else [])"
    by (simp add: stuck_def enumerate_append_eq)
  then show ?case using snoc.IH [of "op1 # st"] snoc.IH [of st] snoc.prems undo_one(2) [of ops old new st d] by (simp add: o)
qed (simp add: stuck_def)

lemma stuck_prefix:
  assumes "ops_apart ops d"
  shows "ops_apart (stuck undoFails (take k ops)) d"
proof -
  have "ops_apart (take k ops) d"
    using assms set_take_subset [of k ops] unfolding ops_apart_def take_map [symmetric] by (auto simp: distinct_take)
  then show ?thesis using stuck_apart [of "take k ops" "[]"] by simp
qed

lemma stuck_member: "x \<in> set (stuck undoFails (take k ops)) \<Longrightarrow> \<exists>i < length ops. undoFails i \<and> x = ops ! i"
  by (auto simp: stuck_def in_set_enumerate_eq)

text \<open>The disk after some of the renames, seen from all of them.\<close>

lemma moved_part:
  assumes "ops_apart ops d" "ops_apart part d" "set part \<subseteq> set ops"
  shows "(\<forall>(old, new) \<in> set ops. if (old, new) \<in> set part
        then moved part d (path_Clean new) = d (path_Clean old) \<and> moved part d (path_Clean old) = None
        else moved part d (path_Clean old) = d (path_Clean old) \<and> moved part d (path_Clean new) = None) \<and>
    (\<forall>q. q \<notin> (path_Clean \<circ> fst) ` set ops \<longrightarrow> q \<notin> (path_Clean \<circ> snd) ` set ops \<longrightarrow> moved part d q = d q)"
proof (intro conjI ballI allI impI, clarify)
  fix old new assume o: "(old, new) \<in> set ops"
  have src: "\<exists>f. d (path_Clean x) = Some (RegularFile f)" and dst: "d (path_Clean y) = None" if "(x, y) \<in> set ops" for x y
    using assms(1) that unfolding ops_apart_def by blast+
  have inj: "inj_on (path_Clean \<circ> fst) (set ops)" "inj_on (path_Clean \<circ> snd) (set ops)"
    using assms(1) by (auto simp: ops_apart_def distinct_map)
  show "if (old, new) \<in> set part
        then moved part d (path_Clean new) = d (path_Clean old) \<and> moved part d (path_Clean old) = None
        else moved part d (path_Clean old) = d (path_Clean old) \<and> moved part d (path_Clean new) = None"
  proof (cases "(old, new) \<in> set part")
    case False
    have "path_Clean old \<noteq> path_Clean y" "path_Clean new \<noteq> path_Clean x" if "(x, y) \<in> set ops" for x y
      using src [OF o] dst [OF that] src [OF that] dst [OF o] by auto
    moreover have "path_Clean old \<noteq> path_Clean x" "path_Clean new \<noteq> path_Clean y" if "(x, y) \<in> set part" for x y
      using inj_onD [OF inj(1), of "(old, new)" "(x, y)"] inj_onD [OF inj(2), of "(old, new)" "(x, y)"] o that assms(3) False by auto
    ultimately have "path_Clean old \<notin> (path_Clean \<circ> fst) ` set part" "path_Clean old \<notin> (path_Clean \<circ> snd) ` set part"
      "path_Clean new \<notin> (path_Clean \<circ> fst) ` set part" "path_Clean new \<notin> (path_Clean \<circ> snd) ` set part"
      using assms(3) by (auto, blast+)
    then show ?thesis using False dst [OF o] by (simp add: moved_other)
  qed (use moved_places [OF assms(2)] in simp)
next
  fix q assume "q \<notin> (path_Clean \<circ> fst) ` set ops" "q \<notin> (path_Clean \<circ> snd) ` set ops"
  then show "moved part d q = d q" using assms(3) by (intro moved_other) auto
qed

text \<open>
  C26. A batch of renames is all or nothing, as far as the system lets it be undone.  The files of the batch are
  different regular files, the new places are different and free, and the directories they lie in exist.  Then a
  batch that succeeds has moved every file; one that fails or is cancelled at any point has every file back in its old place
  except those whose renaming back the system refuses in its turn (\<open>undoFails\<close>), which are whole in their new
  place; and no other path of the disk has changed.  In particular the disk is exactly what it was when no renaming back is refused.
\<close>

theorem batch_rename_atomic:
  assumes "batchRename now cancelled fails undoFails files args d = (res, d')"
    and "ops_apart (rename_ops args files) d" and "dirs_present (rename_ops args files) d"
  shows "\<exists>S \<subseteq> set (rename_ops args files).
    (\<forall>(old, new) \<in> set (rename_ops args files).
       if (old, new) \<in> S then d' (path_Clean new) = d (path_Clean old) \<and> d' (path_Clean old) = None
       else d' (path_Clean old) = d (path_Clean old) \<and> d' (path_Clean new) = None) \<and>
    (\<forall>q. q \<notin> (path_Clean \<circ> fst) ` set (rename_ops args files) \<longrightarrow>
       q \<notin> (path_Clean \<circ> snd) ` set (rename_ops args files) \<longrightarrow> d' q = d q) \<and>
    (case res of
       Inr (Renamed ops) \<Rightarrow> ops = rename_ops args files \<and> S = set ops
     | Inr _ \<Rightarrow> d' = d
     | Inl _ \<Rightarrow> (\<forall>x \<in> S. \<exists>i < length (rename_ops args files). undoFails i \<and> x = rename_ops args files ! i) \<and>
         ((\<forall>i. \<not> undoFails i) \<longrightarrow> d' = d))"
proof -
  let ?ops = "rename_ops args files"
  have spec: "case exec_ops now cancelled fails undoFails [] ?ops d of
      (Inl e, d') \<Rightarrow> \<exists>k \<le> length ?ops. d' = moved (stuck undoFails (take k ?ops)) d | (Inr _, d') \<Rightarrow> d' = moved ?ops d"
    using exec_ops_spec [where past = "[]" and ops = ?ops and d = d and now = now and cancelled = cancelled and fails = fails
        and undoFails = undoFails, unfolded append_Nil, OF assms(2,3)]
    by (simp only: moved_def [of "[]"] fold_simps(1))
  have none: "moved [] d = d" "ops_apart [] d" by (simp_all add: moved_def ops_apart_def)
  consider (same) "d' = d" "\<forall>ops. res \<noteq> Inr (Renamed ops)"
    | (err) e where "res = Inl e" "exec_ops now cancelled fails undoFails [] ?ops d = (Inl e, d')"
    | (ok) "res = Inr (Renamed ?ops)" "exec_ops now cancelled fails undoFails [] ?ops d = (Inr (), d')"
    using assms(1) by (auto simp: batchRename_def Let_def split: if_splits list.splits prod.splits sum.splits)
  then show ?thesis
  proof cases
    case same
    then show ?thesis
      using moved_part [OF assms(2) none(2)] by (intro exI [of _ "{}"]) (auto simp: none split: sum.splits rename_report.splits)
  next
    case err
    then obtain k where k: "d' = moved (stuck undoFails (take k ?ops)) d" using spec by auto
    let ?S = "set (stuck undoFails (take k ?ops))"
    have sub: "?S \<subseteq> set ?ops" using stuck_member by fastforce
    have clean: "(\<forall>i. \<not> undoFails i) \<longrightarrow> moved (stuck undoFails (take k ?ops)) d = d" by (simp add: stuck_def none)
    show ?thesis
      unfolding err(1) sum.case k
      by (rule exI [of _ ?S], insert sub moved_part [OF assms(2) stuck_prefix [OF assms(2), of undoFails k] sub] clean
          stuck_member [of _ undoFails k ?ops]) (intro conjI; blast)
  next
    case ok
    then have d': "d' = moved ?ops d" using spec by simp
    show ?thesis
      unfolding ok(1) sum.case rename_report.case d'
      by (rule exI [of _ "set ?ops"], insert moved_part [OF assms(2,2) subset_refl]) (intro conjI; blast)
  qed
qed

definition plain_file :: "string \<Rightarrow> node" where
  "plain_file t = RegularFile \<lparr>fn_data = t, fn_mtime = 0, fn_perm = 420\<rparr>"

definition batch_args :: "string \<Rightarrow> string \<Rightarrow> rename_args" where
  "batch_args old new = \<lparr>rn_old = [], rn_new = [], rn_pattern = ''*'', rn_oldStr = old, rn_newStr = new, rn_dryRun = False, rn_force = False\<rparr>"

lemmas rename_eval = batchRename_def rename_ops_def batch_args_def dest_blocked_def node_at_def path_Clean_def has_prefix_def
  slash_segments_def sep_def path_Join_def path_Dir_def path_Base_def contains_def ReplaceAll_def replace_all.simps
  MkdirAll_def dir_chain_def os_rename_def Let_def plain_file_def read_file_def

lemma batch_example:
  "rename_ops (batch_args ''x'' ''y'') [''xa'', ''xb'', ''xc''] = [(''xa'', ''ya''), (''xb'', ''yb''), (''xc'', ''yc'')]"
  by (simp add: rename_eval)

text \<open>The third rename fails, and the system refuses to rename the second file back.\<close>

theorem batch_rename_atomic_witness:
  "let d = [''xa'' \<mapsto> plain_file ''1'', ''xb'' \<mapsto> plain_file ''2'', ''xc'' \<mapsto> plain_file ''3''];
       run = (\<lambda>undoFails. batchRename 0 (\<lambda>_. False) (\<lambda>i. i = 2) undoFails [''xa'', ''xb'', ''xc''] (batch_args ''x'' ''y'') d)
   in snd (run (\<lambda>_. False)) = d \<and>
      snd (run (\<lambda>i. i = 1)) ''xa'' = Some (plain_file ''1'') \<and> snd (run (\<lambda>i. i = 1)) ''xc'' = Some (plain_file ''3'') \<and>
      (snd (run (\<lambda>i. i = 1)) ''xb'' = Some (plain_file ''2'') \<or> snd (run (\<lambda>i. i = 1)) ''yb'' = Some (plain_file ''2''))"
proof -
  let ?d = "[''xa'' \<mapsto> plain_file ''1'', ''xb'' \<mapsto> plain_file ''2'', ''xc'' \<mapsto> plain_file ''3'']"
  let ?args = "batch_args ''x'' ''y''" and ?files = "[''xa'', ''xb'', ''xc'']"
  let ?run = "\<lambda>undoFails. batchRename 0 (\<lambda>_. False) (\<lambda>i. i = 2) undoFails ?files ?args ?d"
  have apart: "ops_apart (rename_ops ?args ?files) ?d" unfolding batch_example by (simp add: ops_apart_def rename_eval)
  have "dir_chain (path_Dir ''ya'') = []" "dir_chain (path_Dir ''yb'') = []" "dir_chain (path_Dir ''yc'') = []"
    by (simp_all add: dir_chain_def path_Dir_def path_Clean_def has_prefix_def slash_segments_def sep_def)
  then have dirs: "dirs_present (rename_ops ?args ?files) ?d" unfolding batch_example by (simp add: dirs_present_def)
  have fails: "\<exists>e. fst (?run undoFails) = Inl e" for undoFails
    using exec_ops_fails [where past = "[]" and i = 2 and ops = "rename_ops ?args ?files" and fails = "\<lambda>i. i = 2"
        and now = 0 and cancelled = "\<lambda>_. False" and undoFails = undoFails and d = ?d]
    unfolding batchRename_def Let_def batch_example
    by (auto simp: batch_args_def split: list.splits prod.splits sum.splits)
  have clean: "path_Clean p = p" if "p \<in> {''xa'', ''xb'', ''xc'', ''ya'', ''yb'', ''yc''}" for p
    using that by (auto simp: path_Clean_def has_prefix_def slash_segments_def sep_def)
  obtain e d0 where r0: "?run (\<lambda>_. False) = (Inl e, d0)" using fails by (metis prod.collapse)
  have "d0 = ?d" using batch_rename_atomic [OF r0 apart dirs] by auto
  obtain e1 d1 where r1: "?run (\<lambda>i. i = 1) = (Inl e1, d1)" using fails by (metis prod.collapse)
  obtain S where S: "\<forall>(old, new) \<in> {(''xa'', ''ya''), (''xb'', ''yb''), (''xc'', ''yc'')}.
       if (old, new) \<in> S then d1 (path_Clean new) = ?d (path_Clean old) \<and> d1 (path_Clean old) = None
       else d1 (path_Clean old) = ?d (path_Clean old) \<and> d1 (path_Clean new) = None"
    "\<forall>x \<in> S. x = (''xb'', ''yb'')"
    using batch_rename_atomic [OF r1 apart dirs] unfolding batch_example by auto
  have "(''xa'', ''ya'') \<notin> S" "(''xc'', ''yc'') \<notin> S" using S(2) by auto
  then have "d1 ''xa'' = Some (plain_file ''1'')" "d1 ''xc'' = Some (plain_file ''3'')"
    "d1 ''xb'' = Some (plain_file ''2'') \<or> d1 ''yb'' = Some (plain_file ''2'')"
    using S(1) by (simp_all add: clean split: if_splits)
  then show ?thesis using r0 r1 \<open>d0 = ?d\<close> by (simp add: Let_def)
qed

section \<open>Trash\<close>

text \<open>The manifest is the list of its entries: the original and the trashed path.  Relative paths are taken from \<open>cwd\<close>.\<close>

record trash_state =
  td_disk :: disk
  td_manifest :: "(string \<times> string) list"

definition abs_path :: "string \<Rightarrow> string \<Rightarrow> string" where
  "abs_path cwd p = (if has_prefix p ''/'' then path_Clean p else path_Join cwd p)"

definition trash_dir :: string where
  "trash_dir = ''.gocode/.trash''"

datatype trash_error = TrashCanceled | TrashPathRequired | TrashMissing | TrashDirFailed | TrashMoveFailed | RestoreExists string

definition trash_name :: "string \<Rightarrow> string \<Rightarrow> bool \<Rightarrow> string" where
  "trash_name path stamp isDir = path_Base path @ ''_'' @ stamp @ (if isDir then ''.trash'' else [])"

text \<open>The place in the trash: the name with the second, or also with the nanosecond when that is taken.\<close>

definition trash_dest :: "string \<Rightarrow> string \<Rightarrow> nat \<Rightarrow> string \<Rightarrow> bool \<Rightarrow> disk \<Rightarrow> string" where
  "trash_dest cwd stamp nano path isDir d =
    (let dest = path_Join trash_dir (trash_name path stamp isDir)
     in if node_at d (abs_path cwd dest) \<noteq> None
        then path_Join trash_dir (trash_name path stamp isDir @ ''_'' @ decimal nano) else dest)"

definition trash_run ::
  "string \<Rightarrow> string \<Rightarrow> nat \<Rightarrow> int \<Rightarrow> bool \<Rightarrow> bool \<Rightarrow> bool \<Rightarrow> string \<Rightarrow> trash_state \<Rightarrow> (trash_error + string) \<times> trash_state" where
  "trash_run cwd stamp nano now ctxDone manifestOk fails path s =
    (if ctxDone then (Inl TrashCanceled, s)
     else if path = [] then (Inl TrashPathRequired, s)
     else case node_at (td_disk s) (abs_path cwd path) of
            None \<Rightarrow> (Inl TrashMissing, s)
          | Some n \<Rightarrow>
              let (dirOk, d1) = MkdirAll now (abs_path cwd trash_dir) (td_disk s)
              in if \<not> dirOk then (Inl TrashDirFailed, s\<lparr>td_disk := d1\<rparr>)
                 else let dest = trash_dest cwd stamp nano path (case n of Directory _ \<Rightarrow> True | RegularFile _ \<Rightarrow> False) d1;
                          s1 = \<lparr>td_disk = d1, td_manifest = (if manifestOk then td_manifest s @ [(abs_path cwd path, dest)] else td_manifest s)\<rparr>
                      in case (if fails then None else os_rename (abs_path cwd path) (abs_path cwd dest) d1) of
                           None \<Rightarrow> (Inl TrashMoveFailed, s1)
                         | Some d2 \<Rightarrow> (Inr dest, s1\<lparr>td_disk := d2\<rparr>))"

definition strip_stamp :: "string \<Rightarrow> string" where
  "strip_stamp name =
    (let b = trim_suffix name ''.trash''
     in if length b > 16 \<and> b ! (length b - 16) = CHR ''_'' then take (length b - 16) b else b)"

text \<open>The first entry whose trashed path ends the given one.\<close>

definition manifest_lookup :: "(string \<times> string) list \<Rightarrow> string \<Rightarrow> string option" where
  "manifest_lookup m path = (case filter (\<lambda>(_, t). has_suffix path t) m of [] \<Rightarrow> None | (orig, _) # _ \<Rightarrow> Some orig)"

definition restore_run :: "string \<Rightarrow> bool \<Rightarrow> bool \<Rightarrow> string \<Rightarrow> trash_state \<Rightarrow> (trash_error + string) \<times> trash_state" where
  "restore_run cwd ctxDone fails path s =
    (if ctxDone then (Inl TrashCanceled, s)
     else if path = [] then (Inl TrashPathRequired, s)
     else if node_at (td_disk s) (abs_path cwd path) = None then (Inl TrashMissing, s)
     else let dest = (case manifest_lookup (td_manifest s) path of
                        Some orig \<Rightarrow> orig
                      | None \<Rightarrow> path_Join cwd (strip_stamp (path_Base path)))
          in if node_at (td_disk s) (abs_path cwd dest) \<noteq> None then (Inl (RestoreExists dest), s)
             else case (if fails then None else os_rename (abs_path cwd path) (abs_path cwd dest) (td_disk s)) of
                    None \<Rightarrow> (Inl TrashMoveFailed, s)
                  | Some d \<Rightarrow> (Inr dest, s\<lparr>td_disk := d\<rparr>))"

lemma has_suffix_refl: "has_suffix s s"
  by (simp add: has_suffix_def)

text \<open>
  Trashing a file and restoring it from the place the tool names brings back
  the disk, with the trash directory made: the file is under its original path
  with its content, provided the trash holds no older entry for that place, the
  place is free, and the original path is absolute and clean in the manifest.
\<close>

theorem trash_roundtrip:
  assumes t: "trash_run cwd stamp nano now False True False path s = (Inr dest, s1)"
    and r: "restore_run cwd False False dest s1 = (res, s2)"
    and regular: "node_at (td_disk s) (abs_path cwd path) = Some (RegularFile f)"
    and free: "snd (MkdirAll now (abs_path cwd trash_dir) (td_disk s)) (path_Clean (abs_path cwd dest)) = None"
    and entry: "manifest_lookup (td_manifest s) dest = None" and named: "dest \<noteq> []"
    and canon: "abs_path cwd (abs_path cwd path) = abs_path cwd path"
  shows "res = Inr (abs_path cwd path) \<and> td_disk s2 = snd (MkdirAll now (abs_path cwd trash_dir) (td_disk s)) \<and>
    node_at (td_disk s2) (abs_path cwd path) = Some (RegularFile f)"
proof -
  obtain ok d1 where mk: "MkdirAll now (abs_path cwd trash_dir) (td_disk s) = (ok, d1)" by fastforce
  have orig: "d1 (path_Clean (abs_path cwd path)) = Some (RegularFile f)"
    using mkdirs_keep [of "td_disk s" "path_Clean (abs_path cwd path)" "RegularFile f" now "dir_chain (abs_path cwd trash_dir)"] regular mk
    by (simp add: node_at_def MkdirAll_def)
  have free1: "d1 (path_Clean (abs_path cwd dest)) = None" using free mk by simp
  let ?d2 = "d1(path_Clean (abs_path cwd path) := None, path_Clean (abs_path cwd dest) := Some (RegularFile f))"
  have s1: "td_disk s1 = ?d2 \<and> td_manifest s1 = td_manifest s @ [(abs_path cwd path, dest)]"
    using t mk regular os_rename_file [OF orig free1]
    by (auto simp: trash_run_def Let_def split: if_splits option.splits)
  have look: "manifest_lookup (td_manifest s1) dest = Some (abs_path cwd path)"
    using entry s1 has_suffix_refl [of dest] by (auto simp: manifest_lookup_def split: list.splits)
  have ne: "path_Clean (abs_path cwd path) \<noteq> path_Clean (abs_path cwd dest)" using orig free1 by auto
  have rb: "os_rename (abs_path cwd dest) (abs_path cwd path) (td_disk s1) = Some d1"
    using rename_back [OF orig free1] s1 by simp
  have "node_at (td_disk s1) (abs_path cwd dest) = Some (RegularFile f)" "node_at (td_disk s1) (abs_path cwd path) = None"
    using s1 ne by (simp_all add: node_at_def)
  then have "res = Inr (abs_path cwd path) \<and> s2 = s1\<lparr>td_disk := d1\<rparr>"
    using r look rb canon named by (simp add: restore_run_def)
  then show ?thesis using mk orig by (simp add: node_at_def)
qed

definition trash_example :: trash_state where
  "trash_example = \<lparr>td_disk = [''/w'' \<mapsto> Directory 0, ''/w/.gocode'' \<mapsto> Directory 0, ''/w/.gocode/.trash'' \<mapsto> Directory 0,
     ''/w/f'' \<mapsto> plain_file ''x''], td_manifest = []\<rparr>"

lemmas path_eval = abs_path_def path_Join_def path_Clean_def has_prefix_def slash_segments_def sep_def

lemma example_paths:
  "abs_path ''/w'' ''f'' = ''/w/f''" "abs_path ''/w'' ''/w/f'' = ''/w/f''" "abs_path ''/w'' trash_dir = ''/w/.gocode/.trash''"
  "abs_path ''/w'' ''.gocode/.trash/f_S'' = ''/w/.gocode/.trash/f_S''"
  "path_Clean ''/w/f'' = ''/w/f''" "path_Clean ''/w/.gocode/.trash/f_S'' = ''/w/.gocode/.trash/f_S''"
  "dir_chain ''/w/.gocode/.trash'' = [''/w'', ''/w/.gocode'', ''/w/.gocode/.trash'']"
  "path_Join trash_dir (trash_name ''f'' ''S'' False) = ''.gocode/.trash/f_S''"
  by (simp_all add: path_eval trash_dir_def dir_chain_def trash_name_def path_Base_def upt_rec)

theorem trash_roundtrip_witness:
  "\<exists>dest s1 s2. trash_run ''/w'' ''S'' 0 5 False True False ''f'' trash_example = (Inr dest, s1) \<and>
     restore_run ''/w'' False False dest s1 = (Inr ''/w/f'', s2) \<and> node_at (td_disk s2) ''/w/f'' = Some (plain_file ''x'')"
proof -
  let ?f = "\<lparr>fn_data = ''x'', fn_mtime = 0, fn_perm = 420\<rparr>" and ?d = "td_disk trash_example"
  have mk: "MkdirAll 5 (abs_path ''/w'' trash_dir) ?d = (True, ?d)"
    by (simp add: MkdirAll_def example_paths trash_example_def)
  have reg: "node_at ?d (abs_path ''/w'' ''f'') = Some (RegularFile ?f)"
    by (simp add: node_at_def example_paths trash_example_def plain_file_def)
  have free: "?d ''/w/.gocode/.trash/f_S'' = None" by (simp add: trash_example_def)
  have dest: "trash_dest ''/w'' ''S'' 0 ''f'' False ?d = ''.gocode/.trash/f_S''"
    by (simp add: trash_dest_def Let_def example_paths node_at_def free)
  have ren: "os_rename (abs_path ''/w'' ''f'') (abs_path ''/w'' ''.gocode/.trash/f_S'') ?d \<noteq> None"
    using os_rename_file [of ?d "''/w/f''" ?f "''/w/.gocode/.trash/f_S''"] reg free by (simp add: example_paths node_at_def)
  then obtain s1 where t: "trash_run ''/w'' ''S'' 0 5 False True False ''f'' trash_example = (Inr ''.gocode/.trash/f_S'', s1)"
    by (auto simp: trash_run_def reg mk dest Let_def)
  obtain res s2 where r: "restore_run ''/w'' False False ''.gocode/.trash/f_S'' s1 = (res, s2)" by fastforce
  have entry: "manifest_lookup (td_manifest trash_example) ''.gocode/.trash/f_S'' = None" by (simp add: manifest_lookup_def trash_example_def)
  have place: "snd (MkdirAll 5 (abs_path ''/w'' trash_dir) ?d) (path_Clean (abs_path ''/w'' ''.gocode/.trash/f_S'')) = None"
    by (simp add: mk free example_paths(4,6))
  have "''.gocode/.trash/f_S'' \<noteq> []" "abs_path ''/w'' (abs_path ''/w'' ''f'') = abs_path ''/w'' ''f''" by (simp_all add: example_paths)
  note rt = trash_roundtrip [OF t r reg place entry this, unfolded example_paths(1)]
  have "res = Inr ''/w/f''" "node_at (td_disk s2) ''/w/f'' = Some (RegularFile ?f)" using rt by blast+
  then show ?thesis using t r by (auto simp: plain_file_def)
qed

section \<open>What the tools do otherwise than described\<close>

text \<open>Two files of a batch with one destination: no check sees it and the second replaces the first, which is lost.\<close>

lemma batch_collision_loses_file:
  "read_file (snd (batchRename 0 (\<lambda>_. False) (\<lambda>_. False) (\<lambda>_. False) [''a1'', ''a11''] (batch_args ''1'' []) [''a1'' \<mapsto> plain_file ''x'', ''a11'' \<mapsto> plain_file ''y''])) ''a'' = Some ''y''"
  "read_file (snd (batchRename 0 (\<lambda>_. False) (\<lambda>_. False) (\<lambda>_. False) [''a1'', ''a11''] (batch_args ''1'' []) [''a1'' \<mapsto> plain_file ''x'', ''a11'' \<mapsto> plain_file ''y''])) ''a1'' = None"
  by (simp_all add: rename_eval)

text \<open>A directory made for a new name with a slash stays when its rename fails: only renames are taken back.\<close>

lemma batch_leaves_directory:
  "snd (batchRename 7 (\<lambda>_. False) (\<lambda>_. True) (\<lambda>_. False) [''xa''] (batch_args ''x'' ''d/y'') [''xa'' \<mapsto> plain_file ''1'']) ''d'' = Some (Directory 7)"
  by (simp add: rename_eval rollback_def)

text \<open>A move into an existing directory passes the check and then fails.\<close>

lemma move_into_directory_fails:
  assumes "d (path_Clean p) = Some (Directory t)" and "d' (path_Clean p) = Some (Directory t)" and "path_Clean q \<noteq> path_Clean p"
  shows "\<not> dest_blocked d p \<and> os_rename q p d' = None"
  using assms by (auto simp: dest_blocked_def node_at_def os_rename_def Let_def split: option.splits node.splits)

text \<open>An entry of the manifest that was written for a move that failed, or for a file restored since, answers for a later file of its name.\<close>

lemma stale_entry_wins: "has_suffix path t \<Longrightarrow> manifest_lookup ((old, t) # m) path = Some old"
  by (simp add: manifest_lookup_def)

end
