(* ===== verification/ReadTool.thy ===== *)
theory ReadTool
  imports ToolFiles
begin

text \<open>
  The read tool (\<open>tools/read/read.go\<close>): a file as numbered lines, whole, as a
  range, as the body of a symbol or, when it is large, as a skeleton.  Line
  numbers of a request are 64-bit integers.
\<close>

section \<open>Lines\<close>

definition read_lines :: "string \<Rightarrow> string list" where
  "read_lines text = (let ls = split_lines text in if last ls = [] then butlast ls else ls)"

text \<open>The sign between the number and the text of a line, an arrow in UTF-8.\<close>

definition arrow :: string where
  "arrow = [CHR 0xE2, CHR 0x86, CHR 0x92]"

definition newline :: string where
  "newline = [CHR 0x0A]"

definition numbered :: "nat \<Rightarrow> string list \<Rightarrow> string" where
  "numbered start ls = concat (map (\<lambda>(i, l). decimal i @ arrow @ l @ newline) (zip [start..<start + length ls] ls))"

datatype section_out = OffsetExceeds int nat | SectionOf nat nat "string list" | SlicePanic

text \<open>The sum of a start and a limit wraps.\<close>

definition renderSection :: "int64 \<Rightarrow> int64 \<Rightarrow> string list \<Rightarrow> section_out" where
  "renderSection offset limit ls =
    (let n = length ls; start = (if sint offset < 1 then 1 else offset); lastLine = sint (start - 1 + limit);
         end1 = (if 0 < sint limit \<and> lastLine < int n then lastLine else int n)
     in if int n < sint start then OffsetExceeds (sint offset) n
        else if end1 < sint start - 1 then SlicePanic
        else SectionOf (nat (sint start)) (nat end1) (take (nat end1 - nat (sint start - 1)) (drop (nat (sint start - 1)) ls)))"

fun read_section_text :: "string \<Rightarrow> nat \<Rightarrow> section_out \<Rightarrow> string option" where
  "read_section_text path n (OffsetExceeds i m) =
     Some (''read_file: offset '' @ (if i < 0 then ''-'' @ decimal (nat (- i)) else decimal (nat i)) @ '' exceeds file length ('' @ decimal m @ '' lines)'')"
| "read_section_text path n (SectionOf a b ls) =
     Some (''File: '' @ path @ '' ('' @ decimal n @ '' total lines, showing lines '' @ decimal a @ ''-'' @ decimal b @ '')'' @ newline @ newline @ numbered a ls)"
| "read_section_text path n SlicePanic = None"

definition renderFullFile :: "string \<Rightarrow> string list \<Rightarrow> string" where
  "renderFullFile path ls = ''File: '' @ path @ '' ('' @ decimal (length ls) @ '' lines)'' @ newline @ newline @ numbered 1 ls"

section \<open>Symbols\<close>

definition def_prefixes :: "string \<Rightarrow> string list" where
  "def_prefixes ext =
    (if ext = ''.go'' then [''func '', ''func ('', ''type '']
     else if ext = ''.rs'' then [''fn '', ''pub fn '', ''struct '', ''pub struct '', ''enum '', ''pub enum '', ''trait '', ''pub trait '', ''impl'']
     else if ext = ''.py'' then [''def '', ''class '']
     else if ext \<in> {''.ts'', ''.tsx'', ''.js'', ''.jsx''} then [''function '', ''async function '', ''class '', ''interface '']
     else if ext \<in> {''.java'', ''.kt'', ''.kts'', ''.swift''} then [''class '', ''interface '', ''enum '', ''struct '']
     else [''func '', ''def '', ''class '', ''fn '', ''function '', ''sub '', ''struct ''])"

definition has_any_prefix :: "string \<Rightarrow> string list \<Rightarrow> bool" where
  "has_any_prefix s ps = list_ex (has_prefix s) ps"

definition is_definition :: "string \<Rightarrow> string \<Rightarrow> bool" where
  "is_definition ext trimmed \<longleftrightarrow>
    has_any_prefix trimmed (def_prefixes ext) \<or>
    (ext \<in> {''.ts'', ''.tsx'', ''.js'', ''.jsx''} \<and> has_prefix trimmed ''const '' \<and> contains trimmed ''=>'') \<or>
    (ext \<in> {''.java'', ''.kt'', ''.kts'', ''.swift''} \<and>
     has_any_prefix trimmed [''public '', ''private '', ''protected '', ''internal '', ''fun '', ''func ''] \<and> contains trimmed ''('')"

fun find_index :: "('a \<Rightarrow> bool) \<Rightarrow> 'a list \<Rightarrow> nat option" where
  "find_index P [] = None"
| "find_index P (x # xs) = (if P x then Some 0 else map_option Suc (find_index P xs))"

definition def_line :: "string \<Rightarrow> string \<Rightarrow> string list \<Rightarrow> nat option" where
  "def_line ext symbol ls =
    find_index (\<lambda>l. contains (ascii_lower (TrimSpace l)) (ascii_lower symbol) \<and> is_definition ext (TrimSpace l)) ls"

definition brace_change :: "string \<Rightarrow> int" where
  "brace_change l = sum_list (map (\<lambda>c. if c = CHR ''{'' then 1 else if c = CHR ''}'' then - 1 else 0) l)"

text \<open>The line after which the braces that opened are closed, from the first line with a brace.\<close>

fun body_end :: "int \<Rightarrow> string list \<Rightarrow> nat option" where
  "body_end depth [] = None"
| "body_end depth (l # ls) =
     (if depth + brace_change l = 0 then Some 0 else map_option Suc (body_end (depth + brace_change l) ls))"

fun skip_blank_up :: "string list \<Rightarrow> nat \<Rightarrow> nat" where
  "skip_blank_up ls 0 = 0"
| "skip_blank_up ls (Suc k) = (if TrimSpace (ls ! k) = [] then skip_blank_up ls k else Suc k)"

text \<open>The first line, counted from one, and the number of lines of the body of a symbol.\<close>

definition extractSymbol :: "string \<Rightarrow> string \<Rightarrow> string list \<Rightarrow> (nat \<times> nat) option" where
  "extractSymbol path symbol ls =
    (case def_line (ascii_lower (path_Ext path)) symbol ls of
       None \<Rightarrow> None
     | Some d \<Rightarrow>
        (case find_index (\<lambda>l. CHR ''{'' \<in> set l) (drop d ls) of
           None \<Rightarrow> Some (Suc d, 1)
         | Some b \<Rightarrow>
            (let e = (case body_end 0 (drop (d + b) ls) of Some k \<Rightarrow> d + b + k | None \<Rightarrow> length ls - 1);
                 s = skip_blank_up ls d
             in Some (Suc s, e - s + 1))))"

section \<open>The skeleton\<close>

record skel_section =
  sk_line :: nat
  sk_text :: string
  sk_kind :: string

text \<open>The handlers of the languages leave the line number at zero.\<close>

definition sect :: "string \<Rightarrow> string \<Rightarrow> skel_section option" where
  "sect kind text = Some \<lparr>sk_line = 0, sk_text = text, sk_kind = kind\<rparr>"

definition collectGoSection :: "string \<Rightarrow> skel_section option" where
  "collectGoSection t =
    (if has_any_prefix t [''func '', ''func ('']  then sect ''func'' t
     else if has_prefix t ''type '' then sect ''type'' t
     else if has_prefix t ''import'' \<and> t \<noteq> ''import ('' then sect ''import'' t
     else None)"

definition collectRustSection :: "string \<Rightarrow> skel_section option" where
  "collectRustSection t =
    (if has_prefix t ''fn '' then sect ''func'' t
     else if has_prefix t ''struct '' then sect ''struct'' t
     else if has_prefix t ''enum '' then sect ''enum'' t
     else if has_prefix t ''impl'' then sect ''impl'' t
     else if has_prefix t ''trait '' then sect ''trait'' t
     else if has_prefix t ''use '' then sect ''import'' t
     else if has_prefix t ''mod '' then sect ''mod'' t
     else if has_prefix t ''pub '' \<and> list_ex (contains t) ['' fn '', '' struct '', '' enum '', '' trait '', '' type ''] then sect ''pub'' t
     else None)"

definition collectPythonSection :: "string \<Rightarrow> skel_section option" where
  "collectPythonSection t =
    (if has_prefix t ''def '' then sect ''def'' t
     else if has_prefix t ''class '' then sect ''class'' t
     else if has_any_prefix t [''import '', ''from ''] then sect ''import'' t
     else None)"

definition collectTSSection :: "string \<Rightarrow> skel_section option" where
  "collectTSSection t =
    (if has_any_prefix t [''function '', ''async function ''] then sect ''func'' t
     else if has_prefix t ''class '' then sect ''class'' t
     else if has_prefix t ''interface '' then sect ''interface'' t
     else if has_prefix t ''type '' \<and> contains t ''='' then sect ''type'' t
     else if has_prefix t ''export '' then sect ''export'' t
     else if has_prefix t ''import '' then sect ''import'' t
     else if has_prefix t ''const '' \<and> contains t ''=>'' then sect ''func'' t
     else None)"

definition collectJavaSection :: "string \<Rightarrow> skel_section option" where
  "collectJavaSection t =
    (if has_any_prefix t [''public '', ''private '', ''protected ''] then
       (if contains t ''('' \<and> contains t '')'' then sect ''func'' t
        else if list_ex (contains t) ['' class '', '' interface '', '' enum ''] then sect ''type'' t
        else None)
     else if has_any_prefix t [''class '', ''interface ''] then sect ''type'' t
     else if has_prefix t ''import '' then sect ''import'' t
     else None)"

definition generic_prefixes :: "string list" where
  "generic_prefixes = [''func'', ''def '', ''class '', ''type '', ''struct '', ''interface '', ''enum '', ''trait '', ''impl '', ''import '',
     ''package '', ''export '', ''module '', ''namespace '', ''#include'', ''#define'', ''using '', ''# '', ''// '']"

definition generic_kind :: "string \<Rightarrow> string" where
  "generic_kind t =
    (if has_any_prefix t [''import '', ''using '', ''#include'', ''package ''] then ''import''
     else if has_any_prefix t [''func'', ''def '', ''class'', ''struct'', ''interface'', ''enum'', ''trait'', ''impl'', ''type''] then ''decl''
     else ''section'')"

definition collectGenericSections :: "string list \<Rightarrow> skel_section list" where
  "collectGenericSections ls =
    concat (map (\<lambda>(i, l). let t = TrimSpace l in if t \<noteq> [] \<and> has_any_prefix t generic_prefixes
                   then [\<lparr>sk_line = Suc i, sk_text = t, sk_kind = generic_kind t\<rparr>] else []) (zip [0..<length ls] ls))"

definition collectWithHandler :: "string list \<Rightarrow> (string \<Rightarrow> skel_section option) \<Rightarrow> skel_section list" where
  "collectWithHandler ls fn =
    concat (map (\<lambda>l. let t = TrimSpace l in if t = [] then [] else (case fn t of None \<Rightarrow> [] | Some s \<Rightarrow> [s])) ls)"

definition collectSections :: "string list \<Rightarrow> string \<Rightarrow> skel_section list" where
  "collectSections ls ext =
    (if ext = ''.go'' then collectWithHandler ls collectGoSection
     else if ext = ''.rs'' then collectWithHandler ls collectRustSection
     else if ext = ''.py'' then collectWithHandler ls collectPythonSection
     else if ext \<in> {''.ts'', ''.tsx'', ''.js'', ''.jsx''} then collectWithHandler ls collectTSSection
     else if ext = ''.java'' then collectWithHandler ls collectJavaSection
     else collectGenericSections ls)"

definition skeletonThreshold :: nat where
  "skeletonThreshold = 500"

definition maxSkeletonLines :: nat where
  "maxSkeletonLines = 100"

text \<open>Every line of a step, by its number.\<close>

definition fallbackSkeleton :: "string list \<Rightarrow> nat \<times> (nat \<times> string) list" where
  "fallbackSkeleton ls =
    (let st = max 1 (length ls div maxSkeletonLines)
     in (st, map (\<lambda>i. (Suc i, ls ! i)) (filter (\<lambda>i. i mod st = 0) [0..<length ls])))"

datatype read_view = SymbolView section_out | SectionView section_out | SectionsView "skel_section list" nat | LinesView nat "(nat \<times> string) list" | FullView "string list"

text \<open>The listed elements and how many more there are.\<close>

definition generateSkeleton :: "string \<Rightarrow> string list \<Rightarrow> read_view" where
  "generateSkeleton path ls =
    (let ss = collectSections ls (ascii_lower (path_Ext path))
     in if ss = [] then LinesView (fst (fallbackSkeleton ls)) (snd (fallbackSkeleton ls))
        else SectionsView (take maxSkeletonLines ss) (length ss - maxSkeletonLines))"

definition formatFileOutput :: "string \<Rightarrow> int64 \<Rightarrow> int64 \<Rightarrow> bool \<Rightarrow> string list \<Rightarrow> read_view" where
  "formatFileOutput path offset limit force ls =
    (if 0 < sint offset \<or> 0 < sint limit then SectionView (renderSection offset limit ls)
     else if skeletonThreshold < length ls \<and> \<not> force then generateSkeleton path ls
     else FullView ls)"

section \<open>The tool\<close>

record read_args =
  ra_path :: string
  ra_symbol :: string
  ra_offset :: int64
  ra_limit :: int64
  ra_force :: bool

datatype read_error = PathRequired | FileNotFound | IsDirectory | IsBinary | SymbolNotFound

definition validatePath :: "disk \<Rightarrow> string \<Rightarrow> read_error option" where
  "validatePath d path =
    (case node_at d path of
       None \<Rightarrow> Some FileNotFound
     | Some (Directory _) \<Rightarrow> Some IsDirectory
     | Some (RegularFile _) \<Rightarrow> if IsBinaryFile d path then Some IsBinary else None)"

text \<open>The view, the number of lines, whether it is called a skeleton, and the version.\<close>

definition read_run :: "nat \<Rightarrow> read_args \<Rightarrow> disk \<Rightarrow> read_error + (read_view \<times> nat \<times> bool \<times> string option)" where
  "read_run dirSize args d =
    (if ra_path args = [] then Inl PathRequired
     else case validatePath d (ra_path args) of
            Some e \<Rightarrow> Inl e
          | None \<Rightarrow>
              (let ls = read_lines (the (read_file d (ra_path args))); n = length ls
               in if ra_symbol args \<noteq> [] then
                    (case extractSymbol (ra_path args) (ra_symbol args) ls of
                       None \<Rightarrow> Inl SymbolNotFound
                     | Some (a, k) \<Rightarrow> Inr (SymbolView (renderSection (of_nat a) (of_nat k) ls), n, False, None))
                  else Inr (formatFileOutput (ra_path args) (ra_offset args) (ra_limit args) (ra_force args) ls, n,
                            sint (ra_offset args) \<le> 0 \<and> sint (ra_limit args) \<le> 0 \<and> skeletonThreshold < n \<and> \<not> ra_force args,
                            FileVersion dirSize d (ra_path args))))"

section \<open>Sections\<close>

lemma section_plain:
  assumes "1 \<le> a" and "a \<le> length ls" and "0 < k" and "int a + int k < 2 ^ 63"
  shows "renderSection (of_nat a) (of_nat k) ls = SectionOf a (min (a - 1 + k) (length ls)) (take k (drop (a - 1) ls))"
proof -
  have si: "sint (of_nat n :: int64) = int n" if "int n < 2 ^ 63" for n
    using sint64_of_int [of "int n"] that by simp
  have a: "sint (of_nat a :: int64) = int a" and k: "sint (of_nat k :: int64) = int k" using assms by (simp_all add: si)
  have "(of_nat a - 1 + of_nat k :: int64) = of_nat (a - 1 + k)" using assms(1) by (simp add: of_nat_diff)
  then have s: "sint (of_nat a - 1 + of_nat k :: int64) = int (a - 1 + k)" using assms by (simp only: si)
  have "take (min (a - 1 + k) (length ls) - (a - 1)) (drop (a - 1) ls) = take k (drop (a - 1) ls)"
    using assms by (cases "a - 1 + k \<le> length ls") (simp_all add: min_def)
  then show ?thesis using assms by (auto simp: renderSection_def Let_def a k s min_def nat_diff_distrib nat_add_distrib)
qed

text \<open>
  Reading a file page by page, the pages of any size up to the end of the file
  put together are its lines, each once and in order, and each page says which
  lines it holds.
\<close>

theorem pages_cover:
  assumes "0 < k" and "length ls + 2 * k < 2 ^ 62"
  shows "concat (map (\<lambda>i. case renderSection (of_nat (i * k + 1)) (of_nat k) ls of SectionOf a b page \<Rightarrow> page | _ \<Rightarrow> [])
      [0..<(length ls + k - 1) div k]) = ls \<and>
    (\<forall>i < (length ls + k - 1) div k. \<exists>page. renderSection (of_nat (i * k + 1)) (of_nat k) ls =
       SectionOf (i * k + 1) (min (i * k + k) (length ls)) page \<and> length page = min (i * k + k) (length ls) - i * k)"
proof -
  let ?m = "(length ls + k - 1) div k"
  have inside: "i * k < length ls" if "i < ?m" for i
  proof -
    have "Suc i * k \<le> ?m * k" using that by (intro mult_right_mono) simp_all
    also have "?m * k \<le> length ls + k - 1" by simp
    finally show ?thesis using assms(1) by simp
  qed
  have page: "renderSection (of_nat (i * k + 1)) (of_nat k) ls =
      SectionOf (i * k + 1) (min (i * k + k) (length ls)) (take k (drop (i * k) ls))" if "i < ?m" for i
  proof -
    have "int (length ls + 2 * k) < 2 ^ 62" using assms(2) of_nat_less_iff [of "length ls + 2 * k" "2 ^ 62", where 'a = int] by simp
    moreover have "int (i * k) < int (length ls)" using inside [OF that] by (simp only: of_nat_less_iff)
    ultimately have "int (i * k + 1) + int k < 2 ^ 63" unfolding of_nat_add by simp
    then show ?thesis using section_plain [of "i * k + 1" ls k] inside [OF that] assms(1) by simp
  qed
  have "concat (map (\<lambda>i. take k (drop (i * k) ls)) [0..<n]) = take (n * k) ls" for n
  proof (induction n)
    case (Suc n)
    have "take (Suc n * k) ls = take (n * k) ls @ take k (drop (n * k) ls)" by (metis add.commute mult_Suc take_add)
    then show ?case using Suc by simp
  qed simp
  moreover have "length ls \<le> ?m * k"
  proof -
    have "length ls + k - 1 = ?m * k + (length ls + k - 1) mod k" by simp
    moreover have "(length ls + k - 1) mod k < k" using assms(1) by simp
    ultimately show ?thesis by linarith
  qed
  ultimately have all: "concat (map (\<lambda>i. take k (drop (i * k) ls)) [0..<?m]) = ls" by simp
  have pages: "map (\<lambda>i. case renderSection (of_nat (i * k + 1)) (of_nat k) ls of SectionOf a b page \<Rightarrow> page | _ \<Rightarrow> []) [0..<?m] =
      map (\<lambda>i. take k (drop (i * k) ls)) [0..<?m]"
  proof (rule map_cong [OF refl])
    fix i assume "i \<in> set [0..<?m]"
    then have "i < ?m" by simp
    then show "(case renderSection (of_nat (i * k + 1)) (of_nat k) ls of SectionOf a b page \<Rightarrow> page | _ \<Rightarrow> []) = take k (drop (i * k) ls)"
      by (simp only: page section_out.case)
  qed
  have each: "\<exists>page. renderSection (of_nat (i * k + 1)) (of_nat k) ls = SectionOf (i * k + 1) (min (i * k + k) (length ls)) page \<and>
      length page = min (i * k + k) (length ls) - i * k" if "i < ?m" for i
    by (rule exI [of _ "take k (drop (i * k) ls)"], rule conjI, rule page [OF that]) auto
  show ?thesis by (rule conjI, simp only: pages all, intro allI impI, rule each)
qed

theorem pages_cover_witness:
  "\<exists>page. renderSection (of_nat 3) (of_nat 2) [''a'', ''b'', ''c''] = SectionOf 3 3 page \<and> length page = 1"
  using conjunct2 [OF pages_cover [of 2 "[''a'', ''b'', ''c'']"]] by (auto dest: spec [of _ 1])

section \<open>Bodies\<close>

lemma find_index_Some: "find_index P xs = Some i \<Longrightarrow> i < length xs \<and> P (xs ! i) \<and> (\<forall>j < i. \<not> P (xs ! j))"
proof (induction xs arbitrary: i)
  case (Cons x xs)
  then show ?case by (auto split: if_splits simp: less_Suc_eq_0_disj)
qed simp

lemma body_end_spec:
  "body_end depth ls = Some k \<Longrightarrow> k < length ls \<and> depth + sum_list (map brace_change (take (Suc k) ls)) = 0 \<and>
     (\<forall>j < k. depth + sum_list (map brace_change (take (Suc j) ls)) \<noteq> 0)"
proof (induction ls arbitrary: depth k)
  case (Cons l ls)
  show ?case
  proof (cases "depth + brace_change l = 0")
    case True
    then show ?thesis using Cons.prems by simp
  next
    case False
    then obtain k' where k': "body_end (depth + brace_change l) ls = Some k'" "k = Suc k'" using Cons.prems by auto
    show ?thesis using Cons.IH [OF k'(1)] k'(2) False by (auto simp: less_Suc_eq_0_disj add.assoc)
  qed
qed simp

section \<open>What the tool does otherwise than described\<close>

text \<open>A limit near the largest integer wraps and the slice panics.\<close>

lemma huge_limit_panics: "renderSection 2 9223372036854775807 [''a'', ''b''] = SlicePanic"
  by (simp add: renderSection_def Let_def)

text \<open>In the skeleton of a file of a known language every element is at line zero.\<close>

lemma collectors_at_zero:
  "collectGoSection t = Some x \<Longrightarrow> sk_line x = 0" "collectRustSection t = Some x \<Longrightarrow> sk_line x = 0"
  "collectPythonSection t = Some x \<Longrightarrow> sk_line x = 0" "collectTSSection t = Some x \<Longrightarrow> sk_line x = 0"
  "collectJavaSection t = Some x \<Longrightarrow> sk_line x = 0"
  unfolding collectGoSection_def collectRustSection_def collectPythonSection_def collectTSSection_def collectJavaSection_def sect_def
  by (simp_all del: list_ex_iff list.pred_inject split: if_split_asm) auto

lemma skeleton_at_line_zero:
  assumes "ext \<in> {''.go'', ''.rs'', ''.py'', ''.ts'', ''.tsx'', ''.js'', ''.jsx'', ''.java''}" and "s \<in> set (collectSections ls ext)"
  shows "sk_line s = 0"
proof -
  have "sk_line s = 0" if "s \<in> set (collectWithHandler ls fn)" "\<And>t x. fn t = Some x \<Longrightarrow> sk_line x = 0" for fn
    using that by (auto simp: collectWithHandler_def Let_def split: if_splits option.splits)
  then show ?thesis using assms collectors_at_zero by (auto simp: collectSections_def)
qed

text \<open>A definition of one line takes the next braces of the file for its own.\<close>

lemma one_line_definition_overruns:
  "extractSymbol ''a.go'' ''ID'' [''type ID int'', ''func f() {'', ''}''] = Some (1, 3)"
  by (simp add: extractSymbol_def def_line_def is_definition_def has_any_prefix_def def_prefixes_def path_Ext_def slash_segments_def
      sep_def ascii_lower_def TrimSpace_def is_space_def contains_def has_prefix_def brace_change_def)

end
