(* ===== verification/Spec2Isabelle.thy ===== *)
theory Spec2Isabelle
  imports JobRegistry TailStore GoalRound GraphProps StreamMerge RunBounds SessionService Permission GuardProps
    EventHub ScopedRegistry ModelRouter Subagents MemoryModule SpillFilters RepeatTool JsonRepair StreamTransforms GraphInterrupt
    WorkflowEngine MultiEdit SearchTools Schedule PlanMode FileTools ReadTool
begin

text \<open>
  Verification development for gocel, a framework for language-model agents in Go.

  The program and the theories.  A run of an agent goes through a runtime that
  fires hooks, calls a model with retries behind middlewares, executes tools,
  and stores messages in a session.  Around this core stand durable goals,
  background jobs, child agents, graphs of nodes, a model router and modules
  that are hooks of the runtime.

  Shared vocabulary.
  \<open>GoPrelude\<close>: values of type any, 64-bit integers, lists and maps.
  \<open>GoStrings\<close>: the parts of strings, strconv and unicode/utf8 the code uses, on lists of bytes.
  \<open>GoErrors\<close>: core/kernel/errors.go, error trees with errors.Is and errors.As as their pre-order walk.
  \<open>GoJson\<close>: decoded JSON values and equality up to the order of members.
  \<open>Messages\<close>: core/types/message.go and module/msgcheck, with the token estimate.

  Resilience.
  \<open>CircuitBreaker\<close>: middleware/circuitbreaker, one atomic step for each method; \<open>Resilience\<close>: the
  middlewares of core/kernel/resilience.go over the locale \<open>circuit_breaker\<close>, where concurrent requests enter and
  leave in any order, and the token bucket of
  middleware/ratelimiter; \<open>Retry\<close>: middleware/retry, backoff at 64 bits and the loop as a partial
  function; \<open>ModelRouter\<close>: modelrouter, strategies over routes that share breakers and limiters.

  The agent loop.
  \<open>Orchestrate\<close>: a batch of concurrent tool calls under every schedule of its semaphore; \<open>AgentCompose\<close>:
  parallel, chain and pipe agents; \<open>RuntimeHooks\<close> and \<open>AgentRuntime\<close>: core/runtime/runtime.go, hooks, model
  calls, streams and tool batches; \<open>StepLoop\<close>: engine/steploop.go; \<open>StreamMerge\<close>: the merging of streamed
  tool calls; \<open>RunBounds\<close>: bounds of whole runs; \<open>Guard\<close> and \<open>GuardProps\<close>: module/guard, which keeps a
  context within its budget; \<open>Permission\<close>: module/permission; \<open>PlanMode\<close>: module/planmode over the session log; \<open>RepeatTool\<close>: module/repeattool;
  \<open>SpillFilters\<close>: core/spill and module/contextfilters over the locale \<open>spill_store\<close>.

  Sessions and memory.
  \<open>SessionLog\<close>: core/session/log.go; \<open>LogSession\<close>: the two kinds of session of module/session over the
  locale \<open>session\<close>; \<open>SessionStore\<close>: core/session/store.go over the locale \<open>event_store\<close>; \<open>SessionService\<close>:
  the services and the observer of module/session; \<open>Schedule\<close>: module/schedule, reminders in the session
  log; \<open>MemoryTiers\<close> and \<open>MemoryModule\<close>: module/memory.

  Goals, jobs and children.
  \<open>GoalManager\<close>: core/goal/goal.go over the locale \<open>goal_store\<close>; \<open>GoalStores\<close>: core/goal/store.go;
  \<open>GoalLifecycle\<close>: histories of a manager; \<open>GoalRound\<close>: module/goalround; \<open>TailStore\<close> and \<open>JobRegistry\<close>:
  core/jobs; \<open>Subagents\<close>: core/orchestrate/subagent.go as a step relation; \<open>WorkflowEngine\<close>:
  agents/workflow.

  Graphs.
  \<open>StateStores\<close>: graph/state.go and core/runtime/state.go over the locale \<open>state_manager\<close>; \<open>GraphBuild\<close>
  and \<open>TopoSort\<close>: building and compiling; \<open>GraphRun\<close>: the scheduler, one step for each completion of a
  node; \<open>GraphSpec\<close>: the documented sequential run (\<open>live_states\<close>) and the one the counters of the scheduler give,
  which agree where no node behind a skipped one has a plain in-edge; \<open>GraphSched\<close>, \<open>GraphRefine\<close> and \<open>GraphProps\<close>: the refinement;
  \<open>GraphInterrupt\<close>: graph/interrupt.go as a step relation.

  Data structures, texts and tools.
  \<open>EventHub\<close>: core/hub; \<open>ScopedRegistry\<close>: core/registry; \<open>StreamTransforms\<close>: core/kernel/iterator.go and
  core/stream; \<open>JsonRepair\<close>: jsonx; \<open>ToolFiles\<close>: internal/toolutil and the part of path/filepath behind it;
  \<open>MultiEdit\<close>: tools/multiedit; \<open>SearchTools\<close>: tools/grep and tools/glob; \<open>ReadTool\<close>: tools/read;
  \<open>FileTools\<close>: tools/write, tools/rename and tools/trash.

  How code becomes definitions.  A struct is a record and an operation takes and
  returns it; an operation under a mutex is one step.  Where goroutines interact
  the model is a relation or takes the order as an argument (schedules of a
  batch, arrival of results, completions of nodes, a reader between two selects),
  and the theorems hold for every order.  An error or a panic is a value
  (a sum, an option, \<open>call\<close>), and fields such as \<open>sl_granted\<close> or \<open>sd_sent\<close> that only record a
  history are named as such where they are declared.  Maps that Go ranges over are functions or association
  lists; where the order matters it is arbitrary.

  Grain of the steps.  A job is cancelled in a step of its own after the one that decides it; a request of the breaker's
  middleware enters and leaves in separate steps; the system can refuse a rename, the rename that undoes it and any
  write of an edit.  Coarser than the code are: a call of a goal store (its system calls are one step, so that two
  processes saving one goal at once are outside the model, \<open>shared_tmp_clash\<close>), an update of a scoped registry with the calls
  of its observers, the end of a run in the memory module with the storing of its interaction, a tick of the schedule
  up to the calls of the deliver callback, which it makes after its unlock and whose outcome it does not use.  That an
  agent's turn in a child session returns is taken for granted.

  What the lemmas show.  Invariants of states under every operation and in every
  reachable state; the behaviour of operations on all branches, errors included;
  refinement of the sequential specification by the graph scheduler, of a
  store's contract by each implementation (locales and their interpretations);
  equivalence of optimised code with a reference (memoised glob matching, the
  derived surface, merged stream deltas); round trips (encodings, previews as
  patches, stored logs); bounds of budgets and of 64-bit arithmetic; progress of
  runs and termination of loops.  Where the code does not do what it says, a
  lemma shows the behaviour on a concrete input; a property whose hypotheses keep clear of such an input names the lemma.

  Fuel.  The topological sort takes as fuel the number of nodes, which is enough
  for every node to leave its queue (\<open>kahn_enough\<close>); starting and skipping nodes in one step of the
  graph scheduler takes 2 n + 1 for n nodes, since a cascade skips a node at most
  once and each skip takes two calls (\<open>tryStart_inv\<close>), and \<open>graph_run_progress\<close> shows that it never
  runs out; the chain of parent registries has the scope plus one, since a parent
  has a smaller scope (\<open>chain_from_complete\<close>); the step loop runs on the steps left and the model
  call on the retries left, both limits of the code.  The retry loop in
  persistent mode and the removal of old summaries may not return: they are
  partial functions, and what is shown of them names when they do.

  Parameters.  Outside the repository or the model are: the model, tools, hooks
  and callbacks (functions of an arbitrary world), encoding/json and other codecs
  (pairs of functions, with the round trip as a hypothesis where it is used),
  regular expressions, clocks and random numbers (arguments), sort.Slice (any
  function that sorts), the outcome of system calls.  float64 is read as an
  exact rational or real number.  Letter case and spaces are those of ASCII.

  Not modelled.  The clients of model providers (llm), MCP and web tools and the
  shell are protocols with external programs.  Reflection over Go functions
  (core/tool/func.go), tool schemas, JSON envelopes of results, log lines,
  audit and observability output decide nothing that the rest relies on.
  Assembly code (agents, core/runner), display (module/projection, session
  queries, statistics and titles), checkpoint files, the human in the loop queue,
  attachments, skills and the tools around managers that are modelled are left
  out for their size; what they call is modelled.
\<close>

end
